(* ===== verification/FK_Prelude.thy ===== *)
theory FK_Prelude
  imports Main "HOL-Library.Char_ord" "HOL-Library.List_Lexorder"
begin

text \<open>
  The vocabulary every component shares: the operations of Go's package
  \<open>strings\<close> that the sources call, on byte strings (\<open>char list\<close>); a table of rows with
  a primary key and the three SQL statements the stores run on one (\<open>UPDATE .. WHERE\<close>,
  \<open>DELETE .. WHERE\<close>, lookup); the context a store call runs under; results as
  \<open>'e + 'a\<close> with the error on the left.

  Strings are ordered byte-wise (Char_ord and List_Lexorder), which is the order of Go's
  \<open>sort.Strings\<close> and \<open><\<close> on strings and of SQLite's BINARY collation.
\<close>

named_theorems store_defs "definitions of the store operations"
named_theorems table_simps "lookups after table statements"

section \<open>Results\<close>

fun isOk :: "'e + 'a \<Rightarrow> bool" where
  "isOk (Inl _) = False"
| "isOk (Inr _) = True"

lemma isOk_iff: "isOk r \<longleftrightarrow> (\<exists>x. r = Inr x)"
  by (cases r) auto

lemma not_isOk_iff: "\<not> isOk r \<longleftrightarrow> (\<exists>e. r = Inl e)"
  by (cases r) auto

text \<open>
  A \<open>context.Context\<close> as a store call sees it: \<open>database/sql\<close> refuses a statement whose
  context is done, with the context's error; a live context lets it run. The same
  constructor carries a driver failure: either way the statement has no effect.
\<close>

datatype ctx = Live | Done string

fun ctxErr :: "ctx \<Rightarrow> string option" where
  "ctxErr Live = None"
| "ctxErr (Done e) = Some e"

lemma ctxErr_None [simp]: "ctxErr c = None \<longleftrightarrow> c = Live"
  by (cases c) auto

section \<open>Go strings\<close>

definition hasPrefix :: "string \<Rightarrow> string \<Rightarrow> bool" where
  "hasPrefix s p = (take (length p) s = p)"

definition hasSuffix :: "string \<Rightarrow> string \<Rightarrow> bool" where
  "hasSuffix s p = (length p \<le> length s \<and> drop (length s - length p) s = p)"

definition trimPrefix :: "string \<Rightarrow> string \<Rightarrow> string" where
  "trimPrefix s p = (if hasPrefix s p then drop (length p) s else s)"

text \<open>The code points \<open>unicode.IsSpace\<close> accepts, in UTF-8.\<close>

definition goSpaces :: "string list" where
  "goSpaces =
     [[CHR 0x20], [CHR 0x09], [CHR 0x0A], [CHR 0x0B], [CHR 0x0C], [CHR 0x0D],
      [CHR 0xC2, CHR 0x85], [CHR 0xC2, CHR 0xA0], [CHR 0xE1, CHR 0x9A, CHR 0x80],
      [CHR 0xE2, CHR 0x80, CHR 0x80], [CHR 0xE2, CHR 0x80, CHR 0x81],
      [CHR 0xE2, CHR 0x80, CHR 0x82], [CHR 0xE2, CHR 0x80, CHR 0x83],
      [CHR 0xE2, CHR 0x80, CHR 0x84], [CHR 0xE2, CHR 0x80, CHR 0x85],
      [CHR 0xE2, CHR 0x80, CHR 0x86], [CHR 0xE2, CHR 0x80, CHR 0x87],
      [CHR 0xE2, CHR 0x80, CHR 0x88], [CHR 0xE2, CHR 0x80, CHR 0x89],
      [CHR 0xE2, CHR 0x80, CHR 0x8A], [CHR 0xE2, CHR 0x80, CHR 0xA8],
      [CHR 0xE2, CHR 0x80, CHR 0xA9], [CHR 0xE2, CHR 0x80, CHR 0xAF],
      [CHR 0xE2, CHR 0x81, CHR 0x9F], [CHR 0xE3, CHR 0x80, CHR 0x80]]"

definition headLen :: "string list \<Rightarrow> string \<Rightarrow> nat" where
  "headLen ps s = (case find (\<lambda>p. hasPrefix s p) ps of None \<Rightarrow> 0 | Some p \<Rightarrow> length p)"

function stripHead :: "string list \<Rightarrow> string \<Rightarrow> string" where
  "stripHead ps s =
     (if s \<noteq> [] \<and> 0 < headLen ps s then stripHead ps (drop (headLen ps s) s) else s)"
  by pat_completeness auto
termination
  by (relation "measure (\<lambda>(ps, s). length s)") auto

declare stripHead.simps [simp del]

definition trimSpace :: "string \<Rightarrow> string" where
  "trimSpace s = rev (stripHead (map rev goSpaces) (rev (stripHead goSpaces s)))"

lemma hasPrefix_iff: "hasPrefix s p \<longleftrightarrow> (\<exists>r. s = p @ r)"
  unfolding hasPrefix_def by (metis append_eq_conv_conj append_take_drop_id)

lemma hasPrefix_refl [simp]: "hasPrefix s s"
  by (simp add: hasPrefix_def)

lemma hasPrefix_append [simp]: "hasPrefix (p @ r) p"
  by (simp add: hasPrefix_def)

lemma hasPrefix_Nil [simp]: "hasPrefix s []"
  by (simp add: hasPrefix_def)

lemma hasSuffix_iff: "hasSuffix s p \<longleftrightarrow> (\<exists>r. s = r @ p)"
proof
  assume "hasSuffix s p"
  then have "s = take (length s - length p) s @ p"
    unfolding hasSuffix_def by (metis append_take_drop_id)
  then show "\<exists>r. s = r @ p" ..
qed (auto simp: hasSuffix_def)

lemma stripHead_Nil [simp]: "stripHead ps [] = []"
  by (simp add: stripHead.simps)

lemma stripHead_fixed: "headLen ps (stripHead ps s) = 0 \<or> stripHead ps s = []"
proof (induction ps s rule: stripHead.induct)
  case (1 ps s)
  then show ?case
    by (cases "s \<noteq> [] \<and> 0 < headLen ps s") (auto simp: stripHead.simps [of ps s])
qed

lemma stripHead_suffix: "\<exists>r. s = r @ stripHead ps s"
proof (induction ps s rule: stripHead.induct)
  case (1 ps s)
  show ?case
  proof (cases "s \<noteq> [] \<and> 0 < headLen ps s")
    case True
    with 1 obtain r where "drop (headLen ps s) s = r @ stripHead ps (drop (headLen ps s) s)"
      by blast
    with True have "s = (take (headLen ps s) s @ r) @ stripHead ps s"
      by (metis append.assoc append_take_drop_id stripHead.simps)
    then show ?thesis ..
  next
    case False
    then have "stripHead ps s = s" by (auto simp: stripHead.simps [of ps s])
    then have "s = [] @ stripHead ps s" by simp
    then show ?thesis ..
  qed
qed

lemma trimSpace_Nil [simp]: "trimSpace [] = []"
  by (simp add: trimSpace_def)

text \<open>\<open>strings.Split\<close> on a one-byte separator and \<open>strings.Join\<close>.\<close>

fun splitOn :: "char \<Rightarrow> string \<Rightarrow> string list" where
  "splitOn c [] = [[]]"
| "splitOn c (x # xs) =
     (if x = c then [] # splitOn c xs
      else (case splitOn c xs of [] \<Rightarrow> [[x]] | l # ls \<Rightarrow> (x # l) # ls))"

fun joinWith :: "string \<Rightarrow> string list \<Rightarrow> string" where
  "joinWith sep [] = []"
| "joinWith sep [l] = l"
| "joinWith sep (l # m # ls) = l @ sep @ joinWith sep (m # ls)"

lemma splitOn_nonempty [simp]: "splitOn c s \<noteq> []"
  by (induction s) (auto split: list.splits)

lemma joinWith_Cons: "ls \<noteq> [] \<Longrightarrow> joinWith sep (l # ls) = l @ sep @ joinWith sep ls"
  by (cases ls) auto

lemma joinWith_Cons_char: "joinWith sep ((x # l) # ls) = x # joinWith sep (l # ls)"
  by (cases ls) auto

lemma join_split: "joinWith [c] (splitOn c s) = s"
proof (induction s)
  case Nil
  then show ?case by simp
next
  case (Cons x xs)
  obtain l ls where s: "splitOn c xs = l # ls"
    using splitOn_nonempty by (cases "splitOn c xs") blast+
  with Cons show ?case
    by (auto simp: joinWith_Cons_char joinWith_Cons)
qed

lemma splitOn_no_sep: "l \<in> set (splitOn c s) \<Longrightarrow> c \<notin> set l"
  by (induction s arbitrary: l) (auto split: if_splits list.splits)

lemma splitOn_no: "c \<notin> set s \<Longrightarrow> splitOn c s = [s]"
  by (induction s) auto

lemma splitOn_append: "c \<notin> set l \<Longrightarrow> splitOn c (l @ c # s) = l # splitOn c s"
  by (induction l) auto

lemma splitOn_append_sep: "splitOn c (a @ c # b) = splitOn c a @ splitOn c b"
proof (induction a)
  case (Cons x a)
  then show ?case by (cases "splitOn c a") (auto simp: splitOn_nonempty split: list.splits)
qed simp

lemma split_join:
  "ls \<noteq> [] \<Longrightarrow> \<forall>l\<in>set ls. c \<notin> set l \<Longrightarrow> splitOn c (joinWith [c] ls) = ls"
  by (induction ls rule: induct_list012) (auto simp: splitOn_append splitOn_no)

section \<open>Maxima over a list\<close>

lemma fold_max: "fold max xs (x::'a::linorder) = Max (set (x # xs))"
  by (rule Max.set_eq_fold [symmetric])

lemma fold_max_ge: "y \<in> set (x # xs) \<Longrightarrow> y \<le> fold max xs (x::'a::linorder)"
  unfolding fold_max by (rule Max_ge) auto

lemma fold_max_in: "fold max xs (x::'a::linorder) \<in> set (x # xs)"
  unfolding fold_max by (rule Max_in) auto

section \<open>Tables\<close>

text \<open>
  A table is the list of its rows in insertion order. \<open>updateWhere\<close> is
  \<open>UPDATE .. SET f WHERE p\<close>, whose row count is \<open>countWhere\<close>; \<open>deleteWhere\<close> is
  \<open>DELETE .. WHERE p\<close>; \<open>lookupBy\<close> reads the row with a given primary key.
\<close>

definition updateWhere :: "('r \<Rightarrow> bool) \<Rightarrow> ('r \<Rightarrow> 'r) \<Rightarrow> 'r list \<Rightarrow> 'r list" where
  "updateWhere p f rs = map (\<lambda>r. if p r then f r else r) rs"

definition countWhere :: "('r \<Rightarrow> bool) \<Rightarrow> 'r list \<Rightarrow> nat" where
  "countWhere p rs = length (filter p rs)"

definition deleteWhere :: "('r \<Rightarrow> bool) \<Rightarrow> 'r list \<Rightarrow> 'r list" where
  "deleteWhere p rs = filter (\<lambda>r. \<not> p r) rs"

definition lookupBy :: "('r \<Rightarrow> 'k) \<Rightarrow> 'k \<Rightarrow> 'r list \<Rightarrow> 'r option" where
  "lookupBy key k rs = find (\<lambda>r. key r = k) rs"

definition hasKey :: "('r \<Rightarrow> 'k) \<Rightarrow> 'k \<Rightarrow> 'r list \<Rightarrow> bool" where
  "hasKey key k rs = list_ex (\<lambda>r. key r = k) rs"

lemma hasKey_iff: "hasKey key k rs \<longleftrightarrow> k \<in> key ` set rs"
  by (auto simp: hasKey_def list_ex_iff)

lemma countWhere_0: "countWhere p rs = 0 \<longleftrightarrow> (\<forall>r\<in>set rs. \<not> p r)"
  by (auto simp: countWhere_def filter_empty_conv)

lemma updateWhere_none: "\<forall>r\<in>set rs. \<not> p r \<Longrightarrow> updateWhere p f rs = rs"
  unfolding updateWhere_def by (rule map_idI) auto

lemma length_updateWhere [simp]: "length (updateWhere p f rs) = length rs"
  by (simp add: updateWhere_def)

lemma set_updateWhere: "set (updateWhere p f rs) = (\<lambda>r. if p r then f r else r) ` set rs"
  by (simp add: updateWhere_def)

lemma set_deleteWhere [simp]: "set (deleteWhere p rs) = {r \<in> set rs. \<not> p r}"
  by (auto simp: deleteWhere_def)

text \<open>Foreign keys survive a delete that cascades, or that only removes referring rows.\<close>

lemma refs_cascade: "f ` S \<subseteq> g ` T \<Longrightarrow> f ` {x \<in> S. f x \<noteq> k} \<subseteq> g ` {y \<in> T. g y \<noteq> k}"
  by force

lemma refs_delete: "f ` S \<subseteq> A \<Longrightarrow> f ` {x \<in> S. P x} \<subseteq> A"
  by blast

lemma keys_updateWhere:
  "(\<And>r. key (f r) = key r) \<Longrightarrow> map key (updateWhere p f rs) = map key rs"
  by (auto simp: updateWhere_def)

lemma lookupBy_None: "lookupBy key k rs = None \<longleftrightarrow> k \<notin> key ` set rs"
  by (auto simp: lookupBy_def find_None_iff)

lemma lookupBy_SomeD: "lookupBy key k rs = Some r \<Longrightarrow> r \<in> set rs \<and> key r = k"
  by (auto simp: lookupBy_def find_Some_iff)

lemma lookupBy_Nil [simp]: "lookupBy key k [] = None"
  by (simp add: lookupBy_def)

lemma lookupBy_Cons [simp]:
  "lookupBy key k (r # rs) = (if key r = k then Some r else lookupBy key k rs)"
  by (simp add: lookupBy_def)

lemma lookupBy_append [simp]:
  "lookupBy key k (rs @ rs') =
     (case lookupBy key k rs of Some r \<Rightarrow> Some r | None \<Rightarrow> lookupBy key k rs')"
  by (induction rs) auto

lemma lookupBy_unique:
  "distinct (map key rs) \<Longrightarrow> r \<in> set rs \<Longrightarrow> lookupBy key (key r) rs = Some r"
  by (induction rs) (auto simp: image_iff)

lemma lookupBy_iff:
  "distinct (map key rs) \<Longrightarrow> lookupBy key k rs = Some r \<longleftrightarrow> r \<in> set rs \<and> key r = k"
  by (auto dest: lookupBy_SomeD intro: lookupBy_unique)

lemma lookupBy_updateWhere [table_simps]:
  assumes "\<And>r. key (f r) = key r"
  shows "lookupBy key k (updateWhere p f rs) =
    map_option (\<lambda>r. if p r then f r else r) (lookupBy key k rs)"
  using assms by (induction rs) (auto simp: updateWhere_def)

lemma lookupBy_deleteWhere:
  assumes "distinct (map key rs)"
  shows "lookupBy key k (deleteWhere p rs) =
    (case lookupBy key k rs of None \<Rightarrow> None | Some r \<Rightarrow> if p r then None else Some r)"
  using assms
proof (induction rs)
  case Nil
  then show ?case by (simp add: deleteWhere_def)
next
  case (Cons r rs)
  then have "lookupBy key (key r) rs = None" by (simp add: lookupBy_None)
  with Cons show ?case by (auto simp: deleteWhere_def)
qed

text \<open>A statement whose WHERE clause fixes the primary key touches at most one row.\<close>

lemma countWhere_key:
  assumes "distinct (map key rs)"
  shows "countWhere (\<lambda>r. key r = k \<and> q r) rs =
    (case lookupBy key k rs of None \<Rightarrow> 0 | Some r \<Rightarrow> if q r then 1 else 0)"
  using assms
proof (induction rs)
  case Nil
  then show ?case by (simp add: countWhere_def)
next
  case (Cons r rs)
  show ?case
  proof (cases "key r = k")
    case True
    with Cons.prems have "\<forall>r'\<in>set rs. \<not> (key r' = k \<and> q r')" by (auto simp: image_iff)
    then have "filter (\<lambda>r. key r = k \<and> q r) rs = []" by (simp add: filter_empty_conv)
    with True show ?thesis by (simp add: countWhere_def)
  next
    case False
    with Cons show ?thesis by (simp add: countWhere_def)
  qed
qed

lemma distinct_keys_updateWhere:
  "(\<And>r. key (f r) = key r) \<Longrightarrow> distinct (map key rs) \<Longrightarrow> distinct (map key (updateWhere p f rs))"
  by (simp add: keys_updateWhere)

lemma distinct_keys_deleteWhere:
  "distinct (map key rs) \<Longrightarrow> distinct (map key (deleteWhere p rs))"
  unfolding deleteWhere_def by (rule distinct_map_filter)

end
