(* ===== verification/Task_Model.thy ===== *)
theory Task_Model
  imports FK_Prelude Complex_Main
begin

text \<open>
  Package \<open>internal/task\<close>: the status, finalization, error-code and event-kind
  enumerations (Go string types with named constants; any other string is the
  \<open>Other\<close> constructor, which \<open>Valid\<close> rejects), the records Task, Subtask,
  AgentEvent and SessionUsage, their \<open>Validate\<close> methods with one error value per
  return statement, and the state machine of transition.go.
  Times are counted in microseconds, the resolution the store keeps; 0 is Go's zero time.
\<close>

section \<open>Enumerations\<close>

datatype status =
    StatusPlanning | StatusQueued | StatusInProgress | StatusAIReview | StatusHumanReview
  | StatusDone | StatusCancelled | StatusAborted | StatusFailed | StatusOther string

fun statusValid :: "status \<Rightarrow> bool" where
  "statusValid (StatusOther _) = False"
| "statusValid _ = True"

fun isTerminal :: "status \<Rightarrow> bool" where
  "isTerminal StatusDone = True"
| "isTerminal StatusCancelled = True"
| "isTerminal StatusFailed = True"
| "isTerminal _ = False"

datatype finalization_kind =
    FinalizationNone | FinalizationKeep | FinalizationMerged | FinalizationOther string

fun finalizationValid :: "finalization_kind \<Rightarrow> bool" where
  "finalizationValid (FinalizationOther _) = False"
| "finalizationValid _ = True"

datatype error_code =
    ErrCodeNone | ErrCodeRuntime | ErrCodeInterrupted | ErrCodePathEscape
  | ErrCodeMergeConflict | ErrCodeTimeout | ErrCodeAuth | ErrCodeAIReview
  | ErrCodeOther string

section \<open>Task\<close>

type_synonym time = nat

record task =
  tID :: string
  tRepoID :: string
  tGoal :: string
  tBaseBranch :: string
  tBranch :: string
  tWorktreePath :: string
  tModel :: string
  tPlanModel :: string
  tReviewModel :: string
  tStatus :: status
  tFinalization :: finalization_kind
  tErrorCode :: error_code
  tErrorMessage :: string
  tSessionID :: string
  tBranchExists :: bool
  tReviewFeedback :: string
  tReworkCount :: int
  tCreatedAt :: time
  tUpdatedAt :: time
  tStartedAt :: "time option"
  tFinishedAt :: "time option"

datatype task_error =
    TaskIDRequired
  | TaskRepoIDRequired string
  | TaskGoalRequired string
  | TaskInvalidStatus string status
  | TaskInvalidFinalization string finalization_kind
  | TaskFailedNeedsErrorCode string
  | TaskErrorCodeOnNonFailed string error_code
  | TaskDoneNeedsFinalization string
  | TaskFinalizationOnNonDone string finalization_kind
  | TaskInvalidTarget string status
  | TaskIllegalTransition string status status

definition taskValidate :: "task \<Rightarrow> task_error option" where
  "taskValidate t =
     (if tID t = [] then Some TaskIDRequired
      else if tRepoID t = [] then Some (TaskRepoIDRequired (tID t))
      else if tGoal t = [] then Some (TaskGoalRequired (tID t))
      else if \<not> statusValid (tStatus t) then Some (TaskInvalidStatus (tID t) (tStatus t))
      else if \<not> finalizationValid (tFinalization t)
        then Some (TaskInvalidFinalization (tID t) (tFinalization t))
      else if tStatus t = StatusFailed \<and> tErrorCode t = ErrCodeNone
        then Some (TaskFailedNeedsErrorCode (tID t))
      else if tStatus t \<noteq> StatusFailed \<and> tErrorCode t \<noteq> ErrCodeNone
        then Some (TaskErrorCodeOnNonFailed (tID t) (tErrorCode t))
      else if tStatus t = StatusDone \<and> tFinalization t = FinalizationNone
        then Some (TaskDoneNeedsFinalization (tID t))
      else if tStatus t \<noteq> StatusDone \<and> tFinalization t \<noteq> FinalizationNone
        then Some (TaskFinalizationOnNonDone (tID t) (tFinalization t))
      else None)"

section \<open>The state machine\<close>

fun allowedTransitions :: "status \<Rightarrow> status list option" where
  "allowedTransitions StatusQueued = Some [StatusPlanning, StatusCancelled, StatusInProgress]"
| "allowedTransitions StatusPlanning =
     Some [StatusInProgress, StatusFailed, StatusAborted, StatusCancelled]"
| "allowedTransitions StatusInProgress = Some [StatusAIReview, StatusFailed, StatusAborted]"
| "allowedTransitions StatusAIReview =
     Some [StatusHumanReview, StatusFailed, StatusQueued, StatusAborted]"
| "allowedTransitions StatusHumanReview = Some [StatusDone, StatusCancelled, StatusQueued]"
| "allowedTransitions StatusAborted = Some [StatusDone, StatusCancelled, StatusQueued]"
| "allowedTransitions StatusFailed = Some [StatusQueued]"
| "allowedTransitions _ = None"

definition canTransition :: "status \<Rightarrow> status \<Rightarrow> bool" where
  "canTransition from to =
     (if from = to then False
      else case allowedTransitions from of None \<Rightarrow> False | Some tos \<Rightarrow> to \<in> set tos)"

definition taskTransition :: "task \<Rightarrow> status \<Rightarrow> task_error + task" where
  "taskTransition t next =
     (if \<not> statusValid next then Inl (TaskInvalidTarget (tID t) next)
      else if \<not> canTransition (tStatus t) next
        then Inl (TaskIllegalTransition (tID t) (tStatus t) next)
      else Inr (t\<lparr>tStatus := next\<rparr>))"

lemma canTransition_irrefl [simp]: "\<not> canTransition s s"
  by (simp add: canTransition_def)

lemma canTransition_simps [simp]:
  "canTransition StatusQueued s \<longleftrightarrow> s = StatusPlanning \<or> s = StatusCancelled \<or> s = StatusInProgress"
  "canTransition StatusPlanning s \<longleftrightarrow>
     s = StatusInProgress \<or> s = StatusFailed \<or> s = StatusAborted \<or> s = StatusCancelled"
  "canTransition StatusInProgress s \<longleftrightarrow> s = StatusAIReview \<or> s = StatusFailed \<or> s = StatusAborted"
  "canTransition StatusAIReview s \<longleftrightarrow>
     s = StatusHumanReview \<or> s = StatusFailed \<or> s = StatusQueued \<or> s = StatusAborted"
  "canTransition StatusHumanReview s \<longleftrightarrow> s = StatusDone \<or> s = StatusCancelled \<or> s = StatusQueued"
  "canTransition StatusAborted s \<longleftrightarrow> s = StatusDone \<or> s = StatusCancelled \<or> s = StatusQueued"
  "canTransition StatusFailed s \<longleftrightarrow> s = StatusQueued"
  "\<not> canTransition StatusDone s"
  "\<not> canTransition StatusCancelled s"
  "\<not> canTransition (StatusOther x) s"
  by (auto simp: canTransition_def)

lemma canTransition_valid: "canTransition s s' \<Longrightarrow> statusValid s \<and> statusValid s'"
  by (cases s) auto

text \<open>Runs of the state machine.\<close>

inductive reach :: "status \<Rightarrow> status \<Rightarrow> bool" where
  reach_refl: "reach s s"
| reach_step: "canTransition s s' \<Longrightarrow> reach s' s'' \<Longrightarrow> reach s s''"

inductive_simps reach_from_done: "reach StatusDone s"
inductive_simps reach_from_cancelled: "reach StatusCancelled s"

lemma reach_one: "canTransition s s' \<Longrightarrow> reach s s'"
  by (blast intro: reach.intros)

lemma reach_trans: "reach s s' \<Longrightarrow> reach s' s'' \<Longrightarrow> reach s s''"
  by (induction rule: reach.induct) (auto intro: reach.intros)

lemma into_done: "canTransition s StatusDone \<longleftrightarrow> s = StatusHumanReview \<or> s = StatusAborted"
  by (cases s) auto

lemma done_via_decision:
  "reach s s' \<Longrightarrow> s' = StatusDone \<Longrightarrow> s \<noteq> StatusDone \<Longrightarrow>
     \<exists>d \<in> {StatusHumanReview, StatusAborted}. reach s d"
proof (induction rule: reach.induct)
  case (reach_refl s)
  then show ?case by simp
next
  case (reach_step s s' s'')
  show ?case
  proof (cases "s' = StatusDone")
    case True
    with reach_step have "s = StatusHumanReview \<or> s = StatusAborted" by (simp add: into_done)
    then show ?thesis by (auto intro: reach.reach_refl)
  next
    case False
    with reach_step show ?thesis by (blast intro: reach.reach_step)
  qed
qed

lemma queued_reaches_all: "statusValid s \<Longrightarrow> reach StatusQueued s"
proof -
  have q: "reach StatusQueued StatusQueued" by (rule reach_refl)
  have i: "reach StatusQueued StatusInProgress" by (rule reach_one) simp
  have a: "reach StatusQueued StatusAIReview" by (rule reach_trans [OF i reach_one]) simp
  have h: "reach StatusQueued StatusHumanReview" by (rule reach_trans [OF a reach_one]) simp
  have d: "reach StatusQueued StatusDone" by (rule reach_trans [OF h reach_one]) simp
  have p: "reach StatusQueued StatusPlanning" by (rule reach_one) simp
  have c: "reach StatusQueued StatusCancelled" by (rule reach_one) simp
  have b: "reach StatusQueued StatusAborted" by (rule reach_trans [OF i reach_one]) simp
  have f: "reach StatusQueued StatusFailed" by (rule reach_trans [OF i reach_one]) simp
  show "statusValid s \<Longrightarrow> reach StatusQueued s"
    using q i a h d p c b f by (cases s) auto
qed

lemma live_reaches_queued:
  "statusValid s \<Longrightarrow> s \<noteq> StatusDone \<Longrightarrow> s \<noteq> StatusCancelled \<Longrightarrow> reach s StatusQueued"
proof -
  have f: "reach StatusFailed StatusQueued" and h: "reach StatusHumanReview StatusQueued"
    and b: "reach StatusAborted StatusQueued" and a: "reach StatusAIReview StatusQueued"
    by (rule reach_one, simp)+
  have i: "reach StatusInProgress StatusQueued"
    by (rule reach_step [OF _ a]) simp
  have p: "reach StatusPlanning StatusQueued"
    by (rule reach_step [OF _ f]) simp
  show "statusValid s \<Longrightarrow> s \<noteq> StatusDone \<Longrightarrow> s \<noteq> StatusCancelled \<Longrightarrow> reach s StatusQueued"
    using f h b a i p by (cases s) (auto intro: reach_refl)
qed

section \<open>Subtasks\<close>

datatype subtask_status =
  SubtaskPending | SubtaskDoing | SubtaskDone | SubtaskFailed | SubtaskOther string

fun subtaskStatusValid :: "subtask_status \<Rightarrow> bool" where
  "subtaskStatusValid (SubtaskOther _) = False"
| "subtaskStatusValid _ = True"

record subtask =
  sID :: string
  sTaskID :: string
  sTitle :: string
  sAgentRole :: string
  sDependsOn :: "string list"
  sWritePaths :: "string list"
  sStatus :: subtask_status
  sOrderIdx :: int
  sCodeModel :: string
  sRound :: int
  sPrompt :: string
  sCreatedAt :: time
  sUpdatedAt :: time

record prior_summary =
  pTitle :: string
  pRole :: string
  pSummary :: string

record run_context =
  rcPlanSummary :: string
  rcPrior :: "prior_summary list"
  rcIsFinal :: bool

datatype subtask_error =
    SubIDRequired
  | SubTaskIDRequired string
  | SubTitleRequired string
  | SubInvalidStatus string subtask_status
  | SubEmptyDependency string
  | SubSelfDependency string

fun validateDeps :: "string \<Rightarrow> string list \<Rightarrow> subtask_error option" where
  "validateDeps i [] = None"
| "validateDeps i (d # ds) =
     (if d = [] then Some (SubEmptyDependency i)
      else if d = i then Some (SubSelfDependency i)
      else validateDeps i ds)"

definition subtaskValidate :: "subtask \<Rightarrow> subtask_error option" where
  "subtaskValidate s =
     (if sID s = [] then Some SubIDRequired
      else if sTaskID s = [] then Some (SubTaskIDRequired (sID s))
      else if sTitle s = [] then Some (SubTitleRequired (sID s))
      else if \<not> subtaskStatusValid (sStatus s) then Some (SubInvalidStatus (sID s) (sStatus s))
      else validateDeps (sID s) (sDependsOn s))"

lemma validateDeps_None: "validateDeps i ds = None \<longleftrightarrow> [] \<notin> set ds \<and> i \<notin> set ds"
  by (induction ds) auto

lemma subtaskValidate_None:
  "subtaskValidate s = None \<longleftrightarrow>
     sID s \<noteq> [] \<and> sTaskID s \<noteq> [] \<and> sTitle s \<noteq> [] \<and> subtaskStatusValid (sStatus s) \<and>
     [] \<notin> set (sDependsOn s) \<and> sID s \<notin> set (sDependsOn s)"
  by (auto simp: subtaskValidate_def validateDeps_None)

section \<open>Usage and events\<close>

record session_usage =
  uModel :: string
  uPremiumRequests :: rat
  uInputTokens :: int
  uOutputTokens :: int
  uCacheReadTokens :: int
  uDurationMs :: int
  uCalls :: int

definition usageIsZero :: "session_usage \<Rightarrow> bool" where
  "usageIsZero u =
     (uPremiumRequests u = 0 \<and> uInputTokens u = 0 \<and> uOutputTokens u = 0 \<and>
      uCacheReadTokens u = 0 \<and> uDurationMs u = 0 \<and> uCalls u = 0)"

datatype event_kind =
    EventSessionStart | EventSessionIdle | EventStatus
  | EventAssistantDelta | EventAssistantReasoningDelta
  | EventToolStart | EventToolEnd | EventPermissionRequest
  | EventSubtaskStart | EventSubtaskEnd
  | EventError | EventSecurityPathEscape
  | EventReviewSubmitted | EventAIReviewStart | EventAIReviewDecision
  | EventHousekeepingBranchGC | EventSessionUsage | EventPlanSummary | EventFileChanged
  | EventOther string

fun eventKindValid :: "event_kind \<Rightarrow> bool" where
  "eventKindValid (EventOther _) = False"
| "eventKindValid _ = True"

text \<open>
  \<open>AgentEvent.Payload\<close> is a string. Streamed text is \<open>PText\<close>; where the code encodes
  a JSON object, the payload keeps the values the object carries.
\<close>

datatype payload =
    PText string
  | PStatus status status
  | PSubtaskStart string string string
  | PSubtaskEnd string bool "string option"
  | PUsage string session_usage "string option"
  | PPlanSummary int string
  | PAIReviewStart int string
  | PAIReviewDecision bool string string int int string bool
  | PReviewSubmitted string string int
  | PBranchGC string string string
  | PBranchSweep string string string string
  | PBranchFlag string string string bool
  | PToolStart string string string
  | PToolEnd string string bool string string
  | PPathEscape string string

record agent_event =
  eID :: string
  eTaskID :: string
  eSeq :: int
  eKind :: event_kind
  ePayload :: payload
  eOccurredAt :: time

datatype event_error = EvIDRequired | EvTaskIDRequired string | EvInvalidKind string event_kind

definition eventValidate :: "agent_event \<Rightarrow> event_error option" where
  "eventValidate e =
     (if eID e = [] then Some EvIDRequired
      else if eTaskID e = [] then Some (EvTaskIDRequired (eID e))
      else if \<not> eventKindValid (eKind e) then Some (EvInvalidKind (eID e) (eKind e))
      else None)"

section \<open>Consequences of validation\<close>

lemma taskValidate_None:
  "taskValidate t = None \<longleftrightarrow>
     tID t \<noteq> [] \<and> tRepoID t \<noteq> [] \<and> tGoal t \<noteq> [] \<and> statusValid (tStatus t) \<and>
     finalizationValid (tFinalization t) \<and>
     (tStatus t = StatusFailed \<longleftrightarrow> tErrorCode t \<noteq> ErrCodeNone) \<and>
     (tStatus t = StatusDone \<longleftrightarrow> tFinalization t \<noteq> FinalizationNone)"
  by (auto simp: taskValidate_def)

lemma eventValidate_None:
  "eventValidate e = None \<longleftrightarrow> eID e \<noteq> [] \<and> eTaskID e \<noteq> [] \<and> eventKindValid (eKind e)"
  by (auto simp: eventValidate_def)

end
