(* ===== verification/Database.thy ===== *)
theory Database
  imports Task_Model
begin

text \<open>
  The SQLite schema of \<open>internal/store/migrations.go\<close> at its last version, as far as the
  modelled stores use it: the rows of \<open>repositories\<close>, \<open>tasks\<close>, \<open>subtasks\<close> and
  \<open>events\<close>, the conversions between rows and the records of package task, and
  \<open>wfDB\<close>, the invariant the schema (keys, foreign keys, CHECKs) and the stores'
  validation keep between them. TEXT columns that are NULL are options; \<open>formatTime\<close>'s
  empty string is the time 0.
\<close>

section \<open>Rows\<close>

record repo_row =
  rp_id :: string
  rp_path :: string
  rp_display_name :: string
  rp_default_base_branch :: "string option"
  rp_created_at :: time
  rp_last_used_at :: "time option"

record task_row =
  r_id :: string
  r_repository_id :: string
  r_goal :: string
  r_base_branch :: string
  r_branch :: "string option"
  r_worktree_path :: "string option"
  r_branch_exists :: int
  r_model :: string
  r_plan_model :: string
  r_review_model :: string
  r_status :: status
  r_finalization :: finalization_kind
  r_error_code :: error_code
  r_error_message :: string
  r_session_id :: string
  r_review_feedback :: string
  r_rework_count :: int
  r_created_at :: time
  r_updated_at :: time
  r_started_at :: "time option"
  r_finished_at :: "time option"

record subtask_row =
  q_id :: string
  q_task_id :: string
  q_title :: string
  q_agent_role :: string
  q_depends_on :: "string list"
  q_write_paths :: "string list"
  q_status :: subtask_status
  q_order_idx :: int
  q_code_model :: string
  q_round :: int
  q_prompt :: string
  q_created_at :: time
  q_updated_at :: time

record db =
  repositories :: "repo_row list"
  tasks :: "task_row list"
  subtasks :: "subtask_row list"
  events :: "agent_event list"

datatype store_error =
    EInvalidTask task_error
  | EInvalidSubtask subtask_error
  | EInvalidEvent event_error
  | EIllegalTransition string status status
  | EFailedNeedsErrorCode string
  | EDoneNeedsFinalization string
  | ENotFound
  | EStaleUpdate
  | EDuplicateSeq
  | EDuplicatePath
  | EMissingField string
  | ENotUnderParent string string
  | EWrongParent string string string
  | EConstraint string
  | EExec string

section \<open>Times and nullable columns\<close>

definition nullablePtr :: "time option \<Rightarrow> time option" where
  "nullablePtr t = (case t of None \<Rightarrow> None | Some x \<Rightarrow> if x = 0 then None else Some x)"

definition scanNullableTime :: "time option \<Rightarrow> time option" where
  "scanNullableTime t = (case t of None \<Rightarrow> None | Some x \<Rightarrow> if x = 0 then None else Some x)"

fun orEmpty :: "string option \<Rightarrow> string" where
  "orEmpty None = []"
| "orEmpty (Some s) = s"

lemma scan_nullable: "scanNullableTime (nullablePtr t) = nullablePtr t"
  by (auto simp: nullablePtr_def scanNullableTime_def split: option.splits)

section \<open>Reading rows back\<close>

definition scanTask :: "task_row \<Rightarrow> task" where
  "scanTask r = \<lparr>
     tID = r_id r, tRepoID = r_repository_id r, tGoal = r_goal r,
     tBaseBranch = r_base_branch r, tBranch = orEmpty (r_branch r),
     tWorktreePath = orEmpty (r_worktree_path r), tModel = r_model r,
     tPlanModel = r_plan_model r, tReviewModel = r_review_model r,
     tStatus = r_status r, tFinalization = r_finalization r,
     tErrorCode = r_error_code r, tErrorMessage = r_error_message r,
     tSessionID = r_session_id r, tBranchExists = (r_branch_exists r \<noteq> 0),
     tReviewFeedback = r_review_feedback r, tReworkCount = r_rework_count r,
     tCreatedAt = r_created_at r, tUpdatedAt = r_updated_at r,
     tStartedAt = scanNullableTime (r_started_at r),
     tFinishedAt = scanNullableTime (r_finished_at r)\<rparr>"

definition scanSubtask :: "subtask_row \<Rightarrow> subtask" where
  "scanSubtask q = \<lparr>
     sID = q_id q, sTaskID = q_task_id q, sTitle = q_title q, sAgentRole = q_agent_role q,
     sDependsOn = q_depends_on q, sWritePaths = q_write_paths q, sStatus = q_status q,
     sOrderIdx = q_order_idx q, sCodeModel = q_code_model q, sRound = q_round q,
     sPrompt = q_prompt q, sCreatedAt = q_created_at q, sUpdatedAt = q_updated_at q\<rparr>"

lemma scanTask_sel [simp]:
  "tID (scanTask r) = r_id r"
  "tRepoID (scanTask r) = r_repository_id r"
  "tGoal (scanTask r) = r_goal r"
  "tBaseBranch (scanTask r) = r_base_branch r"
  "tBranch (scanTask r) = orEmpty (r_branch r)"
  "tWorktreePath (scanTask r) = orEmpty (r_worktree_path r)"
  "tModel (scanTask r) = r_model r"
  "tPlanModel (scanTask r) = r_plan_model r"
  "tReviewModel (scanTask r) = r_review_model r"
  "tStatus (scanTask r) = r_status r"
  "tFinalization (scanTask r) = r_finalization r"
  "tErrorCode (scanTask r) = r_error_code r"
  "tErrorMessage (scanTask r) = r_error_message r"
  "tSessionID (scanTask r) = r_session_id r"
  "tBranchExists (scanTask r) = (r_branch_exists r \<noteq> 0)"
  "tReviewFeedback (scanTask r) = r_review_feedback r"
  "tReworkCount (scanTask r) = r_rework_count r"
  "tCreatedAt (scanTask r) = r_created_at r"
  "tUpdatedAt (scanTask r) = r_updated_at r"
  "tStartedAt (scanTask r) = scanNullableTime (r_started_at r)"
  "tFinishedAt (scanTask r) = scanNullableTime (r_finished_at r)"
  by (simp_all add: scanTask_def)

lemma scanSubtask_sel [simp]:
  "sID (scanSubtask q) = q_id q"
  "sTaskID (scanSubtask q) = q_task_id q"
  "sTitle (scanSubtask q) = q_title q"
  "sAgentRole (scanSubtask q) = q_agent_role q"
  "sDependsOn (scanSubtask q) = q_depends_on q"
  "sWritePaths (scanSubtask q) = q_write_paths q"
  "sStatus (scanSubtask q) = q_status q"
  "sOrderIdx (scanSubtask q) = q_order_idx q"
  "sCodeModel (scanSubtask q) = q_code_model q"
  "sRound (scanSubtask q) = q_round q"
  "sPrompt (scanSubtask q) = q_prompt q"
  by (simp_all add: scanSubtask_def)

section \<open>The invariant\<close>

definition taskRowOk :: "task_row \<Rightarrow> bool" where
  "taskRowOk r \<longleftrightarrow> taskValidate (scanTask r) = None"

definition subtaskRowOk :: "subtask_row \<Rightarrow> bool" where
  "subtaskRowOk q \<longleftrightarrow> subtaskValidate (scanSubtask q) = None \<and> 1 \<le> q_round q"

definition eventRowOk :: "agent_event \<Rightarrow> bool" where
  "eventRowOk e \<longleftrightarrow> eventValidate e = None"

definition keysOk :: "db \<Rightarrow> bool" where
  "keysOk d \<longleftrightarrow> distinct (map rp_id (repositories d)) \<and> distinct (map r_id (tasks d)) \<and>
     distinct (map q_id (subtasks d)) \<and> distinct (map eID (events d)) \<and>
     distinct (map (\<lambda>e. (eTaskID e, eSeq e)) (events d)) \<and>
     distinct (map rp_path (repositories d))"

definition refsOk :: "db \<Rightarrow> bool" where
  "refsOk d \<longleftrightarrow>
     r_repository_id ` set (tasks d) \<subseteq> rp_id ` set (repositories d) \<and>
     q_task_id ` set (subtasks d) \<subseteq> r_id ` set (tasks d) \<and>
     eTaskID ` set (events d) \<subseteq> r_id ` set (tasks d)"

definition rowsOk :: "db \<Rightarrow> bool" where
  "rowsOk d \<longleftrightarrow> (\<forall>r\<in>set (tasks d). taskRowOk r) \<and> (\<forall>q\<in>set (subtasks d). subtaskRowOk q) \<and>
     (\<forall>e\<in>set (events d). eventRowOk e)"

definition wfDB :: "db \<Rightarrow> bool" where
  "wfDB d \<longleftrightarrow> keysOk d \<and> refsOk d \<and> rowsOk d"

lemma wfDB_task_keys: "wfDB d \<Longrightarrow> distinct (map r_id (tasks d))"
  by (simp add: wfDB_def keysOk_def)

lemma wfDB_subtask_keys: "wfDB d \<Longrightarrow> distinct (map q_id (subtasks d))"
  by (simp add: wfDB_def keysOk_def)

lemma wfDB_event_keys: "wfDB d \<Longrightarrow> distinct (map (\<lambda>e. (eTaskID e, eSeq e)) (events d))"
  by (simp add: wfDB_def keysOk_def)

lemma taskRowOk_iff:
  "taskRowOk r \<longleftrightarrow>
     r_id r \<noteq> [] \<and> r_repository_id r \<noteq> [] \<and> r_goal r \<noteq> [] \<and> statusValid (r_status r) \<and>
     finalizationValid (r_finalization r) \<and>
     (r_status r = StatusFailed \<longleftrightarrow> r_error_code r \<noteq> ErrCodeNone) \<and>
     (r_status r = StatusDone \<longleftrightarrow> r_finalization r \<noteq> FinalizationNone)"
  by (auto simp: taskRowOk_def taskValidate_None)

text \<open>
  Statements on \<open>tasks\<close> that keep the two key columns keep the invariant when they keep
  \<open>taskRowOk\<close> on the rows they touch.
\<close>

lemma wfDB_updateWhere_tasks:
  assumes wf: "wfDB d" and key: "\<And>r. r_id (f r) = r_id r"
    and repo: "\<And>r. r_repository_id (f r) = r_repository_id r"
    and ok: "\<And>r. r \<in> set (tasks d) \<Longrightarrow> p r \<Longrightarrow> taskRowOk r \<Longrightarrow> taskRowOk (f r)"
  shows "wfDB (d\<lparr>tasks := updateWhere p f (tasks d)\<rparr>)"
proof -
  have ids: "map r_id (updateWhere p f (tasks d)) = map r_id (tasks d)"
    by (rule keys_updateWhere) (rule key)
  have repos: "map r_repository_id (updateWhere p f (tasks d)) = map r_repository_id (tasks d)"
    by (rule keys_updateWhere) (rule repo)
  from ids have "r_id ` set (updateWhere p f (tasks d)) = r_id ` set (tasks d)"
    by (metis list.set_map)
  moreover from repos
  have "r_repository_id ` set (updateWhere p f (tasks d)) = r_repository_id ` set (tasks d)"
    by (metis list.set_map)
  ultimately show ?thesis
    using wf ids ok by (auto simp: wfDB_def keysOk_def refsOk_def rowsOk_def set_updateWhere)
qed

lemma wfDB_updateWhere_subtasks:
  assumes wf: "wfDB d" and key: "\<And>r. q_id (f r) = q_id r"
    and parent: "\<And>r. q_task_id (f r) = q_task_id r"
    and ok: "\<And>r. r \<in> set (subtasks d) \<Longrightarrow> p r \<Longrightarrow> subtaskRowOk r \<Longrightarrow> subtaskRowOk (f r)"
  shows "wfDB (d\<lparr>subtasks := updateWhere p f (subtasks d)\<rparr>)"
proof -
  have ids: "map q_id (updateWhere p f (subtasks d)) = map q_id (subtasks d)"
    by (rule keys_updateWhere) (rule key)
  have "map q_task_id (updateWhere p f (subtasks d)) = map q_task_id (subtasks d)"
    by (rule keys_updateWhere) (rule parent)
  then have "q_task_id ` set (updateWhere p f (subtasks d)) = q_task_id ` set (subtasks d)"
    by (metis list.set_map)
  with wf ids ok show ?thesis
    by (auto simp: wfDB_def keysOk_def refsOk_def rowsOk_def set_updateWhere)
qed

definition emptyDB :: db where
  "emptyDB = \<lparr>repositories = [], tasks = [], subtasks = [], events = []\<rparr>"

lemma wfDB_empty: "wfDB emptyDB"
  by (simp add: emptyDB_def wfDB_def keysOk_def refsOk_def rowsOk_def)

end
