(* ===== verification/Task_Store.thy ===== *)
theory Task_Store
  imports Database
begin

text \<open>
  \<open>internal/store/task_store.go\<close>: the operations of TaskStore, each from the store call
  to the SQL statement and its row count. An operation that fails leaves the database as
  it was (single statements are atomic, transactions roll back), so it returns
  \<open>Inl\<close> error or \<open>Inr\<close> the new database. The argument of type \<open>time\<close> is \<open>nowUTC()\<close>.
\<close>

section \<open>Create and Get\<close>

definition taskBranchExistsCol :: "task \<Rightarrow> int" where
  "taskBranchExistsCol t =
     (if \<not> tBranchExists t \<and> tStatus t \<noteq> StatusPlanning \<and> tStatus t \<noteq> StatusQueued then 0 else 1)"

definition taskRowOf :: "time \<Rightarrow> task \<Rightarrow> task_row" where
  "taskRowOf now t = \<lparr>
     r_id = tID t, r_repository_id = tRepoID t, r_goal = tGoal t, r_base_branch = tBaseBranch t,
     r_branch = Some (tBranch t), r_worktree_path = Some (tWorktreePath t),
     r_branch_exists = taskBranchExistsCol t, r_model = tModel t, r_plan_model = tPlanModel t,
     r_review_model = tReviewModel t, r_status = tStatus t, r_finalization = tFinalization t,
     r_error_code = tErrorCode t, r_error_message = tErrorMessage t,
     r_session_id = tSessionID t, r_review_feedback = tReviewFeedback t,
     r_rework_count = tReworkCount t,
     r_created_at = (if tCreatedAt t = 0 then now else tCreatedAt t), r_updated_at = now,
     r_started_at = nullablePtr (tStartedAt t), r_finished_at = nullablePtr (tFinishedAt t)\<rparr>"

definition taskCreate :: "time \<Rightarrow> ctx \<Rightarrow> task \<Rightarrow> db \<Rightarrow> store_error + db" where
  "taskCreate now c t d =
     (case taskValidate t of Some e \<Rightarrow> Inl (EInvalidTask e)
      | None \<Rightarrow>
        (case ctxErr c of Some e \<Rightarrow> Inl (EExec e)
         | None \<Rightarrow>
           if hasKey r_id (tID t) (tasks d) then Inl (EConstraint ''UNIQUE'')
           else if \<not> hasKey rp_id (tRepoID t) (repositories d) then Inl (EConstraint ''FOREIGN KEY'')
           else Inr (d\<lparr>tasks := tasks d @ [taskRowOf now t]\<rparr>)))"

definition taskGet :: "ctx \<Rightarrow> string \<Rightarrow> db \<Rightarrow> store_error + task" where
  "taskGet c i d =
     (case ctxErr c of Some e \<Rightarrow> Inl (EExec e)
      | None \<Rightarrow>
        (case lookupBy r_id i (tasks d) of
           None \<Rightarrow> Inl ENotFound
         | Some r \<Rightarrow> Inr (scanTask r)))"

section \<open>List\<close>

record list_filter =
  fRepoID :: string
  fStatuses :: "status list"
  fLimit :: int
  fAscending :: bool

definition taskMatches :: "list_filter \<Rightarrow> task_row \<Rightarrow> bool" where
  "taskMatches f r =
     ((fRepoID f \<noteq> [] \<longrightarrow> r_repository_id r = fRepoID f) \<and>
      (fStatuses f \<noteq> [] \<longrightarrow> r_status r \<in> set (fStatuses f)))"

definition taskList :: "ctx \<Rightarrow> list_filter \<Rightarrow> db \<Rightarrow> store_error + task list" where
  "taskList c f d =
     (case ctxErr c of Some e \<Rightarrow> Inl (EExec e)
      | None \<Rightarrow>
        (let rows = filter (taskMatches f) (tasks d);
             ordered = (if fAscending f then sort_key r_updated_at rows
                        else sort_key (\<lambda>r. - int (r_updated_at r)) rows);
             limited = (if fLimit f > 0 then take (nat (fLimit f)) ordered else ordered)
         in Inr (map scanTask limited)))"

section \<open>UpdateFields\<close>

definition updateFieldsRow :: "time \<Rightarrow> task \<Rightarrow> task_row \<Rightarrow> task_row" where
  "updateFieldsRow now t r = r\<lparr>
     r_goal := tGoal t, r_base_branch := tBaseBranch t, r_branch := Some (tBranch t),
     r_worktree_path := Some (tWorktreePath t), r_model := tModel t,
     r_plan_model := tPlanModel t, r_review_model := tReviewModel t,
     r_finalization := tFinalization t, r_error_code := tErrorCode t,
     r_error_message := tErrorMessage t, r_session_id := tSessionID t,
     r_review_feedback := tReviewFeedback t, r_rework_count := tReworkCount t,
     r_started_at := nullablePtr (tStartedAt t), r_finished_at := nullablePtr (tFinishedAt t),
     r_updated_at := now\<rparr>"

definition updateFields :: "time \<Rightarrow> ctx \<Rightarrow> task \<Rightarrow> db \<Rightarrow> store_error + db" where
  "updateFields now c t d =
     (case taskValidate t of Some e \<Rightarrow> Inl (EInvalidTask e)
      | None \<Rightarrow>
        (case ctxErr c of Some e \<Rightarrow> Inl (EExec e)
         | None \<Rightarrow>
           (let wh = (\<lambda>r. r_id r = tID t \<and> r_status r = tStatus t)
            in if countWhere wh (tasks d) = 0 then Inl EStaleUpdate
               else Inr (d\<lparr>tasks := updateWhere wh (updateFieldsRow now t) (tasks d)\<rparr>))))"

section \<open>Transition\<close>

definition finishedOn :: "status \<Rightarrow> bool" where
  "finishedOn to =
     (to \<in> {StatusAIReview, StatusHumanReview, StatusDone, StatusCancelled, StatusAborted, StatusFailed})"

definition nextRework :: "status \<Rightarrow> status \<Rightarrow> int \<Rightarrow> int" where
  "nextRework from to n =
     (if to = StatusQueued \<and> from = StatusAIReview then n + 1
      else if to = StatusQueued then 0
      else if to = StatusDone \<or> to = StatusCancelled \<or> to = StatusFailed then 0
      else n)"

definition transitionRow ::
  "time \<Rightarrow> status \<Rightarrow> status \<Rightarrow> error_code \<Rightarrow> string \<Rightarrow> finalization_kind \<Rightarrow> task_row \<Rightarrow> task_row" where
  "transitionRow now from to code msg fin r = r\<lparr>
     r_status := to, r_updated_at := now, r_error_code := code, r_error_message := msg,
     r_finalization := fin,
     r_started_at :=
       (if to = StatusInProgress
        then (case r_started_at r of Some s \<Rightarrow> Some s | None \<Rightarrow> Some now)
        else r_started_at r),
     r_finished_at :=
       (if finishedOn to then Some now
        else if to = StatusQueued then None else r_finished_at r),
     r_rework_count := nextRework from to (r_rework_count r)\<rparr>"

definition transition ::
  "time \<Rightarrow> ctx \<Rightarrow> string \<Rightarrow> status \<Rightarrow> status \<Rightarrow> error_code \<Rightarrow> string \<Rightarrow> finalization_kind \<Rightarrow> db \<Rightarrow>
     store_error + db" where
  "transition now c i from to code msg fin d =
     (if \<not> canTransition from to then Inl (EIllegalTransition i from to)
      else if to = StatusFailed \<and> code = ErrCodeNone then Inl (EFailedNeedsErrorCode i)
      else if to = StatusDone \<and> fin = FinalizationNone then Inl (EDoneNeedsFinalization i)
      else
        (let code' = (if to \<noteq> StatusFailed then ErrCodeNone else code);
             msg' = (if to \<noteq> StatusFailed then [] else msg);
             fin' = (if to \<noteq> StatusDone then FinalizationNone else fin);
             wh = (\<lambda>r. r_id r = i \<and> r_status r = from)
         in case ctxErr c of Some e \<Rightarrow> Inl (EExec e)
            | None \<Rightarrow>
              if countWhere wh (tasks d) = 0 then Inl EStaleUpdate
              else if \<not> finalizationValid fin' then Inl (EConstraint ''CHECK'')
              else Inr (d\<lparr>tasks := updateWhere wh (transitionRow now from to code' msg' fin') (tasks d)\<rparr>)))"

section \<open>SetBranchExists, Delete, RecoverRunning\<close>

definition setBranchExists :: "time \<Rightarrow> ctx \<Rightarrow> string \<Rightarrow> bool \<Rightarrow> db \<Rightarrow> store_error + db" where
  "setBranchExists now c i b d =
     (case ctxErr c of Some e \<Rightarrow> Inl (EExec e)
      | None \<Rightarrow>
        Inr (d\<lparr>tasks := updateWhere (\<lambda>r. r_id r = i)
          (\<lambda>r. r\<lparr>r_branch_exists := (if b then 1 else 0), r_updated_at := now\<rparr>) (tasks d)\<rparr>))"

text \<open>\<open>subtasks\<close> and \<open>events\<close> reference \<open>tasks\<close> with ON DELETE CASCADE. So do \<open>harness_attempt\<close>, which is kept
  outside of \<open>db\<close> and is cleared by the handler that deletes tasks (App_Tasks), and \<open>artifact\<close>, \<open>task_run_root\<close> and,
  through the subtasks, \<open>subtask_context\<close>, of which no rows are modelled.\<close>

definition taskDelete :: "ctx \<Rightarrow> string \<Rightarrow> db \<Rightarrow> store_error + db" where
  "taskDelete c i d =
     (case ctxErr c of Some e \<Rightarrow> Inl (EExec e)
      | None \<Rightarrow>
        Inr (d\<lparr>tasks := deleteWhere (\<lambda>r. r_id r = i) (tasks d),
               subtasks := deleteWhere (\<lambda>q. q_task_id q = i) (subtasks d),
               events := deleteWhere (\<lambda>e. eTaskID e = i) (events d)\<rparr>))"

definition recoverRow :: "time \<Rightarrow> task_row \<Rightarrow> task_row" where
  "recoverRow now r = r\<lparr>
     r_status := StatusFailed, r_error_code := ErrCodeInterrupted,
     r_error_message := ''recovered from interrupted session'',
     r_finished_at := Some now, r_updated_at := now\<rparr>"

fun recoverEach :: "time \<Rightarrow> string list \<Rightarrow> db \<Rightarrow> store_error + db" where
  "recoverEach now [] d = Inr d"
| "recoverEach now (i # is) d =
     (let wh = (\<lambda>r. r_id r = i \<and> r_status r = StatusInProgress)
      in if countWhere wh (tasks d) = 0 then Inl ENotFound
         else recoverEach now is (d\<lparr>tasks := updateWhere wh (recoverRow now) (tasks d)\<rparr>))"

definition recoverRunning :: "time \<Rightarrow> ctx \<Rightarrow> db \<Rightarrow> store_error + db \<times> string list" where
  "recoverRunning now c d =
     (case ctxErr c of Some e \<Rightarrow> Inl (EExec e)
      | None \<Rightarrow>
        (let ids = map r_id (filter (\<lambda>r. r_status r = StatusInProgress) (tasks d))
         in case recoverEach now ids d of Inl e \<Rightarrow> Inl e | Inr d' \<Rightarrow> Inr (d', ids)))"

lemmas taskStore_defs [store_defs] =
  taskCreate_def taskGet_def updateFields_def transition_def setBranchExists_def taskDelete_def
  recoverRunning_def

section \<open>What the statements keep\<close>

lemma transitionRow_keys [simp]:
  "r_id (transitionRow now from to code msg fin r) = r_id r"
  "r_repository_id (transitionRow now from to code msg fin r) = r_repository_id r"
  "r_status (transitionRow now from to code msg fin r) = to"
  by (simp_all add: transitionRow_def)

lemma updateFieldsRow_keys [simp]:
  "r_id (updateFieldsRow now t r) = r_id r"
  "r_repository_id (updateFieldsRow now t r) = r_repository_id r"
  "r_status (updateFieldsRow now t r) = r_status r"
  "r_branch_exists (updateFieldsRow now t r) = r_branch_exists r"
  by (simp_all add: updateFieldsRow_def)

lemma recoverRow_keys [simp]:
  "r_id (recoverRow now r) = r_id r"
  "r_repository_id (recoverRow now r) = r_repository_id r"
  "r_status (recoverRow now r) = StatusFailed"
  by (simp_all add: recoverRow_def)

lemma transition_InrD:
  assumes "transition now c i from to code msg fin d = Inr d'"
  obtains code' msg' fin' where
    "c = Live" "canTransition from to"
    "to = StatusFailed \<longleftrightarrow> code' \<noteq> ErrCodeNone" "to = StatusDone \<longleftrightarrow> fin' \<noteq> FinalizationNone"
    "finalizationValid fin'" "\<exists>r\<in>set (tasks d). r_id r = i \<and> r_status r = from"
    "d' = d\<lparr>tasks := updateWhere (\<lambda>r. r_id r = i \<and> r_status r = from)
       (transitionRow now from to code' msg' fin') (tasks d)\<rparr>"
  using assms unfolding transition_def Let_def
  by (auto simp: countWhere_0 split: if_splits option.splits)

lemma transitionRow_ok:
  "taskRowOk r \<Longrightarrow> canTransition from to \<Longrightarrow> to = StatusFailed \<longleftrightarrow> code \<noteq> ErrCodeNone \<Longrightarrow>
   to = StatusDone \<longleftrightarrow> fin \<noteq> FinalizationNone \<Longrightarrow> finalizationValid fin \<Longrightarrow>
   taskRowOk (transitionRow now from to code msg fin r)"
  by (simp add: taskRowOk_iff transitionRow_def canTransition_valid)

lemma transition_wf:
  assumes "wfDB d" "transition now c i from to code msg fin d = Inr d'"
  shows "wfDB d'"
  using assms(2)
proof (rule transition_InrD)
  fix code' msg' fin'
  assume t: "canTransition from to" "to = StatusFailed \<longleftrightarrow> code' \<noteq> ErrCodeNone"
    "to = StatusDone \<longleftrightarrow> fin' \<noteq> FinalizationNone" "finalizationValid fin'"
    and d': "d' = d\<lparr>tasks := updateWhere (\<lambda>r. r_id r = i \<and> r_status r = from)
       (transitionRow now from to code' msg' fin') (tasks d)\<rparr>"
  show "wfDB d'"
    unfolding d' by (rule wfDB_updateWhere_tasks [OF assms(1)]) (simp_all add: transitionRow_ok t)
qed

lemma updateFields_wf:
  assumes "wfDB d" "updateFields now c t d = Inr d'"
  shows "wfDB d'"
proof -
  let ?wh = "\<lambda>r. r_id r = tID t \<and> r_status r = tStatus t"
  from assms(2) have v: "taskValidate t = None"
    and d': "d' = d\<lparr>tasks := updateWhere ?wh (updateFieldsRow now t) (tasks d)\<rparr>"
    by (auto simp: updateFields_def Let_def split: option.splits if_splits)
  from v have "taskRowOk (updateFieldsRow now t r)" if "taskRowOk r" "?wh r" for r
    using that by (auto simp: taskValidate_None taskRowOk_iff updateFieldsRow_def)
  then show ?thesis
    unfolding d' by (intro wfDB_updateWhere_tasks assms(1)) auto
qed

lemma taskCreate_wf:
  assumes "wfDB d" "taskCreate now c t d = Inr d'"
  shows "wfDB d'"
proof -
  from assms(2) have v: "taskValidate t = None" and k: "tID t \<notin> r_id ` set (tasks d)"
    and fk: "tRepoID t \<in> rp_id ` set (repositories d)"
    and d': "d' = d\<lparr>tasks := tasks d @ [taskRowOf now t]\<rparr>"
    by (auto simp: taskCreate_def hasKey_iff split: option.splits if_splits)
  from v have "taskRowOk (taskRowOf now t)"
    by (auto simp: taskValidate_None taskRowOk_iff taskRowOf_def)
  with assms(1) k fk show ?thesis
    by (auto simp: d' wfDB_def keysOk_def refsOk_def rowsOk_def taskRowOf_def)
qed

lemma setBranchExists_wf: "wfDB d \<Longrightarrow> setBranchExists now c i b d = Inr d' \<Longrightarrow> wfDB d'"
  by (auto simp: setBranchExists_def taskRowOk_iff split: option.splits
      intro!: wfDB_updateWhere_tasks)

lemma taskDelete_wf:
  assumes "wfDB d" "taskDelete c i d = Inr d'"
  shows "wfDB d'"
proof -
  from assms(2) have d': "d' = d\<lparr>tasks := deleteWhere (\<lambda>r. r_id r = i) (tasks d),
      subtasks := deleteWhere (\<lambda>q. q_task_id q = i) (subtasks d),
      events := deleteWhere (\<lambda>e. eTaskID e = i) (events d)\<rparr>"
    by (auto simp: taskDelete_def split: option.splits)
  have "refsOk d'"
    using assms(1) by (simp add: wfDB_def refsOk_def d' refs_cascade refs_delete)
  with assms(1) show ?thesis
    by (auto simp: d' wfDB_def keysOk_def rowsOk_def distinct_keys_deleteWhere)
qed

lemma recoverRow_ok:
  "taskRowOk r \<Longrightarrow> r_status r = StatusInProgress \<Longrightarrow> taskRowOk (recoverRow now r)"
  by (auto simp: taskRowOk_iff recoverRow_def)

lemma recoverEach_wf: "wfDB d \<Longrightarrow> recoverEach now is d = Inr d' \<Longrightarrow> wfDB d'"
proof (induction "is" arbitrary: d)
  case Nil
  then show ?case by simp
next
  case (Cons i "is")
  let ?d = "d\<lparr>tasks := updateWhere (\<lambda>r. r_id r = i \<and> r_status r = StatusInProgress)
    (recoverRow now) (tasks d)\<rparr>"
  have "wfDB ?d"
    by (rule wfDB_updateWhere_tasks [OF Cons.prems(1)]) (auto simp: recoverRow_ok)
  with Cons show ?case by (auto simp: Let_def split: if_splits)
qed

lemma recoverRunning_wf: "wfDB d \<Longrightarrow> recoverRunning now c d = Inr (d', ids) \<Longrightarrow> wfDB d'"
  by (auto simp: recoverRunning_def Let_def dest: recoverEach_wf split: option.splits sum.splits)

end
