(* ===== verification/Subtask_Store.thy ===== *)
theory Subtask_Store
  imports Database "HOL-Library.Product_Lexorder"
begin

text \<open>
  \<open>internal/store/subtask_store.go\<close>: the operations of SubtaskStore. A plan is inserted as a
  new round, numbered one above the parent's highest; earlier rounds stay. JSON text of the
  two string-list columns is kept as the list it encodes.
\<close>

section \<open>Operations\<close>

definition subtaskRowOf :: "time \<Rightarrow> int \<Rightarrow> subtask \<Rightarrow> subtask_row" where
  "subtaskRowOf now rnd s = \<lparr>
     q_id = sID s, q_task_id = sTaskID s, q_title = sTitle s, q_agent_role = sAgentRole s,
     q_depends_on = sDependsOn s, q_write_paths = sWritePaths s, q_status = sStatus s,
     q_order_idx = sOrderIdx s, q_code_model = sCodeModel s, q_round = rnd,
     q_prompt = sPrompt s,
     q_created_at = (if sCreatedAt s = 0 then now else sCreatedAt s), q_updated_at = now\<rparr>"

definition insertSubtask :: "subtask_row \<Rightarrow> db \<Rightarrow> store_error + db" where
  "insertSubtask q d =
     (if hasKey q_id (q_id q) (subtasks d) then Inl (EConstraint ''UNIQUE'')
      else if \<not> hasKey r_id (q_task_id q) (tasks d) then Inl (EConstraint ''FOREIGN KEY'')
      else Inr (d\<lparr>subtasks := subtasks d @ [q]\<rparr>))"

definition subtaskCreate :: "time \<Rightarrow> ctx \<Rightarrow> subtask \<Rightarrow> db \<Rightarrow> store_error + db" where
  "subtaskCreate now c s d =
     (case subtaskValidate s of Some e \<Rightarrow> Inl (EInvalidSubtask e)
      | None \<Rightarrow>
        (let rnd = (if sRound s \<le> 0 then 1 else sRound s)
         in case ctxErr c of Some e \<Rightarrow> Inl (EExec e)
            | None \<Rightarrow> insertSubtask (subtaskRowOf now rnd s) d))"

definition subtaskListByTask :: "ctx \<Rightarrow> string \<Rightarrow> db \<Rightarrow> store_error + subtask list" where
  "subtaskListByTask c p d =
     (case ctxErr c of Some e \<Rightarrow> Inl (EExec e)
      | None \<Rightarrow> Inr (map scanSubtask
          (sort_key (\<lambda>q. (q_round q, q_order_idx q, q_created_at q))
            (filter (\<lambda>q. q_task_id q = p) (subtasks d)))))"

text \<open>\<open>COALESCE(MAX(col), z)\<close> over the rows of one parent.\<close>

fun maxOr :: "int \<Rightarrow> int list \<Rightarrow> int" where
  "maxOr z [] = z"
| "maxOr z (x # xs) = fold max xs x"

definition maxRoundOf :: "string \<Rightarrow> db \<Rightarrow> int" where
  "maxRoundOf p d = maxOr 0 (map q_round (filter (\<lambda>q. q_task_id q = p) (subtasks d)))"

definition subtaskMaxRound :: "ctx \<Rightarrow> string \<Rightarrow> db \<Rightarrow> store_error + int" where
  "subtaskMaxRound c p d =
     (case ctxErr c of Some e \<Rightarrow> Inl (EExec e) | None \<Rightarrow> Inr (maxRoundOf p d))"

definition subtaskListLatestRound :: "ctx \<Rightarrow> string \<Rightarrow> db \<Rightarrow> store_error + subtask list" where
  "subtaskListLatestRound c p d =
     (case ctxErr c of Some e \<Rightarrow> Inl (EExec e)
      | None \<Rightarrow> Inr (map scanSubtask
          (sort_key (\<lambda>q. (q_order_idx q, q_created_at q))
            (filter (\<lambda>q. q_task_id q = p \<and> q_round q = maxRoundOf p d) (subtasks d)))))"

definition subtaskGet :: "ctx \<Rightarrow> string \<Rightarrow> db \<Rightarrow> store_error + subtask" where
  "subtaskGet c i d =
     (case ctxErr c of Some e \<Rightarrow> Inl (EExec e)
      | None \<Rightarrow>
        (case lookupBy q_id i (subtasks d) of
           None \<Rightarrow> Inl ENotFound
         | Some q \<Rightarrow> Inr (scanSubtask q)))"

definition updateSubtaskRow :: "time \<Rightarrow> subtask \<Rightarrow> subtask_row \<Rightarrow> subtask_row" where
  "updateSubtaskRow now s q = q\<lparr>
     q_title := sTitle s, q_agent_role := sAgentRole s, q_depends_on := sDependsOn s,
     q_write_paths := sWritePaths s, q_status := sStatus s, q_order_idx := sOrderIdx s,
     q_code_model := sCodeModel s, q_prompt := sPrompt s, q_updated_at := now\<rparr>"

definition subtaskUpdate :: "time \<Rightarrow> ctx \<Rightarrow> subtask \<Rightarrow> db \<Rightarrow> store_error + db" where
  "subtaskUpdate now c s d =
     (case subtaskValidate s of Some e \<Rightarrow> Inl (EInvalidSubtask e)
      | None \<Rightarrow>
        (case ctxErr c of Some e \<Rightarrow> Inl (EExec e)
         | None \<Rightarrow>
           (let wh = (\<lambda>q. q_id q = sID s)
            in if countWhere wh (subtasks d) = 0 then Inl ENotFound
               else Inr (d\<lparr>subtasks := updateWhere wh (updateSubtaskRow now s) (subtasks d)\<rparr>))))"

definition subtaskDelete :: "ctx \<Rightarrow> string \<Rightarrow> db \<Rightarrow> store_error + db" where
  "subtaskDelete c i d =
     (case ctxErr c of Some e \<Rightarrow> Inl (EExec e)
      | None \<Rightarrow>
        (let wh = (\<lambda>q. q_id q = i)
         in if countWhere wh (subtasks d) = 0 then Inl ENotFound
            else Inr (d\<lparr>subtasks := deleteWhere wh (subtasks d)\<rparr>)))"

definition subtaskDeleteByTask :: "ctx \<Rightarrow> string \<Rightarrow> db \<Rightarrow> store_error + db \<times> int" where
  "subtaskDeleteByTask c p d =
     (case ctxErr c of Some e \<Rightarrow> Inl (EExec e)
      | None \<Rightarrow>
        (let wh = (\<lambda>q. q_task_id q = p)
         in Inr (d\<lparr>subtasks := deleteWhere wh (subtasks d)\<rparr>, int (countWhere wh (subtasks d)))))"

definition subtaskMaxOrderIdx :: "ctx \<Rightarrow> string \<Rightarrow> db \<Rightarrow> store_error + int" where
  "subtaskMaxOrderIdx c p d =
     (case ctxErr c of Some e \<Rightarrow> Inl (EExec e)
      | None \<Rightarrow> Inr (maxOr (-1) (map q_order_idx (filter (\<lambda>q. q_task_id q = p) (subtasks d)))))"

text \<open>One statement per id, its position as the new index; the first id that is no child of
  the parent rolls the transaction back.\<close>

fun reorderEach :: "time \<Rightarrow> string \<Rightarrow> int \<Rightarrow> string list \<Rightarrow> db \<Rightarrow> store_error + db" where
  "reorderEach now p k [] d = Inr d"
| "reorderEach now p k (i # is) d =
     (let wh = (\<lambda>q. q_id q = i \<and> q_task_id q = p)
      in if countWhere wh (subtasks d) = 0 then Inl (ENotUnderParent i p)
         else reorderEach now p (k + 1) is
           (d\<lparr>subtasks := updateWhere wh (\<lambda>q. q\<lparr>q_order_idx := k, q_updated_at := now\<rparr>) (subtasks d)\<rparr>))"

definition subtaskReorder :: "time \<Rightarrow> ctx \<Rightarrow> string \<Rightarrow> string list \<Rightarrow> db \<Rightarrow> store_error + db" where
  "subtaskReorder now c p is d =
     (if p = [] then Inl (EMissingField ''task_id'')
      else case ctxErr c of Some e \<Rightarrow> Inl (EExec e)
           | None \<Rightarrow> reorderEach now p 0 is d)"

fun checkPlan :: "string \<Rightarrow> subtask list \<Rightarrow> store_error option" where
  "checkPlan p [] = None"
| "checkPlan p (s # ss) =
     (if sTaskID s \<noteq> p then Some (EWrongParent (sID s) (sTaskID s) p)
      else case subtaskValidate s of Some e \<Rightarrow> Some (EInvalidSubtask e) | None \<Rightarrow> checkPlan p ss)"

fun insertPlan :: "time \<Rightarrow> int \<Rightarrow> subtask list \<Rightarrow> db \<Rightarrow> store_error + db" where
  "insertPlan now rnd [] d = Inr d"
| "insertPlan now rnd (s # ss) d =
     (case insertSubtask (subtaskRowOf now rnd s) d of
        Inl e \<Rightarrow> Inl e
      | Inr d' \<Rightarrow> insertPlan now rnd ss d')"

text \<open>The result carries the round number and the in-memory subtasks stamped with it.\<close>

definition createPlan ::
  "time \<Rightarrow> ctx \<Rightarrow> string \<Rightarrow> subtask list \<Rightarrow> db \<Rightarrow> store_error + db \<times> int \<times> subtask list" where
  "createPlan now c p ss d =
     (if p = [] then Inl (EMissingField ''parent task id'')
      else case checkPlan p ss of Some e \<Rightarrow> Inl e
      | None \<Rightarrow>
        (case ctxErr c of Some e \<Rightarrow> Inl (EExec e)
         | None \<Rightarrow>
           (let rnd = maxRoundOf p d + 1
            in case insertPlan now rnd ss d of
                 Inl e \<Rightarrow> Inl e
               | Inr d' \<Rightarrow> Inr (d', rnd, map (\<lambda>s. s\<lparr>sRound := rnd\<rparr>) ss))))"

lemmas subtaskStore_defs [store_defs] =
  subtaskCreate_def subtaskGet_def subtaskUpdate_def subtaskDelete_def subtaskDeleteByTask_def
  subtaskReorder_def createPlan_def

section \<open>Maxima\<close>

lemma maxOr_ge: "x \<in> set xs \<Longrightarrow> x \<le> maxOr z xs"
  by (cases xs) (auto intro: fold_max_ge)

lemma maxOr_in: "maxOr z xs = z \<and> xs = [] \<or> maxOr z xs \<in> set xs"
proof (cases xs)
  case (Cons x ys)
  then show ?thesis using fold_max_in [of ys x] by simp
qed simp

lemma maxRoundOf_ge: "q \<in> set (subtasks d) \<Longrightarrow> q_task_id q = p \<Longrightarrow> q_round q \<le> maxRoundOf p d"
  unfolding maxRoundOf_def by (rule maxOr_ge) auto

lemma maxRoundOf_nonneg: "rowsOk d \<Longrightarrow> 0 \<le> maxRoundOf p d"
  using maxOr_in [of 0 "map q_round (filter (\<lambda>q. q_task_id q = p) (subtasks d))"]
  by (auto simp: maxRoundOf_def rowsOk_def subtaskRowOk_def)

section \<open>What the statements keep\<close>

lemma subtaskRowOk_iff:
  "subtaskRowOk q \<longleftrightarrow>
     q_id q \<noteq> [] \<and> q_task_id q \<noteq> [] \<and> q_title q \<noteq> [] \<and> subtaskStatusValid (q_status q) \<and>
     [] \<notin> set (q_depends_on q) \<and> q_id q \<notin> set (q_depends_on q) \<and> 1 \<le> q_round q"
  by (auto simp: subtaskRowOk_def subtaskValidate_None)

lemma subtaskRowOf_keys [simp]:
  "q_id (subtaskRowOf now rnd s) = sID s"
  "q_task_id (subtaskRowOf now rnd s) = sTaskID s"
  "q_round (subtaskRowOf now rnd s) = rnd"
  "q_status (subtaskRowOf now rnd s) = sStatus s"
  "q_order_idx (subtaskRowOf now rnd s) = sOrderIdx s"
  by (simp_all add: subtaskRowOf_def)

lemma updateSubtaskRow_keys [simp]:
  "q_id (updateSubtaskRow now s q) = q_id q"
  "q_task_id (updateSubtaskRow now s q) = q_task_id q"
  "q_round (updateSubtaskRow now s q) = q_round q"
  "q_status (updateSubtaskRow now s q) = sStatus s"
  by (simp_all add: updateSubtaskRow_def)

lemma subtaskRowOf_ok: "subtaskValidate s = None \<Longrightarrow> 1 \<le> rnd \<Longrightarrow> subtaskRowOk (subtaskRowOf now rnd s)"
  by (auto simp: subtaskRowOk_iff subtaskValidate_None subtaskRowOf_def)

lemma insertSubtask_InrD:
  "insertSubtask q d = Inr d' \<Longrightarrow>
     d' = d\<lparr>subtasks := subtasks d @ [q]\<rparr> \<and> q_id q \<notin> q_id ` set (subtasks d) \<and>
     q_task_id q \<in> r_id ` set (tasks d)"
  by (auto simp: insertSubtask_def hasKey_iff split: if_splits)

lemma insertSubtask_wf: "wfDB d \<Longrightarrow> subtaskRowOk q \<Longrightarrow> insertSubtask q d = Inr d' \<Longrightarrow> wfDB d'"
  by (drule insertSubtask_InrD, elim conjE)
    (simp add: wfDB_def keysOk_def refsOk_def rowsOk_def)

lemma subtaskCreate_wf: "wfDB d \<Longrightarrow> subtaskCreate now c s d = Inr d' \<Longrightarrow> wfDB d'"
  by (auto simp: subtaskCreate_def Let_def split: option.splits if_splits
      elim!: insertSubtask_wf [rotated 2] intro!: subtaskRowOf_ok)

lemma subtaskUpdate_wf:
  assumes "wfDB d" "subtaskUpdate now c s d = Inr d'"
  shows "wfDB d'"
proof -
  from assms(2) have v: "subtaskValidate s = None"
    and d': "d' = d\<lparr>subtasks := updateWhere (\<lambda>q. q_id q = sID s) (updateSubtaskRow now s) (subtasks d)\<rparr>"
    by (auto simp: subtaskUpdate_def Let_def split: option.splits if_splits)
  from v have "subtaskRowOk (updateSubtaskRow now s q)" if "subtaskRowOk q" "q_id q = sID s" for q
    using that by (auto simp: subtaskValidate_None subtaskRowOk_iff updateSubtaskRow_def)
  then show ?thesis
    unfolding d' by (intro wfDB_updateWhere_subtasks assms(1)) auto
qed

lemma wfDB_deleteWhere_subtasks: "wfDB d \<Longrightarrow> wfDB (d\<lparr>subtasks := deleteWhere p (subtasks d)\<rparr>)"
  by (simp add: wfDB_def keysOk_def refsOk_def rowsOk_def distinct_keys_deleteWhere refs_delete)

lemma subtaskDelete_wf: "wfDB d \<Longrightarrow> subtaskDelete c i d = Inr d' \<Longrightarrow> wfDB d'"
  by (auto simp: subtaskDelete_def Let_def wfDB_deleteWhere_subtasks split: option.splits if_splits)

lemma subtaskDeleteByTask_wf: "wfDB d \<Longrightarrow> subtaskDeleteByTask c p d = Inr (d', n) \<Longrightarrow> wfDB d'"
  by (auto simp: subtaskDeleteByTask_def Let_def wfDB_deleteWhere_subtasks split: option.splits)

lemma reorderEach_wf: "wfDB d \<Longrightarrow> reorderEach now p k is d = Inr d' \<Longrightarrow> wfDB d'"
proof (induction "is" arbitrary: k d)
  case Nil
  then show ?case by simp
next
  case (Cons i "is")
  let ?d = "d\<lparr>subtasks := updateWhere (\<lambda>q. q_id q = i \<and> q_task_id q = p)
    (\<lambda>q. q\<lparr>q_order_idx := k, q_updated_at := now\<rparr>) (subtasks d)\<rparr>"
  have "wfDB ?d"
    by (rule wfDB_updateWhere_subtasks [OF Cons.prems(1)]) (auto simp: subtaskRowOk_iff)
  with Cons show ?case by (auto simp: Let_def split: if_splits)
qed

lemma subtaskReorder_wf: "wfDB d \<Longrightarrow> subtaskReorder now c p is d = Inr d' \<Longrightarrow> wfDB d'"
  by (auto simp: subtaskReorder_def dest: reorderEach_wf split: option.splits if_splits)

lemma checkPlan_None:
  "checkPlan p ss = None \<longleftrightarrow> (\<forall>s\<in>set ss. sTaskID s = p \<and> subtaskValidate s = None)"
  by (induction ss) (auto split: option.splits)

lemma insertPlan_wf:
  "wfDB d \<Longrightarrow> \<forall>s\<in>set ss. subtaskValidate s = None \<Longrightarrow> 1 \<le> rnd \<Longrightarrow>
   insertPlan now rnd ss d = Inr d' \<Longrightarrow> wfDB d'"
  by (induction ss arbitrary: d)
    (auto split: sum.splits intro: insertSubtask_wf subtaskRowOf_ok)

lemma createPlan_wf:
  assumes "wfDB d" "createPlan now c p ss d = Inr (d', rnd, ss')"
  shows "wfDB d'"
proof -
  from assms(1) have "1 \<le> maxRoundOf p d + 1"
    using maxRoundOf_nonneg [of d p] by (simp add: wfDB_def)
  moreover from assms(2) have "\<forall>s\<in>set ss. subtaskValidate s = None"
    "insertPlan now (maxRoundOf p d + 1) ss d = Inr d'"
    by (auto simp: createPlan_def Let_def checkPlan_None split: option.splits sum.splits if_splits)
  ultimately show ?thesis using assms(1) by (blast intro: insertPlan_wf)
qed

text \<open>The rows a plan adds, and those it leaves alone.\<close>

lemma insertPlan_rows:
  "insertPlan now rnd ss d = Inr d' \<Longrightarrow>
     subtasks d' = subtasks d @ map (subtaskRowOf now rnd) ss \<and> tasks d' = tasks d \<and>
     events d' = events d \<and> repositories d' = repositories d"
  by (induction ss arbitrary: d) (auto split: sum.splits dest!: insertSubtask_InrD)

lemma createPlan_InrD:
  assumes "createPlan now c p ss d = Inr (d', rnd, ss')"
  shows "rnd = maxRoundOf p d + 1"
    and "subtasks d' = subtasks d @ map (subtaskRowOf now rnd) ss"
    and "tasks d' = tasks d" and "events d' = events d"
    and "ss' = map (\<lambda>s. s\<lparr>sRound := rnd\<rparr>) ss"
    and "\<forall>s\<in>set ss. sTaskID s = p \<and> subtaskValidate s = None"
  using assms
  by (auto simp: createPlan_def Let_def checkPlan_None dest: insertPlan_rows
      split: option.splits sum.splits if_splits)

end
