(* ===== verification/Event_Store.thy ===== *)
theory Event_Store
  imports Database
begin

text \<open>
  \<open>internal/store/event_store.go\<close>: the append-only event log. Sequence numbers are unique per
  task by the schema's UNIQUE(task_id, seq); \<open>appendAutoSeq\<close> assigns MAX(seq)+1 inside its
  transaction.
\<close>

section \<open>Operations\<close>

definition insertEvent :: "agent_event \<Rightarrow> db \<Rightarrow> store_error + db" where
  "insertEvent e d =
     (if hasKey (\<lambda>x. (eTaskID x, eSeq x)) (eTaskID e, eSeq e) (events d) \<or>
         hasKey eID (eID e) (events d) then Inl EDuplicateSeq
      else if \<not> hasKey r_id (eTaskID e) (tasks d) then Inl (EConstraint ''FOREIGN KEY'')
      else Inr (d\<lparr>events := events d @ [e]\<rparr>))"

definition eventAppend :: "ctx \<Rightarrow> agent_event \<Rightarrow> db \<Rightarrow> store_error + db" where
  "eventAppend c e d =
     (case eventValidate e of Some x \<Rightarrow> Inl (EInvalidEvent x)
      | None \<Rightarrow> (case ctxErr c of Some x \<Rightarrow> Inl (EExec x) | None \<Rightarrow> insertEvent e d))"

definition taskSeqs :: "string \<Rightarrow> db \<Rightarrow> int list" where
  "taskSeqs t d = map eSeq (filter (\<lambda>e. eTaskID e = t) (events d))"

text \<open>\<open>SELECT MAX(seq)\<close>: NULL on no rows, which the code reads as "start at 1".\<close>

definition nextSeqOf :: "string \<Rightarrow> db \<Rightarrow> int" where
  "nextSeqOf t d =
     (case taskSeqs t d of [] \<Rightarrow> 1 | s # ss \<Rightarrow> fold max ss s + 1)"

definition nextSeq :: "ctx \<Rightarrow> string \<Rightarrow> db \<Rightarrow> store_error + int" where
  "nextSeq c t d = (case ctxErr c of Some x \<Rightarrow> Inl (EExec x) | None \<Rightarrow> Inr (nextSeqOf t d))"

definition stampEvent :: "time \<Rightarrow> db \<Rightarrow> agent_event \<Rightarrow> agent_event" where
  "stampEvent now d e =
     e\<lparr>eOccurredAt := (if eOccurredAt e = 0 then now else eOccurredAt e),
       eSeq := nextSeqOf (eTaskID e) d\<rparr>"

definition appendAutoSeq ::
  "time \<Rightarrow> ctx \<Rightarrow> agent_event \<Rightarrow> db \<Rightarrow> store_error + db \<times> agent_event" where
  "appendAutoSeq now c e d =
     (if eTaskID e = [] then Inl (EMissingField ''TaskID'')
      else case ctxErr c of Some x \<Rightarrow> Inl (EExec x)
      | None \<Rightarrow>
        (let e' = stampEvent now d e
         in case eventValidate e' of Some x \<Rightarrow> Inl (EInvalidEvent x)
            | None \<Rightarrow>
              (case insertEvent e' d of Inl x \<Rightarrow> Inl x | Inr d' \<Rightarrow> Inr (d', e'))))"

definition appendBatchChunkSize :: nat where
  "appendBatchChunkSize = 1000"

fun validateAll :: "agent_event list \<Rightarrow> event_error option" where
  "validateAll [] = None"
| "validateAll (e # es) =
     (case eventValidate e of Some x \<Rightarrow> Some x | None \<Rightarrow> validateAll es)"

text \<open>One compound INSERT: all its rows or none.\<close>

fun appendChunk :: "agent_event list \<Rightarrow> db \<Rightarrow> store_error + db" where
  "appendChunk [] d = Inr d"
| "appendChunk (e # es) d =
     (case insertEvent e d of Inl x \<Rightarrow> Inl x | Inr d' \<Rightarrow> appendChunk es d')"

function appendChunks :: "nat \<Rightarrow> agent_event list \<Rightarrow> db \<Rightarrow> store_error + db" where
  "appendChunks n es d =
     (if es = [] then Inr d
      else case appendChunk (take (Suc n) es) d of
             Inl x \<Rightarrow> Inl x
           | Inr d' \<Rightarrow> appendChunks n (drop (Suc n) es) d')"
  by pat_completeness auto
termination
  by (relation "measure (\<lambda>(n, es, d). length es)") auto

declare appendChunks.simps [simp del]

definition appendBatch :: "ctx \<Rightarrow> agent_event list \<Rightarrow> db \<Rightarrow> store_error + db" where
  "appendBatch c es d =
     (if es = [] then Inr d
      else case validateAll es of Some x \<Rightarrow> Inl (EInvalidEvent x)
      | None \<Rightarrow>
        (case ctxErr c of Some x \<Rightarrow> Inl (EExec x)
         | None \<Rightarrow> appendChunks (appendBatchChunkSize - 1) es d))"

definition eventListByTask ::
  "ctx \<Rightarrow> string \<Rightarrow> int \<Rightarrow> int \<Rightarrow> db \<Rightarrow> store_error + agent_event list" where
  "eventListByTask c t since limit d =
     (case ctxErr c of Some x \<Rightarrow> Inl (EExec x)
      | None \<Rightarrow>
        (let rows = sort_key eSeq (filter (\<lambda>e. eTaskID e = t \<and> eSeq e > since) (events d))
         in Inr (if limit > 0 then take (nat limit) rows else rows)))"

definition eventCountByTask :: "ctx \<Rightarrow> string \<Rightarrow> db \<Rightarrow> store_error + int" where
  "eventCountByTask c t d =
     (case ctxErr c of Some x \<Rightarrow> Inl (EExec x)
      | None \<Rightarrow> Inr (int (countWhere (\<lambda>e. eTaskID e = t) (events d))))"

definition eventDeleteByTask :: "ctx \<Rightarrow> string \<Rightarrow> db \<Rightarrow> store_error + db \<times> int" where
  "eventDeleteByTask c t d =
     (case ctxErr c of Some x \<Rightarrow> Inl (EExec x)
      | None \<Rightarrow>
        (let wh = (\<lambda>e. eTaskID e = t)
         in Inr (d\<lparr>events := deleteWhere wh (events d)\<rparr>, int (countWhere wh (events d)))))"

lemmas eventStore_defs [store_defs] =
  eventAppend_def appendAutoSeq_def appendBatch_def eventDeleteByTask_def

section \<open>Sequence numbers\<close>

lemma nextSeqOf_gt:
  "e \<in> set (events d) \<Longrightarrow> eTaskID e = t \<Longrightarrow> eSeq e < nextSeqOf t d"
proof -
  assume "e \<in> set (events d)" "eTaskID e = t"
  then have m: "eSeq e \<in> set (taskSeqs t d)" by (auto simp: taskSeqs_def)
  then obtain s ss where s: "taskSeqs t d = s # ss" by (cases "taskSeqs t d") auto
  from m s have "eSeq e \<le> fold max ss s" by (auto intro: fold_max_ge)
  then show ?thesis by (simp add: nextSeqOf_def s)
qed

lemma nextSeqOf_fresh: "(t, nextSeqOf t d) \<notin> (\<lambda>x. (eTaskID x, eSeq x)) ` set (events d)"
  using nextSeqOf_gt [of _ d t] by fastforce

section \<open>What the statements keep\<close>

lemma insertEvent_InrD:
  "insertEvent e d = Inr d' \<Longrightarrow>
     d' = d\<lparr>events := events d @ [e]\<rparr> \<and>
     (eTaskID e, eSeq e) \<notin> (\<lambda>x. (eTaskID x, eSeq x)) ` set (events d) \<and>
     eID e \<notin> eID ` set (events d) \<and> eTaskID e \<in> r_id ` set (tasks d)"
  by (auto simp: insertEvent_def hasKey_iff split: if_splits)

lemma insertEvent_wf: "wfDB d \<Longrightarrow> eventValidate e = None \<Longrightarrow> insertEvent e d = Inr d' \<Longrightarrow> wfDB d'"
  by (drule insertEvent_InrD)
    (auto simp: wfDB_def keysOk_def refsOk_def rowsOk_def eventRowOk_def)

lemma eventAppend_wf: "wfDB d \<Longrightarrow> eventAppend c e d = Inr d' \<Longrightarrow> wfDB d'"
  by (auto simp: eventAppend_def split: option.splits intro: insertEvent_wf)

lemma appendAutoSeq_InrD:
  assumes "appendAutoSeq now c e d = Inr (d', e')"
  shows "e' = stampEvent now d e" "eventValidate e' = None" "insertEvent e' d = Inr d'" "c = Live"
  using assms by (auto simp: appendAutoSeq_def Let_def split: if_splits option.splits sum.splits)

lemma appendAutoSeq_wf: "wfDB d \<Longrightarrow> appendAutoSeq now c e d = Inr (d', e') \<Longrightarrow> wfDB d'"
  by (blast dest: appendAutoSeq_InrD intro: insertEvent_wf)

lemma validateAll_None: "validateAll es = None \<longleftrightarrow> (\<forall>e\<in>set es. eventValidate e = None)"
  by (induction es) (auto split: option.splits)

lemma appendChunk_append:
  "appendChunk (es @ es') d = (case appendChunk es d of Inl x \<Rightarrow> Inl x | Inr d' \<Rightarrow> appendChunk es' d')"
  by (induction es arbitrary: d) (auto split: sum.splits)

text \<open>Chunking does not show: the batch is inserted as one statement would insert it.\<close>

lemma appendChunks_eq: "appendChunks n es d = appendChunk es d"
proof (induction n es d rule: appendChunks.induct)
  case (1 n es d)
  show ?case
  proof (cases "es = []")
    case True
    then show ?thesis by (simp add: appendChunks.simps)
  next
    case False
    have "appendChunk es d = appendChunk (take (Suc n) es @ drop (Suc n) es) d" by simp
    also have "\<dots> = (case appendChunk (take (Suc n) es) d of Inl x \<Rightarrow> Inl x
        | Inr d' \<Rightarrow> appendChunk (drop (Suc n) es) d')"
      by (rule appendChunk_append)
    finally show ?thesis
      using False 1 by (simp add: appendChunks.simps [of n es d] split: sum.splits)
  qed
qed

lemma appendChunk_wf:
  "wfDB d \<Longrightarrow> \<forall>e\<in>set es. eventValidate e = None \<Longrightarrow> appendChunk es d = Inr d' \<Longrightarrow> wfDB d'"
  by (induction es arbitrary: d) (auto split: sum.splits intro: insertEvent_wf)

lemma appendBatch_wf: "wfDB d \<Longrightarrow> appendBatch c es d = Inr d' \<Longrightarrow> wfDB d'"
  by (auto simp: appendBatch_def appendChunks_eq validateAll_None split: if_splits option.splits
      intro: appendChunk_wf)

lemma wfDB_deleteWhere_events: "wfDB d \<Longrightarrow> wfDB (d\<lparr>events := deleteWhere p (events d)\<rparr>)"
  by (simp add: wfDB_def keysOk_def refsOk_def rowsOk_def distinct_keys_deleteWhere refs_delete)

lemma eventDeleteByTask_wf: "wfDB d \<Longrightarrow> eventDeleteByTask c t d = Inr (d', n) \<Longrightarrow> wfDB d'"
  by (auto simp: eventDeleteByTask_def Let_def wfDB_deleteWhere_events split: option.splits)

end
