(* ===== verification/Repository_Store.thy ===== *)
theory Repository_Store
  imports Database
begin

text \<open>
  \<open>internal/store/repository_store.go\<close> and the adapter the orchestrator reads it through
  (\<open>internal/app/repo_path_adapter.go\<close>). Paths are stored case-folded: \<open>lower\<close> is Go's
  \<open>strings.ToLower\<close>, of which only idempotence is ever used.
\<close>

section \<open>Operations\<close>

record repository =
  rID :: string
  rPath :: string
  rDisplayName :: string
  rDefaultBaseBranch :: string
  rCreatedAt :: time
  rLastUsedAt :: "time option"

record repository_input =
  riID :: string
  riPath :: string
  riDisplayName :: string
  riDefaultBaseBranch :: string

definition scanRepository :: "repo_row \<Rightarrow> repository" where
  "scanRepository r = \<lparr>rID = rp_id r, rPath = rp_path r, rDisplayName = rp_display_name r,
     rDefaultBaseBranch = orEmpty (rp_default_base_branch r), rCreatedAt = rp_created_at r,
     rLastUsedAt = scanNullableTime (rp_last_used_at r)\<rparr>"

definition repoGet :: "ctx \<Rightarrow> string \<Rightarrow> db \<Rightarrow> store_error + repository" where
  "repoGet c i d =
     (case ctxErr c of Some e \<Rightarrow> Inl (EExec e)
      | None \<Rightarrow> (case lookupBy rp_id i (repositories d) of
          None \<Rightarrow> Inl ENotFound | Some r \<Rightarrow> Inr (scanRepository r)))"

definition repoGetByPath :: "(string \<Rightarrow> string) \<Rightarrow> ctx \<Rightarrow> string \<Rightarrow> db \<Rightarrow> store_error + repository" where
  "repoGetByPath lower c p d =
     (case ctxErr c of Some e \<Rightarrow> Inl (EExec e)
      | None \<Rightarrow> (case lookupBy rp_path (lower p) (repositories d) of
          None \<Rightarrow> Inl ENotFound | Some r \<Rightarrow> Inr (scanRepository r)))"

definition repoRowOf :: "(string \<Rightarrow> string) \<Rightarrow> time \<Rightarrow> repository_input \<Rightarrow> repo_row" where
  "repoRowOf lower now inp = \<lparr>rp_id = riID inp, rp_path = lower (riPath inp),
     rp_display_name = riDisplayName inp, rp_default_base_branch = Some (riDefaultBaseBranch inp),
     rp_created_at = now, rp_last_used_at = None\<rparr>"

text \<open>Any UNIQUE violation, also one on the id, is reported as a duplicate path.\<close>

definition repoInsert ::
  "(string \<Rightarrow> string) \<Rightarrow> time \<Rightarrow> ctx \<Rightarrow> repository_input \<Rightarrow> db \<Rightarrow> store_error + db" where
  "repoInsert lower now c inp d =
     (if riID inp = [] \<or> riPath inp = [] \<or> riDisplayName inp = []
        then Inl (EMissingField ''ID, Path, DisplayName'')
      else case ctxErr c of Some e \<Rightarrow> Inl (EExec e)
      | None \<Rightarrow>
        if hasKey rp_id (riID inp) (repositories d) \<or>
           hasKey rp_path (lower (riPath inp)) (repositories d) then Inl EDuplicatePath
        else Inr (d\<lparr>repositories := repositories d @ [repoRowOf lower now inp]\<rparr>))"

text \<open>The row is read back by a query of its own, under the context \<open>c2\<close> it finds: when that fails the
  repository is stored and the caller has an error.\<close>

definition repoCreate ::
  "(string \<Rightarrow> string) \<Rightarrow> time \<Rightarrow> ctx \<Rightarrow> ctx \<Rightarrow> repository_input \<Rightarrow> db \<Rightarrow> (store_error + repository) \<times> db" where
  "repoCreate lower now c c2 inp d =
     (case repoInsert lower now c inp d of Inl e \<Rightarrow> (Inl e, d)
      | Inr d' \<Rightarrow> (repoGet c2 (riID inp) d', d'))"

text \<open>\<open>COLLATE NOCASE\<close> folds the ASCII capitals.\<close>

definition nocase :: "string \<Rightarrow> string" where
  "nocase s = map (\<lambda>c. if CHR ''A'' \<le> c \<and> c \<le> CHR ''Z'' then char_of (of_char c + 32 :: nat) else c) s"

definition repoList :: "ctx \<Rightarrow> db \<Rightarrow> store_error + repository list" where
  "repoList c d =
     (case ctxErr c of Some e \<Rightarrow> Inl (EExec e)
      | None \<Rightarrow> Inr (map scanRepository
          (sort_key (\<lambda>r. nocase (rp_display_name r)) (repositories d))))"

definition repoTouchLastUsed :: "time \<Rightarrow> ctx \<Rightarrow> string \<Rightarrow> db \<Rightarrow> store_error + db" where
  "repoTouchLastUsed now c i d =
     (case ctxErr c of Some e \<Rightarrow> Inl (EExec e)
      | None \<Rightarrow> Inr (d\<lparr>repositories := updateWhere (\<lambda>r. rp_id r = i)
          (\<lambda>r. r\<lparr>rp_last_used_at := Some now\<rparr>) (repositories d)\<rparr>))"

definition repoUpdateDefaultBaseBranch :: "ctx \<Rightarrow> string \<Rightarrow> string \<Rightarrow> db \<Rightarrow> store_error + db" where
  "repoUpdateDefaultBaseBranch c i b d =
     (case ctxErr c of Some e \<Rightarrow> Inl (EExec e)
      | None \<Rightarrow>
        (let wh = (\<lambda>r. rp_id r = i)
         in if countWhere wh (repositories d) = 0 then Inl ENotFound
            else Inr (d\<lparr>repositories := updateWhere wh
              (\<lambda>r. r\<lparr>rp_default_base_branch := Some b\<rparr>) (repositories d)\<rparr>)))"

text \<open>\<open>tasks\<close> references \<open>repositories\<close> with ON DELETE RESTRICT.\<close>

definition repoDelete :: "ctx \<Rightarrow> string \<Rightarrow> db \<Rightarrow> store_error + db" where
  "repoDelete c i d =
     (case ctxErr c of Some e \<Rightarrow> Inl (EExec e)
      | None \<Rightarrow>
        if hasKey rp_id i (repositories d) \<and> hasKey r_repository_id i (tasks d)
          then Inl (EConstraint ''FOREIGN KEY'')
        else Inr (d\<lparr>repositories := deleteWhere (\<lambda>r. rp_id r = i) (repositories d)\<rparr>))"

definition repoPath :: "ctx \<Rightarrow> string \<Rightarrow> db \<Rightarrow> store_error + string" where
  "repoPath c i d = (case repoGet c i d of Inl e \<Rightarrow> Inl e | Inr r \<Rightarrow> Inr (rPath r))"

lemmas repoStore_defs [store_defs] =
  repoCreate_def repoInsert_def repoTouchLastUsed_def repoUpdateDefaultBaseBranch_def repoDelete_def

section \<open>What the statements keep\<close>

lemma wfDB_updateWhere_repositories:
  assumes wf: "wfDB d" and key: "\<And>r. rp_id (f r) = rp_id r" and path: "\<And>r. rp_path (f r) = rp_path r"
  shows "wfDB (d\<lparr>repositories := updateWhere p f (repositories d)\<rparr>)"
proof -
  have ids: "map rp_id (updateWhere p f (repositories d)) = map rp_id (repositories d)"
    by (rule keys_updateWhere) (rule key)
  have paths: "map rp_path (updateWhere p f (repositories d)) = map rp_path (repositories d)"
    by (rule keys_updateWhere) (rule path)
  from ids have "rp_id ` set (updateWhere p f (repositories d)) = rp_id ` set (repositories d)"
    by (metis list.set_map)
  with wf ids paths show ?thesis by (simp add: wfDB_def keysOk_def refsOk_def rowsOk_def)
qed

lemma repoInsert_wf:
  assumes "wfDB d" "repoInsert lower now c inp d = Inr d'"
  shows "wfDB d'"
proof -
  from assms(2) have "d' = d\<lparr>repositories := repositories d @ [repoRowOf lower now inp]\<rparr>"
    "riID inp \<notin> rp_id ` set (repositories d)" "lower (riPath inp) \<notin> rp_path ` set (repositories d)"
    by (auto simp: repoInsert_def hasKey_iff split: if_splits option.splits)
  with assms(1) show ?thesis
    by (simp add: repoRowOf_def wfDB_def keysOk_def refsOk_def rowsOk_def subset_insertI2)
qed

lemma repoCreate_wf: "wfDB d \<Longrightarrow> wfDB (snd (repoCreate lower now c c2 inp d))"
  by (auto simp: repoCreate_def intro: repoInsert_wf split: sum.splits)

text \<open>The stored row is the one asked for, and is what the call returns unless reading it back fails.\<close>

lemma repoCreate_result:
  assumes "repoCreate lower now c c2 inp d = (Inr r, d')"
  shows "d' = d\<lparr>repositories := repositories d @ [repoRowOf lower now inp]\<rparr>"
    and "r = scanRepository (repoRowOf lower now inp)"
proof -
  have none: "\<not> hasKey rp_id i rs \<Longrightarrow> lookupBy rp_id i rs = None" for i rs
    by (simp add: hasKey_iff lookupBy_None)
  show "d' = d\<lparr>repositories := repositories d @ [repoRowOf lower now inp]\<rparr>"
    "r = scanRepository (repoRowOf lower now inp)"
    using assms
    by (auto simp: repoCreate_def repoInsert_def repoGet_def repoRowOf_def none
        split: sum.splits option.splits if_splits)
qed

lemma repoTouchLastUsed_wf: "wfDB d \<Longrightarrow> repoTouchLastUsed now c i d = Inr d' \<Longrightarrow> wfDB d'"
  by (auto simp: repoTouchLastUsed_def split: option.splits intro!: wfDB_updateWhere_repositories)

lemma repoUpdateDefaultBaseBranch_wf:
  "wfDB d \<Longrightarrow> repoUpdateDefaultBaseBranch c i b d = Inr d' \<Longrightarrow> wfDB d'"
  by (auto simp: repoUpdateDefaultBaseBranch_def Let_def split: option.splits if_splits
      intro!: wfDB_updateWhere_repositories)

lemma repoDelete_wf:
  assumes "wfDB d" "repoDelete c i d = Inr d'"
  shows "wfDB d'"
proof -
  from assms(2) have d': "d' = d\<lparr>repositories := deleteWhere (\<lambda>r. rp_id r = i) (repositories d)\<rparr>"
    and free: "i \<in> rp_id ` set (repositories d) \<Longrightarrow> i \<notin> r_repository_id ` set (tasks d)"
    by (auto simp: repoDelete_def hasKey_iff split: option.splits if_splits)
  from assms(1) have refs: "r_repository_id ` set (tasks d) \<subseteq> rp_id ` set (repositories d)"
    by (simp add: wfDB_def refsOk_def)
  with free have "i \<notin> r_repository_id ` set (tasks d)" by blast
  moreover have "x \<in> rp_id ` {r \<in> set (repositories d). rp_id r \<noteq> i}"
    if "x \<in> rp_id ` set (repositories d)" "x \<noteq> i" for x using that by auto
  ultimately have "r_repository_id ` set (tasks d) \<subseteq> rp_id ` {r \<in> set (repositories d). rp_id r \<noteq> i}"
    using refs by blast
  with assms(1) show ?thesis
    by (simp add: d' wfDB_def keysOk_def refsOk_def rowsOk_def distinct_keys_deleteWhere)
qed

end
