(* ===== verification/Store_Ops.thy ===== *)
theory Store_Ops
  imports Task_Store Subtask_Store Event_Store Repository_Store
begin

text \<open>
  Every writing operation of the four stores as one kind of step on the database, whoever
  calls it and in whatever order (the write handle is a single connection, so calls from
  different goroutines interleave at this granularity). Locales state what a client may rely
  on: \<open>invariant_steps\<close> (an invariant every step keeps), \<open>status_steps\<close> (a keyed status that
  moves only along the edges of a state machine) and \<open>cas_store\<close> (the compare-and-set
  contract of TaskRepo.Transition); each is interpreted on the stores' own definitions.
\<close>

section \<open>Contracts\<close>

text \<open>The states a run of steps goes through, the first and the last among them.\<close>

primrec statesOf :: "('o \<Rightarrow> 's \<Rightarrow> 's) \<Rightarrow> 'o list \<Rightarrow> 's \<Rightarrow> 's list" where
  "statesOf step [] s = [s]"
| "statesOf step (a # as) s = s # statesOf step as (step a s)"

lemma hd_statesOf [simp]: "hd (statesOf step as s) = s"
  by (cases as) simp_all

lemma statesOf_not_Nil [simp]: "statesOf step as s \<noteq> []"
  by (cases as) simp_all

lemma last_statesOf [simp]: "last (statesOf step as s) = fold step as s"
  by (induction as arbitrary: s) auto

locale invariant_steps =
  fixes step :: "'o \<Rightarrow> 's \<Rightarrow> 's"
    and inv :: "'s \<Rightarrow> bool"
  assumes step_inv: "inv s \<Longrightarrow> inv (step a s)"
begin

lemma run_inv: "inv s \<Longrightarrow> inv (fold step as s)"
  by (induction as arbitrary: s) (auto intro: step_inv)

end

locale status_steps = invariant_steps step inv
  for step :: "'o \<Rightarrow> 's \<Rightarrow> 's" and inv :: "'s \<Rightarrow> bool" +
  fixes status :: "'s \<Rightarrow> 'k \<Rightarrow> 'v option"
    and edge :: "'v \<Rightarrow> 'v \<Rightarrow> bool"
    and removes :: "'k \<Rightarrow> 'o \<Rightarrow> bool"
  assumes step_status: "inv s \<Longrightarrow> status s k = Some v \<Longrightarrow> \<not> removes k a \<Longrightarrow>
      \<exists>v'. status (step a s) k = Some v' \<and> (v' = v \<or> edge v v')"
begin

lemma run_status:
  "inv s \<Longrightarrow> status s k = Some v \<Longrightarrow> \<forall>a\<in>set as. \<not> removes k a \<Longrightarrow>
     \<exists>v'. status (fold step as s) k = Some v' \<and> edge\<^sup>*\<^sup>* v v'"
proof (induction as arbitrary: s v)
  case Nil
  then show ?case by auto
next
  case (Cons a as)
  from Cons.prems obtain v1 where v1: "status (step a s) k = Some v1" "v1 = v \<or> edge v v1"
    using step_status by force
  have "inv (step a s)" using Cons.prems(1) by (rule step_inv)
  with Cons v1(1) obtain v' where "status (fold step as (step a s)) k = Some v'" "edge\<^sup>*\<^sup>* v1 v'"
    by fastforce
  with v1(2) show ?case by (auto intro: converse_rtranclp_into_rtranclp)
qed

text \<open>The statuses along a run: each is the one before it or follows it by an edge.\<close>

lemma run_history:
  "inv s \<Longrightarrow> status s k = Some v \<Longrightarrow> \<forall>a\<in>set as. \<not> removes k a \<Longrightarrow>
     \<exists>vs. map (\<lambda>t. status t k) (statesOf step as s) = map Some (v # vs) \<and>
       successively (\<lambda>x y. y = x \<or> edge x y) (v # vs)"
proof (induction as arbitrary: s v)
  case Nil
  then show ?case by (intro exI [of _ "[]"]) simp
next
  case (Cons a as)
  from Cons.prems obtain v1 where v1: "status (step a s) k = Some v1" "v1 = v \<or> edge v v1"
    using step_status by force
  have "inv (step a s)" using Cons.prems(1) by (rule step_inv)
  with Cons v1(1) obtain vs where "map (\<lambda>t. status t k) (statesOf step as (step a s)) = map Some (v1 # vs)"
    "successively (\<lambda>x y. y = x \<or> edge x y) (v1 # vs)"
    by fastforce
  with v1(2) Cons.prems(2) show ?case by (intro exI [of _ "v1 # vs"]) auto
qed

lemma run_final:
  assumes "inv s" "status s k = Some v" "\<forall>a\<in>set as. \<not> removes k a" "\<And>v'. \<not> edge v v'"
  shows "status (fold step as s) k = Some v"
  using run_status [OF assms(1-3)] assms(4) by (auto elim: converse_rtranclpE)

end

locale cas_store =
  fixes status :: "'s \<Rightarrow> 'k \<Rightarrow> 'v option"
    and cas :: "'a \<Rightarrow> 'k \<Rightarrow> 'v \<Rightarrow> 'v \<Rightarrow> 's \<Rightarrow> 'e + 's"
    and inv :: "'s \<Rightarrow> bool"
  assumes cas_from: "inv s \<Longrightarrow> cas a k v w s = Inr s' \<Longrightarrow> status s k = Some v"
    and cas_to: "inv s \<Longrightarrow> cas a k v w s = Inr s' \<Longrightarrow> status s' k = Some w"
    and cas_frame: "inv s \<Longrightarrow> cas a k v w s = Inr s' \<Longrightarrow> j \<noteq> k \<Longrightarrow> status s' j = status s j"
    and cas_moves: "cas a k v w s = Inr s' \<Longrightarrow> v \<noteq> w"
    and cas_inv: "inv s \<Longrightarrow> cas a k v w s = Inr s' \<Longrightarrow> inv s'"
begin

text \<open>Of two callers that read the same status, the second to write is refused.\<close>

lemma cas_once:
  assumes "inv s" "cas a k v w s = Inr s'"
  shows "\<exists>e. cas b k v u s' = Inl e"
proof (cases "cas b k v u s'")
  case (Inr s'')
  from assms have "inv s'" by (rule cas_inv)
  then have "status s' k = Some v" using Inr by (rule cas_from)
  moreover have "status s' k = Some w" using assms by (rule cas_to)
  moreover have "v \<noteq> w" using assms(2) by (rule cas_moves)
  ultimately show ?thesis by simp
qed simp

lemma cas_commute_status:
  assumes "inv s" "cas a k v w s = Inr s1" "cas b j x y s1 = Inr s2" "j \<noteq> k"
  shows "status s2 k = Some w \<and> status s2 j = Some y"
proof -
  have "inv s1" using assms(1,2) by (rule cas_inv)
  then show ?thesis
    using cas_frame [OF _ assms(3), of k] cas_to [OF _ assms(3)] cas_to [OF assms(1,2)] assms(4)
    by auto
qed

end

section \<open>The steps\<close>

datatype db_op =
    OpTaskCreate time ctx task
  | OpUpdateFields time ctx task
  | OpTransition time ctx string status status error_code string finalization_kind
  | OpSetBranchExists time ctx string bool
  | OpTaskDelete ctx string
  | OpRecoverRunning time ctx
  | OpSubtaskCreate time ctx subtask
  | OpSubtaskUpdate time ctx subtask
  | OpSubtaskDelete ctx string
  | OpSubtaskDeleteByTask ctx string
  | OpSubtaskReorder time ctx string "string list"
  | OpCreatePlan time ctx string "subtask list"
  | OpEventAppend ctx agent_event
  | OpEventAppendAutoSeq time ctx agent_event
  | OpEventAppendBatch ctx "agent_event list"
  | OpEventDeleteByTask ctx string
  | OpRepoCreate "string \<Rightarrow> string" time ctx ctx repository_input
  | OpRepoTouchLastUsed time ctx string
  | OpRepoUpdateDefaultBaseBranch ctx string string
  | OpRepoDelete ctx string

text \<open>A failed operation leaves the database as it was.\<close>

definition committed :: "('a \<Rightarrow> 's) \<Rightarrow> 's \<Rightarrow> 'e + 'a \<Rightarrow> 's" where
  "committed f s r = (case r of Inl _ \<Rightarrow> s | Inr x \<Rightarrow> f x)"

fun dbStep :: "db_op \<Rightarrow> db \<Rightarrow> db" where
  "dbStep (OpTaskCreate now c t) d = committed id d (taskCreate now c t d)"
| "dbStep (OpUpdateFields now c t) d = committed id d (updateFields now c t d)"
| "dbStep (OpTransition now c i from to code msg fin) d =
     committed id d (transition now c i from to code msg fin d)"
| "dbStep (OpSetBranchExists now c i b) d = committed id d (setBranchExists now c i b d)"
| "dbStep (OpTaskDelete c i) d = committed id d (taskDelete c i d)"
| "dbStep (OpRecoverRunning now c) d = committed fst d (recoverRunning now c d)"
| "dbStep (OpSubtaskCreate now c s) d = committed id d (subtaskCreate now c s d)"
| "dbStep (OpSubtaskUpdate now c s) d = committed id d (subtaskUpdate now c s d)"
| "dbStep (OpSubtaskDelete c i) d = committed id d (subtaskDelete c i d)"
| "dbStep (OpSubtaskDeleteByTask c p) d = committed fst d (subtaskDeleteByTask c p d)"
| "dbStep (OpSubtaskReorder now c p is) d = committed id d (subtaskReorder now c p is d)"
| "dbStep (OpCreatePlan now c p ss) d = committed fst d (createPlan now c p ss d)"
| "dbStep (OpEventAppend c e) d = committed id d (eventAppend c e d)"
| "dbStep (OpEventAppendAutoSeq now c e) d = committed fst d (appendAutoSeq now c e d)"
| "dbStep (OpEventAppendBatch c es) d = committed id d (appendBatch c es d)"
| "dbStep (OpEventDeleteByTask c t) d = committed fst d (eventDeleteByTask c t d)"
| "dbStep (OpRepoCreate lower now c c2 inp) d = snd (repoCreate lower now c c2 inp d)"
| "dbStep (OpRepoTouchLastUsed now c i) d = committed id d (repoTouchLastUsed now c i d)"
| "dbStep (OpRepoUpdateDefaultBaseBranch c i b) d =
     committed id d (repoUpdateDefaultBaseBranch c i b d)"
| "dbStep (OpRepoDelete c i) d = committed id d (repoDelete c i d)"

definition dbRun :: "db_op list \<Rightarrow> db \<Rightarrow> db" where
  "dbRun ops d = fold dbStep ops d"

definition taskStatus :: "db \<Rightarrow> string \<Rightarrow> status option" where
  "taskStatus d i = map_option r_status (lookupBy r_id i (tasks d))"

fun deletesTask :: "string \<Rightarrow> db_op \<Rightarrow> bool" where
  "deletesTask i (OpTaskDelete c j) = (i = j)"
| "deletesTask i _ = False"

section \<open>Every step keeps the invariant\<close>

lemma committed_id: "wfDB d \<Longrightarrow> (\<And>x. r = Inr x \<Longrightarrow> wfDB x) \<Longrightarrow> wfDB (committed id d r)"
  by (cases r) (auto simp: committed_def)

lemma committed_fst: "wfDB d \<Longrightarrow> (\<And>x y. r = Inr (x, y) \<Longrightarrow> wfDB x) \<Longrightarrow> wfDB (committed fst d r)"
  by (cases r) (auto simp: committed_def)

lemma createPlan_wf': "wfDB d \<Longrightarrow> createPlan now c p ss d = Inr (d', x) \<Longrightarrow> wfDB d'"
  by (cases x) (simp add: createPlan_wf)

lemmas store_wf =
  taskCreate_wf updateFields_wf transition_wf setBranchExists_wf taskDelete_wf recoverRunning_wf
  subtaskCreate_wf subtaskUpdate_wf subtaskDelete_wf subtaskDeleteByTask_wf subtaskReorder_wf
  createPlan_wf' eventAppend_wf appendAutoSeq_wf appendBatch_wf eventDeleteByTask_wf
  repoTouchLastUsed_wf repoUpdateDefaultBaseBranch_wf repoDelete_wf

lemma dbStep_wf: "wfDB d \<Longrightarrow> wfDB (dbStep a d)"
  by (cases a; simp only: dbStep.simps; rule repoCreate_wf committed_id committed_fst;
      (assumption | erule store_wf [rotated], assumption))

interpretation db_inv: invariant_steps dbStep wfDB
  by unfold_locales (rule dbStep_wf)

section \<open>Task statuses move along the state machine\<close>

lemma taskStatus_tasks: "tasks d' = tasks d \<Longrightarrow> taskStatus d' i = taskStatus d i"
  by (simp add: taskStatus_def)

lemma taskStatus_updateWhere:
  assumes "\<And>r. r_id (f r) = r_id r"
  shows "taskStatus (d\<lparr>tasks := updateWhere p f (tasks d)\<rparr>) i =
    map_option (\<lambda>r. r_status (if p r then f r else r)) (lookupBy r_id i (tasks d))"
  using lookupBy_updateWhere [of r_id f i p "tasks d"] assms
  by (simp add: taskStatus_def option.map_comp comp_def)

lemma taskStatus_SomeD:
  "taskStatus d i = Some s \<Longrightarrow> \<exists>r. lookupBy r_id i (tasks d) = Some r \<and> r_status r = s \<and> r_id r = i"
  by (auto simp: taskStatus_def dest: lookupBy_SomeD)

text \<open>The row a caller's guard \<open>id = ? AND status = ?\<close> finds is the one the key names.\<close>

lemma guard_row:
  "distinct (map r_id (tasks d)) \<Longrightarrow> \<exists>r\<in>set (tasks d). r_id r = i \<and> r_status r = s \<Longrightarrow>
     taskStatus d i = Some s"
  by (auto simp: taskStatus_def lookupBy_unique)

lemma recoverEach_status:
  "recoverEach now is d = Inr d' \<Longrightarrow> taskStatus d i = Some s \<Longrightarrow>
     \<exists>s'. taskStatus d' i = Some s' \<and> (s' = s \<or> s = StatusInProgress \<and> s' = StatusFailed)"
proof (induction "is" arbitrary: d s)
  case Nil
  then show ?case by simp
next
  case (Cons j "is")
  let ?d = "d\<lparr>tasks := updateWhere (\<lambda>r. r_id r = j \<and> r_status r = StatusInProgress)
    (recoverRow now) (tasks d)\<rparr>"
  from Cons.prems(1) have rest: "recoverEach now is ?d = Inr d'"
    by (auto simp: Let_def split: if_splits)
  from Cons.prems(2) obtain r where r: "lookupBy r_id i (tasks d) = Some r" "r_status r = s"
    by (auto dest: taskStatus_SomeD)
  then have "taskStatus ?d i = Some s \<or> s = StatusInProgress \<and> taskStatus ?d i = Some StatusFailed"
    by (auto simp: taskStatus_updateWhere)
  then show ?case using Cons.IH [OF rest] by fastforce
qed

lemma tasks_unchanged:
  "insertSubtask q d = Inr d' \<Longrightarrow> tasks d' = tasks d"
  "insertEvent e d = Inr d' \<Longrightarrow> tasks d' = tasks d"
  "reorderEach now p k is d = Inr d' \<Longrightarrow> tasks d' = tasks d"
  "appendChunk es d = Inr d' \<Longrightarrow> tasks d' = tasks d"
proof -
  show "insertSubtask q d = Inr d' \<Longrightarrow> tasks d' = tasks d"
    by (auto dest: insertSubtask_InrD)
  show "insertEvent e d = Inr d' \<Longrightarrow> tasks d' = tasks d" by (auto dest: insertEvent_InrD)
  show "reorderEach now p k is d = Inr d' \<Longrightarrow> tasks d' = tasks d"
    by (induction "is" arbitrary: k d) (fastforce simp: Let_def split: if_splits)+
  show "appendChunk es d = Inr d' \<Longrightarrow> tasks d' = tasks d"
    by (induction es arbitrary: d) (auto dest!: insertEvent_InrD split: sum.splits)
qed

fun touchesTasks :: "db_op \<Rightarrow> bool" where
  "touchesTasks (OpTaskCreate _ _ _) = True"
| "touchesTasks (OpUpdateFields _ _ _) = True"
| "touchesTasks (OpTransition _ _ _ _ _ _ _ _) = True"
| "touchesTasks (OpSetBranchExists _ _ _ _) = True"
| "touchesTasks (OpTaskDelete _ _) = True"
| "touchesTasks (OpRecoverRunning _ _) = True"
| "touchesTasks _ = False"

lemma dbStep_tasks: "\<not> touchesTasks a \<Longrightarrow> tasks (dbStep a d) = tasks d"
  by (cases a)
    (auto simp: committed_def store_defs Let_def appendChunks_eq dest: tasks_unchanged insertPlan_rows
      split: sum.splits option.splits if_splits)

lemma transition_status:
  assumes "distinct (map r_id (tasks d))" "transition now c i from to code msg fin d = Inr d'"
  shows "taskStatus d i = Some from" "taskStatus d' i = Some to" "canTransition from to"
    and "j \<noteq> i \<Longrightarrow> lookupBy r_id j (tasks d') = lookupBy r_id j (tasks d)"
proof -
  from assms(2) obtain code' msg' fin' where can: "canTransition from to"
    and ex: "\<exists>r\<in>set (tasks d). r_id r = i \<and> r_status r = from"
    and d': "d' = d\<lparr>tasks := updateWhere (\<lambda>r. r_id r = i \<and> r_status r = from)
       (transitionRow now from to code' msg' fin') (tasks d)\<rparr>"
    by (rule transition_InrD) blast
  show "canTransition from to" by (rule can)
  show s: "taskStatus d i = Some from" using assms(1) ex by (rule guard_row)
  then obtain r where "lookupBy r_id i (tasks d) = Some r" "r_status r = from" "r_id r = i"
    by (auto dest: taskStatus_SomeD)
  then show "taskStatus d' i = Some to" by (simp add: d' taskStatus_updateWhere)
  show "j \<noteq> i \<Longrightarrow> lookupBy r_id j (tasks d') = lookupBy r_id j (tasks d)"
    by (cases "lookupBy r_id j (tasks d)")
      (auto simp: d' lookupBy_updateWhere dest: lookupBy_SomeD)
qed

lemma dbStep_status_task_ops:
  assumes "wfDB d" "taskStatus d i = Some s" "\<not> deletesTask i a" "touchesTasks a"
  shows "\<exists>s'. taskStatus (dbStep a d) i = Some s' \<and> (s' = s \<or> canTransition s s')"
proof -
  from assms(2) obtain r where r: "lookupBy r_id i (tasks d) = Some r" "r_status r = s" "r_id r = i"
    by (auto dest: taskStatus_SomeD)
  note k = wfDB_task_keys [OF assms(1)]
  show ?thesis
  proof (cases a)
    case (OpTaskCreate now c t)
    with r show ?thesis
      by (auto simp: committed_def taskCreate_def taskStatus_def split: sum.splits option.splits if_splits)
  next
    case (OpUpdateFields now c t)
    with r assms(2) show ?thesis
      by (auto simp: committed_def updateFields_def Let_def taskStatus_updateWhere
          split: sum.splits option.splits if_splits)
  next
    case (OpTransition now c j fr to code msg fin)
    show ?thesis
    proof (cases "transition now c j fr to code msg fin d")
      case (Inl e)
      with OpTransition assms(2) show ?thesis by (simp add: committed_def)
    next
      case (Inr d')
      show ?thesis
      proof (cases "i = j")
        case True
        with transition_status [OF k Inr] OpTransition Inr assms(2)
        show ?thesis by (simp add: committed_def)
      next
        case False
        with transition_status(4) [OF k Inr] OpTransition Inr r
        show ?thesis by (simp add: committed_def taskStatus_def)
      qed
    qed
  next
    case (OpSetBranchExists now c j b)
    with r assms(2) show ?thesis
      by (auto simp: committed_def setBranchExists_def taskStatus_updateWhere
          split: sum.splits option.splits)
  next
    case (OpTaskDelete c j)
    with r assms(3) show ?thesis
      by (auto simp: committed_def taskDelete_def taskStatus_def lookupBy_deleteWhere [OF k]
          split: sum.splits option.splits)
  next
    case (OpRecoverRunning now c)
    show ?thesis
    proof (cases "recoverRunning now c d")
      case (Inl e)
      with OpRecoverRunning assms(2) show ?thesis by (simp add: committed_def)
    next
      case (Inr x)
      then obtain "is" where "recoverEach now is d = Inr (fst x)"
        by (auto simp: recoverRunning_def Let_def split: option.splits sum.splits)
      from recoverEach_status [OF this assms(2)] Inr OpRecoverRunning show ?thesis
        by (auto simp: committed_def)
    qed
  qed (use assms(4) in auto)
qed

lemma dbStep_status:
  assumes "wfDB d" "taskStatus d i = Some s" "\<not> deletesTask i a"
  shows "\<exists>s'. taskStatus (dbStep a d) i = Some s' \<and> (s' = s \<or> canTransition s s')"
proof (cases "touchesTasks a")
  case True
  with assms show ?thesis by (rule dbStep_status_task_ops)
next
  case False
  then have "tasks (dbStep a d) = tasks d" by (rule dbStep_tasks)
  with assms(2) show ?thesis by (metis taskStatus_tasks)
qed

interpretation db_status: status_steps dbStep wfDB taskStatus canTransition deletesTask
  by unfold_locales (rule dbStep_status)

interpretation task_cas: cas_store taskStatus
  "\<lambda>(now, c, code, msg, fin) i from to d. transition now c i from to code msg fin d" wfDB
proof unfold_locales
  fix s s' :: db and a :: "time \<times> ctx \<times> error_code \<times> string \<times> finalization_kind"
    and k j :: string and v w :: status
  obtain now c code msg fin where a: "a = (now, c, code, msg, fin)" by (cases a) auto
  let ?cas = "(case a of (now, c, code, msg, fin) \<Rightarrow> \<lambda>i from to d. transition now c i from to code msg fin d)
    k v w s = Inr s'"
  show "wfDB s \<Longrightarrow> ?cas \<Longrightarrow> taskStatus s k = Some v"
    by (auto simp: a dest: transition_status(1) [OF wfDB_task_keys])
  show "wfDB s \<Longrightarrow> ?cas \<Longrightarrow> taskStatus s' k = Some w"
    by (auto simp: a dest: transition_status(2) [OF wfDB_task_keys])
  show "wfDB s \<Longrightarrow> ?cas \<Longrightarrow> j \<noteq> k \<Longrightarrow> taskStatus s' j = taskStatus s j"
    by (auto simp: a taskStatus_def dest: transition_status(4) [OF wfDB_task_keys])
  show "?cas \<Longrightarrow> v \<noteq> w" by (auto simp: a transition_def)
  show "wfDB s \<Longrightarrow> ?cas \<Longrightarrow> wfDB s'" by (auto simp: a intro: transition_wf)
qed

lemma rtranclp_reach: "canTransition\<^sup>*\<^sup>* s s' \<Longrightarrow> reach s s'"
  by (induction rule: converse_rtranclp_induct) (auto intro: reach.intros)

end
