(* ===== verification/Samples.thy ===== *)
theory Samples
  imports Store_Ops
begin

text \<open>
  Concrete rows, a small database and (with World) the inputs on which the witnesses of the
  properties run. Nothing here models code.
\<close>

section \<open>A small database\<close>

definition sampleTask :: "string \<Rightarrow> status \<Rightarrow> task" where
  "sampleTask i st = \<lparr>tID = i, tRepoID = ''r1'', tGoal = ''goal'', tBaseBranch = ''main'',
     tBranch = ''fleetkanban/'' @ i, tWorktreePath = '''', tModel = '''', tPlanModel = '''',
     tReviewModel = '''', tStatus = st, tFinalization = FinalizationNone,
     tErrorCode = ErrCodeNone, tErrorMessage = '''', tSessionID = '''', tBranchExists = True,
     tReviewFeedback = '''', tReworkCount = 0, tCreatedAt = 0, tUpdatedAt = 0,
     tStartedAt = None, tFinishedAt = None\<rparr>"

definition sampleSubtask :: "string \<Rightarrow> string list \<Rightarrow> int \<Rightarrow> subtask" where
  "sampleSubtask i deps k = \<lparr>sID = i, sTaskID = ''t1'', sTitle = ''title'',
     sAgentRole = ''coder'', sDependsOn = deps, sWritePaths = [], sStatus = SubtaskPending,
     sOrderIdx = k, sCodeModel = '''', sRound = 0, sPrompt = '''', sCreatedAt = 0, sUpdatedAt = 0\<rparr>"

definition sampleEvent :: "string \<Rightarrow> agent_event" where
  "sampleEvent i = \<lparr>eID = i, eTaskID = ''t1'', eSeq = 0, eKind = EventAssistantDelta,
     ePayload = PText ''x'', eOccurredAt = 0\<rparr>"

definition sampleDB :: db where
  "sampleDB = \<lparr>
     repositories = [\<lparr>rp_id = ''r1'', rp_path = ''/p'', rp_display_name = ''p'',
       rp_default_base_branch = None, rp_created_at = 1, rp_last_used_at = None\<rparr>],
     tasks = [taskRowOf 1 (sampleTask ''t1'' StatusInProgress),
              taskRowOf 2 (sampleTask ''t2'' StatusQueued)],
     subtasks = [subtaskRowOf 1 1 (sampleSubtask ''s1'' [] 0)],
     events = [(sampleEvent ''e1'')\<lparr>eSeq := 1\<rparr>]\<rparr>"

lemmas sample_defs = sampleDB_def sampleTask_def sampleSubtask_def sampleEvent_def

lemma wfDB_sample: "wfDB sampleDB"
  by (simp add: sample_defs wfDB_def keysOk_def refsOk_def rowsOk_def taskRowOk_iff
      subtaskRowOk_iff eventRowOk_def eventValidate_None taskRowOf_def subtaskRowOf_def)

lemma sample_status:
  "taskStatus sampleDB ''t1'' = Some StatusInProgress" "taskStatus sampleDB ''t2'' = Some StatusQueued"
  by (simp_all add: taskStatus_def sample_defs taskRowOf_def)

end
