(* ===== verification/Store_Theorems.thy ===== *)
theory Store_Theorems
  imports Samples
begin

text \<open>
  What the stores guarantee a client, over the operations of Task_Store, Subtask_Store and
  Event_Store: the schema invariant under any interleaving of operations, the life of a task's
  status, the exact effect of every task operation, plans and their rounds, and the event log.
  The witnesses run on the small database of Samples.
\<close>

section \<open>The schema invariant and the life of a task\<close>

text \<open>C21 (schema invariant). Whatever writing operations of the four stores are run, in any
  order, with any arguments and live or cancelled contexts, the database keeps its keys, its
  foreign keys and every row's \<open>Validate\<close> rules (a failed task has an error code and no other
  has; a done task has a finalization and no other has).\<close>

theorem stores_keep_schema: "wfDB d \<Longrightarrow> wfDB (dbRun ops d)"
  unfolding dbRun_def by (rule db_inv.run_inv)

theorem stores_keep_schema_witness:
  "wfDB (dbRun [OpTransition 5 Live ''t2'' StatusQueued StatusPlanning ErrCodeNone [] FinalizationNone,
     OpCreatePlan 6 Live ''t2'' [], OpTaskDelete Live ''t1''] sampleDB)"
  by (rule stores_keep_schema) (rule wfDB_sample)

text \<open>C22 (status history). Under any interleaving of store operations that does not delete the
  task, its status follows the edges of transition.go one at a time: the statuses found in the databases
  the operations go through are a history that starts with the one found at the start, and in which each is
  the one before it or follows it by a single legal edge. The status at the end is the last of the
  history, and so reachable from the first.\<close>

theorem status_follows_state_machine:
  assumes "wfDB d" "taskStatus d i = Some s" "\<forall>a\<in>set ops. \<not> deletesTask i a"
  shows "\<exists>later. map (\<lambda>d. taskStatus d i) (statesOf dbStep ops d) = map Some (s # later) \<and>
    successively (\<lambda>x y. y = x \<or> canTransition x y) (s # later) \<and>
    taskStatus (dbRun ops d) i = Some (last (s # later)) \<and> reach s (last (s # later))"
proof -
  obtain later where h: "map (\<lambda>d. taskStatus d i) (statesOf dbStep ops d) = map Some (s # later)"
    "successively (\<lambda>x y. y = x \<or> canTransition x y) (s # later)"
    using db_status.run_history [OF assms] by blast
  have "last (map (\<lambda>d. taskStatus d i) (statesOf dbStep ops d)) = last (map Some (s # later))"
    using h(1) by (rule arg_cong)
  then have e: "taskStatus (dbRun ops d) i = Some (last (s # later))"
    unfolding dbRun_def by (simp add: last_map)
  moreover have "reach s (last (s # later))"
    using db_status.run_status [OF assms] e rtranclp_reach unfolding dbRun_def by fastforce
  ultimately show ?thesis using h by blast
qed

theorem status_follows_state_machine_witness:
  "map (\<lambda>d. taskStatus d ''t1'') (statesOf dbStep [OpRecoverRunning 7 Live,
      OpTransition 8 Live ''t1'' StatusFailed StatusQueued ErrCodeNone [] FinalizationNone,
      OpTransition 9 Live ''t1'' StatusQueued StatusDone ErrCodeNone [] FinalizationKeep] sampleDB) =
    map Some [StatusInProgress, StatusFailed, StatusQueued, StatusQueued] \<and>
   canTransition StatusInProgress StatusFailed \<and> canTransition StatusFailed StatusQueued"
proof -
  let ?ops = "[OpRecoverRunning 7 Live,
      OpTransition 8 Live ''t1'' StatusFailed StatusQueued ErrCodeNone [] FinalizationNone,
      OpTransition 9 Live ''t1'' StatusQueued StatusDone ErrCodeNone [] FinalizationKeep]"
  obtain later where "map (\<lambda>d. taskStatus d ''t1'') (statesOf dbStep ?ops sampleDB) = map Some (StatusInProgress # later)"
    "successively (\<lambda>x y. y = x \<or> canTransition x y) (StatusInProgress # later)"
    using status_follows_state_machine [OF wfDB_sample sample_status(1), of ?ops] by (simp del: statesOf.simps list.map) blast
  moreover have "map (\<lambda>d. taskStatus d ''t1'') (statesOf dbStep ?ops sampleDB) =
      map Some [StatusInProgress, StatusFailed, StatusQueued, StatusQueued]" by code_simp
  ultimately show ?thesis by auto
qed

text \<open>Final statuses. A done or cancelled task stays so: no sequence of store operations
  short of deleting the task moves it.\<close>

theorem done_and_cancelled_are_final:
  assumes "wfDB d" "taskStatus d i = Some s" "s \<in> {StatusDone, StatusCancelled}"
    "\<forall>a\<in>set ops. \<not> deletesTask i a"
  shows "taskStatus (dbRun ops d) i = Some s"
  unfolding dbRun_def using assms(3) by (intro db_status.run_final assms(1,2,4)) auto

definition doneDB :: db where
  "doneDB = sampleDB\<lparr>tasks := [taskRowOf 1 ((sampleTask ''t1'' StatusDone)\<lparr>tFinalization := FinalizationKeep\<rparr>)]\<rparr>"

lemma wfDB_done: "wfDB doneDB"
  by (simp add: doneDB_def sample_defs wfDB_def keysOk_def refsOk_def rowsOk_def taskRowOk_iff
      subtaskRowOk_iff eventRowOk_def eventValidate_None taskRowOf_def subtaskRowOf_def)

theorem done_and_cancelled_are_final_witness:
  "taskStatus (dbRun [OpTransition 5 Live ''t1'' StatusDone StatusQueued ErrCodeNone [] FinalizationNone,
     OpUpdateFields 6 Live (sampleTask ''t1'' StatusQueued), OpRecoverRunning 7 Live] doneDB) ''t1''
   = Some StatusDone"
  by (rule done_and_cancelled_are_final [OF wfDB_done])
    (simp_all add: taskStatus_def doneDB_def sample_defs taskRowOf_def)

text \<open>The step into done is taken from a decision state.\<close>

lemma run_into_done:
  "wfDB d \<Longrightarrow> taskStatus d i = Some s \<Longrightarrow> s \<noteq> StatusDone \<Longrightarrow> \<forall>a\<in>set ops. \<not> deletesTask i a \<Longrightarrow>
   taskStatus (fold dbStep ops d) i = Some StatusDone \<Longrightarrow>
   \<exists>k \<le> length ops. taskStatus (fold dbStep (take k ops) d) i
      \<in> {Some StatusHumanReview, Some StatusAborted}"
proof (induction ops arbitrary: d s)
  case Nil
  then show ?case by simp
next
  case (Cons a ops)
  from Cons.prems(4) have na: "\<not> deletesTask i a" by simp
  obtain s1 where s1: "taskStatus (dbStep a d) i = Some s1" "s1 = s \<or> canTransition s s1"
    using dbStep_status [OF Cons.prems(1,2) na] by blast
  show ?case
  proof (cases "s1 = StatusDone")
    case True
    with s1(2) Cons.prems(3) have "s = StatusHumanReview \<or> s = StatusAborted"
      by (auto simp: into_done)
    with Cons.prems(2) show ?thesis by (intro exI [of _ 0]) auto
  next
    case False
    from Cons.IH [OF dbStep_wf [OF Cons.prems(1)] s1(1) False] Cons.prems(4,5)
    obtain k where "k \<le> length ops" "taskStatus (fold dbStep (take k ops) (dbStep a d)) i
      \<in> {Some StatusHumanReview, Some StatusAborted}" by auto
    then show ?thesis by (intro exI [of _ "Suc k"]) auto
  qed
qed

text \<open>C2 (no silent completion). A task that was not done and is done after some sequence of
  store operations was, at some moment in between, in human review or aborted, the two states
  in which the user decides: no component can finish a task by itself.\<close>

theorem done_only_after_decision:
  assumes "wfDB d" "taskStatus d i = Some s" "s \<noteq> StatusDone"
    "\<forall>a\<in>set ops. \<not> deletesTask i a" "taskStatus (dbRun ops d) i = Some StatusDone"
  shows "\<exists>k \<le> length ops. taskStatus (dbRun (take k ops) d) i
      \<in> {Some StatusHumanReview, Some StatusAborted}"
  using run_into_done [OF assms(1-4)] assms(5) unfolding dbRun_def by blast

definition reviewOps :: "db_op list" where
  "reviewOps =
    [OpTransition 5 Live ''t1'' StatusInProgress StatusAIReview ErrCodeNone [] FinalizationNone,
     OpTransition 6 Live ''t1'' StatusAIReview StatusHumanReview ErrCodeNone [] FinalizationNone,
     OpTransition 7 Live ''t1'' StatusHumanReview StatusDone ErrCodeNone [] FinalizationKeep]"

theorem done_only_after_decision_witness:
  "\<exists>k \<le> length reviewOps. taskStatus (dbRun (take k reviewOps) sampleDB) ''t1''
      \<in> {Some StatusHumanReview, Some StatusAborted}"
  by (rule done_only_after_decision [OF wfDB_sample sample_status(1)])
    (simp_all add: reviewOps_def dbRun_def committed_def transition_def countWhere_def
      updateWhere_def taskStatus_def sample_defs taskRowOf_def transitionRow_def)

section \<open>Task operations\<close>

text \<open>When the guard of a status change finds no row, and the row a success leaves.\<close>

lemma guard_count:
  assumes "wfDB d"
  shows "countWhere (\<lambda>r. r_id r = i \<and> r_status r = v) (tasks d) = 0 \<longleftrightarrow> taskStatus d i \<noteq> Some v"
  unfolding countWhere_key [OF wfDB_task_keys [OF assms], of i "\<lambda>r. r_status r = v"]
  by (simp add: taskStatus_def split: option.splits)

lemma transition_row:
  assumes k: "distinct (map r_id (tasks d))" and ok: "transition now c i from to code msg fin d = Inr d'"
  shows "\<exists>r. lookupBy r_id i (tasks d) = Some r \<and> r_status r = from \<and>
    lookupBy r_id i (tasks d') = Some (transitionRow now from to
      (if to = StatusFailed then code else ErrCodeNone) (if to = StatusFailed then msg else [])
      (if to = StatusDone then fin else FinalizationNone) r)"
    and "subtasks d' = subtasks d \<and> events d' = events d \<and> repositories d' = repositories d"
proof -
  let ?row = "transitionRow now from to
      (if to = StatusFailed then code else ErrCodeNone) (if to = StatusFailed then msg else [])
      (if to = StatusDone then fin else FinalizationNone)"
  from ok have d': "d' = d\<lparr>tasks := updateWhere (\<lambda>r. r_id r = i \<and> r_status r = from) ?row (tasks d)\<rparr>"
    by (auto simp: transition_def Let_def split: if_splits option.splits)
  from transition_status(1) [OF k ok] obtain r
    where r: "lookupBy r_id i (tasks d) = Some r" "r_status r = from" "r_id r = i"
    by (auto dest: taskStatus_SomeD)
  then show "\<exists>r. lookupBy r_id i (tasks d) = Some r \<and> r_status r = from \<and>
    lookupBy r_id i (tasks d') = Some (?row r)"
    by (simp add: d' lookupBy_updateWhere)
  show "subtasks d' = subtasks d \<and> events d' = events d \<and> repositories d' = repositories d"
    by (simp add: d')
qed

text \<open>Effect of Transition. A successful status change writes exactly: the new status; the
  error code and message given when the task failed and none otherwise; the finalization given
  when it is done and none otherwise; a start time on entering in_progress unless one is set;
  a finish time on entering a state where nothing runs, and none on requeueing; and the rework
  count, one more when AI review sends the task back, 0 when a user requeues it or it is done,
  cancelled or failed, else as it was. Every other column, every other task and every other
  table stay as they were.\<close>

theorem transition_effect:
  assumes "wfDB d" "transition now c i from to code msg fin d = Inr d'"
  shows "\<exists>r r'. lookupBy r_id i (tasks d) = Some r \<and> lookupBy r_id i (tasks d') = Some r' \<and>
    r_status r = from \<and> r_status r' = to \<and> r_updated_at r' = now \<and>
    r_error_code r' = (if to = StatusFailed then code else ErrCodeNone) \<and>
    r_error_message r' = (if to = StatusFailed then msg else []) \<and>
    r_finalization r' = (if to = StatusDone then fin else FinalizationNone) \<and>
    r_started_at r' = (if to = StatusInProgress \<and> r_started_at r = None then Some now
                       else r_started_at r) \<and>
    r_finished_at r' = (if to = StatusQueued then None
                        else if to = StatusPlanning \<or> to = StatusInProgress then r_finished_at r
                        else Some now) \<and>
    r_rework_count r' = (if to = StatusQueued \<and> from = StatusAIReview then r_rework_count r + 1
                         else if to \<in> {StatusQueued, StatusDone, StatusCancelled, StatusFailed} then 0
                         else r_rework_count r) \<and>
    (r_id r', r_repository_id r', r_goal r', r_base_branch r', r_branch r', r_worktree_path r') =
    (r_id r, r_repository_id r, r_goal r, r_base_branch r, r_branch r, r_worktree_path r) \<and>
    (r_branch_exists r', r_model r', r_plan_model r', r_review_model r', r_session_id r',
     r_review_feedback r', r_created_at r') =
    (r_branch_exists r, r_model r, r_plan_model r, r_review_model r, r_session_id r,
     r_review_feedback r, r_created_at r) \<and>
    (\<forall>j. j \<noteq> i \<longrightarrow> lookupBy r_id j (tasks d') = lookupBy r_id j (tasks d)) \<and>
    subtasks d' = subtasks d \<and> events d' = events d \<and> repositories d' = repositories d"
proof -
  note k = wfDB_task_keys [OF assms(1)]
  note st = transition_status [OF k assms(2)]
  from transition_row [OF k assms(2)] obtain r where r: "lookupBy r_id i (tasks d) = Some r"
    "r_status r = from" "lookupBy r_id i (tasks d') = Some (transitionRow now from to
      (if to = StatusFailed then code else ErrCodeNone) (if to = StatusFailed then msg else [])
      (if to = StatusDone then fin else FinalizationNone) r)"
    and rest: "subtasks d' = subtasks d \<and> events d' = events d \<and> repositories d' = repositories d"
    by blast
  have fin: "finishedOn to \<longleftrightarrow> to \<noteq> StatusQueued \<and> to \<noteq> StatusPlanning \<and> to \<noteq> StatusInProgress"
    using canTransition_valid [OF st(3)] by (cases to) (simp_all add: finishedOn_def)
  show ?thesis
    by (rule exI [of _ r], rule exI, intro conjI, rule r(1), rule r(3))
      (use r(2) rest st(4) in \<open>auto simp: transitionRow_def fin nextRework_def split: option.splits\<close>)
qed

theorem transition_effect_witness:
  "\<exists>d'. transition 5 Live ''t1'' StatusInProgress StatusFailed ErrCodeRuntime ''boom'' FinalizationNone
     sampleDB = Inr d' \<and>
     (\<exists>r. lookupBy r_id ''t1'' (tasks d') = Some r \<and> r_error_message r = ''boom'')"
proof -
  obtain d' where d': "transition 5 Live ''t1'' StatusInProgress StatusFailed ErrCodeRuntime ''boom''
    FinalizationNone sampleDB = Inr d'"
    by (simp add: transition_def sample_defs taskRowOf_def countWhere_def)
  from transition_effect [OF wfDB_sample this] d' show ?thesis by auto
qed

text \<open>C23 (when Transition succeeds). The compare-and-set goes through exactly when the caller's
  context is live, the edge is legal, a failure carries an error code, completion carries a
  valid finalization, and the task is in the status the caller expects; otherwise nothing is
  written. A stale expectation is reported as \<open>ErrStaleUpdate\<close>.\<close>

theorem transition_succeeds_iff:
  assumes "wfDB d"
  shows "isOk (transition now c i from to code msg fin d) \<longleftrightarrow>
    c = Live \<and> canTransition from to \<and> (to = StatusFailed \<longrightarrow> code \<noteq> ErrCodeNone) \<and>
    (to = StatusDone \<longrightarrow> fin \<noteq> FinalizationNone \<and> finalizationValid fin) \<and>
    taskStatus d i = Some from"
proof -
  show ?thesis
    by (cases c) (auto simp: transition_def Let_def guard_count [OF assms])
qed

theorem transition_succeeds_iff_witness:
  "isOk (transition 5 Live ''t2'' StatusQueued StatusCancelled ErrCodeNone [] FinalizationNone sampleDB) \<and>
   \<not> isOk (transition 5 Live ''t1'' StatusQueued StatusCancelled ErrCodeNone [] FinalizationNone sampleDB)"
  unfolding transition_succeeds_iff [OF wfDB_sample] by (simp add: sample_status)

text \<open>One winner. Of two callers that both read a task in status \<open>v\<close> and both try to move it,
  only the first succeeds; the second gets \<open>ErrStaleUpdate\<close> (its context being live and its own
  target legal), whatever operations on other tasks, subtasks and events came in between.\<close>

theorem transition_has_one_winner:
  assumes "wfDB d" "transition now c i v w code msg fin d = Inr d1"
    "\<forall>a\<in>set ops. \<forall>e. taskStatus (dbStep a e) i = taskStatus e i"
    "canTransition v u" "u \<noteq> StatusFailed" "u \<noteq> StatusDone"
  shows "transition now' Live i v u code' msg' fin' (dbRun ops d1) = Inl EStaleUpdate"
proof -
  note k = wfDB_task_keys [OF assms(1)]
  have "taskStatus (fold dbStep ops e) i = taskStatus e i"
    if "\<forall>a\<in>set ops. \<forall>e. taskStatus (dbStep a e) i = taskStatus e i" for ops e
    using that by (induction ops arbitrary: e) auto
  then have "taskStatus (dbRun ops d1) i = Some w"
    using assms(3) transition_status(2) [OF k assms(2)] by (simp add: dbRun_def)
  moreover have "v \<noteq> w" using transition_status(3) [OF k assms(2)] by auto
  moreover have "wfDB (dbRun ops d1)"
    unfolding dbRun_def using transition_wf [OF assms(1,2)] by (rule db_inv.run_inv)
  ultimately have "countWhere (\<lambda>r. r_id r = i \<and> r_status r = v) (tasks (dbRun ops d1)) = 0"
    by (simp add: guard_count)
  with assms(4-6) show ?thesis by (simp add: transition_def Let_def)
qed

theorem transition_has_one_winner_witness:
  "\<exists>d1. transition 5 Live ''t2'' StatusQueued StatusPlanning ErrCodeNone [] FinalizationNone sampleDB = Inr d1
     \<and> transition 6 Live ''t2'' StatusQueued StatusCancelled ErrCodeNone [] FinalizationNone
         (dbRun [OpEventAppend Live (sampleEvent ''e2'')] d1) = Inl EStaleUpdate"
proof -
  obtain d1 where d1: "transition 5 Live ''t2'' StatusQueued StatusPlanning ErrCodeNone []
    FinalizationNone sampleDB = Inr d1"
    by (simp add: transition_def sample_defs taskRowOf_def countWhere_def)
  moreover have "\<forall>a\<in>set [OpEventAppend Live (sampleEvent ''e2'')].
      \<forall>e. taskStatus (dbStep a e) ''t2'' = taskStatus e ''t2''"
    using dbStep_tasks [of "OpEventAppend Live (sampleEvent ''e2'')"] taskStatus_tasks
    by (metis empty_iff empty_set set_ConsD touchesTasks.simps(13))
  ultimately show ?thesis
    using transition_has_one_winner [OF wfDB_sample d1] by fastforce
qed

text \<open>RecoverRunning: the per-id statements together are one update of all running rows.\<close>

lemma updateWhere_updateWhere:
  assumes "\<And>r. p r \<Longrightarrow> \<not> q (f r)"
  shows "updateWhere q f (updateWhere p f rs) = updateWhere (\<lambda>r. p r \<or> q r) f rs"
  using assms by (auto simp: updateWhere_def)

lemma recoverEach_all:
  "distinct is \<Longrightarrow> \<forall>i\<in>set is. \<exists>r\<in>set (tasks d). r_id r = i \<and> r_status r = StatusInProgress \<Longrightarrow>
   recoverEach now is d = Inr (d\<lparr>tasks := updateWhere
     (\<lambda>r. r_id r \<in> set is \<and> r_status r = StatusInProgress) (recoverRow now) (tasks d)\<rparr>)"
proof (induction "is" arbitrary: d)
  case Nil
  then show ?case by (simp add: updateWhere_none)
next
  case (Cons i "is")
  let ?p = "\<lambda>r. r_id r = i \<and> r_status r = StatusInProgress"
  let ?d = "d\<lparr>tasks := updateWhere ?p (recoverRow now) (tasks d)\<rparr>"
  have "countWhere ?p (tasks d) \<noteq> 0" using Cons.prems(2) by (auto simp: countWhere_0)
  then have "recoverEach now (i # is) d = recoverEach now is ?d" by simp
  also have "\<forall>j\<in>set is. \<exists>r\<in>set (tasks ?d). r_id r = j \<and> r_status r = StatusInProgress"
  proof
    fix j assume j: "j \<in> set is"
    then have "j \<noteq> i" using Cons.prems(1) by auto
    from j Cons.prems(2) obtain r
      where r: "r \<in> set (tasks d)" "r_id r = j" "r_status r = StatusInProgress" by fastforce
    with \<open>j \<noteq> i\<close> have "r = (if ?p r then recoverRow now r else r)" by simp
    with r show "\<exists>r\<in>set (tasks ?d). r_id r = j \<and> r_status r = StatusInProgress"
      by (auto simp: set_updateWhere)
  qed
  with Cons have "recoverEach now is ?d = Inr (?d\<lparr>tasks := updateWhere
     (\<lambda>r. r_id r \<in> set is \<and> r_status r = StatusInProgress) (recoverRow now) (tasks ?d)\<rparr>)" by simp
  also have "updateWhere (\<lambda>r. r_id r \<in> set is \<and> r_status r = StatusInProgress) (recoverRow now) (tasks ?d) =
    updateWhere (\<lambda>r. r_id r \<in> set (i # is) \<and> r_status r = StatusInProgress) (recoverRow now) (tasks d)"
  proof -
    have "updateWhere (\<lambda>r. r_id r \<in> set is \<and> r_status r = StatusInProgress) (recoverRow now)
        (updateWhere ?p (recoverRow now) (tasks d)) =
      updateWhere (\<lambda>r. ?p r \<or> r_id r \<in> set is \<and> r_status r = StatusInProgress) (recoverRow now) (tasks d)"
      by (rule updateWhere_updateWhere) simp
    also have "(\<lambda>r. ?p r \<or> r_id r \<in> set is \<and> r_status r = StatusInProgress) =
        (\<lambda>r. r_id r \<in> set (i # is) \<and> r_status r = StatusInProgress)" by auto
    finally show ?thesis by simp
  qed
  finally show ?case by simp
qed

text \<open>Crash recovery. On a live context RecoverRunning always succeeds: every task left in
  progress becomes failed with code interrupted, its finish time now and its other columns
  kept, no other row changes, the ids returned are exactly the tasks recovered, and nothing is
  left for a second run to recover.\<close>

theorem recoverRunning_effect:
  assumes "wfDB d"
  shows "\<exists>d'. recoverRunning now Live d =
      Inr (d', map r_id (filter (\<lambda>r. r_status r = StatusInProgress) (tasks d))) \<and>
    tasks d' = map (\<lambda>r. if r_status r = StatusInProgress then r\<lparr>
        r_status := StatusFailed, r_error_code := ErrCodeInterrupted,
        r_error_message := ''recovered from interrupted session'',
        r_finished_at := Some now, r_updated_at := now\<rparr> else r) (tasks d) \<and>
    subtasks d' = subtasks d \<and> events d' = events d \<and> repositories d' = repositories d \<and>
    recoverRunning now' Live d' = Inr (d', [])"
proof -
  let ?run = "\<lambda>r. r_status r = StatusInProgress"
  let ?ids = "map r_id (filter ?run (tasks d))"
  let ?d' = "d\<lparr>tasks := updateWhere ?run (recoverRow now) (tasks d)\<rparr>"
  have "distinct ?ids" using wfDB_task_keys [OF assms] by (rule distinct_map_filter)
  from recoverEach_all [OF this, of d now]
  have "recoverEach now ?ids d = Inr (d\<lparr>tasks := updateWhere
      (\<lambda>r. r_id r \<in> set ?ids \<and> ?run r) (recoverRow now) (tasks d)\<rparr>)" by auto
  also have "updateWhere (\<lambda>r. r_id r \<in> set ?ids \<and> ?run r) (recoverRow now) (tasks d) =
      updateWhere ?run (recoverRow now) (tasks d)"
    by (auto simp: updateWhere_def)
  finally have r: "recoverRunning now Live d = Inr (?d', ?ids)" by (simp add: recoverRunning_def)
  have t: "tasks ?d' = map (\<lambda>r. if ?run r then r\<lparr>
        r_status := StatusFailed, r_error_code := ErrCodeInterrupted,
        r_error_message := ''recovered from interrupted session'',
        r_finished_at := Some now, r_updated_at := now\<rparr> else r) (tasks d)"
    by (auto simp: updateWhere_def recoverRow_def)
  have "filter ?run (tasks ?d') = []"
    by (auto simp: filter_empty_conv updateWhere_def)
  then have "recoverRunning now' Live ?d' = Inr (?d', [])" by (simp add: recoverRunning_def)
  with r t show ?thesis by (intro exI [of _ ?d']) simp
qed

theorem recoverRunning_effect_witness:
  "\<exists>d'. recoverRunning 9 Live sampleDB = Inr (d', [''t1'']) \<and>
     map r_status (tasks d') = [StatusFailed, StatusQueued]"
proof -
  have ids: "map r_id (filter (\<lambda>r. r_status r = StatusInProgress) (tasks sampleDB)) = [''t1'']"
    by (simp add: sample_defs taskRowOf_def)
  from recoverRunning_effect [OF wfDB_sample, of 9] obtain d' where
    "recoverRunning 9 Live sampleDB = Inr (d', [''t1''])"
    "tasks d' = map (\<lambda>r. if r_status r = StatusInProgress then r\<lparr>
        r_status := StatusFailed, r_error_code := ErrCodeInterrupted,
        r_error_message := ''recovered from interrupted session'',
        r_finished_at := Some 9, r_updated_at := 9\<rparr> else r) (tasks sampleDB)"
    unfolding ids by blast
  then show ?thesis by (intro exI [of _ d']) (simp add: sample_defs taskRowOf_def)
qed

text \<open>Create then Get. A task that is created is read back as it was given, with creation
  and update times stamped, zero times dropped, and the branch flag raised while the task is
  still planning or queued (its branch is about to exist).\<close>

theorem create_then_get:
  assumes "taskCreate now Live t d = Inr d'"
  shows "taskGet Live (tID t) d' = Inr (t\<lparr>
    tCreatedAt := (if tCreatedAt t = 0 then now else tCreatedAt t), tUpdatedAt := now,
    tStartedAt := nullablePtr (tStartedAt t), tFinishedAt := nullablePtr (tFinishedAt t),
    tBranchExists := (tBranchExists t \<or> tStatus t = StatusPlanning \<or> tStatus t = StatusQueued)\<rparr>)"
proof -
  from assms have d': "d' = d\<lparr>tasks := tasks d @ [taskRowOf now t]\<rparr>"
    and "lookupBy r_id (tID t) (tasks d) = None"
    by (auto simp: taskCreate_def hasKey_iff lookupBy_None split: option.splits if_splits)
  then show ?thesis
    by (auto simp: taskGet_def taskRowOf_def scanTask_def scan_nullable taskBranchExistsCol_def)
qed

theorem create_then_get_witness:
  "\<exists>d'. taskCreate 7 Live (sampleTask ''t3'' StatusQueued) sampleDB = Inr d' \<and>
     taskGet Live ''t3'' d' = Inr ((sampleTask ''t3'' StatusQueued)\<lparr>tCreatedAt := 7, tUpdatedAt := 7\<rparr>)"
proof -
  obtain d' where d': "taskCreate 7 Live (sampleTask ''t3'' StatusQueued) sampleDB = Inr d'"
    by (simp add: taskCreate_def taskValidate_def sample_defs taskRowOf_def hasKey_def)
  from create_then_get [OF this] d' show ?thesis by (simp add: sampleTask_def nullablePtr_def)
qed

text \<open>The list query.\<close>

lemma sort_key_int: "sort_key (\<lambda>r. int (f r)) xs = sort_key f xs"
proof -
  have "insort_key (\<lambda>r. int (f r)) x ys = insort_key f x ys" for x ys by (induction ys) auto
  then show ?thesis by (induction xs) auto
qed

lemma take_sort_key_le:
  assumes "x \<in> set (take n (sort_key f xs))" "y \<in> set (drop n (sort_key f xs))"
  shows "f x \<le> f y"
proof -
  have "sorted (map f (take n (sort_key f xs)) @ map f (drop n (sort_key f xs)))"
    by (simp flip: map_append)
  with assms show ?thesis by (auto simp: sorted_append)
qed

text \<open>List. The task list holds only tasks of the repository and statuses asked for, in
  the order of their update times (newest first unless ascending is asked), at most the limit;
  and a matching task that the limit cut off is no more recent than any task listed.\<close>

theorem taskList_spec:
  assumes "taskList Live f d = Inr ts"
  shows "set ts \<subseteq> scanTask ` {r \<in> set (tasks d). taskMatches f r} \<and>
    sorted (map (\<lambda>t. if fAscending f then int (tUpdatedAt t) else - int (tUpdatedAt t)) ts) \<and>
    (fLimit f > 0 \<longrightarrow> int (length ts) \<le> fLimit f) \<and>
    (\<forall>r \<in> set (tasks d). taskMatches f r \<longrightarrow> scanTask r \<notin> set ts \<longrightarrow>
       fLimit f > 0 \<and> (\<forall>t \<in> set ts.
         if fAscending f then tUpdatedAt t \<le> r_updated_at r else r_updated_at r \<le> tUpdatedAt t))"
proof -
  define key where "key = (\<lambda>r :: task_row. if fAscending f then int (r_updated_at r) else - int (r_updated_at r))"
  define rows where "rows = filter (taskMatches f) (tasks d)"
  have so: "(if fAscending f then sort_key r_updated_at rows
      else sort_key (\<lambda>r. - int (r_updated_at r)) rows) = sort_key key rows"
  proof (cases "fAscending f")
    case True
    then show ?thesis by (simp add: key_def sort_key_int)
  next
    case False
    then show ?thesis by (simp add: key_def)
  qed
  define n where "n = (if fLimit f > 0 then nat (fLimit f) else length rows)"
  have ts: "ts = map scanTask (take n (sort_key key rows))"
    using assms unfolding taskList_def Let_def ctxErr.simps option.case rows_def [symmetric] so
    by (auto simp: n_def)
  have a: "set ts \<subseteq> scanTask ` {r \<in> set (tasks d). taskMatches f r}"
    by (auto simp: ts rows_def dest: in_set_takeD)
  have "sorted (map key (take n (sort_key key rows)))"
    by (metis sorted_sort_key sorted_wrt_take take_map)
  moreover have "map (\<lambda>t. if fAscending f then int (tUpdatedAt t) else - int (tUpdatedAt t)) ts =
      map key (take n (sort_key key rows))"
    by (simp add: ts key_def)
  ultimately have b: "sorted (map (\<lambda>t. if fAscending f then int (tUpdatedAt t) else - int (tUpdatedAt t)) ts)"
    by (simp only:)
  have c: "fLimit f > 0 \<longrightarrow> int (length ts) \<le> fLimit f" by (auto simp: ts n_def)
  have e: "fLimit f > 0 \<and> (\<forall>t \<in> set ts.
         if fAscending f then tUpdatedAt t \<le> r_updated_at r else r_updated_at r \<le> tUpdatedAt t)"
    if r: "r \<in> set (tasks d)" "taskMatches f r" "scanTask r \<notin> set ts" for r
  proof -
    have "r \<in> set (take n (sort_key key rows) @ drop n (sort_key key rows))"
      using r by (simp add: rows_def)
    then have "r \<in> set (take n (sort_key key rows)) \<or> r \<in> set (drop n (sort_key key rows))"
      by (simp only: set_append Un_iff)
    with r(3) have dr: "r \<in> set (drop n (sort_key key rows))" by (auto simp: ts)
    then have "fLimit f > 0" by (cases "fLimit f > 0") (simp_all add: n_def)
    moreover have "if fAscending f then tUpdatedAt t \<le> r_updated_at r else r_updated_at r \<le> tUpdatedAt t"
      if "t \<in> set ts" for t
    proof -
      from that obtain q where "t = scanTask q" "q \<in> set (take n (sort_key key rows))"
        by (auto simp: ts)
      with take_sort_key_le [OF _ dr, of q] show ?thesis by (auto simp: key_def split: if_splits)
    qed
    ultimately show ?thesis by blast
  qed
  show ?thesis using a b c e by blast
qed

theorem taskList_spec_witness:
  "\<exists>ts. taskList Live \<lparr>fRepoID = ''r1'', fStatuses = [], fLimit = 1, fAscending = False\<rparr> sampleDB = Inr ts
     \<and> length ts \<le> 1"
proof -
  obtain ts where ts: "taskList Live \<lparr>fRepoID = ''r1'', fStatuses = [], fLimit = 1, fAscending = False\<rparr>
    sampleDB = Inr ts" by (simp add: taskList_def)
  from taskList_spec [OF this] ts show ?thesis by auto
qed

end
