(* ===== verification/Plan_Event_Theorems.thy ===== *)
theory Plan_Event_Theorems
  imports Store_Theorems "HOL-Library.Multiset"
begin

text \<open>
  What the subtask store guarantees about plans, rounds and ordering, and what the event store
  guarantees about the log: numbering, paging and batches.
\<close>

section \<open>Plans and rounds\<close>

definition stampedSubtask :: "time \<Rightarrow> int \<Rightarrow> subtask \<Rightarrow> subtask" where
  "stampedSubtask now rnd s = s\<lparr>sRound := rnd,
     sCreatedAt := (if sCreatedAt s = 0 then now else sCreatedAt s), sUpdatedAt := now\<rparr>"

lemma scan_subtaskRowOf: "scanSubtask (subtaskRowOf now rnd s) = stampedSubtask now rnd s"
  by (simp add: scanSubtask_def subtaskRowOf_def stampedSubtask_def)

lemma maxOr_eqI: "x \<in> set xs \<Longrightarrow> \<forall>y\<in>set xs. y \<le> x \<Longrightarrow> maxOr z xs = x"
  using maxOr_in [of z xs] maxOr_ge [of x xs z] by (auto intro: antisym)

lemma maxRound_after_plan:
  assumes "createPlan now c p ss d = Inr (d', rnd, ss')" "ss \<noteq> []"
  shows "maxRoundOf p d' = rnd"
proof -
  note d = createPlan_InrD [OF assms(1)]
  from assms(2) obtain s where "s \<in> set ss" by (cases ss) auto
  moreover have "q_round q \<le> rnd" if "q \<in> set (subtasks d)" "q_task_id q = p" for q
    using maxRoundOf_ge [OF that] d(1) by simp
  ultimately show ?thesis
    unfolding maxRoundOf_def d(2) using d(6) by (intro maxOr_eqI) (auto simp: image_iff)
qed

lemma sort_key_sorted: "sorted (map f xs) \<Longrightarrow> sort_key f xs = xs"
  by (rule sort_key_id_if_sorted)

text \<open>A plan is a new round. CreatePlan stores a plan under the round after the parent's
  last one. The rows of earlier rounds stay as they were; and when the subtasks are numbered in
  order, ListLatestRound then returns exactly the new plan, in that order, stamped with the
  round and the time.\<close>

theorem createPlan_is_latest_round:
  assumes "createPlan now Live p ss d = Inr (d', rnd, ss')" "ss \<noteq> []"
    "sorted_wrt (<) (map sOrderIdx ss)"
  shows "subtaskMaxRound Live p d = Inr (rnd - 1) \<and>
    subtasks d' = subtasks d @ map (subtaskRowOf now rnd) ss \<and>
    (\<forall>q\<in>set (subtasks d). q_task_id q = p \<longrightarrow> q_round q < rnd) \<and>
    subtaskListLatestRound Live p d' = Inr (map (stampedSubtask now rnd) ss)"
proof -
  note d = createPlan_InrD [OF assms(1)]
  note max = maxRound_after_plan [OF assms(1,2)]
  have old: "\<forall>q\<in>set (subtasks d). q_task_id q = p \<longrightarrow> q_round q < rnd"
    using maxRoundOf_ge [of _ d p] d(1) by fastforce
  have "filter (\<lambda>q. q_task_id q = p \<and> q_round q = rnd) (subtasks d) = []"
    using old by (auto simp: filter_empty_conv)
  moreover have "filter (\<lambda>q. q_task_id q = p \<and> q_round q = rnd) (map (subtaskRowOf now rnd) ss) =
      map (subtaskRowOf now rnd) ss"
    using d(6) by (auto intro: filter_True)
  ultimately have rows: "filter (\<lambda>q. q_task_id q = p \<and> q_round q = rnd) (subtasks d') =
      map (subtaskRowOf now rnd) ss" by (simp add: d(2))
  have "sorted (map (\<lambda>q. (q_order_idx q, q_created_at q)) (map (subtaskRowOf now rnd) ss))"
    using assms(3) unfolding sorted_map sorted_wrt_map
    by (rule sorted_wrt_mono_rel [rotated]) (simp add: less_eq_prod_def)
  from sort_key_sorted [OF this] have
    "subtaskListLatestRound Live p d' = Inr (map (stampedSubtask now rnd) ss)"
    by (simp add: subtaskListLatestRound_def max rows scan_subtaskRowOf comp_def)
  with d old show ?thesis by (simp add: subtaskMaxRound_def)
qed

theorem createPlan_is_latest_round_witness:
  "\<exists>d' ss'. createPlan 5 Live ''t1'' [sampleSubtask ''a'' [] 0, sampleSubtask ''b'' [''a''] 1] sampleDB
      = Inr (d', 2, ss') \<and>
    subtaskListLatestRound Live ''t1'' d' =
      Inr (map (stampedSubtask 5 2) [sampleSubtask ''a'' [] 0, sampleSubtask ''b'' [''a''] 1])"
proof -
  obtain d' ss' where d': "createPlan 5 Live ''t1'' [sampleSubtask ''a'' [] 0, sampleSubtask ''b'' [''a''] 1]
    sampleDB = Inr (d', 2, ss')"
    by (simp add: createPlan_def maxRoundOf_def sample_defs subtaskRowOf_def taskRowOf_def
        insertSubtask_def hasKey_def subtaskValidate_def)
  from createPlan_is_latest_round [OF this] d' show ?thesis by (auto simp: sampleSubtask_def)
qed

section \<open>Reordering\<close>

fun posOf :: "'a \<Rightarrow> 'a list \<Rightarrow> nat" where
  "posOf x [] = 0"
| "posOf x (y # ys) = (if x = y then 0 else Suc (posOf x ys))"

lemma posOf_nth: "distinct xs \<Longrightarrow> k < length xs \<Longrightarrow> posOf (xs ! k) xs = k"
  by (induction xs arbitrary: k) (auto simp: nth_Cons split: nat.splits)

lemma map_posOf: "distinct xs \<Longrightarrow> map (\<lambda>x. posOf x xs) xs = [0..<length xs]"
  by (rule nth_equalityI) (simp_all add: posOf_nth)

lemma inj_posOf: "inj_on (\<lambda>x. posOf x xs) (set xs)"
proof -
  have "x \<in> set xs \<Longrightarrow> xs ! posOf x xs = x" for x by (induction xs) auto
  then show ?thesis by (metis inj_on_inverseI)
qed

text \<open>The permutation of a list that sorts it by position in \<open>is\<close> is \<open>is\<close>.\<close>

lemma sort_by_posOf:
  assumes "distinct is" "distinct (map f xs)" "f ` set xs = set is"
    "sorted (map (\<lambda>x. posOf (f x) is) xs)"
  shows "map f xs = is"
proof -
  let ?p = "\<lambda>x. posOf x is"
  have p: "map ?p (map f xs) = [0..<length is]"
  proof (rule sorted_distinct_set_unique)
    show "sorted (map ?p (map f xs))" using assms(4) by (simp add: comp_def)
    show "distinct (map ?p (map f xs))"
      using assms(2,3) inj_posOf [of "is"] by (simp only: distinct_map set_map simp_thms)
    have "set (map ?p (map f xs)) = ?p ` f ` set xs" by (simp only: set_map)
    also have "\<dots> = ?p ` set is" by (simp only: assms(3))
    also have "\<dots> = set [0..<length is]" by (metis list.set_map map_posOf [OF assms(1)])
    finally show "set (map ?p (map f xs)) = set [0..<length is]" .
  qed simp_all
  also have "\<dots> = map ?p is" using map_posOf [OF assms(1)] by simp
  finally show ?thesis
    by (rule map_inj_on) (use assms(3) inj_posOf [of "is"] in \<open>simp add: image_Un\<close>)
qed

definition reorderRow :: "time \<Rightarrow> int \<Rightarrow> string list \<Rightarrow> subtask_row \<Rightarrow> subtask_row" where
  "reorderRow now k is q =
     (if q_id q \<in> set is then q\<lparr>q_order_idx := k + int (posOf (q_id q) is), q_updated_at := now\<rparr> else q)"

lemma reorderRow_sel [simp]:
  "q_id (reorderRow now k is q) = q_id q" "q_task_id (reorderRow now k is q) = q_task_id q"
  "q_round (reorderRow now k is q) = q_round q"
  by (simp_all add: reorderRow_def)

lemma bex_updateWhere:
  "(\<And>q. P (f q) = P q) \<Longrightarrow> (\<exists>q\<in>set (updateWhere w f rs). P q) = (\<exists>q\<in>set rs. P q)"
  by (auto simp: set_updateWhere)

lemma reorderEach_all:
  "distinct is \<Longrightarrow> distinct (map q_id (subtasks d)) \<Longrightarrow>
   \<forall>i\<in>set is. \<exists>q\<in>set (subtasks d). q_id q = i \<and> q_task_id q = p \<Longrightarrow>
   reorderEach now p k is d = Inr (d\<lparr>subtasks := map (reorderRow now k is) (subtasks d)\<rparr>)"
proof (induction "is" arbitrary: k d)
  case Nil
  then show ?case by (simp add: reorderRow_def)
next
  case (Cons i "is")
  let ?p = "\<lambda>q. q_id q = i \<and> q_task_id q = p"
  let ?f = "\<lambda>q. q\<lparr>q_order_idx := k, q_updated_at := now\<rparr>"
  let ?d = "d\<lparr>subtasks := updateWhere ?p ?f (subtasks d)\<rparr>"
  have ids: "map q_id (subtasks ?d) = map q_id (subtasks d)"
    by (simp add: keys_updateWhere)
  have "countWhere ?p (subtasks d) \<noteq> 0" using Cons.prems(3) by (auto simp: countWhere_0)
  then have "reorderEach now p k (i # is) d = reorderEach now p (k + 1) is ?d" by simp
  also have "\<dots> = Inr (?d\<lparr>subtasks := map (reorderRow now (k + 1) is) (subtasks ?d)\<rparr>)"
  proof (rule Cons.IH)
    show "distinct is" using Cons.prems(1) by simp
    show "distinct (map q_id (subtasks ?d))" unfolding ids by (rule Cons.prems(2))
    show "\<forall>j\<in>set is. \<exists>q\<in>set (subtasks ?d). q_id q = j \<and> q_task_id q = p"
      using Cons.prems(3) by (simp add: bex_updateWhere)
  qed
  also have "map (reorderRow now (k + 1) is) (subtasks ?d) = map (reorderRow now k (i # is)) (subtasks d)"
  proof -
    have "reorderRow now (k + 1) is (if ?p q then ?f q else q) = reorderRow now k (i # is) q"
      if q: "q \<in> set (subtasks d)" for q
    proof -
      have "q_task_id q = p" if "q_id q = i"
      proof -
        from Cons.prems(3) obtain q' where "q' \<in> set (subtasks d)" "q_id q' = i" "q_task_id q' = p"
          by auto
        then show ?thesis using Cons.prems(2) q that by (metis distinct_map inj_onD)
      qed
      then show ?thesis using Cons.prems(1) by (auto simp: reorderRow_def)
    qed
    then show ?thesis by (simp add: updateWhere_def)
  qed
  finally show ?case by simp
qed

lemma reorderEach_missing:
  "i \<in> set is \<Longrightarrow> \<not> (\<exists>q\<in>set (subtasks d). q_id q = i \<and> q_task_id q = p) \<Longrightarrow>
   \<exists>j. reorderEach now p k is d = Inl (ENotUnderParent j p)"
proof (induction "is" arbitrary: k d)
  case (Cons j "is")
  show ?case
  proof (cases "j = i")
    case True
    with Cons.prems(2) have "countWhere (\<lambda>q. q_id q = j \<and> q_task_id q = p) (subtasks d) = 0"
      by (auto simp: countWhere_0)
    then show ?thesis by simp
  next
    case False
    let ?d = "d\<lparr>subtasks := updateWhere (\<lambda>q. q_id q = j \<and> q_task_id q = p)
      (\<lambda>q. q\<lparr>q_order_idx := k, q_updated_at := now\<rparr>) (subtasks d)\<rparr>"
    have "\<not> (\<exists>q\<in>set (subtasks ?d). q_id q = i \<and> q_task_id q = p)"
      using Cons.prems(2) by (simp add: bex_updateWhere)
    with False Cons.prems(1) Cons.IH [of ?d "k + 1"] show ?thesis by (simp add: Let_def)
  qed
qed simp

text \<open>Reorder. Reordering by a list of distinct ids either gives every subtask listed its
  position in the list as its index, changing nothing else, or, when some id is not a subtask
  of the parent, reports that and changes nothing. When the list names the parent's latest
  round, ListLatestRound then returns the round in the order of the list.\<close>

theorem reorder_spec:
  assumes "wfDB d" "p \<noteq> []" "distinct is"
  shows "if \<forall>i\<in>set is. \<exists>q\<in>set (subtasks d). q_id q = i \<and> q_task_id q = p
    then \<exists>d'. subtaskReorder now Live p is d = Inr d' \<and>
      d' = d\<lparr>subtasks := map (\<lambda>q. if q_id q \<in> set is
        then q\<lparr>q_order_idx := int (posOf (q_id q) is), q_updated_at := now\<rparr> else q) (subtasks d)\<rparr> \<and>
      (set is = q_id ` {q \<in> set (subtasks d). q_task_id q = p \<and> q_round q = maxRoundOf p d} \<longrightarrow>
        (\<exists>ss. subtaskListLatestRound Live p d' = Inr ss \<and> map sID ss = is))
    else \<exists>j. subtaskReorder now Live p is d = Inl (ENotUnderParent j p)"
proof (cases "\<forall>i\<in>set is. \<exists>q\<in>set (subtasks d). q_id q = i \<and> q_task_id q = p")
  case False
  then obtain i where "i \<in> set is" "\<not> (\<exists>q\<in>set (subtasks d). q_id q = i \<and> q_task_id q = p)" by blast
  from reorderEach_missing [OF this] assms(2) False show ?thesis by (auto simp: subtaskReorder_def)
next
  case True
  let ?row = "reorderRow now 0 is"
  define d' where "d' = d\<lparr>subtasks := map ?row (subtasks d)\<rparr>"
  note k = wfDB_subtask_keys [OF assms(1)]
  have "subtaskReorder now Live p is d = Inr d'"
    using reorderEach_all [OF assms(3) k True] assms(2) by (simp add: subtaskReorder_def d'_def)
  moreover have "?row = (\<lambda>q. if q_id q \<in> set is
        then q\<lparr>q_order_idx := int (posOf (q_id q) is), q_updated_at := now\<rparr> else q)"
    by (auto simp: reorderRow_def)
  then have "d' = d\<lparr>subtasks := map (\<lambda>q. if q_id q \<in> set is
        then q\<lparr>q_order_idx := int (posOf (q_id q) is), q_updated_at := now\<rparr> else q) (subtasks d)\<rparr>"
    by (simp add: d'_def)
  moreover have "\<exists>ss. subtaskListLatestRound Live p d' = Inr ss \<and> map sID ss = is"
    if latest: "set is = q_id ` {q \<in> set (subtasks d). q_task_id q = p \<and> q_round q = maxRoundOf p d}"
  proof -
    let ?in = "\<lambda>q. q_task_id q = p \<and> q_round q = maxRoundOf p d"
    let ?key = "\<lambda>q. (q_order_idx q, q_created_at q)"
    define rows where "rows = sort_key ?key (map ?row (filter ?in (subtasks d)))"
    have fm: "filter P (map ?row xs) = map ?row (filter P xs)"
      if "\<And>q. P (?row q) = P q" for P xs using that by (induction xs) auto
    have max: "maxRoundOf p d' = maxRoundOf p d"
      by (simp add: maxRoundOf_def d'_def fm comp_def)
    have "subtaskListLatestRound Live p d' = Inr (map scanSubtask rows)"
      by (simp add: subtaskListLatestRound_def max rows_def) (simp add: d'_def fm)
    moreover have "map q_id rows = is"
    proof (rule sort_by_posOf)
      have "mset (map q_id rows) = mset (map q_id (filter ?in (subtasks d)))"
        by (simp add: rows_def multiset.map_comp comp_def)
      then show "distinct (map q_id rows)"
        using distinct_map_filter [OF k, of ?in] by (metis mset_eq_imp_distinct_iff)
      have setrows: "set rows = ?row ` set (filter ?in (subtasks d))" by (simp add: rows_def)
      then show "q_id ` set rows = set is" unfolding latest by (auto simp: image_iff)
      have ord: "q_order_idx q = int (posOf (q_id q) is)" if "q \<in> set rows" for q
        using that latest unfolding setrows by (auto simp: reorderRow_def)
      have "sorted (map ?key rows)" unfolding rows_def by (rule sorted_sort_key)
      then show "sorted (map (\<lambda>q. posOf (q_id q) is) rows)"
        unfolding sorted_map
        by (rule sorted_wrt_mono_rel [rotated]) (auto simp: less_eq_prod_def ord)
    qed (rule assms(3))
    ultimately show ?thesis by (simp add: comp_def)
  qed
  ultimately show ?thesis using True by (simp del: map_eq_conv)
qed

definition twoSubtasksDB :: db where
  "twoSubtasksDB = sampleDB\<lparr>subtasks :=
     [subtaskRowOf 1 1 (sampleSubtask ''s1'' [] 0), subtaskRowOf 1 1 (sampleSubtask ''s2'' [] 1)]\<rparr>"

lemma wfDB_twoSubtasks: "wfDB twoSubtasksDB"
  by (simp add: twoSubtasksDB_def sample_defs wfDB_def keysOk_def refsOk_def rowsOk_def taskRowOk_iff
      subtaskRowOk_iff eventRowOk_def eventValidate_None taskRowOf_def subtaskRowOf_def)

theorem reorder_spec_witness:
  "\<exists>d' ss. subtaskReorder 9 Live ''t1'' [''s2'', ''s1''] twoSubtasksDB = Inr d' \<and>
     subtaskListLatestRound Live ''t1'' d' = Inr ss \<and> map sID ss = [''s2'', ''s1'']"
proof -
  have latest: "set [''s2'', ''s1''] = q_id ` {q \<in> set (subtasks twoSubtasksDB). q_task_id q = ''t1'' \<and>
      q_round q = maxRoundOf ''t1'' twoSubtasksDB}"
    unfolding set_filter [symmetric] set_map [symmetric]
    by (auto simp: twoSubtasksDB_def sampleSubtask_def maxRoundOf_def subtaskRowOf_def)
  then have all: "\<forall>i\<in>set [''s2'', ''s1'']. \<exists>q\<in>set (subtasks twoSubtasksDB). q_id q = i \<and> q_task_id q = ''t1''"
    by auto
  have "''t1'' \<noteq> []" "distinct [''s2'', ''s1'']" by simp_all
  note r = reorder_spec [OF wfDB_twoSubtasks this, of 9, unfolded if_P [OF all]]
  from r obtain d' where d': "subtaskReorder 9 Live ''t1'' [''s2'', ''s1''] twoSubtasksDB = Inr d'"
    and "\<exists>ss. subtaskListLatestRound Live ''t1'' d' = Inr ss \<and> map sID ss = [''s2'', ''s1'']"
    using latest by (elim exE conjE) (rule that, assumption, erule mp, assumption)
  then show ?thesis by (intro exI [of _ d']) simp
qed

section \<open>The event log\<close>

text \<open>Listing is a filter of the whole log in sequence order.\<close>

definition taskLog :: "string \<Rightarrow> db \<Rightarrow> agent_event list" where
  "taskLog t d = sort_key eSeq (filter (\<lambda>e. eTaskID e = t) (events d))"

lemma set_taskLog: "set (taskLog t d) = {e \<in> set (events d). eTaskID e = t}"
  by (simp add: taskLog_def)

lemma taskLog_strict:
  assumes "wfDB d"
  shows "sorted_wrt (<) (map eSeq (taskLog t d))"
proof -
  let ?ev = "filter (\<lambda>e. eTaskID e = t) (events d)"
  have "distinct (map (\<lambda>e. (eTaskID e, eSeq e)) ?ev)"
    using wfDB_event_keys [OF assms] by (rule distinct_map_filter)
  then have "distinct (map eSeq ?ev)"
    by (auto simp: distinct_map inj_on_def)
  moreover have "mset (map eSeq (taskLog t d)) = mset (map eSeq ?ev)" by (simp add: taskLog_def)
  ultimately have "distinct (map eSeq (taskLog t d))" by (metis mset_eq_imp_distinct_iff)
  then show ?thesis by (simp add: strict_sorted_iff taskLog_def)
qed

lemma listByTask_log:
  "eventListByTask Live t s n d =
     Inr (let l = filter (\<lambda>e. eSeq e > s) (taskLog t d) in if n > 0 then take (nat n) l else l)"
proof -
  have "sort_key eSeq (filter (\<lambda>e. eTaskID e = t \<and> eSeq e > s) (events d)) =
      filter (\<lambda>e. eSeq e > s) (taskLog t d)"
    by (simp add: taskLog_def filter_sort conj_commute)
  then show ?thesis by (simp add: eventListByTask_def Let_def)
qed

lemma filter_after_last:
  assumes "sorted_wrt (<) (map f l)" "take n l \<noteq> []"
  shows "filter (\<lambda>x. f (last (take n l)) < (f x::'a::linorder)) l = drop n l"
proof -
  have s: "sorted_wrt (<) (map f (take n l) @ map f (drop n l))"
    using assms(1) by (simp flip: map_append)
  let ?z = "last (take n l)"
  have z: "take n l = butlast (take n l) @ [?z]" using assms(2) by simp
  have "sorted_wrt (<) (map f (butlast (take n l)) @ [f ?z])"
    using s z by (metis list.simps(8,9) map_append sorted_wrt_append)
  then have lt: "\<forall>x\<in>set (butlast (take n l)). f x < f ?z" by (simp add: sorted_wrt_append)
  have "f x \<le> f ?z" if "x \<in> set (take n l)" for x
  proof -
    have "x \<in> set (butlast (take n l) @ [?z])" using that z by (simp only:)
    then have "x \<in> set (butlast (take n l)) \<or> x = ?z" by (simp only: set_append set_simps) blast
    with lt show ?thesis by auto
  qed
  then have "filter (\<lambda>x. f ?z < f x) (take n l) = []" by (auto simp: filter_empty_conv not_less)
  moreover have "f ?z < f x" if "x \<in> set (drop n l)" for x
    using s that assms(2) by (auto simp: sorted_wrt_append)
  then have "filter (\<lambda>x. f ?z < f x) (drop n l) = drop n l" by (auto intro: filter_True)
  ultimately show ?thesis by (metis append_Nil append_take_drop_id filter_append)
qed

text \<open>Paging through the log. ListByTask returns the task's events after \<open>since\<close> in strictly
  increasing sequence order; and reading a page and then everything after the page's last event
  returns exactly what one unlimited read returns: a client that resumes from the last sequence
  number it saw neither misses nor repeats an event.\<close>

theorem paging_is_lossless:
  assumes "wfDB d" "eventListByTask Live t since limit d = Inr page" "page \<noteq> []"
  shows "sorted_wrt (<) (map eSeq page) \<and>
    (\<exists>rest whole. eventListByTask Live t (eSeq (last page)) 0 d = Inr rest \<and>
       eventListByTask Live t since 0 d = Inr whole \<and> whole = page @ rest \<and>
       set whole = {e \<in> set (events d). eTaskID e = t \<and> since < eSeq e})"
proof -
  define l where "l = filter (\<lambda>e. eSeq e > since) (taskLog t d)"
  define n where "n = (if limit > 0 then nat limit else length l)"
  have page: "page = take n l"
    using assms(2) by (auto simp: listByTask_log l_def [symmetric] n_def Let_def)
  have s: "sorted_wrt (<) (map eSeq l)"
    using taskLog_strict [OF assms(1), of t] unfolding l_def sorted_wrt_map by (rule sorted_wrt_filter)
  have sp: "sorted_wrt (<) (map eSeq page)"
    using s unfolding page by (metis sorted_wrt_take take_map)
  have "last page \<in> set l" using assms(3) page by (metis in_set_takeD last_in_set)
  then have gt: "since < eSeq (last page)" by (simp add: l_def)
  have "filter (\<lambda>e. eSeq e > eSeq (last page)) (taskLog t d) =
      filter (\<lambda>e. eSeq (last page) < eSeq e) l"
    using gt by (auto simp: l_def intro!: filter_cong)
  also have "\<dots> = drop n l"
    using filter_after_last [OF s, of n] assms(3) by (simp add: page)
  finally have "eventListByTask Live t (eSeq (last page)) 0 d = Inr (drop n l)"
    by (simp add: listByTask_log)
  moreover have "eventListByTask Live t since 0 d = Inr l" by (simp add: listByTask_log l_def)
  moreover have "set l = {e \<in> set (events d). eTaskID e = t \<and> since < eSeq e}"
    by (auto simp: l_def set_taskLog)
  ultimately show ?thesis using sp by (simp add: page)
qed

definition logDB :: db where
  "logDB = sampleDB\<lparr>events := [(sampleEvent ''e1'')\<lparr>eSeq := 1\<rparr>, (sampleEvent ''e2'')\<lparr>eSeq := 2\<rparr>]\<rparr>"

lemma wfDB_log: "wfDB logDB"
  by (simp add: logDB_def sample_defs wfDB_def keysOk_def refsOk_def rowsOk_def taskRowOk_iff
      subtaskRowOk_iff eventRowOk_def eventValidate_None taskRowOf_def subtaskRowOf_def)

theorem paging_is_lossless_witness:
  "\<exists>rest whole. eventListByTask Live ''t1'' 1 0 logDB = Inr rest \<and>
     eventListByTask Live ''t1'' 0 0 logDB = Inr whole \<and>
     whole = [(sampleEvent ''e1'')\<lparr>eSeq := 1\<rparr>] @ rest"
proof -
  have "eventListByTask Live ''t1'' 0 1 logDB = Inr [(sampleEvent ''e1'')\<lparr>eSeq := 1\<rparr>]"
    by (simp add: eventListByTask_def logDB_def sampleEvent_def)
  from paging_is_lossless [OF wfDB_log this] show ?thesis by auto
qed

lemma sort_key_snoc:
  assumes "\<forall>x\<in>set xs. f x \<le> f y"
  shows "sort_key f (xs @ [y]) = sort_key f xs @ [y]"
proof -
  have "f x \<le> f y \<Longrightarrow> insort_key f x (zs @ [y]) = insort_key f x zs @ [y]" for x zs
    by (induction zs) auto
  with assms show ?thesis by (induction xs) auto
qed

lemma nextSeqOf_dense:
  assumes "map eSeq (taskLog t d) = map int [1..<n + 1]"
  shows "nextSeqOf t d = int n + 1"
proof -
  have "set (taskSeqs t d) = set (map eSeq (taskLog t d))" by (simp add: taskSeqs_def taskLog_def)
  then have seqs: "set (taskSeqs t d) = int ` {1..n}"
    unfolding assms by (simp add: atLeastLessThanSuc_atLeastAtMost del: upt_Suc)
  show ?thesis
  proof (cases "taskSeqs t d")
    case Nil
    with seqs have "n = 0" by (cases n) auto
    with Nil show ?thesis by (simp add: nextSeqOf_def)
  next
    case (Cons x xs)
    then have "fold max xs x = Max (int ` {1..n})" unfolding fold_max using seqs by simp
    also have "\<dots> = int n"
    proof (rule Max_eqI)
      have "n \<noteq> 0" using seqs Cons by auto
      then show "int n \<in> int ` {1..n}" by auto
    qed auto
    finally show ?thesis using Cons by (simp add: nextSeqOf_def)
  qed
qed

text \<open>Automatic numbering. AppendAutoSeq puts the event at the end of its task's log: its
  sequence number is above every number the task has, 1 on an empty log and one more than the
  last otherwise, so a log numbered 1 to n stays without gaps; a reader that has seen any part
  of the log finds it as the last event; and no other event changes.\<close>

theorem autoSeq_appends:
  assumes "wfDB d" "appendAutoSeq now c e d = Inr (d', e')"
  shows "events d' = events d @ [e'] \<and> eID e' = eID e \<and> eTaskID e' = eTaskID e \<and>
    eKind e' = eKind e \<and> ePayload e' = ePayload e \<and>
    (\<forall>x\<in>set (events d). eTaskID x = eTaskID e \<longrightarrow> eSeq x < eSeq e') \<and>
    (\<forall>n. map eSeq (taskLog (eTaskID e) d) = map int [1..<n + 1] \<longrightarrow>
         map eSeq (taskLog (eTaskID e) d') = map int [1..<n + 2]) \<and>
    (\<forall>since < eSeq e'. \<forall>seen. eventListByTask Live (eTaskID e) since 0 d = Inr seen \<longrightarrow>
         eventListByTask Live (eTaskID e) since 0 d' = Inr (seen @ [e']))"
proof -
  note a = appendAutoSeq_InrD [OF assms(2)]
  have ev: "events d' = events d @ [e']" using insertEvent_InrD [OF a(3)] by simp
  have f: "eID e' = eID e" "eTaskID e' = eTaskID e" "eKind e' = eKind e" "ePayload e' = ePayload e"
    by (simp_all add: a(1) stampEvent_def)
  have s: "eSeq e' = nextSeqOf (eTaskID e) d" by (simp add: a(1) stampEvent_def)
  have gt: "\<forall>x\<in>set (events d). eTaskID x = eTaskID e \<longrightarrow> eSeq x < eSeq e'"
    unfolding s using nextSeqOf_gt by blast
  have log: "taskLog (eTaskID e) d' = taskLog (eTaskID e) d @ [e']"
    using gt by (simp add: taskLog_def ev f sort_key_snoc less_imp_le)
  have dense: "map eSeq (taskLog (eTaskID e) d') = map int [1..<n + 2]"
    if n: "map eSeq (taskLog (eTaskID e) d) = map int [1..<n + 1]" for n
    using n by (simp add: log s nextSeqOf_dense [OF n])
  have "\<forall>since < eSeq e'. \<forall>seen. eventListByTask Live (eTaskID e) since 0 d = Inr seen \<longrightarrow>
         eventListByTask Live (eTaskID e) since 0 d' = Inr (seen @ [e'])"
    by (auto simp: listByTask_log log)
  with ev f gt dense show ?thesis by blast
qed

theorem autoSeq_appends_witness:
  "\<exists>d' e'. appendAutoSeq 9 Live (sampleEvent ''e3'') logDB = Inr (d', e') \<and>
     eventListByTask Live ''t1'' 2 0 d' = Inr [e']"
proof -
  obtain d' e' where d': "appendAutoSeq 9 Live (sampleEvent ''e3'') logDB = Inr (d', e')"
    and s: "eSeq e' = 3"
    by (simp add: appendAutoSeq_def logDB_def sample_defs stampEvent_def nextSeqOf_def taskSeqs_def
        insertEvent_def hasKey_def eventValidate_def taskRowOf_def Let_def)
  have "eventListByTask Live (eTaskID (sampleEvent ''e3'')) 2 0 logDB = Inr []"
    by (simp add: eventListByTask_def logDB_def sampleEvent_def)
  with autoSeq_appends [OF wfDB_log d'] d' s show ?thesis by (force simp: sampleEvent_def)
qed

text \<open>The batch insert, one row at a time.\<close>

lemma insertEvent_iff:
  "insertEvent e d = Inr d' \<longleftrightarrow>
     (eTaskID e, eSeq e) \<notin> (\<lambda>x. (eTaskID x, eSeq x)) ` set (events d) \<and>
     eID e \<notin> eID ` set (events d) \<and> eTaskID e \<in> r_id ` set (tasks d) \<and>
     d' = d\<lparr>events := events d @ [e]\<rparr>"
  by (auto simp: insertEvent_def hasKey_iff)

lemma appendChunk_iff:
  "distinct (map eID (events d)) \<Longrightarrow> distinct (map (\<lambda>e. (eTaskID e, eSeq e)) (events d)) \<Longrightarrow>
   appendChunk es d = Inr d' \<longleftrightarrow>
     distinct (map eID (events d @ es)) \<and>
     distinct (map (\<lambda>e. (eTaskID e, eSeq e)) (events d @ es)) \<and>
     eTaskID ` set es \<subseteq> r_id ` set (tasks d) \<and> d' = d\<lparr>events := events d @ es\<rparr>"
proof (induction es arbitrary: d)
  case Nil
  then show ?case by auto
next
  case (Cons e es)
  let ?d = "d\<lparr>events := events d @ [e]\<rparr>"
  show ?case
  proof (cases "insertEvent e d")
    case (Inl x)
    then have "\<not> (insertEvent e d = Inr ?d)" by simp
    then show ?thesis using Inl Cons.prems unfolding insertEvent_iff by auto
  next
    case (Inr d1)
    then have i: "insertEvent e d = Inr d1" .
    then have d1: "d1 = ?d" unfolding insertEvent_iff by blast
    from i have fresh: "(eTaskID e, eSeq e) \<notin> (\<lambda>x. (eTaskID x, eSeq x)) ` set (events d)"
      "eID e \<notin> eID ` set (events d)" "eTaskID e \<in> r_id ` set (tasks d)"
      unfolding insertEvent_iff by blast+
    have "appendChunk (e # es) d = appendChunk es ?d" using i d1 by simp
    with Cons.IH [of ?d] Cons.prems fresh show ?thesis by simp
  qed
qed

text \<open>Batches are atomic. AppendBatch adds the whole batch at the end of the log, in order,
  exactly when every event is valid, names an existing task, and repeats neither an id nor a
  (task, sequence number) pair of the log or of the batch; otherwise it adds nothing. The limit
  on rows per statement does not show in the result.\<close>

theorem appendBatch_all_or_nothing:
  assumes "wfDB d"
  shows "appendBatch Live es d = Inr d' \<longleftrightarrow>
    (\<forall>e\<in>set es. eventValidate e = None \<and> eTaskID e \<in> r_id ` set (tasks d)) \<and>
    distinct (map eID (events d @ es)) \<and>
    distinct (map (\<lambda>e. (eTaskID e, eSeq e)) (events d @ es)) \<and>
    d' = d\<lparr>events := events d @ es\<rparr>"
proof -
  have k: "distinct (map eID (events d))" "distinct (map (\<lambda>e. (eTaskID e, eSeq e)) (events d))"
    using assms by (simp_all add: wfDB_def keysOk_def)
  show ?thesis
  proof (cases "es = []")
    case True
    with k show ?thesis by (auto simp: appendBatch_def)
  next
    case False
    show ?thesis
    proof (cases "validateAll es")
      case None
      with False have "appendBatch Live es d = appendChunk es d"
        by (simp add: appendBatch_def appendChunks_eq)
      moreover from None have "\<forall>e\<in>set es. eventValidate e = None" by (simp add: validateAll_None)
      ultimately show ?thesis by (simp add: appendChunk_iff [OF k] image_subset_iff) blast
    next
      case (Some x)
      then have "\<not> (\<forall>e\<in>set es. eventValidate e = None)" by (metis option.distinct(1) validateAll_None)
      with False Some show ?thesis by (auto simp: appendBatch_def)
    qed
  qed
qed

theorem appendBatch_all_or_nothing_witness:
  "\<exists>d'. appendBatch Live [(sampleEvent ''e8'')\<lparr>eSeq := 8\<rparr>, (sampleEvent ''e9'')\<lparr>eSeq := 9\<rparr>] logDB = Inr d'"
  unfolding appendBatch_all_or_nothing [OF wfDB_log]
  by (simp add: logDB_def sample_defs eventValidate_None taskRowOf_def)

end
