(* ===== verification/World.thy ===== *)
theory World
  imports Store_Ops "HOL-Library.State_Monad"
begin

text \<open>
  The state a goroutine of the sidecar works on, and the calls it makes. A handler is a program
  of the state monad over \<open>world\<close>; every call it makes to a store, the clock or the ULID
  factory is one step, numbered by \<open>w_step\<close>. The environment gives, per step, the clock
  reading, the next ULID, whether each context is still live, what other goroutines wrote to
  the database since the last step (any list of store operations) and which tasks the user
  cancelled: a theorem about a handler holds under every interleaving with them.

  \<open>effects Q m\<close> bounds what a program may write: everything it does to the database is a
  sequence of store operations that satisfy \<open>Q\<close> or come from other goroutines. What the stores
  guarantee for any sequence of operations then holds of the program.
\<close>

named_theorems effects_intros "what programs write"

section \<open>Worlds\<close>

text \<open>The contexts a call can run under: the orchestrator's root, the task's (cancelled by Cancel and Shutdown), the AI
  review's, a fresh background one, and that of an RPC.\<close>

datatype ctx_name = RootCtx | TaskCtx | ReviewCtx | Background | CallCtx

record env =
  e_clock :: "nat \<Rightarrow> time"
  e_ulid :: "nat \<Rightarrow> string"
  e_ctx :: "ctx_name \<Rightarrow> nat \<Rightarrow> ctx"
  e_others :: "nat \<Rightarrow> db_op list"
  e_cancel :: "nat \<Rightarrow> string list"
  e_sink :: bool
  e_runstate :: bool
  e_notifier :: bool

record world =
  w_env :: env
  w_step :: nat
  w_db :: db
  w_sink :: "agent_event list"
  w_history :: "(string \<times> int \<times> event_kind) list"
  w_artifacts :: "(string \<times> string \<times> string) list"
  w_notified :: "(string \<times> string \<times> status \<times> string) list"
  w_running :: "(string \<times> bool) list"
  w_aiReviews :: "string list"

section \<open>Steps\<close>

text \<open>\<open>Orchestrator.Cancel\<close> on a running task marks it as aborted by the user.\<close>

definition markAborted :: "string list \<Rightarrow> (string \<times> bool) list \<Rightarrow> (string \<times> bool) list" where
  "markAborted is rs = map (\<lambda>(i, a). (i, a \<or> i \<in> set is)) rs"

definition stepped :: "'z world_scheme \<Rightarrow> 'z world_scheme" where
  "stepped w = w\<lparr>w_step := Suc (w_step w), w_db := dbRun (e_others (w_env w) (w_step w)) (w_db w),
     w_running := markAborted (e_cancel (w_env w) (w_step w)) (w_running w)\<rparr>"

definition storeWrite ::
  "ctx_name \<Rightarrow> (time \<Rightarrow> ctx \<Rightarrow> db \<Rightarrow> store_error + db \<times> 'a) \<Rightarrow>
     ('z world_scheme, store_error + 'a) state" where
  "storeWrite c f = State (\<lambda>w.
     case f (e_clock (w_env w) (w_step w)) (e_ctx (w_env w) c (w_step w)) (w_db (stepped w)) of
       Inl e \<Rightarrow> (Inl e, stepped w)
     | Inr (d, a) \<Rightarrow> (Inr a, (stepped w)\<lparr>w_db := d\<rparr>))"

definition storeRead ::
  "ctx_name \<Rightarrow> (ctx \<Rightarrow> db \<Rightarrow> store_error + 'a) \<Rightarrow> ('z world_scheme, store_error + 'a) state" where
  "storeRead c q = State (\<lambda>w. (q (e_ctx (w_env w) c (w_step w)) (w_db (stepped w)), stepped w))"

definition newULID :: "('z world_scheme, string) state" where
  "newULID = State (\<lambda>w. (e_ulid (w_env w) (w_step w), stepped w))"

definition readClock :: "('z world_scheme, time) state" where
  "readClock = State (\<lambda>w. (e_clock (w_env w) (w_step w), stepped w))"

text \<open>\<open>cfg.Sink\<close> and \<open>runstate.AppendHistory\<close>, each possibly absent.\<close>

definition sink :: "agent_event \<Rightarrow> ('z world_scheme, unit) state" where
  "sink e = State (\<lambda>w. ((), if e_sink (w_env w) then w\<lparr>w_sink := w_sink w @ [e]\<rparr> else w))"

definition appendHistory :: "string \<Rightarrow> agent_event \<Rightarrow> ('z world_scheme, unit) state" where
  "appendHistory t e = State (\<lambda>w. ((), if e_runstate (w_env w)
     then w\<lparr>w_history := w_history w @ [(t, eSeq e, eKind e)]\<rparr> else w))"

text \<open>\<open>runstate.WriteArtifact\<close>: the files requested, with their contents. Whether the file system
  accepts one does not influence the orchestrator.\<close>

definition writeArtifact :: "string \<Rightarrow> string \<Rightarrow> string \<Rightarrow> ('z world_scheme, unit) state" where
  "writeArtifact t path content = State (\<lambda>w. ((), if e_runstate (w_env w)
     then w\<lparr>w_artifacts := w_artifacts w @ [(t, path, content)]\<rparr> else w))"

definition abortedByUser :: "string \<Rightarrow> ('z world_scheme, bool) state" where
  "abortedByUser t = State (\<lambda>w. (map_of (w_running w) t = Some True, w))"

section \<open>Store calls\<close>

abbreviation wrote :: "store_error + db \<Rightarrow> store_error + db \<times> unit" where
  "wrote \<equiv> map_sum id (\<lambda>d. (d, ()))"

definition mTransition ::
  "ctx_name \<Rightarrow> string \<Rightarrow> status \<Rightarrow> status \<Rightarrow> error_code \<Rightarrow> string \<Rightarrow> finalization_kind \<Rightarrow>
     ('z world_scheme, store_error + unit) state" where
  "mTransition c i from to code msg fin =
     storeWrite c (\<lambda>now cx d. wrote (transition now cx i from to code msg fin d))"

definition mUpdateFields :: "ctx_name \<Rightarrow> task \<Rightarrow> ('z world_scheme, store_error + unit) state" where
  "mUpdateFields c t = storeWrite c (\<lambda>now cx d. wrote (updateFields now cx t d))"

definition mTaskCreate :: "ctx_name \<Rightarrow> task \<Rightarrow> ('z world_scheme, store_error + unit) state" where
  "mTaskCreate c t = storeWrite c (\<lambda>now cx d. wrote (taskCreate now cx t d))"

definition mSetBranchExists ::
  "ctx_name \<Rightarrow> string \<Rightarrow> bool \<Rightarrow> ('z world_scheme, store_error + unit) state" where
  "mSetBranchExists c i b = storeWrite c (\<lambda>now cx d. wrote (setBranchExists now cx i b d))"

definition mTaskDelete :: "ctx_name \<Rightarrow> string \<Rightarrow> ('z world_scheme, store_error + unit) state" where
  "mTaskDelete c i = storeWrite c (\<lambda>now cx d. wrote (taskDelete cx i d))"

definition mSubtaskCreate :: "ctx_name \<Rightarrow> subtask \<Rightarrow> ('z world_scheme, store_error + unit) state" where
  "mSubtaskCreate c s = storeWrite c (\<lambda>now cx d. wrote (subtaskCreate now cx s d))"

definition mSubtaskUpdate :: "ctx_name \<Rightarrow> subtask \<Rightarrow> ('z world_scheme, store_error + unit) state" where
  "mSubtaskUpdate c s = storeWrite c (\<lambda>now cx d. wrote (subtaskUpdate now cx s d))"

definition mSubtaskDelete :: "ctx_name \<Rightarrow> string \<Rightarrow> ('z world_scheme, store_error + unit) state" where
  "mSubtaskDelete c i = storeWrite c (\<lambda>now cx d. wrote (subtaskDelete cx i d))"

definition mSubtaskReorder ::
  "ctx_name \<Rightarrow> string \<Rightarrow> string list \<Rightarrow> ('z world_scheme, store_error + unit) state" where
  "mSubtaskReorder c p is = storeWrite c (\<lambda>now cx d. wrote (subtaskReorder now cx p is d))"

definition mCreatePlan ::
  "ctx_name \<Rightarrow> string \<Rightarrow> subtask list \<Rightarrow> ('z world_scheme, store_error + int \<times> subtask list) state" where
  "mCreatePlan c p ss = storeWrite c (\<lambda>now cx d. createPlan now cx p ss d)"

definition mAppendAutoSeq ::
  "ctx_name \<Rightarrow> agent_event \<Rightarrow> ('z world_scheme, store_error + agent_event) state" where
  "mAppendAutoSeq c e = storeWrite c (\<lambda>now cx d. appendAutoSeq now cx e d)"

definition mAppendBatch ::
  "ctx_name \<Rightarrow> agent_event list \<Rightarrow> ('z world_scheme, store_error + unit) state" where
  "mAppendBatch c es = storeWrite c (\<lambda>now cx d. wrote (appendBatch cx es d))"

definition mTaskGet :: "ctx_name \<Rightarrow> string \<Rightarrow> ('z world_scheme, store_error + task) state" where
  "mTaskGet c i = storeRead c (\<lambda>cx d. taskGet cx i d)"

definition mRepoPath :: "ctx_name \<Rightarrow> string \<Rightarrow> ('z world_scheme, store_error + string) state" where
  "mRepoPath c i = storeRead c (\<lambda>cx d. repoPath cx i d)"

definition mTouchLastUsed :: "ctx_name \<Rightarrow> string \<Rightarrow> ('z world_scheme, store_error + unit) state" where
  "mTouchLastUsed c i = storeWrite c (\<lambda>now cx d. wrote (repoTouchLastUsed now cx i d))"

definition mRepoGet :: "ctx_name \<Rightarrow> string \<Rightarrow> ('z world_scheme, store_error + repository) state" where
  "mRepoGet c i = storeRead c (\<lambda>cx d. repoGet cx i d)"

definition mMaxRound :: "ctx_name \<Rightarrow> string \<Rightarrow> ('z world_scheme, store_error + int) state" where
  "mMaxRound c p = storeRead c (\<lambda>cx d. subtaskMaxRound cx p d)"

definition mNextSeq :: "ctx_name \<Rightarrow> string \<Rightarrow> ('z world_scheme, store_error + int) state" where
  "mNextSeq c i = storeRead c (\<lambda>cx d. nextSeq cx i d)"

definition mEventAppend :: "ctx_name \<Rightarrow> agent_event \<Rightarrow> ('z world_scheme, store_error + unit) state" where
  "mEventAppend c e = storeWrite c (\<lambda>now cx d. wrote (eventAppend cx e d))"

definition mTaskList :: "ctx_name \<Rightarrow> list_filter \<Rightarrow> ('z world_scheme, store_error + task list) state" where
  "mTaskList c f = storeRead c (\<lambda>cx d. taskList cx f d)"

definition mRepoList :: "ctx_name \<Rightarrow> ('z world_scheme, store_error + repository list) state" where
  "mRepoList c = storeRead c (\<lambda>cx d. repoList cx d)"

definition mEventList ::
  "ctx_name \<Rightarrow> string \<Rightarrow> int \<Rightarrow> int \<Rightarrow> ('z world_scheme, store_error + agent_event list) state" where
  "mEventList c t since limit = storeRead c (\<lambda>cx d. eventListByTask cx t since limit d)"

definition mEventDeleteByTask :: "ctx_name \<Rightarrow> string \<Rightarrow> ('z world_scheme, store_error + int) state" where
  "mEventDeleteByTask c t = storeWrite c (\<lambda>now cx d. eventDeleteByTask cx t d)"

lemmas store_calls =
  mTransition_def mUpdateFields_def mTaskCreate_def mSetBranchExists_def mTaskDelete_def
  mSubtaskCreate_def mSubtaskUpdate_def mSubtaskDelete_def mSubtaskReorder_def mCreatePlan_def
  mAppendAutoSeq_def mAppendBatch_def mTaskGet_def mRepoPath_def mTouchLastUsed_def

section \<open>What a program writes\<close>

definition otherOp :: "env \<Rightarrow> db_op \<Rightarrow> bool" where
  "otherOp e a \<longleftrightarrow> (\<exists>n. a \<in> set (e_others e n))"

definition effects :: "(db_op \<Rightarrow> bool) \<Rightarrow> ('z world_scheme, 'a) state \<Rightarrow> bool" where
  "effects Q m \<longleftrightarrow> (\<forall>w. w_env (snd (run_state m w)) = w_env w \<and>
     (\<exists>ops. w_db (snd (run_state m w)) = dbRun ops (w_db w) \<and>
        (\<forall>a\<in>set ops. Q a \<or> otherOp (w_env w) a)))"

lemma dbRun_append: "dbRun (as @ bs) d = dbRun bs (dbRun as d)"
  by (simp add: dbRun_def)

lemma dbRun_snoc: "dbRun (as @ [b]) d = dbStep b (dbRun as d)"
  by (simp add: dbRun_def)

lemma dbRun_Nil [simp]: "dbRun [] d = d"
  by (simp add: dbRun_def)

lemma effectsI:
  assumes "\<And>w. w_env (snd (run_state m w)) = w_env w"
    and "\<And>w. \<exists>ops. w_db (snd (run_state m w)) = dbRun ops (w_db w) \<and>
        (\<forall>a\<in>set ops. Q a \<or> otherOp (w_env w) a)"
  shows "effects Q m"
  using assms by (simp add: effects_def)

lemma effects_pure:
  assumes "\<And>w. w_env (snd (run_state m w)) = w_env w" "\<And>w. w_db (snd (run_state m w)) = w_db w"
  shows "effects Q m"
proof (rule effectsI)
  show "\<exists>ops. w_db (snd (run_state m w)) = dbRun ops (w_db w) \<and>
      (\<forall>a\<in>set ops. Q a \<or> otherOp (w_env w) a)" for w
    by (rule exI [of _ "[]"]) (simp add: assms)
qed (rule assms)

lemma effects_return [effects_intros]: "effects Q (State_Monad.return x)"
  by (rule effects_pure) simp_all

lemma effects_bind [effects_intros]:
  fixes m :: "('z world_scheme, 'a) state"
  assumes m: "effects Q m" and f: "\<And>x. effects Q (f x)"
  shows "effects Q (State_Monad.bind m f)"
proof (rule effectsI)
  fix w :: "'z world_scheme"
  obtain x w1 where r: "run_state m w = (x, w1)" by (cases "run_state m w")
  from m [unfolded effects_def, rule_format, of w] obtain as where e1: "w_env w1 = w_env w"
    and as: "w_db w1 = dbRun as (w_db w)" "\<forall>a\<in>set as. Q a \<or> otherOp (w_env w) a"
    by (auto simp: r)
  from f [unfolded effects_def, rule_format, of x w1] obtain bs
    where e2: "w_env (snd (run_state (f x) w1)) = w_env w1"
      and bs: "w_db (snd (run_state (f x) w1)) = dbRun bs (w_db w1)"
        "\<forall>a\<in>set bs. Q a \<or> otherOp (w_env w1) a" by auto
  show "w_env (snd (run_state (State_Monad.bind m f) w)) = w_env w" by (simp add: r e1 e2)
  show "\<exists>ops. w_db (snd (run_state (State_Monad.bind m f) w)) = dbRun ops (w_db w) \<and>
      (\<forall>a\<in>set ops. Q a \<or> otherOp (w_env w) a)"
    by (rule exI [of _ "as @ bs"]) (use as bs e1 in \<open>auto simp: r dbRun_append\<close>)
qed

lemma effects_if [effects_intros]:
  "(b \<Longrightarrow> effects Q m) \<Longrightarrow> (\<not> b \<Longrightarrow> effects Q n) \<Longrightarrow> effects Q (if b then m else n)"
  by simp

lemma effects_case_sum [effects_intros]:
  "(\<And>a. x = Inl a \<Longrightarrow> effects Q (f a)) \<Longrightarrow> (\<And>b. x = Inr b \<Longrightarrow> effects Q (g b)) \<Longrightarrow>
   effects Q (case x of Inl a \<Rightarrow> f a | Inr b \<Rightarrow> g b)"
  by (cases x) auto

lemma effects_case_option [effects_intros]:
  "(x = None \<Longrightarrow> effects Q m) \<Longrightarrow> (\<And>b. x = Some b \<Longrightarrow> effects Q (g b)) \<Longrightarrow>
   effects Q (case x of None \<Rightarrow> m | Some b \<Rightarrow> g b)"
  by (cases x) auto

lemma effects_case_prod [effects_intros]:
  "(\<And>a b. effects Q (f a b)) \<Longrightarrow> effects Q (case x of (a, b) \<Rightarrow> f a b)"
  by (cases x) auto

lemma effects_let [effects_intros]: "effects Q (f x) \<Longrightarrow> effects Q (let y = x in f y)"
  by simp

lemma effects_mono: "effects P m \<Longrightarrow> (\<And>a. P a \<Longrightarrow> Q a) \<Longrightarrow> effects Q m"
  unfolding effects_def by blast

lemma env_stepped [simp]: "w_env (stepped w) = w_env w"
  by (simp add: stepped_def)

lemma effects_step:
  fixes m :: "('z world_scheme, 'a) state"
  assumes "\<And>w. snd (run_state m w) = stepped w"
  shows "effects Q m"
proof (rule effectsI)
  fix w :: "'z world_scheme"
  show "w_env (snd (run_state m w)) = w_env w" by (simp add: assms)
  show "\<exists>ops. w_db (snd (run_state m w)) = dbRun ops (w_db w) \<and>
      (\<forall>a\<in>set ops. Q a \<or> otherOp (w_env w) a)"
    by (rule exI [of _ "e_others (w_env w) (w_step w)"]) (auto simp: assms stepped_def otherOp_def)
qed

lemma effects_storeRead [effects_intros]: "effects Q (storeRead c q)"
  by (rule effects_step) (simp add: storeRead_def)

lemma effects_newULID [effects_intros]: "effects Q newULID"
  by (rule effects_step) (simp add: newULID_def)

lemma effects_readClock [effects_intros]: "effects Q readClock"
  by (rule effects_step) (simp add: readClock_def)

lemma effects_sink [effects_intros]: "effects Q (sink e)"
  by (rule effects_pure) (simp_all add: sink_def)

lemma effects_writeArtifact [effects_intros]: "effects Q (writeArtifact t p x)"
  by (rule effects_pure) (simp_all add: writeArtifact_def)

lemma effects_abortedByUser [effects_intros]: "effects Q (abortedByUser t)"
  by (rule effects_pure) (simp_all add: abortedByUser_def)

lemma effects_appendHistory [effects_intros]: "effects Q (appendHistory t e)"
  by (rule effects_pure) (simp_all add: appendHistory_def)

lemma effects_storeWrite:
  fixes f :: "time \<Rightarrow> ctx \<Rightarrow> db \<Rightarrow> store_error + db \<times> 'a"
  assumes "\<And>now cx d d' a. f now cx d = Inr (d', a) \<Longrightarrow> \<exists>b. Q b \<and> dbStep b d = d'"
  shows "effects Q (storeWrite c f :: ('z world_scheme, _) state)"
proof (rule effectsI)
  fix w :: "'z world_scheme"
  let ?o = "e_others (w_env w) (w_step w)"
  have o: "w_db (stepped w) = dbRun ?o (w_db w)" "\<forall>a\<in>set ?o. otherOp (w_env w) a"
    by (auto simp: stepped_def otherOp_def)
  show "w_env (snd (run_state (storeWrite c f) w)) = w_env w"
    by (simp add: storeWrite_def split: sum.splits)
  show "\<exists>ops. w_db (snd (run_state (storeWrite c f) w)) = dbRun ops (w_db w) \<and>
      (\<forall>a\<in>set ops. Q a \<or> otherOp (w_env w) a)"
  proof (cases "f (e_clock (w_env w) (w_step w)) (e_ctx (w_env w) c (w_step w)) (w_db (stepped w))")
    case (Inl e)
    with o show ?thesis by (intro exI [of _ ?o]) (simp add: storeWrite_def)
  next
    case (Inr x)
    obtain d' a where x: "x = (d', a)" by (cases x)
    from assms [OF Inr [unfolded x]] obtain b where "Q b" "dbStep b (w_db (stepped w)) = d'" by blast
    with Inr x o show ?thesis
      by (intro exI [of _ "?o @ [b]"]) (auto simp: storeWrite_def dbRun_snoc)
  qed
qed

text \<open>Each store call writes one operation.\<close>

lemma wrote_InrD: "wrote r = Inr (d, a) \<Longrightarrow> r = Inr d"
  by (cases r) auto

lemma dbStep_committed:
  "committed id d (Inr d') = d'" "committed fst d (Inr (d', x)) = d'"
  by (simp_all add: committed_def)

lemma effects_mTransition [effects_intros]:
  assumes "\<And>now cx. Q (OpTransition now cx i from to code msg fin)"
  shows "effects Q (mTransition c i from to code msg fin)"
  unfolding mTransition_def
  by (rule effects_storeWrite, drule wrote_InrD)
    (metis assms dbStep.simps(3) dbStep_committed(1))

lemma effects_mUpdateFields [effects_intros]:
  assumes "\<And>now cx. Q (OpUpdateFields now cx t)"
  shows "effects Q (mUpdateFields c t)"
  unfolding mUpdateFields_def
  by (rule effects_storeWrite, drule wrote_InrD)
    (metis assms dbStep.simps(2) dbStep_committed(1))

lemma effects_mTaskCreate [effects_intros]:
  assumes "\<And>now cx. Q (OpTaskCreate now cx t)"
  shows "effects Q (mTaskCreate c t)"
  unfolding mTaskCreate_def
  by (rule effects_storeWrite, drule wrote_InrD)
    (metis assms dbStep.simps(1) dbStep_committed(1))

lemma effects_mSetBranchExists [effects_intros]:
  assumes "\<And>now cx. Q (OpSetBranchExists now cx i b)"
  shows "effects Q (mSetBranchExists c i b)"
  unfolding mSetBranchExists_def
  by (rule effects_storeWrite, drule wrote_InrD)
    (metis assms dbStep.simps(4) dbStep_committed(1))

lemma effects_mTaskDelete [effects_intros]:
  assumes "\<And>cx. Q (OpTaskDelete cx i)"
  shows "effects Q (mTaskDelete c i)"
  unfolding mTaskDelete_def
  by (rule effects_storeWrite, drule wrote_InrD)
    (metis assms dbStep.simps(5) dbStep_committed(1))

lemma effects_mSubtaskCreate [effects_intros]:
  assumes "\<And>now cx. Q (OpSubtaskCreate now cx s)"
  shows "effects Q (mSubtaskCreate c s)"
  unfolding mSubtaskCreate_def
  by (rule effects_storeWrite, drule wrote_InrD)
    (metis assms dbStep.simps(7) dbStep_committed(1))

lemma effects_mSubtaskUpdate [effects_intros]:
  assumes "\<And>now cx. Q (OpSubtaskUpdate now cx s)"
  shows "effects Q (mSubtaskUpdate c s)"
  unfolding mSubtaskUpdate_def
  by (rule effects_storeWrite, drule wrote_InrD)
    (metis assms dbStep.simps(8) dbStep_committed(1))

lemma effects_mSubtaskDelete [effects_intros]:
  assumes "\<And>cx. Q (OpSubtaskDelete cx i)"
  shows "effects Q (mSubtaskDelete c i)"
  unfolding mSubtaskDelete_def
  by (rule effects_storeWrite, drule wrote_InrD)
    (metis assms dbStep.simps(9) dbStep_committed(1))

lemma effects_mSubtaskReorder [effects_intros]:
  assumes "\<And>now cx. Q (OpSubtaskReorder now cx p is)"
  shows "effects Q (mSubtaskReorder c p is)"
  unfolding mSubtaskReorder_def
  by (rule effects_storeWrite, drule wrote_InrD)
    (metis assms dbStep.simps(11) dbStep_committed(1))

lemma effects_mCreatePlan [effects_intros]:
  assumes "\<And>now cx. Q (OpCreatePlan now cx p ss)"
  shows "effects Q (mCreatePlan c p ss)"
  unfolding mCreatePlan_def
  by (rule effects_storeWrite) (metis assms dbStep.simps(12) dbStep_committed(2))

lemma effects_mAppendAutoSeq [effects_intros]:
  assumes "\<And>now cx. Q (OpEventAppendAutoSeq now cx e)"
  shows "effects Q (mAppendAutoSeq c e)"
  unfolding mAppendAutoSeq_def
  by (rule effects_storeWrite) (metis assms dbStep.simps(14) dbStep_committed(2))

lemma effects_mAppendBatch [effects_intros]:
  assumes "\<And>cx. Q (OpEventAppendBatch cx es)"
  shows "effects Q (mAppendBatch c es)"
  unfolding mAppendBatch_def
  by (rule effects_storeWrite, drule wrote_InrD)
    (metis assms dbStep.simps(15) dbStep_committed(1))

lemma effects_mTaskGet [effects_intros]: "effects Q (mTaskGet c i)"
  unfolding mTaskGet_def by (rule effects_storeRead)

lemma effects_mRepoPath [effects_intros]: "effects Q (mRepoPath c i)"
  unfolding mRepoPath_def by (rule effects_storeRead)

lemma effects_mTouchLastUsed [effects_intros]:
  assumes "\<And>now cx. Q (OpRepoTouchLastUsed now cx i)"
  shows "effects Q (mTouchLastUsed c i)"
  unfolding mTouchLastUsed_def
  by (rule effects_storeWrite, drule wrote_InrD)
    (metis assms dbStep.simps(18) dbStep_committed(1))

text \<open>What the stores guarantee for any operations holds of a program.\<close>

lemma effects_wf:
  assumes "effects Q m" "wfDB (w_db w)"
  shows "wfDB (w_db (snd (run_state m w)))"
proof -
  from assms(1) obtain ops where "w_db (snd (run_state m w)) = dbRun ops (w_db w)"
    by (auto simp: effects_def)
  with assms(2) show ?thesis by (simp add: dbRun_def db_inv.run_inv)
qed

lemma effects_status:
  assumes "effects Q m" "wfDB (w_db w)" "taskStatus (w_db w) i = Some s"
    "\<And>a. Q a \<Longrightarrow> \<not> deletesTask i a" "\<And>a. otherOp (w_env w) a \<Longrightarrow> \<not> deletesTask i a"
  shows "\<exists>s'. taskStatus (w_db (snd (run_state m w))) i = Some s' \<and> reach s s'"
proof -
  from assms(1) obtain ops where r: "w_db (snd (run_state m w)) = dbRun ops (w_db w)"
    and ops: "\<forall>a\<in>set ops. Q a \<or> otherOp (w_env w) a" by (auto simp: effects_def)
  have "\<forall>a\<in>set ops. \<not> deletesTask i a" using ops assms(4,5) by blast
  from db_status.run_status [OF assms(2,3) this] show ?thesis
    unfolding r dbRun_def using rtranclp_reach by blast
qed

end
