(* ===== verification/Event_Emission.thy ===== *)
theory Event_Emission
  imports World Samples
begin

text \<open>
  The event half of \<open>internal/orchestrator/orchestrator.go\<close>: events the orchestrator emits
  itself (numbered by the store when they are written), the consumer that numbers, batches and
  stores the stream of an agent session, the plan summary read back from the log, and
  notifications. The select loop of the consumer is driven by the list of the cases it takes.
\<close>

section \<open>Events the orchestrator emits\<close>

definition blankEvent :: "event_kind \<Rightarrow> payload \<Rightarrow> agent_event" where
  "blankEvent k p =
     \<lparr>eID = [], eTaskID = [], eSeq = 0, eKind = k, ePayload = p, eOccurredAt = 0\<rparr>"

definition appendAuxEvent ::
  "ctx_name \<Rightarrow> string \<Rightarrow> agent_event \<Rightarrow> ('z world_scheme, unit) state" where
  "appendAuxEvent c t ev = do {
     i \<leftarrow> (if eID ev = [] then newULID else State_Monad.return (eID ev));
     ts \<leftarrow> (if eOccurredAt ev = 0 then readClock else State_Monad.return (eOccurredAt ev));
     r \<leftarrow> mAppendAutoSeq c (ev\<lparr>eID := i, eOccurredAt := ts, eTaskID := t\<rparr>);
     case r of Inl _ \<Rightarrow> State_Monad.return () | Inr e \<Rightarrow> sink e
   }"

definition emitStatus ::
  "ctx_name \<Rightarrow> string \<Rightarrow> status \<Rightarrow> status \<Rightarrow> ('z world_scheme, unit) state" where
  "emitStatus c t from to = do {
     i \<leftarrow> newULID;
     r \<leftarrow> mAppendAutoSeq c ((blankEvent EventStatus (PStatus from to))\<lparr>eID := i, eTaskID := t\<rparr>);
     case r of Inl _ \<Rightarrow> State_Monad.return () | Inr e \<Rightarrow> sink e
   }"

definition emitSubtaskStart :: "ctx_name \<Rightarrow> string \<Rightarrow> subtask \<Rightarrow> ('z world_scheme, unit) state" where
  "emitSubtaskStart c t s =
     appendAuxEvent c t (blankEvent EventSubtaskStart (PSubtaskStart (sID s) (sTitle s) (sAgentRole s)))"

definition emitSubtaskEnd ::
  "ctx_name \<Rightarrow> string \<Rightarrow> subtask \<Rightarrow> bool \<Rightarrow> string \<Rightarrow> ('z world_scheme, unit) state" where
  "emitSubtaskEnd c t s ok err =
     appendAuxEvent c t (blankEvent EventSubtaskEnd
       (PSubtaskEnd (sID s) ok (if err = [] then None else Some err)))"

definition emitUsageEvent ::
  "ctx_name \<Rightarrow> string \<Rightarrow> string \<Rightarrow> string \<Rightarrow> session_usage \<Rightarrow> ('z world_scheme, unit) state" where
  "emitUsageEvent c t stage sub u =
     (if usageIsZero u then State_Monad.return ()
      else appendAuxEvent c t (blankEvent EventSessionUsage
        (PUsage stage u (if sub = [] then None else Some sub))))"

definition notify ::
  "ctx_name \<Rightarrow> string \<Rightarrow> status \<Rightarrow> string \<Rightarrow> ('z world_scheme, unit) state" where
  "notify c t st err = do {
     w \<leftarrow> State_Monad.get;
     if \<not> e_notifier (w_env w) then State_Monad.return ()
     else do {
       r \<leftarrow> mTaskGet c t;
       case r of Inl _ \<Rightarrow> State_Monad.return ()
       | Inr x \<Rightarrow> State (\<lambda>w. ((), w\<lparr>w_notified := w_notified w @ [(tID x, tGoal x, st, err)]\<rparr>))
     }
   }"

section \<open>The plan summary\<close>

text \<open>\<open>render\<close> is the JSON text of a payload that is not a plan summary.\<close>

definition decodePlanSummaryText :: "(payload \<Rightarrow> string) \<Rightarrow> payload \<Rightarrow> string" where
  "decodePlanSummaryText render p =
     (case p of PPlanSummary r x \<Rightarrow> x | PText s \<Rightarrow> s | _ \<Rightarrow> render p)"

definition fetchPlanSummary ::
  "(payload \<Rightarrow> string) \<Rightarrow> ctx_name \<Rightarrow> string \<Rightarrow> ('z world_scheme, string) state" where
  "fetchPlanSummary render c t = do {
     r \<leftarrow> storeRead c (\<lambda>cx d. eventListByTask cx t 0 0 d);
     State_Monad.return (case r of Inl _ \<Rightarrow> []
       | Inr es \<Rightarrow> fold (\<lambda>e latest. if eKind e = EventPlanSummary
           then decodePlanSummaryText render (ePayload e) else latest) es [])
   }"

section \<open>The event consumer\<close>

fun isDurableHistoryKind :: "event_kind \<Rightarrow> bool" where
  "isDurableHistoryKind EventStatus = True"
| "isDurableHistoryKind EventSessionStart = True"
| "isDurableHistoryKind EventSessionIdle = True"
| "isDurableHistoryKind EventPlanSummary = True"
| "isDurableHistoryKind EventSubtaskStart = True"
| "isDurableHistoryKind EventSubtaskEnd = True"
| "isDurableHistoryKind EventAIReviewStart = True"
| "isDurableHistoryKind EventAIReviewDecision = True"
| "isDurableHistoryKind EventReviewSubmitted = True"
| "isDurableHistoryKind EventFileChanged = True"
| "isDurableHistoryKind EventSessionUsage = True"
| "isDurableHistoryKind EventPermissionRequest = True"
| "isDurableHistoryKind EventError = True"
| "isDurableHistoryKind EventSecurityPathEscape = True"
| "isDurableHistoryKind _ = False"

fun sinkAll :: "agent_event list \<Rightarrow> ('z world_scheme, unit) state" where
  "sinkAll [] = State_Monad.return ()"
| "sinkAll (e # es) = do { sink e; sinkAll es }"

fun historyAll :: "string \<Rightarrow> agent_event list \<Rightarrow> ('z world_scheme, unit) state" where
  "historyAll t [] = State_Monad.return ()"
| "historyAll t (e # es) =
     (if isDurableHistoryKind (eKind e) then do { appendHistory t e; historyAll t es }
      else historyAll t es)"

definition flushBatch ::
  "ctx_name \<Rightarrow> string \<Rightarrow> agent_event list \<Rightarrow> ('z world_scheme, store_error option) state" where
  "flushBatch c t batch =
     (if batch = [] then State_Monad.return None
      else do {
        r \<leftarrow> mAppendBatch c batch;
        case r of Inl e \<Rightarrow> State_Monad.return (Some e)
        | Inr _ \<Rightarrow> do { sinkAll batch; historyAll t batch; State_Monad.return None }
      })"

text \<open>The cases of the select: an event, a tick, the context's end. The list ends when the
  producer closes the channel.\<close>

datatype chan_case = ChEvent agent_event | ChTick | ChDone string

fun isDelta :: "event_kind \<Rightarrow> bool" where
  "isDelta EventAssistantDelta = True"
| "isDelta EventAssistantReasoningDelta = True"
| "isDelta _ = False"

fun consumeLoop ::
  "ctx_name \<Rightarrow> string \<Rightarrow> int \<Rightarrow> agent_event list \<Rightarrow> chan_case list \<Rightarrow>
     ('z world_scheme, store_error option) state" where
  "consumeLoop c t seq batch [] = flushBatch c t batch"
| "consumeLoop c t seq batch (ChEvent ev # rest) = do {
     i \<leftarrow> (if eID ev = [] then newULID else State_Monad.return (eID ev));
     ts \<leftarrow> (if eOccurredAt ev = 0 then readClock else State_Monad.return (eOccurredAt ev));
     let batch' = batch @ [ev\<lparr>eID := i, eOccurredAt := ts, eTaskID := t, eSeq := seq\<rparr>];
     if isDelta (eKind ev) then consumeLoop c t (seq + 1) batch' rest
     else do {
       r \<leftarrow> flushBatch c t batch';
       case r of Some e \<Rightarrow> State_Monad.return (Some e)
       | None \<Rightarrow> consumeLoop c t (seq + 1) [] rest
     }
   }"
| "consumeLoop c t seq batch (ChTick # rest) = do {
     r \<leftarrow> flushBatch c t batch;
     case r of Some e \<Rightarrow> State_Monad.return (Some e)
     | None \<Rightarrow> consumeLoop c t seq [] rest
   }"
| "consumeLoop c t seq batch (ChDone e # rest) = do {
     _ \<leftarrow> flushBatch c t batch;
     State_Monad.return (Some (EExec e))
   }"

definition consumeEvents ::
  "ctx_name \<Rightarrow> string \<Rightarrow> chan_case list \<Rightarrow> ('z world_scheme, store_error option) state" where
  "consumeEvents c t cases = do {
     r \<leftarrow> storeRead c (\<lambda>cx d. nextSeq cx t d);
     case r of Inl e \<Rightarrow> State_Monad.return (Some e)
     | Inr seq \<Rightarrow> consumeLoop c t seq [] cases
   }"

section \<open>What they write\<close>

text \<open>An operation that only appends events to one task's log.\<close>

fun logsFor :: "string \<Rightarrow> db_op \<Rightarrow> bool" where
  "logsFor t (OpEventAppendAutoSeq now c e) = (eTaskID e = t)"
| "logsFor t (OpEventAppendBatch c es) = (\<forall>e\<in>set es. eTaskID e = t)"
| "logsFor t _ = False"

lemma effects_get [effects_intros]: "effects Q State_Monad.get"
  by (rule effects_pure) simp_all

lemma effects_appendAuxEvent [effects_intros]:
  "(\<And>a. logsFor t a \<Longrightarrow> Q a) \<Longrightarrow> effects Q (appendAuxEvent c t ev)"
  unfolding appendAuxEvent_def by (intro effects_intros) auto

lemma effects_emitStatus [effects_intros]:
  "(\<And>a. logsFor t a \<Longrightarrow> Q a) \<Longrightarrow> effects Q (emitStatus c t from to)"
  unfolding emitStatus_def by (intro effects_intros) auto

lemma effects_emitSubtaskStart [effects_intros]:
  "(\<And>a. logsFor t a \<Longrightarrow> Q a) \<Longrightarrow> effects Q (emitSubtaskStart c t s)"
  unfolding emitSubtaskStart_def by (intro effects_intros)

lemma effects_emitSubtaskEnd [effects_intros]:
  "(\<And>a. logsFor t a \<Longrightarrow> Q a) \<Longrightarrow> effects Q (emitSubtaskEnd c t s ok err)"
  unfolding emitSubtaskEnd_def by (intro effects_intros)

lemma effects_emitUsageEvent [effects_intros]:
  "(\<And>a. logsFor t a \<Longrightarrow> Q a) \<Longrightarrow> effects Q (emitUsageEvent c t stage sub u)"
  unfolding emitUsageEvent_def by (intro effects_intros)

lemma effects_notify [effects_intros]: "effects Q (notify c t st err)"
  unfolding notify_def by (intro effects_intros effects_pure) simp_all

lemma effects_fetchPlanSummary [effects_intros]: "effects Q (fetchPlanSummary render c t)"
  unfolding fetchPlanSummary_def by (intro effects_intros)

lemma effects_sinkAll [effects_intros]: "effects Q (sinkAll es)"
  by (induction es) (auto intro: effects_intros)

lemma effects_historyAll [effects_intros]: "effects Q (historyAll t es)"
  by (induction es) (auto intro: effects_intros)

lemma effects_flushBatch:
  "(\<And>a. logsFor t a \<Longrightarrow> Q a) \<Longrightarrow> \<forall>e\<in>set batch. eTaskID e = t \<Longrightarrow> effects Q (flushBatch c t batch)"
  unfolding flushBatch_def by (intro effects_intros) auto

lemma effects_consumeLoop:
  "(\<And>a. logsFor t a \<Longrightarrow> Q a) \<Longrightarrow> \<forall>e\<in>set batch. eTaskID e = t \<Longrightarrow>
   effects Q (consumeLoop c t seq batch cases)"
proof (induction c t seq batch cases rule: consumeLoop.induct)
  case (1 c t seq batch)
  then show ?case by (simp add: effects_flushBatch)
next
  case (2 c t seq batch ev rest)
  show ?case
    unfolding consumeLoop.simps Let_def using 2
    by (intro effects_intros effects_flushBatch) auto
next
  case (3 c t seq batch rest)
  then show ?case
    unfolding consumeLoop.simps by (intro effects_intros effects_flushBatch) auto
next
  case (4 c t seq batch e rest)
  then show ?case
    unfolding consumeLoop.simps by (intro effects_intros effects_flushBatch) auto
qed

lemma effects_consumeEvents [effects_intros]:
  "(\<And>a. logsFor t a \<Longrightarrow> Q a) \<Longrightarrow> effects Q (consumeEvents c t cases)"
  unfolding consumeEvents_def by (intro effects_intros effects_consumeLoop) auto

section \<open>The stream of a session\<close>

definition quiet :: "'z world_scheme \<Rightarrow> bool" where
  "quiet w \<longleftrightarrow> (\<forall>n. e_others (w_env w) n = [] \<and> e_cancel (w_env w) n = [])"

lemma markAborted_Nil [simp]: "markAborted [] rs = rs"
  by (auto simp: markAborted_def intro: map_idI)

lemma stepped_quiet [simp]: "quiet w \<Longrightarrow> stepped w = w\<lparr>w_step := Suc (w_step w)\<rparr>"
  by (simp add: stepped_def quiet_def)

lemma quiet_cong: "w_env w' = w_env w \<Longrightarrow> quiet w' = quiet w"
  by (simp add: quiet_def)

definition sunk :: "'z world_scheme \<Rightarrow> agent_event list \<Rightarrow> agent_event list" where
  "sunk w es = (if e_sink (w_env w) then es else [])"

lemma sunk_append: "sunk w (es @ es') = sunk w es @ sunk w es'"
  by (simp add: sunk_def)

lemma sunk_Nil [simp]: "sunk w [] = []"
  by (simp add: sunk_def)

lemma run_sinkAll: "run_state (sinkAll es) w = ((), w\<lparr>w_sink := w_sink w @ sunk w es\<rparr>)"
  by (induction es arbitrary: w) (simp_all add: sink_def sunk_def)

lemma run_historyAll: "\<exists>h. run_state (historyAll t es) w = ((), w\<lparr>w_history := h\<rparr>)"
proof (induction es arbitrary: w)
  case Nil
  show ?case by (rule exI [of _ "w_history w"]) simp
next
  case (Cons e es)
  show ?case
  proof (cases "isDurableHistoryKind (eKind e) \<and> e_runstate (w_env w)")
    case True
    from Cons.IH [of "w\<lparr>w_history := w_history w @ [(t, eSeq e, eKind e)]\<rparr>"] True show ?thesis
      by (auto simp: appendHistory_def)
  next
    case False
    with Cons.IH [of w] show ?thesis by (auto simp: appendHistory_def)
  qed
qed

lemma appendBatch_events: "appendBatch c es d = Inr d' \<Longrightarrow> events d' = events d @ es"
proof -
  have "appendChunk es d = Inr d' \<Longrightarrow> events d' = events d @ es" for d
    by (induction es arbitrary: d) (auto split: sum.splits dest!: insertEvent_InrD)
  then show "appendBatch c es d = Inr d' \<Longrightarrow> ?thesis"
    by (auto simp: appendBatch_def appendChunks_eq split: if_splits option.splits)
qed

text \<open>\<open>carried w w' es\<close>: from \<open>w\<close> to \<open>w'\<close> exactly the events \<open>es\<close> went to the log and to the
  sink, in this order.\<close>

definition carried :: "'z world_scheme \<Rightarrow> 'z world_scheme \<Rightarrow> agent_event list \<Rightarrow> bool" where
  "carried w w' es \<longleftrightarrow> w_env w' = w_env w \<and> events (w_db w') = events (w_db w) @ es \<and>
     w_sink w' = w_sink w @ sunk w es"

lemma carried_refl: "w_env w' = w_env w \<Longrightarrow> w_db w' = w_db w \<Longrightarrow> w_sink w' = w_sink w \<Longrightarrow> carried w w' []"
  by (simp add: carried_def)

lemma carried_trans: "carried w w1 es \<Longrightarrow> carried w1 w2 es' \<Longrightarrow> carried w w2 (es @ es')"
  by (simp add: carried_def sunk_def)

lemma run_flushBatch:
  assumes "quiet w" "run_state (flushBatch c t batch) w = (r, w')"
  shows "\<exists>es. carried w w' es \<and> (es = batch \<or> es = [] \<and> r \<noteq> None)"
proof (cases "batch = []")
  case True
  with assms show ?thesis by (auto simp: flushBatch_def carried_def)
next
  case False
  let ?r = "appendBatch (e_ctx (w_env w) c (w_step w)) batch (w_db w)"
  show ?thesis
  proof (cases ?r)
    case (Inl e)
    with assms False show ?thesis
      by (intro exI [of _ "[]"]) (auto simp: flushBatch_def mAppendBatch_def storeWrite_def
          intro!: carried_refl)
  next
    case (Inr d)
    let ?w = "w\<lparr>w_step := Suc (w_step w), w_db := d, w_sink := w_sink w @ sunk w batch\<rparr>"
    obtain h where "run_state (historyAll t batch) ?w = ((), ?w\<lparr>w_history := h\<rparr>)"
      using run_historyAll by blast
    with assms False Inr have "w' = ?w\<lparr>w_history := h\<rparr>"
      by (simp add: flushBatch_def mAppendBatch_def storeWrite_def run_sinkAll sunk_def)
    with appendBatch_events [OF Inr] show ?thesis
      by (intro exI [of _ batch]) (simp add: carried_def)
  qed
qed

text \<open>The events the producer sends before the context ends, as they should be numbered.\<close>

fun sent :: "chan_case list \<Rightarrow> agent_event list" where
  "sent [] = []"
| "sent (ChEvent e # cs) = e # sent cs"
| "sent (ChTick # cs) = sent cs"
| "sent (ChDone _ # cs) = []"

type_synonym event_sig = "string \<times> int \<times> event_kind \<times> payload"

definition sigOf :: "agent_event \<Rightarrow> event_sig" where
  "sigOf e = (eTaskID e, eSeq e, eKind e, ePayload e)"

fun numbered :: "string \<Rightarrow> int \<Rightarrow> agent_event list \<Rightarrow> event_sig list" where
  "numbered t n [] = []"
| "numbered t n (e # es) = (t, n, eKind e, ePayload e) # numbered t (n + 1) es"

lemma take_append_more: "\<exists>k. take j (xs @ ys) = take k (xs @ ys @ zs)"
  by (rule exI [of _ "min j (length xs + length ys)"]) (simp add: min_def)

lemma run_stamp:
  assumes "quiet w"
  obtains i wa ts w1 where "w_env w1 = w_env w" "w_db w1 = w_db w" "w_sink w1 = w_sink w"
    "run_state (if eID ev = [] then newULID else State_Monad.return (eID ev)) w = (i, wa)"
    "run_state (if eOccurredAt ev = 0 then readClock else State_Monad.return (eOccurredAt ev)) wa = (ts, w1)"
proof -
  obtain i wa where a: "run_state (if eID ev = [] then newULID else State_Monad.return (eID ev)) w = (i, wa)"
    by fastforce
  then have wa: "w_env wa = w_env w" "w_db wa = w_db w" "w_sink wa = w_sink w"
    using assms by (auto simp: newULID_def split: if_splits)
  with assms have qa: "quiet wa" using quiet_cong by blast
  obtain ts w1 where b: "run_state (if eOccurredAt ev = 0 then readClock
      else State_Monad.return (eOccurredAt ev)) wa = (ts, w1)" by fastforce
  then have "w_env w1 = w_env wa" "w_db w1 = w_db wa" "w_sink w1 = w_sink wa"
    using qa by (auto simp: readClock_def split: if_splits)
  with wa a b show ?thesis by (intro that) simp_all
qed

text \<open>What the loop carries is the pending batch followed by what is sent, cut off somewhere.\<close>

lemma run_consumeLoop:
  "quiet w \<Longrightarrow> run_state (consumeLoop c t seq batch cases) w = (r, w') \<Longrightarrow>
     \<exists>es k. carried w w' es \<and>
       map sigOf es = take k (map sigOf batch @ numbered t seq (sent cases)) \<and>
       (r = None \<longrightarrow> map sigOf es = map sigOf batch @ numbered t seq (sent cases))"
proof (induction c t seq batch cases arbitrary: w rule: consumeLoop.induct)
  case (1 c t seq batch)
  from run_flushBatch [OF 1(1) 1(2) [unfolded consumeLoop.simps]] obtain es
    where "carried w w' es" "es = batch \<or> es = [] \<and> r \<noteq> None" by blast
  then show ?case by (intro exI [of _ es] exI [of _ "length es"]) auto
next
  case (2 c t seq batch ev rest)
  obtain i wa ts w1 where w1: "w_env w1 = w_env w" "w_db w1 = w_db w" "w_sink w1 = w_sink w"
    and run: "run_state (if eID ev = [] then newULID else State_Monad.return (eID ev)) w = (i, wa)"
    "run_state (if eOccurredAt ev = 0 then readClock else State_Monad.return (eOccurredAt ev)) wa = (ts, w1)"
    by (rule run_stamp [OF "2.prems"(1)])
  have q1: "quiet w1" using "2.prems"(1) w1(1) quiet_cong by blast
  have c1: "carried w w1 []" using w1 by (rule carried_refl)
  let ?b = "batch @ [ev\<lparr>eID := i, eOccurredAt := ts, eTaskID := t, eSeq := seq\<rparr>]"
  let ?tot = "map sigOf batch @ numbered t seq (sent (ChEvent ev # rest))"
  have tot: "?tot = map sigOf ?b @ numbered t (seq + 1) (sent rest)" by (simp add: sigOf_def)
  show ?case
  proof (cases "isDelta (eKind ev)")
    case True
    with "2.prems"(2) have "run_state (consumeLoop c t (seq + 1) ?b rest) w1 = (r, w')"
      by (simp add: run)
    from "2.IH"(1) [OF refl True q1 this] carried_trans [OF c1] show ?thesis
      unfolding tot by (metis append_Nil)
  next
    case False
    obtain r2 w2 where f: "run_state (flushBatch c t ?b) w1 = (r2, w2)" by fastforce
    from run_flushBatch [OF q1 f] obtain es1
      where e1: "carried w1 w2 es1" "es1 = ?b \<or> es1 = [] \<and> r2 \<noteq> None" by blast
    have e1': "carried w w2 es1" using carried_trans [OF c1 e1(1)] by simp
    show ?thesis
    proof (cases r2)
      case (Some e)
      with "2.prems"(2) False f have "w' = w2" "r = Some e" by (simp_all add: run)
      with e1' e1(2) show ?thesis
        unfolding tot by (intro exI [of _ es1] exI [of _ "length es1"]) auto
    next
      case None
      with e1(2) have es1: "es1 = ?b" by simp
      have q2: "quiet w2" using q1 e1(1) quiet_cong carried_def by metis
      from "2.prems"(2) False f None
      have "run_state (consumeLoop c t (seq + 1) [] rest) w2 = (r, w')" by (simp add: run)
      from "2.IH"(2) [OF refl False q2 this, unfolded list.map append.simps] obtain es2 k where e2: "carried w2 w' es2"
        "map sigOf es2 = take k (numbered t (seq + 1) (sent rest))"
        "r = None \<longrightarrow> map sigOf es2 = numbered t (seq + 1) (sent rest)" by blast
      from carried_trans [OF e1' e2(1)] e2(2,3) show ?thesis
        unfolding tot es1
        by (intro exI [of _ "?b @ es2"] exI [of _ "length ?b + k"]) simp
    qed
  qed
next
  case (3 c t seq batch rest)
  obtain r2 w2 where f: "run_state (flushBatch c t batch) w = (r2, w2)" by fastforce
  from run_flushBatch [OF "3.prems"(1) f] obtain es1
    where e1: "carried w w2 es1" "es1 = batch \<or> es1 = [] \<and> r2 \<noteq> None" by blast
  show ?case
  proof (cases r2)
    case (Some e)
    with "3.prems"(2) f have "w' = w2" "r = Some e" by simp_all
    with e1 show ?thesis by (intro exI [of _ es1] exI [of _ "length es1"]) auto
  next
    case None
    with e1(2) have es1: "es1 = batch" by simp
    have q2: "quiet w2" using "3.prems"(1) e1(1) quiet_cong carried_def by metis
    from "3.prems"(2) f None have "run_state (consumeLoop c t seq [] rest) w2 = (r, w')" by simp
    from "3.IH" [OF q2 this, unfolded list.map append.simps] obtain es2 k where e2: "carried w2 w' es2"
      "map sigOf es2 = take k (numbered t seq (sent rest))"
      "r = None \<longrightarrow> map sigOf es2 = numbered t seq (sent rest)" by blast
    from carried_trans [OF e1(1) e2(1)] e2(2,3) show ?thesis
      unfolding es1 by (intro exI [of _ "batch @ es2"] exI [of _ "length batch + k"]) simp
  qed
next
  case (4 c t seq batch e rest)
  obtain r2 w2 where f: "run_state (flushBatch c t batch) w = (r2, w2)" by fastforce
  from run_flushBatch [OF "4.prems"(1) f] obtain es1
    where e1: "carried w w2 es1" "es1 = batch \<or> es1 = [] \<and> r2 \<noteq> None" by blast
  from "4.prems"(2) f have "w' = w2" "r = Some (EExec e)" by simp_all
  with e1 show ?case by (intro exI [of _ es1] exI [of _ "length es1"]) auto
qed

text \<open>C4 (a session's stream reaches log and UI alike). With no other writer, the consumer stores
  a prefix of the session's stream, in the order it was sent, under consecutive sequence numbers
  from the next free one; it hands the sink exactly the events it stored, in that order; and when
  it returns without error it has stored every event.\<close>

theorem consumer_stores_what_it_forwards:
  assumes "quiet w" "run_state (consumeEvents c t cases) w = (r, w')"
  shows "\<exists>es k. events (w_db w') = events (w_db w) @ es \<and> w_sink w' = w_sink w @ sunk w es \<and>
    map sigOf es = take k (numbered t (nextSeqOf t (w_db w)) (sent cases)) \<and>
    (r = None \<longrightarrow> map sigOf es = numbered t (nextSeqOf t (w_db w)) (sent cases))"
proof (cases "nextSeq (e_ctx (w_env w) c (w_step w)) t (w_db w)")
  case (Inl e)
  with assms show ?thesis
    by (intro exI [of _ "[]"] exI [of _ 0]) (auto simp: consumeEvents_def storeRead_def)
next
  case (Inr n)
  then have n: "n = nextSeqOf t (w_db w)" by (auto simp: nextSeq_def split: option.splits)
  let ?w = "w\<lparr>w_step := Suc (w_step w)\<rparr>"
  from assms Inr have run: "run_state (consumeLoop c t n [] cases) ?w = (r, w')"
    by (simp add: consumeEvents_def storeRead_def)
  have "quiet ?w" using assms(1) quiet_cong [of ?w w] by simp
  from run_consumeLoop [OF this run, unfolded list.map append.simps] obtain es k where "carried ?w w' es"
    "map sigOf es = take k (numbered t n (sent cases))"
    "r = None \<longrightarrow> map sigOf es = numbered t n (sent cases)"
    by blast
  then show ?thesis
    by (intro exI [of _ es] exI [of _ k]) (simp add: n carried_def sunk_def)
qed

definition quietEnv :: "(ctx_name \<Rightarrow> nat \<Rightarrow> ctx) \<Rightarrow> env" where
  "quietEnv cs = \<lparr>e_clock = (\<lambda>n. n + 100), e_ulid = (\<lambda>n. ''id'' @ replicate n (CHR ''x'')), e_ctx = cs,
     e_others = (\<lambda>_. []), e_cancel = (\<lambda>_. []), e_sink = True, e_runstate = True, e_notifier = True\<rparr>"

definition sampleWorld :: "env \<Rightarrow> db \<Rightarrow> world" where
  "sampleWorld e d = \<lparr>w_env = e, w_step = 0, w_db = d, w_sink = [], w_history = [],
     w_artifacts = [], w_notified = [], w_running = [(''t1'', False)], w_aiReviews = []\<rparr>"

lemma quiet_sample: "quiet (sampleWorld (quietEnv cs) d)"
  by (simp add: quiet_def sampleWorld_def quietEnv_def)

definition delta :: "string \<Rightarrow> chan_case" where
  "delta x = ChEvent (blankEvent EventAssistantDelta (PText x))"

theorem consumer_stores_what_it_forwards_witness:
  "map sigOf (w_sink (snd (run_state (consumeEvents TaskCtx ''t1'' [delta ''a'', ChTick, delta ''b''])
       (sampleWorld (quietEnv (\<lambda>_ _. Live)) sampleDB)))) =
   [(''t1'', 2, EventAssistantDelta, PText ''a''), (''t1'', 3, EventAssistantDelta, PText ''b'')]"
proof -
  let ?w = "sampleWorld (quietEnv (\<lambda>_ _. Live)) sampleDB"
  let ?cs = "[delta ''a'', ChTick, delta ''b'']"
  obtain r w' where run: "run_state (consumeEvents TaskCtx ''t1'' ?cs) ?w = (r, w')" by fastforce
  have "fst (run_state (consumeEvents TaskCtx ''t1'' ?cs) ?w) = None" by code_simp
  then have "r = None" by (simp add: run)
  with consumer_stores_what_it_forwards [OF quiet_sample run] obtain es
    where "w_sink w' = w_sink ?w @ sunk ?w es"
      "map sigOf es = numbered ''t1'' (nextSeqOf ''t1'' (w_db ?w)) (sent ?cs)" by blast
  then have "map sigOf (w_sink w') =
    [(''t1'', 2, EventAssistantDelta, PText ''a''), (''t1'', 3, EventAssistantDelta, PText ''b'')]"
    by (simp add: sunk_def sampleWorld_def quietEnv_def delta_def blankEvent_def nextSeqOf_def
        taskSeqs_def sample_defs)
  then show ?thesis unfolding run snd_conv .
qed

text \<open>A cancelled session loses its tail. When the context is already done, the consumer's
  last flush cannot reach the store: the events buffered since the last flush are neither stored
  nor forwarded, although the code means to save them so that the user sees what happened just
  before the cancellation.\<close>

theorem cancel_drops_buffered_events:
  assumes "quiet w" "\<forall>n \<ge> w_step w. e_ctx (w_env w) c n \<noteq> Live"
  shows "w_db (snd (run_state (consumeLoop c t seq batch (ChDone e # rest)) w)) = w_db w \<and>
    w_sink (snd (run_state (consumeLoop c t seq batch (ChDone e # rest)) w)) = w_sink w"
proof -
  obtain x where "e_ctx (w_env w) c (w_step w) = Done x"
    using assms(2) by (metis ctx.exhaust order_refl)
  then have "\<exists>x. appendBatch (e_ctx (w_env w) c (w_step w)) batch (w_db w) = Inl x \<or> batch = []"
    by (auto simp: appendBatch_def split: option.splits)
  with assms(1) show ?thesis
    by (auto simp: flushBatch_def mAppendBatch_def storeWrite_def split: sum.splits)
qed

theorem cancel_drops_buffered_events_witness:
  "\<exists>w :: world. w_db (snd (run_state (consumeLoop TaskCtx ''t1'' 2
       [(sampleEvent ''e9'')\<lparr>eSeq := 2\<rparr>] [ChDone ''context canceled'']) w)) = w_db w"
proof -
  let ?w = "sampleWorld (quietEnv (\<lambda>_ _. Done ''context canceled'')) sampleDB"
  have "\<forall>n \<ge> w_step ?w. e_ctx (w_env ?w) TaskCtx n \<noteq> Live" by (simp add: sampleWorld_def quietEnv_def)
  from cancel_drops_buffered_events [OF quiet_sample this] show ?thesis by blast
qed

text \<open>The cached counter is not protected. The consumer reads the next sequence number once.
  When any other goroutine logs an event of the same task before its next flush, that number is
  taken: the flush fails with \<open>ErrDuplicateSeq\<close>, the consumer gives up, and nothing it buffered
  or had still to read is stored.\<close>

theorem stale_counter_drops_stream:
  assumes "quiet w" "e_ctx (w_env w) c (w_step w) = Live" "batch \<noteq> []"
    "\<forall>b\<in>set batch. eventValidate b = None"
    "x \<in> set (events (w_db w))" "eTaskID x = eTaskID (hd batch)" "eSeq x = eSeq (hd batch)"
  shows "\<exists>w'. run_state (consumeLoop c t seq batch (ChTick # rest)) w = (Some EDuplicateSeq, w') \<and>
    w_db w' = w_db w \<and> w_sink w' = w_sink w"
proof -
  obtain b bs where b: "batch = b # bs" using assms(3) by (cases batch) auto
  have v: "validateAll batch = None" using assms(4) unfolding validateAll_None .
  have "insertEvent b (w_db w) = Inl EDuplicateSeq"
    using assms(5-7) by (auto simp: b insertEvent_def hasKey_iff intro!: image_eqI [of _ _ x])
  then have "appendBatch Live batch (w_db w) = Inl EDuplicateSeq"
    using v by (simp add: appendBatch_def appendChunks_eq b)
  with assms(1-3) show ?thesis
    by (simp add: flushBatch_def mAppendBatch_def storeWrite_def)
qed

theorem stale_counter_drops_stream_witness:
  "\<exists>w'. run_state (consumeLoop TaskCtx ''t1'' 2 [(sampleEvent ''e9'')\<lparr>eSeq := 1\<rparr>] [ChTick, delta ''more''])
     (sampleWorld (quietEnv (\<lambda>_ _. Live)) sampleDB) = (Some EDuplicateSeq, w') \<and> w_sink w' = []"
proof -
  let ?w = "sampleWorld (quietEnv (\<lambda>_ _. Live)) sampleDB"
  let ?b = "[(sampleEvent ''e9'')\<lparr>eSeq := 1\<rparr>]"
  have "e_ctx (w_env ?w) TaskCtx (w_step ?w) = Live" "?b \<noteq> []"
    "\<forall>b\<in>set ?b. eventValidate b = None"
    "(sampleEvent ''e1'')\<lparr>eSeq := 1\<rparr> \<in> set (events (w_db ?w))"
    "eTaskID ((sampleEvent ''e1'')\<lparr>eSeq := 1\<rparr>) = eTaskID (hd ?b)"
    "eSeq ((sampleEvent ''e1'')\<lparr>eSeq := 1\<rparr>) = eSeq (hd ?b)"
    by (simp_all add: sampleWorld_def quietEnv_def sample_defs eventValidate_def)
  from stale_counter_drops_stream [OF quiet_sample this, of "''t1''" 2 "[delta ''more'']"] show ?thesis
    by (auto simp: sampleWorld_def)
qed

end
