(* ===== verification/Planner.thy ===== *)
theory Planner
  imports Task_Model "HOL-Library.AList" "HOL-Library.Multiset"
begin

text \<open>
  The plan half of \<open>internal/copilot/planner.go\<close>: finding the JSON body in a transcript,
  \<open>normalisePlan\<close> (validation and renaming of the model's subtasks) and \<open>topoSort\<close>
  (Kahn's algorithm). ULIDs come from a third-party generator: \<open>gen n\<close> is the n-th one.
  \<open>dag_plan\<close> is the contract the scheduler relies on.
\<close>

section \<open>The JSON body of a transcript\<close>

text \<open>
  \<open>scanJSON d q e s\<close> is the number of characters up to and including the brace that closes
  depth \<open>d\<close>; \<open>q\<close>: inside a string, \<open>e\<close>: after a backslash there.
\<close>

fun scanJSON :: "int \<Rightarrow> bool \<Rightarrow> bool \<Rightarrow> string \<Rightarrow> nat option" where
  "scanJSON d q e [] = None"
| "scanJSON d q e (c # cs) =
     (if q then
        map_option Suc
          (if e then scanJSON d True False cs
           else if c = CHR 0x5C then scanJSON d True True cs
           else if c = CHR 0x22 then scanJSON d False e cs
           else scanJSON d True e cs)
      else if c = CHR 0x22 then map_option Suc (scanJSON d True e cs)
      else if c = CHR ''{'' then map_option Suc (scanJSON (d + 1) q e cs)
      else if c = CHR ''}'' then
        (if d - 1 = 0 then Some 1 else map_option Suc (scanJSON (d - 1) q e cs))
      else map_option Suc (scanJSON d q e cs))"

definition firstBalancedJSON :: "string \<Rightarrow> string" where
  "firstBalancedJSON s =
     (let t = dropWhile (\<lambda>c. c \<noteq> CHR ''{'') s
      in if t = [] then []
         else case scanJSON 0 False False t of None \<Rightarrow> [] | Some n \<Rightarrow> take n t)"

datatype plan_error =
    PNoJSON | PEmptyPlan | PExceedsCap nat | PMissingID | PDuplicateID string
  | PMissingTitle string | PMissingRole string | PForbiddenRole string string
  | PSelfDep string | PUnknownDep string string | PCycle

text \<open>\<open>tagged\<close> is the match of the PLAN_JSON regular expression, if there is one.\<close>

definition extractPlanJSON :: "(string \<Rightarrow> string option) \<Rightarrow> string \<Rightarrow> plan_error + string \<times> bool" where
  "extractPlanJSON tagged transcript =
     (case tagged transcript of
        Some m \<Rightarrow> Inr (m, False)
      | None \<Rightarrow>
        (let b = firstBalancedJSON transcript
         in if b \<noteq> [] then Inr (b, True) else Inl PNoJSON))"

section \<open>Topological sort\<close>

record planner_node =
  pnSub :: subtask
  pnRawDeps :: "string list"

definition successorsOf :: "(string \<times> planner_node) list \<Rightarrow> string \<Rightarrow> string list" where
  "successorsOf nodes d =
     sort (concat (map (\<lambda>(i, n). map (\<lambda>_. i) (filter (\<lambda>x. x = d) (pnRawDeps n))) nodes))"

definition indegOf :: "(string \<times> planner_node) list \<Rightarrow> string \<Rightarrow> int" where
  "indegOf nodes i = (case map_of nodes i of None \<Rightarrow> 0 | Some n \<Rightarrow> int (length (pnRawDeps n)))"

fun relax :: "string list \<Rightarrow> (string \<Rightarrow> int) \<Rightarrow> string list \<Rightarrow> (string \<Rightarrow> int) \<times> string list" where
  "relax [] g r = (g, r)"
| "relax (s # ss) g r =
     (let g' = g(s := g s - 1)
      in relax ss g' (if g' s = 0 then r @ [s] else r))"

text \<open>One iteration per popped id; \<open>None\<close> is "out of fuel".\<close>

fun kahn ::
  "nat \<Rightarrow> (string \<Rightarrow> string list) \<Rightarrow> (string \<Rightarrow> int) \<Rightarrow> string list \<Rightarrow> string list \<Rightarrow> string list option" where
  "kahn fuel succs g [] out = Some out"
| "kahn 0 succs g (i # ready) out = None"
| "kahn (Suc fuel) succs g (i # ready) out =
     (case relax (succs i) g ready of (g', ready') \<Rightarrow> kahn fuel succs g' ready' (out @ [i]))"

definition topoIds :: "(string \<times> planner_node) list \<Rightarrow> string list option" where
  "topoIds nodes =
     kahn (length nodes) (successorsOf nodes) (indegOf nodes)
       (filter (\<lambda>i. indegOf nodes i = 0) (sort (map fst nodes))) []"

definition topoSort :: "(string \<times> planner_node) list \<Rightarrow> plan_error + subtask list" where
  "topoSort nodes =
     (case topoIds nodes of
        None \<Rightarrow> Inl PCycle
      | Some out \<Rightarrow>
        if length out \<noteq> length nodes then Inl PCycle
        else Inr (map (\<lambda>i. pnSub (the (map_of nodes i))) out))"

section \<open>normalisePlan\<close>

record raw_subtask =
  rwID :: string
  rwTitle :: string
  rwAgentRole :: string
  rwDependsOn :: "string list"
  rwWritePaths :: "string list"
  rwPrompt :: string

definition MaxPlannerSubtasks :: nat where
  "MaxPlannerSubtasks = 40"

fun assignIDs ::
  "(nat \<Rightarrow> string) \<Rightarrow> nat \<Rightarrow> raw_subtask list \<Rightarrow> (string \<times> string) list \<Rightarrow>
     plan_error + (string \<times> string) list" where
  "assignIDs gen n [] m = Inr m"
| "assignIDs gen n (r # rs) m =
     (let i = trimSpace (rwID r)
      in if i = [] then Inl PMissingID
         else if map_of m i \<noteq> None then Inl (PDuplicateID i)
         else assignIDs gen (Suc n) rs (m @ [(i, gen n)]))"

text \<open>\<open>strings.ToLower\<close> as far as comparing with ASCII text can see it: the ASCII capitals
  and the two other code points whose lower case is ASCII (U+0130 and U+212A).\<close>

fun asciiLower :: "string \<Rightarrow> string" where
  "asciiLower [] = []"
| "asciiLower (c # cs) =
     (if hasPrefix (c # cs) [CHR 0xC4, CHR 0xB0] then CHR ''i'' # asciiLower (drop 1 cs)
      else if hasPrefix (c # cs) [CHR 0xE2, CHR 0x84, CHR 0xAA] then CHR ''k'' # asciiLower (drop 2 cs)
      else (if CHR ''A'' \<le> c \<and> c \<le> CHR ''Z'' then char_of (of_char c + 32 :: nat) else c)
             # asciiLower cs)"

definition forbiddenRole :: "string \<Rightarrow> bool" where
  "forbiddenRole role = (asciiLower role \<in> {''reviewer'', ''ai_reviewer'', ''ai-reviewer''})"

fun mapDeps :: "(string \<times> string) list \<Rightarrow> string \<Rightarrow> string list \<Rightarrow> plan_error + string list" where
  "mapDeps m i [] = Inr []"
| "mapDeps m i (d0 # ds) =
     (let d = trimSpace d0
      in if d = [] then mapDeps m i ds
         else if d = i then Inl (PSelfDep i)
         else case map_of m d of
                None \<Rightarrow> Inl (PUnknownDep i d)
              | Some u \<Rightarrow> (case mapDeps m i ds of Inl e \<Rightarrow> Inl e | Inr us \<Rightarrow> Inr (u # us)))"

fun dedupPaths :: "string list \<Rightarrow> string list \<Rightarrow> string list" where
  "dedupPaths seen [] = []"
| "dedupPaths seen (p0 # ps) =
     (let p = trimSpace p0
      in if p = [] then dedupPaths seen ps
         else if p \<in> set seen then dedupPaths seen ps
         else p # dedupPaths (p # seen) ps)"

definition buildNode ::
  "(string \<times> string) list \<Rightarrow> string \<Rightarrow> raw_subtask \<Rightarrow> plan_error + string \<times> planner_node" where
  "buildNode m parent r =
     (let title = trimSpace (rwTitle r); role = trimSpace (rwAgentRole r)
      in if title = [] then Inl (PMissingTitle (rwID r))
         else if role = [] then Inl (PMissingRole (rwID r))
         else if forbiddenRole role then Inl (PForbiddenRole (rwID r) role)
         else case mapDeps m (rwID r) (rwDependsOn r) of
           Inl e \<Rightarrow> Inl e
         | Inr deps \<Rightarrow>
           (let u = (case map_of m (rwID r) of None \<Rightarrow> [] | Some u \<Rightarrow> u)
            in Inr (u, \<lparr>pnSub = \<lparr>sID = u, sTaskID = parent, sTitle = title, sAgentRole = role,
                 sDependsOn = deps, sWritePaths = dedupPaths [] (rwWritePaths r),
                 sStatus = SubtaskPending, sOrderIdx = 0, sCodeModel = [], sRound = 0,
                 sPrompt = trimSpace (rwPrompt r), sCreatedAt = 0, sUpdatedAt = 0\<rparr>,
                 pnRawDeps = deps\<rparr>)))"

fun buildNodes ::
  "(string \<times> string) list \<Rightarrow> string \<Rightarrow> raw_subtask list \<Rightarrow> (string \<times> planner_node) list \<Rightarrow>
     plan_error + (string \<times> planner_node) list" where
  "buildNodes m parent [] nodes = Inr nodes"
| "buildNodes m parent (r # rs) nodes =
     (case buildNode m parent r of
        Inl e \<Rightarrow> Inl e
      | Inr (u, n) \<Rightarrow> buildNodes m parent rs (AList.update u n nodes))"

definition numberPlan :: "subtask list \<Rightarrow> subtask list" where
  "numberPlan ss = map (\<lambda>(k, s). s\<lparr>sOrderIdx := int k\<rparr>) (enumerate 0 ss)"

definition normalisePlan ::
  "(nat \<Rightarrow> string) \<Rightarrow> string \<Rightarrow> raw_subtask list \<Rightarrow> plan_error + subtask list" where
  "normalisePlan gen parent raw =
     (if raw = [] then Inl PEmptyPlan
      else if length raw > MaxPlannerSubtasks then Inl (PExceedsCap (length raw))
      else case assignIDs gen 0 raw [] of
        Inl e \<Rightarrow> Inl e
      | Inr m \<Rightarrow>
        (case buildNodes m parent raw [] of
           Inl e \<Rightarrow> Inl e
         | Inr nodes \<Rightarrow>
           (case topoSort nodes of
              Inl e \<Rightarrow> Inl e
            | Inr ordered \<Rightarrow> Inr (numberPlan ordered))))"

section \<open>Kahn's algorithm\<close>

definition depsOf :: "(string \<times> planner_node) list \<Rightarrow> string \<Rightarrow> string list" where
  "depsOf nodes i = (case map_of nodes i of None \<Rightarrow> [] | Some n \<Rightarrow> pnRawDeps n)"

lemma indegOf_depsOf: "indegOf nodes i = int (length (depsOf nodes i))"
  by (simp add: indegOf_def depsOf_def split: option.splits)

lemma count_list_replicate_filter:
  "count_list (map (\<lambda>_. i) (filter (\<lambda>x. x = d) ds)) j = (if i = j then count_list ds d else 0)"
  by (induction ds) auto

lemma count_list_sort: "count_list (sort xs) (x::'a::linorder) = count_list xs x"
  by (simp flip: count_mset)

lemma count_successors:
  assumes "distinct (map fst nodes)"
  shows "count_list (successorsOf nodes d) i = count_list (depsOf nodes i) d"
  using assms unfolding successorsOf_def count_list_sort
proof (induction nodes)
  case Nil
  then show ?case by (simp add: depsOf_def)
next
  case (Cons a nodes)
  obtain j n where a: "a = (j, n)" by (cases a)
  from Cons.prems a have nj: "map_of nodes j = None" by (simp add: map_of_eq_None_iff)
  from Cons a nj show ?case
    by (auto simp: depsOf_def count_list_replicate_filter)
qed

lemma relax_indeg: "relax ss g r = (g', r') \<Longrightarrow> g' y = g y - int (count_list ss y)"
  by (induction ss arbitrary: g r) (auto simp: Let_def)

lemma relax_ready:
  "relax ss g r = (g', r') \<Longrightarrow> \<forall>y. int (count_list ss y) \<le> g y \<Longrightarrow>
     \<exists>new. r' = r @ new \<and> distinct new \<and> set new = {y \<in> set ss. g y = int (count_list ss y)}"
proof (induction ss arbitrary: g r)
  case Nil
  then show ?case by simp
next
  case (Cons s ss)
  let ?g = "g(s := g s - 1)"
  have le: "\<forall>y. int (count_list ss y) \<le> ?g y"
  proof
    fix y
    from Cons.prems(2) have "int (count_list (s # ss) y) \<le> g y" by blast
    then show "int (count_list ss y) \<le> ?g y" by (auto split: if_splits)
  qed
  let ?r = "if ?g s = 0 then r @ [s] else r"
  from Cons.prems(1) have "relax ss ?g ?r = (g', r')" by (simp add: Let_def)
  from Cons.IH [OF this le] obtain new where new: "r' = ?r @ new" "distinct new"
    "set new = {y \<in> set ss. ?g y = int (count_list ss y)}" by blast
  have notin: "s \<notin> set ss" if "?g s = 0"
    using le that by (metis count_list_0_iff fun_upd_same of_nat_0_eq_iff of_nat_0_le_iff order_antisym_conv)
  show ?case
  proof (cases "?g s = 0")
    case True
    have "r' = r @ (s # new)" using new(1) True by simp
    moreover have sn: "s \<notin> set ss" using True by (rule notin)
    moreover have "distinct (s # new)" using new sn by simp
    moreover have "set (s # new) = {y \<in> set (s # ss). g y = int (count_list (s # ss) y)}"
    proof -
      have "g s = int (count_list (s # ss) s)" using True sn by simp
      moreover have "{y \<in> set ss. ?g y = int (count_list ss y)} =
          {y \<in> set ss. g y = int (count_list (s # ss) y)}"
        using sn by auto
      ultimately show ?thesis using new(3) by auto
    qed
    ultimately show ?thesis by blast
  next
    case False
    with new(1) have "r' = r @ new" by simp
    moreover have "set new = {y \<in> set (s # ss). g y = int (count_list (s # ss) y)}"
    proof -
      have "s \<in> set ss" if "g s = int (count_list (s # ss) s)"
        using that False by (auto simp: count_list_0_iff intro: ccontr)
      then show ?thesis unfolding new(3) by auto
    qed
    ultimately show ?thesis using new(2) by blast
  qed
qed

text \<open>
  The loop invariant: output and queue hold distinct known ids; \<open>g i\<close> counts the
  dependencies of \<open>i\<close> not yet put out; an id is out or queued exactly when that is 0; and
  every id put out comes after all its dependencies.
\<close>

definition pending :: "(string \<times> planner_node) list \<Rightarrow> string list \<Rightarrow> string \<Rightarrow> string list" where
  "pending nodes out i = filter (\<lambda>d. d \<notin> set out) (depsOf nodes i)"

definition kahnInv ::
  "(string \<times> planner_node) list \<Rightarrow> (string \<Rightarrow> int) \<Rightarrow> string list \<Rightarrow> string list \<Rightarrow> bool" where
  "kahnInv nodes g ready out \<longleftrightarrow>
     distinct (out @ ready) \<and> set (out @ ready) \<subseteq> fst ` set nodes \<and>
     (\<forall>i. g i = int (length (pending nodes out i))) \<and>
     (\<forall>i \<in> fst ` set nodes. i \<in> set (out @ ready) \<longleftrightarrow> pending nodes out i = []) \<and>
     (\<forall>k < length out. set (depsOf nodes (out ! k)) \<subseteq> set (take k out))"

lemma pending_snoc:
  "length (pending nodes (out @ [x]) i) =
     length (pending nodes out i) - (if x \<in> set out then 0 else count_list (depsOf nodes i) x)"
proof -
  have "length (filter (\<lambda>d. d \<notin> set out \<and> d \<noteq> x) ds) =
      length (filter (\<lambda>d. d \<notin> set out) ds) - (if x \<in> set out then 0 else count_list ds x)" and
    "x \<notin> set out \<Longrightarrow> count_list ds x \<le> length (filter (\<lambda>d. d \<notin> set out) ds)" for ds
    by (induction ds) (auto simp: Suc_diff_le)
  then show ?thesis by (simp add: pending_def conj_commute)
qed

lemma pending_count: "x \<notin> set out \<Longrightarrow> count_list (depsOf nodes i) x \<le> length (pending nodes out i)"
proof -
  have "x \<notin> set out \<Longrightarrow> count_list ds x \<le> length (filter (\<lambda>d. d \<notin> set out) ds)" for ds
    by (induction ds) auto
  then show "x \<notin> set out \<Longrightarrow> ?thesis" by (simp add: pending_def)
qed

lemma depsOf_mem:
  "u \<in> set (depsOf nodes i) \<Longrightarrow> \<exists>n. map_of nodes i = Some n \<and> u \<in> set (pnRawDeps n)"
  by (cases "map_of nodes i") (simp_all add: depsOf_def)

lemma depsOf_unknown: "i \<notin> fst ` set nodes \<Longrightarrow> depsOf nodes i = []"
  by (metis depsOf_def map_of_eq_None_iff option.simps(4))

lemma kahnInv_step:
  assumes nodes: "distinct (map fst nodes)" and inv: "kahnInv nodes g (x # ready) out"
    and rl: "relax (successorsOf nodes x) g ready = (g', ready')"
  shows "kahnInv nodes g' ready' (out @ [x])"
proof -
  let ?s = "successorsOf nodes x"
  have xout: "x \<notin> set out" and xk: "x \<in> fst ` set nodes" and xp: "pending nodes out x = []"
    using inv by (auto simp: kahnInv_def)
  have g: "g i = int (length (pending nodes out i))" for i using inv by (simp add: kahnInv_def)
  have cnt: "count_list ?s i = count_list (depsOf nodes i) x" for i
    using nodes by (rule count_successors)
  have le: "\<forall>y. int (count_list ?s y) \<le> g y"
    by (simp add: g cnt pending_count [OF xout])
  have g': "g' i = int (length (pending nodes (out @ [x]) i))" for i
    using relax_indeg [OF rl, of i] pending_count [OF xout, of nodes i]
    by (simp add: g cnt pending_snoc xout of_nat_diff)
  from relax_ready [OF rl le] obtain new where new: "ready' = ready @ new" "distinct new"
    and setnew: "set new = {y \<in> set ?s. g y = int (count_list ?s y)}" by blast
  have mem_s: "y \<in> set ?s \<longleftrightarrow> count_list (depsOf nodes y) x \<noteq> 0" for y
    by (metis cnt count_list_0_iff)
  have new_iff: "y \<in> set new \<longleftrightarrow> pending nodes (out @ [x]) y = [] \<and> pending nodes out y \<noteq> []" for y
  proof -
    have "length (pending nodes (out @ [x]) y) =
        length (pending nodes out y) - count_list (depsOf nodes y) x"
      by (simp add: pending_snoc xout)
    then have "pending nodes (out @ [x]) y = [] \<longleftrightarrow>
        length (pending nodes out y) \<le> count_list (depsOf nodes y) x"
      by (metis diff_is_0_eq length_0_conv)
    moreover have "y \<in> set new \<longleftrightarrow> count_list (depsOf nodes y) x \<noteq> 0 \<and>
        length (pending nodes out y) = count_list (depsOf nodes y) x"
      unfolding setnew by (simp add: mem_s g cnt)
    ultimately show ?thesis
      using pending_count [OF xout, of nodes y] by (metis le_antisym length_0_conv order_refl)
  qed
  have newk: "set new \<subseteq> fst ` set nodes"
    using depsOf_unknown by (auto simp: new_iff pending_def) (metis filter.simps(1))
  have olds: "\<forall>i \<in> fst ` set nodes. i \<in> set (out @ x # ready) \<longleftrightarrow> pending nodes out i = []"
    using inv by (simp add: kahnInv_def)
  have mono: "pending nodes out i = [] \<Longrightarrow> pending nodes (out @ [x]) i = []" for i
    by (simp add: pending_def filter_empty_conv)
  have disj: "set new \<inter> set (out @ x # ready) = {}"
  proof -
    have False if y: "y \<in> set new" "y \<in> set (out @ x # ready)" for y
    proof -
      from y(1) newk have "y \<in> fst ` set nodes" by blast
      with olds y(2) have "pending nodes out y = []" by blast
      with y(1) show False by (simp add: new_iff)
    qed
    then show ?thesis by blast
  qed
  have "distinct ((out @ [x]) @ ready')"
    using inv new disj by (auto simp: kahnInv_def)
  moreover have "set ((out @ [x]) @ ready') \<subseteq> fst ` set nodes"
    using inv new newk by (auto simp: kahnInv_def)
  moreover have "\<forall>i \<in> fst ` set nodes.
      i \<in> set ((out @ [x]) @ ready') \<longleftrightarrow> pending nodes (out @ [x]) i = []"
    using olds mono new_iff unfolding new by auto
  moreover have "\<forall>k < length (out @ [x]). set (depsOf nodes ((out @ [x]) ! k)) \<subseteq> set (take k (out @ [x]))"
    using inv xp by (auto simp: kahnInv_def nth_append less_Suc_eq pending_def filter_empty_conv)
  ultimately show ?thesis
    using g' by (simp add: kahnInv_def)
qed

lemma kahn_correct:
  assumes "distinct (map fst nodes)" "kahnInv nodes g ready out" "length nodes \<le> fuel + length out"
  shows "\<exists>out' g'. kahn fuel (successorsOf nodes) g ready out = Some out' \<and> kahnInv nodes g' [] out'"
  using assms(2,3)
proof (induction fuel arbitrary: g ready out)
  case 0
  show ?case
  proof (cases ready)
    case Nil
    with 0 show ?thesis by auto
  next
    case (Cons i is')
    from 0 Cons have "distinct (out @ ready)" "set (out @ ready) \<subseteq> set (map fst nodes)"
      by (auto simp: kahnInv_def)
    then have "length (out @ ready) \<le> length (map fst nodes)"
      using assms(1) by (metis card_mono distinct_card finite_set)
    with 0 Cons show ?thesis by simp
  qed
next
  case (Suc fuel)
  show ?case
  proof (cases ready)
    case Nil
    with Suc.prems show ?thesis by auto
  next
    case (Cons i is')
    obtain g' r' where rl: "relax (successorsOf nodes i) g is' = (g', r')"
      by (cases "relax (successorsOf nodes i) g is'")
    from kahnInv_step [OF assms(1) _ rl] Suc.prems Cons have "kahnInv nodes g' r' (out @ [i])"
      by simp
    from Suc.IH [OF this] Suc.prems(2) Cons rl show ?thesis by simp
  qed
qed

lemma kahnInv_init:
  assumes "distinct (map fst nodes)"
  shows "kahnInv nodes (indegOf nodes) (filter (\<lambda>i. indegOf nodes i = 0) (sort (map fst nodes))) []"
  using assms by (auto simp: kahnInv_def pending_def indegOf_depsOf)

lemma topoIds_correct:
  assumes "distinct (map fst nodes)"
  obtains out g where "topoIds nodes = Some out" "kahnInv nodes g [] out"
  using kahn_correct [OF assms kahnInv_init [OF assms]] that by (auto simp: topoIds_def)

lemma topoSort_InrD:
  assumes "distinct (map fst nodes)" "topoSort nodes = Inr ss"
  obtains out where "ss = map (\<lambda>i. pnSub (the (map_of nodes i))) out" "distinct out"
    "set out = fst ` set nodes"
    "\<forall>k < length out. set (depsOf nodes (out ! k)) \<subseteq> set (take k out)"
proof -
  obtain out g where out: "topoIds nodes = Some out" "kahnInv nodes g [] out"
    using topoIds_correct [OF assms(1)] .
  with assms(2) have ss: "ss = map (\<lambda>i. pnSub (the (map_of nodes i))) out"
    and len: "length out = length nodes" by (auto simp: topoSort_def split: if_splits)
  from out(2) have d: "distinct out" "set out \<subseteq> fst ` set nodes" by (auto simp: kahnInv_def)
  have "card (fst ` set nodes) = length nodes"
    using assms(1) by (metis distinct_card length_map list.set_map)
  with d len have "set out = fst ` set nodes"
    by (metis card_subset_eq distinct_card finite_imageI finite_set)
  with that [OF ss d(1)] out(2) show ?thesis by (simp add: kahnInv_def)
qed

text \<open>Success: an acyclic graph with no dangling dependency is sorted.\<close>

lemma topoSort_complete:
  assumes nd: "distinct (map fst nodes)"
    and closed: "\<And>i d. d \<in> set (depsOf nodes i) \<Longrightarrow> d \<in> fst ` set nodes"
    and rank: "\<And>i d. d \<in> set (depsOf nodes i) \<Longrightarrow> (rk d :: nat) < rk i"
  shows "\<exists>ss. topoSort nodes = Inr ss"
proof -
  obtain out g where out: "topoIds nodes = Some out" and inv: "kahnInv nodes g [] out"
    using topoIds_correct [OF nd] .
  have "i \<in> fst ` set nodes \<Longrightarrow> i \<in> set out" for i
  proof (induction "rk i" arbitrary: i rule: less_induct)
    case less
    have "d \<in> set out" if "d \<in> set (depsOf nodes i)" for d
      using less(1) [OF rank [OF that] closed [OF that]] .
    then have "pending nodes out i = []" by (simp add: pending_def filter_empty_conv)
    with inv less(2) show ?case by (auto simp: kahnInv_def)
  qed
  then have "set out = set (map fst nodes)" using inv by (auto simp: kahnInv_def)
  moreover have "distinct out" using inv by (simp add: kahnInv_def)
  ultimately have "length out = length nodes"
    using nd by (metis distinct_card length_map)
  with out show ?thesis by (simp add: topoSort_def)
qed

section \<open>normalisePlan\<close>

definition nodesOk :: "string \<Rightarrow> (string \<times> planner_node) list \<Rightarrow> bool" where
  "nodesOk parent nodes \<longleftrightarrow> distinct (map fst nodes) \<and>
     (\<forall>(u, n) \<in> set nodes. sID (pnSub n) = u \<and> sDependsOn (pnSub n) = pnRawDeps n \<and>
        sTaskID (pnSub n) = parent \<and> sStatus (pnSub n) = SubtaskPending \<and> sTitle (pnSub n) \<noteq> [])"

lemma set_update_subset: "set (AList.update k v al) \<subseteq> insert (k, v) (set al)"
  by (induction al) auto

lemma update_fresh: "k \<notin> fst ` set al \<Longrightarrow> AList.update k v al = al @ [(k, v)]"
  by (induction al) auto

lemma buildNode_InrD:
  "buildNode m parent r = Inr (u, n) \<Longrightarrow>
     sID (pnSub n) = u \<and> sDependsOn (pnSub n) = pnRawDeps n \<and> sTaskID (pnSub n) = parent \<and>
     sStatus (pnSub n) = SubtaskPending \<and> sTitle (pnSub n) \<noteq> []"
  by (auto simp: buildNode_def Let_def split: if_splits sum.splits)

lemma nodesOk_update:
  assumes "nodesOk parent nodes" "buildNode m parent r = Inr (u, n)"
  shows "nodesOk parent (AList.update u n nodes)"
proof -
  have "distinct (map fst (AList.update u n nodes))"
    using assms(1) by (simp add: nodesOk_def distinct_update)
  moreover have "\<forall>(v, k) \<in> insert (u, n) (set nodes). sID (pnSub k) = v \<and>
      sDependsOn (pnSub k) = pnRawDeps k \<and> sTaskID (pnSub k) = parent \<and>
      sStatus (pnSub k) = SubtaskPending \<and> sTitle (pnSub k) \<noteq> []"
    using assms(1) buildNode_InrD [OF assms(2)] by (simp add: nodesOk_def)
  ultimately show ?thesis
    unfolding nodesOk_def using set_update_subset [of u n nodes] by blast
qed

lemma buildNodes_ok:
  "buildNodes m parent rs nodes = Inr nodes' \<Longrightarrow> nodesOk parent nodes \<Longrightarrow> nodesOk parent nodes'"
  by (induction rs arbitrary: nodes) (auto split: sum.splits intro: nodesOk_update)

lemma numberPlan_nth:
  "k < length ss \<Longrightarrow> numberPlan ss ! k = (ss ! k)\<lparr>sOrderIdx := int k\<rparr>"
  by (simp add: numberPlan_def nth_enumerate_eq)

lemma length_numberPlan [simp]: "length (numberPlan ss) = length ss"
  by (simp add: numberPlan_def)

lemma map_sID_numberPlan: "map sID (numberPlan ss) = map sID ss"
  by (rule nth_equalityI) (simp_all add: numberPlan_nth)

lemma nodes_lookup:
  assumes "nodesOk parent nodes" "i \<in> fst ` set nodes"
  obtains n where "map_of nodes i = Some n" "sID (pnSub n) = i"
    "sDependsOn (pnSub n) = depsOf nodes i" "sTaskID (pnSub n) = parent"
    "sStatus (pnSub n) = SubtaskPending" "sTitle (pnSub n) \<noteq> []"
proof -
  from assms(2) obtain n where n: "map_of nodes i = Some n"
    by (metis map_of_eq_None_iff option.exhaust)
  then have "(i, n) \<in> set nodes" by (rule map_of_SomeD)
  with assms(1) n show ?thesis by (intro that) (auto simp: nodesOk_def depsOf_def)
qed

lemma topoSort_plan:
  assumes ok: "nodesOk parent nodes" and ts: "topoSort nodes = Inr ss"
  shows "distinct (map sID ss)"
    and "k < length ss \<Longrightarrow> set (sDependsOn (ss ! k)) \<subseteq> sID ` set (take k ss)"
    and "\<forall>s\<in>set ss. sTaskID s = parent \<and> sStatus s = SubtaskPending \<and> sTitle s \<noteq> []"
    and "set (map sID ss) = fst ` set nodes"
proof -
  from ok have "distinct (map fst nodes)" by (simp add: nodesOk_def)
  from topoSort_InrD [OF this ts] obtain out
    where ss: "ss = map (\<lambda>i. pnSub (the (map_of nodes i))) out" and out: "distinct out"
      "set out = fst ` set nodes" "\<forall>k < length out. set (depsOf nodes (out ! k)) \<subseteq> set (take k out)"
    by blast
  have look: "sID (pnSub (the (map_of nodes i))) = i \<and>
      sDependsOn (pnSub (the (map_of nodes i))) = depsOf nodes i \<and>
      sTaskID (pnSub (the (map_of nodes i))) = parent \<and>
      sStatus (pnSub (the (map_of nodes i))) = SubtaskPending \<and>
      sTitle (pnSub (the (map_of nodes i))) \<noteq> []" if "i \<in> set out" for i
    using that nodes_lookup [OF ok, of i] out(2) by (metis option.sel)
  have ids: "map sID ss = out" unfolding ss by (simp add: map_idI look)
  show "distinct (map sID ss)" using ids out(1) by simp
  show "set (map sID ss) = fst ` set nodes" using ids out(2) by simp
  show "\<forall>s\<in>set ss. sTaskID s = parent \<and> sStatus s = SubtaskPending \<and> sTitle s \<noteq> []"
    unfolding ss using look by auto
  assume k: "k < length ss"
  then have "sDependsOn (ss ! k) = depsOf nodes (out ! k)" by (simp add: ss look)
  moreover have "sID ` set (take k ss) = set (take k out)"
    by (metis ids list.set_map take_map)
  ultimately show "set (sDependsOn (ss ! k)) \<subseteq> sID ` set (take k ss)"
    using out(3) k ss by auto
qed

lemma normalisePlan_InrD:
  assumes "normalisePlan gen parent raw = Inr ss"
  obtains nodes ss0 where "nodesOk parent nodes" "topoSort nodes = Inr ss0" "ss = numberPlan ss0"
proof -
  from assms obtain m nodes ss0 where "buildNodes m parent raw [] = Inr nodes"
    "topoSort nodes = Inr ss0" "ss = numberPlan ss0"
    by (auto simp: normalisePlan_def split: if_splits sum.splits)
  moreover have "nodesOk parent []" by (simp add: nodesOk_def)
  ultimately show ?thesis using that buildNodes_ok by blast
qed

lemma normalisePlan_dag:
  assumes "normalisePlan gen parent raw = Inr ss"
  shows "distinct (map sID ss)"
    and "k < length ss \<Longrightarrow> set (sDependsOn (ss ! k)) \<subseteq> sID ` set (take k ss)"
    and "k < length ss \<Longrightarrow> sOrderIdx (ss ! k) = int k \<and> sTaskID (ss ! k) = parent \<and>
           sStatus (ss ! k) = SubtaskPending \<and> sTitle (ss ! k) \<noteq> []"
proof -
  from assms obtain nodes ss0
    where ok: "nodesOk parent nodes" and ts: "topoSort nodes = Inr ss0" and ss: "ss = numberPlan ss0"
    by (rule normalisePlan_InrD)
  note t = topoSort_plan [OF ok ts]
  show "distinct (map sID ss)" using t(1) by (simp add: ss map_sID_numberPlan)
  assume k: "k < length ss"
  have "sID ` set (take k ss) = sID ` set (take k ss0)"
    by (metis list.set_map map_sID_numberPlan ss take_map)
  then show "set (sDependsOn (ss ! k)) \<subseteq> sID ` set (take k ss)"
    using t(2) [of k] k by (simp add: ss numberPlan_nth)
  show "sOrderIdx (ss ! k) = int k \<and> sTaskID (ss ! k) = parent \<and>
      sStatus (ss ! k) = SubtaskPending \<and> sTitle (ss ! k) \<noteq> []"
    using t(3) k by (simp add: ss numberPlan_nth)
qed

section \<open>The contract of a plan\<close>

text \<open>
  What the executor may assume of the list a planner returns: distinct names, and every
  dependency named earlier in the list. Then work never gets stuck: as long as something
  remains, something that remains has all its dependencies done.
\<close>

locale dag_plan =
  fixes plan :: "'i \<Rightarrow> 'e + 'n list"
    and name :: "'n \<Rightarrow> 'k"
    and deps :: "'n \<Rightarrow> 'k list"
  assumes plan_distinct: "plan i = Inr ns \<Longrightarrow> distinct (map name ns)"
    and plan_deps: "plan i = Inr ns \<Longrightarrow> k < length ns \<Longrightarrow>
      set (deps (ns ! k)) \<subseteq> name ` set (take k ns)"
begin

lemma ready_exists:
  assumes "plan i = Inr ns" "\<exists>n\<in>set ns. name n \<notin> finished"
  shows "\<exists>n\<in>set ns. name n \<notin> finished \<and> set (deps n) \<subseteq> finished"
proof -
  define k where "k = (LEAST k. k < length ns \<and> name (ns ! k) \<notin> finished)"
  from assms(2) obtain j where "j < length ns \<and> name (ns ! j) \<notin> finished"
    by (auto simp: in_set_conv_nth)
  then have k: "k < length ns \<and> name (ns ! k) \<notin> finished" unfolding k_def by (rule LeastI)
  have "name (ns ! j) \<in> finished" if "j < k" for j
    using not_less_Least [of j "\<lambda>k. k < length ns \<and> name (ns ! k) \<notin> finished"] that k
    by (auto simp flip: k_def)
  then have "name ` set (take k ns) \<subseteq> finished"
    using k by (auto simp: in_set_conv_nth)
  with plan_deps [OF assms(1)] k show ?thesis by (meson nth_mem subset_trans)
qed

lemma no_self_dep: "plan i = Inr ns \<Longrightarrow> n \<in> set ns \<Longrightarrow> name n \<notin> set (deps n)"
proof
  assume p: "plan i = Inr ns" and n: "n \<in> set ns" and d: "name n \<in> set (deps n)"
  from n obtain k where k: "k < length ns" "ns ! k = n" by (auto simp: in_set_conv_nth)
  with plan_deps [OF p k(1)] d have "name n \<in> name ` set (take k ns)" by blast
  then obtain j where "j < k" "name (ns ! j) = name (ns ! k)"
    using k by (auto simp: in_set_conv_nth)
  with plan_distinct [OF p] k(1) show False
    by (metis length_map less_trans nat_less_le nth_eq_iff_index_eq nth_map)
qed

end

interpretation np: dag_plan "\<lambda>(gen, parent, raw). normalisePlan gen parent raw" sID sDependsOn
  by unfold_locales (auto intro: normalisePlan_dag(1) dest: normalisePlan_dag(2))

section \<open>Every well-formed plan is accepted\<close>

definition planOk :: "(string \<Rightarrow> nat) \<Rightarrow> raw_subtask list \<Rightarrow> bool" where
  "planOk rk raw \<longleftrightarrow> raw \<noteq> [] \<and> length raw \<le> MaxPlannerSubtasks \<and> distinct (map rwID raw) \<and>
     (\<forall>r\<in>set raw. rwID r \<noteq> [] \<and> trimSpace (rwID r) = rwID r \<and> trimSpace (rwTitle r) \<noteq> [] \<and>
        trimSpace (rwAgentRole r) \<noteq> [] \<and> \<not> forbiddenRole (trimSpace (rwAgentRole r)) \<and>
        (\<forall>d\<in>set (rwDependsOn r). trimSpace d = [] \<or>
           (trimSpace d \<in> set (map rwID raw) \<and> rk (trimSpace d) < rk (rwID r))))"

lemma assignIDs_ok:
  "\<forall>r\<in>set rs. rwID r \<noteq> [] \<and> trimSpace (rwID r) = rwID r \<Longrightarrow>
   distinct (map fst m @ map rwID rs) \<Longrightarrow>
   assignIDs gen n rs m = Inr (m @ map (\<lambda>(k, r). (rwID r, gen k)) (enumerate n rs))"
proof (induction rs arbitrary: n m)
  case Nil
  then show ?case by simp
next
  case (Cons r rs)
  have "map_of m (rwID r) = None" using Cons.prems(2) by (auto simp: map_of_eq_None_iff)
  then show ?case
    using Cons.prems Cons.IH [of "m @ [(rwID r, gen n)]" "Suc n"] by (simp add: Let_def)
qed

definition renaming :: "(nat \<Rightarrow> string) \<Rightarrow> raw_subtask list \<Rightarrow> (string \<times> string) list" where
  "renaming gen raw = map (\<lambda>(k, r). (rwID r, gen k)) (enumerate 0 raw)"

lemma map_fst_renaming: "map fst (renaming gen raw) = map rwID raw"
proof -
  have "map fst (renaming gen raw) = map (rwID \<circ> snd) (enumerate 0 raw)"
    by (auto simp: renaming_def)
  then show ?thesis by (simp flip: map_map)
qed

lemma renaming_nth:
  assumes "distinct (map rwID raw)" "k < length raw"
  shows "map_of (renaming gen raw) (rwID (raw ! k)) = Some (gen k)"
proof -
  have "distinct (map fst (renaming gen raw))"
    using assms(1) by (simp add: map_fst_renaming)
  moreover have "(rwID (raw ! k), gen k) \<in> set (renaming gen raw)"
    using assms(2) by (force simp: renaming_def in_set_enumerate_eq)
  ultimately show ?thesis by simp
qed

lemma mapDeps_ok:
  "\<forall>d\<in>set ds. trimSpace d = [] \<or> (trimSpace d \<noteq> i \<and> map_of m (trimSpace d) \<noteq> None) \<Longrightarrow>
     \<exists>us. mapDeps m i ds = Inr us \<and>
       set us = {u. \<exists>d\<in>set ds. trimSpace d \<noteq> [] \<and> map_of m (trimSpace d) = Some u}"
  by (induction ds) (fastforce simp: Let_def)+

lemma buildNodes_all:
  "\<forall>r\<in>set rs. buildNode m parent r = Inr (f r) \<Longrightarrow> distinct (map fst nodes @ map (fst \<circ> f) rs) \<Longrightarrow>
   buildNodes m parent rs nodes = Inr (nodes @ map f rs)"
proof (induction rs arbitrary: nodes)
  case Nil
  then show ?case by simp
next
  case (Cons r rs)
  obtain u n where f: "f r = (u, n)" by (cases "f r")
  with Cons.prems(2) have "u \<notin> fst ` set nodes" by auto
  then have "AList.update u n nodes = nodes @ [(u, n)]" by (rule update_fresh)
  with Cons f show ?case by simp
qed

lemma renaming_lookup:
  assumes "distinct (map rwID raw)" "i \<in> set (map rwID raw)"
  obtains k where "k < length raw" "rwID (raw ! k) = i" "map_of (renaming gen raw) i = Some (gen k)"
proof -
  from assms(2) obtain k where k: "k < length raw" "rwID (raw ! k) = i"
    by (auto simp: in_set_conv_nth)
  with renaming_nth [OF assms(1) k(1), of gen] that show ?thesis by simp
qed

lemma buildNode_ok:
  assumes "planOk rk raw" "r \<in> set raw"
  shows "\<exists>n. buildNode (renaming gen raw) parent r = Inr (the (map_of (renaming gen raw) (rwID r)), n) \<and>
    set (pnRawDeps n) = {u. \<exists>d\<in>set (rwDependsOn r). trimSpace d \<noteq> [] \<and>
      map_of (renaming gen raw) (trimSpace d) = Some u}"
proof -
  let ?m = "renaming gen raw"
  from assms have d: "distinct (map rwID raw)" and t: "trimSpace (rwTitle r) \<noteq> []"
    "trimSpace (rwAgentRole r) \<noteq> []" "\<not> forbiddenRole (trimSpace (rwAgentRole r))"
    and deps: "\<forall>d\<in>set (rwDependsOn r). trimSpace d = [] \<or>
      (trimSpace d \<in> set (map rwID raw) \<and> rk (trimSpace d) < rk (rwID r))"
    by (auto simp: planOk_def)
  have "\<forall>d\<in>set (rwDependsOn r). trimSpace d = [] \<or>
      (trimSpace d \<noteq> rwID r \<and> map_of ?m (trimSpace d) \<noteq> None)"
  proof
    fix d' assume "d' \<in> set (rwDependsOn r)"
    with deps have "trimSpace d' = [] \<or>
      (trimSpace d' \<in> set (map rwID raw) \<and> rk (trimSpace d') < rk (rwID r))" by blast
    then show "trimSpace d' = [] \<or> (trimSpace d' \<noteq> rwID r \<and> map_of ?m (trimSpace d') \<noteq> None)"
      by (metis less_irrefl option.distinct(1) renaming_lookup [OF d])
  qed
  from mapDeps_ok [OF this] obtain us where us: "mapDeps ?m (rwID r) (rwDependsOn r) = Inr us"
    "set us = {u. \<exists>d\<in>set (rwDependsOn r). trimSpace d \<noteq> [] \<and> map_of ?m (trimSpace d) = Some u}"
    by blast
  have "rwID r \<in> set (map rwID raw)" using assms(2) by simp
  then obtain k where "map_of ?m (rwID r) = Some (gen k)" by (rule renaming_lookup [OF d])
  with t us show ?thesis by (simp add: buildNode_def Let_def)
qed

lemma normalisePlan_accepts:
  assumes inj: "inj gen" and ok: "planOk rk raw"
  shows "\<exists>ss. normalisePlan gen parent raw = Inr ss \<and> length ss = length raw \<and>
    set (map sID ss) = gen ` {0..<length raw}"
proof -
  let ?m = "renaming gen raw"
  from ok have d: "distinct (map rwID raw)" by (simp add: planOk_def)
  have ids: "assignIDs gen 0 raw [] = Inr ?m"
    using assignIDs_ok [of raw "[]" gen 0] ok by (simp add: planOk_def renaming_def)
  have "\<forall>r\<in>set raw. \<exists>n. buildNode ?m parent r = Inr (the (map_of ?m (rwID r)), n) \<and>
    set (pnRawDeps n) = {u. \<exists>d\<in>set (rwDependsOn r). trimSpace d \<noteq> [] \<and>
      map_of ?m (trimSpace d) = Some u}"
    using buildNode_ok [OF ok] by blast
  from bchoice [OF this] obtain nf where
    nf: "\<forall>r\<in>set raw. buildNode ?m parent r = Inr (the (map_of ?m (rwID r)), nf r)" and
    nd: "\<forall>r\<in>set raw. set (pnRawDeps (nf r)) = {u. \<exists>d\<in>set (rwDependsOn r).
      trimSpace d \<noteq> [] \<and> map_of ?m (trimSpace d) = Some u}" by blast
  let ?f = "\<lambda>r. (the (map_of ?m (rwID r)), nf r)"
  let ?nodes = "map ?f raw"
  have keys: "map fst ?nodes = map gen [0..<length raw]"
    by (rule nth_equalityI) (simp_all add: renaming_nth [OF d])
  then have dk: "distinct (map fst ?nodes)"
    using inj_on_subset [OF inj subset_UNIV] by (simp add: distinct_map del: map_map)
  have bn: "buildNodes ?m parent raw [] = Inr ?nodes"
    using buildNodes_all [of raw ?m parent ?f "[]"] nf dk by (simp add: comp_def)
  have dep: "\<exists>j k. j < length raw \<and> k < length raw \<and> i = gen k \<and> u = gen j \<and>
      rk (rwID (raw ! j)) < rk (rwID (raw ! k))" if u: "u \<in> set (depsOf ?nodes i)" for i u
  proof -
    from depsOf_mem [OF u] obtain n
      where n: "map_of ?nodes i = Some n" "u \<in> set (pnRawDeps n)" by blast
    from map_of_SomeD [OF n(1)] obtain k where k: "k < length raw" "?f (raw ! k) = (i, n)"
      by (auto simp: in_set_conv_nth)
    then have i: "i = gen k" by (simp add: renaming_nth [OF d])
    from k n(2) nd obtain d' where d': "d' \<in> set (rwDependsOn (raw ! k))" "trimSpace d' \<noteq> []"
      "map_of ?m (trimSpace d') = Some u" by auto
    with ok k(1) have r: "trimSpace d' \<in> set (map rwID raw)"
      "rk (trimSpace d') < rk (rwID (raw ! k))" by (auto simp: planOk_def)
    from renaming_lookup [OF d r(1), of gen] d'(3) obtain j where
      j: "j < length raw" "rwID (raw ! j) = trimSpace d'" "u = gen j" by auto
    from j(2) r(2) have "rk (rwID (raw ! j)) < rk (rwID (raw ! k))" by simp
    with i k(1) j(1,3) show ?thesis by blast
  qed
  have fstset: "fst ` set ?nodes = gen ` {0..<length raw}"
    by (metis keys list.set_map set_upt)
  have "\<exists>ss. topoSort ?nodes = Inr ss"
  proof (rule topoSort_complete [OF dk])
    show "u \<in> fst ` set ?nodes" if "u \<in> set (depsOf ?nodes i)" for i u
      using dep [OF that] unfolding fstset by auto
    show "rk (rwID (raw ! inv gen u)) < rk (rwID (raw ! inv gen i))"
      if "u \<in> set (depsOf ?nodes i)" for i u
      using dep [OF that] inj by auto
  qed
  then obtain ss where ts: "topoSort ?nodes = Inr ss" by blast
  have "nodesOk parent ?nodes"
    using buildNodes_ok [OF bn] by (simp add: nodesOk_def)
  from topoSort_plan(4) [OF this ts] have "set (map sID ss) = gen ` {0..<length raw}"
    unfolding fstset .
  moreover have "length ss = length raw"
    using ts by (auto simp: topoSort_def split: option.splits if_splits)
  moreover have "normalisePlan gen parent raw = Inr (numberPlan ss)"
    using ok ids bn ts by (simp add: normalisePlan_def planOk_def)
  moreover have "set (map sID (numberPlan ss)) = set (map sID ss)"
    by (simp only: map_sID_numberPlan)
  ultimately show ?thesis by (metis length_numberPlan)
qed

section \<open>Properties\<close>

definition sampleRaw :: "string \<Rightarrow> string list \<Rightarrow> raw_subtask" where
  "sampleRaw i deps = \<lparr>rwID = i, rwTitle = ''title'', rwAgentRole = ''coder'', rwDependsOn = deps,
     rwWritePaths = [], rwPrompt = ''do it''\<rparr>"

definition sampleGen :: "nat \<Rightarrow> string" where
  "sampleGen n = replicate (Suc n) (CHR ''u'')"

lemma inj_sampleGen: "inj sampleGen"
  by (rule injI) (metis sampleGen_def length_replicate nat.inject)

text \<open>C5 (a plan is in dependency order). A plan normalisePlan accepts has subtasks with distinct
  ids, each belonging to the parent, pending, titled, numbered by its position in the list, and
  depending only on subtasks earlier in the list.\<close>

theorem plan_is_topological:
  assumes "normalisePlan gen parent raw = Inr ss"
  shows "distinct (map sID ss) \<and>
    (\<forall>k < length ss. set (sDependsOn (ss ! k)) \<subseteq> sID ` set (take k ss) \<and>
       sOrderIdx (ss ! k) = int k \<and> sTaskID (ss ! k) = parent \<and>
       sStatus (ss ! k) = SubtaskPending \<and> sTitle (ss ! k) \<noteq> [])"
  using normalisePlan_dag [OF assms] by blast

theorem plan_is_topological_witness:
  "\<exists>ss. normalisePlan sampleGen ''t1'' [sampleRaw ''b'' [''a''], sampleRaw ''a'' []] = Inr ss \<and>
     length ss = 2 \<and> set (sDependsOn (ss ! 1)) \<subseteq> {sID (ss ! 0)}"
proof -
  have "normalisePlan sampleGen ''t1'' [sampleRaw ''b'' [''a''], sampleRaw ''a'' []] = Inr
    [\<lparr>sID = ''uu'', sTaskID = ''t1'', sTitle = ''title'', sAgentRole = ''coder'', sDependsOn = [],
      sWritePaths = [], sStatus = SubtaskPending, sOrderIdx = 0, sCodeModel = [], sRound = 0,
      sPrompt = ''do it'', sCreatedAt = 0, sUpdatedAt = 0\<rparr>,
     \<lparr>sID = ''u'', sTaskID = ''t1'', sTitle = ''title'', sAgentRole = ''coder'', sDependsOn = [''uu''],
      sWritePaths = [], sStatus = SubtaskPending, sOrderIdx = 1, sCodeModel = [], sRound = 0,
      sPrompt = ''do it'', sCreatedAt = 0, sUpdatedAt = 0\<rparr>]"
    (is "_ = Inr ?ss")
    by code_simp
  moreover from plan_is_topological [OF this] have
    "\<forall>k < length ?ss. set (sDependsOn (?ss ! k)) \<subseteq> sID ` set (take k ?ss)" by blast
  then have "set (sDependsOn (?ss ! 1)) \<subseteq> {sID (?ss ! 0)}" by simp
  ultimately show ?thesis by (intro exI [of _ ?ss]) simp
qed

text \<open>No good plan is refused. A plan of 1 to 40 subtasks with distinct trimmed ids, titles
  and allowed roles, whose dependencies name subtasks of the plan and go down in some ranking,
  is accepted whatever fresh ids are given out, and no subtask is lost.\<close>

theorem acyclic_plan_is_accepted:
  assumes "inj gen" "planOk rk raw"
  shows "\<exists>ss. normalisePlan gen parent raw = Inr ss \<and> length ss = length raw \<and>
    set (map sID ss) = gen ` {0..<length raw}"
  using assms by (rule normalisePlan_accepts)

theorem acyclic_plan_is_accepted_witness:
  "\<exists>ss. normalisePlan sampleGen ''t1'' [sampleRaw ''b'' [''a''], sampleRaw ''a'' []] = Inr ss \<and> length ss = 2"
proof -
  have "planOk (\<lambda>i. if i = ''b'' then 1 else 0) [sampleRaw ''b'' [''a''], sampleRaw ''a'' []]"
    by code_simp
  from acyclic_plan_is_accepted [OF inj_sampleGen this, of "''t1''"] show ?thesis by auto
qed

text \<open>A plan never gets stuck. However far an accepted plan has been worked off, as long as
  a subtask is unfinished, some unfinished subtask has all its dependencies finished.\<close>

theorem plan_never_sticks:
  assumes "normalisePlan gen parent raw = Inr ss" "\<exists>s\<in>set ss. sID s \<notin> finished"
  shows "\<exists>s\<in>set ss. sID s \<notin> finished \<and> set (sDependsOn s) \<subseteq> finished"
  by (rule np.ready_exists [of "(gen, parent, raw)"]) (use assms in simp_all)

theorem plan_never_sticks_witness:
  "\<exists>ss. normalisePlan sampleGen ''t1'' [sampleRaw ''b'' [''a''], sampleRaw ''a'' []] = Inr ss \<and>
     (\<exists>s\<in>set ss. sID s \<notin> {''uu''} \<and> set (sDependsOn s) \<subseteq> {''uu''})"
proof -
  let ?raw = "[sampleRaw ''b'' [''a''], sampleRaw ''a'' []]"
  have "(case normalisePlan sampleGen ''t1'' ?raw of Inl _ \<Rightarrow> [] | Inr ss \<Rightarrow> map sID ss) = [''uu'', ''u'']"
    by code_simp
  then obtain ss where ss: "normalisePlan sampleGen ''t1'' ?raw = Inr ss" "map sID ss = [''uu'', ''u'']"
    by (auto split: sum.splits)
  from ss(2) have "\<exists>s\<in>set ss. sID s \<notin> {''uu''}" by auto
  from plan_never_sticks [OF ss(1) this] ss(1) show ?thesis by blast
qed

text \<open>Ids with surrounding blanks: Identifiers are trimmed when they are assigned and looked
  up untrimmed afterwards: a plan whose ids carry a leading blank is accepted, but its subtasks
  share the empty id, so that all but one are silently lost.\<close>

theorem padded_ids_collapse:
  "case normalisePlan sampleGen ''t1'' [sampleRaw '' a'' [], sampleRaw '' b'' []] of
     Inl e \<Rightarrow> False | Inr ss \<Rightarrow> map sID ss = [[]]"
  by code_simp

text \<open>The scan stops at the brace that closes the first one, and does not look further.\<close>

lemma scanJSON_Some:
  "scanJSON d q e s = Some n \<Longrightarrow>
     0 < n \<and> n \<le> length s \<and> s ! (n - 1) = CHR ''}'' \<and> (\<forall>r. scanJSON d q e (take n s @ r) = Some n)"
proof (induction d q e s arbitrary: n rule: scanJSON.induct)
  case (1 d q e)
  then show ?case by simp
next
  case (2 d q e c cs)
  have step: "0 < n \<and> n \<le> length (c # cs) \<and> (c # cs) ! (n - 1) = CHR ''}'' \<and>
      (\<forall>r. f (take (n - 1) cs @ r) = Some (n - 1))"
    if "map_option Suc (f cs) = Some n" "\<And>m. f cs = Some m \<Longrightarrow>
      0 < m \<and> m \<le> length cs \<and> cs ! (m - 1) = CHR ''}'' \<and> (\<forall>r. f (take m cs @ r) = Some m)"
    for f :: "string \<Rightarrow> nat option"
    using that by (auto simp: nth_Cons split: nat.splits)
  show ?case
    using 2 by (cases n) (auto split: if_splits dest!: step)
qed

text \<open>The JSON block of a transcript. When firstBalancedJSON finds a block, the block is the
  text from the first opening brace to the closing brace that balances it, whatever comes
  before it (without an opening brace) and after it: prose around the block, further blocks, and
  braces inside its quoted strings do not change what is extracted.\<close>

theorem firstBalancedJSON_extracts:
  assumes "firstBalancedJSON s = b" "b \<noteq> []"
  shows "hd b = CHR ''{'' \<and> last b = CHR ''}'' \<and>
    (\<exists>pre post. s = pre @ b @ post \<and> CHR ''{'' \<notin> set pre) \<and>
    (\<forall>pre post. CHR ''{'' \<notin> set pre \<longrightarrow> firstBalancedJSON (pre @ b @ post) = b)"
proof -
  let ?op = "\<lambda>c. c \<noteq> CHR ''{''"
  let ?t = "dropWhile ?op s"
  from assms obtain n where n: "?t \<noteq> []" "scanJSON 0 False False ?t = Some n" "b = take n ?t"
    by (auto simp: firstBalancedJSON_def Let_def split: if_splits option.splits)
  from scanJSON_Some [OF n(2)] have s: "0 < n" "n \<le> length ?t" "?t ! (n - 1) = CHR ''}''"
    "\<forall>r. scanJSON 0 False False (b @ r) = Some n" by (simp_all add: n(3))
  have hd: "hd b = CHR ''{''" using n(1,3) s(1) hd_dropWhile [of ?op s] by (simp add: hd_take)
  have len: "length b = n" using n(3) s(2) by simp
  have "last b = b ! (n - 1)" using len assms(2) by (simp add: last_conv_nth)
  then have last: "last b = CHR ''}''" using s(1,3) n(3) by simp
  have "s = takeWhile ?op s @ b @ drop n ?t" unfolding n(3) by simp
  moreover have "CHR ''{'' \<notin> set (takeWhile ?op s)" using set_takeWhileD by fastforce
  ultimately have "\<exists>pre post. s = pre @ b @ post \<and> CHR ''{'' \<notin> set pre" by blast
  moreover have "firstBalancedJSON (pre @ b @ post) = b" if "CHR ''{'' \<notin> set pre" for pre post
  proof -
    have "dropWhile ?op (pre @ b @ post) = b @ post"
      using that hd assms(2) by (cases b) (auto simp: dropWhile_append)
    then show ?thesis using s(4) len assms(2) by (simp add: firstBalancedJSON_def Let_def)
  qed
  ultimately show ?thesis using hd last by blast
qed

theorem firstBalancedJSON_extracts_witness:
  "firstBalancedJSON ''Here: {a: {}} done {}'' = ''{a: {}}'' \<and>
   firstBalancedJSON ''{a: {}}'' = ''{a: {}}''"
proof -
  have "firstBalancedJSON ''Here: {a: {}} done {}'' = ''{a: {}}''" by code_simp
  from firstBalancedJSON_extracts [OF this] this show ?thesis
    by (metis append_Nil append_Nil2 empty_iff empty_set list.distinct(1))
qed

end
