(* ===== verification/Write_Paths.thy ===== *)
theory Write_Paths
  imports FK_Prelude "HOL-Library.Sublist"
begin

text \<open>
  The write-path tokens of \<open>internal/orchestrator/orchestrator.go\<close> (\<open>pathsIntersect\<close> to
  \<open>pathPrefixMatch\<close>, and the file list read from a diff): which subtasks the scheduler may
  run at the same time on one worktree. \<open>mayWrite\<close> is the specification: the files a token
  lets a subtask write, with only the literal prefix of a glob interpreted.
\<close>

section \<open>Definitions\<close>

definition slash :: char where "slash = CHR ''/''"
definition backslash :: char where "backslash = CHR 0x5C"

definition normaliseWritePath :: "string \<Rightarrow> string" where
  "normaliseWritePath s =
     (let s1 = trimSpace s;
          s2 = map (\<lambda>c. if c = backslash then slash else c) s1;
          s3 = trimPrefix s2 ''./''
      in trimPrefix s3 ''/'')"

fun literalPrefix :: "string \<Rightarrow> string" where
  "literalPrefix [] = []"
| "literalPrefix (c # cs) = (if c \<in> set ''*?[{'' then [] else c # literalPrefix cs)"

definition pathPrefixMatch :: "string \<Rightarrow> string \<Rightarrow> bool" where
  "pathPrefixMatch short long =
     (if short = [] then True
      else if short = long then True
      else if \<not> hasPrefix long short then False
      else if hasSuffix short ''/'' then True
      else length long > length short \<and> long ! length short = slash)"

definition pathsIntersect :: "string \<Rightarrow> string \<Rightarrow> bool" where
  "pathsIntersect a0 b0 =
     (let a = normaliseWritePath a0; b = normaliseWritePath b0
      in if a = [] \<or> b = [] \<or> a = ''**'' \<or> b = ''**'' then True
         else (let pa = literalPrefix a; pb = literalPrefix b
               in pathPrefixMatch pa pb \<or> pathPrefixMatch pb pa))"

definition pathsIntersectAny :: "string list \<Rightarrow> string list \<Rightarrow> bool" where
  "pathsIntersectAny grp batch =
     (if batch = [] then False
      else if grp = [] then True
      else list_ex (\<lambda>g. list_ex (\<lambda>b. pathsIntersect g b) batch) grp)"

definition pathsOutsideDeclared :: "string list \<Rightarrow> string list \<Rightarrow> string list" where
  "pathsOutsideDeclared actual declared =
     filter (\<lambda>a. \<not> list_ex (\<lambda>d. pathsIntersect a d) declared) actual"

definition setDifference :: "string list \<Rightarrow> string list \<Rightarrow> string list" where
  "setDifference after before = filter (\<lambda>k. k \<notin> set before) after"

text \<open>\<open>strings.Index\<close>: the position of the first occurrence of a non-empty substring.\<close>

fun indexOf :: "string \<Rightarrow> string \<Rightarrow> nat option" where
  "indexOf s p =
     (if hasPrefix s p then Some 0
      else case s of [] \<Rightarrow> None | c # cs \<Rightarrow> map_option Suc (indexOf cs p))"

declare indexOf.simps [simp del]

text \<open>The path named by a \<open>diff --git a/<path> b/<path>\<close> line, if the line is one.\<close>

definition diffLinePath :: "string \<Rightarrow> string option" where
  "diffLinePath line =
     (if \<not> hasPrefix line ''diff --git '' then None
      else (let rest = trimPrefix line ''diff --git ''
            in case indexOf rest '' b/'' of
                 None \<Rightarrow> None
               | Some i \<Rightarrow>
                 (let path = trimSpace (drop (i + 3) rest)
                  in if path = [] then None else Some (normaliseWritePath path))))"

definition diffedFiles :: "string \<Rightarrow> string list" where
  "diffedFiles patch = remdups (List.map_filter diffLinePath (splitOn (CHR 0x0A) patch))"

section \<open>Prefixes at directory boundaries\<close>

lemma pathPrefixMatch_Nil [simp]: "pathPrefixMatch [] f"
  by (simp add: pathPrefixMatch_def)

lemma pathPrefixMatch_refl [simp]: "pathPrefixMatch p p"
  by (simp add: pathPrefixMatch_def)

lemma hasSuffix_slash: "hasSuffix p ''/'' \<longleftrightarrow> p \<noteq> [] \<and> last p = slash"
  unfolding hasSuffix_iff slash_def by (metis append_butlast_last_id last_snoc snoc_eq_iff_butlast)

lemma pathPrefixMatch_iff:
  "p \<noteq> [] \<Longrightarrow> pathPrefixMatch p f \<longleftrightarrow>
     f = p \<or> (last p = slash \<and> (\<exists>r. f = p @ r)) \<or> (\<exists>r. f = p @ slash # r)"
proof -
  assume ne: "p \<noteq> []"
  have "length f > length p \<and> f ! length p = slash \<longleftrightarrow> (\<exists>r. f = p @ slash # r)" if "hasPrefix f p"
  proof -
    from that obtain r where "f = p @ r" by (auto simp: hasPrefix_iff)
    then show ?thesis by (cases r) auto
  qed
  with ne show ?thesis
    by (auto simp: pathPrefixMatch_def hasSuffix_slash hasPrefix_iff)
qed

text \<open>
  With directories as path components: a name that does not end in a slash covers exactly the
  paths whose components start with its own.
\<close>

lemma components_prefix:
  "prefix (splitOn c p) (splitOn c f) \<longleftrightarrow> f = p \<or> (\<exists>r. f = p @ c # r)"
proof
  assume "prefix (splitOn c p) (splitOn c f)"
  then obtain zs where zs: "splitOn c f = splitOn c p @ zs" by (auto simp: prefix_def)
  show "f = p \<or> (\<exists>r. f = p @ c # r)"
  proof (cases zs)
    case Nil
    with zs show ?thesis by (metis append_Nil2 join_split)
  next
    case (Cons z zs')
    have "joinWith [c] (xs @ zs) = joinWith [c] xs @ c # joinWith [c] zs" if "xs \<noteq> []" for xs
      using that Cons by (induction xs rule: induct_list012) auto
    from this [of "splitOn c p"] zs have "f = p @ c # joinWith [c] zs"
      by (metis join_split splitOn_nonempty)
    then show ?thesis by blast
  qed
qed (auto simp: splitOn_append_sep)

section \<open>What a token may write\<close>

fun hasGlob :: "string \<Rightarrow> bool" where
  "hasGlob s = list_ex (\<lambda>c. c \<in> set ''*?[{'') s"

text \<open>The file names a token covers. Names are compared as they are spelt, as the routine does; Windows takes two
  spellings that differ in case for one file.\<close>

definition mayWrite :: "string \<Rightarrow> string \<Rightarrow> bool" where
  "mayWrite token f =
     (let t = normaliseWritePath token
      in if t = [] \<or> t = ''**'' then True
         else if hasGlob t then hasPrefix f (literalPrefix t)
         else pathPrefixMatch t f)"

text \<open>Tokens whose literal prefix ends at a directory boundary, or which are no globs.\<close>

definition boundaryToken :: "string \<Rightarrow> bool" where
  "boundaryToken token =
     (let t = normaliseWritePath token; p = literalPrefix t
      in hasGlob t \<longrightarrow> p = [] \<or> hasSuffix p ''/'')"

lemma literalPrefix_no_glob: "\<not> hasGlob s \<Longrightarrow> literalPrefix s = s"
  by (induction s) auto

lemma literalPrefix_prefix: "\<exists>r. s = literalPrefix s @ r"
  by (induction s) auto

lemma mayWrite_prefix:
  assumes "mayWrite token f" "boundaryToken token"
    "normaliseWritePath token \<noteq> []" "normaliseWritePath token \<noteq> ''**''"
  shows "pathPrefixMatch (literalPrefix (normaliseWritePath token)) f"
proof (cases "hasGlob (normaliseWritePath token)")
  case True
  let ?p = "literalPrefix (normaliseWritePath token)"
  from assms True have h: "hasPrefix f ?p" and b: "?p = [] \<or> hasSuffix ?p ''/''"
    by (auto simp: mayWrite_def boundaryToken_def Let_def simp del: hasGlob.simps)
  from b show ?thesis
    using h by (auto simp: pathPrefixMatch_def)
next
  case False
  with assms show ?thesis
    by (simp add: mayWrite_def Let_def literalPrefix_no_glob del: hasGlob.simps)
qed

lemma match_comparable:
  assumes "pathPrefixMatch p f" "pathPrefixMatch q f" "length p \<le> length q"
  shows "pathPrefixMatch p q"
proof (cases "p = []")
  case False
  then have q: "q \<noteq> []" using assms(3) by auto
  have p_of: "\<exists>r. f = p @ r" using assms(1) False by (auto simp: pathPrefixMatch_iff)
  have q_of: "\<exists>r. f = q @ r" using assms(2) q by (auto simp: pathPrefixMatch_iff)
  from p_of q_of assms(3) obtain r where r: "q = p @ r"
    by (metis append_eq_append_conv_if append_take_drop_id)
  from assms(1) False consider "f = p" | "last p = slash" | r' where "f = p @ slash # r'"
    by (auto simp: pathPrefixMatch_iff)
  then show ?thesis
  proof cases
    case 1
    with q_of r show ?thesis by auto
  next
    case 2
    with False r show ?thesis by (auto simp: pathPrefixMatch_iff)
  next
    case 3
    with q_of r have "r = [] \<or> (\<exists>r''. r = slash # r'')"
      by (cases r) auto
    with r False show ?thesis by (auto simp: pathPrefixMatch_iff)
  qed
qed simp

lemma pathsIntersect_sym: "pathsIntersect a b = pathsIntersect b a"
  by (auto simp: pathsIntersect_def Let_def)

lemma pathsIntersect_refl [simp]: "pathsIntersect a a"
  by (simp add: pathsIntersect_def Let_def)

lemma disjoint_tokens:
  assumes "boundaryToken a" "boundaryToken b" "\<not> pathsIntersect a b"
  shows "\<not> (mayWrite a f \<and> mayWrite b f)"
proof
  assume w: "mayWrite a f \<and> mayWrite b f"
  from assms(3) have ne: "normaliseWritePath a \<noteq> []" "normaliseWritePath a \<noteq> ''**''"
    "normaliseWritePath b \<noteq> []" "normaliseWritePath b \<noteq> ''**''"
    by (auto simp: pathsIntersect_def Let_def)
  let ?p = "literalPrefix (normaliseWritePath a)" and ?q = "literalPrefix (normaliseWritePath b)"
  have "pathPrefixMatch ?p f" "pathPrefixMatch ?q f"
    using w assms(1,2) ne by (auto intro: mayWrite_prefix)
  then have "pathPrefixMatch ?p ?q \<or> pathPrefixMatch ?q ?p"
    by (metis match_comparable nat_le_linear)
  with ne assms(3) show False by (simp add: pathsIntersect_def)
qed

lemma pathsIntersectAny_Nil [simp]: "\<not> pathsIntersectAny g []"
  by (simp add: pathsIntersectAny_def)

lemma pathsIntersectAny_False:
  "\<not> pathsIntersectAny g b \<Longrightarrow> b \<noteq> [] \<Longrightarrow> g \<noteq> [] \<and> (\<forall>x\<in>set g. \<forall>y\<in>set b. \<not> pathsIntersect x y)"
  by (auto simp: pathsIntersectAny_def list_ex_iff split: if_splits)

text \<open>Write-path disjointness. When \<open>pathsIntersect\<close> declares two tokens disjoint and
  each is a plain path or a glob whose literal prefix ends at a directory boundary, no file may
  be written through both: the subtasks the scheduler runs together on that ground cannot
  touch the same file.\<close>

theorem disjoint_tokens_share_no_file:
  assumes "boundaryToken a" "boundaryToken b" "\<not> pathsIntersect a b"
  shows "\<not> (mayWrite a f \<and> mayWrite b f)"
  using assms by (rule disjoint_tokens)

lemma boundary_dir: "normaliseWritePath ''ui/lib/**'' = ''ui/lib/**''"
  by code_simp

theorem disjoint_tokens_share_no_file_witness:
  "boundaryToken ''ui/lib/**'' \<and> boundaryToken ''docs/a.md'' \<and>
   \<not> pathsIntersect ''ui/lib/**'' ''docs/a.md'' \<and>
   \<not> (mayWrite ''ui/lib/**'' ''docs/a.md'' \<and> mayWrite ''docs/a.md'' ''docs/a.md'')"
proof -
  have a: "boundaryToken ''ui/lib/**''" by code_simp
  have b: "boundaryToken ''docs/a.md''" by code_simp
  have n: "\<not> pathsIntersect ''ui/lib/**'' ''docs/a.md''" by code_simp
  show ?thesis using a b n disjoint_tokens_share_no_file [OF a b n] by blast
qed

text \<open>Globs inside a name: The boundary condition is needed: a glob that starts inside a
  file name is declared disjoint from a file it matches, against the routine's own promise to
  treat as overlapping whatever it cannot prove disjoint.\<close>

theorem glob_inside_name_not_conservative:
  "\<not> pathsIntersect ''src/a*.go'' ''src/abc.go'' \<and>
   mayWrite ''src/a*.go'' ''src/abc.go'' \<and> mayWrite ''src/abc.go'' ''src/abc.go''"
  by code_simp

text \<open>Directory boundaries. \<open>pathPrefixMatch\<close> of a name with no trailing slash is the
  prefix order on path components, so \<open>a/b\<close> covers \<open>a/b/c\<close> and not \<open>a/bc\<close>.\<close>

theorem pathPrefixMatch_components:
  assumes "short \<noteq> []" "\<not> hasSuffix short ''/''"
  shows "pathPrefixMatch short long \<longleftrightarrow> prefix (splitOn slash short) (splitOn slash long)"
  using assms by (auto simp: components_prefix pathPrefixMatch_iff hasSuffix_slash)

theorem pathPrefixMatch_components_witness:
  "(''a/b'' \<noteq> [] \<and> \<not> hasSuffix ''a/b'' ''/'') \<and>
   (pathPrefixMatch ''a/b'' ''a/b/c'' \<longleftrightarrow>
      prefix (splitOn slash ''a/b'') (splitOn slash ''a/b/c'')) \<and>
   \<not> pathPrefixMatch ''a/b'' ''a/bc''"
proof -
  have a: "''a/b'' \<noteq> []" by simp
  have b: "\<not> hasSuffix ''a/b'' ''/''" by code_simp
  have c: "\<not> pathPrefixMatch ''a/b'' ''a/bc''" by code_simp
  show ?thesis using a b c pathPrefixMatch_components [OF a b, of "''a/b/c''"] by blast
qed

end
