(* ===== verification/Wave_Scheduler.thy ===== *)
theory Wave_Scheduler
  imports Event_Emission Planner Write_Paths
begin

text \<open>
  \<open>runSubtaskLoop\<close> of \<open>internal/orchestrator/orchestrator.go\<close>: the subtasks of a plan run in
  waves; a wave holds subtasks whose dependencies are resolved and whose declared write paths
  are pairwise disjoint. \<open>sched\<close> gives what the code does not decide itself: the order in which
  Go ranges over the map of remaining subtasks, the order in which a wave's goroutines finish,
  and what the agent does in each session. A session's own calls are run without a sibling's
  calls in between; those show up as the environment's other operations.
\<close>

section \<open>The agent and the runtime\<close>

datatype run_error = RunDeadline string | RunCanceled string | RunOther string

fun errText :: "run_error \<Rightarrow> string" where
  "errText (RunDeadline e) = e"
| "errText (RunCanceled e) = e"
| "errText (RunOther e) = e"

text \<open>A session: no slot before the context ended, or a stream of events, the model used, the
  usage and the error it returned.\<close>

record sub_run =
  sr_noSlot :: "run_error option"
  sr_stream :: "chan_case list"
  sr_model :: string
  sr_usage :: session_usage
  sr_err :: "run_error option"

record sched =
  sc_iter :: "nat \<Rightarrow> subtask list \<Rightarrow> subtask list"
  sc_order :: "nat \<Rightarrow> subtask list \<Rightarrow> subtask list"
  sc_run :: "nat \<Rightarrow> subtask \<Rightarrow> run_context \<Rightarrow> sub_run"
  sc_diff :: "nat \<Rightarrow> subtask \<Rightarrow> string option"
  sc_render :: "payload \<Rightarrow> string"

record run_outcome =
  ro_runErr :: "run_error option"
  ro_abortByUser :: bool

section \<open>Decimal numbers in file names\<close>

fun decimal :: "nat \<Rightarrow> string" where
  "decimal n = (if n < 10 then [char_of (48 + n)] else decimal (n div 10) @ [char_of (48 + n mod 10)])"

declare decimal.simps [simp del]

definition itoa :: "int \<Rightarrow> string" where
  "itoa n = (if n < 0 then ''-'' @ decimal (nat (- n)) else decimal (nat n))"

definition zeroPad :: "nat \<Rightarrow> string \<Rightarrow> string" where
  "zeroPad k s = replicate (k - length s) (CHR ''0'') @ s"

definition itoa3 :: "int \<Rightarrow> string" where
  "itoa3 n = (if n < 0 then ''-'' @ zeroPad 2 (decimal (nat (- n))) else zeroPad 3 (decimal (nat n)))"

definition childPath :: "subtask \<Rightarrow> string \<Rightarrow> string" where
  "childPath s file = ''children/'' @ itoa (sRound s) @ ''/'' @ itoa3 (sOrderIdx s) @ ''/'' @ file"

section \<open>The ready set\<close>

text \<open>Whether all dependencies are resolved, and whether one seen before that failed.\<close>

fun checkDeps :: "string list \<Rightarrow> string list \<Rightarrow> string list \<Rightarrow> bool \<Rightarrow> bool \<times> bool" where
  "checkDeps finished failed [] bad = (True, bad)"
| "checkDeps finished failed (d # ds) bad =
     (let bad' = (bad \<or> d \<in> set failed)
      in if d \<notin> set finished \<and> d \<notin> set failed then (False, bad')
         else checkDeps finished failed ds bad')"

fun readyPass ::
  "string \<Rightarrow> subtask list \<Rightarrow> string list \<Rightarrow> string list \<Rightarrow> subtask list \<Rightarrow> subtask list \<Rightarrow>
     ('z world_scheme, string list \<times> subtask list \<times> subtask list) state" where
  "readyPass t [] finished failed remaining ready = State_Monad.return (failed, remaining, ready)"
| "readyPass t (s # ss) finished failed remaining ready =
     (case checkDeps finished failed (sDependsOn s) False of (resolved, bad) \<Rightarrow>
        if \<not> resolved then readyPass t ss finished failed remaining ready
        else if bad then do {
          _ \<leftarrow> mSubtaskUpdate TaskCtx (s\<lparr>sStatus := SubtaskFailed\<rparr>);
          emitSubtaskEnd TaskCtx t (s\<lparr>sStatus := SubtaskFailed\<rparr>) False ''dependency failed'';
          readyPass t ss finished (sID s # failed) (filter (\<lambda>x. sID x \<noteq> sID s) remaining) ready
        }
        else readyPass t ss finished failed remaining (ready @ [s]))"

section \<open>Packing a wave\<close>

fun packBatch :: "subtask list \<Rightarrow> string list \<Rightarrow> bool \<Rightarrow> subtask list" where
  "packBatch [] paths taken = []"
| "packBatch (s # ss) paths taken =
     (if taken then []
      else if pathsIntersectAny (sWritePaths s) paths then packBatch ss paths taken
      else if sWritePaths s = [] then s # packBatch ss paths True
      else s # packBatch ss (paths @ sWritePaths s) taken)"

section \<open>One subtask\<close>

definition runOneSubtask ::
  "sched \<Rightarrow> task \<Rightarrow> nat \<Rightarrow> run_context \<Rightarrow> subtask \<Rightarrow>
     ('z world_scheme, subtask \<times> run_error option) state" where
  "runOneSubtask sc t n rc s =
     (let r = sc_run sc n s rc; tid = tID t in
      case sr_noSlot r of Some e \<Rightarrow> State_Monad.return (s, Some e)
      | None \<Rightarrow> do {
          let s1 = s\<lparr>sStatus := SubtaskDoing\<rparr>;
          _ \<leftarrow> mSubtaskUpdate TaskCtx s1;
          (if sPrompt s1 \<noteq> [] then writeArtifact tid (childPath s1 ''PROMPT.md'') (sPrompt s1)
           else State_Monad.return ());
          emitSubtaskStart TaskCtx tid s1;
          _ \<leftarrow> consumeEvents TaskCtx tid (sr_stream r);
          emitUsageEvent TaskCtx tid ''code'' (sID s1) (sr_usage r);
          let s2 = (if sr_model r \<noteq> [] \<and> sCodeModel s1 \<noteq> sr_model r
                    then s1\<lparr>sCodeModel := sr_model r\<rparr> else s1);
          case sr_err r of
            Some e \<Rightarrow> do {
              let s3 = s2\<lparr>sStatus := SubtaskFailed\<rparr>;
              _ \<leftarrow> mSubtaskUpdate TaskCtx s3;
              emitSubtaskEnd TaskCtx tid s3 False (errText e);
              State_Monad.return (s3, Some e)
            }
          | None \<Rightarrow> do {
              let s3 = s2\<lparr>sStatus := SubtaskDone\<rparr>;
              _ \<leftarrow> mSubtaskUpdate TaskCtx s3;
              writeArtifact tid (childPath s3 ''OUTPUT.md'')
                (''# '' @ sTitle s3 @ ''\<newline>\<newline>Role: '' @ sAgentRole s3 @ ''\<newline>\<newline>Status: done\<newline>'');
              writeArtifact tid (childPath s3 ''DIFF.patch'')
                (if tWorktreePath t \<noteq> []
                 then (case sc_diff sc n s3 of Some p \<Rightarrow> p | None \<Rightarrow> []) else []);
              emitSubtaskEnd TaskCtx tid s3 True [];
              State_Monad.return (s3, None)
            }
        })"

text \<open>The goroutines of a wave, in the order they finish: the subtasks as they left them, the
  first error, and the summaries of those that succeeded.\<close>

fun runBatch ::
  "sched \<Rightarrow> task \<Rightarrow> nat \<Rightarrow> run_context \<Rightarrow> subtask list \<Rightarrow>
     ('z world_scheme, subtask list \<times> run_error option \<times> prior_summary list) state" where
  "runBatch sc t n rc [] = State_Monad.return ([], None, [])"
| "runBatch sc t n rc (s # ss) = do {
     (s', e) \<leftarrow> runOneSubtask sc t n rc s;
     (ss', e', ps) \<leftarrow> runBatch sc t n rc ss;
     State_Monad.return (s' # ss', (case e of Some x \<Rightarrow> Some x | None \<Rightarrow> e'),
       (case e of Some _ \<Rightarrow> ps
        | None \<Rightarrow> \<lparr>pTitle = sTitle s', pRole = sAgentRole s', pSummary = []\<rparr> # ps))
   }"

section \<open>The loop\<close>

text \<open>\<open>ls_waves\<close> records the batches run so far, newest first.\<close>

record loop_state =
  ls_remaining :: "subtask list"
  ls_done :: "string list"
  ls_failed :: "string list"
  ls_prior :: "prior_summary list"
  ls_err :: "run_error option"
  ls_waves :: "subtask list list"

text \<open>One wave; the flag tells whether the loop goes on.\<close>

definition waveStep ::
  "sched \<Rightarrow> task \<Rightarrow> string \<Rightarrow> loop_state \<Rightarrow> ('z world_scheme, bool \<times> loop_state) state" where
  "waveStep sc t planSummary ls = do {
     let n = length (ls_waves ls);
     (failed, remaining, ready) \<leftarrow>
       readyPass (tID t) (sc_iter sc n (ls_remaining ls)) (ls_done ls) (ls_failed ls) (ls_remaining ls) [];
     let ls1 = ls\<lparr>ls_failed := failed, ls_remaining := remaining\<rparr>;
     if ready = [] then State_Monad.return (False, ls1)
     else do {
       let batch = packBatch (sort_key sOrderIdx ready) [] False;
       (ss, err, ps) \<leftarrow> runBatch sc t n
         \<lparr>rcPlanSummary = planSummary, rcPrior = ls_prior ls1,
          rcIsFinal = (length batch = length remaining)\<rparr> (sc_order sc n batch);
       let ls2 = ls1\<lparr>
         ls_remaining := filter (\<lambda>x. sID x \<notin> sID ` set batch) remaining,
         ls_failed := map sID (filter (\<lambda>x. sStatus x = SubtaskFailed) ss) @ failed,
         ls_done := map sID (filter (\<lambda>x. sStatus x \<noteq> SubtaskFailed) ss) @ ls_done ls1,
         ls_prior := ls_prior ls1 @ ps, ls_err := err, ls_waves := batch # ls_waves ls1\<rparr>;
       State_Monad.return (err = None, ls2)
     }
   }"

text \<open>\<open>for len(remaining) > 0\<close>; \<open>None\<close> is "out of fuel".\<close>

fun waves ::
  "nat \<Rightarrow> sched \<Rightarrow> task \<Rightarrow> string \<Rightarrow> loop_state \<Rightarrow> ('z world_scheme, loop_state option) state" where
  "waves fuel sc t planSummary ls =
     (if ls_remaining ls = [] then State_Monad.return (Some ls)
      else case fuel of 0 \<Rightarrow> State_Monad.return None
      | Suc fuel' \<Rightarrow> do {
          (go, ls') \<leftarrow> waveStep sc t planSummary ls;
          if go then waves fuel' sc t planSummary ls' else State_Monad.return (Some ls')
        })"

declare waves.simps [simp del]

fun resetSubtasks :: "subtask list \<Rightarrow> ('z world_scheme, subtask list) state" where
  "resetSubtasks [] = State_Monad.return []"
| "resetSubtasks (s # ss) =
     (if sStatus s \<noteq> SubtaskPending then do {
        _ \<leftarrow> mSubtaskUpdate TaskCtx (s\<lparr>sStatus := SubtaskPending\<rparr>);
        ss' \<leftarrow> resetSubtasks ss;
        State_Monad.return (s\<lparr>sStatus := SubtaskPending\<rparr> # ss')
      }
      else do { ss' \<leftarrow> resetSubtasks ss; State_Monad.return (s # ss') })"

fun cascadeCancel :: "string \<Rightarrow> string \<Rightarrow> subtask list \<Rightarrow> ('z world_scheme, unit) state" where
  "cascadeCancel t reason [] = State_Monad.return ()"
| "cascadeCancel t reason (s # ss) =
     (if sStatus s = SubtaskDone \<or> sStatus s = SubtaskFailed then cascadeCancel t reason ss
      else do {
        _ \<leftarrow> mSubtaskUpdate Background (s\<lparr>sStatus := SubtaskFailed\<rparr>);
        emitSubtaskEnd Background t (s\<lparr>sStatus := SubtaskFailed\<rparr>) False reason;
        cascadeCancel t reason ss
      })"

definition runSubtaskLoop ::
  "sched \<Rightarrow> task \<Rightarrow> subtask list \<Rightarrow> ('z world_scheme, run_outcome option \<times> subtask list list) state" where
  "runSubtaskLoop sc t subs = do {
     planSummary \<leftarrow> fetchPlanSummary (sc_render sc) TaskCtx (tID t);
     subs' \<leftarrow> resetSubtasks subs;
     r \<leftarrow> waves (length subs') sc t planSummary
       \<lparr>ls_remaining = subs', ls_done = [], ls_failed = [], ls_prior = [], ls_err = None, ls_waves = []\<rparr>;
     case r of None \<Rightarrow> State_Monad.return (None, [])
     | Some ls \<Rightarrow> do {
         abort \<leftarrow> abortedByUser (tID t);
         (case ls_err ls of None \<Rightarrow> State_Monad.return ()
          | Some e \<Rightarrow> cascadeCancel (tID t) (if abort then ''cancelled by user'' else errText e)
              (sc_iter sc (length (ls_waves ls)) (ls_remaining ls)));
         State_Monad.return (Some \<lparr>ro_runErr = ls_err ls, ro_abortByUser = abort\<rparr>, ls_waves ls)
       }
   }"

section \<open>What a wave is\<close>

text \<open>Two subtasks may run side by side: both declare what they write, and no two of their
  tokens may name the same file.\<close>

definition apart :: "subtask \<Rightarrow> subtask \<Rightarrow> bool" where
  "apart s s' \<longleftrightarrow> sWritePaths s \<noteq> [] \<and> sWritePaths s' \<noteq> [] \<and>
     (\<forall>a\<in>set (sWritePaths s'). \<forall>b\<in>set (sWritePaths s). \<not> pathsIntersect a b)"

lemma pathsIntersectAny_iff:
  "\<not> pathsIntersectAny g b \<longleftrightarrow> b = [] \<or> g \<noteq> [] \<and> (\<forall>x\<in>set g. \<forall>y\<in>set b. \<not> pathsIntersect x y)"
  by (auto simp: pathsIntersectAny_def list_ex_iff)

lemma packBatch_apart:
  "sorted_wrt apart (packBatch ss paths taken) \<and>
   (\<forall>s\<in>set (packBatch ss paths taken). paths \<noteq> [] \<longrightarrow>
      sWritePaths s \<noteq> [] \<and> (\<forall>a\<in>set (sWritePaths s). \<forall>b\<in>set paths. \<not> pathsIntersect a b))"
proof (induction ss paths taken rule: packBatch.induct)
  case (1 paths taken)
  then show ?case by simp
next
  case (2 s ss paths taken)
  show ?case
  proof (cases "taken \<or> pathsIntersectAny (sWritePaths s) paths")
    case True
    with 2 show ?thesis by auto
  next
    case False
    then have d: "paths = [] \<or> sWritePaths s \<noteq> [] \<and>
      (\<forall>x\<in>set (sWritePaths s). \<forall>y\<in>set paths. \<not> pathsIntersect x y)"
      by (simp add: pathsIntersectAny_iff)
    show ?thesis
    proof (cases "sWritePaths s = []")
      case True
      then have "packBatch (s # ss) paths taken = [s]" using False by (cases ss) auto
      with d True show ?thesis by auto
    next
      case ne: False
      from 2(3) [OF _ _ ne] False have IH: "sorted_wrt apart (packBatch ss (paths @ sWritePaths s) taken)"
        "\<forall>x\<in>set (packBatch ss (paths @ sWritePaths s) taken). sWritePaths x \<noteq> [] \<and>
           (\<forall>a\<in>set (sWritePaths x). \<forall>b\<in>set (paths @ sWritePaths s). \<not> pathsIntersect a b)"
        using ne by auto
      have "packBatch (s # ss) paths taken = s # packBatch ss (paths @ sWritePaths s) taken"
        using False ne by simp
      moreover have "\<forall>x\<in>set (packBatch ss (paths @ sWritePaths s) taken). apart s x"
        using IH(2) ne unfolding apart_def by auto
      ultimately show ?thesis using IH d ne by auto
    qed
  qed
qed

lemma packBatch_subseq: "subseq (packBatch ss paths taken) ss"
  by (induction ss paths taken rule: packBatch.induct) auto

lemma subseq_set: "subseq xs ys \<Longrightarrow> set xs \<subseteq> set ys"
  unfolding subseq_conv_nths using set_nths_subset by fastforce

lemma subseq_distinct: "subseq xs ys \<Longrightarrow> distinct ys \<Longrightarrow> distinct xs"
  unfolding subseq_conv_nths by auto

lemma packBatch_set: "set (packBatch ss paths taken) \<subseteq> set ss"
  using packBatch_subseq subseq_set by blast

lemma packBatch_nonempty: "ss \<noteq> [] \<Longrightarrow> packBatch ss [] False \<noteq> []"
  by (cases ss) (auto simp: pathsIntersectAny_def)

text \<open>The contract of a packer, and what a scheduler that runs packed waves may conclude.\<close>

locale wave_packer =
  fixes pack :: "'n list \<Rightarrow> 'n list"
    and side_by_side :: "'n \<Rightarrow> 'n \<Rightarrow> bool"
  assumes pack_subseq: "subseq (pack ns) ns"
    and pack_apart: "sorted_wrt side_by_side (pack ns)"
    and pack_progress: "ns \<noteq> [] \<Longrightarrow> pack ns \<noteq> []"
begin

lemma pack_distinct: "distinct (map f ns) \<Longrightarrow> distinct (map f (pack ns))"
  using pack_subseq by (meson subseq_distinct subseq_map)

lemma pack_in: "n \<in> set (pack ns) \<Longrightarrow> n \<in> set ns"
  using pack_subseq subseq_set by blast

lemma pack_shrinks:
  assumes "ns \<noteq> []" "set ns \<subseteq> set rest"
  shows "length (filter (\<lambda>x. f x \<notin> f ` set (pack ns)) rest) < length rest"
proof -
  from pack_progress [OF assms(1)] obtain n where n: "n \<in> set (pack ns)" by fastforce
  then have "n \<in> set rest" using pack_in assms(2) by blast
  moreover have "f n \<in> f ` set (pack ns)" using n by (rule imageI)
  ultimately show ?thesis by (intro length_filter_less [of n]) auto
qed

end

interpretation packer: wave_packer "\<lambda>ss. packBatch ss [] False" apart
  by unfold_locales (use packBatch_subseq packBatch_apart packBatch_nonempty in blast)+

section \<open>The loop's invariant\<close>

text \<open>Every wave is packed, and its subtasks depend only on subtasks of earlier waves.\<close>

fun wavesOk :: "subtask list list \<Rightarrow> bool" where
  "wavesOk [] = True"
| "wavesOk (b # ws) = (b \<noteq> [] \<and> sorted_wrt apart b \<and>
     (\<forall>s\<in>set b. set (sDependsOn s) \<subseteq> sID ` set (concat ws)) \<and> wavesOk ws)"

definition permutes :: "sched \<Rightarrow> bool" where
  "permutes sc \<longleftrightarrow> (\<forall>n xs. mset (sc_iter sc n xs) = mset xs \<and> mset (sc_order sc n xs) = mset xs)"

lemma permutes_set:
  assumes "permutes sc"
  shows "set (sc_iter sc n xs) = set xs" "set (sc_order sc n xs) = set xs"
  using assms unfolding permutes_def by (metis mset_eq_setD)+

lemma checkDeps_none_failed: "checkDeps finished [] ds False = (set ds \<subseteq> set finished, False)"
  by (induction ds) (auto simp: Let_def)

lemma readyPass_none_failed:
  "readyPass t ss finished [] remaining ready =
     State_Monad.return ([], remaining, ready @ filter (\<lambda>s. set (sDependsOn s) \<subseteq> set finished) ss)"
  by (induction ss arbitrary: ready) (auto simp: checkDeps_none_failed)

lemma run_pair: obtains a b w' where "run_state m w = ((a, b), w')"
  by (metis surj_pair)

lemma run_triple: obtains a b c w' where "run_state m w = ((a, b, c), w')"
  by (metis surj_pair)

lemma runOneSubtask_result:
  assumes "run_state (runOneSubtask sc t n rc s) w = ((s', e), w')"
  shows "sID s' = sID s \<and> (e = None \<longrightarrow> sStatus s' = SubtaskDone)"
  using assms by (auto simp: runOneSubtask_def Let_def split: option.splits if_splits prod.splits)

lemma runBatch_result:
  "run_state (runBatch sc t n rc ss) w = ((ss', e, ps), w') \<Longrightarrow>
     map sID ss' = map sID ss \<and> (e = None \<longrightarrow> (\<forall>x\<in>set ss'. sStatus x = SubtaskDone))"
proof (induction ss arbitrary: w ss' e ps w')
  case Nil
  then show ?case by simp
next
  case (Cons s ss)
  obtain s1 e1 w1 where r1: "run_state (runOneSubtask sc t n rc s) w = ((s1, e1), w1)" by (rule run_pair)
  obtain ss2 e2 ps2 w2 where r2: "run_state (runBatch sc t n rc ss) w1 = ((ss2, e2, ps2), w2)"
    by (rule run_triple)
  from Cons.prems have "ss' = s1 # ss2" "e = (case e1 of Some x \<Rightarrow> Some x | None \<Rightarrow> e2)"
    by (simp_all add: r1 r2)
  with runOneSubtask_result [OF r1] Cons.IH [OF r2] show ?case by (auto split: option.splits)
qed

definition loopInv :: "subtask list \<Rightarrow> loop_state \<Rightarrow> bool" where
  "loopInv subs ls \<longleftrightarrow> ls_failed ls = [] \<and> ls_err ls = None \<and>
     ls_remaining ls = filter (\<lambda>s. sID s \<notin> set (ls_done ls)) subs \<and>
     set (ls_done ls) = sID ` set (concat (ls_waves ls)) \<and>
     distinct (map sID (concat (ls_waves ls))) \<and> set (concat (ls_waves ls)) \<subseteq> set subs \<and>
     wavesOk (ls_waves ls)"

text \<open>What holds when the loop has stopped, with or without an error.\<close>

definition loopEnd :: "subtask list \<Rightarrow> loop_state \<Rightarrow> bool" where
  "loopEnd subs ls \<longleftrightarrow> wavesOk (ls_waves ls) \<and> distinct (map sID (concat (ls_waves ls))) \<and>
     set (concat (ls_waves ls)) \<subseteq> set subs \<and>
     ls_remaining ls = filter (\<lambda>s. sID s \<notin> sID ` set (concat (ls_waves ls))) subs \<and>
     (ls_err ls = None \<longrightarrow> ls_remaining ls = [] \<or>
        (\<forall>s\<in>set (ls_remaining ls). \<not> set (sDependsOn s) \<subseteq> sID ` set (concat (ls_waves ls))))"

lemma waveStep_spec:
  assumes inv: "loopInv subs ls" and d: "distinct (map sID subs)" and p: "permutes sc"
    and run: "run_state (waveStep sc t ps ls) w = ((go, ls'), w')"
  shows "(go \<longrightarrow> loopInv subs ls' \<and> length (ls_remaining ls') < length (ls_remaining ls)) \<and>
    (\<not> go \<longrightarrow> loopEnd subs ls')"
proof -
  let ?n = "length (ls_waves ls)"
  define ready where "ready = filter (\<lambda>s. set (sDependsOn s) \<subseteq> set (ls_done ls))
    (sc_iter sc ?n (ls_remaining ls))"
  have rset: "set ready = {s \<in> set (ls_remaining ls). set (sDependsOn s) \<subseteq> set (ls_done ls)}"
    by (auto simp: ready_def permutes_set [OF p])
  have pass: "readyPass (tID t) (sc_iter sc ?n (ls_remaining ls)) (ls_done ls) (ls_failed ls)
      (ls_remaining ls) [] = State_Monad.return ([], ls_remaining ls, ready)"
    using inv by (simp add: loopInv_def readyPass_none_failed ready_def)
  have same: "ls\<lparr>ls_failed := [], ls_remaining := ls_remaining ls\<rparr> = ls"
    using inv by (simp add: loopInv_def)
  show ?thesis
  proof (cases "ready = []")
    case True
    then have "\<not> go" "ls' = ls" using run by (simp_all add: waveStep_def pass same Let_def)
    moreover have "\<forall>s\<in>set (ls_remaining ls). \<not> set (sDependsOn s) \<subseteq> set (ls_done ls)"
      using rset True by auto
    ultimately show ?thesis using inv by (auto simp: loopInv_def loopEnd_def)
  next
    case False
    define batch where "batch = packBatch (sort_key sOrderIdx ready) [] False"
    have sr: "set (sort_key sOrderIdx ready) = set ready" by simp
    have "sort_key sOrderIdx ready \<noteq> []" using False by (metis set_empty sr)
    then have bne: "batch \<noteq> []" unfolding batch_def by (rule packer.pack_progress)
    have bsub: "s \<in> set ready" if "s \<in> set batch" for s
      using packer.pack_in [of s "sort_key sOrderIdx ready"] that sr by (simp add: batch_def)
    obtain ss err qs w1 where rb: "run_state (runBatch sc t ?n \<lparr>rcPlanSummary = ps, rcPrior = ls_prior ls,
        rcIsFinal = (length batch = length (ls_remaining ls))\<rparr> (sc_order sc ?n batch)) w = ((ss, err, qs), w1)"
      by (rule run_triple)
    note res = runBatch_result [OF rb]
    have ids: "sID ` set ss = sID ` set batch"
      using res permutes_set(2) [OF p] by (metis list.set_map)
    let ?ls2 = "ls\<lparr>ls_remaining := filter (\<lambda>x. sID x \<notin> sID ` set batch) (ls_remaining ls),
         ls_failed := map sID (filter (\<lambda>x. sStatus x = SubtaskFailed) ss),
         ls_done := map sID (filter (\<lambda>x. sStatus x \<noteq> SubtaskFailed) ss) @ ls_done ls,
         ls_prior := ls_prior ls @ qs, ls_err := err, ls_waves := batch # ls_waves ls\<rparr>"
    have ls': "go = (err = None)" "ls' = ?ls2"
      using run False rb inv by (simp_all add: waveStep_def pass Let_def loopInv_def flip: batch_def)
    from inv have i: "ls_remaining ls = filter (\<lambda>s. sID s \<notin> set (ls_done ls)) subs"
      "set (ls_done ls) = sID ` set (concat (ls_waves ls))" "wavesOk (ls_waves ls)"
      "distinct (map sID (concat (ls_waves ls)))" "set (concat (ls_waves ls)) \<subseteq> set subs"
      by (simp_all add: loopInv_def)
    have dready: "distinct (map sID ready)"
    proof -
      have "distinct (map sID (ls_remaining ls))" unfolding i(1) using d by (rule distinct_map_filter)
      moreover have "mset (map sID (sc_iter sc ?n (ls_remaining ls))) = mset (map sID (ls_remaining ls))"
        using p by (simp add: permutes_def)
      ultimately have "distinct (map sID (sc_iter sc ?n (ls_remaining ls)))"
        by (metis mset_eq_imp_distinct_iff)
      then show ?thesis unfolding ready_def by (rule distinct_map_filter)
    qed
    have "mset (map sID (sort_key sOrderIdx ready)) = mset (map sID ready)" by simp
    then have "distinct (map sID (sort_key sOrderIdx ready))" using dready by (metis mset_eq_imp_distinct_iff)
    then have db: "distinct (map sID batch)" unfolding batch_def by (rule packer.pack_distinct)
    have new: "sID s \<notin> set (ls_done ls) \<and> s \<in> set subs \<and> set (sDependsOn s) \<subseteq> set (ls_done ls)"
      if "s \<in> set batch" for s
      using bsub [OF that] unfolding rset i(1) by auto
    have W: "wavesOk (batch # ls_waves ls)"
      using bne new i(2,3) packer.pack_apart [of "sort_key sOrderIdx ready"] by (auto simp: batch_def)
    have D: "distinct (map sID (concat (batch # ls_waves ls)))"
      using db i(4) new i(2) by (auto simp: image_iff)
    have S: "set (concat (batch # ls_waves ls)) \<subseteq> set subs" using new i(5) by auto
    have R: "filter (\<lambda>x. sID x \<notin> sID ` set batch) (ls_remaining ls) =
      filter (\<lambda>s. sID s \<notin> sID ` set (concat (batch # ls_waves ls))) subs"
      unfolding i(1) using i(2) by (auto intro: filter_cong)
    show ?thesis
    proof (cases err)
      case (Some e)
      with ls' W D S R show ?thesis by (simp add: loopEnd_def)
    next
      case None
      with res have allDone: "\<forall>x\<in>set ss. sStatus x = SubtaskDone" by simp
      then have "filter (\<lambda>x. sStatus x = SubtaskFailed) ss = []"
        "filter (\<lambda>x. sStatus x \<noteq> SubtaskFailed) ss = ss" by auto
      moreover have "set (map sID ss @ ls_done ls) = sID ` set (concat (batch # ls_waves ls))"
        using ids i(2) by auto
      ultimately have "loopInv subs ls'"
        using None ls' W D S R i(2) ids by (auto simp: loopInv_def intro: filter_cong)
      moreover have "length (ls_remaining ls') < length (ls_remaining ls)"
        using packer.pack_shrinks [of "sort_key sOrderIdx ready" "ls_remaining ls" sID]
          \<open>sort_key sOrderIdx ready \<noteq> []\<close> rset ls' by (auto simp: batch_def)
      ultimately show ?thesis using None ls' by simp
    qed
  qed
qed

lemma waves_spec:
  "loopInv subs ls \<Longrightarrow> distinct (map sID subs) \<Longrightarrow> permutes sc \<Longrightarrow>
   length (ls_remaining ls) \<le> fuel \<Longrightarrow>
   \<exists>ls' w'. run_state (waves fuel sc t ps ls) w = (Some ls', w') \<and> loopEnd subs ls'"
proof (induction fuel arbitrary: ls w)
  case 0
  then show ?case by (auto simp: waves.simps loopInv_def loopEnd_def)
next
  case (Suc fuel)
  show ?case
  proof (cases "ls_remaining ls = []")
    case True
    with Suc.prems(1) show ?thesis by (auto simp: waves.simps loopInv_def loopEnd_def)
  next
    case False
    obtain go ls1 w1 where r: "run_state (waveStep sc t ps ls) w = ((go, ls1), w1)" by (rule run_pair)
    note st = waveStep_spec [OF Suc.prems(1-3) r]
    show ?thesis
    proof (cases go)
      case True
      with st have "loopInv subs ls1" "length (ls_remaining ls1) \<le> fuel" using Suc.prems(4) by auto
      from Suc.IH [OF this(1) Suc.prems(2,3) this(2), of w1] True False r show ?thesis
        by (simp add: waves.simps [of "Suc fuel"])
    next
      case nm: False
      with st False r show ?thesis by (simp add: waves.simps [of "Suc fuel"])
    qed
  qed
qed

section \<open>Properties\<close>

text \<open>C6 (subtasks that run together declare no common file). Suppose every write path declared for the
  subtasks is a plain path or a glob whose first wildcard comes at a directory boundary. Then no file name is covered
  by a token of each of two subtasks packed into one wave. Names are compared as they are spelt: two
  spellings that differ in case are two names here, and one file on Windows (\<open>case_variants_share_a_wave\<close>); and a glob inside a name is
  not covered (\<open>glob_in_name_shares_a_wave\<close>).\<close>

theorem wave_shares_no_file:
  assumes "i < j" "j < length (packBatch ss [] False)"
    "\<forall>s\<in>set ss. \<forall>a\<in>set (sWritePaths s). boundaryToken a"
    "a \<in> set (sWritePaths (packBatch ss [] False ! i))"
    "b \<in> set (sWritePaths (packBatch ss [] False ! j))"
  shows "\<not> (mayWrite a f \<and> mayWrite b f)"
proof -
  let ?b = "packBatch ss [] False"
  have "apart (?b ! i) (?b ! j)"
    using packer.pack_apart assms(1,2) by (rule sorted_wrt_nth_less)
  then have "\<not> pathsIntersect b a" using assms(4,5) by (simp add: apart_def)
  moreover have "?b ! i \<in> set ss" "?b ! j \<in> set ss"
    using assms(1,2) packer.pack_in by (meson less_trans nth_mem)+
  then have "boundaryToken a" "boundaryToken b" using assms(3-5) by blast+
  ultimately show ?thesis using disjoint_tokens by blast
qed

definition writer :: "string \<Rightarrow> string list \<Rightarrow> subtask" where
  "writer i ps = (sampleSubtask i [] 0)\<lparr>sWritePaths := ps\<rparr>"

theorem wave_shares_no_file_witness:
  "\<not> (mayWrite ''src/a.go'' ''src/a.go'' \<and> mayWrite ''src/b.go'' ''src/a.go'')"
proof (rule wave_shares_no_file)
  let ?ss = "[writer ''a'' [''src/a.go''], writer ''b'' [''src/b.go'']]"
  have b: "packBatch ?ss [] False = ?ss" by code_simp
  show "0 < (1::nat)" "1 < length (packBatch ?ss [] False)" unfolding b by simp_all
  show "\<forall>s\<in>set ?ss. \<forall>a\<in>set (sWritePaths s). boundaryToken a" by code_simp
  show "''src/a.go'' \<in> set (sWritePaths (packBatch ?ss [] False ! 0))"
    "''src/b.go'' \<in> set (sWritePaths (packBatch ?ss [] False ! 1))"
    unfolding b by (simp_all add: writer_def)
qed

text \<open>What the conditions leave out: two spellings of one Windows file, and a glob inside a name, go into one wave.\<close>

lemma case_variants_share_a_wave:
  "packBatch [writer ''a'' [''src/A.go''], writer ''b'' [''src/a.go'']] [] False =
     [writer ''a'' [''src/A.go''], writer ''b'' [''src/a.go'']]"
  by code_simp

lemma glob_in_name_shares_a_wave:
  "packBatch [writer ''a'' [''src/a*.go''], writer ''b'' [''src/abc.go'']] [] False =
     [writer ''a'' [''src/a*.go''], writer ''b'' [''src/abc.go'']]"
  by code_simp

text \<open>The loop as a whole.\<close>

definition pendingCopy :: "subtask \<Rightarrow> subtask" where
  "pendingCopy s = s\<lparr>sStatus := SubtaskPending\<rparr>"

lemma pendingCopy_sel [simp]: "sID (pendingCopy s) = sID s" "sDependsOn (pendingCopy s) = sDependsOn s"
  by (simp_all add: pendingCopy_def)

lemma run_resetSubtasks: "\<exists>w'. run_state (resetSubtasks ss) w = (map pendingCopy ss, w')"
proof (induction ss arbitrary: w)
  case (Cons s ss)
  show ?case
  proof (cases "sStatus s = SubtaskPending")
    case True
    then have "s = pendingCopy s" by (simp add: pendingCopy_def)
    with Cons.IH [of w] True show ?thesis by auto
  next
    case False
    obtain r w1 where "run_state (mSubtaskUpdate TaskCtx (s\<lparr>sStatus := SubtaskPending\<rparr>)) w = (r, w1)"
      by fastforce
    with Cons.IH [of w1] False show ?thesis by (auto simp: pendingCopy_def)
  qed
qed simp

lemma run_runSubtaskLoop:
  assumes d: "distinct (map sID subs)" and p: "permutes sc"
    and run: "run_state (runSubtaskLoop sc t subs) w = ((out, ws), w')"
  obtains ls ab where "out = Some \<lparr>ro_runErr = ls_err ls, ro_abortByUser = ab\<rparr>" "ws = ls_waves ls"
    "loopEnd (map pendingCopy subs) ls"
proof -
  obtain ps w1 where f: "run_state (fetchPlanSummary (sc_render sc) TaskCtx (tID t)) w = (ps, w1)"
    by fastforce
  obtain w2 where r: "run_state (resetSubtasks subs) w1 = (map pendingCopy subs, w2)"
    using run_resetSubtasks by blast
  let ?ls = "\<lparr>ls_remaining = map pendingCopy subs, ls_done = [], ls_failed = [], ls_prior = [],
    ls_err = None, ls_waves = []\<rparr>"
  have "loopInv (map pendingCopy subs) ?ls" by (simp add: loopInv_def)
  moreover have "distinct (map sID (map pendingCopy subs))" using d by (simp add: comp_def)
  ultimately obtain ls w3 where v: "run_state (waves (length subs) sc t ps ?ls) w2 = (Some ls, w3)"
    "loopEnd (map pendingCopy subs) ls"
    using waves_spec [of "map pendingCopy subs" ?ls sc "length subs" t ps w2] p by auto
  obtain ab w4 where a: "run_state (abortedByUser (tID t)) w3 = (ab, w4)" by fastforce
  have "out = Some \<lparr>ro_runErr = ls_err ls, ro_abortByUser = ab\<rparr>" "ws = ls_waves ls"
    using run f r v(1) a
    by (auto simp: runSubtaskLoop_def split: option.splits prod.splits)
  with v(2) show ?thesis by (rule that [rotated 2])
qed

text \<open>C1 (the scheduler is safe). Whatever the plan, the agents, the timing and the other
  goroutines do, the subtask loop returns; the waves it ran hold each subtask at most once; every
  wave is made of subtasks with pairwise disjoint write paths, or of one subtask; and no subtask
  was started before all its dependencies had finished in earlier waves.\<close>

theorem subtask_loop_is_safe:
  assumes "distinct (map sID subs)" "permutes sc"
    "run_state (runSubtaskLoop sc t subs) w = ((out, ws), w')"
  shows "out \<noteq> None \<and> wavesOk ws \<and> distinct (map sID (concat ws)) \<and>
    set (map sID (concat ws)) \<subseteq> set (map sID subs)"
proof -
  from run_runSubtaskLoop [OF assms] obtain ls ab where
    "out = Some \<lparr>ro_runErr = ls_err ls, ro_abortByUser = ab\<rparr>" "ws = ls_waves ls"
    "loopEnd (map pendingCopy subs) ls" by blast
  then show ?thesis by (auto simp: loopEnd_def)
qed

text \<open>C3 (the scheduler finishes every plan). On the subtasks of a plan that normalisePlan
  accepted, if the loop reports no error then it has run every subtask of the plan, exactly once.\<close>

theorem subtask_loop_runs_whole_plan:
  assumes "normalisePlan gen parent raw = Inr plan"
    "map (\<lambda>s. (sID s, sDependsOn s)) subs = map (\<lambda>s. (sID s, sDependsOn s)) plan" "permutes sc"
    "run_state (runSubtaskLoop sc t subs) w = ((Some out, ws), w')" "ro_runErr out = None"
  shows "distinct (map sID (concat ws)) \<and> set (map sID (concat ws)) = set (map sID subs)"
proof -
  have ids: "map sID subs = map sID plan"
    using arg_cong [OF assms(2), of "map fst"] by (simp add: comp_def)
  have d: "distinct (map sID subs)" unfolding ids by (rule normalisePlan_dag(1) [OF assms(1)])
  from run_runSubtaskLoop [OF d assms(3,4)] obtain ls ab where
    o: "Some out = Some \<lparr>ro_runErr = ls_err ls, ro_abortByUser = ab\<rparr>" "ws = ls_waves ls"
    and e: "loopEnd (map pendingCopy subs) ls" by blast
  let ?run = "sID ` set (concat ws)"
  have "set (map sID subs) \<subseteq> ?run"
  proof (rule ccontr)
    assume "\<not> set (map sID subs) \<subseteq> ?run"
    then have "\<exists>s\<in>set plan. sID s \<notin> ?run" unfolding ids by auto
    from np.ready_exists [of "(gen, parent, raw)" plan ?run] assms(1) this
    obtain s where s: "s \<in> set plan" "sID s \<notin> ?run" "set (sDependsOn s) \<subseteq> ?run" by auto
    then have "(sID s, sDependsOn s) \<in> set (map (\<lambda>s. (sID s, sDependsOn s)) subs)"
      unfolding assms(2) by auto
    then obtain s' where "s' \<in> set subs" "sID s' = sID s" "sDependsOn s' = sDependsOn s" by auto
    then have rem: "pendingCopy s' \<in> set (ls_remaining ls)" "set (sDependsOn (pendingCopy s')) \<subseteq> ?run"
      using s e o(2) by (auto simp: loopEnd_def)
    have "ls_err ls = None" using o(1) assms(5) by simp
    then have "ls_remaining ls = [] \<or> (\<forall>s\<in>set (ls_remaining ls). \<not> set (sDependsOn s) \<subseteq> ?run)"
      using e unfolding loopEnd_def o(2) by blast
    with rem show False by (metis empty_iff empty_set)
  qed
  moreover have "?run \<subseteq> set (map sID subs)" using e o(2) by (auto simp: loopEnd_def)
  ultimately show ?thesis using e o(2) by (auto simp: loopEnd_def)
qed

text \<open>A schedule in which every session succeeds at once.\<close>

definition okRun :: sub_run where
  "okRun = \<lparr>sr_noSlot = None, sr_stream = [], sr_model = [],
     sr_usage = \<lparr>uModel = [], uPremiumRequests = 0, uInputTokens = 0, uOutputTokens = 0,
       uCacheReadTokens = 0, uDurationMs = 0, uCalls = 0\<rparr>, sr_err = None\<rparr>"

definition runWith :: "(nat \<Rightarrow> subtask \<Rightarrow> run_context \<Rightarrow> sub_run) \<Rightarrow> sched" where
  "runWith f = \<lparr>sc_iter = (\<lambda>_ xs. xs), sc_order = (\<lambda>_ xs. xs), sc_run = f,
     sc_diff = (\<lambda>_ _. None), sc_render = (\<lambda>_. [])\<rparr>"

text \<open>When no session fails, neither does the loop.\<close>

definition neverFails :: "sched \<Rightarrow> bool" where
  "neverFails sc \<longleftrightarrow> (\<forall>n s rc. sr_noSlot (sc_run sc n s rc) = None \<and> sr_err (sc_run sc n s rc) = None)"

lemma runOneSubtask_ok:
  "neverFails sc \<Longrightarrow> run_state (runOneSubtask sc t n rc s) w = ((s', e), w') \<Longrightarrow> e = None"
  by (auto simp: neverFails_def runOneSubtask_def Let_def split: option.splits if_splits prod.splits)

lemma runBatch_ok:
  "neverFails sc \<Longrightarrow> run_state (runBatch sc t n rc ss) w = ((ss', e, ps), w') \<Longrightarrow> e = None"
  by (induction ss arbitrary: w ss' e ps w')
    (auto split: prod.splits option.splits dest: runOneSubtask_ok)

lemma waveStep_ok:
  assumes "neverFails sc" "ls_err ls = None"
    "run_state (waveStep sc t ps ls) w = ((go, ls'), w')"
  shows "ls_err ls' = None"
proof -
  obtain failed remaining ready w1 where r: "run_state (readyPass (tID t)
      (sc_iter sc (length (ls_waves ls)) (ls_remaining ls)) (ls_done ls) (ls_failed ls)
      (ls_remaining ls) []) w = ((failed, remaining, ready), w1)" by (rule run_triple)
  show ?thesis
    using assms(2,3) by (auto simp: waveStep_def r Let_def split: if_splits prod.splits
        dest: runBatch_ok [OF assms(1)])
qed

lemma waves_ok:
  "neverFails sc \<Longrightarrow> ls_err ls = None \<Longrightarrow> run_state (waves fuel sc t ps ls) w = (Some ls', w') \<Longrightarrow>
     ls_err ls' = None"
proof (induction fuel arbitrary: ls w)
  case 0
  then show ?case by (simp add: waves.simps split: if_splits)
next
  case (Suc fuel)
  obtain go ls1 w1 where r: "run_state (waveStep sc t ps ls) w = ((go, ls1), w1)" by (rule run_pair)
  with waveStep_ok [OF Suc.prems(1,2) r] Suc show ?case
    by (auto simp: waves.simps [of "Suc fuel"] split: if_splits)
qed

lemma subtask_loop_ok:
  assumes "neverFails sc" "distinct (map sID subs)" "permutes sc"
  shows "\<exists>out ws w'. run_state (runSubtaskLoop sc t subs) w = ((Some out, ws), w') \<and> ro_runErr out = None"
proof -
  obtain ps w1 where f: "run_state (fetchPlanSummary (sc_render sc) TaskCtx (tID t)) w = (ps, w1)"
    by fastforce
  obtain w2 where r: "run_state (resetSubtasks subs) w1 = (map pendingCopy subs, w2)"
    using run_resetSubtasks by blast
  let ?ls = "\<lparr>ls_remaining = map pendingCopy subs, ls_done = [], ls_failed = [], ls_prior = [],
    ls_err = None, ls_waves = []\<rparr>"
  have "loopInv (map pendingCopy subs) ?ls" by (simp add: loopInv_def)
  moreover have "distinct (map sID (map pendingCopy subs))" using assms(2) by (simp add: comp_def)
  ultimately obtain ls w3 where v: "run_state (waves (length subs) sc t ps ?ls) w2 = (Some ls, w3)"
    using waves_spec [of "map pendingCopy subs" ?ls sc "length subs" t ps w2] assms(3) by auto
  have "ls_err ls = None" by (rule waves_ok [OF assms(1) _ v]) simp
  with f r v show ?thesis by (auto simp: runSubtaskLoop_def abortedByUser_def)
qed

lemma neverFails_ok: "neverFails (runWith (\<lambda>_ _ _. okRun))"
  by (simp add: neverFails_def runWith_def okRun_def)

lemma permutes_runWith: "permutes (runWith f)"
  by (simp add: permutes_def runWith_def)

theorem subtask_loop_is_safe_witness:
  "\<exists>out ws w'. run_state (runSubtaskLoop (runWith (\<lambda>_ _ _. okRun)) (sampleTask ''t1'' StatusInProgress)
     [sampleSubtask ''a'' [] 0, sampleSubtask ''b'' [''a''] 1])
     (sampleWorld (quietEnv (\<lambda>_ _. Live)) sampleDB) = ((out, ws), w') \<and> out \<noteq> None \<and> wavesOk ws"
proof -
  let ?ss = "[sampleSubtask ''a'' [] 0, sampleSubtask ''b'' [''a''] 1]"
  have d: "distinct (map sID ?ss)" by (simp add: sampleSubtask_def)
  obtain out ws w' where r: "run_state (runSubtaskLoop (runWith (\<lambda>_ _ _. okRun))
    (sampleTask ''t1'' StatusInProgress) ?ss)
    (sampleWorld (quietEnv (\<lambda>_ _. Live)) sampleDB) = ((out, ws), w')" by (rule run_pair)
  from subtask_loop_is_safe [OF d permutes_runWith r] r show ?thesis by blast
qed

definition plannedAB :: "subtask list" where
  "plannedAB = [(sampleSubtask ''uu'' [] 0), (sampleSubtask ''u'' [''uu''] 1)]"

theorem subtask_loop_runs_whole_plan_witness:
  "\<exists>out ws w'. run_state (runSubtaskLoop (runWith (\<lambda>_ _ _. okRun)) (sampleTask ''t1'' StatusInProgress)
     plannedAB) (sampleWorld (quietEnv (\<lambda>_ _. Live)) sampleDB) = ((Some out, ws), w') \<and>
     set (map sID (concat ws)) = {''uu'', ''u''}"
proof -
  let ?raw = "[sampleRaw ''b'' [''a''], sampleRaw ''a'' []]"
  have n: "(case normalisePlan sampleGen ''t1'' ?raw of Inl _ \<Rightarrow> []
      | Inr plan \<Rightarrow> map (\<lambda>s. (sID s, sDependsOn s)) plan) = [(''uu'', []), (''u'', [''uu''])]"
    by code_simp
  then obtain plan where plan: "normalisePlan sampleGen ''t1'' ?raw = Inr plan"
    "map (\<lambda>s. (sID s, sDependsOn s)) plan = [(''uu'', []), (''u'', [''uu''])]"
    by (auto split: sum.splits)
  have same: "map (\<lambda>s. (sID s, sDependsOn s)) plannedAB = map (\<lambda>s. (sID s, sDependsOn s)) plan"
    unfolding plan(2) by (simp add: plannedAB_def sampleSubtask_def)
  let ?run = "run_state (runSubtaskLoop (runWith (\<lambda>_ _ _. okRun)) (sampleTask ''t1'' StatusInProgress)
     plannedAB) (sampleWorld (quietEnv (\<lambda>_ _. Live)) sampleDB)"
  have "distinct (map sID plannedAB)" by (simp add: plannedAB_def sampleSubtask_def)
  from subtask_loop_ok [OF neverFails_ok this permutes_runWith]
  obtain out ws w' where r: "?run = ((Some out, ws), w')" "ro_runErr out = None" by blast
  from subtask_loop_runs_whole_plan [OF plan(1) same permutes_runWith r] r(1) show ?thesis
    by (auto simp: plannedAB_def sampleSubtask_def)
qed

text \<open>A dependency nobody can meet. A subtask edited by hand to depend on an id outside the
  round makes the loop stop with that subtask never run and no error: the task goes on to
  AI review as if the plan had been carried out.\<close>

theorem unmet_dependency_reported_as_success:
  "(let ((out, ws), w') = run_state (runSubtaskLoop (runWith (\<lambda>_ _ _. okRun))
      (sampleTask ''t1'' StatusInProgress)
      [sampleSubtask ''s1'' [''gone''] 0]) (sampleWorld (quietEnv (\<lambda>_ _. Live)) sampleDB)
    in map_option ro_runErr out = Some None \<and> ws = [] \<and> map q_status (subtasks (w_db w')) = [SubtaskPending])"
  by code_simp

text \<open>A cancelled wave leaves its cards open. When the context ends before a subtask of a wave
  got a slot, the subtask stays pending and is counted as done, so that the clean-up of the rest
  of the round passes it by; when it ends while the session runs, the failure cannot be
  recorded under that context and the row stays at doing.\<close>

theorem cancelled_wave_leaves_rows_open:
  "(let noSlot = okRun\<lparr>sr_noSlot := Some (RunCanceled ''context canceled'')\<rparr>;
        ((out, ws), w') = run_state (runSubtaskLoop (runWith (\<lambda>_ _ _. noSlot))
          (sampleTask ''t1'' StatusInProgress) [sampleSubtask ''s1'' [] 0])
          (sampleWorld (quietEnv (\<lambda>_ _. Live)) sampleDB)
    in map_option ro_runErr out = Some (Some (RunCanceled ''context canceled'')) \<and>
       map q_status (subtasks (w_db w')) = [SubtaskPending]) \<and>
   (let broken = okRun\<lparr>sr_err := Some (RunCanceled ''context canceled'')\<rparr>;
        ((out, ws), w') = run_state (runSubtaskLoop (runWith (\<lambda>_ _ _. broken))
          (sampleTask ''t1'' StatusInProgress) [sampleSubtask ''s1'' [] 0])
          (sampleWorld (quietEnv (\<lambda>c n. if c = TaskCtx \<and> n > 2 then Done ''context canceled'' else Live))
            sampleDB)
    in map_option ro_runErr out = Some (Some (RunCanceled ''context canceled'')) \<and>
       map q_status (subtasks (w_db w')) = [SubtaskDoing])"
  by (rule conjI; code_simp)

section \<open>What the loop writes\<close>

text \<open>Rows of subtasks and events of the task, nothing else.\<close>

fun roundOp :: "string \<Rightarrow> db_op \<Rightarrow> bool" where
  "roundOp t (OpSubtaskUpdate now c s) = True"
| "roundOp t a = logsFor t a"

lemma logs_roundOp: "logsFor t a \<Longrightarrow> roundOp t a"
  by (cases a) simp_all

lemma effects_resetSubtasks: "effects (roundOp t) (resetSubtasks ss)"
  by (induction ss) (auto intro!: effects_intros)

lemma effects_readyPass: "effects (roundOp t) (readyPass t ss fin failed rest ready)"
proof (induction t ss fin failed rest ready rule: readyPass.induct)
  case (1 t fin failed rest ready)
  then show ?case by (simp add: effects_return)
next
  case (2 t s ss fin failed rest ready)
  obtain r b where c: "checkDeps fin failed (sDependsOn s) False = (r, b)" by fastforce
  from 2 [OF c [symmetric]] show ?case
    unfolding readyPass.simps c prod.case
    by (intro effects_intros) (simp_all add: logs_roundOp)
qed

lemma effects_runOneSubtask: "effects (roundOp (tID t)) (runOneSubtask sc t n rc s)"
  unfolding runOneSubtask_def Let_def
  by (intro effects_intros) (simp_all add: logs_roundOp)

lemma effects_runBatch: "effects (roundOp (tID t)) (runBatch sc t n rc ss)"
  by (induction ss) (auto intro!: effects_intros effects_runOneSubtask)

lemma effects_waveStep: "effects (roundOp (tID t)) (waveStep sc t ps ls)"
  unfolding waveStep_def Let_def by (intro effects_intros effects_readyPass effects_runBatch)

lemma effects_waves: "effects (roundOp (tID t)) (waves fuel sc t ps ls)"
proof (induction fuel arbitrary: ls)
  case 0
  then show ?case by (simp add: waves.simps effects_return)
next
  case (Suc fuel)
  show ?case
    unfolding waves.simps [of "Suc fuel"] nat.case
    by (intro effects_intros effects_waveStep Suc.IH)
qed

lemma effects_cascadeCancel: "effects (roundOp t) (cascadeCancel t reason ss)"
  by (induction ss) (auto intro!: effects_intros simp: logs_roundOp)

lemma effects_runSubtaskLoop: "effects (roundOp (tID t)) (runSubtaskLoop sc t subs)"
  unfolding runSubtaskLoop_def
  by (intro effects_intros effects_resetSubtasks effects_waves effects_cascadeCancel)

end
