(* ===== verification/Harness_Store.thy ===== *)
theory Harness_Store
  imports Store_Ops
begin

text \<open>
  \<open>internal/store/harness_attempt_store.go\<close>: the observations of failed reviews and the patch
  proposals attached to them. The table references \<open>tasks\<close>; it is kept beside \<open>db\<close>, so
  an insert reads the tasks and deleting a task cascades by a step of its own, \<open>OpTaskGone\<close>, which the
  handler that deletes tasks (App_Tasks) takes.
\<close>

section \<open>Rows\<close>

record attempt =
  hID :: string
  hTaskID :: string
  hReworkRound :: int
  hFailureClass :: string
  hObservationMD :: string
  hProposedPatch :: string
  hProposedHash :: string
  hDecision :: string
  hDecidedBy :: string
  hDecidedAt :: "time option"
  hCreatedAt :: time

definition decisions :: "string list" where
  "decisions = [''pending'', ''approved'', ''rejected'', ''superseded'']"

definition attemptRowOf :: "time \<Rightarrow> attempt \<Rightarrow> attempt" where
  "attemptRowOf now a = a\<lparr>hDecision := ''pending'', hDecidedBy := [], hDecidedAt := None,
     hCreatedAt := (if hCreatedAt a = 0 then now else hCreatedAt a)\<rparr>"

definition scanAttempt :: "attempt \<Rightarrow> attempt" where
  "scanAttempt a = a\<lparr>hDecidedAt := scanNullableTime (hDecidedAt a)\<rparr>"

section \<open>Operations\<close>

definition attemptInsert ::
  "time \<Rightarrow> ctx \<Rightarrow> attempt \<Rightarrow> db \<Rightarrow> attempt list \<Rightarrow> store_error + attempt list" where
  "attemptInsert now c a d as =
     (if hID a = [] \<or> hTaskID a = [] then Inl (EMissingField ''id, task_id'')
      else case ctxErr c of Some e \<Rightarrow> Inl (EExec e)
      | None \<Rightarrow>
        if hasKey hID (hID a) as then Inl (EConstraint ''UNIQUE'')
        else if \<not> hasKey r_id (hTaskID a) (tasks d) then Inl (EConstraint ''FOREIGN KEY'')
        else Inr (as @ [attemptRowOf now a]))"

definition attemptGet :: "ctx \<Rightarrow> string \<Rightarrow> attempt list \<Rightarrow> store_error + attempt" where
  "attemptGet c i as =
     (case ctxErr c of Some e \<Rightarrow> Inl (EExec e)
      | None \<Rightarrow> (case lookupBy hID i as of
          None \<Rightarrow> Inl ENotFound | Some a \<Rightarrow> Inr (scanAttempt a)))"

text \<open>\<open>ORDER BY created_at DESC, id DESC\<close>, and a LIMIT when it is positive.\<close>

definition newestFirst :: "attempt list \<Rightarrow> attempt list" where
  "newestFirst as = rev (sort_key (\<lambda>a. hCreatedAt a)
     (sort_key (\<lambda>a. map (of_char :: char \<Rightarrow> nat) (hID a)) as))"

definition limited :: "int \<Rightarrow> 'a list \<Rightarrow> 'a list" where
  "limited n xs = (if n > 0 then take (nat n) xs else xs)"

definition queryAttempts ::
  "ctx \<Rightarrow> (attempt \<Rightarrow> bool) \<Rightarrow> int \<Rightarrow> attempt list \<Rightarrow> store_error + attempt list" where
  "queryAttempts c p n as =
     (case ctxErr c of Some e \<Rightarrow> Inl (EExec e)
      | None \<Rightarrow> Inr (map scanAttempt (limited n (newestFirst (filter p as)))))"

definition listPending :: "ctx \<Rightarrow> int \<Rightarrow> attempt list \<Rightarrow> store_error + attempt list" where
  "listPending c n as = queryAttempts c (\<lambda>a. hDecision a = ''pending'') n as"

definition listForTask :: "ctx \<Rightarrow> string \<Rightarrow> int \<Rightarrow> attempt list \<Rightarrow> store_error + attempt list" where
  "listForTask c t n as = queryAttempts c (\<lambda>a. hTaskID a = t) n as"

definition pendingRow :: "string \<Rightarrow> attempt \<Rightarrow> bool" where
  "pendingRow i a \<longleftrightarrow> hID a = i \<and> hDecision a = ''pending''"

text \<open>After an update of no row: does the attempt not exist, or is it decided?\<close>

definition whyNoRow :: "ctx \<Rightarrow> string \<Rightarrow> attempt list \<Rightarrow> store_error" where
  "whyNoRow c i as =
     (case attemptGet c i as of
        Inl ENotFound \<Rightarrow> ENotFound
      | Inl e \<Rightarrow> e
      | Inr _ \<Rightarrow> EStaleUpdate)"

text \<open>The update and the query after it each find a context, \<open>c\<close> and \<open>c2\<close>.\<close>

definition updateProposedPatch ::
  "ctx \<Rightarrow> ctx \<Rightarrow> string \<Rightarrow> string \<Rightarrow> string \<Rightarrow> attempt list \<Rightarrow> store_error + attempt list" where
  "updateProposedPatch c c2 i patch hash as =
     (if i = [] then Inl (EMissingField ''id'')
      else case ctxErr c of Some e \<Rightarrow> Inl (EExec e)
      | None \<Rightarrow>
        if countWhere (pendingRow i) as = 0 then Inl (whyNoRow c2 i as)
        else Inr (updateWhere (pendingRow i)
          (\<lambda>a. a\<lparr>hProposedPatch := patch, hProposedHash := hash\<rparr>) as))"

text \<open>Likewise the decision: the update is committed before the row is read back, so a failed query leaves a
  written decision behind the error. What the rows are afterwards is the second component.\<close>

definition decidedRows :: "time \<Rightarrow> string \<Rightarrow> string \<Rightarrow> string \<Rightarrow> attempt list \<Rightarrow> attempt list" where
  "decidedRows now i dec who as = updateWhere (pendingRow i)
     (\<lambda>a. a\<lparr>hDecision := dec, hDecidedBy := who, hDecidedAt := Some now\<rparr>) as"

definition updateDecision ::
  "time \<Rightarrow> ctx \<Rightarrow> ctx \<Rightarrow> string \<Rightarrow> string \<Rightarrow> string \<Rightarrow> attempt list \<Rightarrow>
     (store_error + attempt) \<times> attempt list" where
  "updateDecision now c c2 i dec who as =
     (case ctxErr c of Some e \<Rightarrow> (Inl (EExec e), as)
      | None \<Rightarrow>
        if countWhere (pendingRow i) as = 0 then (Inl (whyNoRow c2 i as), as)
        else if dec \<notin> set decisions then (Inl (EConstraint ''CHECK''), as)
        else (let as' = decidedRows now i dec who as in (attemptGet c2 i as', as')))"

lemmas harness_defs = attemptInsert_def updateProposedPatch_def updateDecision_def decidedRows_def Let_def

text \<open>A decision that could not be read back stands.\<close>

lemma unread_decision_stands:
  assumes "updateDecision now Live c2 i dec who as = (Inl err, as')" "\<exists>a\<in>set as. pendingRow i a" "dec \<in> set decisions"
  shows "as' = decidedRows now i dec who as"
  using assms by (auto simp: updateDecision_def Let_def countWhere_0 split: if_splits)

section \<open>Steps\<close>

datatype attempt_op =
    OpInsert time ctx attempt db
  | OpProposedPatch ctx ctx string string string
  | OpDecide time ctx ctx string string string
  | OpTaskGone string

fun attemptStep :: "attempt_op \<Rightarrow> attempt list \<Rightarrow> attempt list" where
  "attemptStep (OpInsert now c a d) as = committed id as (attemptInsert now c a d as)"
| "attemptStep (OpProposedPatch c c2 i p h) as = committed id as (updateProposedPatch c c2 i p h as)"
| "attemptStep (OpDecide now c c2 i dec who) as = snd (updateDecision now c c2 i dec who as)"
| "attemptStep (OpTaskGone t) as = deleteWhere (\<lambda>a. hTaskID a = t) as"

definition attemptsOk :: "attempt list \<Rightarrow> bool" where
  "attemptsOk as \<longleftrightarrow> distinct (map hID as) \<and> (\<forall>a\<in>set as. hDecision a \<in> set decisions)"

text \<open>What is settled about a decided attempt: the decision, by whom, when, and the patch.\<close>

definition verdict ::
  "attempt list \<Rightarrow> string \<times> string \<Rightarrow> (string \<times> string \<times> time option \<times> string \<times> string) option" where
  "verdict as k = (case lookupBy hID (snd k) as of
     None \<Rightarrow> None
   | Some a \<Rightarrow> if hTaskID a = fst k
       then Some (hDecision a, hDecidedBy a, hDecidedAt a, hProposedPatch a, hProposedHash a)
       else None)"

definition settles :: "string \<times> 'a \<Rightarrow> string \<times> 'a \<Rightarrow> bool" where
  "settles v v' \<longleftrightarrow> fst v = ''pending''"

fun drops :: "string \<times> string \<Rightarrow> attempt_op \<Rightarrow> bool" where
  "drops k (OpTaskGone t) = (fst k = t)"
| "drops k _ = False"

lemma attemptsOk_updateWhere:
  assumes "attemptsOk as" "\<And>a. hID (f a) = hID a" "\<And>a. hDecision (f a) \<in> set decisions \<or> hDecision (f a) = hDecision a"
  shows "attemptsOk (updateWhere p f as)"
proof -
  have "map hID (updateWhere p f as) = map hID as" by (rule keys_updateWhere) (rule assms(2))
  with assms(1) have "distinct (map hID (updateWhere p f as))" by (simp add: attemptsOk_def)
  moreover have "\<forall>a\<in>set (updateWhere p f as). hDecision a \<in> set decisions"
    using assms(1,3) unfolding attemptsOk_def set_updateWhere by force
  ultimately show ?thesis by (simp add: attemptsOk_def)
qed

lemma attemptStep_ok: "attemptsOk as \<Longrightarrow> attemptsOk (attemptStep a as)"
proof (cases a)
  case (OpInsert now c x d)
  moreover assume "attemptsOk as"
  ultimately show ?thesis
    by (auto simp: committed_def attemptInsert_def attemptsOk_def hasKey_iff attemptRowOf_def decisions_def
        split: sum.splits option.splits if_splits)
next
  case (OpTaskGone t)
  moreover assume "attemptsOk as"
  ultimately show ?thesis by (auto simp: attemptsOk_def distinct_keys_deleteWhere)
next
  case (OpProposedPatch c c2 i p h)
  moreover assume "attemptsOk as"
  ultimately show ?thesis
    by (auto simp: committed_def updateProposedPatch_def
        split: sum.splits option.splits if_splits intro!: attemptsOk_updateWhere)
next
  case (OpDecide now c c2 i dec who)
  moreover assume "attemptsOk as"
  ultimately show ?thesis
    by (auto simp: updateDecision_def decidedRows_def Let_def
        split: sum.splits option.splits if_splits intro!: attemptsOk_updateWhere)
qed

lemma lookup_pendingUpdate:
  assumes "\<And>a. hID (f a) = hID a"
  shows "lookupBy hID j (updateWhere (pendingRow i) f as) =
    map_option (\<lambda>a. if pendingRow i a then f a else a) (lookupBy hID j as)"
  by (rule lookupBy_updateWhere) (rule assms)

text \<open>Only a pending attempt changes.\<close>

lemma verdict_update:
  assumes "verdict as k = Some v" "\<And>a. hID (f a) = hID a" "\<And>a. hTaskID (f a) = hTaskID a"
  shows "\<exists>v'. verdict (updateWhere (pendingRow i) f as) k = Some v' \<and> (v' = v \<or> settles v v')"
  using assms(1)
  by (auto simp: verdict_def lookup_pendingUpdate assms(2,3) pendingRow_def settles_def
      split: option.splits if_splits)

lemma attemptStep_verdict:
  assumes "attemptsOk as" "verdict as k = Some v" "\<not> drops k a"
  shows "\<exists>v'. verdict (attemptStep a as) k = Some v' \<and> (v' = v \<or> settles v v')"
proof (cases a)
  case (OpInsert now c x d)
  with assms(2) show ?thesis
    by (auto simp: committed_def attemptInsert_def verdict_def split: sum.splits option.splits if_splits)
next
  case (OpProposedPatch c c2 i p h)
  let ?f = "\<lambda>a. a\<lparr>hProposedPatch := p, hProposedHash := h\<rparr>"
  from OpProposedPatch have "attemptStep a as = as \<or> attemptStep a as = updateWhere (pendingRow i) ?f as"
    by (auto simp: committed_def updateProposedPatch_def split: sum.splits option.splits if_splits)
  then show ?thesis using assms(2) verdict_update [OF assms(2), of ?f i] by (elim disjE) simp_all
next
  case (OpDecide now c c2 i dec who)
  let ?f = "\<lambda>a. a\<lparr>hDecision := dec, hDecidedBy := who, hDecidedAt := Some now\<rparr>"
  from OpDecide have "attemptStep a as = as \<or> attemptStep a as = updateWhere (pendingRow i) ?f as"
    by (auto simp: updateDecision_def decidedRows_def Let_def split: sum.splits option.splits if_splits)
  then show ?thesis using assms(2) verdict_update [OF assms(2), of ?f i] by (elim disjE) simp_all
next
  case (OpTaskGone t)
  with assms show ?thesis
    by (auto simp: verdict_def lookupBy_deleteWhere attemptsOk_def split: option.splits if_splits)
qed

interpretation attempt_status: status_steps attemptStep attemptsOk verdict settles drops
  by unfold_locales (erule attemptStep_ok, rule attemptStep_verdict)

text \<open>C27 (a decision is final). Once an attempt is decided, no sequence of store operations
  (further decisions, late patches of the evolver, inserts) changes its decision, who took it,
  when, or the patch it was taken on, until its task is deleted.\<close>

theorem decision_is_final:
  assumes "attemptsOk as" "verdict as (t, i) = Some (dec, rest)" "dec \<noteq> ''pending''"
    "\<forall>a\<in>set ops. a \<noteq> OpTaskGone t"
  shows "verdict (fold attemptStep ops as) (t, i) = Some (dec, rest)"
  using assms(3,4)
  by (intro attempt_status.run_final [OF assms(1,2)]) (auto simp: settles_def elim!: drops.elims)

definition sampleAttempt :: attempt where
  "sampleAttempt = \<lparr>hID = ''a1'', hTaskID = ''t1'', hReworkRound = 1, hFailureClass = ''review_rework'',
     hObservationMD = ''x'', hProposedPatch = [], hProposedHash = [], hDecision = ''rejected'',
     hDecidedBy = ''user'', hDecidedAt = Some 5, hCreatedAt = 3\<rparr>"

lemma decision_is_final_witness:
  "verdict (fold attemptStep [OpProposedPatch Live Live ''a1'' ''p'' ''h'', OpDecide 9 Live Live ''a1'' ''approved'' ''u'']
     [sampleAttempt]) (''t1'', ''a1'') = Some (''rejected'', ''user'', Some 5, [], [])"
  by (rule decision_is_final) (simp_all add: attemptsOk_def sampleAttempt_def decisions_def verdict_def)

end
