(* ===== verification/Dispatch.thy ===== *)
theory Dispatch
  imports Wave_Scheduler Harness_Store
begin

text \<open>
  The task goroutine of \<open>internal/orchestrator/orchestrator.go\<close>: \<open>Enqueue\<close>, \<open>Cancel\<close> and
  \<open>dispatch\<close> with everything it calls up to \<open>completeTask\<close>. What is not decided in this code,
  the planner and agent sessions, git, the file system and the semaphore, is the record
  \<open>agents\<close>; its functions take the step at which they are called, so that two calls may differ.
\<close>

section \<open>The orchestrator's surroundings\<close>

record plan_result =
  pr_stream :: "chan_case list"
  pr_subs :: "subtask list"
  pr_model :: string
  pr_summary :: string
  pr_usage :: session_usage
  pr_err :: "run_error option"

record session_result =
  ss_stream :: "chan_case list"
  ss_model :: string
  ss_usage :: session_usage
  ss_err :: "run_error option"

record review_decision =
  rdApprove :: bool
  rdFeedback :: string
  rdSummary :: string

record review_result =
  rr_stream :: "chan_case list"
  rr_decision :: review_decision
  rr_model :: string
  rr_usage :: session_usage
  rr_err :: "run_error option"

text \<open>Of the charter the orchestrator reads the rework cap and hands on the text.\<close>

record charter_view =
  cvMaxReworkCount :: int
  cvRawContent :: string

record create_input =
  ciRepoPath :: string
  ciTaskID :: string
  ciBaseBranch :: string

record agents =
  ag_slot :: "nat \<Rightarrow> run_error option"
  ag_planner :: "(nat \<Rightarrow> task \<Rightarrow> plan_result) option"
  ag_runner :: "nat \<Rightarrow> task \<Rightarrow> session_result"
  ag_sched :: "nat \<Rightarrow> sched"
  ag_reviewer :: "(nat \<Rightarrow> task \<Rightarrow> string \<Rightarrow> string \<Rightarrow> int \<Rightarrow> review_result) option"
  ag_missing :: "nat \<Rightarrow> string \<Rightarrow> bool"
  ag_create :: "nat \<Rightarrow> create_input \<Rightarrow> string + string \<times> string"
  ag_diff :: "nat \<Rightarrow> string \<Rightarrow> string \<Rightarrow> string + string"
  ag_waitCut :: "nat \<Rightarrow> bool"
  ag_charter :: "nat \<Rightarrow> charter_view option"
  ag_subtaskStore :: bool
  ag_attemptStore :: bool
  ag_evolver :: bool
  ag_errText :: "store_error \<Rightarrow> string"
  ag_planJSON :: "subtask list \<Rightarrow> string"

text \<open>The goroutines started; the contexts cancelled by \<open>Cancel\<close>; the harness attempts.\<close>

datatype goroutine =
    GoDispatch string
  | GoAIReview string
  | GoEvolver string string int string string string

record orch_world = world +
  w_spawned :: "goroutine list"
  w_cancelled :: "string list"
  w_attempts :: "attempt list"

type_synonym 'a orch = "(orch_world, 'a) state"

definition atStep :: "(nat \<Rightarrow> 'a) \<Rightarrow> ('z world_scheme, 'a) state" where
  "atStep f = State (\<lambda>w. (f (w_step w), w))"

definition ctxDone :: "ctx_name \<Rightarrow> bool orch" where
  "ctxDone c = State (\<lambda>w. (e_ctx (w_env w) c (w_step w) \<noteq> Live, w))"

definition spawn :: "goroutine \<Rightarrow> unit orch" where
  "spawn g = State (\<lambda>w. ((), w\<lparr>w_spawned := w_spawned w @ [g]\<rparr>))"

section \<open>The registry of running tasks\<close>

datatype enqueue_error = ErrEmptyTaskID | ErrShuttingDown | ErrAlreadyRunning

definition enqueue :: "string \<Rightarrow> ('z orch_world_scheme, enqueue_error option) state" where
  "enqueue i = State (\<lambda>w.
     if i = [] then (Some ErrEmptyTaskID, w)
     else if e_ctx (w_env w) RootCtx (w_step w) \<noteq> Live then (Some ErrShuttingDown, w)
     else if map_of (w_running w) i \<noteq> None then (Some ErrAlreadyRunning, w)
     else (None, w\<lparr>w_running := (i, False) # w_running w, w_spawned := w_spawned w @ [GoDispatch i]\<rparr>))"

text \<open>True is success, False is \<open>ErrNotRunning\<close>.\<close>

definition cancelTask :: "string \<Rightarrow> ('z orch_world_scheme, bool) state" where
  "cancelTask i = State (\<lambda>w.
     if map_of (w_running w) i \<noteq> None
     then (True, w\<lparr>w_running := markAborted [i] (w_running w), w_cancelled := w_cancelled w @ [i]\<rparr>)
     else if i \<in> set (w_aiReviews w) then (True, w\<lparr>w_cancelled := w_cancelled w @ [i]\<rparr>)
     else (False, w))"

definition runningIDs :: "string list orch" where
  "runningIDs = State (\<lambda>w. (map fst (w_running w), w))"

definition unregister :: "string \<Rightarrow> unit orch" where
  "unregister i = State (\<lambda>w. ((), w\<lparr>w_running := filter (\<lambda>r. fst r \<noteq> i) (w_running w)\<rparr>))"

section \<open>Failing a task, its worktree\<close>

definition failTask :: "ctx_name \<Rightarrow> string \<Rightarrow> status \<Rightarrow> error_code \<Rightarrow> string \<Rightarrow> unit orch" where
  "failTask c i fr code msg = do {
     r \<leftarrow> mTransition c i fr StatusFailed code msg FinalizationNone;
     case r of Inl _ \<Rightarrow> State_Monad.return () | Inr _ \<Rightarrow> emitStatus c i fr StatusFailed
   }"

definition worktreeMissing :: "(string \<Rightarrow> bool) \<Rightarrow> string \<Rightarrow> bool" where
  "worktreeMissing absent p = (if p = [] then True else absent p)"

text \<open>The task as it stands afterwards, or nothing when it was failed.\<close>

definition ensureWorktree :: "agents \<Rightarrow> task \<Rightarrow> string \<Rightarrow> task option orch" where
  "ensureWorktree a t repo = do {
     absent \<leftarrow> atStep (ag_missing a);
     let needCreate = (tWorktreePath t = [] \<or> worktreeMissing absent (tWorktreePath t));
     if \<not> needCreate \<and> \<not> tBranchExists t then do {
       failTask TaskCtx (tID t) (tStatus t) ErrCodeInterrupted
         (''worktree branch '' @ tBranch t @ '' was removed externally'');
       State_Monad.return None
     }
     else if needCreate then
       if tWorktreePath t \<noteq> [] then do {
         failTask TaskCtx (tID t) (tStatus t) ErrCodeInterrupted
           (''worktree directory '' @ tWorktreePath t @ '' no longer exists'');
         State_Monad.return None
       }
       else do {
         create \<leftarrow> atStep (ag_create a);
         case create \<lparr>ciRepoPath = repo, ciTaskID = tID t, ciBaseBranch = tBaseBranch t\<rparr> of
           Inl err \<Rightarrow> do {
             failTask TaskCtx (tID t) (tStatus t) ErrCodeRuntime (''worktree: '' @ err);
             State_Monad.return None
           }
         | Inr (path, branch) \<Rightarrow>
             State_Monad.return (Some (t\<lparr>tWorktreePath := path, tBranch := branch\<rparr>))
       }
     else State_Monad.return (Some t)
   }"

section \<open>Planning\<close>

definition recordPlanModel :: "task \<Rightarrow> string \<Rightarrow> task orch" where
  "recordPlanModel t m =
     (if m \<noteq> [] \<and> m \<noteq> tPlanModel t then do {
        _ \<leftarrow> mUpdateFields TaskCtx (t\<lparr>tPlanModel := m\<rparr>);
        State_Monad.return (t\<lparr>tPlanModel := m\<rparr>)
      } else State_Monad.return t)"

definition persistPlan :: "agents \<Rightarrow> task \<Rightarrow> plan_result \<Rightarrow> task option orch" where
  "persistPlan a t p = do {
     r \<leftarrow> mCreatePlan TaskCtx (tID t) (pr_subs p);
     case r of
       Inl e \<Rightarrow> do {
         failTask TaskCtx (tID t) StatusPlanning ErrCodeRuntime (''planner persist: '' @ ag_errText a e);
         State_Monad.return None
       }
     | Inr (rnd, subs) \<Rightarrow> do {
         writeArtifact (tID t) ''artifacts/plan.json'' (ag_planJSON a subs);
         (if pr_summary p \<noteq> []
          then appendAuxEvent TaskCtx (tID t) (blankEvent EventPlanSummary (PPlanSummary rnd (pr_summary p)))
          else State_Monad.return ());
         r2 \<leftarrow> mTransition TaskCtx (tID t) StatusPlanning StatusInProgress ErrCodeNone [] FinalizationNone;
         case r2 of
           Inl e \<Rightarrow> do {
             failTask TaskCtx (tID t) StatusPlanning ErrCodeRuntime
               (''planning'' @ [CHR 0xE2, CHR 0x86, CHR 0x92] @ ''in_progress: '' @ ag_errText a e);
             State_Monad.return None
           }
         | Inr _ \<Rightarrow> do {
             emitStatus TaskCtx (tID t) StatusPlanning StatusInProgress;
             State_Monad.return (Some (t\<lparr>tStatus := StatusInProgress\<rparr>))
           }
       }
   }"

definition acceptPlan :: "agents \<Rightarrow> task \<Rightarrow> plan_result \<Rightarrow> task option orch" where
  "acceptPlan a t p = do { t1 \<leftarrow> recordPlanModel t (pr_model p); persistPlan a t1 p }"

definition abortPlanning :: "string \<Rightarrow> run_error \<Rightarrow> unit orch" where
  "abortPlanning i e = do {
     abort \<leftarrow> abortedByUser i;
     if abort then do {
       r \<leftarrow> mTransition TaskCtx i StatusPlanning StatusAborted ErrCodeNone [] FinalizationNone;
       case r of Inl _ \<Rightarrow> State_Monad.return ()
       | Inr _ \<Rightarrow> emitStatus TaskCtx i StatusPlanning StatusAborted
     }
     else failTask TaskCtx i StatusPlanning ErrCodeRuntime (''planner: '' @ errText e)
   }"

definition runPlanningPhase :: "agents \<Rightarrow> (nat \<Rightarrow> task \<Rightarrow> plan_result) \<Rightarrow> task \<Rightarrow> task option orch" where
  "runPlanningPhase a planner t = do {
     plan \<leftarrow> atStep planner;
     let p = plan t;
     _ \<leftarrow> consumeEvents TaskCtx (tID t) (pr_stream p);
     emitUsageEvent TaskCtx (tID t) ''plan'' [] (pr_usage p);
     case pr_err p of
       Some e \<Rightarrow> do { abortPlanning (tID t) e; State_Monad.return None }
     | None \<Rightarrow> acceptPlan a t p
   }"

section \<open>Running the agent\<close>

definition listSubtasks :: "agents \<Rightarrow> ctx_name \<Rightarrow> string \<Rightarrow> (store_error + subtask list) orch" where
  "listSubtasks a c i =
     (if ag_subtaskStore a then storeRead c (\<lambda>cx d. subtaskListLatestRound cx i d)
      else State_Monad.return (Inr []))"

definition runSingleSession :: "agents \<Rightarrow> task \<Rightarrow> run_outcome orch" where
  "runSingleSession a t = do {
     session \<leftarrow> atStep (ag_runner a);
     let s = session t;
     _ \<leftarrow> consumeEvents TaskCtx (tID t) (ss_stream s);
     emitUsageEvent TaskCtx (tID t) ''code'' [] (ss_usage s);
     (if ss_model s \<noteq> [] \<and> tModel t = [] then do {
        _ \<leftarrow> mUpdateFields TaskCtx (t\<lparr>tModel := ss_model s\<rparr>);
        State_Monad.return ()
      } else State_Monad.return ());
     abort \<leftarrow> abortedByUser (tID t);
     State_Monad.return \<lparr>ro_runErr = ss_err s, ro_abortByUser = abort\<rparr>
   }"

text \<open>Nothing is the subtask loop out of fuel.\<close>

definition runAgent :: "agents \<Rightarrow> task \<Rightarrow> run_outcome option orch" where
  "runAgent a t = do {
     r \<leftarrow> listSubtasks a TaskCtx (tID t);
     let subs = (case r of Inl _ \<Rightarrow> [] | Inr ss \<Rightarrow> ss);
     if subs = [] then do { out \<leftarrow> runSingleSession a t; State_Monad.return (Some out) }
     else do {
       sc \<leftarrow> atStep (ag_sched a);
       (out, _) \<leftarrow> runSubtaskLoop sc t subs;
       State_Monad.return out
     }
   }"

section \<open>The end of a run\<close>

definition completeTask :: "string \<Rightarrow> run_outcome \<Rightarrow> unit orch" where
  "completeTask i out =
     (if ro_abortByUser out then do {
        r \<leftarrow> mTransition Background i StatusInProgress StatusAborted ErrCodeNone [] FinalizationNone;
        case r of Inl _ \<Rightarrow> State_Monad.return ()
        | Inr _ \<Rightarrow> do {
            emitStatus Background i StatusInProgress StatusAborted;
            notify Background i StatusAborted []
          }
      }
      else case ro_runErr out of
        None \<Rightarrow> do {
          r \<leftarrow> mTransition Background i StatusInProgress StatusAIReview ErrCodeNone [] FinalizationNone;
          case r of Inl _ \<Rightarrow> State_Monad.return ()
          | Inr _ \<Rightarrow> do {
              emitStatus Background i StatusInProgress StatusAIReview;
              spawn (GoAIReview i);
              notify Background i StatusAIReview []
            }
        }
      | Some e \<Rightarrow> do {
          failTask Background i StatusInProgress
            (case e of RunDeadline _ \<Rightarrow> ErrCodeTimeout | _ \<Rightarrow> ErrCodeRuntime) (errText e);
          notify Background i StatusFailed (errText e)
        })"

section \<open>The dispatcher\<close>

text \<open>The dispatcher in the order of its early returns. False is the subtask loop out of fuel.\<close>

definition planTask :: "agents \<Rightarrow> task \<Rightarrow> task option orch" where
  "planTask a t = (case ag_planner a of None \<Rightarrow> State_Monad.return (Some t)
     | Some planner \<Rightarrow> runPlanningPhase a planner t)"

definition executeTask :: "agents \<Rightarrow> string \<Rightarrow> task \<Rightarrow> bool orch" where
  "executeTask a i t = do {
     out \<leftarrow> runAgent a t;
     case out of None \<Rightarrow> State_Monad.return False
     | Some o2 \<Rightarrow> do { completeTask i o2; State_Monad.return True }
   }"

definition planAndExecute :: "agents \<Rightarrow> string \<Rightarrow> task \<Rightarrow> bool orch" where
  "planAndExecute a i t = do {
     _ \<leftarrow> mUpdateFields TaskCtx t;
     pt \<leftarrow> planTask a t;
     case pt of None \<Rightarrow> State_Monad.return True | Some t1 \<Rightarrow> executeTask a i t1
   }"

definition prepareTask :: "agents \<Rightarrow> string \<Rightarrow> task \<Rightarrow> string \<Rightarrow> bool orch" where
  "prepareTask a i t repo = do {
     wt \<leftarrow> ensureWorktree a t repo;
     case wt of None \<Rightarrow> State_Monad.return True | Some t1 \<Rightarrow> planAndExecute a i t1
   }"

definition admitTask :: "agents \<Rightarrow> string \<Rightarrow> task \<Rightarrow> string \<Rightarrow> bool orch" where
  "admitTask a i t repo =
     (let first = (if ag_planner a = None then StatusInProgress else StatusPlanning)
      in do {
        r \<leftarrow> mTransition TaskCtx i StatusQueued first ErrCodeNone [] FinalizationNone;
        case r of Inl _ \<Rightarrow> State_Monad.return True
        | Inr _ \<Rightarrow> do {
            emitStatus TaskCtx i StatusQueued first;
            _ \<leftarrow> mTouchLastUsed TaskCtx (tRepoID t);
            prepareTask a i (t\<lparr>tStatus := first\<rparr>) repo
          }
      })"

definition failRepoLookup :: "agents \<Rightarrow> string \<Rightarrow> store_error \<Rightarrow> unit orch" where
  "failRepoLookup a i e = do {
     r \<leftarrow> mTransition TaskCtx i StatusQueued StatusPlanning ErrCodeNone [] FinalizationNone;
     case r of Inl _ \<Rightarrow> State_Monad.return ()
     | Inr _ \<Rightarrow> do {
         emitStatus TaskCtx i StatusQueued StatusPlanning;
         failTask TaskCtx i StatusPlanning ErrCodeRuntime (''repo lookup: '' @ ag_errText a e)
       }
   }"

definition openTask :: "agents \<Rightarrow> string \<Rightarrow> task \<Rightarrow> bool orch" where
  "openTask a i t = do {
     rp \<leftarrow> mRepoPath TaskCtx (tRepoID t);
     case rp of
       Inl e \<Rightarrow> do { failRepoLookup a i e; State_Monad.return True }
     | Inr repo \<Rightarrow> admitTask a i t repo
   }"

definition dispatchBody :: "agents \<Rightarrow> string \<Rightarrow> bool orch" where
  "dispatchBody a i = do {
     slot \<leftarrow> atStep (ag_slot a);
     case slot of Some _ \<Rightarrow> State_Monad.return True
     | None \<Rightarrow> do {
         rt \<leftarrow> mTaskGet TaskCtx i;
         case rt of Inl _ \<Rightarrow> State_Monad.return True | Inr t \<Rightarrow> openTask a i t
       }
   }"

definition dispatch :: "agents \<Rightarrow> string \<Rightarrow> bool orch" where
  "dispatch a i = do { ok \<leftarrow> dispatchBody a i; unregister i; State_Monad.return ok }"

section \<open>What a call may return\<close>

definition returns :: "('a \<Rightarrow> bool) \<Rightarrow> ('w, 'a) state \<Rightarrow> bool" where
  "returns P m \<longleftrightarrow> (\<forall>w. P (fst (run_state m w)))"

named_theorems returns_intros "what programs return"

lemma returns_return [returns_intros]: "P x \<Longrightarrow> returns P (State_Monad.return x)"
  by (simp add: returns_def)

lemma returns_bind [returns_intros]:
  "(\<And>x. returns P (f x)) \<Longrightarrow> returns P (State_Monad.bind m f)"
  by (simp add: returns_def split: prod.splits)

lemma returns_bind_via:
  "returns R m \<Longrightarrow> (\<And>x. R x \<Longrightarrow> returns P (f x)) \<Longrightarrow> returns P (State_Monad.bind m f)"
  by (simp add: returns_def split: prod.splits) (metis fst_conv)

lemma returns_if [returns_intros]:
  "(b \<Longrightarrow> returns P m) \<Longrightarrow> (\<not> b \<Longrightarrow> returns P n) \<Longrightarrow> returns P (if b then m else n)"
  by simp

lemma returns_case_sum [returns_intros]:
  "(\<And>a. x = Inl a \<Longrightarrow> returns P (f a)) \<Longrightarrow> (\<And>b. x = Inr b \<Longrightarrow> returns P (g b)) \<Longrightarrow>
   returns P (case x of Inl a \<Rightarrow> f a | Inr b \<Rightarrow> g b)"
  by (cases x) auto

lemma returns_case_option [returns_intros]:
  "(x = None \<Longrightarrow> returns P m) \<Longrightarrow> (\<And>b. x = Some b \<Longrightarrow> returns P (g b)) \<Longrightarrow>
   returns P (case x of None \<Rightarrow> m | Some b \<Rightarrow> g b)"
  by (cases x) auto

lemma returns_case_prod [returns_intros]:
  "(\<And>a b. returns P (f a b)) \<Longrightarrow> returns P (case x of (a, b) \<Rightarrow> f a b)"
  by (cases x) auto

lemma effects_bind_via:
  fixes m :: "('z world_scheme, 'a) state"
  assumes m: "effects Q m" and R: "returns R m" and f: "\<And>x. R x \<Longrightarrow> effects Q (f x)"
  shows "effects Q (State_Monad.bind m f)"
proof -
  let ?f = "\<lambda>x. if R x then f x else State (\<lambda>w. (fst (run_state (f x) w), w))"
  have "effects Q (?f x)" for x
    using f by (cases "R x") (auto intro: effects_pure)
  then have "effects Q (State_Monad.bind m ?f)" by (rule effects_bind [OF m])
  moreover have "run_state (State_Monad.bind m ?f) w = run_state (State_Monad.bind m f) w" for w
    using R unfolding returns_def by (simp split: prod.splits) (metis fst_conv)
  ultimately show ?thesis by (simp add: effects_def)
qed

abbreviation whenInr :: "('a \<Rightarrow> bool) \<Rightarrow> 'e + 'a \<Rightarrow> bool" where
  "whenInr P r \<equiv> (case r of Inl _ \<Rightarrow> True | Inr x \<Rightarrow> P x)"

abbreviation whenSome :: "('a \<Rightarrow> bool) \<Rightarrow> 'a option \<Rightarrow> bool" where
  "whenSome P r \<equiv> (case r of None \<Rightarrow> True | Some x \<Rightarrow> P x)"

lemma returns_mTaskGet: "returns (whenInr (\<lambda>t. tID t = i)) (mTaskGet c i)"
  by (auto simp: returns_def mTaskGet_def storeRead_def taskGet_def dest: lookupBy_SomeD
      split: sum.splits option.splits)

lemma returns_ensureWorktree:
  "returns (whenSome (\<lambda>t'. tID t' = tID t \<and> tStatus t' = tStatus t)) (ensureWorktree a t repo)"
  unfolding ensureWorktree_def Let_def by (intro returns_intros) simp_all

lemma returns_recordPlanModel: "returns (\<lambda>t'. tID t' = tID t) (recordPlanModel t m)"
  unfolding recordPlanModel_def by (intro returns_intros) simp_all

lemma returns_persistPlan: "returns (whenSome (\<lambda>t'. tID t' = tID t)) (persistPlan a t p)"
  unfolding persistPlan_def by (intro returns_intros) simp_all

lemma returns_acceptPlan: "returns (whenSome (\<lambda>t'. tID t' = tID t)) (acceptPlan a t p)"
  unfolding acceptPlan_def
  by (rule returns_bind_via [OF returns_recordPlanModel]) (metis returns_persistPlan)

lemma returns_planTask: "returns (whenSome (\<lambda>t'. tID t' = tID t)) (planTask a t)"
  unfolding planTask_def runPlanningPhase_def Let_def
  by (intro returns_intros returns_acceptPlan) simp_all

section \<open>What the dispatcher writes\<close>

lemma effects_atStep [effects_intros]: "effects Q (atStep f)"
  by (rule effects_pure) (simp_all add: atStep_def)

lemma effects_ctxDone [effects_intros]: "effects Q (ctxDone c)"
  by (rule effects_pure) (simp_all add: ctxDone_def)

lemma effects_spawn [effects_intros]: "effects Q (spawn g)"
  by (rule effects_pure) (simp_all add: spawn_def)

lemma effects_unregister [effects_intros]: "effects Q (unregister i)"
  by (rule effects_pure) (simp_all add: unregister_def)

lemma effects_enqueue [effects_intros]: "effects Q (enqueue i)"
  by (rule effects_pure) (simp_all add: enqueue_def)

lemma effects_cancelTask [effects_intros]: "effects Q (cancelTask i)"
  by (rule effects_pure) (simp_all add: cancelTask_def)

lemma effects_failTask [effects_intros]:
  "(\<And>now cx. Q (OpTransition now cx i fr StatusFailed code msg FinalizationNone)) \<Longrightarrow>
   (\<And>a. logsFor i a \<Longrightarrow> Q a) \<Longrightarrow> effects Q (failTask c i fr code msg)"
  unfolding failTask_def by (intro effects_intros)

lemma effects_listSubtasks [effects_intros]: "effects Q (listSubtasks a c i)"
  unfolding listSubtasks_def by (intro effects_intros)

text \<open>The edges a dispatcher takes, and the operations it may issue for task \<open>i\<close>.\<close>

definition runEdge :: "status \<Rightarrow> status \<Rightarrow> bool" where
  "runEdge s s' \<longleftrightarrow> (s, s') \<in> {(StatusQueued, StatusPlanning), (StatusQueued, StatusInProgress),
     (StatusPlanning, StatusInProgress), (StatusPlanning, StatusFailed), (StatusPlanning, StatusAborted),
     (StatusInProgress, StatusAIReview), (StatusInProgress, StatusFailed), (StatusInProgress, StatusAborted)}"

fun dispatchOp :: "string \<Rightarrow> db_op \<Rightarrow> bool" where
  "dispatchOp i (OpTransition now c j s s' code msg fin) = (j = i \<and> runEdge s s')"
| "dispatchOp i (OpUpdateFields now c t) = (tID t = i)"
| "dispatchOp i (OpCreatePlan now c p ss) = (p = i)"
| "dispatchOp i (OpRepoTouchLastUsed now c r) = True"
| "dispatchOp i a = roundOp i a"

lemma round_dispatchOp: "roundOp i a \<Longrightarrow> dispatchOp i a"
  by (cases a) simp_all

lemma logs_dispatchOp: "logsFor i a \<Longrightarrow> dispatchOp i a"
  by (simp add: logs_roundOp round_dispatchOp)

lemmas dispatchOp_simps = logs_dispatchOp runEdge_def

lemma effects_ensureWorktree:
  "tID t = i \<Longrightarrow> tStatus t = StatusPlanning \<or> tStatus t = StatusInProgress \<Longrightarrow>
   effects (dispatchOp i) (ensureWorktree a t repo)"
  unfolding ensureWorktree_def Let_def
  by (intro effects_intros) (auto simp: dispatchOp_simps)

lemma effects_recordPlanModel: "tID t = i \<Longrightarrow> effects (dispatchOp i) (recordPlanModel t m)"
  unfolding recordPlanModel_def by (intro effects_intros) simp_all

lemma effects_persistPlan: "tID t = i \<Longrightarrow> effects (dispatchOp i) (persistPlan a t p)"
  unfolding persistPlan_def by (intro effects_intros) (simp_all add: dispatchOp_simps)

lemma effects_abortPlanning: "effects (dispatchOp i) (abortPlanning i e)"
  unfolding abortPlanning_def by (intro effects_intros) (simp_all add: dispatchOp_simps)

lemma effects_acceptPlan: "tID t = i \<Longrightarrow> effects (dispatchOp i) (acceptPlan a t p)"
  unfolding acceptPlan_def
  by (rule effects_bind_via [OF effects_recordPlanModel returns_recordPlanModel])
    (simp_all add: effects_persistPlan)

lemma effects_planTask: "tID t = i \<Longrightarrow> effects (dispatchOp i) (planTask a t)"
  unfolding planTask_def runPlanningPhase_def Let_def
  by (intro effects_intros effects_acceptPlan) (simp_all add: dispatchOp_simps effects_abortPlanning)

lemma effects_runSingleSession: "tID t = i \<Longrightarrow> effects (dispatchOp i) (runSingleSession a t)"
  unfolding runSingleSession_def Let_def by (intro effects_intros) (simp_all add: dispatchOp_simps)

lemma effects_runAgent: "tID t = i \<Longrightarrow> effects (dispatchOp i) (runAgent a t)"
  unfolding runAgent_def Let_def
  by (intro effects_intros effects_runSingleSession)
    (auto intro: effects_mono [OF effects_runSubtaskLoop] round_dispatchOp)

lemma effects_completeTask: "effects (dispatchOp i) (completeTask i out)"
  unfolding completeTask_def by (intro effects_intros) (simp_all add: dispatchOp_simps)

lemma effects_executeTask: "tID t = i \<Longrightarrow> effects (dispatchOp i) (executeTask a i t)"
  unfolding executeTask_def by (intro effects_intros effects_runAgent effects_completeTask)

lemma effects_planAndExecute:
  assumes "tID t = i"
  shows "effects (dispatchOp i) (planAndExecute a i t)"
  unfolding planAndExecute_def
  by (intro effects_bind effects_mUpdateFields
      effects_bind_via [OF effects_planTask returns_planTask] effects_case_option effects_return)
    (simp_all add: assms effects_executeTask)

lemma effects_prepareTask:
  assumes "tID t = i" "tStatus t = StatusPlanning \<or> tStatus t = StatusInProgress"
  shows "effects (dispatchOp i) (prepareTask a i t repo)"
  unfolding prepareTask_def
  by (rule effects_bind_via [OF effects_ensureWorktree returns_ensureWorktree])
    (use assms in \<open>auto split: option.splits intro: effects_return effects_planAndExecute\<close>)

lemma effects_admitTask: "tID t = i \<Longrightarrow> effects (dispatchOp i) (admitTask a i t repo)"
  unfolding admitTask_def Let_def
  by (intro effects_intros effects_prepareTask) (simp_all add: dispatchOp_simps)

lemma effects_openTask: "tID t = i \<Longrightarrow> effects (dispatchOp i) (openTask a i t)"
  unfolding openTask_def failRepoLookup_def
  by (intro effects_intros effects_admitTask) (simp_all add: dispatchOp_simps)

lemma effects_dispatch: "effects (dispatchOp i) (dispatch a i)"
  unfolding dispatch_def dispatchBody_def
  by (intro effects_bind effects_case_option effects_return effects_atStep effects_unregister
      effects_bind_via [OF effects_mTaskGet returns_mTaskGet] effects_case_sum)
    (auto intro: effects_openTask)

end
