(* ===== verification/Dispatch_Theorems.thy ===== *)
theory Dispatch_Theorems
  imports Dispatch
begin

text \<open>
  What a dispatch does to the task it runs, to the other tasks and to the database, and how it
  ends on each of its ways out.
\<close>

section \<open>Alone with the database\<close>

lemma otherOp_quiet: "quiet w \<Longrightarrow> \<not> otherOp (w_env w) a"
  by (simp add: quiet_def otherOp_def)

lemma effects_quiet:
  assumes "effects Q m" "quiet w"
  obtains ops where "w_db (snd (run_state m w)) = dbRun ops (w_db w)" "\<forall>a\<in>set ops. Q a"
    "w_env (snd (run_state m w)) = w_env w"
  using assms otherOp_quiet unfolding effects_def by metis

lemma effects_quiet_keep:
  assumes "effects Q m" "quiet w"
    and keep: "\<And>a d. Q a \<Longrightarrow> wfDB d \<Longrightarrow> P d \<Longrightarrow> P (dbStep a d)" and "wfDB (w_db w)" "P (w_db w)"
  shows "P (w_db (snd (run_state m w)))"
proof -
  from assms(1,2) obtain ops where r: "w_db (snd (run_state m w)) = dbRun ops (w_db w)"
    and q: "\<forall>a\<in>set ops. Q a" by (rule effects_quiet)
  have "wfDB d \<Longrightarrow> P d \<Longrightarrow> \<forall>a\<in>set ops. Q a \<Longrightarrow> P (dbRun ops d)" for d
    by (induction ops arbitrary: d) (auto simp: dbRun_def keep dbStep_wf)
  with assms(4,5) q show ?thesis by (simp add: r)
qed

lemma effects_logs_tasks:
  assumes "effects (logsFor i) m" "quiet w"
  shows "tasks (w_db (snd (run_state m w))) = tasks (w_db w)" "w_env (snd (run_state m w)) = w_env w"
proof -
  from assms obtain ops where ops: "w_db (snd (run_state m w)) = dbRun ops (w_db w)" "\<forall>a\<in>set ops. logsFor i a"
    "w_env (snd (run_state m w)) = w_env w" by (rule effects_quiet)
  have "\<forall>a\<in>set ops. logsFor i a \<Longrightarrow> tasks (dbRun ops d) = tasks d" for d
  proof (induction ops arbitrary: d)
    case (Cons a ops)
    then have "\<not> touchesTasks a" by (cases a) simp_all
    with Cons show ?case by (simp add: dbRun_def dbStep_tasks)
  qed simp
  with ops show "tasks (w_db (snd (run_state m w))) = tasks (w_db w)"
    "w_env (snd (run_state m w)) = w_env w" by simp_all
qed

text \<open>What an operation of another task's dispatcher leaves alone.\<close>

lemma insertEvent_others:
  "insertEvent e d = Inr d' \<Longrightarrow> eTaskID e \<noteq> j \<Longrightarrow>
     filter (\<lambda>x. eTaskID x = j) (events d') = filter (\<lambda>x. eTaskID x = j) (events d)"
  by (auto dest!: insertEvent_InrD)

lemma appendChunk_others:
  "appendChunk es d = Inr d' \<Longrightarrow> \<forall>e\<in>set es. eTaskID e \<noteq> j \<Longrightarrow>
     filter (\<lambda>x. eTaskID x = j) (events d') = filter (\<lambda>x. eTaskID x = j) (events d)"
  by (induction es arbitrary: d) (auto dest: insertEvent_others split: sum.splits)

lemma log_others:
  assumes "logsFor i a" "j \<noteq> i"
  shows "tasks (dbStep a d) = tasks d"
    "filter (\<lambda>x. eTaskID x = j) (events (dbStep a d)) = filter (\<lambda>x. eTaskID x = j) (events d)"
proof -
  have "\<not> touchesTasks a" using assms by (cases a) simp_all
  then show "tasks (dbStep a d) = tasks d" by (rule dbStep_tasks)
  show "filter (\<lambda>x. eTaskID x = j) (events (dbStep a d)) = filter (\<lambda>x. eTaskID x = j) (events d)"
  proof (cases a)
    case (OpEventAppendAutoSeq now c e)
    show ?thesis
    proof (cases "appendAutoSeq now c e d")
      case (Inr x)
      obtain d' e' where x: "x = (d', e')" by (cases x)
      from appendAutoSeq_InrD(1,3) [OF Inr [unfolded x]]
      have "events d' = events d @ [stampEvent now d e]" using insertEvent_InrD by fastforce
      with Inr x OpEventAppendAutoSeq assms show ?thesis by (simp add: committed_def stampEvent_def)
    qed (simp add: OpEventAppendAutoSeq committed_def)
  next
    case (OpEventAppendBatch c es)
    with assms show ?thesis
      by (auto simp: committed_def appendBatch_def appendChunks_eq dest!: appendChunk_others [where j = j]
          split: sum.splits option.splits if_splits)
  qed (use assms in simp_all)
qed

text \<open>\<open>apartFrom j d d'\<close>: the row and the log of task \<open>j\<close> are the same in both.\<close>

definition apartFrom :: "string \<Rightarrow> db \<Rightarrow> db \<Rightarrow> bool" where
  "apartFrom j d d' \<longleftrightarrow> lookupBy r_id j (tasks d') = lookupBy r_id j (tasks d) \<and>
     filter (\<lambda>x. eTaskID x = j) (events d') = filter (\<lambda>x. eTaskID x = j) (events d)"

lemma apartFrom_refl [simp]: "apartFrom j d d"
  by (simp add: apartFrom_def)

lemma apartFrom_trans: "apartFrom j d d1 \<Longrightarrow> apartFrom j d1 d2 \<Longrightarrow> apartFrom j d d2"
  by (simp add: apartFrom_def)

lemma apartFrom_tasks: "tasks d' = tasks d \<Longrightarrow> events d' = events d \<Longrightarrow> apartFrom j d d'"
  by (simp add: apartFrom_def)

lemma log_apart: "logsFor i a \<Longrightarrow> j \<noteq> i \<Longrightarrow> apartFrom j d (dbStep a d)"
  using log_others by (simp add: apartFrom_def)

lemma dispatchOp_apart:
  assumes "dispatchOp i a" "j \<noteq> i" "wfDB d"
  shows "apartFrom j d (dbStep a d)"
proof (cases a)
  case (OpTransition now c k s s' code msg fin)
  show ?thesis
  proof (cases "transition now c k s s' code msg fin d")
    case (Inr d')
    then have "events d' = events d" by (auto elim!: transition_InrD)
    with transition_status(4) [OF wfDB_task_keys [OF assms(3)] Inr, of j] Inr OpTransition assms(1,2)
    show ?thesis by (simp add: apartFrom_def committed_def)
  qed (simp add: OpTransition committed_def)
next
  case (OpUpdateFields now c t)
  with assms(1,2) have "tID t \<noteq> j" by simp
  then show ?thesis
    by (cases "lookupBy r_id j (tasks d)")
      (auto simp: OpUpdateFields apartFrom_def committed_def updateFields_def Let_def
        lookupBy_updateWhere dest: lookupBy_SomeD split: sum.splits option.splits if_splits)
next
  case (OpCreatePlan now c p ss)
  then show ?thesis
    by (cases "createPlan now c p ss d")
      (auto simp: committed_def intro!: apartFrom_tasks dest: createPlan_InrD)
next
  case (OpRepoTouchLastUsed now c r)
  then show ?thesis
    by (auto simp: committed_def repoTouchLastUsed_def intro!: apartFrom_tasks split: option.splits sum.splits)
next
  case (OpSubtaskUpdate now c s)
  then show ?thesis
    by (auto simp: committed_def subtaskUpdate_def Let_def intro!: apartFrom_tasks
        split: option.splits sum.splits if_splits)
next
  case (OpEventAppendAutoSeq now c e)
  with assms show ?thesis by (intro log_apart [of i]) simp_all
next
  case (OpEventAppendBatch c es)
  with assms show ?thesis by (intro log_apart [of i]) simp_all
qed (use assms in simp_all)

lemma dispatchOp_edge:
  assumes "dispatchOp i a" "wfDB d" "taskStatus d i = Some s"
  shows "\<exists>s'. taskStatus (dbStep a d) i = Some s' \<and> (s' = s \<or> runEdge s s')"
proof (cases "touchesTasks a")
  case False
  from taskStatus_tasks [OF dbStep_tasks [OF this]] assms(3) show ?thesis by metis
next
  case touches: True
  show ?thesis
  proof (cases a)
  case (OpTransition now c k st st' code msg fin)
  show ?thesis
  proof (cases "transition now c k st st' code msg fin d")
    case (Inr d')
    from transition_status(1,2) [OF wfDB_task_keys [OF assms(2)] Inr] OpTransition assms(1,3) Inr
    show ?thesis by (simp add: committed_def)
  qed (simp add: OpTransition committed_def assms(3))
next
  case (OpUpdateFields now c t)
  from taskStatus_SomeD [OF assms(3)] obtain r where r: "lookupBy r_id i (tasks d) = Some r" "r_status r = s"
    by blast
  have "taskStatus (dbStep a d) i = Some s"
  proof (cases "updateFields now c t d")
    case (Inr d')
    then have "d' = d\<lparr>tasks := updateWhere (\<lambda>r. r_id r = tID t \<and> r_status r = tStatus t)
      (updateFieldsRow now t) (tasks d)\<rparr>"
      by (auto simp: updateFields_def Let_def split: option.splits if_splits)
    with Inr r show ?thesis by (simp add: OpUpdateFields committed_def taskStatus_updateWhere)
  qed (simp add: OpUpdateFields committed_def assms(3))
  then show ?thesis by blast
  qed (use assms(1) touches in simp_all)
qed

section \<open>Programs that only log\<close>

text \<open>The orchestrator's own books: what it spawned, cancelled, recorded and announced, and which
  tasks it has registered.\<close>

definition books :: "'z orch_world_scheme \<Rightarrow>
    goroutine list \<times> string list \<times> attempt list \<times> (string \<times> string \<times> status \<times> string) list \<times>
    string list \<times> string list" where
  "books w = (w_spawned w, w_cancelled w, w_attempts w, w_notified w, w_aiReviews w, map fst (w_running w))"

definition keepsBooks :: "('z orch_world_scheme, 'a) state \<Rightarrow> bool" where
  "keepsBooks m \<longleftrightarrow> (\<forall>w. books (snd (run_state m w)) = books w)"

named_theorems keeps_intros "programs that keep the books"

lemma keeps_return [keeps_intros]: "keepsBooks (State_Monad.return x)"
  by (simp add: keepsBooks_def)

lemma keeps_bind [keeps_intros]: "keepsBooks m \<Longrightarrow> (\<And>x. keepsBooks (f x)) \<Longrightarrow> keepsBooks (State_Monad.bind m f)"
  by (simp add: keepsBooks_def split: prod.splits) (metis snd_conv)

lemma keeps_if [keeps_intros]:
  "(b \<Longrightarrow> keepsBooks m) \<Longrightarrow> (\<not> b \<Longrightarrow> keepsBooks n) \<Longrightarrow> keepsBooks (if b then m else n)"
  by simp

lemma keeps_case_sum [keeps_intros]:
  "(\<And>a. keepsBooks (f a)) \<Longrightarrow> (\<And>b. keepsBooks (g b)) \<Longrightarrow> keepsBooks (case x of Inl a \<Rightarrow> f a | Inr b \<Rightarrow> g b)"
  by (cases x) auto

lemma keeps_case_option [keeps_intros]:
  "keepsBooks m \<Longrightarrow> (\<And>b. keepsBooks (g b)) \<Longrightarrow> keepsBooks (case x of None \<Rightarrow> m | Some b \<Rightarrow> g b)"
  by (cases x) auto

lemma books_stepped [simp]: "books (stepped w) = books w"
  by (simp add: books_def stepped_def markAborted_def comp_def case_prod_unfold)

lemma books_sel [simp]:
  "books (w\<lparr>w_db := d\<rparr>) = books w" "books (w\<lparr>w_sink := s\<rparr>) = books w"
  "books (w\<lparr>w_history := h\<rparr>) = books w" "books (w\<lparr>w_artifacts := x\<rparr>) = books w"
  "books (w\<lparr>w_step := n\<rparr>) = books w"
  by (simp_all add: books_def)

lemma keeps_primitives [keeps_intros]:
  "keepsBooks (storeWrite c f)" "keepsBooks (storeRead c q)" "keepsBooks newULID" "keepsBooks readClock"
  "keepsBooks (sink e)" "keepsBooks (appendHistory t e)" "keepsBooks (writeArtifact t p x)"
  "keepsBooks (abortedByUser t)" "keepsBooks (atStep g)" "keepsBooks (ctxDone c)"
  by (auto simp: keepsBooks_def storeWrite_def storeRead_def newULID_def readClock_def sink_def
      appendHistory_def writeArtifact_def abortedByUser_def atStep_def ctxDone_def split: sum.splits)

lemma keeps_store_calls [keeps_intros]:
  "keepsBooks (mTransition c i s s' code msg fin)" "keepsBooks (mUpdateFields c t)"
  "keepsBooks (mAppendAutoSeq c e)" "keepsBooks (mAppendBatch c es)" "keepsBooks (mTaskGet c i)"
  "keepsBooks (mCreatePlan c p ss)" "keepsBooks (mRepoPath c i)" "keepsBooks (mTouchLastUsed c i)"
  unfolding store_calls by (rule keeps_primitives)+

lemma keeps_emit [keeps_intros]:
  "keepsBooks (appendAuxEvent c t ev)" "keepsBooks (emitStatus c t s s')"
  "keepsBooks (emitUsageEvent c t stage sub u)"
  unfolding appendAuxEvent_def emitStatus_def emitUsageEvent_def by (intro keeps_intros)+

lemma keeps_sinkAll [keeps_intros]: "keepsBooks (sinkAll es)"
  by (induction es) (auto intro: keeps_intros)

lemma keeps_historyAll [keeps_intros]: "keepsBooks (historyAll t es)"
  by (induction es) (auto intro: keeps_intros)

lemma keeps_flushBatch [keeps_intros]: "keepsBooks (flushBatch c t batch)"
  unfolding flushBatch_def by (intro keeps_intros)

lemma keeps_consumeLoop [keeps_intros]: "keepsBooks (consumeLoop c t seq batch cases)"
proof (induction c t seq batch cases rule: consumeLoop.induct)
  case (2 c t seq batch ev rest)
  then show ?case unfolding consumeLoop.simps Let_def by (intro keeps_bind keeps_if keeps_intros) auto
next
  case (3 c t seq batch rest)
  then show ?case unfolding consumeLoop.simps by (intro keeps_bind keeps_case_option keeps_intros)
qed (auto intro: keeps_intros)

lemma keeps_consumeEvents [keeps_intros]: "keepsBooks (consumeEvents c t cases)"
  unfolding consumeEvents_def by (intro keeps_intros)

text \<open>Such a program, alone, leaves the tasks and the books as they are.\<close>

definition onlyLogs :: "string \<Rightarrow> ('z orch_world_scheme, 'a) state \<Rightarrow> bool" where
  "onlyLogs i m \<longleftrightarrow> effects (logsFor i) m \<and> keepsBooks m"

lemma onlyLogs_intros:
  "onlyLogs i (consumeEvents c i cases)" "onlyLogs i (emitUsageEvent c i stage sub u)"
  "onlyLogs i (emitStatus c i s s')" "onlyLogs i (appendAuxEvent c i ev)"
  "onlyLogs i (mTaskGet c i)" "onlyLogs i (writeArtifact i p x)" "onlyLogs i (State_Monad.return v)"
  unfolding onlyLogs_def by (intro conjI effects_intros keeps_intros; simp)+

lemma run_onlyLogs:
  assumes "onlyLogs i m" "quiet w"
  obtains x w' where "run_state m w = (x, w')" "tasks (w_db w') = tasks (w_db w)" "books w' = books w"
    "w_env w' = w_env w" "quiet w'"
proof -
  obtain x w' where r: "run_state m w = (x, w')" by fastforce
  moreover from effects_logs_tasks [of i m w] assms r
  have t: "tasks (w_db w') = tasks (w_db w)" "w_env w' = w_env w" by (auto simp: onlyLogs_def)
  moreover have "books w' = books w" using assms(1) r unfolding onlyLogs_def keepsBooks_def by (metis snd_conv)
  moreover have "quiet w'" using assms(2) t(2) quiet_cong by blast
  ultimately show ?thesis by (intro that)
qed

lemma onlyLogs_wf:
  assumes "onlyLogs i m" "wfDB (w_db w)" "run_state m w = (x, w')"
  shows "wfDB (w_db w')"
  using effects_wf [of "logsFor i" m w] assms by (simp add: onlyLogs_def)

section \<open>A transition that is due\<close>

lemma run_transition_ok:
  fixes w :: "'z world_scheme"
  assumes "quiet w" "wfDB (w_db w)" "e_ctx (w_env w) c (w_step w) = Live"
    "lookupBy r_id i (tasks (w_db w)) = Some r" "r_status r = fr" "canTransition fr to"
    "to = StatusFailed \<longleftrightarrow> code \<noteq> ErrCodeNone" "to \<noteq> StatusFailed \<longrightarrow> msg = []"
    "to = StatusDone \<longleftrightarrow> fin \<noteq> FinalizationNone" "finalizationValid fin"
  obtains now d' where
    "run_state (mTransition c i fr to code msg fin) w =
       (Inr (), w\<lparr>w_step := Suc (w_step w), w_db := d'\<rparr>)"
    "wfDB d'" "lookupBy r_id i (tasks d') = Some (transitionRow now fr to code msg fin r)"
proof -
  let ?now = "e_clock (w_env w) (w_step w)"
  let ?wh = "\<lambda>r. r_id r = i \<and> r_status r = fr"
  let ?d = "(w_db w)\<lparr>tasks := updateWhere ?wh (transitionRow ?now fr to code msg fin) (tasks (w_db w))\<rparr>"
  have k: "r_id r = i" "r \<in> set (tasks (w_db w))" using assms(4) lookupBy_SomeD by fastforce+
  then have "countWhere ?wh (tasks (w_db w)) \<noteq> 0" using assms(5) by (auto simp: countWhere_0)
  then have t: "transition ?now Live i fr to code msg fin (w_db w) = Inr ?d"
    using assms(6-10) by (cases "to = StatusFailed"; cases "to = StatusDone") (auto simp: transition_def Let_def)
  have "lookupBy r_id i (tasks ?d) = Some (transitionRow ?now fr to code msg fin r)"
    using assms(4,5) k by (simp add: lookupBy_updateWhere)
  moreover have "wfDB ?d" using transition_wf [OF assms(2) t] .
  ultimately show ?thesis
    using t assms(1,3) by (intro that [of ?d ?now]) (simp_all add: mTransition_def storeWrite_def)
qed

lemma run_transition_due:
  fixes w :: "'z world_scheme"
  assumes "quiet w" "wfDB (w_db w)" "e_ctx (w_env w) c (w_step w) = Live"
    "lookupBy r_id i (tasks (w_db w)) = Some r" "r_status r = fr" "canTransition fr to"
    "to = StatusFailed \<longleftrightarrow> code \<noteq> ErrCodeNone" "to \<noteq> StatusFailed \<longrightarrow> msg = []" "to \<noteq> StatusDone"
  obtains now d' where
    "run_state (mTransition c i fr to code msg FinalizationNone) w =
       (Inr (), w\<lparr>w_step := Suc (w_step w), w_db := d'\<rparr>)"
    "wfDB d'" "lookupBy r_id i (tasks d') = Some (transitionRow now fr to code msg FinalizationNone r)"
  by (rule run_transition_ok [OF assms(1-8), of FinalizationNone]) (use assms(9) in simp_all)

section \<open>A world for the witnesses\<close>

lemma run_unit: obtains w' where "run_state m w = ((), w')"
  by (cases "run_state m w") auto

definition sampleOrch :: "env \<Rightarrow> db \<Rightarrow> orch_world" where
  "sampleOrch e d = world.extend (sampleWorld e d) \<lparr>w_spawned = [], w_cancelled = [], w_attempts = []\<rparr>"

lemma sampleOrch_sel [simp]:
  "w_env (sampleOrch e d) = e" "w_step (sampleOrch e d) = 0" "w_db (sampleOrch e d) = d"
  "w_running (sampleOrch e d) = [(''t1'', False)]" "w_spawned (sampleOrch e d) = []"
  "w_notified (sampleOrch e d) = []" "w_attempts (sampleOrch e d) = []"
  by (simp_all add: sampleOrch_def sampleWorld_def world.extend_def)

lemma quiet_sampleOrch: "quiet (sampleOrch (quietEnv cs) d)"
  by (simp add: quiet_def quietEnv_def)

definition idleAgents :: agents where
  "idleAgents = \<lparr>ag_slot = (\<lambda>_. None), ag_planner = None,
     ag_runner = (\<lambda>_ _. \<lparr>ss_stream = [], ss_model = [], ss_usage = sr_usage okRun, ss_err = None\<rparr>),
     ag_sched = (\<lambda>_. runWith (\<lambda>_ _ _. okRun)), ag_reviewer = None, ag_missing = (\<lambda>_ _. False),
     ag_create = (\<lambda>_ i. Inr (''/wt/'' @ ciTaskID i, ''fleetkanban/'' @ ciTaskID i)),
     ag_diff = (\<lambda>_ _ _. Inr ''diff''), ag_waitCut = (\<lambda>_. False), ag_charter = (\<lambda>_. None),
     ag_subtaskStore = True, ag_attemptStore = True, ag_evolver = True,
     ag_errText = (\<lambda>_. ''error''), ag_planJSON = (\<lambda>_. ''[]'')\<rparr>"

text \<open>C24 (a dispatcher steers its own task only). Whatever the planner, the agent, git and the file
  system do, a dispatch of task \<open>i\<close> leaves the row and the log of every other task as they are,
  keeps the database well formed, and moves \<open>i\<close> only along the edges of a run, which end at the
  latest in \<open>ai_review\<close>, \<open>failed\<close> or \<open>aborted\<close>; it never decides a review.\<close>

theorem dispatch_steers_own_task:
  assumes "quiet w" "wfDB (w_db w)" "run_state (dispatch a i) w = (ok, w')"
  shows "wfDB (w_db w') \<and> (\<forall>j. j \<noteq> i \<longrightarrow> apartFrom j (w_db w) (w_db w')) \<and>
    (\<forall>s. taskStatus (w_db w) i = Some s \<longrightarrow>
       (\<exists>s'. taskStatus (w_db w') i = Some s' \<and> runEdge\<^sup>*\<^sup>* s s'))"
proof (intro conjI allI impI)
  note keep = effects_quiet_keep [OF effects_dispatch assms(1) _ assms(2), of i _ a, unfolded assms(3) snd_conv]
  show "wfDB (w_db w')" using effects_wf [OF effects_dispatch assms(2), of a i] assms(3) by simp
  show "apartFrom j (w_db w) (w_db w')" if "j \<noteq> i" for j
  proof (rule keep)
    fix b d
    assume "dispatchOp i b" "wfDB d" and "apartFrom j (w_db w) d"
    then show "apartFrom j (w_db w) (dbStep b d)"
      using dispatchOp_apart [OF _ that] apartFrom_trans by blast
  qed simp
  show "\<exists>s'. taskStatus (w_db w') i = Some s' \<and> runEdge\<^sup>*\<^sup>* s s'" if "taskStatus (w_db w) i = Some s" for s
  proof (rule keep)
    fix b d
    assume "dispatchOp i b" "wfDB d" "\<exists>s'. taskStatus d i = Some s' \<and> runEdge\<^sup>*\<^sup>* s s'"
    then show "\<exists>s'. taskStatus (dbStep b d) i = Some s' \<and> runEdge\<^sup>*\<^sup>* s s'"
      using dispatchOp_edge [of i b d] by (metis rtranclp.rtrancl_into_rtrancl)
  next
    show "\<exists>s'. taskStatus (w_db w) i = Some s' \<and> runEdge\<^sup>*\<^sup>* s s'" using that by simp
  qed
qed

theorem dispatch_steers_own_task_witness:
  "\<exists>ok w'. run_state (dispatch idleAgents ''t2'') (sampleOrch (quietEnv (\<lambda>_ _. Live)) sampleDB) = (ok, w') \<and>
     apartFrom ''t1'' sampleDB (w_db w')"
proof -
  let ?w = "sampleOrch (quietEnv (\<lambda>_ _. Live)) sampleDB"
  obtain ok w' where r: "run_state (dispatch idleAgents ''t2'') ?w = (ok, w')" by fastforce
  have "wfDB (w_db ?w)" by (simp add: wfDB_sample)
  from dispatch_steers_own_task [OF quiet_sampleOrch this r] r show ?thesis by auto
qed

lemma run_transition_refused:
  fixes w :: orch_world
  assumes "quiet w" "wfDB (w_db w)" "taskStatus (w_db w) i \<noteq> Some fr"
  obtains e where "run_state (mTransition c i fr to code msg fin) w = (Inl e, w\<lparr>w_step := Suc (w_step w)\<rparr>)"
proof (cases "transition (e_clock (w_env w) (w_step w)) (e_ctx (w_env w) c (w_step w)) i fr to code msg fin (w_db w)")
  case (Inl e)
  with assms(1) show ?thesis by (intro that [of e]) (simp add: mTransition_def storeWrite_def)
next
  case (Inr d)
  from transition_status(1) [OF wfDB_task_keys [OF assms(2)] this] assms(3) show ?thesis by simp
qed

text \<open>Only a queued task is dispatched. When the task is not in \<open>queued\<close> (deleted, cancelled,
  or already being run through another route), a dispatch changes nothing in the database, starts
  no agent, and only takes the task off the list of running ones.\<close>

theorem dispatch_needs_queued:
  assumes "quiet w" "wfDB (w_db w)" "taskStatus (w_db w) i \<noteq> Some StatusQueued"
    "run_state (dispatch a i) w = (ok, w')"
  shows "ok \<and> w_db w' = w_db w \<and> w_sink w' = w_sink w \<and> w_spawned w' = w_spawned w \<and>
    w_running w' = filter (\<lambda>r. fst r \<noteq> i) (w_running w)"
proof -
  let ?w1 = "w\<lparr>w_step := Suc (w_step w)\<rparr>" and ?w2 = "w\<lparr>w_step := Suc (Suc (w_step w))\<rparr>"
  note q = assms(1)
  have q1: "quiet ?w1" and q2: "quiet ?w2" using q quiet_cong [of ?w1 w] quiet_cong [of ?w2 w] by simp_all
  have wf2: "wfDB (w_db ?w2)" "taskStatus (w_db ?w2) i \<noteq> Some StatusQueued" using assms(2,3) by simp_all
  have adm: "\<exists>n. run_state (admitTask a i t repo) ?w2 = (True, w\<lparr>w_step := n\<rparr>)" for t repo
  proof -
    obtain e where "run_state (mTransition TaskCtx i StatusQueued
        (if ag_planner a = None then StatusInProgress else StatusPlanning) ErrCodeNone [] FinalizationNone) ?w2 =
      (Inl e, ?w2\<lparr>w_step := Suc (w_step ?w2)\<rparr>)" by (rule run_transition_refused [OF q2 wf2])
    then show ?thesis by (auto simp: admitTask_def Let_def)
  qed
  have rep: "\<exists>n. run_state (failRepoLookup a i e) ?w2 = ((), w\<lparr>w_step := n\<rparr>)" for e
  proof -
    obtain x where "run_state (mTransition TaskCtx i StatusQueued StatusPlanning ErrCodeNone [] FinalizationNone)
      ?w2 = (Inl x, ?w2\<lparr>w_step := Suc (w_step ?w2)\<rparr>)" by (rule run_transition_refused [OF q2 wf2])
    then show ?thesis by (auto simp: failRepoLookup_def)
  qed
  have opn: "\<exists>n. run_state (openTask a i t) ?w1 = (True, w\<lparr>w_step := n\<rparr>)" for t
  proof (cases "repoPath (e_ctx (w_env w) TaskCtx (Suc (w_step w))) (tRepoID t) (w_db w)")
    case (Inl e)
    with rep [of e] q1 show ?thesis by (auto simp: openTask_def mRepoPath_def storeRead_def)
  next
    case (Inr repo)
    with adm [of t repo] q1 show ?thesis by (auto simp: openTask_def mRepoPath_def storeRead_def)
  qed
  have "\<exists>n. run_state (dispatchBody a i) w = (True, w\<lparr>w_step := n\<rparr>)"
  proof (cases "ag_slot a (w_step w)")
    case (Some e)
    then show ?thesis by (intro exI [of _ "w_step w"]) (simp add: dispatchBody_def atStep_def)
  next
    case None
    then show ?thesis
      using q opn
      by (cases "taskGet (e_ctx (w_env w) TaskCtx (w_step w)) i (w_db w)")
        (auto simp: dispatchBody_def atStep_def mTaskGet_def storeRead_def)
  qed
  then show ?thesis using assms(4) by (auto simp: dispatch_def unregister_def)
qed

theorem dispatch_needs_queued_witness:
  "w_db (snd (run_state (dispatch idleAgents ''t1'') (sampleOrch (quietEnv (\<lambda>_ _. Live)) sampleDB))) = sampleDB"
proof -
  let ?w = "sampleOrch (quietEnv (\<lambda>_ _. Live)) sampleDB"
  obtain ok w' where r: "run_state (dispatch idleAgents ''t1'') ?w = (ok, w')" by fastforce
  have "wfDB (w_db ?w)" "taskStatus (w_db ?w) ''t1'' \<noteq> Some StatusQueued"
    by (simp_all add: wfDB_sample sample_status)
  from dispatch_needs_queued [OF quiet_sampleOrch this r] show ?thesis by (simp add: r)
qed

text \<open>The state a run ends in.\<close>

definition endOfRun :: "run_outcome \<Rightarrow> status \<times> error_code \<times> string" where
  "endOfRun out =
     (if ro_abortByUser out then (StatusAborted, ErrCodeNone, [])
      else case ro_runErr out of
        None \<Rightarrow> (StatusAIReview, ErrCodeNone, [])
      | Some (RunDeadline e) \<Rightarrow> (StatusFailed, ErrCodeTimeout, e)
      | Some e \<Rightarrow> (StatusFailed, ErrCodeRuntime, errText e))"

lemma endOfRun_ok:
  assumes "endOfRun out = (to, code, msg)"
  shows "canTransition StatusInProgress to" "to = StatusFailed \<longleftrightarrow> code \<noteq> ErrCodeNone"
    "to \<noteq> StatusFailed \<longrightarrow> msg = []" "to \<noteq> StatusDone"
  using assms by (auto simp: endOfRun_def split: if_splits option.splits run_error.splits)

definition reviewIfDue :: "status \<Rightarrow> string \<Rightarrow> unit orch" where
  "reviewIfDue to i = (if to = StatusAIReview then spawn (GoAIReview i) else State_Monad.return ())"

text \<open>All ways out of completeTask have one shape when the transition succeeds.\<close>

lemma run_completeTask:
  assumes "endOfRun out = (to, code, msg)"
    "run_state (mTransition Background i StatusInProgress to code msg FinalizationNone) w = (Inr (), w1)"
  shows "run_state (completeTask i out) w =
    run_state (do { emitStatus Background i StatusInProgress to; reviewIfDue to i; notify Background i to msg }) w1"
  using assms
  by (auto simp: completeTask_def endOfRun_def failTask_def reviewIfDue_def
      split: if_splits option.splits run_error.splits prod.splits)

lemma run_notify:
  assumes "quiet w" "e_ctx (w_env w) c (w_step w) = Live" "lookupBy r_id i (tasks (w_db w)) = Some r"
  obtains w' where "run_state (notify c i st msg) w = ((), w')" "w_db w' = w_db w" "w_env w' = w_env w"
    "w_spawned w' = w_spawned w" "w_attempts w' = w_attempts w"
    "w_notified w' = w_notified w @ (if e_notifier (w_env w) then [(i, r_goal r, st, msg)] else [])"
proof -
  have "r_id r = i" using assms(3) by (auto dest: lookupBy_SomeD)
  then show ?thesis
    using assms
    by (cases "e_notifier (w_env w)")
      (auto intro: that simp: notify_def mTaskGet_def storeRead_def taskGet_def)
qed

text \<open>C26 (how a run ends). When the agent's run is over and the store answers, the task of the run
  leaves \<open>in_progress\<close> exactly once: to \<open>aborted\<close> if the user cancelled it, whatever the
  runner reports; to \<open>ai_review\<close> on success, with a review started; to \<open>failed\<close> with
  \<open>timeout\<close> for a deadline and \<open>runtime\<close> for any other error, carrying the error's text. The
  notifier hears of the new state once.\<close>

theorem run_ends_as_reported:
  assumes "quiet w" "wfDB (w_db w)" "\<forall>n. e_ctx (w_env w) Background n = Live"
    "lookupBy r_id i (tasks (w_db w)) = Some r" "r_status r = StatusInProgress"
    "endOfRun out = (to, code, msg)" "run_state (completeTask i out) w = ((), w')"
  shows "(\<exists>now. lookupBy r_id i (tasks (w_db w')) =
        Some (transitionRow now StatusInProgress to code msg FinalizationNone r)) \<and>
    w_spawned w' = w_spawned w @ (if to = StatusAIReview then [GoAIReview i] else []) \<and>
    w_notified w' = w_notified w @ (if e_notifier (w_env w) then [(i, r_goal r, to, msg)] else [])"
proof -
  note ok = endOfRun_ok [OF assms(6)]
  obtain now d' where t: "run_state (mTransition Background i StatusInProgress to code msg FinalizationNone) w =
      (Inr (), w\<lparr>w_step := Suc (w_step w), w_db := d'\<rparr>)"
    and r': "lookupBy r_id i (tasks d') = Some (transitionRow now StatusInProgress to code msg FinalizationNone r)"
    by (rule run_transition_due [OF assms(1,2) assms(3)[rule_format] assms(4,5) ok])
  let ?w1 = "w\<lparr>w_step := Suc (w_step w), w_db := d'\<rparr>"
  have q1: "quiet ?w1" using assms(1) quiet_cong [of ?w1 w] by simp
  obtain u w2 where e: "run_state (emitStatus Background i StatusInProgress to) ?w1 = (u, w2)"
    and w2: "tasks (w_db w2) = tasks (w_db ?w1)" "books w2 = books ?w1" "w_env w2 = w_env ?w1" "quiet w2"
    by (rule run_onlyLogs [OF onlyLogs_intros(3) q1])
  obtain w3 where w3: "run_state (reviewIfDue to i) w2 = ((), w3)" "w_db w3 = w_db w2" "w_env w3 = w_env w2"
    "w_notified w3 = w_notified w2"
    "w_spawned w3 = w_spawned w2 @ (if to = StatusAIReview then [GoAIReview i] else [])"
    by (rule that [of "snd (run_state (reviewIfDue to i) w2)"]) (simp_all add: reviewIfDue_def spawn_def)
  have q3: "quiet w3" using w2(4) w3(3) quiet_cong by blast
  have live: "e_ctx (w_env w3) Background (w_step w3) = Live" using assms(3) w2(3) w3(3) by simp
  have row: "lookupBy r_id i (tasks (w_db w3)) =
      Some (transitionRow now StatusInProgress to code msg FinalizationNone r)"
    using w2(1) w3(2) r' by simp
  obtain w4 where n: "run_state (notify Background i to msg) w3 = ((), w4)" "w_db w4 = w_db w3"
    "w_env w4 = w_env w3" "w_spawned w4 = w_spawned w3" "w_attempts w4 = w_attempts w3"
    "w_notified w4 = w_notified w3 @ (if e_notifier (w_env w3) then
      [(i, r_goal (transitionRow now StatusInProgress to code msg FinalizationNone r), to, msg)] else [])"
    by (rule run_notify [OF q3 live row])
  have "run_state (completeTask i out) w = ((), w4)"
    unfolding run_completeTask [OF assms(6) t] by (simp add: e w3(1) n(1))
  with assms(7) have w4: "w' = w4" by simp
  have b: "w_spawned w2 = w_spawned w" "w_notified w2 = w_notified w" "w_env w3 = w_env w"
    using w2(2,3) w3(3) by (simp_all add: books_def)
  have g: "r_goal (transitionRow now StatusInProgress to code msg FinalizationNone r) = r_goal r"
    by (simp add: transitionRow_def)
  show ?thesis
  proof (intro conjI exI [of _ now])
    show "lookupBy r_id i (tasks (w_db w')) = Some (transitionRow now StatusInProgress to code msg FinalizationNone r)"
      using row by (simp only: w4 n(2))
    show "w_spawned w' = w_spawned w @ (if to = StatusAIReview then [GoAIReview i] else [])"
      by (simp only: w4 n(4) w3(5) b)
    show "w_notified w' = w_notified w @ (if e_notifier (w_env w) then [(i, r_goal r, to, msg)] else [])"
      by (simp only: w4 n(6) w3(4) b g)
  qed
qed

theorem run_ends_as_reported_witness:
  "(let w' = snd (run_state (completeTask ''t1'' \<lparr>ro_runErr = Some (RunDeadline ''late''), ro_abortByUser = False\<rparr>)
       (sampleOrch (quietEnv (\<lambda>_ _. Live)) sampleDB))
    in map_option r_error_code (lookupBy r_id ''t1'' (tasks (w_db w'))) = Some ErrCodeTimeout \<and>
       w_notified w' = [(''t1'', ''goal'', StatusFailed, ''late'')])"
proof -
  let ?w = "sampleOrch (quietEnv (\<lambda>_ _. Live)) sampleDB"
  let ?out = "\<lparr>ro_runErr = Some (RunDeadline ''late''), ro_abortByUser = False\<rparr>"
  obtain w' where r: "run_state (completeTask ''t1'' ?out) ?w = ((), w')" by (rule run_unit)
  have "wfDB (w_db ?w)" "\<forall>n. e_ctx (w_env ?w) Background n = Live"
    "lookupBy r_id ''t1'' (tasks (w_db ?w)) = Some (taskRowOf 1 (sampleTask ''t1'' StatusInProgress))"
    "r_status (taskRowOf 1 (sampleTask ''t1'' StatusInProgress)) = StatusInProgress"
    "endOfRun ?out = (StatusFailed, ErrCodeTimeout, ''late'')"
    by (simp_all add: wfDB_sample quietEnv_def endOfRun_def) (simp_all add: sample_defs taskRowOf_def)
  note ends = run_ends_as_reported [OF quiet_sampleOrch this r]
  have g: "r_goal (taskRowOf 1 (sampleTask ''t1'' StatusInProgress)) = ''goal''" "e_notifier (w_env ?w)"
    "w_notified ?w = []"
    by (simp_all add: taskRowOf_def sampleTask_def quietEnv_def)
  have n: "w_notified w' = [(''t1'', ''goal'', StatusFailed, ''late'')]" using ends by (simp only: g if_True append_Nil)
  from ends obtain now where "lookupBy r_id ''t1'' (tasks (w_db w')) = Some (transitionRow now StatusInProgress
    StatusFailed ErrCodeTimeout ''late'' FinalizationNone (taskRowOf 1 (sampleTask ''t1'' StatusInProgress)))"
    by blast
  with n show ?thesis unfolding Let_def r snd_conv by (simp add: transitionRow_def)
qed

section \<open>A cancelled planning session\<close>

lemma run_transition_done:
  fixes w :: orch_world
  assumes "quiet w" "e_ctx (w_env w) c (w_step w) \<noteq> Live"
  obtains e where "run_state (mTransition c i s s' code msg fin) w = (Inl e, w\<lparr>w_step := Suc (w_step w)\<rparr>)"
proof -
  from assms(2) obtain x where "e_ctx (w_env w) c (w_step w) = Done x" by (cases "e_ctx (w_env w) c (w_step w)") auto
  then have "\<exists>e. transition (e_clock (w_env w) (w_step w)) (e_ctx (w_env w) c (w_step w)) i s s' code msg fin (w_db w) = Inl e"
    by (auto simp: transition_def)
  with assms(1) show ?thesis by (auto intro: that simp: mTransition_def storeWrite_def)
qed

text \<open>\<open>stalls c m\<close>: once context \<open>c\<close> is done, \<open>m\<close> reaches neither the store nor anything else.\<close>

definition stalls :: "ctx_name \<Rightarrow> 'a orch \<Rightarrow> bool" where
  "stalls c m \<longleftrightarrow> (\<forall>w. quiet w \<longrightarrow> (\<forall>n \<ge> w_step w. e_ctx (w_env w) c n \<noteq> Live) \<longrightarrow>
     (\<exists>n \<ge> w_step w. snd (run_state m w) = w\<lparr>w_step := n\<rparr>))"

lemma stalls_return: "stalls c (State_Monad.return x)"
  unfolding stalls_def by (auto intro: exI [of _ "w_step w" for w])

lemma stalls_bind:
  assumes "stalls c m" "\<And>x. stalls c (f x)"
  shows "stalls c (State_Monad.bind m f)"
  unfolding stalls_def
proof (intro allI impI)
  fix w :: orch_world
  assume w: "quiet w" "\<forall>n \<ge> w_step w. e_ctx (w_env w) c n \<noteq> Live"
  obtain x w1 where r: "run_state m w = (x, w1)" by fastforce
  from assms(1) w r obtain n where n: "n \<ge> w_step w" "w1 = w\<lparr>w_step := n\<rparr>"
    unfolding stalls_def by force
  have "quiet w1" "\<forall>k \<ge> w_step w1. e_ctx (w_env w1) c k \<noteq> Live"
    using w n quiet_cong [of w1 w] by auto
  with assms(2) obtain k where "k \<ge> w_step w1" "snd (run_state (f x) w1) = w1\<lparr>w_step := k\<rparr>"
    unfolding stalls_def by blast
  with n show "\<exists>n \<ge> w_step w. snd (run_state (State_Monad.bind m f) w) = w\<lparr>w_step := n\<rparr>"
    by (intro exI [of _ k]) (simp add: r)
qed

lemma stalls_step:
  assumes "\<And>w. quiet w \<Longrightarrow> e_ctx (w_env w) c (w_step w) \<noteq> Live \<Longrightarrow>
    snd (run_state m w) = w\<lparr>w_step := Suc (w_step w)\<rparr>"
  shows "stalls c m"
  unfolding stalls_def using assms by (metis le_refl lessI less_imp_le)

lemma stalls_same: "(\<And>w. snd (run_state m w) = w) \<Longrightarrow> stalls c m"
  unfolding stalls_def by (auto intro: exI [of _ "w_step w" for w])

lemma stalls_transition: "stalls c (mTransition c i s s' code msg fin)"
  by (rule stalls_step) (metis run_transition_done snd_conv)

lemma stalls_autoSeq: "stalls c (mAppendAutoSeq c e >>= (\<lambda>r. case r of Inl _ \<Rightarrow> State_Monad.return () | Inr x \<Rightarrow> sink x))"
proof (rule stalls_step)
  fix w :: orch_world
  assume "quiet w" "e_ctx (w_env w) c (w_step w) \<noteq> Live"
  moreover from this(2) obtain x where "e_ctx (w_env w) c (w_step w) = Done x"
    by (cases "e_ctx (w_env w) c (w_step w)") auto
  ultimately show "snd (run_state (mAppendAutoSeq c e >>= (\<lambda>r. case r of Inl _ \<Rightarrow> State_Monad.return ()
      | Inr x \<Rightarrow> sink x)) w) = w\<lparr>w_step := Suc (w_step w)\<rparr>"
    by (simp add: mAppendAutoSeq_def storeWrite_def appendAutoSeq_def)
qed

lemma stalls_clock: "stalls c newULID" "stalls c readClock"
  by (rule stalls_step, simp add: newULID_def readClock_def)+

lemma stalls_emit:
  "stalls c (emitStatus c i s s')" "stalls c (appendAuxEvent c i ev)" "stalls c (emitUsageEvent c i stage sub u)"
proof -
  show "stalls c (emitStatus c i s s')"
    unfolding emitStatus_def by (intro stalls_bind stalls_clock stalls_autoSeq)
  show aux: "stalls c (appendAuxEvent c i ev)" for ev
    unfolding appendAuxEvent_def
    by (intro stalls_bind stalls_autoSeq) (auto intro: stalls_clock stalls_return)
  show "stalls c (emitUsageEvent c i stage sub u)"
    unfolding emitUsageEvent_def by (auto intro: stalls_return aux)
qed

lemma stalls_consumeEvents: "stalls c (consumeEvents c i cases)"
proof (rule stalls_step)
  fix w :: orch_world
  assume "quiet w" "e_ctx (w_env w) c (w_step w) \<noteq> Live"
  moreover from this(2) obtain x where "e_ctx (w_env w) c (w_step w) = Done x"
    by (cases "e_ctx (w_env w) c (w_step w)") auto
  ultimately show "snd (run_state (consumeEvents c i cases) w) = w\<lparr>w_step := Suc (w_step w)\<rparr>"
    by (simp add: consumeEvents_def storeRead_def nextSeq_def)
qed

lemma stalls_if: "stalls c m \<Longrightarrow> stalls c n \<Longrightarrow> stalls c (if b then m else n)"
  by simp

lemma stalls_sum: "(\<And>a. stalls c (f a)) \<Longrightarrow> (\<And>b. stalls c (g b)) \<Longrightarrow>
    stalls c (case x of Inl a \<Rightarrow> f a | Inr b \<Rightarrow> g b)"
  by (cases x) auto

lemma stalls_abortPlanning: "stalls TaskCtx (abortPlanning i e)"
proof -
  have "stalls TaskCtx (abortedByUser i)" by (rule stalls_same) (simp add: abortedByUser_def)
  then show ?thesis
    unfolding abortPlanning_def failTask_def
    by (intro stalls_bind stalls_if stalls_sum stalls_transition stalls_return stalls_emit)
qed

text \<open>Cancelling a planning task strands it. Cancel ends the task's own context, and the planner
  then returns an error; but the transition out of \<open>planning\<close> is attempted under that same
  context, so it fails: nothing is written, the task stays in \<open>planning\<close> for good, and since the
  dispatcher returns, no goroutine is left that would move it.\<close>

theorem cancelled_planning_is_stranded:
  assumes "quiet w" "\<forall>n \<ge> w_step w. e_ctx (w_env w) TaskCtx n \<noteq> Live"
    "pr_err (planner (w_step w) t) = Some e" "run_state (runPlanningPhase a planner t) w = (res, w')"
  shows "res = None \<and> w_db w' = w_db w \<and> w_sink w' = w_sink w \<and> w_spawned w' = w_spawned w"
proof -
  let ?p = "planner (w_step w) t"
  let ?m = "consumeEvents TaskCtx (tID t) (pr_stream ?p) >>= (\<lambda>_.
    emitUsageEvent TaskCtx (tID t) ''plan'' [] (pr_usage ?p) >>= (\<lambda>_.
      abortPlanning (tID t) e >>= (\<lambda>_. State_Monad.return None))) :: task option orch"
  have "run_state (runPlanningPhase a planner t) w = run_state ?m w"
    using assms(3) by (simp add: runPlanningPhase_def atStep_def Let_def split: prod.splits)
  with assms(4) have m: "run_state ?m w = (res, w')" by simp
  have "stalls TaskCtx ?m"
    by (intro stalls_bind stalls_consumeEvents stalls_emit stalls_abortPlanning stalls_return)
  then have "\<exists>n \<ge> w_step w. snd (run_state ?m w) = w\<lparr>w_step := n\<rparr>"
    using assms(1,2) unfolding stalls_def by blast
  then obtain n where "w' = w\<lparr>w_step := n\<rparr>" unfolding m snd_conv by blast
  moreover have "returns (\<lambda>r. r = None) ?m" by (intro returns_intros) simp
  then have "res = None" using m unfolding returns_def by (metis fst_conv)
  ultimately show ?thesis by simp
qed

definition brokenPlan :: plan_result where
  "brokenPlan = \<lparr>pr_stream = [], pr_subs = [], pr_model = [], pr_summary = [], pr_usage = sr_usage okRun,
     pr_err = Some (RunCanceled ''context canceled'')\<rparr>"

theorem cancelled_planning_is_stranded_witness:
  "w_db (snd (run_state (runPlanningPhase idleAgents (\<lambda>_ _. brokenPlan) (sampleTask ''t1'' StatusPlanning))
     (sampleOrch (quietEnv (\<lambda>_ _. Done ''context canceled'')) sampleDB))) = sampleDB"
proof -
  let ?w = "sampleOrch (quietEnv (\<lambda>_ _. Done ''context canceled'')) sampleDB"
  obtain res w' where r: "run_state (runPlanningPhase idleAgents (\<lambda>_ _. brokenPlan)
    (sampleTask ''t1'' StatusPlanning)) ?w = (res, w')" by fastforce
  have "\<forall>n \<ge> w_step ?w. e_ctx (w_env ?w) TaskCtx n \<noteq> Live"
    "pr_err ((\<lambda>_ _. brokenPlan) (w_step ?w) (sampleTask ''t1'' StatusPlanning)) = Some (RunCanceled ''context canceled'')"
    by (simp_all add: quietEnv_def brokenPlan_def)
  from cancelled_planning_is_stranded [OF quiet_sampleOrch this r] show ?thesis by (simp add: r)
qed

section \<open>Every dispatch returns\<close>

definition returnsWf :: "('a \<Rightarrow> bool) \<Rightarrow> 'a orch \<Rightarrow> bool" where
  "returnsWf P m \<longleftrightarrow> (\<forall>w. wfDB (w_db w) \<longrightarrow> P (fst (run_state m w)))"

lemma returnsWf_return: "P x \<Longrightarrow> returnsWf P (State_Monad.return x)"
  by (simp add: returnsWf_def)

lemma returnsWf_bind:
  assumes "effects Q m" "returnsWf R m" "\<And>x. R x \<Longrightarrow> returnsWf P (f x)"
  shows "returnsWf P (State_Monad.bind m f)"
  unfolding returnsWf_def
proof (intro allI impI)
  fix w :: orch_world
  assume wf: "wfDB (w_db w)"
  obtain x w1 where r: "run_state m w = (x, w1)" by fastforce
  from effects_wf [OF assms(1) wf] assms(2) wf have "wfDB (w_db w1)" "R x"
    by (auto simp: r returnsWf_def)
  with assms(3) show "P (fst (run_state (State_Monad.bind m f) w))" by (simp add: r returnsWf_def)
qed

lemma returnsWf_true: "returnsWf (\<lambda>_. True) m"
  by (simp add: returnsWf_def)

lemma returnsWf_of: "returns P m \<Longrightarrow> returnsWf P m"
  by (simp add: returnsWf_def returns_def)

lemma latestRound_distinct:
  assumes "wfDB d" "subtaskListLatestRound c i d = Inr ss"
  shows "distinct (map sID ss)"
proof -
  let ?rows = "filter (\<lambda>q. q_task_id q = i \<and> q_round q = maxRoundOf i d) (subtasks d)"
  have "distinct (map q_id ?rows)"
    using wfDB_subtask_keys [OF assms(1)] by (rule distinct_map_filter)
  moreover from assms(2) have "ss = map scanSubtask (sort_key (\<lambda>q. (q_order_idx q, q_created_at q)) ?rows)"
    by (auto simp: subtaskListLatestRound_def split: option.splits)
  then have "mset (map sID ss) = mset (map q_id ?rows)" by (simp add: comp_def mset_map)
  ultimately show ?thesis by (metis mset_eq_imp_distinct_iff)
qed

lemma returnsWf_listSubtasks:
  "returnsWf (whenInr (\<lambda>ss. distinct (map sID ss))) (listSubtasks a c i)"
proof (cases "ag_subtaskStore a")
  case True
  have "wfDB (w_db w) \<Longrightarrow> wfDB (w_db (stepped w))" for w :: orch_world
    by (simp add: stepped_def dbRun_def db_inv.run_inv)
  with True show ?thesis
    by (auto simp: returnsWf_def listSubtasks_def storeRead_def dest: latestRound_distinct split: sum.splits)
qed (auto simp: returnsWf_def listSubtasks_def)

lemma runSubtaskLoop_some:
  assumes "distinct (map sID subs)" "permutes sc"
  shows "returns (\<lambda>r. fst r \<noteq> None) (runSubtaskLoop sc t subs)"
  unfolding returns_def
proof
  fix w
  obtain out ws w' where r: "run_state (runSubtaskLoop sc t subs) w = ((out, ws), w')" by (rule run_pair)
  from run_runSubtaskLoop [OF assms r] have "out \<noteq> None" by blast
  with r show "fst (fst (run_state (runSubtaskLoop sc t subs) w)) \<noteq> None" by simp
qed

lemma returnsWf_runAgent:
  assumes "\<forall>n. permutes (ag_sched a n)"
  shows "returnsWf (\<lambda>out. out \<noteq> None) (runAgent a t)"
proof -
  have loop: "returnsWf (\<lambda>out. out \<noteq> None)
      (do { sc \<leftarrow> atStep (ag_sched a); (out, _) \<leftarrow> runSubtaskLoop sc t subs; State_Monad.return out })"
    if d: "distinct (map sID subs)" for subs
  proof (rule returnsWf_bind [OF effects_atStep])
    show "returnsWf permutes (atStep (ag_sched a))" using assms by (simp add: returnsWf_def atStep_def)
    show "returnsWf (\<lambda>out. out \<noteq> None) (do { (out, _) \<leftarrow> runSubtaskLoop sc t subs; State_Monad.return out })"
      if "permutes sc" for sc
      by (rule returnsWf_bind [OF effects_runSubtaskLoop returnsWf_of [OF runSubtaskLoop_some [OF d that]]])
        (auto intro: returnsWf_return split: prod.splits)
  qed
  have "returnsWf (\<lambda>out. out \<noteq> None) (do { out \<leftarrow> runSingleSession a t; State_Monad.return (Some out) })"
    by (rule returnsWf_of) (intro returns_intros, simp)
  with loop show ?thesis
    unfolding runAgent_def Let_def
    by (intro returnsWf_bind [OF effects_listSubtasks returnsWf_listSubtasks]) (auto split: sum.splits)
qed

lemma returnsWf_dispatchBody:
  assumes "\<forall>n. permutes (ag_sched a n)"
  shows "returnsWf (\<lambda>ok. ok) (dispatchBody a i)"
proof -
  have true: "returnsWf (\<lambda>ok. ok) (State_Monad.return True)" by (simp add: returnsWf_return)
  have exec: "returnsWf (\<lambda>ok. ok) (executeTask a i t)" for t
    unfolding executeTask_def
    by (rule returnsWf_bind [OF effects_runAgent [OF refl] returnsWf_runAgent [OF assms]])
      (auto intro!: returnsWf_of returns_intros)
  have plan: "returnsWf (\<lambda>ok. ok) (planAndExecute a i t)" for t
    unfolding planAndExecute_def
    by (rule returnsWf_bind [OF effects_mUpdateFields returnsWf_true], rule TrueI,
        rule returnsWf_bind [OF effects_planTask [OF refl] returnsWf_true])
      (auto intro: exec true split: option.splits)
  have prep: "returnsWf (\<lambda>ok. ok) (prepareTask a i t repo)"
    if "tStatus t = StatusPlanning \<or> tStatus t = StatusInProgress" for t repo
    unfolding prepareTask_def
    by (rule returnsWf_bind [OF effects_ensureWorktree [OF refl that] returnsWf_true])
      (auto intro: plan true split: option.splits)
  have adm: "returnsWf (\<lambda>ok. ok) (admitTask a i t repo)" for t repo
    unfolding admitTask_def Let_def
    apply (rule returnsWf_bind [OF effects_mTransition [of "\<lambda>_. True"] returnsWf_true], rule TrueI)
    apply (auto split: sum.splits intro!: true returnsWf_bind [OF effects_emitStatus [of _ "\<lambda>_. True"] returnsWf_true]
        returnsWf_bind [OF effects_mTouchLastUsed [of "\<lambda>_. True"] returnsWf_true] prep)
    done
  have fl: "returnsWf (\<lambda>ok. ok) (do { failRepoLookup a i e; State_Monad.return True })" for e
    by (rule returnsWf_of) (intro returns_intros, simp)
  have opn: "returnsWf (\<lambda>ok. ok) (openTask a i t)" for t
    unfolding openTask_def
    by (rule returnsWf_bind [OF effects_mRepoPath [of "\<lambda>_. True"] returnsWf_true])
      (auto split: sum.splits intro: adm fl)
  show ?thesis
    unfolding dispatchBody_def
    by (rule returnsWf_bind [OF effects_atStep [of "\<lambda>_. True"] returnsWf_true])
      (auto split: option.splits sum.splits intro: opn true
        intro!: returnsWf_bind [OF effects_mTaskGet [of "\<lambda>_. True"] returnsWf_true])
qed

text \<open>C25 (every dispatch returns). Whatever plan the store holds and whatever the sessions, the clock
  and the other goroutines do, the dispatcher comes to an end and takes the task off the list
  of running ones, so that it can be enqueued again.\<close>

theorem dispatch_returns:
  assumes "wfDB (w_db w)" "\<forall>n. permutes (ag_sched a n)" "run_state (dispatch a i) w = (ok, w')"
  shows "ok \<and> map_of (w_running w') i = None"
proof -
  obtain ok1 w1 where r: "run_state (dispatchBody a i) w = (ok1, w1)" by fastforce
  have "ok1" using returnsWf_dispatchBody [OF assms(2)] assms(1) r unfolding returnsWf_def by (metis fst_conv)
  with assms(3) show ?thesis
    by (auto simp: dispatch_def unregister_def r map_of_eq_None_iff)
qed

theorem dispatch_returns_witness:
  "fst (run_state (dispatch idleAgents ''t2'') (sampleOrch (quietEnv (\<lambda>_ _. Live)) sampleDB))"
proof -
  let ?w = "sampleOrch (quietEnv (\<lambda>_ _. Live)) sampleDB"
  obtain ok w' where r: "run_state (dispatch idleAgents ''t2'') ?w = (ok, w')" by fastforce
  have "wfDB (w_db ?w)" "\<forall>n. permutes (ag_sched idleAgents n)"
    by (simp_all add: wfDB_sample idleAgents_def permutes_runWith)
  from dispatch_returns [OF this r] show ?thesis by (simp add: r)
qed

end
