(* ===== verification/Ai_Review.thy ===== *)
theory Ai_Review
  imports Dispatch_Theorems
begin

text \<open>
  The AI review of \<open>internal/orchestrator/orchestrator.go\<close>: \<open>runAIReview\<close> with its reviewer
  session, the harness attempt it records, the rework cap and the way back to the queue; and
  \<open>passThroughAIReview\<close>, which stands in for it when no reviewer is configured.
\<close>

section \<open>The rework cap\<close>

definition MaxReworkCount :: int where
  "MaxReworkCount = 2"

definition effectiveMaxRework :: "charter_view option \<Rightarrow> int" where
  "effectiveMaxRework c =
     (case c of None \<Rightarrow> MaxReworkCount
      | Some v \<Rightarrow> if cvMaxReworkCount v > 0 then cvMaxReworkCount v else MaxReworkCount)"

section \<open>The decision event\<close>

text \<open>The round of the first subtask of the latest round, 1 when there is none.\<close>

definition latestRound :: "agents \<Rightarrow> ctx_name \<Rightarrow> string \<Rightarrow> int orch" where
  "latestRound a c i = do {
     r \<leftarrow> listSubtasks a c i;
     State_Monad.return (case r of Inr (s # _) \<Rightarrow> if sRound s > 0 then sRound s else 1 | _ \<Rightarrow> 1)
   }"

definition emitAIReviewDecision ::
  "agents \<Rightarrow> task \<Rightarrow> review_decision \<Rightarrow> int \<Rightarrow> string \<Rightarrow> bool \<Rightarrow> unit orch" where
  "emitAIReviewDecision a t dec n model cap = do {
     rnd \<leftarrow> latestRound a ReviewCtx (tID t);
     appendAuxEvent ReviewCtx (tID t) (blankEvent EventAIReviewDecision
       (PAIReviewDecision (rdApprove dec) (rdFeedback dec) (rdSummary dec) n rnd model cap))
   }"

definition reviewBody :: "review_decision \<Rightarrow> int \<Rightarrow> string" where
  "reviewBody dec rnd =
     (if rdSummary dec \<noteq> [] then ''## Summary\<newline>\<newline>'' @ rdSummary dec @ ''\<newline>\<newline>'' else []) @
     (if rdFeedback dec \<noteq> [] then ''## Feedback\<newline>\<newline>'' @ rdFeedback dec @ ''\<newline>\<newline>'' else []) @
     ''## Decision\<newline>\<newline>'' @ (if rdApprove dec then ''approve'' else ''reject'') @
     '' (round '' @ itoa rnd @ '')\<newline>''"

section \<open>The harness attempt\<close>

definition kickEvolver :: "agents \<Rightarrow> string \<Rightarrow> string \<Rightarrow> int \<Rightarrow> string \<Rightarrow> string \<Rightarrow> unit orch" where
  "kickEvolver a attempt i n cls obs =
     (if \<not> ag_evolver a \<or> \<not> ag_attemptStore a then State_Monad.return ()
      else do {
        c \<leftarrow> atStep (ag_charter a);
        case c of None \<Rightarrow> State_Monad.return ()
        | Some v \<Rightarrow> spawn (GoEvolver attempt i n cls obs (cvRawContent v))
      })"

text \<open>Go's conversion from int to int32.\<close>

definition int32 :: "int \<Rightarrow> int" where
  "int32 n = (n + 2 ^ 31) mod 2 ^ 32 - 2 ^ 31"

definition insertAttempt :: "attempt \<Rightarrow> (store_error option) orch" where
  "insertAttempt x = State (\<lambda>w.
     case attemptInsert (e_clock (w_env w) (w_step w)) (e_ctx (w_env w) ReviewCtx (w_step w)) x
         (w_db (stepped w)) (w_attempts w) of
       Inl e \<Rightarrow> (Some e, stepped w)
     | Inr as \<Rightarrow> (None, (stepped w)\<lparr>w_attempts := as\<rparr>))"

definition recordAttempt :: "agents \<Rightarrow> task \<Rightarrow> review_decision \<Rightarrow> unit orch" where
  "recordAttempt a t dec =
     (if \<not> ag_attemptStore a then State_Monad.return ()
      else do {
        c \<leftarrow> atStep (ag_charter a);
        let cls = (if tReworkCount t \<ge> effectiveMaxRework c then ''rework_cap_reached'' else ''review_rework'');
        let obs = (if rdFeedback dec = [] then ''(no reviewer feedback text)'' else rdFeedback dec);
        i \<leftarrow> newULID;
        now \<leftarrow> readClock;
        r \<leftarrow> insertAttempt \<lparr>hID = i, hTaskID = tID t, hReworkRound = int32 (tReworkCount t), hFailureClass = cls,
          hObservationMD = obs, hProposedPatch = [], hProposedHash = [], hDecision = [], hDecidedBy = [],
          hDecidedAt = None, hCreatedAt = now\<rparr>;
        case r of Some _ \<Rightarrow> State_Monad.return ()
        | None \<Rightarrow> kickEvolver a i (tID t) (tReworkCount t) cls obs
      })"

section \<open>The ways out of a review\<close>

definition leaveReview :: "ctx_name \<Rightarrow> string \<Rightarrow> status \<Rightarrow> unit orch" where
  "leaveReview c i to = do {
     r \<leftarrow> mTransition c i StatusAIReview to ErrCodeNone [] FinalizationNone;
     case r of Inl _ \<Rightarrow> State_Monad.return ()
     | Inr _ \<Rightarrow> do { emitStatus c i StatusAIReview to; notify c i to [] }
   }"

definition requeue :: "string \<Rightarrow> unit orch" where
  "requeue i = do {
     r \<leftarrow> mTransition ReviewCtx i StatusAIReview StatusQueued ErrCodeNone [] FinalizationNone;
     case r of Inl _ \<Rightarrow> State_Monad.return ()
     | Inr _ \<Rightarrow> do {
         emitStatus ReviewCtx i StatusAIReview StatusQueued;
         _ \<leftarrow> enqueue i;
         State_Monad.return ()
       }
   }"

definition capFeedback :: "int \<Rightarrow> string \<Rightarrow> string" where
  "capFeedback n feedback =
     ''AI Reviewer requested rework '' @ itoa n @
     '' times without converging; deferring to user judgement.\<newline>\<newline>Latest feedback:\<newline>'' @
     (if feedback = [] then ''(no details)'' else feedback)"

definition reworkFeedback :: "string \<Rightarrow> string" where
  "reworkFeedback feedback =
     (if feedback = [] then ''Automatic rework instruction from AI Reviewer (no details)'' else feedback)"

definition escalate :: "agents \<Rightarrow> task \<Rightarrow> review_decision \<Rightarrow> string \<Rightarrow> unit orch" where
  "escalate a t dec model = do {
     let t1 = t\<lparr>tReviewFeedback := capFeedback (tReworkCount t) (rdFeedback dec)\<rparr>;
     _ \<leftarrow> mUpdateFields ReviewCtx t1;
     emitAIReviewDecision a t1 dec (tReworkCount t1) model True;
     leaveReview ReviewCtx (tID t1) StatusHumanReview
   }"

definition rework :: "agents \<Rightarrow> task \<Rightarrow> review_decision \<Rightarrow> string \<Rightarrow> unit orch" where
  "rework a t dec model = do {
     let t1 = t\<lparr>tReviewFeedback := reworkFeedback (rdFeedback dec)\<rparr>;
     r \<leftarrow> mUpdateFields ReviewCtx t1;
     case r of Inl _ \<Rightarrow> State_Monad.return ()
     | Inr _ \<Rightarrow> do {
         emitAIReviewDecision a t1 dec (tReworkCount t1) model False;
         requeue (tID t1)
       }
   }"

definition approve :: "agents \<Rightarrow> task \<Rightarrow> review_decision \<Rightarrow> string \<Rightarrow> unit orch" where
  "approve a t dec model = do {
     emitAIReviewDecision a t dec (tReworkCount t) model False;
     leaveReview ReviewCtx (tID t) StatusHumanReview
   }"

definition rejectWork :: "agents \<Rightarrow> task \<Rightarrow> review_decision \<Rightarrow> string \<Rightarrow> unit orch" where
  "rejectWork a t dec model = do {
     recordAttempt a t dec;
     c \<leftarrow> atStep (ag_charter a);
     if tReworkCount t \<ge> effectiveMaxRework c then escalate a t dec model else rework a t dec model
   }"

definition recordReviewModel :: "task \<Rightarrow> string \<Rightarrow> task orch" where
  "recordReviewModel t m =
     (if m \<noteq> [] \<and> m \<noteq> tReviewModel t then do {
        _ \<leftarrow> mUpdateFields ReviewCtx (t\<lparr>tReviewModel := m\<rparr>);
        State_Monad.return (t\<lparr>tReviewModel := m\<rparr>)
      } else State_Monad.return t)"

definition actOnReview :: "agents \<Rightarrow> task \<Rightarrow> review_result \<Rightarrow> unit orch" where
  "actOnReview a t r = do {
     t1 \<leftarrow> recordReviewModel t (rr_model r);
     if rdApprove (rr_decision r) then approve a t1 (rr_decision r) (rr_model r)
     else rejectWork a t1 (rr_decision r) (rr_model r)
   }"

text \<open>\<open>errors.Is(err, context.Canceled) || ctx.Err() != nil\<close>: the review was cancelled.\<close>

definition failedReview :: "string \<Rightarrow> run_error \<Rightarrow> unit orch" where
  "failedReview i e = do {
     ended \<leftarrow> ctxDone ReviewCtx;
     if (case e of RunCanceled _ \<Rightarrow> True | _ \<Rightarrow> False) \<or> ended
     then leaveReview Background i StatusAborted
     else State_Monad.return ()
   }"

definition reviewSession ::
  "agents \<Rightarrow> (nat \<Rightarrow> task \<Rightarrow> string \<Rightarrow> string \<Rightarrow> int \<Rightarrow> review_result) \<Rightarrow> task \<Rightarrow> string \<Rightarrow> unit orch" where
  "reviewSession a reviewer t diff = do {
     rnd \<leftarrow> latestRound a ReviewCtx (tID t);
     appendAuxEvent ReviewCtx (tID t)
       (blankEvent EventAIReviewStart (PAIReviewStart rnd (tReviewModel t)));
     review \<leftarrow> atStep reviewer;
     let r = review t diff (tReviewFeedback t) (tReworkCount t);
     _ \<leftarrow> consumeEvents ReviewCtx (tID t) (rr_stream r);
     emitUsageEvent ReviewCtx (tID t) ''review'' [] (rr_usage r);
     (if rr_err r = None
      then writeArtifact (tID t) (''artifacts/review_'' @ zeroPad 2 (itoa rnd) @ ''.md'')
        (reviewBody (rr_decision r) rnd)
      else State_Monad.return ());
     case rr_err r of
       Some e \<Rightarrow> failedReview (tID t) e
     | None \<Rightarrow> actOnReview a t r
   }"

text \<open>While it runs, the review is registered so that \<open>Cancel\<close> can reach it.\<close>

definition registerReview :: "string \<Rightarrow> unit orch" where
  "registerReview i = State (\<lambda>w. ((), w\<lparr>w_aiReviews := List.insert i (w_aiReviews w)\<rparr>))"

definition unregisterReview :: "string \<Rightarrow> unit orch" where
  "unregisterReview i = State (\<lambda>w. ((), w\<lparr>w_aiReviews := removeAll i (w_aiReviews w)\<rparr>))"

definition reviewTask ::
  "agents \<Rightarrow> (nat \<Rightarrow> task \<Rightarrow> string \<Rightarrow> string \<Rightarrow> int \<Rightarrow> review_result) \<Rightarrow> string \<Rightarrow> unit orch" where
  "reviewTask a reviewer i = do {
     rt \<leftarrow> mTaskGet ReviewCtx i;
     case rt of Inl _ \<Rightarrow> State_Monad.return ()
     | Inr t \<Rightarrow>
         if tStatus t \<noteq> StatusAIReview then State_Monad.return ()
         else do {
           diff \<leftarrow> atStep (ag_diff a);
           case diff (tWorktreePath t) (tBaseBranch t) of
             Inl _ \<Rightarrow> State_Monad.return ()
           | Inr d \<Rightarrow> reviewSession a reviewer t d
         }
   }"

definition passThroughAIReview :: "agents \<Rightarrow> string \<Rightarrow> unit orch" where
  "passThroughAIReview a i = do {
     registerReview i;
     cut \<leftarrow> atStep (ag_waitCut a);
     (if cut then State_Monad.return ()
      else do {
        rt \<leftarrow> mTaskGet Background i;
        case rt of Inl _ \<Rightarrow> State_Monad.return ()
        | Inr t \<Rightarrow>
            if tStatus t \<noteq> StatusAIReview then State_Monad.return ()
            else leaveReview Background i StatusHumanReview
      });
     unregisterReview i
   }"

definition runAIReview :: "agents \<Rightarrow> string \<Rightarrow> unit orch" where
  "runAIReview a i =
     (case ag_reviewer a of
        None \<Rightarrow> passThroughAIReview a i
      | Some reviewer \<Rightarrow> do { registerReview i; reviewTask a reviewer i; unregisterReview i })"

end
