(* ===== verification/Task_Triples.thy ===== *)
theory Task_Triples
  imports Dispatch_Theorems
begin

text \<open>
  Triples over the state monad, and what the store calls do to the row of one task when the
  handler has the database alone and every context is live.
\<close>

section \<open>Triples\<close>

definition triple :: "('s \<Rightarrow> bool) \<Rightarrow> ('s, 'a) state \<Rightarrow> ('a \<Rightarrow> 's \<Rightarrow> bool) \<Rightarrow> bool" where
  "triple P m Q \<longleftrightarrow> (\<forall>s x s'. P s \<longrightarrow> run_state m s = (x, s') \<longrightarrow> Q x s')"

lemma tripleI: "(\<And>s x s'. P s \<Longrightarrow> run_state m s = (x, s') \<Longrightarrow> Q x s') \<Longrightarrow> triple P m Q"
  by (simp add: triple_def)

lemma tripleD: "triple P m Q \<Longrightarrow> P s \<Longrightarrow> run_state m s = (x, s') \<Longrightarrow> Q x s'"
  by (simp add: triple_def)

lemma triple_return: "(\<And>s. P s \<Longrightarrow> Q x s) \<Longrightarrow> triple P (State_Monad.return x) Q"
  by (simp add: triple_def)

lemma triple_bind: "triple P m R \<Longrightarrow> (\<And>x. triple (R x) (f x) Q) \<Longrightarrow> triple P (State_Monad.bind m f) Q"
  by (auto simp: triple_def split: prod.splits)

lemma triple_conseq: "triple P' m Q' \<Longrightarrow> (\<And>s. P s \<Longrightarrow> P' s) \<Longrightarrow> (\<And>x s. Q' x s \<Longrightarrow> Q x s) \<Longrightarrow> triple P m Q"
  unfolding triple_def by blast

lemma triple_when: "(b \<Longrightarrow> triple P m Q) \<Longrightarrow> triple (\<lambda>s. b \<and> P s) m Q"
  by (auto simp: triple_def)

lemma triple_if: "(b \<Longrightarrow> triple P m Q) \<Longrightarrow> (\<not> b \<Longrightarrow> triple P n Q) \<Longrightarrow> triple P (if b then m else n) Q"
  by simp

section \<open>The row of a task\<close>

definition liveEnv :: "env \<Rightarrow> bool" where
  "liveEnv e \<longleftrightarrow> (\<forall>c n. e_ctx e c n = Live) \<and> (\<forall>n. e_others e n = [] \<and> e_cancel e n = [])"

lemma live_quiet: "liveEnv (w_env w) \<Longrightarrow> quiet w"
  by (simp add: liveEnv_def quiet_def)

definition holds :: "string \<Rightarrow> task_row \<Rightarrow> 'z world_scheme \<Rightarrow> bool" where
  "holds i r w \<longleftrightarrow> liveEnv (w_env w) \<and> wfDB (w_db w) \<and> lookupBy r_id i (tasks (w_db w)) = Some r"

lemma holds_quiet: "holds i r w \<Longrightarrow> quiet w \<and> e_ctx (w_env w) c n = Live"
  using live_quiet by (auto simp: holds_def liveEnv_def)

lemma holds_frame:
  assumes "\<And>w. w_env (snd (run_state m w)) = w_env w" "\<And>w. w_db (snd (run_state m w)) = w_db w"
  shows "triple (holds i r) m (\<lambda>_. holds i r)"
  by (rule tripleI) (metis assms holds_def snd_conv)

lemma holds_read: "triple (holds i r) (storeRead c q) (\<lambda>_. holds i r)"
proof (rule tripleI)
  fix w x w'
  assume h: "holds i r w" and "run_state (storeRead c q) w = (x, w')"
  then have "w' = w\<lparr>w_step := Suc (w_step w)\<rparr>" using holds_quiet [OF h] by (simp add: storeRead_def)
  with h show "holds i r w'" by (simp add: holds_def)
qed

lemma holds_get:
  "triple (holds i r) (mTaskGet c i) (\<lambda>x w. x = Inr (scanTask r) \<and> holds i r w)"
proof (rule tripleI)
  fix w x w'
  assume h: "holds i r w" and run: "run_state (mTaskGet c i) w = (x, w')"
  have "holds i r w'" using tripleD [OF holds_read h run [unfolded mTaskGet_def]] .
  moreover have "x = Inr (scanTask r)"
    using run holds_quiet [OF h] h by (simp add: mTaskGet_def storeRead_def taskGet_def holds_def)
  ultimately show "x = Inr (scanTask r) \<and> holds i r w'" by simp
qed

lemma holds_logs:
  assumes "effects (logsFor j) m"
  shows "triple (holds i r) m (\<lambda>_. holds i r)"
proof (rule tripleI)
  fix w x w'
  assume h: "holds i r w" and run: "run_state m w = (x, w')"
  note keep = effects_logs_tasks [OF assms, of w, unfolded run snd_conv]
  have "wfDB (w_db w')" using effects_wf [OF assms, of w] h run by (simp add: holds_def)
  with keep holds_quiet [OF h] h show "holds i r w'" by (simp add: holds_def)
qed

lemma holds_emitStatus: "triple (holds i r) (emitStatus c j s s') (\<lambda>_. holds i r)"
  by (rule holds_logs [of j]) (intro effects_intros)

lemma holds_transition_code:
  assumes "r_status r = s" "canTransition s s'" "s' = StatusFailed \<longleftrightarrow> code \<noteq> ErrCodeNone"
    "s' \<noteq> StatusFailed \<longrightarrow> msg = []" "s' = StatusDone \<longleftrightarrow> fk \<noteq> FinalizationNone" "finalizationValid fk"
  shows "triple (holds i r) (mTransition c i s s' code msg fk)
    (\<lambda>x w. x = Inr () \<and> (\<exists>now. holds i (transitionRow now s s' code msg fk r) w))"
proof (rule tripleI)
  fix w x w'
  assume h: "holds i r w" and run: "run_state (mTransition c i s s' code msg fk) w = (x, w')"
  have pre: "quiet w" "wfDB (w_db w)" "e_ctx (w_env w) c (w_step w) = Live"
    "lookupBy r_id i (tasks (w_db w)) = Some r"
    using h holds_quiet [OF h] by (simp_all add: holds_def)
  obtain now d' where "run_state (mTransition c i s s' code msg fk) w =
      (Inr (), w\<lparr>w_step := Suc (w_step w), w_db := d'\<rparr>)" "wfDB d'"
    "lookupBy r_id i (tasks d') = Some (transitionRow now s s' code msg fk r)"
    by (rule run_transition_ok [OF pre assms])
  with run h show "x = Inr () \<and> (\<exists>now. holds i (transitionRow now s s' code msg fk r) w')"
    by (auto simp: holds_def)
qed

lemma holds_transition:
  assumes "r_status r = s" "canTransition s s'" "s' = StatusDone \<longleftrightarrow> fk \<noteq> FinalizationNone" "s' \<noteq> StatusFailed"
    "finalizationValid fk"
  shows "triple (holds i r) (mTransition c i s s' ErrCodeNone [] fk)
    (\<lambda>x w. x = Inr () \<and> (\<exists>now. holds i (transitionRow now s s' ErrCodeNone [] fk r) w))"
  by (rule holds_transition_code) (use assms in simp_all)

lemma holds_transition_refused:
  assumes "r_status r = s" "\<not> canTransition s s'"
  shows "triple (holds i r) (mTransition c i s s' code msg fk)
    (\<lambda>x w. x = Inl (EIllegalTransition i s s') \<and> holds i r w)"
proof (rule tripleI)
  fix w x w'
  assume h: "holds i r w" and "run_state (mTransition c i s s' code msg fk) w = (x, w')"
  with holds_quiet [OF h] assms(2) show "x = Inl (EIllegalTransition i s s') \<and> holds i r w'"
    by (auto simp: mTransition_def storeWrite_def transition_def holds_def)
qed

lemma holds_updateFields:
  assumes "r_status r = tStatus t" "r_id r = i" "tID t = i" "taskValidate t = None"
  shows "triple (holds i r) (mUpdateFields c t)
    (\<lambda>x w. x = Inr () \<and> (\<exists>now. holds i (updateFieldsRow now t r) w))"
proof (rule tripleI)
  fix w x w'
  assume h: "holds i r w" and run: "run_state (mUpdateFields c t) w = (x, w')"
  let ?now = "e_clock (w_env w) (w_step w)"
  let ?wh = "\<lambda>r. r_id r = tID t \<and> r_status r = tStatus t"
  let ?d = "(w_db w)\<lparr>tasks := updateWhere ?wh (updateFieldsRow ?now t) (tasks (w_db w))\<rparr>"
  have row: "lookupBy r_id i (tasks (w_db w)) = Some r" using h by (simp add: holds_def)
  have "countWhere ?wh (tasks (w_db w)) \<noteq> 0"
    using assms lookupBy_SomeD [OF row] by (auto simp: countWhere_0)
  then have u: "updateFields ?now Live t (w_db w) = Inr ?d"
    by (simp add: updateFields_def assms(4))
  have w': "x = Inr ()" "w' = w\<lparr>w_step := Suc (w_step w), w_db := ?d\<rparr>"
    using run holds_quiet [OF h] u by (simp_all add: mUpdateFields_def storeWrite_def)
  have "lookupBy r_id i (tasks ?d) = Some (updateFieldsRow ?now t r)"
    using row assms by (simp add: lookupBy_updateWhere)
  moreover have "wfDB ?d" using h updateFields_wf [OF _ u] by (simp add: holds_def)
  ultimately show "x = Inr () \<and> (\<exists>now. holds i (updateFieldsRow now t r) w')"
    using h w' by (auto simp: holds_def)
qed

lemma holds_setBranchExists:
  "triple (holds i r) (mSetBranchExists c i b)
    (\<lambda>x w. x = Inr () \<and> (\<exists>now. holds i (r\<lparr>r_branch_exists := (if b then 1 else 0), r_updated_at := now\<rparr>) w))"
proof (rule tripleI)
  fix w x w'
  assume h: "holds i r w" and run: "run_state (mSetBranchExists c i b) w = (x, w')"
  let ?now = "e_clock (w_env w) (w_step w)"
  let ?d = "(w_db w)\<lparr>tasks := updateWhere (\<lambda>r. r_id r = i)
      (\<lambda>r. r\<lparr>r_branch_exists := (if b then 1 else 0), r_updated_at := ?now\<rparr>) (tasks (w_db w))\<rparr>"
  have s: "setBranchExists ?now Live i b (w_db w) = Inr ?d" by (simp add: setBranchExists_def)
  have w': "x = Inr ()" "w' = w\<lparr>w_step := Suc (w_step w), w_db := ?d\<rparr>"
    using run holds_quiet [OF h] s by (simp_all add: mSetBranchExists_def storeWrite_def)
  have "lookupBy r_id i (tasks (w_db w)) = Some r" using h by (simp add: holds_def)
  then have "lookupBy r_id i (tasks ?d) = Some (r\<lparr>r_branch_exists := (if b then 1 else 0), r_updated_at := ?now\<rparr>)"
    using lookupBy_SomeD by (fastforce simp: lookupBy_updateWhere)
  moreover have "wfDB ?d" using h setBranchExists_wf [OF _ s] by (simp add: holds_def)
  ultimately show "x = Inr () \<and>
      (\<exists>now. holds i (r\<lparr>r_branch_exists := (if b then 1 else 0), r_updated_at := now\<rparr>) w')"
    using h w' by (auto simp: holds_def)
qed

text \<open>What is not the handler's business stays as it is.\<close>

lemma triple_books:
  assumes "keepsBooks m" "triple P m Q"
  shows "triple (\<lambda>w. P w \<and> books w = b) m (\<lambda>x w. Q x w \<and> books w = b)"
  using assms unfolding triple_def keepsBooks_def by (metis snd_conv)

lemma triple_ex_pre: "(\<And>y. triple (P y) m Q) \<Longrightarrow> triple (\<lambda>s. \<exists>y. P y s) m Q"
  unfolding triple_def by blast

end
