(* ===== verification/Review_Theorems.thy ===== *)
theory Review_Theorems
  imports Ai_Review Task_Triples
begin

text \<open>
  What an AI review does to its task: the verdict decides where the task goes, and the rework
  counter bounds how often it goes back to the queue by itself. The proofs follow the session
  call by call with triples over the state monad.
\<close>

section \<open>A task under review\<close>

text \<open>Alone with a live database, task \<open>i\<close> in status \<open>st\<close> with counter \<open>n\<close> and feedback \<open>fb\<close>;
  the dispatchers started so far are \<open>ds\<close>, the registered tasks \<open>ks\<close>.\<close>

fun isDispatch :: "goroutine \<Rightarrow> bool" where
  "isDispatch (GoDispatch _) = True"
| "isDispatch _ = False"

definition standing :: "string \<Rightarrow> goroutine list \<Rightarrow> string list \<Rightarrow> status \<Rightarrow> int \<Rightarrow> string \<Rightarrow> orch_world \<Rightarrow> bool" where
  "standing i ds ks st n fb w \<longleftrightarrow> liveEnv (w_env w) \<and> wfDB (w_db w) \<and>
     filter isDispatch (w_spawned w) = ds \<and> map fst (w_running w) = ks \<and>
     (\<exists>r. lookupBy r_id i (tasks (w_db w)) = Some r \<and> r_status r = st \<and> r_rework_count r = n \<and>
       r_review_feedback r = fb)"

lemma standing_onlyLogs:
  assumes "onlyLogs i m"
  shows "triple (standing j ds ks st n fb) m (\<lambda>_. standing j ds ks st n fb)"
proof (rule tripleI)
  fix w x w'
  assume a: "standing j ds ks st n fb w" and r: "run_state m w = (x, w')"
  then have q: "quiet w" using live_quiet by (auto simp: standing_def)
  obtain y u where u: "run_state m w = (y, u)" "tasks (w_db u) = tasks (w_db w)" "books u = books w"
    "w_env u = w_env w" by (rule run_onlyLogs [OF assms q])
  have "wfDB (w_db w')" using onlyLogs_wf [OF assms _ r] a by (simp add: standing_def)
  then show "standing j ds ks st n fb w'" using a u r by (auto simp: standing_def books_def)
qed

text \<open>The in-memory task and the row agree on what the review uses.\<close>

definition taskAt :: "string \<Rightarrow> int \<Rightarrow> string \<Rightarrow> task \<Rightarrow> bool" where
  "taskAt i n fb t \<longleftrightarrow> tID t = i \<and> tStatus t = StatusAIReview \<and> tReworkCount t = n \<and>
     tReviewFeedback t = fb \<and> taskValidate t = None"

lemma taskAt_feedback: "taskAt i n fb t \<Longrightarrow> taskAt i n fb' (t\<lparr>tReviewFeedback := fb'\<rparr>)"
  by (auto simp: taskAt_def taskValidate_None)

lemma taskAt_model: "taskAt i n fb t \<Longrightarrow> taskAt i n fb (t\<lparr>tReviewModel := m\<rparr>)"
  by (auto simp: taskAt_def taskValidate_None)

lemma standing_updateFields:
  assumes "taskAt i n fb' t"
  shows "triple (standing i ds ks StatusAIReview n fb) (mUpdateFields ReviewCtx t)
    (\<lambda>r w. r = Inr () \<and> standing i ds ks StatusAIReview n fb' w)"
proof (rule tripleI)
  fix w :: orch_world and x w'
  assume a: "standing i ds ks StatusAIReview n fb w" and r: "run_state (mUpdateFields ReviewCtx t) w = (x, w')"
  then have q: "quiet w" and live: "e_ctx (w_env w) ReviewCtx (w_step w) = Live"
    using live_quiet by (auto simp: standing_def liveEnv_def)
  let ?now = "e_clock (w_env w) (w_step w)"
  let ?wh = "\<lambda>r. r_id r = tID t \<and> r_status r = tStatus t"
  let ?d = "(w_db w)\<lparr>tasks := updateWhere ?wh (updateFieldsRow ?now t) (tasks (w_db w))\<rparr>"
  from a obtain row where row: "lookupBy r_id i (tasks (w_db w)) = Some row" "r_status row = StatusAIReview"
    by (auto simp: standing_def)
  then have "countWhere ?wh (tasks (w_db w)) \<noteq> 0"
    using assms lookupBy_SomeD [OF row(1)] by (auto simp: countWhere_0 taskAt_def)
  with assms have u: "updateFields ?now Live t (w_db w) = Inr ?d"
    by (simp add: updateFields_def taskAt_def)
  with r q live have w': "x = Inr ()" "w' = w\<lparr>w_step := Suc (w_step w), w_db := ?d\<rparr>"
    by (simp_all add: mUpdateFields_def storeWrite_def)
  have "lookupBy r_id i (tasks ?d) = Some (updateFieldsRow ?now t row)"
    using row assms lookupBy_SomeD [OF row(1)] by (simp add: lookupBy_updateWhere taskAt_def)
  moreover have "wfDB ?d" using a updateFields_wf [OF _ u] by (simp add: standing_def)
  ultimately show "x = Inr () \<and> standing i ds ks StatusAIReview n fb' w'"
    using a w' row(2) assms by (auto simp: standing_def updateFieldsRow_def taskAt_def)
qed

lemma standing_transition:
  assumes "canTransition StatusAIReview to" "to \<noteq> StatusFailed" "to \<noteq> StatusDone"
  shows "triple (standing i ds ks StatusAIReview n fb)
    (mTransition c i StatusAIReview to ErrCodeNone [] FinalizationNone)
    (\<lambda>r w. r = Inr () \<and> standing i ds ks to (nextRework StatusAIReview to n) fb w)"
proof (rule tripleI)
  fix w :: orch_world and x w'
  assume a: "standing i ds ks StatusAIReview n fb w"
    and r: "run_state (mTransition c i StatusAIReview to ErrCodeNone [] FinalizationNone) w = (x, w')"
  from a obtain row where row: "lookupBy r_id i (tasks (w_db w)) = Some row" "r_status row = StatusAIReview"
    "r_rework_count row = n" "r_review_feedback row = fb" by (auto simp: standing_def)
  have q: "quiet w" and wf: "wfDB (w_db w)" and live: "e_ctx (w_env w) c (w_step w) = Live"
    using a live_quiet by (auto simp: standing_def liveEnv_def)
  have no: "to = StatusFailed \<longleftrightarrow> ErrCodeNone \<noteq> ErrCodeNone" "to \<noteq> StatusFailed \<longrightarrow> [] = []"
    using assms(2) by simp_all
  obtain now d' where d': "run_state (mTransition c i StatusAIReview to ErrCodeNone [] FinalizationNone) w =
      (Inr (), w\<lparr>w_step := Suc (w_step w), w_db := d'\<rparr>)" "wfDB d'"
    "lookupBy r_id i (tasks d') = Some (transitionRow now StatusAIReview to ErrCodeNone [] FinalizationNone row)"
    by (rule run_transition_due [OF q wf live row(1,2) assms(1) no assms(3)])
  with r a row show "x = Inr () \<and> standing i ds ks to (nextRework StatusAIReview to n) fb w'"
    by (auto simp: standing_def transitionRow_def)
qed

section \<open>The calls of a review\<close>

lemma onlyLogs_more:
  "onlyLogs i newULID" "onlyLogs i readClock" "onlyLogs i (atStep f)" "onlyLogs i (ctxDone c)"
  "onlyLogs i (listSubtasks a c j)"
  unfolding onlyLogs_def listSubtasks_def by (intro conjI effects_intros keeps_intros; simp)+

lemma onlyLogs_bind:
  "onlyLogs i m \<Longrightarrow> (\<And>x. onlyLogs i (f x)) \<Longrightarrow> onlyLogs i (State_Monad.bind m f)"
  unfolding onlyLogs_def by (blast intro: effects_bind keeps_bind)

lemma onlyLogs_latestRound: "onlyLogs i (latestRound a c j)"
  unfolding latestRound_def by (intro onlyLogs_bind onlyLogs_more onlyLogs_intros)

lemma onlyLogs_decision: "tID t = i \<Longrightarrow> onlyLogs i (emitAIReviewDecision a t dec n model cap)"
  unfolding emitAIReviewDecision_def
  by (intro onlyLogs_bind onlyLogs_latestRound) (simp add: onlyLogs_intros)

lemma standing_frame:
  assumes "\<And>w. w_env (snd (run_state m w)) = w_env w" "\<And>w. w_db (snd (run_state m w)) = w_db w"
    "\<And>w. filter isDispatch (w_spawned (snd (run_state m w))) = filter isDispatch (w_spawned w)"
    "\<And>w. w_running (snd (run_state m w)) = w_running w"
  shows "triple (standing j ds ks st n fb) m (\<lambda>_. standing j ds ks st n fb)"
proof (rule tripleI)
  fix w x w'
  assume "standing j ds ks st n fb w" "run_state m w = (x, w')"
  with assms(1-4) [of w] show "standing j ds ks st n fb w'" by (simp add: standing_def)
qed

lemma standing_register:
  "triple (standing j ds ks st n fb) (registerReview i) (\<lambda>_. standing j ds ks st n fb)"
  "triple (standing j ds ks st n fb) (unregisterReview i) (\<lambda>_. standing j ds ks st n fb)"
  by (rule standing_frame; simp add: registerReview_def unregisterReview_def)+

lemma standing_kickEvolver:
  "triple (standing j ds ks st n fb) (kickEvolver a x i k cls obs) (\<lambda>_. standing j ds ks st n fb)"
  by (rule standing_frame; simp add: kickEvolver_def atStep_def spawn_def split: option.splits)

lemma standing_stepped: "standing j ds ks st n fb w \<Longrightarrow> standing j ds ks st n fb (stepped w)"
  by (auto simp: standing_def stepped_def dbRun_def liveEnv_def markAborted_def comp_def case_prod_unfold)

lemma standing_insertAttempt:
  "triple (standing j ds ks st n fb) (insertAttempt x) (\<lambda>_. standing j ds ks st n fb)"
proof (rule tripleI)
  fix w r w'
  assume "standing j ds ks st n fb w" "run_state (insertAttempt x) w = (r, w')"
  moreover from this(1) have "standing j ds ks st n fb (stepped w)" by (rule standing_stepped)
  ultimately show "standing j ds ks st n fb w'"
    by (auto simp: insertAttempt_def standing_def split: sum.splits)
qed

lemma standing_recordAttempt:
  "triple (standing j ds ks st n fb) (recordAttempt a t dec) (\<lambda>_. standing j ds ks st n fb)"
proof -
  have kick: "triple (standing j ds ks st n fb)
      (case r of Some e \<Rightarrow> State_Monad.return () | None \<Rightarrow> kickEvolver a x i k cls obs)
      (\<lambda>_. standing j ds ks st n fb)" for r x i k cls obs
    by (cases r) (auto intro: standing_kickEvolver triple_return)
  show ?thesis
    unfolding recordAttempt_def Let_def
    by (intro triple_if triple_return triple_bind [OF standing_onlyLogs [OF onlyLogs_more(3)]]
        triple_bind [OF standing_onlyLogs [OF onlyLogs_more(1)]]
        triple_bind [OF standing_onlyLogs [OF onlyLogs_more(2)]]
        triple_bind [OF standing_insertAttempt] kick)
qed

lemma standing_notify:
  "triple (standing j ds ks st n fb) (notify c i s msg) (\<lambda>_. standing j ds ks st n fb)"
proof (rule tripleI)
  fix w x w'
  assume a: "standing j ds ks st n fb w" "run_state (notify c i s msg) w = (x, w')"
  from a(1) have "standing j ds ks st n fb (stepped w)" by (rule standing_stepped)
  with a show "standing j ds ks st n fb w'"
    by (auto simp: notify_def mTaskGet_def storeRead_def standing_def
        split: if_splits sum.splits)
qed

lemma standing_leaveReview:
  assumes "canTransition StatusAIReview to" "to \<noteq> StatusFailed" "to \<noteq> StatusDone"
  shows "triple (standing i ds ks StatusAIReview n fb) (leaveReview c i to)
    (\<lambda>_. standing i ds ks to (nextRework StatusAIReview to n) fb)"
  unfolding leaveReview_def
proof (rule triple_bind [OF standing_transition [OF assms]])
  show "triple (\<lambda>w. r = Inr () \<and> standing i ds ks to (nextRework StatusAIReview to n) fb w)
      (case r of Inl e \<Rightarrow> State_Monad.return () | Inr u \<Rightarrow> do { emitStatus c i StatusAIReview to; notify c i to [] })
      (\<lambda>_. standing i ds ks to (nextRework StatusAIReview to n) fb)" for r
    by (rule triple_when)
      (auto intro: triple_bind [OF standing_onlyLogs [OF onlyLogs_intros(3)] standing_notify])
qed

lemma standing_enqueue:
  assumes "i \<noteq> []"
  shows "triple (standing i ds ks st n fb) (enqueue i)
    (\<lambda>_. standing i (if i \<in> set ks then ds else ds @ [GoDispatch i]) (if i \<in> set ks then ks else i # ks) st n fb)"
proof (rule tripleI)
  fix w x w'
  assume a: "standing i ds ks st n fb w" "run_state (enqueue i) w = (x, w')"
  have "map_of (w_running w) i = None \<longleftrightarrow> i \<notin> set ks" using a(1)
    by (auto simp only: standing_def map_of_eq_None_iff set_map)
  with a assms show "standing i (if i \<in> set ks then ds else ds @ [GoDispatch i])
      (if i \<in> set ks then ks else i # ks) st n fb w'"
    by (cases "i \<in> set ks") (auto simp: enqueue_def standing_def liveEnv_def simp del: not_None_eq)
qed

lemma standing_requeue:
  assumes "i \<noteq> []"
  shows "triple (standing i ds ks StatusAIReview n fb) (requeue i)
    (\<lambda>_. standing i (if i \<in> set ks then ds else ds @ [GoDispatch i]) (if i \<in> set ks then ks else i # ks)
       StatusQueued (n + 1) fb)"
proof -
  have can: "canTransition StatusAIReview StatusQueued" by code_simp
  have k: "nextRework StatusAIReview StatusQueued n = n + 1" by (simp add: nextRework_def)
  show ?thesis
    unfolding requeue_def
  proof (rule triple_bind [OF standing_transition [OF can, where n = n, unfolded k]])
    show "triple (\<lambda>w. r = Inr () \<and> standing i ds ks StatusQueued (n + 1) fb w)
      (case r of Inl e \<Rightarrow> State_Monad.return ()
       | Inr u \<Rightarrow> do { emitStatus ReviewCtx i StatusAIReview StatusQueued; _ \<leftarrow> enqueue i; State_Monad.return () })
      (\<lambda>_. standing i (if i \<in> set ks then ds else ds @ [GoDispatch i]) (if i \<in> set ks then ks else i # ks)
       StatusQueued (n + 1) fb)" for r
      by (rule triple_when)
        (auto intro!: triple_bind [OF standing_onlyLogs [OF onlyLogs_intros(3)]]
          triple_bind [OF standing_enqueue [OF assms]] triple_return)
  qed simp_all
qed

section \<open>The verdict\<close>

definition verdictOf :: "int \<Rightarrow> int \<Rightarrow> string \<Rightarrow> review_decision \<Rightarrow> status \<times> int \<times> string" where
  "verdictOf cap n fb dec =
     (if rdApprove dec then (StatusHumanReview, n, fb)
      else if n \<ge> cap then (StatusHumanReview, n, capFeedback n (rdFeedback dec))
      else (StatusQueued, n + 1, reworkFeedback (rdFeedback dec)))"

text \<open>The world after the verdict: a requeued task has a dispatcher unless it is still registered.\<close>

definition decided :: "string \<Rightarrow> goroutine list \<Rightarrow> string list \<Rightarrow> status \<times> int \<times> string \<Rightarrow> orch_world \<Rightarrow> bool" where
  "decided i ds ks v w = (case v of (to, n, fb) \<Rightarrow>
     standing i (if to = StatusQueued \<and> i \<notin> set ks then ds @ [GoDispatch i] else ds)
       (if to = StatusQueued \<and> i \<notin> set ks then i # ks else ks) to n fb w)"

lemma decided_human: "decided i ds ks (StatusHumanReview, n, fb) = standing i ds ks StatusHumanReview n fb"
  by (rule ext) (simp add: decided_def)

lemma decided_queued: "decided i ds ks (StatusQueued, n, fb) =
    standing i (if i \<in> set ks then ds else ds @ [GoDispatch i]) (if i \<in> set ks then ks else i # ks) StatusQueued n fb"
  by (rule ext) (simp add: decided_def)

lemma review_to_human: "canTransition StatusAIReview StatusHumanReview"
  "nextRework StatusAIReview StatusHumanReview n = n"
  by (code_simp) (simp add: nextRework_def)

lemmas standing_human = standing_leaveReview [OF review_to_human(1), where n = n, unfolded review_to_human(2)] for n

lemma standing_approve:
  assumes "taskAt i n fb t" "rdApprove dec"
  shows "triple (standing i ds ks StatusAIReview n fb) (approve a t dec model) (\<lambda>_. decided i ds ks (verdictOf cap n fb dec))"
proof -
  have i: "tID t = i" using assms(1) by (simp add: taskAt_def)
  have "triple (standing i ds ks StatusAIReview n fb) (approve a t dec model)
      (\<lambda>_. standing i ds ks StatusHumanReview n fb)"
    unfolding approve_def i
    by (rule triple_bind [OF standing_onlyLogs [OF onlyLogs_decision [OF i]]]) (rule standing_human, simp_all)
  then show ?thesis using assms(2) by (simp add: verdictOf_def decided_human)
qed

lemma standing_escalate:
  assumes "taskAt i n fb t" "\<not> rdApprove dec" "n \<ge> cap"
  shows "triple (standing i ds ks StatusAIReview n fb) (escalate a t dec model) (\<lambda>_. decided i ds ks (verdictOf cap n fb dec))"
proof -
  let ?fb = "capFeedback n (rdFeedback dec)"
  let ?t = "t\<lparr>tReviewFeedback := ?fb\<rparr>"
  have i: "tID ?t = i" "tReworkCount t = n" using assms(1) by (simp_all add: taskAt_def)
  have "triple (standing i ds ks StatusAIReview n fb) (escalate a t dec model)
      (\<lambda>_. standing i ds ks StatusHumanReview n ?fb)"
    unfolding escalate_def Let_def i(2) i(1)
  proof (rule triple_bind [OF standing_updateFields [OF taskAt_feedback [OF assms(1)]]])
    show "triple (\<lambda>w. r = Inr () \<and> standing i ds ks StatusAIReview n ?fb w)
        (do { emitAIReviewDecision a ?t dec (tReworkCount ?t) model True; leaveReview ReviewCtx i StatusHumanReview })
        (\<lambda>_. standing i ds ks StatusHumanReview n ?fb)" for r
      by (rule triple_when, rule triple_bind [OF standing_onlyLogs [OF onlyLogs_decision [OF i(1)]]])
        (rule standing_human, simp_all)
  qed
  then show ?thesis using assms(2,3) by (simp add: verdictOf_def decided_human)
qed

lemma standing_rework:
  assumes "taskAt i n fb t" "\<not> rdApprove dec" "\<not> n \<ge> cap"
  shows "triple (standing i ds ks StatusAIReview n fb) (rework a t dec model) (\<lambda>_. decided i ds ks (verdictOf cap n fb dec))"
proof -
  let ?fb = "reworkFeedback (rdFeedback dec)"
  let ?t = "t\<lparr>tReviewFeedback := ?fb\<rparr>"
  have i: "tID ?t = i" using assms(1) by (simp add: taskAt_def)
  have ne: "i \<noteq> []" using assms(1) by (auto simp: taskAt_def taskValidate_None)
  have "triple (standing i ds ks StatusAIReview n fb) (rework a t dec model)
      (\<lambda>_. standing i (if i \<in> set ks then ds else ds @ [GoDispatch i]) (if i \<in> set ks then ks else i # ks)
        StatusQueued (n + 1) ?fb)"
    unfolding rework_def Let_def i
  proof (rule triple_bind [OF standing_updateFields [OF taskAt_feedback [OF assms(1)]]])
    show "triple (\<lambda>w. r = Inr () \<and> standing i ds ks StatusAIReview n ?fb w)
        (case r of Inl e \<Rightarrow> State_Monad.return ()
         | Inr u \<Rightarrow> do { emitAIReviewDecision a ?t dec (tReworkCount ?t) model False; requeue i })
        (\<lambda>_. standing i (if i \<in> set ks then ds else ds @ [GoDispatch i]) (if i \<in> set ks then ks else i # ks)
          StatusQueued (n + 1) ?fb)" for r
    proof (rule triple_when)
      assume "r = Inr ()"
      then show "triple (standing i ds ks StatusAIReview n ?fb)
        (case r of Inl e \<Rightarrow> State_Monad.return ()
         | Inr u \<Rightarrow> do { emitAIReviewDecision a ?t dec (tReworkCount ?t) model False; requeue i })
        (\<lambda>_. standing i (if i \<in> set ks then ds else ds @ [GoDispatch i]) (if i \<in> set ks then ks else i # ks)
          StatusQueued (n + 1) ?fb)"
        by (simp only: sum.case)
          (rule triple_bind [OF standing_onlyLogs [OF onlyLogs_decision [OF i]] standing_requeue [OF ne]])
    qed
  qed
  then show ?thesis using assms(2,3) by (simp only: verdictOf_def decided_queued if_False)
qed

lemma triple_atStep:
  assumes "\<And>k. P (f k)"
  shows "triple (standing i ds ks st n fb) (atStep f) (\<lambda>x w. P x \<and> standing i ds ks st n fb w)"
  using assms by (auto simp: triple_def atStep_def)

lemma standing_reject:
  assumes "taskAt i n fb t" "\<not> rdApprove dec" "\<forall>k. effectiveMaxRework (ag_charter a k) = cap"
  shows "triple (standing i ds ks StatusAIReview n fb) (rejectWork a t dec model) (\<lambda>_. decided i ds ks (verdictOf cap n fb dec))"
  unfolding rejectWork_def
proof (rule triple_bind [OF standing_recordAttempt triple_bind])
  show "triple (standing i ds ks StatusAIReview n fb) (atStep (ag_charter a))
      (\<lambda>c w. effectiveMaxRework c = cap \<and> standing i ds ks StatusAIReview n fb w)"
    using assms(3) by (intro triple_atStep) simp
  have n: "tReworkCount t = n" using assms(1) by (simp add: taskAt_def)
  show "triple (\<lambda>w. effectiveMaxRework c = cap \<and> standing i ds ks StatusAIReview n fb w)
      (if tReworkCount t \<ge> effectiveMaxRework c then escalate a t dec model else rework a t dec model)
      (\<lambda>_. decided i ds ks (verdictOf cap n fb dec))" for c
    by (rule triple_when)
      (auto simp: n intro!: standing_escalate [OF assms(1,2)] standing_rework [OF assms(1,2)])
qed

lemma standing_recordModel:
  assumes "taskAt i n fb t"
  shows "triple (standing i ds ks StatusAIReview n fb) (recordReviewModel t m)
    (\<lambda>t1 w. taskAt i n fb t1 \<and> standing i ds ks StatusAIReview n fb w)"
  unfolding recordReviewModel_def
proof (rule triple_if)
  show "triple (standing i ds ks StatusAIReview n fb) (State_Monad.return t)
      (\<lambda>t1 w. taskAt i n fb t1 \<and> standing i ds ks StatusAIReview n fb w)"
    using assms by (intro triple_return) simp
  show "triple (standing i ds ks StatusAIReview n fb)
      (do { _ \<leftarrow> mUpdateFields ReviewCtx (t\<lparr>tReviewModel := m\<rparr>); State_Monad.return (t\<lparr>tReviewModel := m\<rparr>) })
      (\<lambda>t1 w. taskAt i n fb t1 \<and> standing i ds ks StatusAIReview n fb w)"
    by (rule triple_bind [OF standing_updateFields [OF taskAt_model [OF assms]]])
      (auto intro!: triple_return taskAt_model [OF assms])
qed

lemma standing_act:
  assumes "taskAt i n fb t" "\<forall>k. effectiveMaxRework (ag_charter a k) = cap"
  shows "triple (standing i ds ks StatusAIReview n fb) (actOnReview a t r)
    (\<lambda>_. decided i ds ks (verdictOf cap n fb (rr_decision r)))"
  unfolding actOnReview_def
proof (rule triple_bind [OF standing_recordModel [OF assms(1)]])
  show "triple (\<lambda>w. taskAt i n fb t1 \<and> standing i ds ks StatusAIReview n fb w)
      (if rdApprove (rr_decision r) then approve a t1 (rr_decision r) (rr_model r)
       else rejectWork a t1 (rr_decision r) (rr_model r))
      (\<lambda>_. decided i ds ks (verdictOf cap n fb (rr_decision r)))" for t1
    using assms(2) by (intro triple_when triple_if standing_approve standing_reject)
qed

text \<open>A reviewer that, whenever it is asked, gives the verdict \<open>r\<close>.\<close>

definition settled :: "agents \<Rightarrow> int \<Rightarrow> review_result \<Rightarrow> bool" where
  "settled a cap r \<longleftrightarrow> rr_err r = None \<and> (\<exists>f. ag_reviewer a = Some f \<and> (\<forall>k t d fb n. f k t d fb n = r)) \<and>
     (\<forall>k. effectiveMaxRework (ag_charter a k) = cap) \<and> (\<forall>k p b. \<exists>d. ag_diff a k p b = Inr d)"

lemma standing_session:
  assumes "taskAt i n fb t" "\<forall>k t d fb n. f k t d fb n = r" "rr_err r = None"
    "\<forall>k. effectiveMaxRework (ag_charter a k) = cap"
  shows "triple (standing i ds ks StatusAIReview n fb) (reviewSession a f t d)
    (\<lambda>_. decided i ds ks (verdictOf cap n fb (rr_decision r)))"
proof -
  have i: "tID t = i" using assms(1) by (simp add: taskAt_def)
  let ?P = "standing i ds ks StatusAIReview n fb"
  have rest: "triple ?P (do {
      _ \<leftarrow> consumeEvents ReviewCtx i (rr_stream r);
      emitUsageEvent ReviewCtx i ''review'' [] (rr_usage r);
      (if rr_err r = None then writeArtifact i path body else State_Monad.return ());
      (case rr_err r of Some e \<Rightarrow> failedReview i e | None \<Rightarrow> actOnReview a t r) })
      (\<lambda>_. decided i ds ks (verdictOf cap n fb (rr_decision r)))" for path body
    using assms(3)
    by (simp, intro triple_bind [OF standing_onlyLogs [OF onlyLogs_intros(1)]]
        triple_bind [OF standing_onlyLogs [OF onlyLogs_intros(2)]]
        triple_bind [OF standing_onlyLogs [OF onlyLogs_intros(6)]] standing_act [OF assms(1,4)])
  show ?thesis
    unfolding reviewSession_def i Let_def
  proof (rule triple_bind [OF standing_onlyLogs [OF onlyLogs_latestRound]],
      rule triple_bind [OF standing_onlyLogs [OF onlyLogs_intros(4)]], rule triple_bind)
    show "triple ?P (atStep f) (\<lambda>g w. (\<forall>t d fb n. g t d fb n = r) \<and> ?P w)"
      using assms(2) by (intro triple_atStep) simp
  next
    fix rnd u and g :: "task \<Rightarrow> string \<Rightarrow> string \<Rightarrow> int \<Rightarrow> review_result"
    show "triple (\<lambda>w. (\<forall>t d fb n. g t d fb n = r) \<and> ?P w)
      (do {
        _ \<leftarrow> consumeEvents ReviewCtx i (rr_stream (g t d (tReviewFeedback t) (tReworkCount t)));
        emitUsageEvent ReviewCtx i ''review'' [] (rr_usage (g t d (tReviewFeedback t) (tReworkCount t)));
        (if rr_err (g t d (tReviewFeedback t) (tReworkCount t)) = None
         then writeArtifact i (''artifacts/review_'' @ zeroPad 2 (itoa rnd) @ ''.md'')
           (reviewBody (rr_decision (g t d (tReviewFeedback t) (tReworkCount t))) rnd)
         else State_Monad.return ());
        (case rr_err (g t d (tReviewFeedback t) (tReworkCount t)) of
          Some e \<Rightarrow> failedReview i e
        | None \<Rightarrow> actOnReview a t (g t d (tReviewFeedback t) (tReworkCount t)))
      }) (\<lambda>_. decided i ds ks (verdictOf cap n fb (rr_decision r)))"
      by (rule triple_when) (simp only: rest)
  qed
qed

lemma standing_get:
  "triple (standing i ds ks StatusAIReview n fb) (mTaskGet ReviewCtx i)
    (\<lambda>r w. (\<exists>t. r = Inr t \<and> taskAt i n fb t) \<and> standing i ds ks StatusAIReview n fb w)"
proof (rule tripleI)
  fix w r w'
  assume a: "standing i ds ks StatusAIReview n fb w" and run: "run_state (mTaskGet ReviewCtx i) w = (r, w')"
  then have st: "standing i ds ks StatusAIReview n fb w'"
    using standing_onlyLogs [OF onlyLogs_intros(5)] by (metis tripleD)
  from a obtain row where row: "lookupBy r_id i (tasks (w_db w)) = Some row" "r_status row = StatusAIReview"
    "r_rework_count row = n" "r_review_feedback row = fb" by (auto simp: standing_def)
  from a have q: "quiet w" and live: "e_ctx (w_env w) ReviewCtx (w_step w) = Live"
    using live_quiet by (auto simp: standing_def liveEnv_def)
  have "taskValidate (scanTask row) = None"
    using a row(1) by (auto simp: standing_def wfDB_def rowsOk_def taskRowOk_def dest!: lookupBy_SomeD)
  moreover have "r = Inr (scanTask row)"
    using run q live row(1) by (simp add: mTaskGet_def storeRead_def taskGet_def)
  ultimately show "(\<exists>t. r = Inr t \<and> taskAt i n fb t) \<and> standing i ds ks StatusAIReview n fb w'"
    using st row lookupBy_SomeD [OF row(1)] by (simp add: taskAt_def)
qed

lemma standing_reviewTask:
  assumes "\<forall>k t d fb n. f k t d fb n = r" "rr_err r = None"
    "\<forall>k. effectiveMaxRework (ag_charter a k) = cap" "\<forall>k p b. \<exists>d. ag_diff a k p b = Inr d"
  shows "triple (standing i ds ks StatusAIReview n fb) (reviewTask a f i)
    (\<lambda>_. decided i ds ks (verdictOf cap n fb (rr_decision r)))"
  unfolding reviewTask_def
proof (rule triple_bind [OF standing_get])
  let ?P = "standing i ds ks StatusAIReview n fb" and ?Q = "\<lambda>_. decided i ds ks (verdictOf cap n fb (rr_decision r))"
  have go: "triple ?P (do {
      diff \<leftarrow> atStep (ag_diff a);
      case diff p b of Inl _ \<Rightarrow> State_Monad.return () | Inr d \<Rightarrow> reviewSession a f t d }) ?Q"
    if t: "taskAt i n fb t" for t p b
  proof (rule triple_bind)
    show "triple ?P (atStep (ag_diff a)) (\<lambda>diff w. (\<exists>d. diff p b = Inr d) \<and> ?P w)"
      using assms(4) by (intro triple_atStep) simp
    show "triple (\<lambda>w. (\<exists>d. diff p b = Inr d) \<and> ?P w)
        (case diff p b of Inl _ \<Rightarrow> State_Monad.return () | Inr d \<Rightarrow> reviewSession a f t d) ?Q" for diff
      by (rule triple_when) (auto intro: standing_session [OF t assms(1-3)])
  qed
  show "triple (\<lambda>w. (\<exists>t. x = Inr t \<and> taskAt i n fb t) \<and> ?P w)
      (case x of Inl _ \<Rightarrow> State_Monad.return ()
       | Inr t \<Rightarrow> if tStatus t \<noteq> StatusAIReview then State_Monad.return ()
           else do {
             diff \<leftarrow> atStep (ag_diff a);
             case diff (tWorktreePath t) (tBaseBranch t) of
               Inl _ \<Rightarrow> State_Monad.return () | Inr d \<Rightarrow> reviewSession a f t d }) ?Q" for x
  proof (rule triple_when, elim exE conjE)
    fix t
    assume x: "x = Inr t" and t: "taskAt i n fb t"
    then have "tStatus t = StatusAIReview" by (simp add: taskAt_def)
    with go [OF t] show "triple ?P (case x of Inl _ \<Rightarrow> State_Monad.return ()
       | Inr t \<Rightarrow> if tStatus t \<noteq> StatusAIReview then State_Monad.return ()
           else do {
             diff \<leftarrow> atStep (ag_diff a);
             case diff (tWorktreePath t) (tBaseBranch t) of
               Inl _ \<Rightarrow> State_Monad.return () | Inr d \<Rightarrow> reviewSession a f t d }) ?Q"
      by (simp add: x)
  qed
qed

text \<open>C30 (what a review decides). With the store answering and nobody else at the task, a review whose
  reviewer returns a verdict ends in exactly one of three ways: an approval takes the task to
  \<open>human_review\<close>, its counter and feedback untouched; a rejection below the cap takes it back to
  \<open>queued\<close> with the reviewer's feedback stored and the counter one higher, and a dispatcher is
  started for it unless the task is still registered as running; a rejection at the cap
  hands the task to the user with the standard notice as feedback. So the rework loop comes back to
  the queue by itself at most as often as the cap allows.\<close>

theorem review_verdict:
  assumes "settled a cap r" "standing i ds ks StatusAIReview n fb w"
    "run_state (runAIReview a i) w = (u, w')"
  shows "decided i ds ks (verdictOf cap n fb (rr_decision r)) w' \<and>
    (taskStatus (w_db w') i = Some StatusQueued \<longrightarrow> n < cap)"
proof -
  from assms(1) obtain f where f: "ag_reviewer a = Some f" "\<forall>k t d fb n. f k t d fb n = r"
    "rr_err r = None" "\<forall>k. effectiveMaxRework (ag_charter a k) = cap" "\<forall>k p b. \<exists>d. ag_diff a k p b = Inr d"
    by (auto simp: settled_def)
  let ?Q = "decided i ds ks (verdictOf cap n fb (rr_decision r))"
  obtain to n' fb' where v: "verdictOf cap n fb (rr_decision r) = (to, n', fb')" by (metis prod_cases3)
  have unreg: "triple ?Q (unregisterReview i) (\<lambda>_. ?Q)"
    unfolding v decided_def prod.case by (rule standing_register(2))
  have "triple (standing i ds ks StatusAIReview n fb) (runAIReview a i) (\<lambda>_. ?Q)"
    unfolding runAIReview_def f(1) option.case
    by (rule triple_bind [OF standing_register(1) triple_bind [OF standing_reviewTask [OF f(2-5)] unreg]])
  then have d: "?Q w'" using assms(2,3) by (rule tripleD)
  then have "taskStatus (w_db w') i = Some to"
    unfolding v decided_def prod.case by (auto simp: standing_def taskStatus_def)
  moreover have "to = StatusQueued \<Longrightarrow> n < cap" using v by (auto simp: verdictOf_def split: if_splits)
  ultimately show ?thesis using d by simp
qed

definition rejecting :: review_result where
  "rejecting = \<lparr>rr_stream = [delta ''hm''], rr_decision = \<lparr>rdApprove = False, rdFeedback = ''fix'', rdSummary = []\<rparr>,
     rr_model = [], rr_usage = sr_usage okRun, rr_err = None\<rparr>"

definition reviewDB :: db where
  "reviewDB = sampleDB\<lparr>tasks := [taskRowOf 1 (sampleTask ''t1'' StatusAIReview),
     taskRowOf 2 (sampleTask ''t2'' StatusQueued)]\<rparr>"

lemma wfDB_review: "wfDB reviewDB"
  by (simp add: reviewDB_def sample_defs wfDB_def keysOk_def refsOk_def rowsOk_def taskRowOk_iff
      subtaskRowOk_iff eventRowOk_def eventValidate_None taskRowOf_def subtaskRowOf_def)

theorem review_verdict_witness:
  "(let a = idleAgents\<lparr>ag_reviewer := Some (\<lambda>_ _ _ _ _. rejecting)\<rparr>;
        w' = snd (run_state (runAIReview a ''t1'') (sampleOrch (quietEnv (\<lambda>_ _. Live)) reviewDB))
    in map_option (\<lambda>r. (r_status r, r_rework_count r, r_review_feedback r)) (lookupBy r_id ''t1'' (tasks (w_db w'))) =
       Some (StatusQueued, 1, ''fix''))"
proof -
  let ?a = "idleAgents\<lparr>ag_reviewer := Some (\<lambda>_ _ _ _ _. rejecting)\<rparr>"
  let ?w = "sampleOrch (quietEnv (\<lambda>_ _. Live)) reviewDB"
  obtain w' where r: "run_state (runAIReview ?a ''t1'') ?w = ((), w')" by (rule run_unit)
  have s: "settled ?a MaxReworkCount rejecting"
    by (simp add: settled_def idleAgents_def rejecting_def effectiveMaxRework_def)
  have "standing ''t1'' [] [''t1''] StatusAIReview 0 [] ?w"
    by (simp add: standing_def liveEnv_def quietEnv_def wfDB_review)
      (simp add: reviewDB_def taskRowOf_def sample_defs)
  from review_verdict [OF s this r] obtain row where "lookupBy r_id ''t1'' (tasks (w_db w')) = Some row"
    "r_status row = StatusQueued" "r_rework_count row = 1" "r_review_feedback row = ''fix''"
    by (auto simp: decided_def verdictOf_def rejecting_def MaxReworkCount_def reworkFeedback_def standing_def)
  then show ?thesis by (simp add: Let_def r)
qed

end
