(* ===== verification/Log_Traces.thy ===== *)
theory Log_Traces
  imports "HOL-Library.State_Monad"
begin

text \<open>
  What a program appends to a log kept in its state: \<open>logTrace lg m T\<close> says that \<open>m\<close> only appends to the
  log \<open>lg\<close>, and that its result and what it appended satisfy \<open>T\<close>, from whatever state it starts. The logs are
  those of the git commands, of the manager's operations and of the reaper's calls.
\<close>

definition logTrace :: "('s \<Rightarrow> 'e list) \<Rightarrow> ('s, 'a) state \<Rightarrow> ('a \<Rightarrow> 'e list \<Rightarrow> bool) \<Rightarrow> bool" where
  "logTrace lg m T \<longleftrightarrow> (\<forall>w. \<exists>ops. lg (snd (run_state m w)) = lg w @ ops \<and> T (fst (run_state m w)) ops)"

lemma logTraceI:
  "(\<And>w. \<exists>ops. lg (snd (run_state m w)) = lg w @ ops \<and> T (fst (run_state m w)) ops) \<Longrightarrow> logTrace lg m T"
  by (simp add: logTrace_def)

lemma logTraceD:
  assumes "logTrace lg m T" "run_state m w = (x, w')"
  obtains ops where "lg w' = lg w @ ops" "T x ops"
  using assms unfolding logTrace_def by (metis fst_conv snd_conv)

lemma logTrace_return: "T x [] \<Longrightarrow> logTrace lg (State_Monad.return x) T"
  by (simp add: logTrace_def)

lemma logTrace_bind:
  assumes "logTrace lg m U" "\<And>x ops. U x ops \<Longrightarrow> logTrace lg (f x) (\<lambda>y ops'. T y (ops @ ops'))"
  shows "logTrace lg (State_Monad.bind m f) T"
proof (rule logTraceI)
  fix w
  obtain x w1 where r: "run_state m w = (x, w1)" by fastforce
  obtain ops where a: "lg w1 = lg w @ ops" "U x ops" by (rule logTraceD [OF assms(1) r])
  obtain y w2 where r2: "run_state (f x) w1 = (y, w2)" by fastforce
  obtain ops' where "lg w2 = lg w1 @ ops'" "T y (ops @ ops')"
    by (rule logTraceD [OF assms(2) [OF a(2)] r2])
  with a show "\<exists>ops. lg (snd (run_state (State_Monad.bind m f) w)) = lg w @ ops \<and>
      T (fst (run_state (State_Monad.bind m f) w)) ops"
    by (intro exI [of _ "ops @ ops'"]) (simp add: r r2)
qed

lemma logTrace_mono: "logTrace lg m T \<Longrightarrow> (\<And>x ops. T x ops \<Longrightarrow> T' x ops) \<Longrightarrow> logTrace lg m T'"
  unfolding logTrace_def by blast

text \<open>The second program for every result of the first.\<close>

lemma logTrace_bind_all:
  assumes "logTrace lg m (\<lambda>x ops. \<forall>y ops'. U x y ops' \<longrightarrow> T y (ops @ ops'))" "\<And>x. logTrace lg (f x) (U x)"
  shows "logTrace lg (State_Monad.bind m f) T"
  by (rule logTrace_bind [OF assms(1)]) (rule logTrace_mono [OF assms(2)], blast)

lemma logTrace_silent:
  assumes "\<And>w. lg (snd (run_state m w)) = lg w"
  shows "logTrace lg m (\<lambda>_ ops. ops = [])"
  using assms by (simp add: logTrace_def)

lemma logTrace_silent_bind:
  "logTrace lg m (\<lambda>_ ops. ops = []) \<Longrightarrow> (\<And>x. logTrace lg (f x) T) \<Longrightarrow> logTrace lg (State_Monad.bind m f) T"
  by (rule logTrace_bind) (auto elim: logTrace_mono)

lemma logTrace_case_sum:
  "(\<And>a. x = Inl a \<Longrightarrow> logTrace lg (f a) T) \<Longrightarrow> (\<And>b. x = Inr b \<Longrightarrow> logTrace lg (g b) T) \<Longrightarrow>
   logTrace lg (case x of Inl a \<Rightarrow> f a | Inr b \<Rightarrow> g b) T"
  by (cases x) auto

lemma logTrace_case_option:
  "(x = None \<Longrightarrow> logTrace lg m T) \<Longrightarrow> (\<And>b. x = Some b \<Longrightarrow> logTrace lg (g b) T) \<Longrightarrow>
   logTrace lg (case x of None \<Rightarrow> m | Some b \<Rightarrow> g b) T"
  by (cases x) auto

lemma logTrace_if:
  "(b \<Longrightarrow> logTrace lg m T) \<Longrightarrow> (\<not> b \<Longrightarrow> logTrace lg n T) \<Longrightarrow> logTrace lg (if b then m else n) T"
  by simp

end
