(* ===== verification/Finalize.thy ===== *)
theory Finalize
  imports Task_Triples Log_Traces
begin

text \<open>
  \<open>internal/orchestrator/finalize.go\<close>: what the user decides about a task's branch. The git
  operations of the worktree manager are parameters; the calls made and whether they succeeded
  are recorded in \<open>w_git\<close>, so that one can say which branch was deleted after which merge.
\<close>

section \<open>The worktree manager\<close>

datatype remove_mode = KeepBranch | DeleteBranch

datatype git_op =
    GitCommitPending string string
  | GitMerge string string string
  | GitRemove string string string remove_mode
  | GitDeleteBranch string string

record fin_world = orch_world +
  w_git :: "(git_op \<times> bool) list"
  w_mirrored :: "(string \<times> string \<times> string) list"

type_synonym 'a fin = "(fin_world, 'a) state"

text \<open>The manager's answer to a call at a step: nothing, or the text of its error.\<close>

record manager =
  mg_git :: "nat \<Rightarrow> git_op \<Rightarrow> string option"
  mg_mirror :: bool

definition callGit :: "manager \<Rightarrow> git_op \<Rightarrow> ('z fin_world_scheme, string option) state" where
  "callGit mg op = State (\<lambda>w. let r = mg_git mg (w_step w) op in
     (r, w\<lparr>w_step := Suc (w_step w), w_git := w_git w @ [(op, r = None)]\<rparr>))"

section \<open>Finalize\<close>

datatype finalization = FinalizeKeep | FinalizeDiscard | FinalizeMerge | FinalizeUnknown int

datatype finalize_error =
    FinEmptyID
  | FinBusy string
  | FinLookup store_error
  | FinOnlyMerge string
  | FinStatus status
  | FinNoWorktree string
  | FinRepo store_error
  | FinNoBase string
  | FinMergeFailed string
  | FinUnknown int
  | FinRemoveFailed string
  | FinTransition store_error
  | FinBranchGone string
  | FinDeleteFailed string
  | FinUpdate store_error
  | FinClearBranch store_error

definition isRunning :: "string \<Rightarrow> bool fin" where
  "isRunning i = State (\<lambda>w. (map_of (w_running w) i \<noteq> None, w))"

definition mirrorFinalizedTask :: "manager \<Rightarrow> task \<Rightarrow> finalization_kind \<Rightarrow> unit fin" where
  "mirrorFinalizedTask mg t fk = State (\<lambda>w. ((),
     if mg_mirror mg \<and> (fk = FinalizationKeep \<or> fk = FinalizationMerged)
     then w\<lparr>w_mirrored := w_mirrored w @ [(tRepoID t, tID t, tGoal t)]\<rparr> else w))"

definition finalizeDoneMerge :: "manager \<Rightarrow> task \<Rightarrow> finalize_error option fin" where
  "finalizeDoneMerge mg t =
     (if \<not> tBranchExists t \<or> tBranch t = [] then State_Monad.return (Some (FinBranchGone (tID t)))
      else if tBaseBranch t = [] then State_Monad.return (Some (FinNoBase (tID t)))
      else do {
        rp \<leftarrow> mRepoPath CallCtx (tRepoID t);
        case rp of Inl e \<Rightarrow> State_Monad.return (Some (FinRepo e))
        | Inr repo \<Rightarrow> do {
        merged \<leftarrow> callGit mg (GitMerge repo (tBaseBranch t) (tID t));
        case merged of Some e \<Rightarrow> State_Monad.return (Some (FinMergeFailed e))
        | None \<Rightarrow> do {
        deleted \<leftarrow> callGit mg (GitDeleteBranch repo (tBranch t));
        case deleted of Some e \<Rightarrow> State_Monad.return (Some (FinDeleteFailed e))
        | None \<Rightarrow> do {
        let t1 = t\<lparr>tFinalization := FinalizationMerged\<rparr>;
        upd \<leftarrow> mUpdateFields CallCtx t1;
        case upd of Inl e \<Rightarrow> State_Monad.return (Some (FinUpdate e))
        | Inr _ \<Rightarrow> do {
        cleared \<leftarrow> mSetBranchExists CallCtx (tID t1) False;
        case cleared of Inl e \<Rightarrow> State_Monad.return (Some (FinClearBranch e))
        | Inr _ \<Rightarrow> do {
        mirrorFinalizedTask mg t1 FinalizationMerged;
        State_Monad.return None
        }}}}}})"

text \<open>What an action asks for: how to remove the worktree, the next status, the finalization.\<close>

fun actionPlan :: "finalization \<Rightarrow> (remove_mode \<times> status \<times> finalization_kind) option" where
  "actionPlan FinalizeKeep = Some (KeepBranch, StatusDone, FinalizationKeep)"
| "actionPlan FinalizeDiscard = Some (DeleteBranch, StatusCancelled, FinalizationNone)"
| "actionPlan FinalizeMerge = Some (DeleteBranch, StatusDone, FinalizationMerged)"
| "actionPlan (FinalizeUnknown n) = None"

definition mergeFirst :: "manager \<Rightarrow> task \<Rightarrow> string \<Rightarrow> string \<Rightarrow> finalization \<Rightarrow> finalize_error option fin" where
  "mergeFirst mg t i repo action =
     (if action \<noteq> FinalizeMerge then State_Monad.return None
      else if tBaseBranch t = [] then State_Monad.return (Some (FinNoBase i))
      else do {
        r \<leftarrow> callGit mg (GitMerge repo (tBaseBranch t) i);
        State_Monad.return (case r of Some e \<Rightarrow> Some (FinMergeFailed e) | None \<Rightarrow> None)
      })"

definition tearDown ::
  "manager \<Rightarrow> task \<Rightarrow> string \<Rightarrow> string \<Rightarrow> remove_mode \<times> status \<times> finalization_kind \<Rightarrow> finalize_error option fin" where
  "tearDown mg t i repo plan = (case plan of (mode, next, fk) \<Rightarrow> do {
     removed \<leftarrow> callGit mg (GitRemove repo (tWorktreePath t) i mode);
     case removed of Some e \<Rightarrow> State_Monad.return (Some (FinRemoveFailed e))
     | None \<Rightarrow> do {
         r \<leftarrow> mTransition CallCtx i (tStatus t) next ErrCodeNone [] fk;
         case r of Inl e \<Rightarrow> State_Monad.return (Some (FinTransition e))
         | Inr _ \<Rightarrow> do {
             emitStatus CallCtx i (tStatus t) next;
             mirrorFinalizedTask mg t fk;
             State_Monad.return None
           }
       }
   })"

definition finalizeReviewed :: "manager \<Rightarrow> task \<Rightarrow> string \<Rightarrow> finalization \<Rightarrow> finalize_error option fin" where
  "finalizeReviewed mg t i action =
     (if tStatus t \<noteq> StatusHumanReview \<and> tStatus t \<noteq> StatusAborted
        then State_Monad.return (Some (FinStatus (tStatus t)))
      else if tWorktreePath t = [] \<or> tBranch t = [] then State_Monad.return (Some (FinNoWorktree i))
      else do {
        rp \<leftarrow> mRepoPath CallCtx (tRepoID t);
        case rp of Inl e \<Rightarrow> State_Monad.return (Some (FinRepo e))
        | Inr repo \<Rightarrow> do {
            (if action = FinalizeKeep \<or> action = FinalizeMerge then do {
               _ \<leftarrow> callGit mg (GitCommitPending (tWorktreePath t) (''FleetKanban: finalize '' @ tID t));
               State_Monad.return ()
             } else State_Monad.return ());
            case actionPlan action of
              None \<Rightarrow> State_Monad.return (Some (case action of FinalizeUnknown n \<Rightarrow> FinUnknown n | _ \<Rightarrow> FinUnknown 0))
            | Some plan \<Rightarrow> do {
                merged \<leftarrow> mergeFirst mg t i repo action;
                case merged of Some e \<Rightarrow> State_Monad.return (Some e)
                | None \<Rightarrow> tearDown mg t i repo plan
              }
          }
      })"

definition finalize :: "manager \<Rightarrow> string \<Rightarrow> finalization \<Rightarrow> finalize_error option fin" where
  "finalize mg i action =
     (if i = [] then State_Monad.return (Some FinEmptyID)
      else do {
        busy \<leftarrow> isRunning i;
        if busy then State_Monad.return (Some (FinBusy i))
        else do {
          rt \<leftarrow> mTaskGet CallCtx i;
          case rt of Inl e \<Rightarrow> State_Monad.return (Some (FinLookup e))
          | Inr t \<Rightarrow>
              if tStatus t = StatusDone \<and> tFinalization t = FinalizationKeep then
                if action \<noteq> FinalizeMerge then State_Monad.return (Some (FinOnlyMerge i))
                else finalizeDoneMerge mg t
              else finalizeReviewed mg t i action
        }
      })"

section \<open>Properties\<close>

text \<open>No branch is deleted before its commits are safe: every successful deletion comes after a
  successful merge of that task, unless the user discards.\<close>

fun deletesBranch :: "git_op \<Rightarrow> bool" where
  "deletesBranch (GitRemove repo path i mode) = (mode = DeleteBranch)"
| "deletesBranch (GitDeleteBranch repo b) = True"
| "deletesBranch _ = False"

fun mergedFirst :: "string \<Rightarrow> bool \<Rightarrow> (git_op \<times> bool) list \<Rightarrow> bool" where
  "mergedFirst i safe [] = True"
| "mergedFirst i safe ((op, ok) # ops) =
     ((deletesBranch op \<longrightarrow> safe) \<and>
      mergedFirst i (safe \<or> ok \<and> (\<exists>repo base. op = GitMerge repo base i)) ops)"

text \<open>\<open>gitTrace m T\<close>: what \<open>m\<close> appends to the git log satisfies \<open>T\<close>.\<close>

abbreviation gitTrace :: "'a fin \<Rightarrow> ('a \<Rightarrow> (git_op \<times> bool) list \<Rightarrow> bool) \<Rightarrow> bool" where
  "gitTrace \<equiv> logTrace w_git"

lemmas gitTraceI = logTraceI [where lg = w_git]
lemmas gitTrace_return = logTrace_return [where lg = w_git]
lemmas gitTrace_bind = logTrace_bind_all [where lg = w_git]
lemmas gitTrace_mono = logTrace_mono [where lg = w_git]
lemmas gitTrace_silent = logTrace_silent [where lg = w_git]
lemmas gitTrace_silent_bind = logTrace_silent_bind [where lg = w_git]
lemmas gitTrace_case_sum = logTrace_case_sum [where lg = w_git]
lemmas gitTrace_case_option = logTrace_case_option [where lg = w_git]
lemmas gitTrace_if = logTrace_if [where lg = w_git]

lemma gitTrace_call: "gitTrace (callGit mg op) (\<lambda>r ops. ops = [(op, r = None)])"
  by (simp add: logTrace_def callGit_def Let_def)

lemma git_stepped [simp]: "w_git (stepped w) = w_git w"
  by (simp add: stepped_def)

lemma git_silent [simp]:
  "w_git (snd (run_state (storeWrite c f) w)) = w_git w"
  "w_git (snd (run_state (storeRead c q) w)) = w_git w"
  "w_git (snd (run_state newULID w)) = w_git w"
  "w_git (snd (run_state readClock w)) = w_git w"
  "w_git (snd (run_state (sink e) w)) = w_git w"
  "w_git (snd (run_state (isRunning i) w)) = w_git w"
  "w_git (snd (run_state (mirrorFinalizedTask mg t fk) w)) = w_git w"
  by (simp_all add: storeWrite_def storeRead_def newULID_def readClock_def sink_def isRunning_def
      mirrorFinalizedTask_def split: sum.splits)

lemma git_silent_calls [simp]:
  fixes w :: fin_world
  shows
  "w_git (snd (run_state (mTransition c i s s' code msg fin) w)) = w_git w"
  "w_git (snd (run_state (mUpdateFields c t) w)) = w_git w"
  "w_git (snd (run_state (mSetBranchExists c i b) w)) = w_git w"
  "w_git (snd (run_state (mTaskGet c i) w)) = w_git w"
  "w_git (snd (run_state (mRepoPath c i) w)) = w_git w"
  "w_git (snd (run_state (mAppendAutoSeq c e) w)) = w_git w"
  unfolding store_calls by simp_all

lemma gitTrace_bind_via:
  assumes "\<And>w. w_git (snd (run_state m w)) = w_git w" "returns R m" "\<And>x. R x \<Longrightarrow> gitTrace (f x) T"
  shows "gitTrace (State_Monad.bind m f) T"
proof (rule gitTraceI)
  fix w
  obtain x w1 where r: "run_state m w = (x, w1)" by fastforce
  have g: "w_git w1 = w_git w" using assms(1) [of w] by (simp add: r)
  have "R x" using assms(2) r unfolding returns_def by (metis fst_conv)
  from assms(3) [OF this] show "\<exists>ops. w_git (snd (run_state (State_Monad.bind m f) w)) = w_git w @ ops \<and>
      T (fst (run_state (State_Monad.bind m f) w)) ops"
    unfolding logTrace_def by (simp add: r flip: g)
qed

lemma gitTrace_emitStatus: "gitTrace (emitStatus c i s s') (\<lambda>_ ops. ops = [])"
  unfolding emitStatus_def
  by (intro gitTrace_silent_bind gitTrace_silent gitTrace_case_sum gitTrace_return) simp_all

text \<open>The log of a call that has merged already (\<open>safe\<close>) or not.\<close>

abbreviation safely :: "string \<Rightarrow> bool \<Rightarrow> 'a \<Rightarrow> (git_op \<times> bool) list \<Rightarrow> bool" where
  "safely i safe \<equiv> (\<lambda>_. mergedFirst i safe)"

lemma safely_call:
  assumes "deletesBranch op \<longrightarrow> safe"
    "\<And>r. gitTrace (f r) (safely i (safe \<or> r = None \<and> (\<exists>repo base. op = GitMerge repo base i)))"
  shows "gitTrace (State_Monad.bind (callGit mg op) f) (safely i safe)"
  by (rule gitTrace_bind [OF gitTrace_mono [OF gitTrace_call]]) (use assms in auto)

lemma safely_tearDown:
  assumes "fst plan = DeleteBranch \<longrightarrow> safe"
  shows "gitTrace (tearDown mg t i repo plan) (safely i safe)"
proof (cases plan)
  case (fields mode nxt fk)
  show ?thesis
    unfolding tearDown_def fields prod.case
    by (rule safely_call)
      (use assms fields in \<open>auto intro!: gitTrace_case_option gitTrace_return gitTrace_case_sum
        gitTrace_silent_bind gitTrace_silent gitTrace_emitStatus\<close>)
qed

lemma safely_doneMerge:
  assumes "tID t = i"
  shows "gitTrace (finalizeDoneMerge mg t) (safely i False)"
  unfolding finalizeDoneMerge_def Let_def assms
  by (intro gitTrace_if gitTrace_return gitTrace_silent_bind gitTrace_silent gitTrace_case_sum
      gitTrace_case_option safely_call) (simp_all add: assms)

lemma safely_reviewed:
  assumes "action \<noteq> FinalizeDiscard"
  shows "gitTrace (finalizeReviewed mg t i action) (safely i False)"
proof -
  let ?keep = "if action = FinalizeKeep \<or> action = FinalizeMerge then do {
      _ \<leftarrow> callGit mg (GitCommitPending (tWorktreePath t) (''FleetKanban: finalize '' @ tID t));
      State_Monad.return ()
    } else State_Monad.return ()"
  have keep: "gitTrace (?keep \<bind> (\<lambda>_. m)) (safely i False)" if "gitTrace m (safely i False)" for m :: "finalize_error option fin"
    using that by (auto intro!: safely_call)
  have go: "gitTrace (do { merged \<leftarrow> mergeFirst mg t i repo action;
      case merged of Some e \<Rightarrow> State_Monad.return (Some e) | None \<Rightarrow> tearDown mg t i repo plan }) (safely i False)"
    if "actionPlan action = Some plan" for plan repo
  proof (cases "action = FinalizeMerge")
    case True
    have "gitTrace (mergeFirst mg t i repo action)
        (\<lambda>r ops. ops = [] \<and> r \<noteq> None \<or> (\<exists>b. ops = [(GitMerge repo b i, r = None)]))"
      using True by (auto simp: mergeFirst_def logTrace_def callGit_def Let_def split: option.splits)
    then show ?thesis
      by (rule gitTrace_bind [OF gitTrace_mono, where U = "\<lambda>r. safely i (r = None)"])
        (auto intro!: gitTrace_case_option gitTrace_return safely_tearDown split: option.splits)
  next
    case False
    then have "fst plan = KeepBranch" "mergeFirst mg t i repo action = State_Monad.return None"
      using that assms by (cases action; auto simp: mergeFirst_def)+
    then show ?thesis by (simp add: safely_tearDown)
  qed
  show ?thesis
    unfolding finalizeReviewed_def
    by (intro gitTrace_if gitTrace_return gitTrace_silent_bind [OF gitTrace_silent] gitTrace_case_sum
        keep gitTrace_case_option go) simp_all
qed

lemma safely_finalize:
  assumes "action \<noteq> FinalizeDiscard"
  shows "gitTrace (finalize mg i action) (safely i False)"
  unfolding finalize_def
  by (intro gitTrace_if gitTrace_return gitTrace_silent_bind [OF gitTrace_silent]
      gitTrace_bind_via [OF _ returns_mTaskGet] gitTrace_case_sum)
    (use assms in \<open>auto intro: safely_doneMerge safely_reviewed\<close>)

text \<open>C28 (no work is thrown away). Unless the user discards the task, Finalize deletes no branch and
  no worktree with its branch before a merge of that task into its base branch has succeeded,
  whatever git answers, in whatever state the task is and whatever other goroutines do meanwhile.\<close>

theorem finalize_merges_before_deleting:
  assumes "action \<noteq> FinalizeDiscard" "run_state (finalize mg i action) w = (r, w')"
  shows "\<exists>ops. w_git w' = w_git w @ ops \<and> mergedFirst i False ops"
  using safely_finalize [OF assms(1), unfolded logTrace_def, rule_format, of mg i w] by (simp add: assms(2))

definition sampleFin :: "env \<Rightarrow> db \<Rightarrow> fin_world" where
  "sampleFin e d = orch_world.extend (sampleOrch e d) \<lparr>w_git = [], w_mirrored = []\<rparr>"

lemma sampleFin_sel [simp]:
  "w_env (sampleFin e d) = e" "w_step (sampleFin e d) = 0" "w_db (sampleFin e d) = d"
  "w_running (sampleFin e d) = [(''t1'', False)]" "w_git (sampleFin e d) = []"
  by (simp_all add: sampleFin_def orch_world.extend_def)

definition easyGit :: manager where
  "easyGit = \<lparr>mg_git = (\<lambda>_ _. None), mg_mirror = True\<rparr>"

definition reviewedTask :: "string \<Rightarrow> status \<Rightarrow> task" where
  "reviewedTask i st = (sampleTask i st)\<lparr>tWorktreePath := ''/wt''\<rparr>"

definition reviewedDB :: db where
  "reviewedDB = sampleDB\<lparr>tasks := [taskRowOf 1 (sampleTask ''t1'' StatusInProgress),
     taskRowOf 2 (reviewedTask ''t2'' StatusHumanReview)]\<rparr>"

lemma wfDB_reviewed: "wfDB reviewedDB"
  by (simp add: reviewedDB_def reviewedTask_def sample_defs wfDB_def keysOk_def refsOk_def rowsOk_def taskRowOk_iff
      subtaskRowOk_iff eventRowOk_def eventValidate_None taskRowOf_def subtaskRowOf_def)

theorem finalize_merges_before_deleting_witness:
  "mergedFirst ''t2'' False (w_git (snd (run_state (finalize easyGit ''t2'' FinalizeMerge)
     (sampleFin (quietEnv (\<lambda>_ _. Live)) reviewedDB))))"
proof -
  let ?w = "sampleFin (quietEnv (\<lambda>_ _. Live)) reviewedDB"
  obtain r w' where run: "run_state (finalize easyGit ''t2'' FinalizeMerge) ?w = (r, w')" by fastforce
  from finalize_merges_before_deleting [OF _ this] show ?thesis by (simp add: run)
qed

section \<open>The outcome of a decision\<close>

lemma holds_callGit: "triple (holds i r) (callGit mg op) (\<lambda>_. holds i r)"
  by (rule holds_frame) (simp_all add: callGit_def Let_def)

lemma holds_mirror: "triple (holds i r) (mirrorFinalizedTask mg t fk) (\<lambda>_. holds i r)"
  by (rule holds_frame) (simp_all add: mirrorFinalizedTask_def)

lemma holds_running: "triple (holds i r) (isRunning j) (\<lambda>_. holds i r)"
  by (rule holds_frame) (simp_all add: isRunning_def)

text \<open>What became of the row when a review was decided.\<close>

definition decidedRow :: "finalization \<Rightarrow> task_row \<Rightarrow> task_row \<Rightarrow> bool" where
  "decidedRow action r r' \<longleftrightarrow> (r_status r = StatusHumanReview \<or> r_status r = StatusAborted) \<and>
     (\<exists>mode now nxt fk. actionPlan action = Some (mode, nxt, fk) \<and>
        r' = transitionRow now (r_status r) nxt ErrCodeNone [] fk r)"

definition outcome :: "string \<Rightarrow> (task_row \<Rightarrow> bool) \<Rightarrow> task_row \<Rightarrow> finalize_error option \<Rightarrow> fin_world \<Rightarrow> bool" where
  "outcome i good r res w = (case res of Some e \<Rightarrow> holds i r w | None \<Rightarrow> \<exists>r'. holds i r' w \<and> good r')"

lemma outcome_error: "triple (holds i r) (State_Monad.return (Some e)) (outcome i good r)"
  by (rule triple_return) (simp add: outcome_def)

lemma outcome_option:
  "triple (holds i r) m (outcome i good r) \<Longrightarrow>
   triple (holds i r) (case x of None \<Rightarrow> m | Some e \<Rightarrow> State_Monad.return (Some (f e))) (outcome i good r)"
  by (cases x) (simp_all add: outcome_error)

lemma outcome_sum:
  "(\<And>y. triple (holds i r) (m y) (outcome i good r)) \<Longrightarrow>
   triple (holds i r) (case x of Inl e \<Rightarrow> State_Monad.return (Some (f e)) | Inr y \<Rightarrow> m y) (outcome i good r)"
  by (cases x) (simp_all add: outcome_error)

lemma actionPlan_legal:
  assumes "actionPlan action = Some (mode, nxt, fk)" "s = StatusHumanReview \<or> s = StatusAborted"
  shows "canTransition s nxt" "nxt = StatusDone \<longleftrightarrow> fk \<noteq> FinalizationNone" "nxt \<noteq> StatusFailed" "finalizationValid fk"
proof -
  have "canTransition StatusHumanReview StatusDone \<and> canTransition StatusHumanReview StatusCancelled \<and>
    canTransition StatusAborted StatusDone \<and> canTransition StatusAborted StatusCancelled" by code_simp
  with assms show "canTransition s nxt" by (cases action) auto
  show "nxt = StatusDone \<longleftrightarrow> fk \<noteq> FinalizationNone" "nxt \<noteq> StatusFailed" "finalizationValid fk"
    using assms(1) by (cases action; auto)+
qed

lemma holds_tearDown:
  assumes "actionPlan action = Some plan" "r_status r = StatusHumanReview \<or> r_status r = StatusAborted"
  shows "triple (holds i r) (tearDown mg (scanTask r) i repo plan) (outcome i (decidedRow action r) r)"
proof -
  obtain mode nxt fk where p: "plan = (mode, nxt, fk)" by (cases plan)
  note legal = actionPlan_legal [OF assms(1) [unfolded p] assms(2)]
  have finish: "triple (holds i (transitionRow now (r_status r) nxt ErrCodeNone [] fk r))
      (do { emitStatus CallCtx i (r_status r) nxt; mirrorFinalizedTask mg (scanTask r) fk; State_Monad.return None })
      (outcome i (decidedRow action r) r)" for now
    by (rule triple_bind [OF holds_emitStatus triple_bind [OF holds_mirror triple_return]])
      (use assms p in \<open>auto simp: outcome_def decidedRow_def\<close>)
  have move: "triple (\<lambda>w. x = Inr () \<and> (\<exists>now. holds i (transitionRow now (r_status r) nxt ErrCodeNone [] fk r) w))
      (case x of Inl e \<Rightarrow> State_Monad.return (Some (FinTransition e))
       | Inr _ \<Rightarrow> do { emitStatus CallCtx i (r_status r) nxt;
           mirrorFinalizedTask mg (scanTask r) fk; State_Monad.return None })
      (outcome i (decidedRow action r) r)" for x :: "store_error + unit"
    using finish unfolding triple_def by fastforce
  show ?thesis
    unfolding tearDown_def p prod.case scanTask_sel
    by (rule triple_bind [OF holds_callGit outcome_option
          [OF triple_bind [OF holds_transition [OF refl legal(1-3) legal(4)] move]]])
qed

lemma holds_reviewed:
  "triple (holds i r) (finalizeReviewed mg (scanTask r) i action) (outcome i (decidedRow action r) r)"
proof (cases "r_status r = StatusHumanReview \<or> r_status r = StatusAborted")
  case False
  then show ?thesis by (simp add: finalizeReviewed_def outcome_error)
next
  case True
  have merge: "triple (holds i r) (mergeFirst mg (scanTask r) i repo action) (\<lambda>_. holds i r)" for repo
    unfolding mergeFirst_def
    by (intro triple_if triple_return triple_bind [OF holds_callGit]) simp_all
  have keep: "triple (holds i r)
      (if action = FinalizeKeep \<or> action = FinalizeMerge then do {
         _ \<leftarrow> callGit mg op; State_Monad.return () } else State_Monad.return ()) (\<lambda>_. holds i r)" for op
    by (intro triple_if triple_return triple_bind [OF holds_callGit]) simp_all
  have tail: "triple (holds i r) (case actionPlan action of
        None \<Rightarrow> State_Monad.return (Some err)
      | Some plan \<Rightarrow> do {
          merged \<leftarrow> mergeFirst mg (scanTask r) i repo action;
          case merged of Some e \<Rightarrow> State_Monad.return (Some e) | None \<Rightarrow> tearDown mg (scanTask r) i repo plan })
      (outcome i (decidedRow action r) r)" for err repo
  proof (cases "actionPlan action")
    case (Some plan)
    show ?thesis unfolding Some option.case
      by (rule triple_bind [OF merge outcome_option [where f = "\<lambda>e. e", OF holds_tearDown [OF Some True]]])
  qed (simp add: outcome_error)
  show ?thesis
    unfolding finalizeReviewed_def mRepoPath_def
    by (intro triple_if outcome_error triple_bind [OF holds_read outcome_sum [OF triple_bind [OF keep tail]]])
qed

text \<open>Merging a branch that was kept before: the task stays done, its branch is gone.\<close>

definition mergedRow :: "finalization \<Rightarrow> task_row \<Rightarrow> task_row \<Rightarrow> bool" where
  "mergedRow action r r' \<longleftrightarrow> action = FinalizeMerge \<and> r_status r = StatusDone \<and> r_finalization r = FinalizationKeep \<and>
     r_status r' = StatusDone \<and> r_finalization r' = FinalizationMerged \<and> r_branch_exists r' = 0"

lemma holds_doneMerge:
  assumes "r_status r = StatusDone" "r_finalization r = FinalizationKeep" "taskRowOk r" "r_id r = i"
  shows "triple (holds i r) (finalizeDoneMerge mg (scanTask r)) (outcome i (mergedRow FinalizeMerge r) r)"
proof -
  let ?t = "(scanTask r)\<lparr>tFinalization := FinalizationMerged\<rparr>"
  have v: "taskValidate ?t = None" "tStatus ?t = StatusDone" "tID ?t = i" "tFinalization ?t = FinalizationMerged"
    using assms by (auto simp: taskRowOk_def taskValidate_None)
  have finish: "triple (\<lambda>w. x = Inr () \<and> (\<exists>now. holds i ((updateFieldsRow now' ?t r)\<lparr>r_branch_exists := (if False then 1 else 0),
        r_updated_at := now\<rparr>) w))
      (case x of Inl e \<Rightarrow> State_Monad.return (Some (FinClearBranch e))
       | Inr _ \<Rightarrow> do { mirrorFinalizedTask mg ?t FinalizationMerged; State_Monad.return None })
      (outcome i (mergedRow FinalizeMerge r) r)" for x :: "store_error + unit" and now'
  proof (rule triple_when, simp only: sum.case, rule triple_ex_pre, rule triple_bind [OF holds_mirror triple_return])
    fix now and w :: fin_world
    assume "holds i ((updateFieldsRow now' ?t r)\<lparr>r_branch_exists := (if False then 1 else 0), r_updated_at := now\<rparr>) w"
    then show "outcome i (mergedRow FinalizeMerge r) r None w"
      using assms by (auto simp: outcome_def mergedRow_def updateFieldsRow_def)
  qed
  have clear: "triple (\<lambda>w. x = Inr () \<and> (\<exists>now. holds i (updateFieldsRow now ?t r) w))
      (case x of Inl e \<Rightarrow> State_Monad.return (Some (FinUpdate e))
       | Inr _ \<Rightarrow> do {
           cleared \<leftarrow> mSetBranchExists CallCtx i False;
           case cleared of Inl e \<Rightarrow> State_Monad.return (Some (FinClearBranch e))
           | Inr _ \<Rightarrow> do { mirrorFinalizedTask mg ?t FinalizationMerged; State_Monad.return None } })
      (outcome i (mergedRow FinalizeMerge r) r)" for x :: "store_error + unit"
    by (rule triple_when, simp only: sum.case, rule triple_ex_pre, rule triple_bind [OF holds_setBranchExists finish])
  have upd: "triple (holds i r) (mUpdateFields CallCtx ?t) (\<lambda>x w. x = Inr () \<and> (\<exists>now. holds i (updateFieldsRow now ?t r) w))"
    by (rule holds_updateFields) (use assms v in simp_all)
  show ?thesis
    unfolding finalizeDoneMerge_def Let_def mRepoPath_def v(3)
    by (intro triple_if outcome_error triple_bind [OF holds_read outcome_sum [OF triple_bind [OF holds_callGit
          outcome_option [OF triple_bind [OF holds_callGit outcome_option [OF triple_bind [OF upd clear]]]]]]])
qed

lemma outcome_weaken: "outcome i g r x w \<Longrightarrow> (\<And>r'. g r' \<Longrightarrow> g' r') \<Longrightarrow> outcome i g' r x w"
  by (auto simp: outcome_def split: option.splits)

lemma holds_finalize:
  assumes "taskRowOk r" "r_id r = i"
  shows "triple (holds i r) (finalize mg i action) (outcome i (\<lambda>r'. decidedRow action r r' \<or> mergedRow action r r') r)"
    (is "triple _ _ (outcome i ?good r)")
proof -
  have kept: "triple (holds i r) (finalizeDoneMerge mg (scanTask r)) (outcome i ?good r)"
    if "r_status r = StatusDone \<and> r_finalization r = FinalizationKeep" "action = FinalizeMerge"
    by (rule triple_conseq [OF holds_doneMerge]) (use assms that in \<open>auto elim: outcome_weaken\<close>)
  have rev: "triple (holds i r) (finalizeReviewed mg (scanTask r) i action) (outcome i ?good r)"
    by (rule triple_conseq [OF holds_reviewed]) (auto elim: outcome_weaken)
  have go: "triple (\<lambda>w. x = Inr (scanTask r) \<and> holds i r w)
     (case x of Inl e \<Rightarrow> State_Monad.return (Some (FinLookup e))
      | Inr t \<Rightarrow> if tStatus t = StatusDone \<and> tFinalization t = FinalizationKeep then
                if action \<noteq> FinalizeMerge then State_Monad.return (Some (FinOnlyMerge i))
                else finalizeDoneMerge mg t
              else finalizeReviewed mg t i action) (outcome i ?good r)" for x
    by (rule triple_when) (use kept rev in \<open>simp add: outcome_error\<close>)
  show ?thesis
    unfolding finalize_def
    by (intro triple_if outcome_error triple_bind [OF holds_running] triple_bind [OF holds_get go])
qed

text \<open>C31 (a decision is carried out or leaves the task as it was). With the database alone to itself,
  Finalize either fails and the task's row is exactly what it was, whatever git did; or it succeeds:
  from human review or aborted the task takes the status and the finalization its action asks for, and
  from done with a kept branch only a merge is possible, which leaves it done, merged and without a
  branch. A merge or a discard from review deletes the branch in git but leaves the row's
  \<open>branch_exists\<close> flag as it was.\<close>

theorem finalize_outcome:
  assumes "liveEnv (w_env w)" "wfDB (w_db w)" "lookupBy r_id i (tasks (w_db w)) = Some r"
    "run_state (finalize mg i action) w = (res, w')"
  shows "case res of
      Some e \<Rightarrow> lookupBy r_id i (tasks (w_db w')) = Some r
    | None \<Rightarrow> \<exists>r'. lookupBy r_id i (tasks (w_db w')) = Some r' \<and>
        (if r_status r = StatusDone
         then action = FinalizeMerge \<and> r_finalization r = FinalizationKeep \<and> r_status r' = StatusDone \<and>
           r_finalization r' = FinalizationMerged \<and> r_branch_exists r' = 0
         else r_status r \<in> {StatusHumanReview, StatusAborted} \<and>
           actionPlan action \<in> range (\<lambda>mode. Some (mode, r_status r', r_finalization r')) \<and>
           r_branch_exists r' = r_branch_exists r)"
proof -
  have "holds i r w" using assms by (simp add: holds_def)
  moreover have "taskRowOk r" "r_id r = i" using assms(2) lookupBy_SomeD [OF assms(3)] wfDB_def rowsOk_def by auto
  ultimately have "outcome i (\<lambda>r'. decidedRow action r r' \<or> mergedRow action r r') r res w'"
    using tripleD [OF holds_finalize _ assms(4)] by blast
  then show ?thesis
    by (fastforce simp: outcome_def holds_def decidedRow_def mergedRow_def transitionRow_def split: option.splits)
qed

lemma canTransition_review: "canTransition StatusHumanReview StatusDone"
  by code_simp

theorem finalize_outcome_witness:
  "\<exists>r'. lookupBy r_id ''t2'' (tasks (w_db (snd (run_state (finalize easyGit ''t2'' FinalizeMerge)
       (sampleFin (quietEnv (\<lambda>_ _. Live)) reviewedDB))))) = Some r' \<and> r_status r' = StatusDone \<and>
     r_finalization r' = FinalizationMerged"
proof -
  let ?w = "sampleFin (quietEnv (\<lambda>_ _. Live)) reviewedDB"
  let ?r = "taskRowOf 2 (reviewedTask ''t2'' StatusHumanReview)"
  obtain res w' where run: "run_state (finalize easyGit ''t2'' FinalizeMerge) ?w = (res, w')" by fastforce
  have l: "lookupBy r_id ''t2'' (tasks (w_db ?w)) = Some ?r"
    by (simp add: reviewedDB_def reviewedTask_def sample_defs taskRowOf_def)
  have e: "liveEnv (w_env ?w)" by (simp add: liveEnv_def quietEnv_def)
  have "fst (run_state (finalize easyGit ''t2'' FinalizeMerge) ?w) = None"
    by (simp add: finalize_def finalizeReviewed_def mergeFirst_def tearDown_def case_prod_unfold isRunning_def
        callGit_def easyGit_def store_calls storeRead_def storeWrite_def taskGet_def repoPath_def repoGet_def Let_def stepped_def
        quietEnv_def reviewedDB_def reviewedTask_def sample_defs taskRowOf_def transition_def
        canTransition_review countWhere_def)
  with finalize_outcome [OF e _ l run] wfDB_reviewed run show ?thesis
    by (auto simp: reviewedTask_def sampleTask_def taskRowOf_def)
qed

end
