(* ===== verification/Concurrency.thy ===== *)
theory Concurrency
  imports FK_Prelude "HOL-Library.Multiset"
begin

text \<open>
  The limits of \<open>internal/orchestrator/orchestrator.go\<close>: the checks of \<open>New\<close> on its
  configuration, and the semaphore that bounds how many tasks run. \<open>SetConcurrency\<close> replaces the
  semaphore by a new one; a dispatcher acquires and releases the one it saw in \<open>currentSem\<close>. The
  semaphores live since the start are numbered (\<open>generations\<close>). Whether a weighted semaphore of a
  given size lets one more holder in is a parameter: it belongs to golang.org/x/sync.
\<close>

section \<open>New\<close>

definition ConcurrencyMin :: int where "ConcurrencyMin = 1"
definition ConcurrencyMax :: int where "ConcurrencyMax = 12"
definition SubtaskConcurrencyMin :: int where "SubtaskConcurrencyMin = 1"
definition SubtaskConcurrencyMax :: int where "SubtaskConcurrencyMax = 8"
definition SubtaskConcurrencyDefault :: int where "SubtaskConcurrencyDefault = 3"

text \<open>What of \<open>Config\<close> is checked; the time limits are in nanoseconds.\<close>

record config =
  cfg_stores :: bool
  cfg_planner :: bool
  cfg_subtaskStore :: bool
  cfg_concurrency :: int
  cfg_subtaskConcurrency :: int
  cfg_batchInterval :: int
  cfg_channelBuffer :: int
  cfg_planningTimeout :: int

datatype config_error = ErrStoresRequired | ErrSubtaskStoreRequired

definition clampInt :: "int \<Rightarrow> int \<Rightarrow> int \<Rightarrow> int" where
  "clampInt lo hi n = (let m = (if n < lo then lo else n) in if m > hi then hi else m)"

definition withDefaults :: "config \<Rightarrow> config" where
  "withDefaults cfg = cfg\<lparr>
     cfg_concurrency := clampInt ConcurrencyMin ConcurrencyMax
       (if cfg_concurrency cfg \<le> 0 then 4 else cfg_concurrency cfg),
     cfg_subtaskConcurrency := clampInt SubtaskConcurrencyMin SubtaskConcurrencyMax
       (if cfg_subtaskConcurrency cfg \<le> 0 then SubtaskConcurrencyDefault else cfg_subtaskConcurrency cfg),
     cfg_batchInterval := (if cfg_batchInterval cfg \<le> 0 then 100 * 1000000 else cfg_batchInterval cfg),
     cfg_channelBuffer := (if cfg_channelBuffer cfg \<le> 0 then 1024 else cfg_channelBuffer cfg),
     cfg_planningTimeout := (if cfg_planningTimeout cfg \<le> 0 then 5 * 60 * 1000000000 else cfg_planningTimeout cfg)\<rparr>"

definition newConfig :: "config \<Rightarrow> config_error + config" where
  "newConfig cfg =
     (if \<not> cfg_stores cfg then Inl ErrStoresRequired
      else let cfg = withDefaults cfg
        in if cfg_planner cfg \<and> \<not> cfg_subtaskStore cfg then Inl ErrSubtaskStoreRequired
        else Inr cfg)"

section \<open>The live semaphore\<close>

text \<open>A dispatcher waits for a slot of the generation it saw, or holds one.\<close>

datatype slot = Waiting nat | Holding nat

record slots =
  sl_sizes :: "int list"
  sl_limit :: int
  sl_procs :: "slot multiset"

definition newSlots :: "config \<Rightarrow> slots" where
  "newSlots cfg = \<lparr>sl_sizes = [cfg_concurrency cfg], sl_limit = cfg_concurrency cfg, sl_procs = {#}\<rparr>"

definition setConcurrency :: "int \<Rightarrow> slots \<Rightarrow> slots \<times> int" where
  "setConcurrency n s =
     (let n = clampInt ConcurrencyMin ConcurrencyMax n
      in if n = sl_limit s then (s, sl_limit s)
      else (s\<lparr>sl_sizes := sl_sizes s @ [n], sl_limit := n\<rparr>, n))"

definition concurrency :: "slots \<Rightarrow> int" where
  "concurrency s = sl_limit s"

definition currentSem :: "slots \<Rightarrow> nat" where
  "currentSem s = length (sl_sizes s) - 1"

definition heldOf :: "nat \<Rightarrow> slots \<Rightarrow> nat" where
  "heldOf g s = count (sl_procs s) (Holding g)"

fun isHolding :: "slot \<Rightarrow> bool" where
  "isHolding (Holding g) = True"
| "isHolding (Waiting g) = False"

text \<open>How many tasks run at once.\<close>

definition runningTasks :: "slots \<Rightarrow> nat" where
  "runningTasks s = size (filter_mset isHolding (sl_procs s))"

inductive slot_step :: "(int \<Rightarrow> nat \<Rightarrow> bool) \<Rightarrow> slots \<Rightarrow> slots \<Rightarrow> bool" for admits where
  set_limit: "slot_step admits s (fst (setConcurrency n s))"
| arrive: "slot_step admits s (s\<lparr>sl_procs := add_mset (Waiting (currentSem s)) (sl_procs s)\<rparr>)"
| acquire: "Waiting g \<in># sl_procs s \<Longrightarrow> admits (sl_sizes s ! g) (heldOf g s) \<Longrightarrow>
    slot_step admits s (s\<lparr>sl_procs := add_mset (Holding g) (sl_procs s - {#Waiting g#})\<rparr>)"
| give_up: "Waiting g \<in># sl_procs s \<Longrightarrow> slot_step admits s (s\<lparr>sl_procs := sl_procs s - {#Waiting g#}\<rparr>)"
| release: "Holding g \<in># sl_procs s \<Longrightarrow> slot_step admits s (s\<lparr>sl_procs := sl_procs s - {#Holding g#}\<rparr>)"

inductive_cases slot_stepE: "slot_step admits s t"

definition slotsReach :: "(int \<Rightarrow> nat \<Rightarrow> bool) \<Rightarrow> slots \<Rightarrow> slots \<Rightarrow> bool" where
  "slotsReach admits = (slot_step admits)\<^sup>*\<^sup>*"

section \<open>Limits\<close>

lemma clampInt_range: "lo \<le> hi \<Longrightarrow> lo \<le> clampInt lo hi n \<and> clampInt lo hi n \<le> hi"
  by (simp add: clampInt_def)

lemma clampInt_id: "lo \<le> n \<Longrightarrow> n \<le> hi \<Longrightarrow> clampInt lo hi n = n"
  by (simp add: clampInt_def)

lemmas limit_defs = ConcurrencyMin_def ConcurrencyMax_def SubtaskConcurrencyMin_def
  SubtaskConcurrencyMax_def SubtaskConcurrencyDefault_def

fun genOf :: "slot \<Rightarrow> nat" where
  "genOf (Waiting g) = g"
| "genOf (Holding g) = g"

definition slotsOk :: "slots \<Rightarrow> bool" where
  "slotsOk s \<longleftrightarrow> sl_sizes s \<noteq> [] \<and> sl_limit s = last (sl_sizes s) \<and>
     (\<forall>k\<in>set (sl_sizes s). ConcurrencyMin \<le> k \<and> k \<le> ConcurrencyMax) \<and>
     (\<forall>p\<in>#sl_procs s. genOf p < length (sl_sizes s)) \<and>
     (\<forall>g<length (sl_sizes s). int (heldOf g s) \<le> sl_sizes s ! g)"

lemma newConfig_range:
  assumes "newConfig cfg = Inr cfg'"
  shows "ConcurrencyMin \<le> cfg_concurrency cfg' \<and> cfg_concurrency cfg' \<le> ConcurrencyMax"
    "SubtaskConcurrencyMin \<le> cfg_subtaskConcurrency cfg' \<and> cfg_subtaskConcurrency cfg' \<le> SubtaskConcurrencyMax"
    "0 < cfg_batchInterval cfg' \<and> 0 < cfg_channelBuffer cfg' \<and> 0 < cfg_planningTimeout cfg'"
proof -
  have c: "cfg' = withDefaults cfg" using assms by (simp add: newConfig_def Let_def split: if_splits)
  show "ConcurrencyMin \<le> cfg_concurrency cfg' \<and> cfg_concurrency cfg' \<le> ConcurrencyMax"
    unfolding c by (simp add: withDefaults_def clampInt_range limit_defs)
  show "SubtaskConcurrencyMin \<le> cfg_subtaskConcurrency cfg' \<and> cfg_subtaskConcurrency cfg' \<le> SubtaskConcurrencyMax"
    unfolding c by (simp add: withDefaults_def clampInt_range limit_defs)
  show "0 < cfg_batchInterval cfg' \<and> 0 < cfg_channelBuffer cfg' \<and> 0 < cfg_planningTimeout cfg'"
    unfolding c by (simp add: withDefaults_def)
qed

lemma newSlots_ok: "newConfig cfg = Inr cfg' \<Longrightarrow> slotsOk (newSlots cfg')"
  using newConfig_range [of cfg cfg'] by (simp add: slotsOk_def newSlots_def heldOf_def limit_defs)

lemma slotsOk_set: "slotsOk s \<Longrightarrow> slotsOk (fst (setConcurrency n s))"
proof -
  assume ok: "slotsOk s"
  let ?n = "clampInt ConcurrencyMin ConcurrencyMax n"
  have r: "ConcurrencyMin \<le> ?n" "?n \<le> ConcurrencyMax"
    using clampInt_range [of ConcurrencyMin ConcurrencyMax n] by (simp_all add: limit_defs)
  have fresh: "heldOf (length (sl_sizes s)) s = 0"
  proof -
    have "Holding (length (sl_sizes s)) \<notin># sl_procs s"
    proof
      assume "Holding (length (sl_sizes s)) \<in># sl_procs s"
      with ok have "genOf (Holding (length (sl_sizes s))) < length (sl_sizes s)" unfolding slotsOk_def by blast
      then show False by simp
    qed
    then show ?thesis by (simp add: heldOf_def count_eq_zero_iff)
  qed
  show ?thesis
  proof (cases "?n = sl_limit s")
    case False
    have procs: "\<forall>p\<in>#sl_procs s. genOf p < Suc (length (sl_sizes s))"
      using ok by (auto simp: slotsOk_def less_Suc_eq)
    have held: "int (heldOf g s) \<le> (sl_sizes s @ [?n]) ! g" if "g < Suc (length (sl_sizes s))" for g
      using that ok fresh r by (cases "g = length (sl_sizes s)") (auto simp: slotsOk_def nth_append limit_defs)
    show ?thesis using False ok r procs held
      by (simp add: setConcurrency_def Let_def slotsOk_def heldOf_def)
  qed (use ok in \<open>simp add: setConcurrency_def Let_def\<close>)
qed

text \<open>Only the dispatchers move: the slots they hold must still fit.\<close>

lemma slotsOk_procs:
  assumes "slotsOk s" "\<And>p. p \<in># M \<Longrightarrow> genOf p < length (sl_sizes s)"
    "\<And>g. g < length (sl_sizes s) \<Longrightarrow> int (count M (Holding g)) \<le> sl_sizes s ! g"
  shows "slotsOk (s\<lparr>sl_procs := M\<rparr>)"
  using assms by (simp add: slotsOk_def heldOf_def)

lemma slotsOkD:
  assumes "slotsOk s"
  shows "p \<in># sl_procs s \<Longrightarrow> genOf p < length (sl_sizes s)"
    "g < length (sl_sizes s) \<Longrightarrow> int (count (sl_procs s) (Holding g)) \<le> sl_sizes s ! g"
    "sl_sizes s \<noteq> []"
  using assms by (simp_all add: slotsOk_def heldOf_def)

lemma slotsOk_leave: "slotsOk s \<Longrightarrow> slotsOk (s\<lparr>sl_procs := sl_procs s - {#p#}\<rparr>)"
  by (rule slotsOk_procs) (auto dest: in_diffD slotsOkD(1) intro: order_trans [OF _ slotsOkD(2)])

lemma slotsOk_step:
  assumes "\<And>k h. admits k h \<Longrightarrow> int h < k" "slot_step admits s t" "slotsOk s"
  shows "slotsOk t"
  using assms(2)
proof (induction rule: slot_step.cases)
  case (set_limit s' n)
  then show ?case using slotsOk_set assms(3) by simp
next
  case (arrive s')
  have "slotsOk (s\<lparr>sl_procs := add_mset (Waiting (currentSem s)) (sl_procs s)\<rparr>)"
    by (rule slotsOk_procs [OF assms(3)])
      (use slotsOkD [OF assms(3)] in \<open>auto simp: currentSem_def diff_less simp del: One_nat_def\<close>)
  then show ?case using arrive by simp
next
  case (acquire g s')
  have "int (count (sl_procs s) (Holding g)) < sl_sizes s ! g" using assms(1) acquire by (simp add: heldOf_def)
  moreover have "g < length (sl_sizes s)" using slotsOkD(1) [OF assms(3)] acquire by fastforce
  ultimately have "slotsOk (s\<lparr>sl_procs := add_mset (Holding g) (sl_procs s - {#Waiting g#})\<rparr>)"
    by (intro slotsOk_procs [OF assms(3)])
      (use slotsOkD [OF assms(3)] in \<open>auto dest: in_diffD\<close>)
  then show ?case using acquire by simp
next
  case (give_up g s')
  then show ?case using slotsOk_leave assms(3) by simp
next
  case (release g s')
  then show ?case using slotsOk_leave assms(3) by simp
qed

lemma slotsOk_reach:
  assumes "\<And>k h. admits k h \<Longrightarrow> int h < k" "slotsReach admits s t" "slotsOk s"
  shows "slotsOk t"
  using assms(2) unfolding slotsReach_def
  by (induction rule: rtranclp_induct) (use assms slotsOk_step in blast)+

lemma running_sum:
  assumes "\<And>p. p \<in># M \<Longrightarrow> genOf p < n"
  shows "size (filter_mset isHolding M) = (\<Sum>g<n. count M (Holding g))"
  using assms
proof (induction M)
  case (add p M)
  then have IH: "size (filter_mset isHolding M) = (\<Sum>g<n. count M (Holding g))" by simp
  show ?case
  proof (cases p)
    case (Holding k)
    then have "k < n" using add.prems by force
    then have "(\<Sum>g<n. if k = g then Suc (count M (Holding g)) else count M (Holding g)) =
        Suc (\<Sum>g<n. count M (Holding g))"
      by (simp add: sum.remove [of "{..<n}" k])
    then show ?thesis using IH Holding by simp
  qed (use IH in simp)
qed simp

lemma size_holding: "size (filter_mset isHolding (replicate_mset n (Holding g))) = n"
  by (induction n) simp_all

lemma slotsOk_running:
  assumes "slotsOk s"
  shows "int (runningTasks s) \<le> sum_list (sl_sizes s)"
proof -
  have "int (runningTasks s) = (\<Sum>g<length (sl_sizes s). int (heldOf g s))"
    unfolding runningTasks_def heldOf_def
    by (subst running_sum [of _ "length (sl_sizes s)"]) (use slotsOkD(1) [OF assms] in auto)
  also have "\<dots> \<le> (\<Sum>g<length (sl_sizes s). sl_sizes s ! g)"
    using assms by (intro sum_mono) (simp add: slotsOk_def)
  finally show ?thesis by (simp add: sum_list_sum_nth atLeast0LessThan)
qed

text \<open>C33 (concurrency stays in bounds). Whatever limits are configured and set while tasks come and
  go: the current limit lies between 1 and 12 and is what the next dispatcher sees, no semaphore has
  more holders than its size, and the tasks running never exceed the sum of the limits set so far;
  as long as the limit was not changed, they do not exceed it. Whether a semaphore lets a holder in
  is a parameter, of which only the documented bound is used.\<close>

theorem concurrency_bounds:
  assumes "\<And>k h. admits k h \<Longrightarrow> int h < k"
    "newConfig cfg = Inr cfg'" "slotsReach admits (newSlots cfg') s"
  shows "1 \<le> concurrency s \<and> concurrency s \<le> 12 \<and> sl_sizes s ! currentSem s = concurrency s \<and>
    (\<forall>g<length (sl_sizes s). int (heldOf g s) \<le> sl_sizes s ! g) \<and>
    int (runningTasks s) \<le> sum_list (sl_sizes s) \<and>
    (length (sl_sizes s) = 1 \<longrightarrow> int (runningTasks s) \<le> concurrency s) \<and>
    snd (setConcurrency n s) \<in> {1..12}"
proof -
  have ok: "slotsOk s" by (rule slotsOk_reach [OF assms(1,3) newSlots_ok [OF assms(2)]])
  note run = slotsOk_running [OF ok]
  have lim: "1 \<le> concurrency s" "concurrency s \<le> 12" "sl_sizes s ! currentSem s = concurrency s"
    using ok by (auto simp: slotsOk_def concurrency_def currentSem_def limit_defs last_conv_nth)
  have one: "length (sl_sizes s) = 1 \<longrightarrow> int (runningTasks s) \<le> concurrency s"
    using run ok by (auto simp: slotsOk_def concurrency_def length_Suc_conv)
  have set: "snd (setConcurrency n s) \<in> {1..12}"
    using lim clampInt_range [of ConcurrencyMin ConcurrencyMax n]
    by (simp add: setConcurrency_def Let_def concurrency_def limit_defs)
  show ?thesis using lim one set run ok by (simp add: slotsOk_def)
qed

text \<open>Dispatchers arrive one by one and take the free slots of the current semaphore.\<close>

definition countsHolders :: "int \<Rightarrow> nat \<Rightarrow> bool" where
  "countsHolders k h = (int h < k)"

lemma fill_slots:
  assumes "\<And>k h. admits k h \<longleftrightarrow> int h < k" "int (heldOf (currentSem s) s) + int j \<le> sl_sizes s ! currentSem s"
  shows "slotsReach admits s (s\<lparr>sl_procs := replicate_mset j (Holding (currentSem s)) + sl_procs s\<rparr>)"
  using assms(2)
proof (induction j)
  case (Suc j)
  let ?g = "currentSem s"
  let ?s = "s\<lparr>sl_procs := replicate_mset j (Holding ?g) + sl_procs s\<rparr>"
  let ?w = "?s\<lparr>sl_procs := add_mset (Waiting ?g) (sl_procs ?s)\<rparr>"
  have cur: "currentSem ?s = ?g" by (simp add: currentSem_def)
  have "slot_step admits ?s ?w" using slot_step.arrive [of admits ?s] by (simp add: cur)
  moreover have "slot_step admits ?w (?w\<lparr>sl_procs := add_mset (Holding ?g) (sl_procs ?w - {#Waiting ?g#})\<rparr>)"
    by (rule slot_step.acquire) (use Suc.prems assms(1) in \<open>simp_all add: heldOf_def\<close>)
  ultimately have "slotsReach admits ?s (s\<lparr>sl_procs := replicate_mset (Suc j) (Holding ?g) + sl_procs s\<rparr>)"
    unfolding slotsReach_def by simp
  moreover have "slotsReach admits s ?s" using Suc by simp
  ultimately show ?case unfolding slotsReach_def by simp
qed (simp add: slotsReach_def)

text \<open>Changing the limit overcommits. Setting a new limit starts a new semaphore that does not know
  of the tasks in flight: with a limit of \<open>k\<close> all of whose slots are taken and a new limit of \<open>m\<close>, \<open>k + m\<close> tasks can
  run at once. Lowering the limit from 12 to 1 admits a thirteenth task, although the comment on
  \<open>SetConcurrency\<close> promises that lowering it reduces the number of tasks admitted until the tasks in
  flight finish.\<close>

theorem limit_change_overcommits:
  assumes "\<And>k h. admits k h \<longleftrightarrow> int h < k" "newConfig cfg = Inr cfg'"
    "m \<in> {1..12}" "m \<noteq> cfg_concurrency cfg'"
  shows "\<exists>s. slotsReach admits (newSlots cfg') s \<and> concurrency s = m \<and>
    int (runningTasks s) = cfg_concurrency cfg' + m"
proof -
  let ?k = "cfg_concurrency cfg'" and ?s = "newSlots cfg'"
  have k: "1 \<le> ?k" using newConfig_range(1) [OF assms(2)] by (simp add: limit_defs)
  let ?full = "?s\<lparr>sl_procs := replicate_mset (nat ?k) (Holding 0)\<rparr>"
  let ?new = "fst (setConcurrency m ?full)"
  let ?final = "?new\<lparr>sl_procs := replicate_mset (nat m) (Holding 1) + sl_procs ?new\<rparr>"
  have new: "?new = ?full\<lparr>sl_sizes := [?k, m], sl_limit := m\<rparr>"
    using assms(3,4) by (simp add: setConcurrency_def Let_def clampInt_def limit_defs newSlots_def)
  have "slotsReach admits ?s ?full"
    using fill_slots [OF assms(1), of ?s "nat ?k"] k by (simp add: newSlots_def currentSem_def heldOf_def)
  moreover have "slot_step admits ?full ?new" by (rule slot_step.set_limit)
  moreover have "slotsReach admits ?new ?final"
    using fill_slots [OF assms(1), of ?new "nat m"] assms(3) by (simp add: new currentSem_def heldOf_def)
  ultimately have "slotsReach admits ?s ?final"
    unfolding slotsReach_def by (meson rtranclp.rtrancl_into_rtrancl rtranclp_trans)
  moreover have "int (runningTasks ?final) = ?k + m"
    using k assms(3) by (simp add: runningTasks_def new size_holding)
  ultimately show ?thesis by (intro exI [of _ ?final]) (simp add: concurrency_def new)
qed

definition sampleConfig :: config where
  "sampleConfig = \<lparr>cfg_stores = True, cfg_planner = True, cfg_subtaskStore = True, cfg_concurrency = 40,
     cfg_subtaskConcurrency = 0, cfg_batchInterval = 0, cfg_channelBuffer = 0, cfg_planningTimeout = 0\<rparr>"

lemma sampleConfig_new: "newConfig sampleConfig = Inr (withDefaults sampleConfig)"
  "cfg_concurrency (withDefaults sampleConfig) = 12"
  by (simp_all add: newConfig_def Let_def sampleConfig_def withDefaults_def clampInt_def limit_defs)

theorem concurrency_bounds_witness:
  "concurrency (newSlots (withDefaults sampleConfig)) \<le> 12"
  using concurrency_bounds [of countsHolders, OF _ sampleConfig_new(1)]
  by (simp add: countsHolders_def slotsReach_def)

theorem limit_change_overcommits_witness:
  "\<exists>s. slotsReach countsHolders (newSlots (withDefaults sampleConfig)) s \<and> concurrency s = 1 \<and> runningTasks s = 13"
  using limit_change_overcommits [of countsHolders, OF _ sampleConfig_new(1), of 1]
  by (fastforce simp: countsHolders_def sampleConfig_new(2))

end
