(* ===== verification/App_Tasks.thy ===== *)
theory App_Tasks
  imports Finalize
begin

text \<open>
  The task operations of \<open>internal/app/service.go\<close>, which the UI calls: creating, running,
  cancelling, reviewing and deleting a task, and its diff. The Copilot runtime and the queries
  to git are the record \<open>service\<close>; git operations that change a repository go through the
  manager of \<open>Finalize\<close> and are recorded in \<open>w_git\<close>, events handed to the broker in \<open>w_published\<close>.
\<close>

section \<open>The service's surroundings\<close>

datatype branch_error = ErrNoDefaultBranch | BranchFailure string

datatype diff_error = ErrWorktreeMissing | DiffFailure string

record auth_status =
  as_authenticated :: bool
  as_message :: string

record service =
  sv_manager :: manager
  sv_publish :: bool
  sv_auth :: "nat \<Rightarrow> string + auth_status"
  sv_branchExists :: "nat \<Rightarrow> string \<Rightarrow> string \<Rightarrow> string + bool"
  sv_defaultBranch :: "nat \<Rightarrow> string \<Rightarrow> branch_error + string"
  sv_diff :: "nat \<Rightarrow> string \<Rightarrow> string \<Rightarrow> diff_error + string"
  sv_diffBranch :: "nat \<Rightarrow> string \<Rightarrow> string \<Rightarrow> string \<Rightarrow> string + string"

record app_world = fin_world +
  w_published :: "agent_event list"

type_synonym 'a app = "(app_world, 'a) state"

datatype app_error =
    AppRequired
  | AppRepoLookup store_error
  | AppBaseCheck string string
  | AppBaseMissing string
  | AppPinCheck string string
  | AppPinMissing string
  | AppNoDefaultBranch
  | AppDetect string
  | AppStore store_error
  | AppNoWorktree
  | AppNoBase
  | AppDiff string
  | AppNoBranch
  | AppBranchCheck string
  | AppBothGone string
  | AppAuthCheck string
  | ErrNotAuthenticated
  | AppRerun store_error
  | AppCannotRun status
  | AppEnqueue enqueue_error
  | ErrTaskStillRunning
  | AppDeleteWorktree string
  | AppWrongStatus status
  | ErrTaskBranchAlreadyRemoved
  | AppDeleteBranch string
  | AppCannotReview status
  | AppApproveInvalid
  | AppRejectInvalid
  | AppFeedbackRequired
  | AppUnknownAction int
  | AppPersistFeedback store_error
  | AppReviewTransition store_error

definition publish :: "service \<Rightarrow> agent_event \<Rightarrow> unit app" where
  "publish sv e = State (\<lambda>w. ((), if sv_publish sv then w\<lparr>w_published := w_published w @ [e]\<rparr> else w))"

section \<open>Events of the service\<close>

definition appendAndPublish :: "service \<Rightarrow> ctx_name \<Rightarrow> agent_event \<Rightarrow> unit app" where
  "appendAndPublish sv c e = do {
     r \<leftarrow> mAppendAutoSeq c e;
     case r of Inl _ \<Rightarrow> State_Monad.return () | Inr e' \<Rightarrow> publish sv e'
   }"

definition appendStatusEvent :: "service \<Rightarrow> ctx_name \<Rightarrow> string \<Rightarrow> status \<Rightarrow> status \<Rightarrow> unit app" where
  "appendStatusEvent sv c i from to = do {
     u \<leftarrow> newULID;
     appendAndPublish sv c ((blankEvent EventStatus (PStatus from to))\<lparr>eID := u, eTaskID := i\<rparr>)
   }"

datatype review_action = ReviewApprove | ReviewRework | ReviewReject | ReviewUnknown int

fun actionName :: "review_action \<Rightarrow> string" where
  "actionName ReviewRework = ''rework''"
| "actionName ReviewReject = ''reject''"
| "actionName _ = ''approve''"

text \<open>A round that cannot be read counts as 0, and rounds below 1 as 1.\<close>

definition appendReviewEvent :: "service \<Rightarrow> ctx_name \<Rightarrow> task \<Rightarrow> review_action \<Rightarrow> string \<Rightarrow> unit app" where
  "appendReviewEvent sv c t action feedback = do {
     rr \<leftarrow> mMaxRound c (tID t);
     let rnd = (case rr of Inl _ \<Rightarrow> 0 | Inr n \<Rightarrow> n);
     u \<leftarrow> newULID;
     appendAndPublish sv c ((blankEvent EventReviewSubmitted
       (PReviewSubmitted (actionName action) feedback (if rnd < 1 then 1 else rnd)))\<lparr>eID := u, eTaskID := tID t\<rparr>)
   }"

section \<open>Creating a task\<close>

definition branchPrefix :: string where
  "branchPrefix = ''fleetkanban/''"

definition resolveBaseBranch :: "service \<Rightarrow> repository \<Rightarrow> string \<Rightarrow> (app_error + string) app" where
  "resolveBaseBranch sv repo explicit =
     (if explicit \<noteq> [] then do {
        exists \<leftarrow> atStep (sv_branchExists sv);
        State_Monad.return (case exists (rPath repo) explicit of
          Inl e \<Rightarrow> Inl (AppBaseCheck explicit e)
        | Inr ok \<Rightarrow> if \<not> ok then Inl (AppBaseMissing explicit) else Inr explicit)
      }
      else if rDefaultBaseBranch repo \<noteq> [] then do {
        exists \<leftarrow> atStep (sv_branchExists sv);
        State_Monad.return (case exists (rPath repo) (rDefaultBaseBranch repo) of
          Inl e \<Rightarrow> Inl (AppPinCheck (rDefaultBaseBranch repo) e)
        | Inr ok \<Rightarrow> if \<not> ok then Inl (AppPinMissing (rDefaultBaseBranch repo)) else Inr (rDefaultBaseBranch repo))
      }
      else do {
        def \<leftarrow> atStep (sv_defaultBranch sv);
        State_Monad.return (case def (rPath repo) of
          Inl ErrNoDefaultBranch \<Rightarrow> Inl AppNoDefaultBranch
        | Inl (BranchFailure e) \<Rightarrow> Inl (AppDetect e)
        | Inr br \<Rightarrow> Inr br)
      })"

record create_task_input =
  ctRepositoryID :: string
  ctGoal :: string
  ctBaseBranch :: string
  ctModel :: string
  ctPlanModel :: string
  ctReviewModel :: string

definition newTask :: "create_task_input \<Rightarrow> string \<Rightarrow> repository \<Rightarrow> string \<Rightarrow> time \<Rightarrow> task" where
  "newTask inp i repo base now = \<lparr>tID = i, tRepoID = rID repo, tGoal = ctGoal inp, tBaseBranch = base,
     tBranch = branchPrefix @ i, tWorktreePath = [], tModel = ctModel inp, tPlanModel = ctPlanModel inp,
     tReviewModel = ctReviewModel inp, tStatus = StatusQueued, tFinalization = FinalizationNone,
     tErrorCode = ErrCodeNone, tErrorMessage = [], tSessionID = [], tBranchExists = False,
     tReviewFeedback = [], tReworkCount = 0, tCreatedAt = now, tUpdatedAt = 0, tStartedAt = None,
     tFinishedAt = None\<rparr>"

definition createTask :: "service \<Rightarrow> create_task_input \<Rightarrow> (app_error + task) app" where
  "createTask sv inp =
     (if ctRepositoryID inp = [] \<or> ctGoal inp = [] then State_Monad.return (Inl AppRequired)
      else do {
        rr \<leftarrow> mRepoGet CallCtx (ctRepositoryID inp);
        case rr of Inl e \<Rightarrow> State_Monad.return (Inl (AppRepoLookup e))
        | Inr repo \<Rightarrow> do {
            rb \<leftarrow> resolveBaseBranch sv repo (ctBaseBranch inp);
            case rb of Inl e \<Rightarrow> State_Monad.return (Inl e)
            | Inr base \<Rightarrow> do {
                i \<leftarrow> newULID;
                now \<leftarrow> readClock;
                let t = newTask inp i repo base now;
                rc \<leftarrow> mTaskCreate CallCtx t;
                State_Monad.return (case rc of Inl e \<Rightarrow> Inl (AppStore e) | Inr _ \<Rightarrow> Inr t)
              }
          }
      })"

section \<open>The diff of a task\<close>

definition diffOfBranch :: "service \<Rightarrow> task \<Rightarrow> (app_error + string) app" where
  "diffOfBranch sv t =
     (if tBranch t = [] then State_Monad.return (Inl AppNoBranch)
      else do {
        rr \<leftarrow> mRepoGet CallCtx (tRepoID t);
        case rr of Inl e \<Rightarrow> State_Monad.return (Inl (AppRepoLookup e))
        | Inr repo \<Rightarrow> do {
            exists \<leftarrow> atStep (sv_branchExists sv);
            diff \<leftarrow> atStep (sv_diffBranch sv);
            State_Monad.return (case exists (rPath repo) (tBranch t) of
              Inl e \<Rightarrow> Inl (AppBranchCheck e)
            | Inr ok \<Rightarrow>
                if \<not> ok then Inl (AppBothGone (tBranch t))
                else (case diff (rPath repo) (tBaseBranch t) (tBranch t) of
                    Inl e \<Rightarrow> Inl (AppDiff e) | Inr out \<Rightarrow> Inr out))
          }
      })"

definition getTaskDiff :: "service \<Rightarrow> string \<Rightarrow> (app_error + string) app" where
  "getTaskDiff sv i = do {
     rt \<leftarrow> mTaskGet CallCtx i;
     case rt of Inl e \<Rightarrow> State_Monad.return (Inl (AppStore e))
     | Inr t \<Rightarrow>
         if tWorktreePath t = [] then State_Monad.return (Inl AppNoWorktree)
         else if tBaseBranch t = [] then State_Monad.return (Inl AppNoBase)
         else do {
           diff \<leftarrow> atStep (sv_diff sv);
           case diff (tWorktreePath t) (tBaseBranch t) of
             Inr out \<Rightarrow> State_Monad.return (Inr out)
           | Inl (DiffFailure e) \<Rightarrow> State_Monad.return (Inl (AppDiff e))
           | Inl ErrWorktreeMissing \<Rightarrow> diffOfBranch sv t
         }
   }"

section \<open>Running and cancelling\<close>

fun firstNonEmpty :: "string list \<Rightarrow> string" where
  "firstNonEmpty [] = []"
| "firstNonEmpty (v # vs) = (if v \<noteq> [] then v else firstNonEmpty vs)"

definition failUnauthenticated :: "string \<Rightarrow> string \<Rightarrow> unit app" where
  "failUnauthenticated i msg = do {
     rt \<leftarrow> mTaskGet CallCtx i;
     case rt of Inl _ \<Rightarrow> State_Monad.return ()
     | Inr t \<Rightarrow>
         if isTerminal (tStatus t) then State_Monad.return ()
         else do {
           _ \<leftarrow> mTransition CallCtx i (tStatus t) StatusFailed ErrCodeAuth
             (firstNonEmpty [msg, ''Copilot is not authenticated'']) FinalizationNone;
           State_Monad.return ()
         }
   }"

definition enqueueNow :: "string \<Rightarrow> app_error option app" where
  "enqueueNow i = do {
     r \<leftarrow> enqueue i;
     State_Monad.return (map_option AppEnqueue r)
   }"

definition requeueTask :: "service \<Rightarrow> string \<Rightarrow> app_error option app" where
  "requeueTask sv i = do {
     rt \<leftarrow> mTaskGet CallCtx i;
     case rt of Inl e \<Rightarrow> State_Monad.return (Some (AppStore e))
     | Inr t \<Rightarrow>
         if tStatus t = StatusQueued then enqueueNow i
         else if tStatus t = StatusAborted \<or> tStatus t = StatusFailed then do {
           r \<leftarrow> mTransition CallCtx i (tStatus t) StatusQueued ErrCodeNone [] FinalizationNone;
           case r of Inl e \<Rightarrow> State_Monad.return (Some (AppRerun e))
           | Inr _ \<Rightarrow> do {
               appendStatusEvent sv CallCtx i (tStatus t) StatusQueued;
               enqueueNow i
             }
         }
         else State_Monad.return (Some (AppCannotRun (tStatus t)))
   }"

definition runTask :: "service \<Rightarrow> string \<Rightarrow> app_error option app" where
  "runTask sv i = do {
     auth \<leftarrow> atStep (sv_auth sv);
     case auth of Inl e \<Rightarrow> State_Monad.return (Some (AppAuthCheck e))
     | Inr st \<Rightarrow>
         if \<not> as_authenticated st then do {
           failUnauthenticated i (as_message st);
           State_Monad.return (Some ErrNotAuthenticated)
         }
         else requeueTask sv i
   }"

text \<open>Where a task without a live session goes when it is cancelled.\<close>

fun orphanTarget :: "status \<Rightarrow> status option" where
  "orphanTarget StatusInProgress = Some StatusAborted"
| "orphanTarget StatusAIReview = Some StatusAborted"
| "orphanTarget StatusPlanning = Some StatusCancelled"
| "orphanTarget StatusQueued = Some StatusCancelled"
| "orphanTarget _ = None"

definition cancelOrphan :: "service \<Rightarrow> string \<Rightarrow> app_error option app" where
  "cancelOrphan sv i = do {
     rt \<leftarrow> mTaskGet CallCtx i;
     case rt of Inl e \<Rightarrow> State_Monad.return (Some (AppStore e))
     | Inr t \<Rightarrow>
         (case orphanTarget (tStatus t) of None \<Rightarrow> State_Monad.return None
          | Some target \<Rightarrow> do {
              r \<leftarrow> mTransition CallCtx i (tStatus t) target ErrCodeNone [] FinalizationNone;
              case r of Inl e \<Rightarrow> State_Monad.return (Some (AppStore e))
              | Inr _ \<Rightarrow> do {
                  appendStatusEvent sv CallCtx i (tStatus t) target;
                  State_Monad.return None
                }
            })
   }"

text \<open>\<open>Service.CancelTask\<close>.\<close>

definition cancelTaskCall :: "service \<Rightarrow> string \<Rightarrow> app_error option app" where
  "cancelTaskCall sv i = do {
     live \<leftarrow> cancelTask i;
     if live then State_Monad.return None else cancelOrphan sv i
   }"

section \<open>Deleting\<close>

definition removeForDelete :: "service \<Rightarrow> task \<Rightarrow> bool \<Rightarrow> string option app" where
  "removeForDelete sv t delBranch =
     (if tWorktreePath t \<noteq> [] \<and> tBranch t \<noteq> [] then do {
        rr \<leftarrow> mRepoGet CallCtx (tRepoID t);
        case rr of Inl _ \<Rightarrow> State_Monad.return None
        | Inr repo \<Rightarrow>
            callGit (sv_manager sv) (GitRemove (rPath repo) (tWorktreePath t) (tID t)
              (if delBranch then DeleteBranch else KeepBranch))
      }
      else State_Monad.return None)"

text \<open>The statement that deletes the task also deletes, by the schema's ON DELETE CASCADE, its harness attempts.\<close>

definition deleteWithAttempts :: "string \<Rightarrow> (store_error + unit) app" where
  "deleteWithAttempts i = do {
     r \<leftarrow> mTaskDelete CallCtx i;
     case r of Inl e \<Rightarrow> State_Monad.return (Inl e)
     | Inr _ \<Rightarrow> State (\<lambda>w. (Inr (), w\<lparr>w_attempts := attemptStep (OpTaskGone i) (w_attempts w)\<rparr>))
   }"

definition deleteRow :: "service \<Rightarrow> task \<Rightarrow> bool \<Rightarrow> app_error option app" where
  "deleteRow sv t delBranch = do {
     removed \<leftarrow> removeForDelete sv t delBranch;
     case removed of Some e \<Rightarrow> State_Monad.return (Some (AppDeleteWorktree e))
     | None \<Rightarrow> do {
         r \<leftarrow> deleteWithAttempts (tID t);
         State_Monad.return (case r of Inl e \<Rightarrow> Some (AppStore e) | Inr _ \<Rightarrow> None)
       }
   }"

definition deleteTask :: "service \<Rightarrow> string \<Rightarrow> bool \<Rightarrow> app_error option app" where
  "deleteTask sv i delBranch =
     (if i = [] then State_Monad.return (Some AppRequired)
      else do {
        rt \<leftarrow> mTaskGet CallCtx i;
        case rt of Inl e \<Rightarrow> State_Monad.return (Some (AppStore e))
        | Inr t \<Rightarrow>
            if tStatus t = StatusInProgress then State_Monad.return (Some ErrTaskStillRunning)
            else if tStatus t = StatusPlanning \<or> tStatus t = StatusAIReview then do {
              _ \<leftarrow> cancelTask i;
              deleteRow sv t delBranch
            }
            else deleteRow sv t delBranch
      })"

text \<open>The audit event; a failure to number or append it is ignored.\<close>

definition auditBranchGC :: "task \<Rightarrow> unit app" where
  "auditBranchGC t = do {
     rs \<leftarrow> mNextSeq CallCtx (tID t);
     case rs of Inl _ \<Rightarrow> State_Monad.return ()
     | Inr seq \<Rightarrow> do {
         u \<leftarrow> newULID;
         now \<leftarrow> readClock;
         _ \<leftarrow> mEventAppend CallCtx ((blankEvent EventHousekeepingBranchGC
           (PBranchGC (tBranch t) (tBaseBranch t) ''user-discard''))\<lparr>eID := u, eTaskID := tID t, eSeq := seq,
             eOccurredAt := now\<rparr>);
         State_Monad.return ()
       }
   }"

definition deleteTaskBranch :: "service \<Rightarrow> string \<Rightarrow> app_error option app" where
  "deleteTaskBranch sv i =
     (if i = [] then State_Monad.return (Some AppRequired)
      else do {
        rt \<leftarrow> mTaskGet CallCtx i;
        case rt of Inl e \<Rightarrow> State_Monad.return (Some (AppStore e))
        | Inr t \<Rightarrow>
            if tStatus t \<noteq> StatusDone \<and> tStatus t \<noteq> StatusAborted
              then State_Monad.return (Some (AppWrongStatus (tStatus t)))
            else if tBranch t = [] \<or> \<not> tBranchExists t
              then State_Monad.return (Some ErrTaskBranchAlreadyRemoved)
            else do {
              rr \<leftarrow> mRepoGet CallCtx (tRepoID t);
              case rr of Inl e \<Rightarrow> State_Monad.return (Some (AppRepoLookup e))
              | Inr repo \<Rightarrow> do {
                  deleted \<leftarrow> callGit (sv_manager sv) (GitDeleteBranch (rPath repo) (tBranch t));
                  case deleted of Some e \<Rightarrow> State_Monad.return (Some (AppDeleteBranch e))
                  | None \<Rightarrow> do {
                      _ \<leftarrow> mSetBranchExists CallCtx i False;
                      auditBranchGC t;
                      State_Monad.return None
                    }
                }
            }
      })"

section \<open>Reviewing\<close>

text \<open>What the action is refused for, before anything is written.\<close>

definition reviewRefused :: "status \<Rightarrow> review_action \<Rightarrow> string \<Rightarrow> app_error option" where
  "reviewRefused st action feedback =
     (if st \<noteq> StatusAIReview \<and> st \<noteq> StatusHumanReview then Some (AppCannotReview st)
      else case action of
        ReviewApprove \<Rightarrow> if st \<noteq> StatusAIReview then Some AppApproveInvalid else None
      | ReviewReject \<Rightarrow> if st \<noteq> StatusAIReview then Some AppRejectInvalid else None
      | ReviewRework \<Rightarrow> if trimSpace feedback = [] then Some AppFeedbackRequired else None
      | ReviewUnknown n \<Rightarrow> Some (AppUnknownAction n))"

fun reviewTarget :: "review_action \<Rightarrow> string \<Rightarrow> status \<times> error_code \<times> string" where
  "reviewTarget ReviewApprove feedback = (StatusHumanReview, ErrCodeNone, [])"
| "reviewTarget ReviewRework feedback = (StatusQueued, ErrCodeNone, [])"
| "reviewTarget ReviewReject feedback = (StatusFailed, ErrCodeAIReview, feedback)"
| "reviewTarget (ReviewUnknown n) feedback = (StatusOther [], ErrCodeNone, [])"

definition moveReviewed :: "service \<Rightarrow> task \<Rightarrow> review_action \<Rightarrow> string \<Rightarrow> app_error option app" where
  "moveReviewed sv t action feedback = (case reviewTarget action feedback of (nxt, code, msg) \<Rightarrow> do {
     appendReviewEvent sv CallCtx t action feedback;
     r \<leftarrow> mTransition CallCtx (tID t) (tStatus t) nxt code msg FinalizationNone;
     case r of Inl e \<Rightarrow> State_Monad.return (Some (AppReviewTransition e))
     | Inr _ \<Rightarrow> do {
         appendStatusEvent sv CallCtx (tID t) (tStatus t) nxt;
         if action = ReviewRework then do {
           _ \<leftarrow> enqueue (tID t);
           State_Monad.return None
         }
         else State_Monad.return None
       }
   })"

definition submitReview :: "service \<Rightarrow> string \<Rightarrow> review_action \<Rightarrow> string \<Rightarrow> app_error option app" where
  "submitReview sv i action feedback =
     (if i = [] then State_Monad.return (Some AppRequired)
      else do {
        rt \<leftarrow> mTaskGet CallCtx i;
        case rt of Inl e \<Rightarrow> State_Monad.return (Some (AppStore e))
        | Inr t \<Rightarrow>
            (case reviewRefused (tStatus t) action feedback of
               Some e \<Rightarrow> State_Monad.return (Some e)
             | None \<Rightarrow>
                 if action = ReviewRework then do {
                   let t = t\<lparr>tReviewFeedback := feedback\<rparr>;
                   ru \<leftarrow> mUpdateFields CallCtx t;
                   case ru of Inl e \<Rightarrow> State_Monad.return (Some (AppPersistFeedback e))
                   | Inr _ \<Rightarrow> moveReviewed sv t action feedback
                 }
                 else moveReviewed sv t action feedback)
      })"

end
