(* ===== verification/App_Theorems.thy ===== *)
theory App_Theorems
  imports App_Tasks
begin

text \<open>
  What the service's task operations do to the task they are called for: its row, the dispatchers
  they start and the git operations they make.
\<close>

section \<open>The task's row and the orchestrator's books\<close>

type_synonym book = "goroutine list \<times> string list \<times> attempt list \<times> (string \<times> string \<times> status \<times> string) list \<times>
    string list \<times> string list"

definition held :: "string \<Rightarrow> task_row \<Rightarrow> book \<Rightarrow> 'z orch_world_scheme \<Rightarrow> bool" where
  "held i r b w \<longleftrightarrow> holds i r w \<and> books w = b"

fun enqueued :: "string \<Rightarrow> book \<Rightarrow> book" where
  "enqueued i (sp, ca, at', no, re, ks) =
     (if i \<in> set ks then (sp, ca, at', no, re, ks) else (sp @ [GoDispatch i], ca, at', no, re, i # ks))"

fun registered :: "string \<Rightarrow> book \<Rightarrow> bool" where
  "registered i (sp, ca, at', no, re, ks) = (i \<in> set ks)"

lemma held_frame:
  assumes "keepsBooks m" "triple (holds i r) m (\<lambda>_. holds i r)"
  shows "triple (held i r b) m (\<lambda>_. held i r b)"
  unfolding held_def by (rule triple_books [OF assms])

lemma held_get: "triple (held i r b) (mTaskGet c i) (\<lambda>x w. x = Inr (scanTask r) \<and> held i r b w)"
  unfolding held_def by (rule triple_conseq [OF triple_books [OF keeps_store_calls(5) holds_get]]) auto

lemma held_move:
  assumes "keepsBooks m" "triple (holds i r) m (\<lambda>x w. x = y \<and> (\<exists>now. holds i (f now) w))"
  shows "triple (held i r b) m (\<lambda>x w. x = y \<and> (\<exists>now. held i (f now) b w))"
  unfolding held_def by (rule triple_conseq [OF triple_books [OF assms]]) auto

lemma held_refused:
  assumes "keepsBooks m" "triple (holds i r) m (\<lambda>x w. x = y \<and> holds i r w)"
  shows "triple (held i r b) m (\<lambda>x w. x = y \<and> held i r b w)"
  unfolding held_def by (rule triple_conseq [OF triple_books [OF assms]]) auto

lemma held_enqueue:
  assumes "i \<noteq> []"
  shows "triple (held i r b) (enqueue i)
    (\<lambda>x w. x = (if registered i b then Some ErrAlreadyRunning else None) \<and> held i r (enqueued i b) w)"
proof (rule tripleI)
  fix w x w'
  assume h: "held i r b w" and run: "run_state (enqueue i) w = (x, w')"
  then have live: "e_ctx (w_env w) RootCtx (w_step w) = Live" using holds_quiet [of i r w] by (simp add: held_def)
  obtain sp ca at' no re ks where b: "b = (sp, ca, at', no, re, ks)" by (cases b)
  have ks: "i \<in> set ks \<longleftrightarrow> map_of (w_running w) i \<noteq> None"
    using h by (auto simp: held_def books_def b map_of_eq_None_iff) force
  show "x = (if registered i b then Some ErrAlreadyRunning else None) \<and> held i r (enqueued i b) w'"
  proof (cases "i \<in> set ks")
    case True
    with run live ks assms h show ?thesis by (auto simp: enqueue_def b)
  next
    case False
    with run live ks assms have "x = None"
      "w' = w\<lparr>w_running := (i, False) # w_running w, w_spawned := w_spawned w @ [GoDispatch i]\<rparr>"
      by (auto simp: enqueue_def)
    with h False show ?thesis by (auto simp: held_def holds_def books_def b)
  qed
qed

lemma keeps_app [keeps_intros]:
  "keepsBooks (mRepoGet c i)" "keepsBooks (mMaxRound c i)" "keepsBooks (mNextSeq c i)"
  "keepsBooks (mEventAppend c e)" "keepsBooks (mSetBranchExists c i x)" "keepsBooks (mTaskDelete c i)"
  "keepsBooks (mTaskCreate c t)"
  unfolding mRepoGet_def mMaxRound_def mNextSeq_def mEventAppend_def store_calls by (rule keeps_primitives)+

lemma keeps_publish [keeps_intros]: "keepsBooks (publish sv e)"
  by (simp add: keepsBooks_def publish_def books_def)

lemma keeps_callGit [keeps_intros]: "keepsBooks (callGit mg op)"
  by (simp add: keepsBooks_def callGit_def books_def Let_def)

lemma effects_publish [effects_intros]: "effects Q (publish sv e)"
  by (rule effects_pure) (simp_all add: publish_def)

lemma effects_app_reads [effects_intros]:
  "effects Q (mRepoGet c i)" "effects Q (mMaxRound c i)" "effects Q (mNextSeq c i)"
  unfolding mRepoGet_def mMaxRound_def mNextSeq_def by (rule effects_storeRead)+

lemma effects_appendAndPublish [effects_intros]:
  "(\<And>a. logsFor (eTaskID e) a \<Longrightarrow> Q a) \<Longrightarrow> effects Q (appendAndPublish sv c e)"
  unfolding appendAndPublish_def by (intro effects_intros) simp

lemma effects_status_event [effects_intros]:
  "(\<And>a. logsFor i a \<Longrightarrow> Q a) \<Longrightarrow> effects Q (appendStatusEvent sv c i s s')"
  unfolding appendStatusEvent_def by (intro effects_intros) simp

lemma effects_review_event [effects_intros]:
  "(\<And>a. logsFor (tID t) a \<Longrightarrow> Q a) \<Longrightarrow> effects Q (appendReviewEvent sv c t action fb)"
  unfolding appendReviewEvent_def Let_def by (intro effects_intros) simp

lemma keeps_app_events [keeps_intros]:
  "keepsBooks (appendStatusEvent sv c i s s')" "keepsBooks (appendReviewEvent sv c t action fb)"
  unfolding appendStatusEvent_def appendReviewEvent_def appendAndPublish_def Let_def by (intro keeps_intros)+

lemma held_status_event: "triple (held i r b) (appendStatusEvent sv c j s s') (\<lambda>_. held i r b)"
  by (intro held_frame holds_logs [of j] effects_intros keeps_intros)

lemma held_review_event: "triple (held i r b) (appendReviewEvent sv c t action fb) (\<lambda>_. held i r b)"
  by (intro held_frame holds_logs [of "tID t"] effects_intros keeps_intros)

section \<open>Reviewing\<close>

text \<open>The row a legal review leads to.\<close>

definition reviewedRow :: "review_action \<Rightarrow> string \<Rightarrow> task_row \<Rightarrow> task_row \<Rightarrow> bool" where
  "reviewedRow action feedback r r' \<longleftrightarrow>
     (r_status r', r_error_code r', r_error_message r') = reviewTarget action feedback \<and>
     r_review_feedback r' = (if action = ReviewRework then feedback else r_review_feedback r) \<and>
     r_rework_count r' = nextRework (r_status r) (r_status r') (r_rework_count r) \<and>
     r_branch_exists r' = r_branch_exists r"

definition moved :: "string \<Rightarrow> (task_row \<Rightarrow> bool) \<Rightarrow> book \<Rightarrow> 'z orch_world_scheme \<Rightarrow> bool" where
  "moved i good b w \<longleftrightarrow> (\<exists>r'. held i r' b w \<and> good r')"

lemma reviewTarget_legal:
  assumes "reviewRefused s action feedback = None" "reviewTarget action feedback = (nxt, code, msg)"
  shows "canTransition s nxt" "nxt = StatusFailed \<longleftrightarrow> code \<noteq> ErrCodeNone" "nxt \<noteq> StatusFailed \<longrightarrow> msg = []" "nxt \<noteq> StatusDone"
  using assms by (auto simp: reviewRefused_def split: if_splits review_action.splits)

lemma held_moveReviewed:
  assumes "reviewRefused (r_status r) action feedback = None" "tID t = i" "tStatus t = r_status r" "i \<noteq> []"
    "action = ReviewRework \<Longrightarrow> r_review_feedback r = feedback"
  shows "triple (held i r b) (moveReviewed sv t action feedback)
    (\<lambda>x w. x = None \<and> moved i (reviewedRow action feedback r) (if action = ReviewRework then enqueued i b else b) w)"
proof -
  obtain nxt code msg where t: "reviewTarget action feedback = (nxt, code, msg)" by (cases "reviewTarget action feedback")
  note legal = reviewTarget_legal [OF assms(1) t]
  let ?r = "\<lambda>now. transitionRow now (r_status r) nxt code msg FinalizationNone r"
  have good: "reviewedRow action feedback r (?r now)" for now
    using assms(5) t by (auto simp: reviewedRow_def transitionRow_def)
  have done': "triple (held i (?r now) b')
      (State_Monad.return None) (\<lambda>x w. x = None \<and> moved i (reviewedRow action feedback r) b' w)" for now b'
    by (rule triple_return) (use good in \<open>auto simp: moved_def\<close>)
  have enq: "triple (held i (?r now) b) (do { _ \<leftarrow> enqueue i; State_Monad.return None })
      (\<lambda>x w. x = None \<and> moved i (reviewedRow action feedback r) (enqueued i b) w)" for now
    by (rule triple_bind [OF held_enqueue [OF assms(4)]], rule triple_when, rule done')
  have fin: "triple (held i (?r now) b)
      (if action = ReviewRework then do { _ \<leftarrow> enqueue i; State_Monad.return None } else State_Monad.return None)
      (\<lambda>x w. x = None \<and> moved i (reviewedRow action feedback r) (if action = ReviewRework then enqueued i b else b) w)" for now
  proof (cases "action = ReviewRework")
    case True
    show ?thesis unfolding if_P [OF True] by (rule enq)
  next
    case False
    show ?thesis unfolding if_not_P [OF False] by (rule done')
  qed
  have tail: "triple (\<lambda>w. x = Inr () \<and> (\<exists>now. held i (?r now) b w))
      (case x of Inl e \<Rightarrow> State_Monad.return (Some (AppReviewTransition e))
       | Inr _ \<Rightarrow> do {
           appendStatusEvent sv CallCtx i (r_status r) nxt;
           if action = ReviewRework then do { _ \<leftarrow> enqueue i; State_Monad.return None } else State_Monad.return None
         })
      (\<lambda>x w. x = None \<and> moved i (reviewedRow action feedback r) (if action = ReviewRework then enqueued i b else b) w)"
    for x :: "store_error + unit"
    by (rule triple_when, simp only: sum.case, rule triple_ex_pre, rule triple_bind [OF held_status_event fin])
  have move: "triple (held i r b) (mTransition CallCtx i (r_status r) nxt code msg FinalizationNone)
      (\<lambda>x w. x = Inr () \<and> (\<exists>now. held i (?r now) b w))"
    by (rule held_move [OF keeps_store_calls(1) holds_transition_code [OF refl legal(1-3)]]) (use legal(4) in simp_all)
  show ?thesis
    unfolding moveReviewed_def t prod.case assms(2,3)
    by (rule triple_bind [OF held_review_event triple_bind [OF move tail]])
qed

lemma held_submitReview:
  assumes "taskRowOk r" "r_id r = i"
  shows "triple (held i r b) (submitReview sv i action feedback)
    (\<lambda>x w. case reviewRefused (r_status r) action feedback of
        Some e \<Rightarrow> x = Some e \<and> held i r b w
      | None \<Rightarrow> x = None \<and> moved i (reviewedRow action feedback r) (if action = ReviewRework then enqueued i b else b) w)"
    (is "triple _ _ ?Q")
proof -
  have i: "i \<noteq> []" using assms by (auto simp: taskRowOk_iff)
  let ?t = "(scanTask r)\<lparr>tReviewFeedback := feedback\<rparr>"
  have v: "taskValidate ?t = None" using assms(1) by (simp add: taskRowOk_def taskValidate_None)
  have upd: "triple (held i r b) (mUpdateFields CallCtx ?t)
      (\<lambda>x w. x = Inr () \<and> (\<exists>now. held i (updateFieldsRow now ?t r) b w))"
    by (rule held_move [OF keeps_store_calls(2) holds_updateFields]) (use assms v in simp_all)
  have same: "reviewedRow ReviewRework feedback (updateFieldsRow now ?t r) r' \<Longrightarrow> reviewedRow ReviewRework feedback r r'" for now r'
    by (simp add: reviewedRow_def) (simp add: updateFieldsRow_def)
  have rework: "triple (\<lambda>w. x = Inr () \<and> (\<exists>now. held i (updateFieldsRow now ?t r) b w))
      (case x of Inl e \<Rightarrow> State_Monad.return (Some (AppPersistFeedback e))
       | Inr _ \<Rightarrow> moveReviewed sv ?t ReviewRework feedback) ?Q"
    if "reviewRefused (r_status r) action feedback = None" "action = ReviewRework" for x :: "store_error + unit"
  proof (rule triple_when, simp only: sum.case, rule triple_ex_pre)
    fix now
    show "triple (held i (updateFieldsRow now ?t r) b) (moveReviewed sv ?t ReviewRework feedback) ?Q"
      by (rule triple_conseq [OF held_moveReviewed [where r = "updateFieldsRow now ?t r" and i = i]])
        (use that assms i same [of now] in \<open>auto simp: moved_def updateFieldsRow_def\<close>)
  qed
  have go: "triple (\<lambda>w. x = Inr (scanTask r) \<and> held i r b w)
      (case x of Inl e \<Rightarrow> State_Monad.return (Some (AppStore e))
       | Inr t \<Rightarrow> (case reviewRefused (tStatus t) action feedback of
            Some e \<Rightarrow> State_Monad.return (Some e)
          | None \<Rightarrow> if action = ReviewRework then do {
                let t = t\<lparr>tReviewFeedback := feedback\<rparr>;
                ru \<leftarrow> mUpdateFields CallCtx t;
                case ru of Inl e \<Rightarrow> State_Monad.return (Some (AppPersistFeedback e))
                | Inr _ \<Rightarrow> moveReviewed sv t action feedback
              } else moveReviewed sv t action feedback)) ?Q" for x
  proof (rule triple_when, simp only: sum.case scanTask_sel)
    show "triple (held i r b) (case reviewRefused (r_status r) action feedback of
            Some e \<Rightarrow> State_Monad.return (Some e)
          | None \<Rightarrow> if action = ReviewRework then do {
                let t = (scanTask r)\<lparr>tReviewFeedback := feedback\<rparr>;
                ru \<leftarrow> mUpdateFields CallCtx t;
                case ru of Inl e \<Rightarrow> State_Monad.return (Some (AppPersistFeedback e))
                | Inr _ \<Rightarrow> moveReviewed sv t action feedback
              } else moveReviewed sv (scanTask r) action feedback) ?Q"
    proof (cases "reviewRefused (r_status r) action feedback")
      case (Some e)
      then show ?thesis by (simp add: triple_return)
    next
      case None
      show ?thesis
      proof (cases "action = ReviewRework")
        case True
        then show ?thesis
          using triple_bind [OF upd rework [OF None True]] None by (simp add: Let_def)
      next
        case False
        with held_moveReviewed [OF None, where t = "scanTask r" and i = i and sv = sv and b = b] assms i None
        show ?thesis by simp
      qed
    qed
  qed
  show ?thesis
    unfolding submitReview_def using i by (simp only: if_False, rule_tac triple_bind [OF held_get go])
qed

section \<open>Running and cancelling\<close>

lemma held_enqueueNow:
  assumes "i \<noteq> []"
  shows "triple (held i r b) (enqueueNow i)
    (\<lambda>x w. x = (if registered i b then Some (AppEnqueue ErrAlreadyRunning) else None) \<and> held i r (enqueued i b) w)"
  unfolding enqueueNow_def
  by (rule triple_bind [OF held_enqueue [OF assms]], rule triple_when, rule triple_return) auto

definition startable :: "status \<Rightarrow> bool" where
  "startable s \<longleftrightarrow> s \<in> {StatusQueued, StatusAborted, StatusFailed}"

text \<open>Ready for its dispatcher: queued, without the error and the rework count of its last run.\<close>

definition rerunRow :: "task_row \<Rightarrow> task_row \<Rightarrow> bool" where
  "rerunRow r r' \<longleftrightarrow> r' = r \<and> r_status r = StatusQueued \<or>
     (\<exists>now. r_status r \<noteq> StatusQueued \<and> r' = transitionRow now (r_status r) StatusQueued ErrCodeNone [] FinalizationNone r)"

lemma held_requeueTask:
  assumes "i \<noteq> []"
  shows "triple (held i r b) (requeueTask sv i)
    (\<lambda>x w. if startable (r_status r)
       then x = (if registered i b then Some (AppEnqueue ErrAlreadyRunning) else None) \<and> moved i (rerunRow r) (enqueued i b) w
       else x = Some (AppCannotRun (r_status r)) \<and> held i r b w)"
    (is "triple _ _ ?Q")
proof -
  let ?R = "\<lambda>x w. x = (if registered i b then Some (AppEnqueue ErrAlreadyRunning) else None) \<and>
      moved i (rerunRow r) (enqueued i b) w"
  have start: "triple (held i r' b) (enqueueNow i) ?R" if "rerunRow r r'" for r'
    by (rule triple_conseq [OF held_enqueueNow [OF assms]]) (use that in \<open>auto simp: moved_def\<close>)
  have rerun: "triple (held i r b) (do {
       x \<leftarrow> mTransition CallCtx i (r_status r) StatusQueued ErrCodeNone [] FinalizationNone;
       case x of Inl e \<Rightarrow> State_Monad.return (Some (AppRerun e))
       | Inr _ \<Rightarrow> do { appendStatusEvent sv CallCtx i (r_status r) StatusQueued; enqueueNow i } }) ?R"
    if s: "r_status r = StatusAborted \<or> r_status r = StatusFailed"
  proof -
    let ?r = "\<lambda>now. transitionRow now (r_status r) StatusQueued ErrCodeNone [] FinalizationNone r"
    have m: "triple (held i r b) (mTransition CallCtx i (r_status r) StatusQueued ErrCodeNone [] FinalizationNone)
        (\<lambda>x w. x = Inr () \<and> (\<exists>now. held i (?r now) b w))"
      by (rule held_move [OF keeps_store_calls(1) holds_transition_code]) (use s in auto)
    have t: "triple (\<lambda>w. x = Inr () \<and> (\<exists>now. held i (?r now) b w))
        (case x of Inl e \<Rightarrow> State_Monad.return (Some (AppRerun e))
         | Inr _ \<Rightarrow> do { appendStatusEvent sv CallCtx i (r_status r) StatusQueued; enqueueNow i }) ?R"
      for x :: "store_error + unit"
      by (rule triple_when, simp only: sum.case, rule triple_ex_pre, rule triple_bind [OF held_status_event start])
        (use s in \<open>auto simp: rerunRow_def\<close>)
    show ?thesis by (rule triple_bind [OF m t])
  qed
  have go: "triple (\<lambda>w. x = Inr (scanTask r) \<and> held i r b w)
      (case x of Inl e \<Rightarrow> State_Monad.return (Some (AppStore e))
       | Inr t \<Rightarrow>
         if tStatus t = StatusQueued then enqueueNow i
         else if tStatus t = StatusAborted \<or> tStatus t = StatusFailed then do {
           r \<leftarrow> mTransition CallCtx i (tStatus t) StatusQueued ErrCodeNone [] FinalizationNone;
           case r of Inl e \<Rightarrow> State_Monad.return (Some (AppRerun e))
           | Inr _ \<Rightarrow> do { appendStatusEvent sv CallCtx i (tStatus t) StatusQueued; enqueueNow i }
         }
         else State_Monad.return (Some (AppCannotRun (tStatus t)))) ?Q" for x
  proof (rule triple_when, simp only: sum.case scanTask_sel, intro triple_if)
    assume "r_status r = StatusQueued"
    then show "triple (held i r b) (enqueueNow i) ?Q" using start [of r] by (simp add: startable_def rerunRow_def)
  next
    assume "r_status r = StatusAborted \<or> r_status r = StatusFailed"
    then show "triple (held i r b) (do {
       x \<leftarrow> mTransition CallCtx i (r_status r) StatusQueued ErrCodeNone [] FinalizationNone;
       case x of Inl e \<Rightarrow> State_Monad.return (Some (AppRerun e))
       | Inr _ \<Rightarrow> do { appendStatusEvent sv CallCtx i (r_status r) StatusQueued; enqueueNow i } }) ?Q"
      using rerun by (auto simp: startable_def)
  qed (rule triple_return, simp add: startable_def)
  show ?thesis unfolding requeueTask_def by (rule triple_bind [OF held_get go])
qed

text \<open>The row after a run asked for without authentication.\<close>

definition unauthRow :: "task_row \<Rightarrow> task_row \<Rightarrow> bool" where
  "unauthRow r r' \<longleftrightarrow>
     (if r_status r \<in> {StatusPlanning, StatusInProgress, StatusAIReview}
      then r_status r' = StatusFailed \<and> r_error_code r' = ErrCodeAuth else r' = r)"

lemma held_failUnauthenticated:
  assumes "taskRowOk r"
  shows "triple (held i r b) (failUnauthenticated i msg) (\<lambda>_. moved i (unauthRow r) b)"
proof -
  let ?msg = "firstNonEmpty [msg, ''Copilot is not authenticated'']"
  have stay: "triple (held i r b) (State_Monad.return ()) (\<lambda>_. moved i (unauthRow r) b)"
    if "r_status r \<notin> {StatusPlanning, StatusInProgress, StatusAIReview}"
    by (rule triple_return) (use that in \<open>auto simp: moved_def unauthRow_def\<close>)
  have fail: "triple (held i r b) (do { _ \<leftarrow> mTransition CallCtx i (r_status r) StatusFailed ErrCodeAuth ?msg FinalizationNone;
      State_Monad.return () }) (\<lambda>_. moved i (unauthRow r) b)"
  proof (cases "r_status r \<in> {StatusPlanning, StatusInProgress, StatusAIReview}")
    case True
    then have c: "canTransition (r_status r) StatusFailed" by auto
    have m: "triple (held i r b) (mTransition CallCtx i (r_status r) StatusFailed ErrCodeAuth ?msg FinalizationNone)
        (\<lambda>x w. x = Inr () \<and> (\<exists>now. held i (transitionRow now (r_status r) StatusFailed ErrCodeAuth ?msg FinalizationNone r) b w))"
      by (rule held_move [OF keeps_store_calls(1) holds_transition_code [OF refl c]]) simp_all
    have "triple (\<lambda>w. x = Inr () \<and> (\<exists>now. held i (transitionRow now (r_status r) StatusFailed ErrCodeAuth ?msg FinalizationNone r) b w))
        (State_Monad.return ()) (\<lambda>_. moved i (unauthRow r) b)" for x :: "store_error + unit"
      by (rule triple_return) (use True in \<open>auto simp: moved_def unauthRow_def transitionRow_def\<close>)
    then show ?thesis by (rule triple_bind [OF m])
  next
    case False
    then have c: "\<not> canTransition (r_status r) StatusFailed"
      using assms by (cases "r_status r") (auto simp: canTransition_def)
    have "triple (\<lambda>w. x = Inl (EIllegalTransition i (r_status r) StatusFailed) \<and> held i r b w)
        (State_Monad.return ()) (\<lambda>_. moved i (unauthRow r) b)" for x :: "store_error + unit"
      by (rule triple_when, rule stay [OF False])
    then show ?thesis
      by (rule triple_bind [OF held_refused [OF keeps_store_calls(1) holds_transition_refused [OF refl c]]])
  qed
  have go: "triple (\<lambda>w. x = Inr (scanTask r) \<and> held i r b w)
      (case x of Inl _ \<Rightarrow> State_Monad.return ()
       | Inr t \<Rightarrow> if isTerminal (tStatus t) then State_Monad.return ()
         else do { _ \<leftarrow> mTransition CallCtx i (tStatus t) StatusFailed ErrCodeAuth ?msg FinalizationNone;
           State_Monad.return () }) (\<lambda>_. moved i (unauthRow r) b)" for x :: "store_error + task"
    by (rule triple_when, simp only: sum.case scanTask_sel, rule triple_if, rule stay, force, rule fail)
  show ?thesis unfolding failUnauthenticated_def by (rule triple_bind [OF held_get go])
qed

lemma held_start:
  assumes "liveEnv (w_env w)" "wfDB (w_db w)" "lookupBy r_id i (tasks (w_db w)) = Some r"
  shows "held i r (books w) w" "taskRowOk r" "r_id r = i" "i \<noteq> []"
proof -
  have r: "r \<in> set (tasks (w_db w))" "r_id r = i" using lookupBy_SomeD [OF assms(3)] by simp_all
  show ok: "taskRowOk r" using assms(2) r by (simp add: wfDB_def rowsOk_def)
  show "held i r (books w) w" using assms by (simp add: held_def holds_def)
  show "r_id r = i" "i \<noteq> []" using r ok by (auto simp: taskRowOk_iff)
qed

lemma held_lookup: "held i r b w \<Longrightarrow> lookupBy r_id i (tasks (w_db w)) = Some r"
  by (simp add: held_def holds_def)

lemma held_same: "held i r (books w) w' \<Longrightarrow> w_spawned w' = w_spawned w \<and> map fst (w_running w') = map fst (w_running w)"
  by (simp add: held_def books_def)

lemma held_enqueued:
  assumes "held i r (enqueued i (books w)) w'"
  shows "i \<in> fst ` set (w_running w')"
    "w_spawned w' = (if i \<in> fst ` set (w_running w) then w_spawned w else w_spawned w @ [GoDispatch i])"
proof -
  have b: "books w' = enqueued i (books w)" using assms by (simp add: held_def)
  have "i \<in> set (map fst (w_running w'))"
    using b by (cases "i \<in> set (map fst (w_running w))") (simp_all add: books_def)
  then show "i \<in> fst ` set (w_running w')" by simp
  show "w_spawned w' = (if i \<in> fst ` set (w_running w) then w_spawned w else w_spawned w @ [GoDispatch i])"
    using b by (cases "i \<in> set (map fst (w_running w))") (simp_all add: books_def)
qed

text \<open>C32 (a review does what the user asked). With the database alone to itself, SubmitReview either
  refuses the action for the reason \<open>reviewRefused\<close> gives and changes nothing of the task, or it always
  succeeds: approving a task under AI review hands it to human review, rejecting it fails it with the
  feedback as its error message, and asking for rework stores the feedback, queues the task and sees
  to it that exactly one dispatcher for it is there. A rework the user asks for during the AI review
  counts against the limit of automatic reworks, one from human review resets the count.\<close>

theorem submit_review_outcome:
  assumes "liveEnv (w_env w)" "wfDB (w_db w)" "lookupBy r_id i (tasks (w_db w)) = Some r"
    "run_state (submitReview sv i action feedback) w = (res, w')"
  shows "case reviewRefused (r_status r) action feedback of
      Some e \<Rightarrow> res = Some e \<and> lookupBy r_id i (tasks (w_db w')) = Some r \<and> w_spawned w' = w_spawned w
    | None \<Rightarrow> res = None \<and> (\<exists>r'. lookupBy r_id i (tasks (w_db w')) = Some r' \<and>
        (r_status r', r_error_code r', r_error_message r') = reviewTarget action feedback \<and>
        (if action = ReviewRework
         then r_review_feedback r' = feedback \<and>
           r_rework_count r' = (if r_status r = StatusAIReview then r_rework_count r + 1 else 0) \<and>
           i \<in> fst ` set (w_running w') \<and>
           w_spawned w' = (if i \<in> fst ` set (w_running w) then w_spawned w else w_spawned w @ [GoDispatch i])
         else r_review_feedback r' = r_review_feedback r \<and> w_spawned w' = w_spawned w))"
proof -
  note start = held_start [OF assms(1-3)]
  note out = tripleD [OF held_submitReview [OF start(2,3)] start(1) assms(4)]
  show ?thesis
  proof (cases "reviewRefused (r_status r) action feedback")
    case (Some e)
    then have res: "res = Some e" and h: "held i r (books w) w'" using out by simp_all
    show ?thesis using Some res held_lookup [OF h] held_same [OF h] by simp
  next
    case None
    with out obtain r' where res: "res = None" and rw: "reviewedRow action feedback r r'"
      and h: "held i r' (if action = ReviewRework then enqueued i (books w) else books w) w'"
      by (auto simp: moved_def)
    show ?thesis
    proof (cases "action = ReviewRework")
      case True
      with h have h': "held i r' (enqueued i (books w)) w'" by simp
      with None res rw True held_lookup [OF h'] held_enqueued [OF h'] show ?thesis
        by (auto simp: reviewedRow_def nextRework_def)
    next
      case False
      with h have h': "held i r' (books w) w'" by simp
      with None res rw False held_lookup [OF h'] held_same [OF h'] show ?thesis
        by (auto simp: reviewedRow_def)
    qed
  qed
qed

text \<open>Running a task. With an authenticated runtime and the database alone to itself, RunTask starts a
  dispatcher exactly for a queued, aborted or failed task; the task is then queued without the error
  and the rework count of its last run, and if it is registered already the call says so and starts
  nothing. Every other status is refused and nothing changes.\<close>

theorem run_task_outcome:
  assumes "liveEnv (w_env w)" "wfDB (w_db w)" "lookupBy r_id i (tasks (w_db w)) = Some r"
    "sv_auth sv (w_step w) = Inr st" "as_authenticated st" "run_state (runTask sv i) w = (res, w')"
  shows "if r_status r \<in> {StatusQueued, StatusAborted, StatusFailed}
    then res = (if i \<in> fst ` set (w_running w) then Some (AppEnqueue ErrAlreadyRunning) else None) \<and>
      (\<exists>r'. lookupBy r_id i (tasks (w_db w')) = Some r' \<and> r_status r' = StatusQueued \<and> r_error_code r' = ErrCodeNone \<and>
         (r_status r \<noteq> StatusQueued \<longrightarrow> r_rework_count r' = 0)) \<and>
      i \<in> fst ` set (w_running w') \<and>
      w_spawned w' = (if i \<in> fst ` set (w_running w) then w_spawned w else w_spawned w @ [GoDispatch i])
    else res = Some (AppCannotRun (r_status r)) \<and> lookupBy r_id i (tasks (w_db w')) = Some r \<and>
      w_spawned w' = w_spawned w"
proof -
  note start = held_start [OF assms(1-3)]
  have run: "run_state (requeueTask sv i) w = (res, w')"
    using assms(4-6) by (simp add: runTask_def atStep_def)
  note out = tripleD [OF held_requeueTask [OF start(4)] start(1) run]
  have reg: "registered i (books w) \<longleftrightarrow> i \<in> fst ` set (w_running w)" by (simp add: books_def)
  show ?thesis
  proof (cases "startable (r_status r)")
    case True
    with out obtain r' where res: "res = (if registered i (books w) then Some (AppEnqueue ErrAlreadyRunning) else None)"
      and rr: "rerunRow r r'" and h: "held i r' (enqueued i (books w)) w'" by (auto simp: moved_def)
    have e: "r_status r' = StatusQueued" "r_error_code r' = ErrCodeNone" "r_status r \<noteq> StatusQueued \<longrightarrow> r_rework_count r' = 0"
      using rr start(2) True by (auto simp: rerunRow_def transitionRow_def nextRework_def taskRowOk_iff startable_def)
    with True res reg held_lookup [OF h] held_enqueued [OF h] show ?thesis by (simp add: startable_def)
  next
    case False
    then have res: "res = Some (AppCannotRun (r_status r))" and h: "held i r (books w) w'" using out by simp_all
    show ?thesis using False res held_lookup [OF h] held_same [OF h] by (simp add: startable_def)
  qed
qed

text \<open>An unauthenticated run misses its target. RunTask without authentication reports it and starts
  nothing, but its attempt to fail the task with the code auth is refused by the state machine exactly
  for the tasks that could be run: a queued or aborted task stays as it is, although the comment on
  RunTask promises failed(auth). A task that is being planned, run or reviewed, which RunTask would
  not have run at all, is failed.\<close>

theorem unauthenticated_run_hits_active_tasks:
  assumes "liveEnv (w_env w)" "wfDB (w_db w)" "lookupBy r_id i (tasks (w_db w)) = Some r"
    "sv_auth sv (w_step w) = Inr st" "\<not> as_authenticated st" "run_state (runTask sv i) w = (res, w')"
  shows "res = Some ErrNotAuthenticated \<and> w_spawned w' = w_spawned w \<and>
    (\<exists>r'. lookupBy r_id i (tasks (w_db w')) = Some r' \<and>
      (if r_status r \<in> {StatusPlanning, StatusInProgress, StatusAIReview}
       then r_status r' = StatusFailed \<and> r_error_code r' = ErrCodeAuth else r' = r))"
proof -
  note start = held_start [OF assms(1-3)]
  obtain w1 where run: "run_state (failUnauthenticated i (as_message st)) w = ((), w1)" by (rule run_unit)
  then have w': "res = Some ErrNotAuthenticated" "w' = w1" using assms(4-6) by (simp_all add: runTask_def atStep_def)
  from tripleD [OF held_failUnauthenticated [OF start(2)] start(1) run]
  obtain r' where h: "held i r' (books w) w1" and u: "unauthRow r r'" by (auto simp: moved_def)
  show ?thesis using w' held_lookup [OF h] held_same [OF h] u by (auto simp: unauthRow_def)
qed

lemma orphanTarget_legal: "orphanTarget s = Some s' \<Longrightarrow> canTransition s s' \<and> s' \<noteq> StatusFailed \<and> s' \<noteq> StatusDone"
  by (cases s) auto

definition orphanRow :: "task_row \<Rightarrow> task_row \<Rightarrow> bool" where
  "orphanRow r r' \<longleftrightarrow> (case orphanTarget (r_status r) of None \<Rightarrow> r' = r | Some s \<Rightarrow> r_status r' = s)"

lemma held_cancelOrphan: "triple (held i r b) (cancelOrphan sv i) (\<lambda>x w. x = None \<and> moved i (orphanRow r) b w)"
proof -
  have move: "triple (held i r b) (do {
        x \<leftarrow> mTransition CallCtx i (r_status r) s ErrCodeNone [] FinalizationNone;
        case x of Inl e \<Rightarrow> State_Monad.return (Some (AppStore e))
        | Inr _ \<Rightarrow> do { appendStatusEvent sv CallCtx i (r_status r) s; State_Monad.return None } })
      (\<lambda>x w. x = None \<and> moved i (orphanRow r) b w)" if o: "orphanTarget (r_status r) = Some s" for s
  proof -
    note legal = orphanTarget_legal [OF o]
    let ?r = "\<lambda>now. transitionRow now (r_status r) s ErrCodeNone [] FinalizationNone r"
    have m: "triple (held i r b) (mTransition CallCtx i (r_status r) s ErrCodeNone [] FinalizationNone)
        (\<lambda>x w. x = Inr () \<and> (\<exists>now. held i (?r now) b w))"
      by (rule held_move [OF keeps_store_calls(1) holds_transition]) (use legal in simp_all)
    have t: "triple (\<lambda>w. x = Inr () \<and> (\<exists>now. held i (?r now) b w))
        (case x of Inl e \<Rightarrow> State_Monad.return (Some (AppStore e))
         | Inr _ \<Rightarrow> do { appendStatusEvent sv CallCtx i (r_status r) s; State_Monad.return None })
        (\<lambda>x w. x = None \<and> moved i (orphanRow r) b w)" for x :: "store_error + unit"
      by (rule triple_when, simp only: sum.case, rule triple_ex_pre, rule triple_bind [OF held_status_event triple_return])
        (use o in \<open>auto simp: moved_def orphanRow_def\<close>)
    show ?thesis by (rule triple_bind [OF m t])
  qed
  have go: "triple (\<lambda>w. x = Inr (scanTask r) \<and> held i r b w)
      (case x of Inl e \<Rightarrow> State_Monad.return (Some (AppStore e))
       | Inr t \<Rightarrow> (case orphanTarget (tStatus t) of None \<Rightarrow> State_Monad.return None
          | Some target \<Rightarrow> do {
              r \<leftarrow> mTransition CallCtx i (tStatus t) target ErrCodeNone [] FinalizationNone;
              case r of Inl e \<Rightarrow> State_Monad.return (Some (AppStore e))
              | Inr _ \<Rightarrow> do { appendStatusEvent sv CallCtx i (tStatus t) target; State_Monad.return None } }))
      (\<lambda>x w. x = None \<and> moved i (orphanRow r) b w)" for x
  proof (rule triple_when, simp only: sum.case scanTask_sel, cases "orphanTarget (r_status r)")
    case None
    show "triple (held i r b) (case orphanTarget (r_status r) of None \<Rightarrow> State_Monad.return None
          | Some target \<Rightarrow> do {
              x \<leftarrow> mTransition CallCtx i (r_status r) target ErrCodeNone [] FinalizationNone;
              case x of Inl e \<Rightarrow> State_Monad.return (Some (AppStore e))
              | Inr _ \<Rightarrow> do { appendStatusEvent sv CallCtx i (r_status r) target; State_Monad.return None } })
      (\<lambda>x w. x = None \<and> moved i (orphanRow r) b w)"
      unfolding None option.case by (rule triple_return) (use None in \<open>auto simp: moved_def orphanRow_def\<close>)
  next
    case (Some s)
    show "triple (held i r b) (case orphanTarget (r_status r) of None \<Rightarrow> State_Monad.return None
          | Some target \<Rightarrow> do {
              x \<leftarrow> mTransition CallCtx i (r_status r) target ErrCodeNone [] FinalizationNone;
              case x of Inl e \<Rightarrow> State_Monad.return (Some (AppStore e))
              | Inr _ \<Rightarrow> do { appendStatusEvent sv CallCtx i (r_status r) target; State_Monad.return None } })
      (\<lambda>x w. x = None \<and> moved i (orphanRow r) b w)"
      unfolding Some option.case by (rule move [OF Some])
  qed
  show ?thesis unfolding cancelOrphan_def by (rule triple_bind [OF held_get go])
qed

text \<open>Cancelling takes effect. With the database alone to itself CancelTask never fails for a task that
  exists: a task with a dispatcher or a reviewer has its context cancelled (the dispatcher's also marked as
  aborted by the user) and keeps its status until they react; an orphan in progress or under review
  becomes aborted, one queued or being planned becomes cancelled, and any other status stays.\<close>

theorem cancel_task_outcome:
  assumes "liveEnv (w_env w)" "wfDB (w_db w)" "lookupBy r_id i (tasks (w_db w)) = Some r"
    "run_state (cancelTaskCall sv i) w = (res, w')"
  shows "res = None \<and>
    (if i \<in> fst ` set (w_running w) \<or> i \<in> set (w_aiReviews w)
     then w_cancelled w' = w_cancelled w @ [i] \<and> w_db w' = w_db w \<and>
       (i \<in> fst ` set (w_running w) \<longrightarrow> map_of (w_running w') i = Some True)
     else w_cancelled w' = w_cancelled w \<and>
       (\<exists>r'. lookupBy r_id i (tasks (w_db w')) = Some r' \<and>
         (case orphanTarget (r_status r) of None \<Rightarrow> r' = r | Some s \<Rightarrow> r_status r' = s)))"
proof -
  note start = held_start [OF assms(1-3)]
  have running: "i \<in> fst ` set (w_running w) \<longleftrightarrow> map_of (w_running w) i \<noteq> None"
    by (simp add: map_of_eq_None_iff)
  have marked: "map_of rs i \<noteq> None \<Longrightarrow> map_of (markAborted [i] rs) i = Some True" for rs
    by (induction rs) (auto simp: markAborted_def split: if_splits)
  show ?thesis
  proof (cases "i \<in> fst ` set (w_running w) \<or> i \<in> set (w_aiReviews w)")
    case True
    then show ?thesis using assms(4) running marked
      by (auto simp: cancelTaskCall_def cancelTask_def split: if_splits)
  next
    case False
    then have "run_state (cancelOrphan sv i) w = (res, w')"
      using assms(4) running by (simp add: cancelTaskCall_def cancelTask_def)
    from tripleD [OF held_cancelOrphan start(1) this] obtain r' where res: "res = None"
      and h: "held i r' (books w) w'" and o: "orphanRow r r'" by (auto simp: moved_def)
    have "w_cancelled w' = w_cancelled w" using h by (simp add: held_def books_def)
    with False res o held_lookup [OF h] show ?thesis by (auto simp: orphanRow_def)
  qed
qed

section \<open>Deleting\<close>

text \<open>What is left of a deleted task, and what writes of other goroutines make of a database.\<close>

definition goneFrom :: "string \<Rightarrow> db \<Rightarrow> db \<Rightarrow> bool" where
  "goneFrom i d d' \<longleftrightarrow> tasks d' = filter (\<lambda>r. r_id r \<noteq> i) (tasks d) \<and>
     subtasks d' = filter (\<lambda>q. q_task_id q \<noteq> i) (subtasks d) \<and>
     events d' = filter (\<lambda>e. eTaskID e \<noteq> i) (events d) \<and> repositories d' = repositories d"

definition othersWrote :: "env \<Rightarrow> db \<Rightarrow> db \<Rightarrow> bool" where
  "othersWrote e d d' \<longleftrightarrow> (\<exists>ops. (\<forall>a\<in>set ops. otherOp e a) \<and> d' = dbRun ops d)"

lemma othersWrote_refl [simp]: "othersWrote e d d"
  unfolding othersWrote_def by (rule exI [of _ "[]"]) simp

lemma othersWrote_trans: "othersWrote e d d1 \<Longrightarrow> othersWrote e d1 d2 \<Longrightarrow> othersWrote e d d2"
  unfolding othersWrote_def by (metis (no_types, lifting) Un_iff dbRun_append set_append)

lemma othersWrote_stepped [simp]: "othersWrote (w_env w) d (w_db w) \<Longrightarrow> othersWrote (w_env w) d (w_db (stepped w))"
  by (rule othersWrote_trans) (auto simp: othersWrote_def stepped_def otherOp_def)

text \<open>What removing the worktree amounts to: nothing is tried for a task without a worktree or a branch, or when the
  repository cannot be read; else git is called once.\<close>

definition removalOf :: "bool \<Rightarrow> task \<Rightarrow> string \<Rightarrow> git_op" where
  "removalOf delBranch t repo = GitRemove repo (tWorktreePath t) (tID t) (if delBranch then DeleteBranch else KeepBranch)"

definition removalRan :: "app_world \<Rightarrow> bool \<Rightarrow> task \<Rightarrow> string option \<Rightarrow> (git_op \<times> bool) list \<Rightarrow> bool" where
  "removalRan w delBranch t r ops \<longleftrightarrow>
     (if tWorktreePath t = [] \<or> tBranch t = [] then r = None \<and> ops = []
      else case fst (run_state (mRepoGet CallCtx (tRepoID t)) w) of Inl _ \<Rightarrow> r = None \<and> ops = []
        | Inr repo \<Rightarrow> ops = [(removalOf delBranch t (rPath repo), r = None)])"

lemma run_removeForDelete:
  assumes "run_state (removeForDelete sv t delBranch) w = (r, w')"
  shows "w_env w' = w_env w \<and> othersWrote (w_env w) (w_db w) (w_db w') \<and> w_attempts w' = w_attempts w \<and>
    (\<exists>ops. w_git w' = w_git w @ ops \<and> removalRan w delBranch t r ops)"
proof (cases "tWorktreePath t \<noteq> [] \<and> tBranch t \<noteq> []")
  case False
  with assms show ?thesis by (auto simp: removeForDelete_def removalRan_def)
next
  case True
  obtain x w1 where x: "run_state (mRepoGet CallCtx (tRepoID t)) w = (x, w1)" by fastforce
  then have w1: "w1 = stepped w" by (simp add: mRepoGet_def storeRead_def)
  show ?thesis
  proof (cases x)
    case (Inl e)
    with True x assms show ?thesis
      by (auto simp: removeForDelete_def removalRan_def w1) (auto simp: stepped_def)
  next
    case (Inr repo)
    with True x assms show ?thesis
      by (auto simp: removeForDelete_def removalRan_def removalOf_def w1 callGit_def Let_def) (auto simp: stepped_def)
  qed
qed

lemma run_deleteWithAttempts:
  assumes "run_state (deleteWithAttempts i) w = (r, w')"
  obtains (failed) e where "r = Inl e" "w' = stepped w"
  | (gone) "r = Inr ()" "goneFrom i (w_db (stepped w)) (w_db w')" "w_git w' = w_git w"
      "w_attempts w' = filter (\<lambda>a. hTaskID a \<noteq> i) (w_attempts w)"
proof (cases "e_ctx (w_env w) CallCtx (w_step w)")
  case Live
  with assms show thesis
    by (intro gone) (auto simp: deleteWithAttempts_def mTaskDelete_def storeWrite_def taskDelete_def goneFrom_def
      deleteWhere_def stepped_def)
next
  case (Done e)
  with assms show thesis
    by (intro failed [of "EExec e"]) (auto simp: deleteWithAttempts_def mTaskDelete_def storeWrite_def taskDelete_def)
qed

text \<open>What deleting the task \<open>t\<close> as it was read in the world \<open>w\<close> comes to.\<close>

definition deletedAs :: "app_world \<Rightarrow> bool \<Rightarrow> task \<Rightarrow> app_error option \<Rightarrow> app_world \<Rightarrow> bool" where
  "deletedAs w delBranch t res w' \<longleftrightarrow>
     (\<exists>r ops d. w_git w' = w_git w @ ops \<and> removalRan w delBranch t r ops \<and> othersWrote (w_env w) (w_db w) d \<and>
        (case res of
           None \<Rightarrow> r = None \<and> goneFrom (tID t) d (w_db w') \<and>
             w_attempts w' = filter (\<lambda>a. hTaskID a \<noteq> tID t) (w_attempts w)
         | Some e \<Rightarrow> w_db w' = d \<and> w_attempts w' = w_attempts w \<and>
             (case r of Some err \<Rightarrow> e = AppDeleteWorktree err | None \<Rightarrow> \<exists>err. e = AppStore err)))"

lemma run_deleteRow:
  assumes "run_state (deleteRow sv t delBranch) w = (res, w')"
  shows "deletedAs w delBranch t res w'"
proof -
  obtain r u where r: "run_state (removeForDelete sv t delBranch) w = (r, u)" by fastforce
  from run_removeForDelete [OF r] obtain ops where u: "w_env u = w_env w" "othersWrote (w_env w) (w_db w) (w_db u)"
    "w_attempts u = w_attempts w" "w_git u = w_git w @ ops" "removalRan w delBranch t r ops" by blast
  from u(1,2) have o: "othersWrote (w_env w) (w_db w) (w_db (stepped u))" by (metis othersWrote_stepped)
  show ?thesis
  proof (cases r)
    case (Some err)
    with assms r u show ?thesis by (auto simp: deleteRow_def deletedAs_def)
  next
    case None
    obtain x v where x: "run_state (deleteWithAttempts (tID t)) u = (x, v)" by fastforce
    then show ?thesis
    proof (cases rule: run_deleteWithAttempts)
      case (failed e)
      then have "res = Some (AppStore e)" "w' = stepped u" using assms r None x by (auto simp: deleteRow_def)
      with None u o show ?thesis unfolding deletedAs_def by (auto simp: stepped_def)
    next
      case gone
      then have "res = None" "w' = v" using assms r None x by (auto simp: deleteRow_def)
      with None u o gone show ?thesis unfolding deletedAs_def by auto
    qed
  qed
qed

text \<open>C34 (deletion cleans up first). Whatever fails and whatever other goroutines write meanwhile: DeleteTask reads the
  task, and refuses one that it reads as in progress. Else it first removes the worktree: by one call of git,
  with the branch only if that was asked for. It tries no such call for a task read without a worktree or
  without a branch, or when its repository cannot be read, and then the worktree stays. If the call fails, so does the
  deletion, and no row is deleted. A success deletes, from the database as it is by then and of the tables modelled, exactly the task,
  its subtasks, its events and its harness attempts (the schema also clears its artifacts, run root and recorded contexts); nothing checks at that moment that the task is still not in progress.
  On any error this call has written nothing.\<close>

theorem delete_task_outcome:
  assumes "run_state (deleteTask sv i delBranch) w = (res, w')"
  shows "i = [] \<and> res = Some AppRequired \<and> w' = w \<or>
    (case taskGet (e_ctx (w_env w) CallCtx (w_step w)) i (w_db (stepped w)) of
       Inl e \<Rightarrow> res = Some (AppStore e) \<and> w' = stepped w
     | Inr t \<Rightarrow>
         if tStatus t = StatusInProgress then res = Some ErrTaskStillRunning \<and> w' = stepped w
         else \<exists>u. deletedAs u delBranch t res w' \<and> tID t = i \<and> w_env u = w_env w \<and> w_step u = Suc (w_step w) \<and>
           w_db u = w_db (stepped w) \<and> w_git u = w_git w \<and> w_attempts u = w_attempts w)"
proof (cases "i = []")
  case True
  with assms show ?thesis by (simp add: deleteTask_def)
next
  case False
  have get: "run_state (mTaskGet CallCtx i) w = (taskGet (e_ctx (w_env w) CallCtx (w_step w)) i (w_db (stepped w)), stepped w)"
    by (simp add: mTaskGet_def storeRead_def)
  show ?thesis
  proof (cases "taskGet (e_ctx (w_env w) CallCtx (w_step w)) i (w_db (stepped w))")
    case (Inl e)
    with assms False get show ?thesis by (simp add: deleteTask_def)
  next
    case (Inr t)
    then have t: "tID t = i" by (auto simp: taskGet_def split: option.splits dest: lookupBy_SomeD)
    obtain x v where c: "run_state (cancelTask i) (stepped w) = (x, v)" by fastforce
    then have v: "w_env v = w_env w" "w_step v = Suc (w_step w)" "w_db v = w_db (stepped w)" "w_git v = w_git w"
      "w_attempts v = w_attempts w"
      by (auto simp: cancelTask_def stepped_def split: if_splits)
    have s: "w_env (stepped w) = w_env w" "w_step (stepped w) = Suc (w_step w)" "w_git (stepped w) = w_git w"
      "w_attempts (stepped w) = w_attempts w" by (simp_all add: stepped_def)
    consider "tStatus t = StatusInProgress" "res = Some ErrTaskStillRunning" "w' = stepped w"
      | "tStatus t \<noteq> StatusInProgress" "run_state (deleteRow sv t delBranch) v = (res, w')"
      | "tStatus t \<noteq> StatusInProgress" "run_state (deleteRow sv t delBranch) (stepped w) = (res, w')"
      using assms False get Inr c by (auto simp: deleteTask_def split: if_splits)
    then show ?thesis
    proof cases
      case 1
      with Inr show ?thesis by simp
    next
      case 2
      with run_deleteRow [OF 2(2)] Inr t v show ?thesis by auto
    next
      case 3
      with run_deleteRow [OF 3(2)] Inr t s show ?thesis by auto
    qed
  qed
qed

section \<open>Creating\<close>

text \<open>Which branch a task starts from: the one asked for, else the one pinned, else the detected one.\<close>

definition baseFor :: "service \<Rightarrow> nat \<Rightarrow> repository \<Rightarrow> string \<Rightarrow> string \<Rightarrow> bool" where
  "baseFor sv n repo explicit base \<longleftrightarrow>
     (if explicit \<noteq> [] then base = explicit \<and> sv_branchExists sv n (rPath repo) explicit = Inr True
      else if rDefaultBaseBranch repo \<noteq> [] then base = rDefaultBaseBranch repo \<and>
        sv_branchExists sv n (rPath repo) (rDefaultBaseBranch repo) = Inr True
      else sv_defaultBranch sv n (rPath repo) = Inr base)"

lemma run_resolveBaseBranch:
  obtains res where "run_state (resolveBaseBranch sv repo explicit) w = (res, w)"
    "\<And>base. res = Inr base \<longleftrightarrow> baseFor sv (w_step w) repo explicit base"
proof -
  obtain res w1 where r: "run_state (resolveBaseBranch sv repo explicit) w = (res, w1)" by fastforce
  then have "w1 = w" "res = Inr base \<longleftrightarrow> baseFor sv (w_step w) repo explicit base" for base
    unfolding baseFor_def by (auto simp: resolveBaseBranch_def atStep_def split: if_splits sum.splits branch_error.splits)
  with r that show ?thesis by blast
qed

text \<open>Creating a task. With the database alone to itself, CreateTask either returns a new queued task
  for the goal, on its own branch and based on a branch the three-step rule allows, stores exactly
  this task as a new row and starts nothing; or it leaves the database as it was.\<close>

theorem create_task_outcome:
  assumes "liveEnv (w_env w)" "run_state (createTask sv inp) w = (res, w')"
  shows "case res of Inl e \<Rightarrow> w_db w' = w_db w
    | Inr t \<Rightarrow> (\<exists>now repo. repo \<in> scanRepository ` set (repositories (w_db w)) \<and> rID repo = ctRepositoryID inp \<and>
          baseFor sv (Suc (w_step w)) repo (ctBaseBranch inp) (tBaseBranch t) \<and>
          w_db w' = (w_db w)\<lparr>tasks := tasks (w_db w) @ [taskRowOf now t]\<rparr>) \<and>
        tStatus t = StatusQueued \<and> tGoal t = ctGoal inp \<and> tRepoID t = ctRepositoryID inp \<and>
        tBranch t = ''fleetkanban/'' @ tID t \<and> taskValidate t = None \<and> w_spawned w' = w_spawned w"
proof -
  have q: "quiet w" and live: "\<And>c n. e_ctx (w_env w) c n = Live" using assms(1) live_quiet by (auto simp: liveEnv_def)
  let ?d = "w_db w" and ?n = "Suc (w_step w)"
  have qn: "quiet (w\<lparr>w_step := n\<rparr>)" for n using q by (simp add: quiet_def)
  consider "w_db w' = ?d" "\<exists>e. res = Inl e"
    | repo base where "ctRepositoryID inp \<noteq> []" "ctGoal inp \<noteq> []"
      "repo \<in> scanRepository ` set (repositories ?d)" "rID repo = ctRepositoryID inp"
      "baseFor sv ?n repo (ctBaseBranch inp) base"
      "run_state (do { i \<leftarrow> newULID; now \<leftarrow> readClock; let t = newTask inp i repo base now;
         rc \<leftarrow> mTaskCreate CallCtx t;
         State_Monad.return (case rc of Inl e \<Rightarrow> Inl (AppStore e) | Inr _ \<Rightarrow> Inr t) }) (w\<lparr>w_step := ?n\<rparr>) = (res, w')"
  proof (cases "ctRepositoryID inp = [] \<or> ctGoal inp = []")
    case True
    with assms(2) show ?thesis by (intro that(1)) (auto simp: createTask_def)
  next
    case False
    show ?thesis
    proof (cases "lookupBy rp_id (ctRepositoryID inp) (repositories ?d)")
      case None
      with assms(2) False q live show ?thesis
        by (intro that(1)) (auto simp: createTask_def mRepoGet_def storeRead_def repoGet_def)
    next
      case (Some rp)
      then have rp: "scanRepository rp \<in> scanRepository ` set (repositories ?d)" "rID (scanRepository rp) = ctRepositoryID inp"
        using lookupBy_SomeD by (fastforce simp: scanRepository_def)+
      obtain rb where rb: "run_state (resolveBaseBranch sv (scanRepository rp) (ctBaseBranch inp)) (w\<lparr>w_step := ?n\<rparr>) =
          (rb, w\<lparr>w_step := ?n\<rparr>)"
        "\<And>base. rb = Inr base \<longleftrightarrow> baseFor sv ?n (scanRepository rp) (ctBaseBranch inp) base"
        by (rule run_resolveBaseBranch [of sv "scanRepository rp" "ctBaseBranch inp" "w\<lparr>w_step := ?n\<rparr>"]) simp
      have get: "run_state (mRepoGet CallCtx (ctRepositoryID inp)) w = (Inr (scanRepository rp), w\<lparr>w_step := ?n\<rparr>)"
        using Some q live by (simp add: mRepoGet_def storeRead_def repoGet_def)
      show ?thesis
      proof (cases rb)
        case (Inl e)
        with assms(2) False get rb(1) show ?thesis by (intro that(1)) (auto simp: createTask_def)
      next
        case (Inr base)
        with assms(2) False get rb rp show ?thesis
          by (intro that(2) [of "scanRepository rp" base]) (auto simp: createTask_def)
      qed
    qed
  qed
  then show ?thesis
  proof cases
    case 1
    then show ?thesis by auto
  next
    case (2 repo base)
    let ?t = "newTask inp (e_ulid (w_env w) ?n) repo base (e_clock (w_env w) (Suc ?n))"
    let ?now = "e_clock (w_env w) (Suc (Suc ?n))"
    have "res = (case taskCreate ?now Live ?t ?d of Inl e \<Rightarrow> Inl (AppStore e) | Inr _ \<Rightarrow> Inr ?t)"
      "w_db w' = (case taskCreate ?now Live ?t ?d of Inl e \<Rightarrow> ?d | Inr d \<Rightarrow> d)" "w_spawned w' = w_spawned w"
      using 2(6) qn live
      by (auto simp: newULID_def readClock_def Let_def mTaskCreate_def storeWrite_def split: sum.splits)
    moreover have "taskCreate ?now Live ?t ?d = Inr d \<Longrightarrow> d = ?d\<lparr>tasks := tasks ?d @ [taskRowOf ?now ?t]\<rparr> \<and> taskValidate ?t = None" for d
      by (auto simp: taskCreate_def split: option.splits if_splits)
    ultimately show ?thesis using 2(3-5)
      by (cases "taskCreate ?now Live ?t ?d") (auto simp: newTask_def branchPrefix_def)
  qed
qed

section \<open>Witnesses\<close>

definition sampleService :: "bool \<Rightarrow> service" where
  "sampleService ok = \<lparr>sv_manager = easyGit, sv_publish = True,
     sv_auth = (\<lambda>_. Inr \<lparr>as_authenticated = ok, as_message = []\<rparr>), sv_branchExists = (\<lambda>_ _ _. Inr True),
     sv_defaultBranch = (\<lambda>_ _. Inr ''main''), sv_diff = (\<lambda>_ _ _. Inr []), sv_diffBranch = (\<lambda>_ _ _ _. Inr [])\<rparr>"

definition sampleApp :: "db \<Rightarrow> app_world" where
  "sampleApp d = fin_world.extend (sampleFin (quietEnv (\<lambda>_ _. Live)) d) \<lparr>w_published = []\<rparr>"

lemma sampleApp_sel [simp]:
  "w_env (sampleApp d) = quietEnv (\<lambda>_ _. Live)" "w_step (sampleApp d) = 0" "w_db (sampleApp d) = d"
  "w_running (sampleApp d) = [(''t1'', False)]" "w_git (sampleApp d) = []" "w_spawned (sampleApp d) = []"
  "w_aiReviews (sampleApp d) = []" "w_cancelled (sampleApp d) = []"
  by (simp_all add: sampleApp_def fin_world.extend_def sampleFin_def orch_world.extend_def sampleOrch_def
      world.extend_def sampleWorld_def)

lemma liveEnv_sample: "liveEnv (quietEnv (\<lambda>_ _. Live))"
  by (simp add: liveEnv_def quietEnv_def)

lemma sample_rows:
  "lookupBy r_id ''t2'' (tasks reviewedDB) = Some (taskRowOf 2 (reviewedTask ''t2'' StatusHumanReview))"
  "lookupBy r_id ''t2'' (tasks sampleDB) = Some (taskRowOf 2 (sampleTask ''t2'' StatusQueued))"
  "lookupBy r_id ''t1'' (tasks sampleDB) = Some (taskRowOf 1 (sampleTask ''t1'' StatusInProgress))"
  by (simp_all add: reviewedDB_def reviewedTask_def sample_defs taskRowOf_def)

theorem submit_review_outcome_witness:
  "\<exists>r'. lookupBy r_id ''t2'' (tasks (w_db (snd (run_state (submitReview (sampleService True) ''t2'' ReviewRework ''again'')
      (sampleApp reviewedDB))))) = Some r' \<and> r_status r' = StatusQueued \<and> r_review_feedback r' = ''again''"
proof -
  obtain res w' where run: "run_state (submitReview (sampleService True) ''t2'' ReviewRework ''again'') (sampleApp reviewedDB) = (res, w')"
    by fastforce
  have "trimSpace ''again'' \<noteq> []" by code_simp
  then have "reviewRefused StatusHumanReview ReviewRework ''again'' = None" by (simp add: reviewRefused_def)
  with submit_review_outcome [OF _ _ _ run] liveEnv_sample wfDB_reviewed sample_rows(1) run show ?thesis
    by (auto simp: taskRowOf_def reviewedTask_def sampleTask_def)
qed

theorem run_task_outcome_witness:
  "w_spawned (snd (run_state (runTask (sampleService True) ''t2'') (sampleApp sampleDB))) = [GoDispatch ''t2'']"
proof -
  obtain res w' where run: "run_state (runTask (sampleService True) ''t2'') (sampleApp sampleDB) = (res, w')" by fastforce
  from run_task_outcome [OF _ _ _ _ _ run] liveEnv_sample wfDB_sample sample_rows(2) run show ?thesis
    by (simp add: sampleService_def taskRowOf_def sampleTask_def)
qed

theorem unauthenticated_run_hits_active_tasks_witness:
  "\<exists>r'. lookupBy r_id ''t1'' (tasks (w_db (snd (run_state (runTask (sampleService False) ''t1'') (sampleApp sampleDB))))) = Some r' \<and>
     r_status r' = StatusFailed"
proof -
  obtain res w' where run: "run_state (runTask (sampleService False) ''t1'') (sampleApp sampleDB) = (res, w')" by fastforce
  have pre: "liveEnv (w_env (sampleApp sampleDB))" "wfDB (w_db (sampleApp sampleDB))"
    "lookupBy r_id ''t1'' (tasks (w_db (sampleApp sampleDB))) = Some (taskRowOf 1 (sampleTask ''t1'' StatusInProgress))"
    "sv_auth (sampleService False) (w_step (sampleApp sampleDB)) = Inr \<lparr>as_authenticated = False, as_message = []\<rparr>"
    using liveEnv_sample wfDB_sample sample_rows(3) by (simp_all add: sampleService_def)
  from unauthenticated_run_hits_active_tasks [OF pre _ run] run show ?thesis
    by (auto simp: taskRowOf_def sampleTask_def)
qed

theorem cancel_task_outcome_witness:
  "\<exists>r'. lookupBy r_id ''t2'' (tasks (w_db (snd (run_state (cancelTaskCall (sampleService True) ''t2'') (sampleApp sampleDB))))) = Some r' \<and>
     r_status r' = StatusCancelled"
proof -
  obtain res w' where run: "run_state (cancelTaskCall (sampleService True) ''t2'') (sampleApp sampleDB) = (res, w')" by fastforce
  from cancel_task_outcome [OF _ _ _ run] liveEnv_sample wfDB_sample sample_rows(2) run show ?thesis
    by (simp add: taskRowOf_def sampleTask_def)
qed

theorem delete_task_outcome_witness:
  "tasks (w_db (snd (run_state (deleteTask (sampleService True) ''t2'' True) (sampleApp reviewedDB)))) =
     [taskRowOf 1 (sampleTask ''t1'' StatusInProgress)]"
proof -
  obtain res w' where run: "run_state (deleteTask (sampleService True) ''t2'' True) (sampleApp reviewedDB) = (res, w')" by fastforce
  have "res = None"
    using run by (simp add: deleteTask_def deleteRow_def deleteWithAttempts_def removeForDelete_def mRepoGet_def repoGet_def
        callGit_def easyGit_def mTaskGet_def mTaskDelete_def storeRead_def storeWrite_def taskGet_def taskDelete_def stepped_def
        quietEnv_def Let_def sampleService_def reviewedDB_def reviewedTask_def sample_defs taskRowOf_def scanRepository_def
        cancelTask_def)
  moreover have "taskGet Live ''t2'' reviewedDB = Inr (scanTask (taskRowOf 2 (reviewedTask ''t2'' StatusHumanReview)))"
    using sample_rows(1) by (simp add: taskGet_def)
  ultimately obtain d where "goneFrom ''t2'' d (w_db w')" "d = reviewedDB"
    using delete_task_outcome [OF run]
    by (auto simp: deletedAs_def othersWrote_def otherOp_def quietEnv_def stepped_def taskRowOf_def reviewedTask_def sampleTask_def)
  with run show ?thesis by (simp add: goneFrom_def reviewedDB_def reviewedTask_def taskRowOf_def sampleTask_def)
qed

text \<open>The check that the task is not running is made on the row as it was read: a dispatch that starts the task
  between the reading and the deletion is not seen, and the task in progress loses its row.\<close>

lemma delete_races_dispatch:
  "let e = (quietEnv (\<lambda>_ _. Live))\<lparr>e_others := (\<lambda>n. if n = 1
         then [OpTransition 9 Live ''t2'' StatusQueued StatusInProgress ErrCodeNone [] FinalizationNone] else [])\<rparr>;
       w = (sampleApp sampleDB)\<lparr>w_env := e\<rparr>;
       started = dbRun (e_others e 1) sampleDB;
       (res, w') = run_state (deleteTask (sampleService True) ''t2'' True) w
   in taskStatus started ''t2'' = Some StatusInProgress \<and> res = None \<and> taskStatus (w_db w') ''t2'' = None"
  by code_simp

definition sampleInput :: create_task_input where
  "sampleInput = \<lparr>ctRepositoryID = ''r1'', ctGoal = ''g'', ctBaseBranch = [], ctModel = [], ctPlanModel = [], ctReviewModel = []\<rparr>"

theorem create_task_outcome_witness:
  "case fst (run_state (createTask (sampleService True) sampleInput) (sampleApp sampleDB)) of
     Inl e \<Rightarrow> w_db (snd (run_state (createTask (sampleService True) sampleInput) (sampleApp sampleDB))) = sampleDB
   | Inr t \<Rightarrow> tStatus t = StatusQueued \<and> tGoal t = ''g''"
proof -
  obtain res w' where run: "run_state (createTask (sampleService True) sampleInput) (sampleApp sampleDB) = (res, w')" by fastforce
  from create_task_outcome [OF _ run] liveEnv_sample run show ?thesis
    by (auto simp: sampleInput_def split: sum.splits)
qed

end
