(* ===== verification/Go_Text.thy ===== *)
theory Go_Text
  imports FK_Prelude
begin

text \<open>
  More of Go's text functions, as the parsers of patches and of git's output use them: fields,
  numbers, searching, splitting and the line scanner.
\<close>

text \<open>\<open>strings.Fields\<close>: the parts between runs of white space.\<close>

function takeField :: "string \<Rightarrow> string \<times> string" where
  "takeField s =
     (case s of [] \<Rightarrow> ([], [])
      | c # cs \<Rightarrow> if 0 < headLen goSpaces s then ([], s)
          else (case takeField cs of (f, r) \<Rightarrow> (c # f, r)))"
  by pat_completeness auto
termination
  by (relation "measure length") auto

declare takeField.simps [simp del]

lemma takeField_shorter: "length (snd (takeField s)) \<le> length s"
proof (induction s)
  case (Cons c cs)
  then show ?case by (subst takeField.simps) (auto split: prod.splits)
qed (simp add: takeField.simps)

lemma stripHead_length: "length (stripHead ps s) \<le> length s"
  using stripHead_suffix [of s ps] by (metis length_append le_add2)

function goFields :: "string \<Rightarrow> string list" where
  "goFields s =
     (case stripHead goSpaces s of [] \<Rightarrow> []
      | c # cs \<Rightarrow> (case takeField cs of (f, r) \<Rightarrow> (c # f) # goFields r))"
  by pat_completeness auto
termination
proof (relation "measure length")
  fix s c cs f r
  assume a: "stripHead goSpaces s = c # cs" "(f, r) = takeField cs"
  have "length r \<le> length cs" using takeField_shorter [of cs] a(2) by (metis snd_conv)
  moreover have "length (c # cs) \<le> length s" using stripHead_length [of goSpaces s] a(1) by simp
  ultimately show "(r, s) \<in> measure length" by simp
qed simp

declare goFields.simps [simp del]

text \<open>\<open>strconv.Atoi\<close>.\<close>

definition isDigit :: "char \<Rightarrow> bool" where
  "isDigit c \<longleftrightarrow> CHR ''0'' \<le> c \<and> c \<le> CHR ''9''"

definition digitsValue :: "string \<Rightarrow> int" where
  "digitsValue s = fold (\<lambda>c v. 10 * v + (of_char c - 48)) s 0"

definition atoi :: "string \<Rightarrow> int option" where
  "atoi s =
     (let neg = hasPrefix s ''-'';
          ds = (if hasPrefix s ''-'' \<or> hasPrefix s ''+'' then drop 1 s else s);
          v = (if neg then - digitsValue ds else digitsValue ds)
      in if ds = [] \<or> \<not> list_all isDigit ds then None
         else if v < - (2 ^ 63) \<or> 2 ^ 63 - 1 < v then None
         else Some v)"

text \<open>The position of the first match, as \<open>strings.Index\<close> and \<open>strings.LastIndex\<close> give it.\<close>

fun indexOf :: "string \<Rightarrow> string \<Rightarrow> nat option" where
  "indexOf [] p = (if p = [] then Some 0 else None)"
| "indexOf (c # cs) p =
     (if hasPrefix (c # cs) p then Some 0 else map_option Suc (indexOf cs p))"

fun lastIndexOf :: "string \<Rightarrow> string \<Rightarrow> nat option" where
  "lastIndexOf [] p = (if p = [] then Some 0 else None)"
| "lastIndexOf (c # cs) p =
     (case lastIndexOf cs p of Some n \<Rightarrow> Some (Suc n)
      | None \<Rightarrow> if hasPrefix (c # cs) p then Some 0 else None)"

text \<open>\<open>strings.ReplaceAll(s, "\r\n", "\n")\<close>.\<close>

fun unixLines :: "string \<Rightarrow> string" where
  "unixLines [] = []"
| "unixLines [c] = [c]"
| "unixLines (c # d # cs) =
     (if c = CHR 0x0D \<and> d = CHR 0x0A then d # unixLines cs else c # unixLines (d # cs))"

text \<open>\<open>bufio.ScanLines\<close>: a final empty line is not delivered, one carriage return before the line
  feed is dropped. A line that does not fit into the buffer ends the scan with an error.\<close>

definition dropCR :: "string \<Rightarrow> string" where
  "dropCR s = (if s \<noteq> [] \<and> last s = CHR 0x0D then butlast s else s)"

definition scanLines :: "int \<Rightarrow> string \<Rightarrow> string list \<times> bool" where
  "scanLines maxLine s =
     (let raw = splitOn (CHR 0x0A) s;
          ls = (if last raw = [] then butlast raw else raw);
          fit = takeWhile (\<lambda>l. int (length l) < maxLine) ls
      in (map dropCR fit, length fit \<noteq> length ls))"

definition contains :: "string \<Rightarrow> string \<Rightarrow> bool" where
  "contains s p \<longleftrightarrow> indexOf s p \<noteq> None"

text \<open>\<open>strings.SplitN(s, sep, 2)\<close> on a one-byte separator.\<close>

definition splitOnce :: "char \<Rightarrow> string \<Rightarrow> string \<times> string option" where
  "splitOnce c s = (case indexOf s [c] of None \<Rightarrow> (s, None) | Some i \<Rightarrow> (take i s, Some (drop (Suc i) s)))"

text \<open>\<open>strings.TrimRight\<close> on one byte.\<close>

definition trimRightByte :: "char \<Rightarrow> string \<Rightarrow> string" where
  "trimRightByte c s = rev (dropWhile (\<lambda>x. x = c) (rev s))"

end
