(* ===== verification/Patch.thy ===== *)
theory Patch
  imports Go_Text "HOL-Library.Multiset"
begin

text \<open>
  The patch routine of \<open>internal/ihr/evolver.go\<close>: the hunks of a unified diff are parsed, checked
  against their headers and applied to the text of the charter. Go's \<open>strings\<close>, \<open>strconv.Atoi\<close> and
  line scanner are written out; positions are unbounded integers, which agrees with 64-bit ones since
  a position out of range is refused on either side.
\<close>

text \<open>The scanner's buffer is one MiB.\<close>

definition maxLine :: int where
  "maxLine = 1024 * 1024"

section \<open>Hunks\<close>

datatype patch_error =
    PatchEmpty
  | PatchHeader string
  | PatchOldRange string
  | PatchNewRange string
  | PatchScan
  | PatchNoHeader
  | PatchStray nat string
  | PatchOldCount nat int nat
  | PatchNewCount nat int nat
  | PatchNoHunks
  | PatchTooLarge nat
  | PatchOutOfRange nat int nat
  | PatchPastEOF nat
  | PatchContext nat nat string
  | PatchDeletePastEOF nat
  | PatchDelete nat nat string
  | PatchUnknownOp nat char

record hunk =
  hOldStart :: int
  hOldCount :: int
  hNewStart :: int
  hNewCount :: int
  hBody :: "string list"

definition parseRange :: "string \<Rightarrow> (int \<times> int) option" where
  "parseRange s =
     (case indexOf s '','' of
        Some i \<Rightarrow>
          (case (atoi (take i s), atoi (drop (Suc i) s)) of
             (Some a, Some b) \<Rightarrow> Some (a, b) | _ \<Rightarrow> None)
      | None \<Rightarrow> map_option (\<lambda>a. (a, 1)) (atoi s))"

definition parseHunkHeader :: "string \<Rightarrow> patch_error + hunk" where
  "parseHunkHeader line =
     (let rest = trimPrefix line ''@@''
      in case indexOf rest ''@@'' of None \<Rightarrow> Inl (PatchHeader line)
      | Some e \<Rightarrow>
          (case goFields (trimSpace (take e rest)) of
             old # nw # _ \<Rightarrow>
               if \<not> hasPrefix old ''-'' \<or> \<not> hasPrefix nw ''+'' then Inl (PatchHeader line)
               else (case parseRange (drop 1 old) of None \<Rightarrow> Inl (PatchOldRange old)
                 | Some (os, oc) \<Rightarrow>
                   (case parseRange (drop 1 nw) of None \<Rightarrow> Inl (PatchNewRange nw)
                    | Some (ns, nc) \<Rightarrow> Inr \<lparr>hOldStart = os, hOldCount = oc, hNewStart = ns, hNewCount = nc, hBody = []\<rparr>))
           | _ \<Rightarrow> Inl (PatchHeader line)))"

definition stripDiffFence :: "string \<Rightarrow> string" where
  "stripDiffFence s =
     (let t = trimSpace s
      in if \<not> hasPrefix t ''```'' then s
         else let t = (case indexOf t [CHR 0x0A] of Some nl \<Rightarrow> drop (Suc nl) t | None \<Rightarrow> t)
           in case lastIndexOf t ''```'' of Some i \<Rightarrow> take i t | None \<Rightarrow> t)"

text \<open>The hunks found so far, and the one being read.\<close>

definition flushHunk :: "hunk list \<Rightarrow> hunk option \<Rightarrow> hunk list" where
  "flushHunk out cur = (case cur of None \<Rightarrow> out | Some h \<Rightarrow> out @ [h])"

definition isNoise :: "string \<Rightarrow> bool" where
  "isNoise line \<longleftrightarrow> hasPrefix line ''---'' \<or> hasPrefix line ''+++'' \<or>
     hasPrefix line ''diff '' \<or> hasPrefix line ''index ''"

fun collectHunks :: "hunk list \<Rightarrow> hunk option \<Rightarrow> string list \<Rightarrow> patch_error + hunk list" where
  "collectHunks out cur [] = Inr (flushHunk out cur)"
| "collectHunks out cur (line # ls) =
     (if hasPrefix line ''@@'' then
        (case parseHunkHeader line of Inl e \<Rightarrow> Inl e
         | Inr h \<Rightarrow> collectHunks (flushHunk out cur) (Some h) ls)
      else if isNoise line then collectHunks out cur ls
      else (case cur of None \<Rightarrow> collectHunks out None ls
        | Some h \<Rightarrow> collectHunks out (Some (h\<lparr>hBody := hBody h @ [line]\<rparr>)) ls))"

text \<open>The lines of a body that the old and the new text have.\<close>

fun onOld :: "string \<Rightarrow> bool" where
  "onOld [] = True"
| "onOld (c # cs) = (c = CHR '' '' \<or> c = CHR ''-'')"

fun onNew :: "string \<Rightarrow> bool" where
  "onNew [] = True"
| "onNew (c # cs) = (c = CHR '' '' \<or> c = CHR ''+'')"

fun knownOp :: "string \<Rightarrow> bool" where
  "knownOp [] = True"
| "knownOp (c # cs) = (c = CHR '' '' \<or> c = CHR ''-'' \<or> c = CHR ''+'' \<or> c = CHR 0x5C)"

fun checkHunks :: "nat \<Rightarrow> hunk list \<Rightarrow> patch_error option" where
  "checkHunks i [] = None"
| "checkHunks i (h # hs) =
     (case find (\<lambda>l. \<not> knownOp l) (hBody h) of Some l \<Rightarrow> Some (PatchStray i l)
      | None \<Rightarrow>
        (let gotMinus = length (filter onOld (hBody h)); gotPlus = length (filter onNew (hBody h))
         in if int gotMinus \<noteq> hOldCount h then Some (PatchOldCount i (hOldCount h) gotMinus)
            else if int gotPlus \<noteq> hNewCount h then Some (PatchNewCount i (hNewCount h) gotPlus)
            else checkHunks (Suc i) hs))"

definition parseHunks :: "string \<Rightarrow> patch_error + hunk list" where
  "parseHunks diff =
     (case scanLines maxLine (stripDiffFence diff) of (ls, tooLong) \<Rightarrow>
        (case collectHunks [] None ls of Inl e \<Rightarrow> Inl e
         | Inr hs \<Rightarrow>
             if tooLong then Inl PatchScan
             else if hs = [] then Inl PatchNoHeader
             else (case checkHunks 0 hs of Some e \<Rightarrow> Inl e | None \<Rightarrow> Inr hs)))"

section \<open>Applying\<close>

definition MaxPatchLineChanges :: nat where
  "MaxPatchLineChanges = 50"

fun isChange :: "string \<Rightarrow> bool" where
  "isChange [] = False"
| "isChange (c # cs) = (c = CHR ''+'' \<or> c = CHR ''-'')"

definition touchedLines :: "hunk list \<Rightarrow> nat" where
  "touchedLines hs = sum_list (map (\<lambda>h. length (filter isChange (hBody h))) hs)"

text \<open>The body is walked with a cursor into the old lines; the new lines are collected.\<close>

fun walkBody :: "nat \<Rightarrow> string list \<Rightarrow> nat \<Rightarrow> string list \<Rightarrow> string list \<Rightarrow> patch_error + nat \<times> string list" where
  "walkBody hi old cursor new [] = Inr (cursor, new)"
| "walkBody hi old cursor new ([] # ls) =
     (if length old \<le> cursor then Inl (PatchPastEOF hi)
      else if old ! cursor \<noteq> [] then Inl (PatchContext hi (Suc cursor) [])
      else walkBody hi old (Suc cursor) (new @ [[]]) ls)"
| "walkBody hi old cursor new ((op # payload) # ls) =
     (if op = CHR '' '' then
        if length old \<le> cursor then Inl (PatchPastEOF hi)
        else if old ! cursor \<noteq> payload then Inl (PatchContext hi (Suc cursor) payload)
        else walkBody hi old (Suc cursor) (new @ [payload]) ls
      else if op = CHR ''-'' then
        if length old \<le> cursor then Inl (PatchDeletePastEOF hi)
        else if old ! cursor \<noteq> payload then Inl (PatchDelete hi (Suc cursor) payload)
        else walkBody hi old (Suc cursor) new ls
      else if op = CHR ''+'' then walkBody hi old cursor (new @ [payload]) ls
      else if op = CHR 0x5C then walkBody hi old cursor new ls
      else Inl (PatchUnknownOp hi op))"

definition hunkIndex :: "hunk \<Rightarrow> int \<Rightarrow> int" where
  "hunkIndex h delta = (if hOldStart h = 0 then 0 else hOldStart h - 1) + delta"

definition applyHunk :: "nat \<Rightarrow> int \<Rightarrow> string list \<Rightarrow> hunk \<Rightarrow> patch_error + int \<times> string list" where
  "applyHunk hi delta old h =
     (let idx = hunkIndex h delta
      in if idx < 0 \<or> int (length old) < idx then Inl (PatchOutOfRange hi (hOldStart h) (length old))
      else (case walkBody hi old (nat idx) [] (hBody h) of Inl e \<Rightarrow> Inl e
        | Inr (cursor, new) \<Rightarrow>
            Inr (delta + int (length new) - (int cursor - idx), take (nat idx) old @ new @ drop cursor old)))"

fun applyHunks :: "nat \<Rightarrow> int \<Rightarrow> string list \<Rightarrow> hunk list \<Rightarrow> patch_error + string list" where
  "applyHunks hi delta old [] = Inr old"
| "applyHunks hi delta old (h # hs) =
     (case applyHunk hi delta old h of Inl e \<Rightarrow> Inl e
      | Inr (delta', new) \<Rightarrow> applyHunks (Suc hi) delta' new hs)"

definition applyPatch :: "string \<Rightarrow> string \<Rightarrow> patch_error + string" where
  "applyPatch content diff =
     (if trimSpace diff = [] then Inl PatchEmpty
      else case parseHunks diff of Inl e \<Rightarrow> Inl e
      | Inr hs \<Rightarrow>
          if hs = [] then Inl PatchNoHunks
          else if MaxPatchLineChanges < touchedLines hs then Inl (PatchTooLarge (touchedLines hs))
          else map_sum id (joinWith [CHR 0x0A])
            (applyHunks 0 0 (splitOn (CHR 0x0A) (unixLines content)) hs))"

section \<open>What a hunk does\<close>

fun payload :: "string \<Rightarrow> string" where
  "payload [] = []"
| "payload (c # cs) = cs"

definition oldSide :: "string list \<Rightarrow> string list" where
  "oldSide body = map payload (filter onOld body)"

definition newSide :: "string list \<Rightarrow> string list" where
  "newSide body = map payload (filter onNew body)"

lemma side_simps [simp]:
  "oldSide [] = []" "newSide [] = []"
  "oldSide (l # ls) = (if onOld l then payload l # oldSide ls else oldSide ls)"
  "newSide (l # ls) = (if onNew l then payload l # newSide ls else newSide ls)"
  by (simp_all add: oldSide_def newSide_def)

text \<open>The walk succeeds exactly when the old side of the body stands at the cursor.\<close>

lemma walkBody_iff:
  "walkBody hi old cursor new body = Inr (c, new') \<longleftrightarrow>
     list_all knownOp body \<and> take (length (oldSide body)) (drop cursor old) = oldSide body \<and>
     (oldSide body \<noteq> [] \<longrightarrow> cursor + length (oldSide body) \<le> length old) \<and>
     c = cursor + length (oldSide body) \<and> new' = new @ newSide body"
proof (induction hi old cursor new body rule: walkBody.induct)
  case (1 hi old cursor new)
  then show ?case by auto
next
  case (2 hi old cursor new ls)
  have t: "take (Suc n) (drop cursor old) = x # xs \<longleftrightarrow>
      cursor < length old \<and> old ! cursor = x \<and> take n (drop (Suc cursor) old) = xs" for n x xs
    by (cases "cursor < length old") (auto simp: Cons_nth_drop_Suc [symmetric])
  show ?case
    by (cases "length old \<le> cursor"; cases "old ! cursor = []") (auto simp: 2 t)
next
  case (3 hi old cursor new op payload ls)
  have t: "take (Suc n) (drop cursor old) = x # xs \<longleftrightarrow>
      cursor < length old \<and> old ! cursor = x \<and> take n (drop (Suc cursor) old) = xs" for n x xs
    by (cases "cursor < length old") (auto simp: Cons_nth_drop_Suc [symmetric])
  consider "op = CHR '' ''" | "op = CHR ''-''" | "op = CHR ''+''" | "op = CHR 0x5C"
    | "op \<noteq> CHR '' ''" "op \<noteq> CHR ''-''" "op \<noteq> CHR ''+''" "op \<noteq> CHR 0x5C" by blast
  then show ?case
  proof cases
    case 1
    then show ?thesis
      by (cases "length old \<le> cursor"; cases "old ! cursor = payload") (auto simp: 3(1) t)
  next
    case 2
    then show ?thesis
      by (cases "length old \<le> cursor"; cases "old ! cursor = payload") (auto simp: 3(2) t)
  qed (auto simp: 3(3,4))
qed

lemma applyHunk_ok:
  assumes "list_all knownOp (hBody h)" "hunkIndex h delta = int (length pre)"
  shows "applyHunk hi delta (pre @ oldSide (hBody h) @ post) h =
    Inr (delta + int (length (newSide (hBody h))) - int (length (oldSide (hBody h))), pre @ newSide (hBody h) @ post)"
proof -
  have "walkBody hi (pre @ oldSide (hBody h) @ post) (length pre) [] (hBody h) =
      Inr (length pre + length (oldSide (hBody h)), newSide (hBody h))"
    using assms(1) by (simp add: walkBody_iff)
  then show ?thesis using assms(2) by (simp add: applyHunk_def Let_def)
qed

lemma applyHunk_InrD:
  assumes "applyHunk hi delta old h = Inr (delta', new)"
  obtains pre post where "old = pre @ oldSide (hBody h) @ post" "new = pre @ newSide (hBody h) @ post"
    "int (length pre) = hunkIndex h delta" "list_all knownOp (hBody h)"
proof -
  let ?i = "nat (hunkIndex h delta)" and ?o = "oldSide (hBody h)"
  from assms have i: "0 \<le> hunkIndex h delta" "?i \<le> length old"
    and w: "walkBody hi old ?i [] (hBody h) = Inr (?i + length ?o, newSide (hBody h))"
    and new: "new = take ?i old @ newSide (hBody h) @ drop (?i + length ?o) old"
    by (auto simp: applyHunk_def Let_def walkBody_iff split: if_splits sum.splits)
  from w have "drop ?i old = ?o @ drop (?i + length ?o) old"
    by (simp add: walkBody_iff) (metis add.commute append_take_drop_id drop_drop)
  then have "old = take ?i old @ ?o @ drop (?i + length ?o) old" by (metis append_take_drop_id)
  with that [of "take ?i old" "drop (?i + length ?o) old"] new i w show ?thesis
    by (simp add: walkBody_iff)
qed

section \<open>What a patch does\<close>

text \<open>A text cut at the hunks: each hunk's body with the unchanged lines before it, and the tail.\<close>

fun oldText :: "(string list \<times> string list) list \<Rightarrow> string list \<Rightarrow> string list" where
  "oldText [] tail = tail"
| "oldText ((gap, body) # ps) tail = gap @ oldSide body @ oldText ps tail"

fun newText :: "(string list \<times> string list) list \<Rightarrow> string list \<Rightarrow> string list" where
  "newText [] tail = tail"
| "newText ((gap, body) # ps) tail = gap @ newSide body @ newText ps tail"

text \<open>The headers name the lines of the old text at which the cuts are, counted from 1, as a unified diff does:
  the first line of the old side, and for a hunk without an old side the line it stands after (0 at the start).\<close>

fun hunksAt :: "nat \<Rightarrow> (string list \<times> string list) list \<Rightarrow> hunk list \<Rightarrow> bool" where
  "hunksAt n [] hs = (hs = [])"
| "hunksAt n ((gap, body) # ps) [] = False"
| "hunksAt n ((gap, body) # ps) (h # hs) =
     (hBody h = body \<and> hOldStart h = int (n + length gap) + (if oldSide body = [] then 0 else 1) \<and>
      hunksAt (n + length gap + length (oldSide body)) ps hs)"

text \<open>Insertions without context, other than at the start of the text.\<close>

definition bareInsertion :: "hunk \<Rightarrow> bool" where
  "bareInsertion h \<longleftrightarrow> oldSide (hBody h) = [] \<and> hOldStart h \<noteq> 0"

lemma applyHunks_edits:
  assumes "hunksAt n ps hs" "\<forall>h\<in>set hs. list_all knownOp (hBody h) \<and> \<not> bareInsertion h" "delta = int (length pre) - int n"
  shows "applyHunks hi delta (pre @ oldText ps tail) hs = Inr (pre @ newText ps tail)"
  using assms
proof (induction n ps hs arbitrary: hi delta pre rule: hunksAt.induct)
  case (3 n gap body ps h hs)
  have body: "hBody h = body" and rest: "hunksAt (n + length gap + length (oldSide body)) ps hs"
    using 3(2) by simp_all
  have zero: "int n + int (length gap) = 0 \<longleftrightarrow> n = 0 \<and> gap = []" by (cases gap) auto
  have idx: "hunkIndex h delta = int (length (pre @ gap))" using 3(2,3,4) zero by (auto simp: hunkIndex_def bareInsertion_def split: if_splits)
  have one: "applyHunk hi delta ((pre @ gap) @ oldSide body @ oldText ps tail) h =
      Inr (delta + int (length (newSide body)) - int (length (oldSide body)), (pre @ gap) @ newSide body @ oldText ps tail)"
    using applyHunk_ok [of h delta "pre @ gap" hi "oldText ps tail"] 3(3) idx body by simp
  have "applyHunks (Suc hi) (delta + int (length (newSide body)) - int (length (oldSide body)))
      ((pre @ gap @ newSide body) @ oldText ps tail) hs = Inr ((pre @ gap @ newSide body) @ newText ps tail)"
    by (rule 3(1) [OF rest]) (use 3(3,4) in auto)
  with one show ?case by simp
qed simp_all

lemma checkHunks_None:
  "checkHunks i hs = None \<Longrightarrow> \<forall>h\<in>set hs. list_all knownOp (hBody h) \<and>
     hOldCount h = int (length (oldSide (hBody h))) \<and> hNewCount h = int (length (newSide (hBody h)))"
proof (induction i hs rule: checkHunks.induct)
  case (2 i h hs)
  then have f: "find (\<lambda>l. \<not> knownOp l) (hBody h) = None" by (cases "find (\<lambda>l. \<not> knownOp l) (hBody h)") simp_all
  with 2(2) have c: "hOldCount h = int (length (filter onOld (hBody h)))" "hNewCount h = int (length (filter onNew (hBody h)))"
    "checkHunks (Suc i) hs = None" by (simp_all add: Let_def split: if_splits)
  have "list_all knownOp (hBody h)" using f by (simp add: find_None_iff list_all_iff)
  with c 2(1) [OF f refl refl] show ?case by (simp add: oldSide_def newSide_def)
qed simp

lemma parseHunks_InrD:
  assumes "parseHunks diff = Inr hs"
  shows "hs \<noteq> []" "\<forall>h\<in>set hs. list_all knownOp (hBody h)"
    "\<forall>h\<in>set hs. hOldCount h = int (length (oldSide (hBody h))) \<and> hNewCount h = int (length (newSide (hBody h)))"
proof -
  from assms have "hs \<noteq> []" "checkHunks 0 hs = None"
    by (auto simp: parseHunks_def split: prod.splits sum.splits if_splits option.splits)
  with checkHunks_None show "hs \<noteq> []" "\<forall>h\<in>set hs. list_all knownOp (hBody h)"
    "\<forall>h\<in>set hs. hOldCount h = int (length (oldSide (hBody h))) \<and> hNewCount h = int (length (newSide (hBody h)))"
    by blast+
qed

text \<open>C37 (patches land where their headers say). Take a diff of at most fifty changed lines in which every hunk has a
  line of context or a deleted line, or inserts at the start of the text (header \<open>-0,0\<close>). Whenever the text consists of
  unchanged stretches and the old sides of the hunks in order, each at the line its header names, ApplyPatch accepts
  the diff and exchanges every old side for its new side, keeping the stretches: earlier hunks that
  lengthen or shorten the text never displace later ones. (A hunk that inserts after line \<open>k > 0\<close> without any context lands one
  line early: \<open>insertion_early\<close>; so it is excluded.)\<close>

theorem patch_lands_at_headers:
  assumes "parseHunks diff = Inr hs" "trimSpace diff \<noteq> []" "touchedLines hs \<le> 50" "\<forall>h\<in>set hs. \<not> bareInsertion h"
    "splitOn (CHR 0x0A) (unixLines content) = oldText ps tail" "hunksAt 0 ps hs"
  shows "applyPatch content diff = Inr (joinWith [CHR 0x0A] (newText ps tail))"
proof -
  have "applyHunks 0 0 ([] @ oldText ps tail) hs = Inr ([] @ newText ps tail)"
    by (rule applyHunks_edits [OF assms(6)]) (use parseHunks_InrD(2) [OF assms(1)] assms(4) in simp_all)
  with assms(2,3) parseHunks_InrD(1) [OF assms(1)] show ?thesis
    by (simp add: applyPatch_def assms(1,5) MaxPatchLineChanges_def)
qed

text \<open>The lines a hunk takes out and puts in beyond its context.\<close>

definition removedLines :: "string list \<Rightarrow> string multiset" where
  "removedLines body = mset (map payload (filter (\<lambda>l. isChange l \<and> onOld l) body))"

definition addedLines :: "string list \<Rightarrow> string multiset" where
  "addedLines body = mset (map payload (filter (\<lambda>l. isChange l \<and> onNew l) body))"

lemma sides_balance:
  "list_all knownOp body \<Longrightarrow> mset (newSide body) + removedLines body = mset (oldSide body) + addedLines body"
proof (induction body)
  case (Cons l ls)
  then show ?case by (cases l) (auto simp: removedLines_def addedLines_def)
qed (simp add: removedLines_def addedLines_def)

lemma size_changes:
  "list_all knownOp body \<Longrightarrow> size (removedLines body) + size (addedLines body) = length (filter isChange body)"
proof (induction body)
  case (Cons l ls)
  then have IH: "length (filter (\<lambda>l. isChange l \<and> onOld l) ls) + length (filter (\<lambda>l. isChange l \<and> onNew l) ls) =
      length (filter isChange ls)" by (simp add: removedLines_def addedLines_def del: mset_map)
  with Cons.prems show ?case by (cases l) (auto simp: removedLines_def addedLines_def simp del: mset_map mset_filter)
qed (simp add: removedLines_def addedLines_def)

lemma applyHunks_balance:
  assumes "applyHunks hi delta old hs = Inr new"
  shows "\<exists>out ins. mset new + out = mset old + ins \<and> size out + size ins = touchedLines hs"
  using assms
proof (induction hi delta old hs rule: applyHunks.induct)
  case (2 hi delta old h hs)
  then obtain delta' mid where m: "applyHunk hi delta old h = Inr (delta', mid)" "applyHunks (Suc hi) delta' mid hs = Inr new"
    by (auto split: sum.splits prod.splits)
  then obtain out ins where r: "mset new + out = mset mid + ins" "size out + size ins = touchedLines hs"
    using 2 by blast
  from m(1) obtain pre post where h: "old = pre @ oldSide (hBody h) @ post" "mid = pre @ newSide (hBody h) @ post"
    "list_all knownOp (hBody h)" by (rule applyHunk_InrD)
  note b = sides_balance [OF h(3)] and z = size_changes [OF h(3)]
  have "mset mid + removedLines (hBody h) = mset old + addedLines (hBody h)"
    using b by (simp add: h(1,2) union_assoc union_lcomm)
  then have "mset new + (out + removedLines (hBody h)) = mset old + (ins + addedLines (hBody h))"
    using r(1) by (metis union_assoc union_commute)
  moreover have "size (out + removedLines (hBody h)) + size (ins + addedLines (hBody h)) = touchedLines (h # hs)"
    using r(2) z by (simp add: touchedLines_def)
  ultimately show ?case by blast
qed (auto simp: touchedLines_def intro: exI [of _ "{#}"])

text \<open>A patch stays small. Whatever the proposer wrote: if ApplyPatch accepts it, the new text differs from
  the old by taking out some lines and putting in others, at most fifty in all; nothing else of the
  charter is lost or invented.\<close>

theorem patch_is_small:
  assumes "applyPatch content diff = Inr new"
  shows "\<exists>lines out ins. new = joinWith [CHR 0x0A] lines \<and>
    mset lines + out = mset (splitOn (CHR 0x0A) (unixLines content)) + ins \<and> size out + size ins \<le> 50"
proof -
  from assms obtain hs where hs: "touchedLines hs \<le> 50"
    "map_sum id (joinWith [CHR 0x0A]) (applyHunks 0 0 (splitOn (CHR 0x0A) (unixLines content)) hs) = Inr new"
    by (auto simp: applyPatch_def MaxPatchLineChanges_def not_less split: if_splits sum.splits)
  then obtain lines where "touchedLines hs \<le> 50" "new = joinWith [CHR 0x0A] lines"
    "applyHunks 0 0 (splitOn (CHR 0x0A) (unixLines content)) hs = Inr lines"
    by (cases "applyHunks 0 0 (splitOn (CHR 0x0A) (unixLines content)) hs") auto
  with applyHunks_balance [OF this(3)] show ?thesis by metis
qed

text \<open>A hunk that only inserts, with the header diff writes for it (\<open>-k,0\<close>: after line \<open>k\<close>).\<close>

lemma insertion_early:
  assumes "oldSide (hBody h) = []" "list_all knownOp (hBody h)" "hOldStart h = int k" "0 < k" "k \<le> length old"
  shows "applyHunks 0 0 old [h] = Inr (take (k - 1) old @ newSide (hBody h) @ drop (k - 1) old)"
proof -
  have "hunkIndex h 0 = int (length (take (k - 1) old))" using assms(3-5) by (simp add: hunkIndex_def)
  from applyHunk_ok [OF assms(2) this, of 0 "drop (k - 1) old"] assms(1) show ?thesis by simp
qed

definition sampleText :: string where
  "sampleText = joinWith [CHR 0x0A] [''a'', ''b'', ''d'', ''e'', []]"

definition sampleDiff :: string where
  "sampleDiff = joinWith [CHR 0x0A]
     [''@@ -1,2 +1,3 @@'', '' a'', ''-b'', ''+c'', ''+c'', ''@@ -4 +5 @@ heading'', ''-e'', ''+f'']"

definition sampleHunks :: "hunk list" where
  "sampleHunks =
     [\<lparr>hOldStart = 1, hOldCount = 2, hNewStart = 1, hNewCount = 3, hBody = ['' a'', ''-b'', ''+c'', ''+c'']\<rparr>,
      \<lparr>hOldStart = 4, hOldCount = 1, hNewStart = 5, hNewCount = 1, hBody = [''-e'', ''+f'']\<rparr>]"

lemma sample_parse: "parseHunks sampleDiff = Inr sampleHunks" "trimSpace sampleDiff \<noteq> []"
  by code_simp+

theorem patch_lands_at_headers_witness:
  "applyPatch sampleText sampleDiff = Inr (joinWith [CHR 0x0A] [''a'', ''c'', ''c'', ''d'', ''f'', []])"
proof -
  have "splitOn (CHR 0x0A) (unixLines sampleText) =
      oldText [([], ['' a'', ''-b'', ''+c'', ''+c'']), ([''d''], [''-e'', ''+f''])] [[]]" by code_simp
  moreover have "touchedLines sampleHunks \<le> 50" by code_simp
  moreover have "\<forall>h\<in>set sampleHunks. \<not> bareInsertion h" by (simp add: sampleHunks_def bareInsertion_def)
  moreover have "hunksAt 0 [([], ['' a'', ''-b'', ''+c'', ''+c'']), ([''d''], [''-e'', ''+f''])] sampleHunks"
    by (simp add: sampleHunks_def)
  ultimately show ?thesis
    using patch_lands_at_headers [OF sample_parse(1) sample_parse(2)] by fastforce
qed

theorem patch_is_small_witness:
  "\<exists>lines out ins. joinWith [CHR 0x0A] [''a'', ''c'', ''c'', ''d'', ''f'', []] = joinWith [CHR 0x0A] lines \<and>
    mset lines + out = mset (splitOn (CHR 0x0A) (unixLines sampleText)) + ins \<and> size out + size ins \<le> (50::nat)"
proof -
  have "applyPatch sampleText sampleDiff = Inr (joinWith [CHR 0x0A] [''a'', ''c'', ''c'', ''d'', ''f'', []])" by code_simp
  then show ?thesis by (rule patch_is_small)
qed

lemma insertion_lands_one_line_early:
  "applyPatch (joinWith [CHR 0x0A] [''a'', ''b'']) (joinWith [CHR 0x0A] [''@@ -1,0 +2 @@'', ''+x'']) =
     Inr (joinWith [CHR 0x0A] [''x'', ''a'', ''b''])"
  by code_simp

text \<open>A front matter rule cannot be taken out: its line reads as a file header.\<close>

lemma dashed_line_is_noise:
  "applyPatch (joinWith [CHR 0x0A] [''a'', ''--'']) (joinWith [CHR 0x0A] [''@@ -1,2 +1 @@'', '' a'', ''---'']) =
     Inl (PatchOldCount 0 2 1)"
  by code_simp

end
