(* ===== verification/Git_Manager.thy ===== *)
theory Git_Manager
  imports Go_Text "HOL-Library.State_Monad"
begin

text \<open>
  \<open>internal/worktree\<close>: the manager that drives git. Git itself, the file system and the operating
  system's path functions are the record \<open>host\<close>; its answers depend on the step, so that two calls
  may differ. What the manager does to the outside world is recorded: the commands it ran, in which
  directory and whether they succeeded, the directories it removed, and when it held the lock of a
  repository. Path joining is written for cleaned Windows paths.
\<close>

section \<open>The outside world\<close>

text \<open>A failed command: its exit code if it ran, Go's error text, what it printed and its complaints.\<close>

record git_fail =
  gf_exit :: "int option"
  gf_err :: string
  gf_stdout :: string
  gf_stderr :: string

datatype stat_result = StatOk | StatMissing | StatFailed string

record host =
  ho_git :: "nat \<Rightarrow> string \<Rightarrow> string list \<Rightarrow> git_fail + string"
  ho_abs :: "string \<Rightarrow> string + string"
  ho_lower :: "string \<Rightarrow> string"
  ho_stat :: "nat \<Rightarrow> string \<Rightarrow> stat_result"
  ho_parent :: "string \<Rightarrow> string"
  ho_hash :: "string \<Rightarrow> string"
  ho_fallback :: string
  ho_equalFold :: "string \<Rightarrow> string \<Rightarrow> bool"
  ho_mkdir :: "nat \<Rightarrow> string \<Rightarrow> string option"
  ho_removeAll :: "nat \<Rightarrow> string \<Rightarrow> string option"

datatype git_event =
    Ran string "string list" bool
  | MadeDir string bool
  | RemovedAll string bool
  | Locked string
  | Unlocked string

record git_world =
  gw_step :: nat
  gw_log :: "git_event list"

type_synonym 'a git = "(git_world, 'a) state"

definition record' :: "git_event \<Rightarrow> git_world \<Rightarrow> git_world" where
  "record' e w = w\<lparr>gw_step := Suc (gw_step w), gw_log := gw_log w @ [e]\<rparr>"

text \<open>\<open>runGit\<close>; the text of its error carries the arguments.\<close>

definition runGit :: "host \<Rightarrow> string \<Rightarrow> string list \<Rightarrow> (git_fail + string) git" where
  "runGit h dir args = State (\<lambda>w.
     let r = ho_git h (gw_step w) dir args in (r, record' (Ran dir args (isOk r)) w))"

definition failText :: "string list \<Rightarrow> git_fail \<Rightarrow> string" where
  "failText args f = ''git '' @ joinWith '' '' args @ '': '' @ gf_err f @ '': '' @ trimSpace (gf_stderr f)"

definition stat' :: "host \<Rightarrow> string \<Rightarrow> stat_result git" where
  "stat' h p = State (\<lambda>w. (ho_stat h (gw_step w) p, w))"

definition removeAll' :: "host \<Rightarrow> string \<Rightarrow> string option git" where
  "removeAll' h p = State (\<lambda>w.
     let r = ho_removeAll h (gw_step w) p in (r, record' (RemovedAll p (r = None)) w))"

definition mkdirAll :: "host \<Rightarrow> string \<Rightarrow> string option git" where
  "mkdirAll h p = State (\<lambda>w.
     let r = ho_mkdir h (gw_step w) p in (r, record' (MadeDir p (r = None)) w))"

definition logEvent :: "git_event \<Rightarrow> unit git" where
  "logEvent e = State (\<lambda>w. ((), record' e w))"

definition locked :: "host \<Rightarrow> string \<Rightarrow> 'a git \<Rightarrow> 'a git" where
  "locked h repo m = do {
     logEvent (Locked (ho_lower h repo));
     r \<leftarrow> m;
     logEvent (Unlocked (ho_lower h repo));
     State_Monad.return r
   }"

definition joinPath :: "string \<Rightarrow> string \<Rightarrow> string" where
  "joinPath a b = (if a = [] then b else if last a = CHR 0x5C then a @ b else a @ [CHR 0x5C] @ b)"

datatype wt_error =
    WtRequired
  | WtAbs string
  | WtRoot string
  | WtExists string
  | WtAdd git_fail
  | WtConfig string string git_fail
  | WtBothFailed git_fail string
  | WtPrune git_fail
  | WtDeleteBranch string git_fail
  | WtGit git_fail
  | WtStat string
  | WtMissing
  | WtNoDefault
  | WtProbe string wt_error
  | WtHasCommits
  | WtMkdir string
  | WtBaseMissing string git_fail
  | WtSourceMissing string git_fail
  | WtAncestry wt_error
  | WtMainState wt_error
  | WtDirtyBase string
  | WtUpdateRef git_fail
  | WtConflict string
  | WtMergeTree string
  | WtMergeTreeOutput string
  | WtCommitTree git_fail
  | WtRefresh git_fail
  | WtScan

definition branchNamespace :: string where
  "branchNamespace = ''fleetkanban/''"

section \<open>Branches\<close>

definition branchExists :: "host \<Rightarrow> string \<Rightarrow> string \<Rightarrow> (wt_error + bool) git" where
  "branchExists h repo branch =
     (case ho_abs h repo of Inl e \<Rightarrow> State_Monad.return (Inl (WtAbs e))
      | Inr dir \<Rightarrow> do {
          r \<leftarrow> runGit h dir [''show-ref'', ''--verify'', ''--quiet'', ''refs/heads/'' @ branch];
          State_Monad.return (case r of Inr _ \<Rightarrow> Inr True
            | Inl f \<Rightarrow> if gf_exit f = Some 1 then Inr False else Inl (WtGit f))
        })"

definition isBranchMerged :: "host \<Rightarrow> string \<Rightarrow> string \<Rightarrow> string \<Rightarrow> (wt_error + bool) git" where
  "isBranchMerged h repo branch base =
     (if branch = [] \<or> base = [] then State_Monad.return (Inl WtRequired)
      else case ho_abs h repo of Inl e \<Rightarrow> State_Monad.return (Inl (WtAbs e))
      | Inr dir \<Rightarrow> do {
          r \<leftarrow> runGit h dir [''merge-base'', ''--is-ancestor'', ''refs/heads/'' @ branch, ''refs/heads/'' @ base];
          State_Monad.return (case r of Inr _ \<Rightarrow> Inr True
            | Inl f \<Rightarrow> if gf_exit f = Some 1 then Inr False else Inl (WtGit f))
        })"

text \<open>\<open>git branch -D\<close>: an error that says the branch is not there counts as success.\<close>

definition alreadyGone :: "string list \<Rightarrow> git_fail \<Rightarrow> bool" where
  "alreadyGone args f \<longleftrightarrow> contains (failText args f) ''not found'' \<or> contains (failText args f) ''error: branch''"

definition forceDelete :: "host \<Rightarrow> string \<Rightarrow> string \<Rightarrow> wt_error option git" where
  "forceDelete h dir branch = do {
     let args = [''branch'', ''-D'', branch];
     r \<leftarrow> runGit h dir args;
     State_Monad.return (case r of Inr _ \<Rightarrow> None
       | Inl f \<Rightarrow> if alreadyGone args f then None else Some (WtDeleteBranch branch f))
   }"

definition deleteBranch :: "host \<Rightarrow> string \<Rightarrow> string \<Rightarrow> wt_error option git" where
  "deleteBranch h repo branch =
     (if branch = [] then State_Monad.return (Some WtRequired)
      else case ho_abs h repo of Inl e \<Rightarrow> State_Monad.return (Some (WtAbs e))
      | Inr dir \<Rightarrow> locked h dir (forceDelete h dir branch))"

definition deleteBranchIfMerged :: "host \<Rightarrow> string \<Rightarrow> string \<Rightarrow> (wt_error + bool) git" where
  "deleteBranchIfMerged h repo branch =
     (if branch = [] then State_Monad.return (Inl WtRequired)
      else case ho_abs h repo of Inl e \<Rightarrow> State_Monad.return (Inl (WtAbs e))
      | Inr dir \<Rightarrow> locked h dir (do {
          r \<leftarrow> runGit h dir [''branch'', ''-d'', branch];
          State_Monad.return (case r of Inr _ \<Rightarrow> Inr True
            | Inl f \<Rightarrow> if gf_exit f = Some 1 then Inr False else Inl (WtDeleteBranch branch f))
        }))"

definition currentBranch :: "host \<Rightarrow> string \<Rightarrow> (wt_error + string) git" where
  "currentBranch h repo =
     (case ho_abs h repo of Inl e \<Rightarrow> State_Monad.return (Inl (WtAbs e))
      | Inr dir \<Rightarrow> do {
          r \<leftarrow> runGit h dir [''symbolic-ref'', ''--quiet'', ''--short'', ''HEAD''];
          State_Monad.return (case r of Inr out \<Rightarrow> Inr (trimSpace out)
            | Inl f \<Rightarrow> if gf_exit f = Some 1 then Inr [] else Inl (WtGit f))
        })"

definition listBranches :: "host \<Rightarrow> string \<Rightarrow> (wt_error + string list) git" where
  "listBranches h repo =
     (case ho_abs h repo of Inl e \<Rightarrow> State_Monad.return (Inl (WtAbs e))
      | Inr dir \<Rightarrow> do {
          r \<leftarrow> runGit h dir [''for-each-ref'', ''--sort=-committerdate'', ''--format=%(refname:short)'', ''refs/heads/''];
          State_Monad.return (case r of Inl f \<Rightarrow> Inl (WtGit f)
            | Inr out \<Rightarrow> Inr (filter (\<lambda>b. b \<noteq> []) (map trimSpace (splitOn (CHR 0x0A) (trimRightByte (CHR 0x0A) out)))))
        })"

text \<open>The default branch: origin's HEAD, else main, else master, else the current branch if it exists.\<close>

definition originDefault :: "string \<Rightarrow> string option" where
  "originDefault out =
     (let ref = trimSpace out; name = trimPrefix ref ''origin/''
      in if name \<noteq> [] \<and> name \<noteq> ref then Some name else None)"

fun firstExisting :: "host \<Rightarrow> string \<Rightarrow> string list \<Rightarrow> (wt_error + string option) git" where
  "firstExisting h repo [] = State_Monad.return (Inr None)"
| "firstExisting h repo (cand # cands) = do {
     r \<leftarrow> branchExists h repo cand;
     case r of Inl e \<Rightarrow> State_Monad.return (Inl (WtProbe cand e))
     | Inr ok \<Rightarrow> if ok then State_Monad.return (Inr (Some cand)) else firstExisting h repo cands
   }"

definition headDefault :: "host \<Rightarrow> string \<Rightarrow> (wt_error + string) git" where
  "headDefault h dir = do {
     rc \<leftarrow> currentBranch h dir;
     case rc of Inl e \<Rightarrow> State_Monad.return (Inl e)
     | Inr cur \<Rightarrow>
         if cur = [] then State_Monad.return (Inl WtNoDefault)
         else do {
           r \<leftarrow> branchExists h dir cur;
           State_Monad.return (case r of Inl e \<Rightarrow> Inl (WtProbe cur e)
             | Inr ok \<Rightarrow> if \<not> ok then Inl WtNoDefault else Inr cur)
         }
   }"

definition localDefault :: "host \<Rightarrow> string \<Rightarrow> (wt_error + string) git" where
  "localDefault h dir = do {
     r \<leftarrow> firstExisting h dir [''main'', ''master''];
     case r of Inl e \<Rightarrow> State_Monad.return (Inl e)
     | Inr (Some b) \<Rightarrow> State_Monad.return (Inr b)
     | Inr None \<Rightarrow> headDefault h dir
   }"

definition resolveDefaultBranch :: "host \<Rightarrow> string \<Rightarrow> (wt_error + string) git" where
  "resolveDefaultBranch h repo =
     (case ho_abs h repo of Inl e \<Rightarrow> State_Monad.return (Inl (WtAbs e))
      | Inr dir \<Rightarrow> do {
          r \<leftarrow> runGit h dir [''symbolic-ref'', ''--quiet'', ''--short'', ''refs/remotes/origin/HEAD''];
          case (case r of Inl _ \<Rightarrow> None | Inr out \<Rightarrow> originDefault out) of
            Some name \<Rightarrow> State_Monad.return (Inr name)
          | None \<Rightarrow> localDefault h dir
        })"

section \<open>Worktrees\<close>

record create_wt_input =
  cwRepoPath :: string
  cwTaskID :: string
  cwBaseBranch :: string

definition localSettings :: "(string \<times> string) list" where
  "localSettings =
     [(''core.longpaths'', ''true''), (''core.autocrlf'', ''false''), (''core.symlinks'', ''false''),
      (''core.fscache'', ''true''), (''core.preloadindex'', ''true''), (''gc.auto'', ''0'')]"

text \<open>The first failure is reported, every setting is tried.\<close>

fun applySettings :: "host \<Rightarrow> string \<Rightarrow> (string \<times> string) list \<Rightarrow> wt_error option \<Rightarrow> wt_error option git" where
  "applySettings h wt [] firstErr = State_Monad.return firstErr"
| "applySettings h wt ((k, v) # kvs) firstErr = do {
     r \<leftarrow> runGit h wt [''config'', ''--local'', k, v];
     applySettings h wt kvs (case r of Inr _ \<Rightarrow> firstErr
       | Inl f \<Rightarrow> (case firstErr of None \<Rightarrow> Some (WtConfig k v f) | Some e \<Rightarrow> Some e))
   }"

definition applyLocalConfig :: "host \<Rightarrow> string \<Rightarrow> wt_error option git" where
  "applyLocalConfig h wt = do {
     firstErr \<leftarrow> applySettings h wt localSettings None;
     _ \<leftarrow> runGit h wt [''config'', ''--local'', ''core.fsmonitor'', ''true''];
     State_Monad.return firstErr
   }"

text \<open>What was created, if anything, and the error.\<close>

definition addWorktree :: "host \<Rightarrow> string \<Rightarrow> string \<Rightarrow> string \<Rightarrow> string \<Rightarrow> ((string \<times> string) option \<times> wt_error option) git" where
  "addWorktree h dir wt branch base = do {
     r \<leftarrow> runGit h dir [''worktree'', ''add'', wt, ''-b'', branch, base];
     case r of Inl f \<Rightarrow> do {
         _ \<leftarrow> removeAll' h wt;
         State_Monad.return (None, Some (WtAdd f))
       }
     | Inr _ \<Rightarrow> do {
         e \<leftarrow> applyLocalConfig h wt;
         State_Monad.return (Some (wt, branch), e)
       }
   }"

text \<open>Worktrees live beside the repository, or in the manager's own directory when that is not writable.\<close>

definition siblingDirName :: string where
  "siblingDirName = ''.fleetkanban-worktrees''"

definition repoHash :: "host \<Rightarrow> string \<Rightarrow> string" where
  "repoHash h dir = ho_hash h (ho_lower h dir)"

definition rootFor :: "host \<Rightarrow> string \<Rightarrow> (string + string) git" where
  "rootFor h dir = do {
     let primary = joinPath (ho_parent h dir) siblingDirName;
     e \<leftarrow> mkdirAll h primary;
     case e of None \<Rightarrow> State_Monad.return (Inr primary)
     | Some _ \<Rightarrow> do {
         let fb = joinPath (ho_fallback h) (repoHash h dir);
         e' \<leftarrow> mkdirAll h fb;
         State_Monad.return (case e' of None \<Rightarrow> Inr fb | Some m \<Rightarrow> Inl m)
       }
   }"

definition createWorktree :: "host \<Rightarrow> create_wt_input \<Rightarrow> ((string \<times> string) option \<times> wt_error option) git" where
  "createWorktree h inp =
     (if cwRepoPath inp = [] \<or> cwTaskID inp = [] \<or> cwBaseBranch inp = []
        then State_Monad.return (None, Some WtRequired)
      else case ho_abs h (cwRepoPath inp) of Inl e \<Rightarrow> State_Monad.return (None, Some (WtAbs e))
      | Inr dir \<Rightarrow> do {
          rr \<leftarrow> rootFor h dir;
          case rr of Inl e \<Rightarrow> State_Monad.return (None, Some (WtRoot e))
          | Inr root \<Rightarrow> do {
              let wt = joinPath root (cwTaskID inp);
              st \<leftarrow> stat' h wt;
              if st = StatOk then State_Monad.return (None, Some (WtExists wt))
              else locked h dir (addWorktree h dir wt (branchNamespace @ cwTaskID inp) (cwBaseBranch inp))
            }
        })"

datatype remove_worktree_mode = WtKeepBranch | WtDeleteBranchToo

text \<open>When git cannot remove the worktree the directory is removed and git's records are pruned.\<close>

definition fallbackRemove :: "host \<Rightarrow> string \<Rightarrow> string \<Rightarrow> git_fail \<Rightarrow> wt_error option git" where
  "fallbackRemove h dir wt f = do {
     rm \<leftarrow> removeAll' h wt;
     case rm of Some e \<Rightarrow> State_Monad.return (Some (WtBothFailed f e))
     | None \<Rightarrow> do {
         p \<leftarrow> runGit h dir [''worktree'', ''prune''];
         State_Monad.return (case p of Inl f' \<Rightarrow> Some (WtPrune f') | Inr _ \<Rightarrow> None)
       }
   }"

definition removeDirectory :: "host \<Rightarrow> string \<Rightarrow> string \<Rightarrow> wt_error option git" where
  "removeDirectory h dir wt = do {
     r \<leftarrow> runGit h dir [''worktree'', ''remove'', ''--force'', wt];
     case r of Inr _ \<Rightarrow> State_Monad.return None | Inl f \<Rightarrow> fallbackRemove h dir wt f
   }"

definition removeWorktree :: "host \<Rightarrow> string \<Rightarrow> string \<Rightarrow> string \<Rightarrow> remove_worktree_mode \<Rightarrow> wt_error option git" where
  "removeWorktree h repo wt task mode =
     (if repo = [] \<or> wt = [] \<or> task = [] then State_Monad.return (Some WtRequired)
      else case ho_abs h repo of Inl e \<Rightarrow> State_Monad.return (Some (WtAbs e))
      | Inr dir \<Rightarrow> locked h dir (do {
          r \<leftarrow> removeDirectory h dir wt;
          case r of Some e \<Rightarrow> State_Monad.return (Some e)
          | None \<Rightarrow>
              if mode = WtDeleteBranchToo then forceDelete h dir (branchNamespace @ task)
              else State_Monad.return None
        }))"

record wt_info =
  wiPath :: string
  wiHEAD :: string
  wiBranch :: string

definition isTaskBranch :: "wt_info \<Rightarrow> bool" where
  "isTaskBranch i \<longleftrightarrow> hasPrefix (wiBranch i) (''refs/heads/'' @ branchNamespace)"

definition infoTaskID :: "wt_info \<Rightarrow> string" where
  "infoTaskID i =
     (let p = ''refs/heads/'' @ branchNamespace
      in if \<not> hasPrefix (wiBranch i) p then [] else trimPrefix (wiBranch i) p)"

definition noInfo :: wt_info where
  "noInfo = \<lparr>wiPath = [], wiHEAD = [], wiBranch = []\<rparr>"

definition readInfo :: "string \<Rightarrow> wt_info \<Rightarrow> wt_info" where
  "readInfo line i = (case splitOnce (CHR '' '') line of
     (key, Some v) \<Rightarrow>
       if key = ''worktree'' then i\<lparr>wiPath := v\<rparr>
       else if key = ''HEAD'' then i\<lparr>wiHEAD := v\<rparr>
       else if key = ''branch'' then i\<lparr>wiBranch := v\<rparr>
       else i
   | (key, None) \<Rightarrow> i)"

text \<open>Nothing stands for a record no line of which has been read.\<close>

fun parseInfos :: "wt_info list \<Rightarrow> wt_info option \<Rightarrow> string list \<Rightarrow> wt_info list" where
  "parseInfos out cur [] = (case cur of None \<Rightarrow> out | Some i \<Rightarrow> out @ [i])"
| "parseInfos out cur (line # ls) =
     (if line = [] then parseInfos (case cur of None \<Rightarrow> out | Some i \<Rightarrow> out @ [i]) None ls
      else parseInfos out (Some (readInfo line (case cur of None \<Rightarrow> noInfo | Some i \<Rightarrow> i))) ls)"

text \<open>\<open>bufio.MaxScanTokenSize\<close>.\<close>

definition parseWorktreeList :: "string \<Rightarrow> wt_error + wt_info list" where
  "parseWorktreeList data =
     (case scanLines (64 * 1024) data of (ls, tooLong) \<Rightarrow>
        if tooLong then Inl WtScan else Inr (parseInfos [] None ls))"

definition listWorktrees :: "host \<Rightarrow> string \<Rightarrow> (wt_error + wt_info list) git" where
  "listWorktrees h repo =
     (case ho_abs h repo of Inl e \<Rightarrow> State_Monad.return (Inl (WtAbs e))
      | Inr dir \<Rightarrow> do {
          r \<leftarrow> runGit h dir [''worktree'', ''list'', ''--porcelain''];
          State_Monad.return (case r of Inl f \<Rightarrow> Inl (WtGit f) | Inr out \<Rightarrow> parseWorktreeList out)
        })"

section \<open>Repositories\<close>

text \<open>The user's global settings; these two commands run in the process's own directory, written \<open>[]\<close>.\<close>

record global_config_status =
  longPathsOK :: bool
  longPathsVal :: string
  autoCRLFOK :: bool
  autoCRLFVal :: string

definition globalConfigOK :: "global_config_status \<Rightarrow> bool" where
  "globalConfigOK s \<longleftrightarrow> longPathsOK s \<and> autoCRLFOK s"

definition getGlobalConfig :: "host \<Rightarrow> string \<Rightarrow> (wt_error + string) git" where
  "getGlobalConfig h key = do {
     r \<leftarrow> runGit h [] [''config'', ''--global'', ''--get'', key];
     State_Monad.return (case r of Inr out \<Rightarrow> Inr (trimSpace out)
       | Inl f \<Rightarrow> if gf_exit f = Some 1 then Inr [] else Inl (WtGit f))
   }"

definition checkGlobalConfig :: "host \<Rightarrow> (wt_error + global_config_status) git" where
  "checkGlobalConfig h = do {
     r1 \<leftarrow> getGlobalConfig h ''core.longpaths'';
     case r1 of Inl e \<Rightarrow> State_Monad.return (Inl e)
     | Inr lp \<Rightarrow> do {
         r2 \<leftarrow> getGlobalConfig h ''core.autocrlf'';
         State_Monad.return (case r2 of Inl e \<Rightarrow> Inl e
           | Inr cr \<Rightarrow> Inr \<lparr>longPathsOK = ho_equalFold h lp ''true'', longPathsVal = lp,
               autoCRLFOK = ho_equalFold h cr ''false'', autoCRLFVal = cr\<rparr>)
       }
   }"

text \<open>\<open>NewManager\<close>: the fallback directory is required and made.\<close>

definition newManager :: "host \<Rightarrow> wt_error option git" where
  "newManager h =
     (if ho_fallback h = [] then State_Monad.return (Some WtRequired)
      else do {
        e \<leftarrow> mkdirAll h (ho_fallback h);
        State_Monad.return (map_option WtMkdir e)
      })"

definition isGitRepo :: "host \<Rightarrow> string \<Rightarrow> (wt_error + bool) git" where
  "isGitRepo h repo =
     (case ho_abs h repo of Inl e \<Rightarrow> State_Monad.return (Inl (WtAbs e))
      | Inr dir \<Rightarrow> do {
          st \<leftarrow> stat' h dir;
          case st of StatMissing \<Rightarrow> State_Monad.return (Inr False)
          | StatFailed e \<Rightarrow> State_Monad.return (Inl (WtStat e))
          | StatOk \<Rightarrow> do {
              r \<leftarrow> runGit h dir [''rev-parse'', ''--is-inside-work-tree''];
              State_Monad.return (case r of Inr _ \<Rightarrow> Inr True
                | Inl f \<Rightarrow> if gf_exit f \<noteq> None then Inr False else Inl (WtGit f))
            }
        })"

definition initRepo :: "host \<Rightarrow> string \<Rightarrow> wt_error option git" where
  "initRepo h repo =
     (if repo = [] then State_Monad.return (Some WtRequired)
      else case ho_abs h repo of Inl e \<Rightarrow> State_Monad.return (Some (WtAbs e))
      | Inr dir \<Rightarrow> do {
          mk \<leftarrow> mkdirAll h dir;
          case mk of Some e \<Rightarrow> State_Monad.return (Some (WtMkdir e))
          | None \<Rightarrow> do {
              r \<leftarrow> runGit h dir [''init'', ''--initial-branch=main''];
              State_Monad.return (case r of Inl f \<Rightarrow> Some (WtGit f) | Inr _ \<Rightarrow> None)
            }
        })"

definition hasCommits :: "host \<Rightarrow> string \<Rightarrow> (wt_error + bool) git" where
  "hasCommits h repo =
     (case ho_abs h repo of Inl e \<Rightarrow> State_Monad.return (Inl (WtAbs e))
      | Inr dir \<Rightarrow> do {
          r \<leftarrow> runGit h dir [''rev-parse'', ''--verify'', ''--quiet'', ''HEAD''];
          State_Monad.return (case r of Inr _ \<Rightarrow> Inr True
            | Inl f \<Rightarrow> if gf_exit f \<noteq> None then Inr False else Inl (WtGit f))
        })"

text \<open>The identity the manager commits with.\<close>

definition asFleet :: "string list \<Rightarrow> string list" where
  "asFleet args = [''-c'', ''user.name=FleetKanban'', ''-c'', ''user.email=fleetkanban@local''] @ args"

definition createInitialCommit :: "host \<Rightarrow> string \<Rightarrow> wt_error option git" where
  "createInitialCommit h repo =
     (case ho_abs h repo of Inl e \<Rightarrow> State_Monad.return (Some (WtAbs e))
      | Inr dir \<Rightarrow> locked h dir (do {
          hc \<leftarrow> hasCommits h dir;
          case hc of Inl e \<Rightarrow> State_Monad.return (Some e)
          | Inr has \<Rightarrow>
              if has then State_Monad.return (Some WtHasCommits)
              else do {
                r \<leftarrow> runGit h dir (asFleet [''commit'', ''--allow-empty'', ''-m'', ''FleetKanban: initial commit'']);
                State_Monad.return (case r of Inl f \<Rightarrow> Some (WtGit f) | Inr _ \<Rightarrow> None)
              }
        }))"

text \<open>Stages and commits everything; the result says whether there was anything to commit.\<close>

definition commitAll :: "host \<Rightarrow> string \<Rightarrow> string \<Rightarrow> (wt_error + bool) git" where
  "commitAll h dir message = do {
     a \<leftarrow> runGit h dir [''add'', ''-A''];
     case a of Inl f \<Rightarrow> State_Monad.return (Inl (WtGit f))
     | Inr _ \<Rightarrow> do {
         c \<leftarrow> runGit h dir (asFleet [''commit'', ''-m'',
           if message = [] then ''FleetKanban: auto-commit pending changes'' else message]);
         State_Monad.return (case c of Inl f \<Rightarrow> Inl (WtGit f) | Inr _ \<Rightarrow> Inr True)
       }
   }"

definition commitPending :: "host \<Rightarrow> string \<Rightarrow> string \<Rightarrow> (wt_error + bool) git" where
  "commitPending h wt message =
     (if wt = [] then State_Monad.return (Inl WtRequired)
      else case ho_abs h wt of Inl e \<Rightarrow> State_Monad.return (Inl (WtAbs e))
      | Inr dir \<Rightarrow> do {
          sx \<leftarrow> stat' h dir;
          if sx = StatMissing then State_Monad.return (Inl WtMissing)
          else do {
            st \<leftarrow> runGit h dir [''status'', ''--porcelain''];
            case st of Inl f \<Rightarrow> State_Monad.return (Inl (WtGit f))
            | Inr out \<Rightarrow>
                if trimSpace out = [] then State_Monad.return (Inr False)
                else commitAll h dir message
          }
        })"

section \<open>Diffs\<close>

definition mergeBase :: "host \<Rightarrow> string \<Rightarrow> string \<Rightarrow> string \<Rightarrow> (git_fail + string) git" where
  "mergeBase h dir a b = do {
     r \<leftarrow> runGit h dir [''merge-base'', a, b];
     State_Monad.return (map_sum id trimSpace r)
   }"

definition diffAgainst :: "host \<Rightarrow> string \<Rightarrow> string list \<Rightarrow> (wt_error + string) git" where
  "diffAgainst h dir refs = do {
     r \<leftarrow> runGit h dir ([''diff'', ''--no-color''] @ refs);
     State_Monad.return (map_sum WtGit id r)
   }"

definition diffWorktree :: "host \<Rightarrow> string \<Rightarrow> string \<Rightarrow> (wt_error + string) git" where
  "diffWorktree h wt base =
     (if wt = [] \<or> base = [] then State_Monad.return (Inl WtRequired)
      else case ho_abs h wt of Inl e \<Rightarrow> State_Monad.return (Inl (WtAbs e))
      | Inr dir \<Rightarrow> do {
          st \<leftarrow> stat' h dir;
          if st = StatMissing then State_Monad.return (Inl WtMissing)
          else do {
            _ \<leftarrow> runGit h dir [''add'', ''--intent-to-add'', ''--all''];
            mb \<leftarrow> mergeBase h dir base ''HEAD'';
            case mb of Inl _ \<Rightarrow> diffAgainst h dir [base] | Inr m \<Rightarrow> diffAgainst h dir [m]
          }
        })"

definition diffBranch :: "host \<Rightarrow> string \<Rightarrow> string \<Rightarrow> string \<Rightarrow> (wt_error + string) git" where
  "diffBranch h repo base branch =
     (if repo = [] \<or> base = [] \<or> branch = [] then State_Monad.return (Inl WtRequired)
      else case ho_abs h repo of Inl e \<Rightarrow> State_Monad.return (Inl (WtAbs e))
      | Inr dir \<Rightarrow> do {
          mb \<leftarrow> mergeBase h dir base branch;
          case mb of Inl _ \<Rightarrow> diffAgainst h dir [base, branch] | Inr m \<Rightarrow> diffAgainst h dir [m, branch]
        })"

section \<open>Merging and stashing\<close>

datatype merge_result = MergeNoOp | MergeFastForward | MergeCommitNoFF

definition revParse :: "host \<Rightarrow> string \<Rightarrow> string \<Rightarrow> (git_fail + string) git" where
  "revParse h dir ref = do {
     r \<leftarrow> runGit h dir [''rev-parse'', ''--verify'', ''--quiet'', ref];
     State_Monad.return (map_sum id trimSpace r)
   }"

definition isAncestor :: "host \<Rightarrow> string \<Rightarrow> string \<Rightarrow> string \<Rightarrow> (wt_error + bool) git" where
  "isAncestor h dir anc desc = do {
     r \<leftarrow> runGit h dir [''merge-base'', ''--is-ancestor'', anc, desc];
     State_Monad.return (case r of Inr _ \<Rightarrow> Inr True
       | Inl f \<Rightarrow> if gf_exit f = Some 1 then Inr False else Inl (WtGit f))
   }"

definition mainRepoState :: "host \<Rightarrow> string \<Rightarrow> string \<Rightarrow> (wt_error + bool \<times> bool) git" where
  "mainRepoState h dir base = do {
     rc \<leftarrow> currentBranch h dir;
     case rc of Inl e \<Rightarrow> State_Monad.return (Inl e)
     | Inr cur \<Rightarrow> do {
         st \<leftarrow> runGit h dir [''status'', ''--porcelain''];
         State_Monad.return (case st of Inl f \<Rightarrow> Inl (WtGit f)
           | Inr out \<Rightarrow> Inr (cur = base, trimSpace out \<noteq> []))
       }
   }"

text \<open>\<open>merge-tree\<close> exits with 1 on a conflict and lists the conflicted paths after the tree.\<close>

definition conflictText :: "git_fail \<Rightarrow> string" where
  "conflictText f =
     (let text = trimSpace (gf_stdout f);
          text = (case indexOf text [CHR 0x0A, CHR 0x0A] of
             Some i \<Rightarrow> trimSpace (drop (i + 2) text) | None \<Rightarrow> text)
      in if text = [] then trimSpace (gf_stderr f) else text)"

definition mergeTreeWrite :: "host \<Rightarrow> string \<Rightarrow> string \<Rightarrow> string \<Rightarrow> (wt_error + string) git" where
  "mergeTreeWrite h dir base source = do {
     r \<leftarrow> runGit h dir [''merge-tree'', ''--write-tree'', base, source];
     State_Monad.return (case r of
         Inl f \<Rightarrow> if gf_exit f = Some 1 then Inl (WtConflict (conflictText f))
                  else Inl (WtMergeTree (trimSpace (gf_stderr f)))
       | Inr out \<Rightarrow>
           (let line = hd (splitOn (CHR 0x0A) (trimSpace out))
            in if length line < 40 then Inl (WtMergeTreeOutput out) else Inr line))
   }"

definition commitTree :: "host \<Rightarrow> string \<Rightarrow> string \<Rightarrow> string list \<Rightarrow> string \<Rightarrow> (git_fail + string) git" where
  "commitTree h dir tree parents msg = do {
     r \<leftarrow> runGit h dir (asFleet ([''commit-tree'', tree] @ concat (map (\<lambda>p. [''-p'', p]) parents) @ [''-m'', msg]));
     State_Monad.return (map_sum id trimSpace r)
   }"

definition updateRef :: "host \<Rightarrow> string \<Rightarrow> string \<Rightarrow> string \<Rightarrow> string \<Rightarrow> (git_fail + string) git" where
  "updateRef h dir base new old = runGit h dir [''update-ref'', ''refs/heads/'' @ base, new, old]"

text \<open>Advances the base: to the source when it is ahead, else to a new merge commit.\<close>

definition fastForward :: "host \<Rightarrow> string \<Rightarrow> string \<Rightarrow> string \<Rightarrow> string \<Rightarrow> (wt_error + merge_result) git" where
  "fastForward h dir base baseSha sourceSha = do {
     r \<leftarrow> updateRef h dir base sourceSha baseSha;
     State_Monad.return (case r of Inl f \<Rightarrow> Inl (WtUpdateRef f) | Inr _ \<Rightarrow> Inr MergeFastForward)
   }"

definition mergeCommit :: "host \<Rightarrow> string \<Rightarrow> string \<Rightarrow> string \<Rightarrow> string \<Rightarrow> string \<Rightarrow> (wt_error + merge_result) git" where
  "mergeCommit h dir base source baseSha sourceSha = do {
     rt \<leftarrow> mergeTreeWrite h dir baseSha sourceSha;
     case rt of Inl e \<Rightarrow> State_Monad.return (Inl e)
     | Inr tree \<Rightarrow> do {
         rc \<leftarrow> commitTree h dir tree [baseSha, sourceSha]
           (''Merge branch '' @ [CHR 0x27] @ source @ [CHR 0x27] @ '' into '' @ base);
         case rc of Inl f \<Rightarrow> State_Monad.return (Inl (WtCommitTree f))
         | Inr commit \<Rightarrow> do {
             r \<leftarrow> updateRef h dir base commit baseSha;
             State_Monad.return (case r of Inl f \<Rightarrow> Inl (WtUpdateRef f) | Inr _ \<Rightarrow> Inr MergeCommitNoFF)
           }
       }
   }"

definition refreshTree :: "host \<Rightarrow> string \<Rightarrow> merge_result \<Rightarrow> (merge_result \<times> wt_error option) git" where
  "refreshTree h dir result = do {
     r \<leftarrow> runGit h dir [''reset'', ''--hard'', ''HEAD''];
     State_Monad.return (case r of Inl f \<Rightarrow> (result, Some (WtRefresh f)) | Inr _ \<Rightarrow> (result, None))
   }"

definition advanceBase ::
  "host \<Rightarrow> string \<Rightarrow> string \<Rightarrow> string \<Rightarrow> string \<Rightarrow> string \<Rightarrow> bool \<Rightarrow> (merge_result \<times> wt_error option) git" where
  "advanceBase h dir base source baseSha sourceSha onBase = do {
     ff \<leftarrow> isAncestor h dir baseSha sourceSha;
     case ff of Inl e \<Rightarrow> State_Monad.return (MergeNoOp, Some (WtAncestry e))
     | Inr ffOK \<Rightarrow> do {
         r \<leftarrow> (if ffOK then fastForward h dir base baseSha sourceSha
               else mergeCommit h dir base source baseSha sourceSha);
         case r of Inl e \<Rightarrow> State_Monad.return (MergeNoOp, Some e)
         | Inr result \<Rightarrow>
             if onBase then refreshTree h dir result else State_Monad.return (result, None)
       }
   }"

definition mergeChecked ::
  "host \<Rightarrow> string \<Rightarrow> string \<Rightarrow> string \<Rightarrow> string \<Rightarrow> string \<Rightarrow> (merge_result \<times> wt_error option) git" where
  "mergeChecked h dir base source baseSha sourceSha = do {
     rs \<leftarrow> mainRepoState h dir base;
     case rs of Inl e \<Rightarrow> State_Monad.return (MergeNoOp, Some (WtMainState e))
     | Inr (onBase, dirty) \<Rightarrow>
         if onBase \<and> dirty then State_Monad.return (MergeNoOp, Some (WtDirtyBase base))
         else advanceBase h dir base source baseSha sourceSha onBase
   }"

definition mergeLocked :: "host \<Rightarrow> string \<Rightarrow> string \<Rightarrow> string \<Rightarrow> (merge_result \<times> wt_error option) git" where
  "mergeLocked h dir base source = do {
     rb \<leftarrow> revParse h dir (''refs/heads/'' @ base);
     case rb of Inl f \<Rightarrow> State_Monad.return (MergeNoOp, Some (WtBaseMissing base f))
     | Inr baseSha \<Rightarrow> do {
         rs \<leftarrow> revParse h dir (''refs/heads/'' @ source);
         case rs of Inl f \<Rightarrow> State_Monad.return (MergeNoOp, Some (WtSourceMissing source f))
         | Inr sourceSha \<Rightarrow>
             if baseSha = sourceSha then State_Monad.return (MergeNoOp, None)
             else do {
               ra \<leftarrow> isAncestor h dir sourceSha baseSha;
               case ra of Inl e \<Rightarrow> State_Monad.return (MergeNoOp, Some (WtAncestry e))
               | Inr merged \<Rightarrow>
                   if merged then State_Monad.return (MergeNoOp, None)
                   else mergeChecked h dir base source baseSha sourceSha
             }
       }
   }"

definition mergeTask :: "host \<Rightarrow> string \<Rightarrow> string \<Rightarrow> string \<Rightarrow> (merge_result \<times> wt_error option) git" where
  "mergeTask h repo base task =
     (if repo = [] \<or> base = [] \<or> task = [] then State_Monad.return (MergeNoOp, Some WtRequired)
      else case ho_abs h repo of Inl e \<Rightarrow> State_Monad.return (MergeNoOp, Some (WtAbs e))
      | Inr dir \<Rightarrow> locked h dir (mergeLocked h dir base (branchNamespace @ task)))"

text \<open>The label of a stash carries the time, given here.\<close>

definition stashDirty :: "host \<Rightarrow> string \<Rightarrow> string \<Rightarrow> (wt_error + bool \<times> string) git" where
  "stashDirty h now dir = do {
     rs \<leftarrow> mainRepoState h dir [];
     case rs of Inl e \<Rightarrow> State_Monad.return (Inl (WtMainState e))
     | Inr (_, dirty) \<Rightarrow>
         if \<not> dirty then State_Monad.return (Inr (False, ''working tree already clean''))
         else do {
           r \<leftarrow> runGit h dir [''stash'', ''push'', ''--include-untracked'', ''-m'', ''FleetKanban pre-merge stash '' @ now];
           State_Monad.return (case r of Inl f \<Rightarrow> Inl (WtGit f) | Inr out \<Rightarrow> Inr (True, trimSpace out))
         }
   }"

definition stashUncommitted :: "host \<Rightarrow> string \<Rightarrow> string \<Rightarrow> (wt_error + bool \<times> string) git" where
  "stashUncommitted h now repo =
     (if repo = [] then State_Monad.return (Inl WtRequired)
      else case ho_abs h repo of Inl e \<Rightarrow> State_Monad.return (Inl (WtAbs e))
      | Inr dir \<Rightarrow> locked h dir (stashDirty h now dir))"

end
