(* ===== verification/Git_Theorems.thy ===== *)
theory Git_Theorems
  imports Git_Manager Log_Traces
begin

text \<open>
  What the worktree manager does to a repository: which commands a merge may run and when it
  touches a ref or the working tree, and that git's worktree listing is read back as it was written.
\<close>

section \<open>Traces\<close>

text \<open>\<open>traces m T\<close>: \<open>m\<close> only adds to the log, and result, answers and additions satisfy \<open>T\<close>.\<close>

abbreviation traces :: "'a git \<Rightarrow> ('a \<Rightarrow> git_event list \<Rightarrow> bool) \<Rightarrow> bool" where
  "traces \<equiv> logTrace gw_log"

lemmas traces_return = logTrace_return [where lg = gw_log]
lemmas traces_bind = logTrace_bind [where lg = gw_log]
lemmas traces_mono = logTrace_mono [where lg = gw_log]

lemma traces_runGit:
  "traces (runGit h dir args) (\<lambda>r ops. ops = [Ran dir args (isOk r)] \<and> (\<exists>n. ho_git h n dir args = r))"
  by (auto simp: logTrace_def runGit_def record'_def Let_def)

text \<open>The command after git's own options. The others change refs, index, working tree or file system;
  \<open>merge-tree\<close> and \<open>commit-tree\<close> only add objects no ref leads to.\<close>

fun gitVerb :: "string list \<Rightarrow> string" where
  "gitVerb [] = []"
| "gitVerb [a] = a"
| "gitVerb (a # v # rest) = (if a = ''-c'' then gitVerb rest else a)"

definition readers :: "string list" where
  "readers = [''rev-parse'', ''merge-base'', ''symbolic-ref'', ''status'', ''merge-tree'', ''commit-tree'',
     ''show-ref'', ''for-each-ref'', ''diff'']"

fun mutates :: "git_event \<Rightarrow> bool" where
  "mutates (Ran dir args ok) = (gitVerb args \<notin> set readers)"
| "mutates (RemovedAll p ok) = True"
| "mutates (MadeDir p ok) = True"
| "mutates _ = False"

abbreviation silent :: "'a git \<Rightarrow> bool" where
  "silent m \<equiv> traces m (\<lambda>_ ops. filter mutates ops = [])"

lemma silent_git:
  "\<not> mutates (Ran dir args True) \<Longrightarrow> silent (runGit h dir args)"
  by (rule traces_mono [OF traces_runGit]) auto

lemma silent_bind: "silent m \<Longrightarrow> (\<And>x. silent (f x)) \<Longrightarrow> silent (State_Monad.bind m f)"
  by (rule traces_bind) (auto elim: traces_mono)

lemma silent_then:
  assumes "silent m" "\<And>x. traces (f x) (\<lambda>y ops. T y (filter mutates ops))"
  shows "traces (State_Monad.bind m f) (\<lambda>y ops. T y (filter mutates ops))"
  by (rule traces_bind [OF assms(1)]) (use assms(2) in simp)

text \<open>The silent steps of a merge, with what their answers say of the repository.\<close>

definition asked :: "host \<Rightarrow> string \<Rightarrow> string list \<Rightarrow> string \<Rightarrow> bool" where
  "asked h dir args out \<longleftrightarrow> (\<exists>n. ho_git h n dir args = Inr out)"

lemma silent_isAncestor: "silent (isAncestor h dir a b)"
  unfolding isAncestor_def by (intro silent_bind silent_git traces_return) (auto simp: readers_def)

lemma silent_currentBranch: "silent (currentBranch h dir)"
  unfolding currentBranch_def
  by (cases "ho_abs h dir") (auto intro!: silent_bind silent_git traces_return simp: readers_def)

text \<open>A clean base: HEAD was on it and nothing was uncommitted.\<close>

definition cleanCheckout :: "host \<Rightarrow> string \<Rightarrow> string \<Rightarrow> bool" where
  "cleanCheckout h dir base \<longleftrightarrow>
     (\<exists>d cur out. ho_abs h dir = Inr d \<and> asked h d [''symbolic-ref'', ''--quiet'', ''--short'', ''HEAD''] cur \<and> trimSpace cur = base \<and>
        asked h dir [''status'', ''--porcelain''] out \<and> trimSpace out = [])"

lemma traces_currentBranch:
  "traces (currentBranch h dir) (\<lambda>r ops. filter mutates ops = [] \<and>
     (\<forall>b. r = Inr b \<longrightarrow> b = [] \<or> (\<exists>d cur. ho_abs h dir = Inr d \<and>
        asked h d [''symbolic-ref'', ''--quiet'', ''--short'', ''HEAD''] cur \<and> trimSpace cur = b)))"
proof (cases "ho_abs h dir")
  case (Inl e)
  then show ?thesis by (simp add: currentBranch_def traces_return)
next
  case (Inr d)
  then show ?thesis unfolding currentBranch_def
    by simp (rule traces_bind [OF traces_runGit], rule traces_return, auto simp: readers_def asked_def split: sum.splits if_splits)
qed

lemma traces_mainRepoState:
  assumes "base \<noteq> []"
  shows "traces (mainRepoState h dir base) (\<lambda>r ops. filter mutates ops = [] \<and>
     (r = Inr (True, False) \<longrightarrow> cleanCheckout h dir base))"
  unfolding mainRepoState_def
proof (rule traces_bind [OF traces_currentBranch])
  fix x :: "wt_error + string" and ops
  assume u: "filter mutates ops = [] \<and> (\<forall>b. x = Inr b \<longrightarrow> b = [] \<or> (\<exists>d cur. ho_abs h dir = Inr d \<and>
      asked h d [''symbolic-ref'', ''--quiet'', ''--short'', ''HEAD''] cur \<and> trimSpace cur = b))"
  show "traces (case x of Inl e \<Rightarrow> State_Monad.return (Inl e)
      | Inr cur \<Rightarrow> do {
          st \<leftarrow> runGit h dir [''status'', ''--porcelain''];
          State_Monad.return (case st of Inl f \<Rightarrow> Inl (WtGit f) | Inr out \<Rightarrow> Inr (cur = base, trimSpace out \<noteq> [])) })
      (\<lambda>(r :: wt_error + bool \<times> bool) ops'. filter mutates (ops @ ops') = [] \<and> (r = Inr (True, False) \<longrightarrow> cleanCheckout h dir base))"
  proof (cases x)
    case (Inl e)
    with u show ?thesis by (simp add: traces_return)
  next
    case (Inr cur)
    show ?thesis unfolding Inr sum.case
      by (rule traces_bind [OF traces_runGit], rule traces_return)
        (use u Inr assms in \<open>auto simp: readers_def cleanCheckout_def asked_def split: sum.splits\<close>)
  qed
qed

lemma logged_lock:
  fixes h :: host and w :: git_world and r :: "'a" and w' :: git_world
  assumes "traces m T" "run_state (locked h dir m) w = (r, w')"
  shows "\<exists>cmds. gw_log w' = gw_log w @ [Locked (ho_lower h dir)] @ cmds @ [Unlocked (ho_lower h dir)] \<and> T r cmds"
proof -
  let ?w = "record' (Locked (ho_lower h dir)) w"
  obtain x w1 where x: "run_state m ?w = (x, w1)" by fastforce
  then obtain cmds where "gw_log w1 = gw_log ?w @ cmds" "T x cmds"
    using assms(1) unfolding logTrace_def by (metis fst_conv snd_conv)
  moreover have "r = x" "w' = record' (Unlocked (ho_lower h dir)) w1"
    using assms(2) x by (auto simp: locked_def logEvent_def)
  ultimately show ?thesis by (auto simp: record'_def)
qed

section \<open>Merging\<close>

text \<open>Where a merge takes the base that stood at commit \<open>a\<close>: a fast-forward to \<open>b\<close>, the commit of the source,
  when git answered that \<open>a\<close> is one of its ancestors; a merge commit to what git made of the merged tree with
  the parents \<open>a\<close> and \<open>b\<close>.\<close>

definition mergeCommitOf :: "host \<Rightarrow> string \<Rightarrow> string \<Rightarrow> string \<Rightarrow> string \<Rightarrow> string \<Rightarrow> string \<Rightarrow> bool" where
  "mergeCommitOf h dir base source a b c \<longleftrightarrow>
     (\<exists>merged out. asked h dir [''merge-tree'', ''--write-tree'', a, b] merged \<and>
        asked h dir (asFleet [''commit-tree'', hd (splitOn (CHR 0x0A) (trimSpace merged)), ''-p'', a, ''-p'', b, ''-m'',
          ''Merge branch '' @ [CHR 0x27] @ source @ [CHR 0x27] @ '' into '' @ base]) out \<and>
        c = trimSpace out)"

fun newTip :: "host \<Rightarrow> string \<Rightarrow> string \<Rightarrow> string \<Rightarrow> string \<Rightarrow> string \<Rightarrow> merge_result \<Rightarrow> string \<Rightarrow> bool" where
  "newTip h dir base source a b MergeNoOp c = False"
| "newTip h dir base source a b MergeFastForward c =
     (c = b \<and> (\<exists>out. asked h dir [''merge-base'', ''--is-ancestor'', a, b] out))"
| "newTip h dir base source a b MergeCommitNoFF c = mergeCommitOf h dir base source a b c"

text \<open>Git's compare and swap: the base goes to \<open>new\<close> if it still stands at \<open>old\<close>.\<close>

abbreviation moveBase :: "string \<Rightarrow> string \<Rightarrow> string \<Rightarrow> string \<Rightarrow> bool \<Rightarrow> git_event" where
  "moveBase dir base old new ok \<equiv> Ran dir [''update-ref'', ''refs/heads/'' @ base, new, old] ok"

text \<open>What a merge may do to the repository: nothing, or move the base from \<open>a\<close> to its new tip, and then
  bring a clean checkout of the base up to date.\<close>

fun mergeEffect ::
  "host \<Rightarrow> string \<Rightarrow> string \<Rightarrow> string \<Rightarrow> string \<Rightarrow> string \<Rightarrow> merge_result \<times> wt_error option \<Rightarrow> git_event list \<Rightarrow> bool" where
  "mergeEffect h dir base source a b (res, err) ops \<longleftrightarrow>
     (ops = [] \<and> res = MergeNoOp) \<or>
     (\<exists>r c. ops = [moveBase dir base a c False] \<and> newTip h dir base source a b r c \<and> res = MergeNoOp \<and> err \<noteq> None) \<or>
     (\<exists>c. ops = [moveBase dir base a c True] \<and> newTip h dir base source a b res c \<and> err = None) \<or>
     (\<exists>c ok. ops = [moveBase dir base a c True, Ran dir [''reset'', ''--hard'', ''HEAD''] ok] \<and>
        newTip h dir base source a b res c \<and> cleanCheckout h dir base \<and> (ok \<longleftrightarrow> err = None))"

fun movedTo ::
  "host \<Rightarrow> string \<Rightarrow> string \<Rightarrow> string \<Rightarrow> string \<Rightarrow> string \<Rightarrow> wt_error + merge_result \<Rightarrow> git_event list \<Rightarrow> bool" where
  "movedTo h dir base source a b (Inl e) ops \<longleftrightarrow> ops = [] \<or>
     (\<exists>r c. ops = [moveBase dir base a c False] \<and> newTip h dir base source a b r c)"
| "movedTo h dir base source a b (Inr res) ops \<longleftrightarrow>
     (\<exists>c. ops = [moveBase dir base a c True] \<and> newTip h dir base source a b res c)"

lemma newTip_moves: "newTip h dir base source a b res c \<Longrightarrow> res \<noteq> MergeNoOp"
  by (cases res) auto

lemma traces_updateRef:
  "traces (updateRef h dir base new old)
     (\<lambda>r ops. filter mutates ops = [Ran dir [''update-ref'', ''refs/heads/'' @ base, new, old] (isOk r)])"
  unfolding updateRef_def by (rule traces_mono [OF traces_runGit]) (auto simp: readers_def)

lemma traces_isAncestor:
  "traces (isAncestor h dir a b) (\<lambda>r ops. filter mutates ops = [] \<and>
     (r = Inr True \<longrightarrow> (\<exists>out. asked h dir [''merge-base'', ''--is-ancestor'', a, b] out)))"
  unfolding isAncestor_def
  by (rule traces_bind [OF traces_runGit], rule traces_return) (auto simp: readers_def asked_def split: sum.splits if_splits)

lemma traces_mergeTreeWrite:
  "traces (mergeTreeWrite h dir a b) (\<lambda>r ops. filter mutates ops = [] \<and>
     (\<forall>tree. r = Inr tree \<longrightarrow> (\<exists>out. asked h dir [''merge-tree'', ''--write-tree'', a, b] out \<and>
        tree = hd (splitOn (CHR 0x0A) (trimSpace out)))))"
  unfolding mergeTreeWrite_def
  by (rule traces_bind [OF traces_runGit], rule traces_return)
    (auto simp: readers_def asked_def Let_def split: sum.splits if_splits)

lemma traces_commitTree:
  "traces (commitTree h dir tree [a, b] msg) (\<lambda>r ops. filter mutates ops = [] \<and>
     (\<forall>c. r = Inr c \<longrightarrow> (\<exists>out. asked h dir (asFleet [''commit-tree'', tree, ''-p'', a, ''-p'', b, ''-m'', msg]) out \<and>
        c = trimSpace out)))"
  unfolding commitTree_def
  by (rule traces_bind [OF traces_runGit], rule traces_return)
    (auto simp: readers_def asked_def asFleet_def map_sum_def split: sum.splits)

lemma traces_fastForward:
  assumes "\<exists>out. asked h dir [''merge-base'', ''--is-ancestor'', a, b] out"
  shows "traces (fastForward h dir base a b) (\<lambda>r ops. movedTo h dir base source a b r (filter mutates ops))"
proof -
  have "newTip h dir base source a b MergeFastForward b" using assms by simp
  then show ?thesis unfolding fastForward_def
    by (intro traces_bind [OF traces_updateRef] traces_return) (auto simp del: newTip.simps split: sum.splits)
qed

lemma traces_landCommit:
  assumes "mergeCommitOf h dir base source a b commit"
  shows "traces (do {
        r \<leftarrow> updateRef h dir base commit a;
        State_Monad.return (case r of Inl f \<Rightarrow> Inl (WtUpdateRef f) | Inr _ \<Rightarrow> Inr MergeCommitNoFF) })
     (\<lambda>r ops. movedTo h dir base source a b r (filter mutates ops))"
proof -
  have "newTip h dir base source a b MergeCommitNoFF commit" using assms by simp
  then show ?thesis
    by (intro traces_bind [OF traces_updateRef] traces_return) (auto simp del: newTip.simps split: sum.splits)
qed

lemma traces_mergeCommit:
  "traces (mergeCommit h dir base source a b) (\<lambda>r ops. movedTo h dir base source a b r (filter mutates ops))"
  unfolding mergeCommit_def
proof (rule traces_bind [OF traces_mergeTreeWrite])
  fix x :: "wt_error + string" and ops
  let ?msg = "''Merge branch '' @ [CHR 0x27] @ source @ [CHR 0x27] @ '' into '' @ base"
  let ?land = "\<lambda>rc. case rc of Inl f \<Rightarrow> State_Monad.return (Inl (WtCommitTree f))
         | Inr commit \<Rightarrow> do {
             r \<leftarrow> updateRef h dir base commit a;
             State_Monad.return (case r of Inl f \<Rightarrow> Inl (WtUpdateRef f) | Inr _ \<Rightarrow> Inr MergeCommitNoFF) }"
  assume u: "filter mutates ops = [] \<and> (\<forall>tree. x = Inr tree \<longrightarrow> (\<exists>out. asked h dir [''merge-tree'', ''--write-tree'', a, b] out \<and>
        tree = hd (splitOn (CHR 0x0A) (trimSpace out))))"
  have "traces (case x of Inl e \<Rightarrow> State_Monad.return (Inl e)
     | Inr tree \<Rightarrow> State_Monad.bind (commitTree h dir tree [a, b] ?msg) ?land)
     (\<lambda>r ops. movedTo h dir base source a b r (filter mutates ops))"
  proof (cases x)
    case (Inr tree)
    with u obtain out where t: "asked h dir [''merge-tree'', ''--write-tree'', a, b] out"
      "tree = hd (splitOn (CHR 0x0A) (trimSpace out))" by blast
    show ?thesis unfolding Inr sum.case
    proof (rule traces_bind [OF traces_commitTree])
      fix rc :: "git_fail + string" and ops
      assume v: "filter mutates ops = [] \<and> (\<forall>c. rc = Inr c \<longrightarrow>
        (\<exists>out. asked h dir (asFleet [''commit-tree'', tree, ''-p'', a, ''-p'', b, ''-m'', ?msg]) out \<and> c = trimSpace out))"
      have "traces (?land rc) (\<lambda>r ops. movedTo h dir base source a b r (filter mutates ops))"
      proof (cases rc)
        case (Inr commit)
        with v t have "mergeCommitOf h dir base source a b commit" unfolding mergeCommitOf_def by blast
        then show ?thesis unfolding Inr sum.case by (rule traces_landCommit)
      qed (simp add: traces_return)
      with v show "traces (?land rc) (\<lambda>r ops'. movedTo h dir base source a b r (filter mutates (ops @ ops')))"
        by simp
    qed
  qed (simp add: traces_return)
  with u show "traces (case x of Inl e \<Rightarrow> State_Monad.return (Inl e)
     | Inr tree \<Rightarrow> State_Monad.bind (commitTree h dir tree [a, b] ?msg) ?land)
     (\<lambda>r ops'. movedTo h dir base source a b r (filter mutates (ops @ ops')))"
    by simp
qed

abbreviation effectOf where
  "effectOf h dir base source a b \<equiv> (\<lambda>r ops. mergeEffect h dir base source a b r (filter mutates ops))"

lemma traces_stop: "traces (State_Monad.return (MergeNoOp, e)) (effectOf h dir base source a b)"
  by (rule traces_return) simp

lemma traces_settle:
  assumes "onBase \<Longrightarrow> cleanCheckout h dir base" "movedTo h dir base source a b r done"
  shows "traces (case r of Inl e \<Rightarrow> State_Monad.return (MergeNoOp, Some e)
      | Inr result \<Rightarrow> if onBase then refreshTree h dir result else State_Monad.return (result, None))
    (\<lambda>y ops. mergeEffect h dir base source a b y (done @ filter mutates ops))"
proof (cases r)
  case (Inl e)
  with assms(2) show ?thesis by (auto intro!: traces_return)
next
  case (Inr result)
  with assms(2) obtain c where e: "done = [moveBase dir base a c True]" "newTip h dir base source a b result c" by auto
  show ?thesis
  proof (cases onBase)
    case True
    then show ?thesis unfolding Inr sum.case refreshTree_def
      by simp (rule traces_bind [OF traces_runGit], rule traces_return,
        use assms(1) e in \<open>auto simp: readers_def split: sum.splits\<close>)
  qed (use Inr e in \<open>auto intro!: traces_return\<close>)
qed

lemma traces_advanceBase:
  assumes "onBase \<Longrightarrow> cleanCheckout h dir base"
  shows "traces (advanceBase h dir base source a b onBase) (effectOf h dir base source a b)"
  unfolding advanceBase_def
proof (rule traces_bind [OF traces_isAncestor])
  fix x :: "wt_error + bool" and ops
  assume u: "filter mutates ops = [] \<and> (x = Inr True \<longrightarrow> (\<exists>out. asked h dir [''merge-base'', ''--is-ancestor'', a, b] out))"
  let ?go = "case x of Inl e \<Rightarrow> State_Monad.return (MergeNoOp, Some (WtAncestry e))
     | Inr ffOK \<Rightarrow> do {
         r \<leftarrow> (if ffOK then fastForward h dir base a b else mergeCommit h dir base source a b);
         case r of Inl e \<Rightarrow> State_Monad.return (MergeNoOp, Some e)
         | Inr result \<Rightarrow>
             if onBase then refreshTree h dir result else State_Monad.return (result, None) }"
  have "traces ?go (effectOf h dir base source a b)"
  proof (cases x)
    case (Inr ff)
    have m: "traces (if ff then fastForward h dir base a b else mergeCommit h dir base source a b)
        (\<lambda>r ops. movedTo h dir base source a b r (filter mutates ops))"
      using u Inr by (simp add: traces_fastForward traces_mergeCommit)
    show ?thesis unfolding Inr sum.case
      by (rule traces_bind [OF m]) (use traces_settle [OF assms] in simp)
  qed (simp add: traces_stop)
  with u show "traces ?go (\<lambda>y ops'. effectOf h dir base source a b y (ops @ ops'))" by simp
qed

lemma traces_mergeChecked:
  assumes "base \<noteq> []"
  shows "traces (mergeChecked h dir base source a b) (effectOf h dir base source a b)"
  unfolding mergeChecked_def
proof (rule traces_bind [OF traces_mainRepoState [OF assms]])
  fix x :: "wt_error + bool \<times> bool" and ops
  assume u: "filter mutates ops = [] \<and> (x = Inr (True, False) \<longrightarrow> cleanCheckout h dir base)"
  have "traces (case x of Inl e \<Rightarrow> State_Monad.return (MergeNoOp, Some (WtMainState e))
      | Inr (onBase, dirty) \<Rightarrow>
         if onBase \<and> dirty then State_Monad.return (MergeNoOp, Some (WtDirtyBase base))
         else advanceBase h dir base source a b onBase) (effectOf h dir base source a b)"
  proof (cases x)
    case (Inr od)
    obtain on dirty where od: "od = (on, dirty)" by (cases od)
    show ?thesis unfolding Inr od sum.case prod.case
    proof (cases "on \<and> dirty")
      case False
      then have "on \<Longrightarrow> cleanCheckout h dir base" using u Inr od by simp
      then show "traces (if on \<and> dirty then State_Monad.return (MergeNoOp, Some (WtDirtyBase base))
         else advanceBase h dir base source a b on) (effectOf h dir base source a b)"
        unfolding if_not_P [OF False] by (rule traces_advanceBase)
    qed (simp add: traces_stop)
  qed (simp add: traces_stop)
  with u show "traces (case x of Inl e \<Rightarrow> State_Monad.return (MergeNoOp, Some (WtMainState e))
      | Inr (onBase, dirty) \<Rightarrow>
         if onBase \<and> dirty then State_Monad.return (MergeNoOp, Some (WtDirtyBase base))
         else advanceBase h dir base source a b onBase) (\<lambda>y ops'. effectOf h dir base source a b y (ops @ ops'))"
    by simp
qed

text \<open>The two commits of a merge are what git answered to its first two commands: \<open>n\<close> is the step of the first.\<close>

abbreviation tipQuery :: "string \<Rightarrow> string list" where
  "tipQuery branch \<equiv> [''rev-parse'', ''--verify'', ''--quiet'', ''refs/heads/'' @ branch]"

definition mergeRun ::
  "host \<Rightarrow> nat \<Rightarrow> string \<Rightarrow> string \<Rightarrow> string \<Rightarrow> merge_result \<times> wt_error option \<Rightarrow> git_event list \<Rightarrow> bool" where
  "mergeRun h n dir base source r cmds \<longleftrightarrow>
     fst r = MergeNoOp \<and> filter mutates cmds = [] \<or>
     (\<exists>old src rest. ho_git h n dir (tipQuery base) = Inr old \<and> ho_git h (Suc n) dir (tipQuery source) = Inr src \<and>
        cmds = [Ran dir (tipQuery base) True, Ran dir (tipQuery source) True] @ rest \<and>
        mergeEffect h dir base source (trimSpace old) (trimSpace src) r (filter mutates rest))"

lemma run_revParse:
  "run_state (revParse h dir ref) w =
     (let r = ho_git h (gw_step w) dir [''rev-parse'', ''--verify'', ''--quiet'', ref]
      in (map_sum id trimSpace r, record' (Ran dir [''rev-parse'', ''--verify'', ''--quiet'', ref] (isOk r)) w))"
  by (simp add: revParse_def runGit_def Let_def)

lemma traces_afterTips:
  assumes "base \<noteq> []"
  shows "traces (if a = b then State_Monad.return (MergeNoOp, None)
      else do {
        ra \<leftarrow> isAncestor h dir b a;
        case ra of Inl e \<Rightarrow> State_Monad.return (MergeNoOp, Some (WtAncestry e))
        | Inr merged \<Rightarrow> if merged then State_Monad.return (MergeNoOp, None) else mergeChecked h dir base source a b })
    (effectOf h dir base source a b)"
proof -
  have "traces (case ra of Inl e \<Rightarrow> State_Monad.return (MergeNoOp, Some (WtAncestry e))
      | Inr merged \<Rightarrow> if merged then State_Monad.return (MergeNoOp, None) else mergeChecked h dir base source a b)
      (effectOf h dir base source a b)" for ra :: "wt_error + bool"
    by (cases ra) (simp_all add: traces_stop traces_mergeChecked [OF assms])
  then show ?thesis by (simp add: traces_stop silent_then [OF silent_isAncestor])
qed

lemma run_mergeLocked:
  assumes "base \<noteq> []" "run_state (mergeLocked h dir base source) w = (r, w')"
  shows "\<exists>cmds. gw_log w' = gw_log w @ cmds \<and> mergeRun h (gw_step w) dir base source r cmds"
proof (cases "ho_git h (gw_step w) dir (tipQuery base)")
  case (Inl f)
  with assms(2) show ?thesis
    by (auto simp: mergeLocked_def run_revParse Let_def record'_def mergeRun_def readers_def)
next
  case (Inr old)
  note o = Inr
  show ?thesis
  proof (cases "ho_git h (Suc (gw_step w)) dir (tipQuery source)")
    case (Inl f)
    with o assms(2) show ?thesis
      by (auto simp: mergeLocked_def run_revParse Let_def record'_def mergeRun_def readers_def)
  next
    case (Inr src)
    let ?w = "record' (Ran dir (tipQuery source) True) (record' (Ran dir (tipQuery base) True) w)"
    from logTraceD [OF traces_afterTips [OF assms(1)], of "trimSpace old" "trimSpace src" h dir source ?w r w'] o Inr assms(2)
    obtain rest where "gw_log w' = gw_log ?w @ rest"
      "mergeEffect h dir base source (trimSpace old) (trimSpace src) r (filter mutates rest)"
      by (auto simp: mergeLocked_def run_revParse Let_def record'_def)
    with o Inr show ?thesis by (auto simp: mergeRun_def record'_def)
  qed
qed

lemma run_locked:
  assumes "run_state (locked h dir m) w = (r, w')"
  obtains w1 where "run_state m (record' (Locked (ho_lower h dir)) w) = (r, w1)" "w' = record' (Unlocked (ho_lower h dir)) w1"
  using assms by (cases "run_state m (record' (Locked (ho_lower h dir)) w)") (auto simp: locked_def logEvent_def)

text \<open>C29 (a merge is safe). Whatever git and the file system answer: Merge runs its commands holding the lock of
  the repository; the first two ask for the commits of the base and of the task's branch, and of all of them at
  most two change anything. One moves the base branch, by compare and swap, from the commit git answered for it:
  to the commit it answered for the task's branch (a fast-forward, git having answered that the base is its
  ancestor), or to the merge commit git made with these two as parents. The other is \<open>git reset --hard\<close>, which runs only
  after a successful move and only when the base is checked out and git reported nothing uncommitted.
  The task's branch is never touched. On an error no branch has moved, except that the base has
  moved when only the final reset failed.\<close>

theorem merge_is_safe:
  assumes "run_state (mergeTask h repo base task) w = ((res, err), w')"
  shows "\<exists>ops. gw_log w' = gw_log w @ ops \<and>
    (ops = [] \<and> res = MergeNoOp \<or>
     (\<exists>dir cmds. ho_abs h repo = Inr dir \<and> ops = [Locked (ho_lower h dir)] @ cmds @ [Unlocked (ho_lower h dir)] \<and>
        mergeRun h (Suc (gw_step w)) dir base (branchNamespace @ task) (res, err) cmds))"
proof (cases "repo = [] \<or> base = [] \<or> task = []")
  case True
  with assms show ?thesis by (auto simp: mergeTask_def)
next
  case False
  show ?thesis
  proof (cases "ho_abs h repo")
    case (Inl e)
    with assms False show ?thesis by (auto simp: mergeTask_def)
  next
    case (Inr dir)
    with assms False have "run_state (locked h dir (mergeLocked h dir base (branchNamespace @ task))) w = ((res, err), w')"
      by (auto simp: mergeTask_def)
    then obtain w1 where m: "run_state (mergeLocked h dir base (branchNamespace @ task)) (record' (Locked (ho_lower h dir)) w) = ((res, err), w1)"
      "w' = record' (Unlocked (ho_lower h dir)) w1" by (rule run_locked)
    with run_mergeLocked [OF _ m(1)] False obtain cmds where
      "gw_log w1 = gw_log w @ [Locked (ho_lower h dir)] @ cmds"
      "mergeRun h (Suc (gw_step w)) dir base (branchNamespace @ task) (res, err) cmds"
      by (auto simp: record'_def)
    with Inr m(2) show ?thesis by (auto simp: record'_def)
  qed
qed

text \<open>A repository whose base branch is checked out, clean, and two commits behind the task's branch.\<close>

definition oneRepoGit :: "nat \<Rightarrow> string \<Rightarrow> string list \<Rightarrow> git_fail + string" where
  "oneRepoGit n dir args =
     (if args = [''rev-parse'', ''--verify'', ''--quiet'', ''refs/heads/main''] then Inr ''c1''
      else if args = [''rev-parse'', ''--verify'', ''--quiet'', ''refs/heads/fleetkanban/t1''] then Inr ''c3''
      else if args = [''merge-base'', ''--is-ancestor'', ''c3'', ''c1'']
        then Inl \<lparr>gf_exit = Some 1, gf_err = ''exit status 1'', gf_stdout = [], gf_stderr = []\<rparr>
      else if args = [''symbolic-ref'', ''--quiet'', ''--short'', ''HEAD''] then Inr ''main''
      else Inr [])"

definition oneRepo :: host where
  "oneRepo = \<lparr>ho_git = oneRepoGit, ho_abs = Inr, ho_lower = id, ho_stat = \<lambda>_ _. StatOk,
     ho_parent = id, ho_hash = id, ho_fallback = ''f'', ho_equalFold = (=), ho_mkdir = \<lambda>_ _. None, ho_removeAll = \<lambda>_ _. None\<rparr>"

definition freshGit :: git_world where
  "freshGit = \<lparr>gw_step = 0, gw_log = []\<rparr>"

lemmas mergeSteps = mergeTask_def mergeLocked_def mergeChecked_def advanceBase_def fastForward_def refreshTree_def
  revParse_def isAncestor_def mainRepoState_def currentBranch_def updateRef_def locked_def logEvent_def runGit_def
  record'_def

lemma trimmed_oneRepo [simp]:
  "trimSpace ''c1'' = ''c1''" "trimSpace ''c3'' = ''c3''" "trimSpace ''main'' = ''main''" "trimSpace [] = []"
  by code_simp+

lemma oneRepo_merge:
  "fst (run_state (mergeTask oneRepo ''r'' ''main'' ''t1'') freshGit) = (MergeFastForward, None)"
  by (simp add: mergeSteps oneRepo_def oneRepoGit_def freshGit_def branchNamespace_def Let_def)

lemma oneRepo_moves:
  "Ran ''r'' [''update-ref'', ''refs/heads/main'', ''c3'', ''c1''] True
     \<in> set (gw_log (snd (run_state (mergeTask oneRepo ''r'' ''main'' ''t1'') freshGit)))"
  by (simp add: mergeSteps oneRepo_def oneRepoGit_def freshGit_def branchNamespace_def Let_def)

theorem merge_is_safe_witness:
  "Ran ''r'' [''update-ref'', ''refs/heads/main'', ''c3'', ''c1''] True
     \<in> set (gw_log (snd (run_state (mergeTask oneRepo ''r'' ''main'' ''t1'') freshGit))) \<and>
   (\<exists>dir cmds. ho_abs oneRepo ''r'' = Inr dir \<and>
      gw_log (snd (run_state (mergeTask oneRepo ''r'' ''main'' ''t1'') freshGit)) =
        [Locked (ho_lower oneRepo dir)] @ cmds @ [Unlocked (ho_lower oneRepo dir)] \<and>
      mergeRun oneRepo 1 dir ''main'' (branchNamespace @ ''t1'') (MergeFastForward, None) cmds)"
  using merge_is_safe [of oneRepo "''r''" "''main''" "''t1''" freshGit MergeFastForward None, OF prod_eqI] oneRepo_merge oneRepo_moves
  by (auto simp: freshGit_def)

section \<open>Creating and removing worktrees\<close>

text \<open>How the directory of a worktree goes: by git, or by the fallback when git refuses.\<close>

inductive removedBy :: "string \<Rightarrow> string \<Rightarrow> bool \<Rightarrow> git_event list \<Rightarrow> bool" for dir wt where
  byGit: "removedBy dir wt True [Ran dir [''worktree'', ''remove'', ''--force'', wt] True]"
| byHand: "removedBy dir wt True [Ran dir [''worktree'', ''remove'', ''--force'', wt] False, RemovedAll wt True,
    Ran dir [''worktree'', ''prune''] True]"
| stuck: "removedBy dir wt False [Ran dir [''worktree'', ''remove'', ''--force'', wt] False, RemovedAll wt False]"
| unpruned: "removedBy dir wt False [Ran dir [''worktree'', ''remove'', ''--force'', wt] False, RemovedAll wt True,
    Ran dir [''worktree'', ''prune''] False]"

inductive_simps removedBy_simps: "removedBy dir wt ok ops"

lemma traces_removeAll: "traces (removeAll' h p) (\<lambda>r ops. ops = [RemovedAll p (r = None)])"
  by (auto simp: logTrace_def removeAll'_def record'_def Let_def)

lemma traces_mkdirAll: "traces (mkdirAll h p) (\<lambda>r ops. ops = [MadeDir p (r = None)])"
  by (auto simp: logTrace_def mkdirAll_def record'_def Let_def)

lemma traces_fallbackRemove:
  "traces (fallbackRemove h dir wt f)
     (\<lambda>r ops. removedBy dir wt (r = None) (Ran dir [''worktree'', ''remove'', ''--force'', wt] False # ops))"
  unfolding fallbackRemove_def
proof (rule traces_bind [OF traces_removeAll])
  fix x :: "string option" and ops
  assume u: "ops = [RemovedAll wt (x = None)]"
  show "traces (case x of None \<Rightarrow> do {
         p \<leftarrow> runGit h dir [''worktree'', ''prune''];
         State_Monad.return (case p of Inl f' \<Rightarrow> Some (WtPrune f') | Inr _ \<Rightarrow> None)
       } | Some e \<Rightarrow> State_Monad.return (Some (WtBothFailed f e)))
     (\<lambda>r ops'. removedBy dir wt (r = None) (Ran dir [''worktree'', ''remove'', ''--force'', wt] False # ops @ ops'))"
  proof (cases x)
    case None
    with u show ?thesis
      by simp (rule traces_bind [OF traces_runGit], rule traces_return, auto simp: removedBy_simps split: sum.splits)
  qed (use u in \<open>auto intro!: traces_return simp: removedBy_simps\<close>)
qed

lemma traces_removeDirectory: "traces (removeDirectory h dir wt) (\<lambda>r ops. removedBy dir wt (r = None) ops)"
  unfolding removeDirectory_def
proof (rule traces_bind [OF traces_runGit])
  fix x :: "git_fail + string" and ops
  assume u: "ops = [Ran dir [''worktree'', ''remove'', ''--force'', wt] (isOk x)] \<and> (\<exists>n. ho_git h n dir [''worktree'', ''remove'', ''--force'', wt] = x)"
  show "traces (case x of Inl f \<Rightarrow> fallbackRemove h dir wt f | Inr _ \<Rightarrow> State_Monad.return None)
     (\<lambda>r ops'. removedBy dir wt (r = None) (ops @ ops'))"
  proof (cases x)
    case (Inl f)
    with u show ?thesis using traces_fallbackRemove [of h dir wt f] by simp
  qed (use u in \<open>auto intro!: traces_return removedBy.intros\<close>)
qed

lemma traces_forceDelete:
  "traces (forceDelete h dir b) (\<lambda>r ops. \<exists>ok. ops = [Ran dir [''branch'', ''-D'', b] ok] \<and> (ok \<longrightarrow> r = None))"
  unfolding forceDelete_def Let_def
  by (rule traces_bind [OF traces_runGit], rule traces_return) (auto split: sum.splits)

text \<open>Removing a worktree.\<close>

definition removal :: "string \<Rightarrow> string \<Rightarrow> string \<Rightarrow> remove_worktree_mode \<Rightarrow> wt_error option \<Rightarrow> git_event list \<Rightarrow> bool" where
  "removal dir wt task mode r ops \<longleftrightarrow>
     (\<exists>gone. removedBy dir wt gone ops \<and> (gone \<longleftrightarrow> r = None) \<and> (gone \<longrightarrow> mode = WtKeepBranch)) \<or>
     (mode = WtDeleteBranchToo \<and> (\<exists>rm ok. ops = rm @ [Ran dir [''branch'', ''-D'', branchNamespace @ task] ok] \<and>
        removedBy dir wt True rm \<and> (ok \<longrightarrow> r = None)))"

lemma traces_removeBoth:
  "traces (do {
      r \<leftarrow> removeDirectory h dir wt;
      case r of Some e \<Rightarrow> State_Monad.return (Some e)
      | None \<Rightarrow> if mode = WtDeleteBranchToo then forceDelete h dir (branchNamespace @ task) else State_Monad.return None })
     (removal dir wt task mode)"
proof (rule traces_bind [OF traces_removeDirectory])
  fix x :: "wt_error option" and ops
  assume u: "removedBy dir wt (x = None) ops"
  show "traces (case x of Some e \<Rightarrow> State_Monad.return (Some e)
      | None \<Rightarrow> if mode = WtDeleteBranchToo then forceDelete h dir (branchNamespace @ task) else State_Monad.return None)
     (\<lambda>r ops'. removal dir wt task mode r (ops @ ops'))"
  proof (cases x)
    case None
    show ?thesis
    proof (cases mode)
      case WtDeleteBranchToo
      show ?thesis unfolding None WtDeleteBranchToo using u None
        by simp (rule traces_mono [OF traces_forceDelete], fastforce simp: removal_def)
    qed (use u None in \<open>auto intro!: traces_return simp: removal_def\<close>)
  qed (use u in \<open>auto intro!: traces_return simp: removal_def\<close>)
qed

text \<open>C35 (a removal is scoped). Remove runs under the lock of the repository and asks git to remove the named
  worktree. If git refuses, whatever the reason, the named path is removed from the file system, and git's
  records are pruned. The task's branch is deleted only on request and only after the directory is gone;
  no other command runs, and success means that the directory is gone.\<close>

theorem removal_is_scoped:
  assumes "run_state (removeWorktree h repo wt task mode) w = (r, w')"
  shows "\<exists>ops. gw_log w' = gw_log w @ ops \<and>
    (ops = [] \<and> r \<noteq> None \<or>
     (\<exists>dir cmds. ho_abs h repo = Inr dir \<and> ops = [Locked (ho_lower h dir)] @ cmds @ [Unlocked (ho_lower h dir)] \<and>
        removal dir wt task mode r cmds))"
proof (cases "repo = [] \<or> wt = [] \<or> task = []")
  case False
  show ?thesis
  proof (cases "ho_abs h repo")
    case (Inr dir)
    from assms False Inr logged_lock [OF traces_removeBoth [of h dir wt mode task], of h dir w r w'] show ?thesis
      by (auto simp: removeWorktree_def)
  qed (use assms False in \<open>auto simp: removeWorktree_def\<close>)
qed (use assms in \<open>auto simp: removeWorktree_def\<close>)

text \<open>Git does not know the worktree: it answers every command but \<open>prune\<close> with an error.\<close>

definition strangeRepo :: host where
  "strangeRepo = oneRepo\<lparr>ho_git := \<lambda>n dir args.
     if args = [''worktree'', ''prune''] then Inr []
     else Inl \<lparr>gf_exit = Some 128, gf_err = ''exit status 128'', gf_stdout = [], gf_stderr = ''fatal''\<rparr>\<rparr>"

theorem removal_is_scoped_witness:
  "\<exists>w'. run_state (removeWorktree strangeRepo ''r'' ''docs'' ''docs'' WtKeepBranch) freshGit = (None, w') \<and>
     RemovedAll ''docs'' True \<in> set (gw_log w') \<and>
     (\<exists>dir cmds. ho_abs strangeRepo ''r'' = Inr dir \<and>
        gw_log w' = [Locked (ho_lower strangeRepo dir)] @ cmds @ [Unlocked (ho_lower strangeRepo dir)] \<and>
        removal dir ''docs'' ''docs'' WtKeepBranch None cmds)"
proof -
  let ?run = "run_state (removeWorktree strangeRepo ''r'' ''docs'' ''docs'' WtKeepBranch) freshGit"
  have r: "fst ?run = None" and l: "RemovedAll ''docs'' True \<in> set (gw_log (snd ?run))"
    by (simp_all add: removeWorktree_def removeDirectory_def fallbackRemove_def removeAll'_def runGit_def
      locked_def logEvent_def record'_def strangeRepo_def oneRepo_def freshGit_def Let_def)
  have e: "?run = (None, snd ?run)" using r by (simp add: prod_eq_iff)
  from removal_is_scoped [OF e] l show ?thesis
    by (intro exI [of _ "snd ?run"] conjI e l) (auto simp: freshGit_def)
qed

text \<open>Creating one: where it may go, and the commands that make and configure it.\<close>

definition roots :: "host \<Rightarrow> string \<Rightarrow> string set" where
  "roots h dir = {joinPath (ho_parent h dir) siblingDirName, joinPath (ho_fallback h) (repoHash h dir)}"

lemma traces_rootFor:
  "traces (rootFor h dir) (\<lambda>r ops. (\<forall>root. r = Inr root \<longrightarrow> root \<in> roots h dir) \<and> (\<forall>e\<in>set ops. \<exists>p ok. e = MadeDir p ok))"
  unfolding rootFor_def Let_def
proof (rule traces_bind [OF traces_mkdirAll])
  fix x :: "string option" and ops
  assume u: "ops = [MadeDir (joinPath (ho_parent h dir) siblingDirName) (x = None)]"
  show "traces (case x of None \<Rightarrow> State_Monad.return (Inr (joinPath (ho_parent h dir) siblingDirName))
      | Some _ \<Rightarrow> do {
         e' \<leftarrow> mkdirAll h (joinPath (ho_fallback h) (repoHash h dir));
         State_Monad.return (case e' of None \<Rightarrow> Inr (joinPath (ho_fallback h) (repoHash h dir)) | Some m \<Rightarrow> Inl m) })
     (\<lambda>(r :: string + string) ops'. (\<forall>root. r = Inr root \<longrightarrow> root \<in> roots h dir) \<and>
        (\<forall>e\<in>set (ops @ ops'). \<exists>p ok. e = MadeDir p ok))"
  proof (cases x)
    case (Some m)
    show ?thesis unfolding Some option.case
      by (rule traces_bind [OF traces_mkdirAll], rule traces_return) (use u in \<open>auto simp: roots_def split: option.splits\<close>)
  qed (use u in \<open>auto intro!: traces_return simp: roots_def\<close>)
qed

definition configures :: "string \<Rightarrow> git_event \<Rightarrow> bool" where
  "configures wt e \<longleftrightarrow> (\<exists>k v ok. e = Ran wt [''config'', ''--local'', k, v] ok)"

lemma traces_applySettings:
  "traces (applySettings h wt kvs e) (\<lambda>_ ops. list_all (configures wt) ops)"
proof (induction kvs arbitrary: e)
  case (Cons kv kvs)
  obtain k v where "kv = (k, v)" by fastforce
  then show ?case
    by simp (rule traces_bind [OF traces_runGit], rule traces_mono [OF Cons.IH], auto simp: configures_def)
qed (simp add: traces_return)

lemma traces_applyLocalConfig: "traces (applyLocalConfig h wt) (\<lambda>_ ops. list_all (configures wt) ops)"
  unfolding applyLocalConfig_def
  by (rule traces_bind [OF traces_applySettings], rule traces_bind [OF traces_runGit], rule traces_return)
    (auto simp: configures_def)

definition addition :: "string \<Rightarrow> string \<Rightarrow> string \<Rightarrow> string \<Rightarrow> (string \<times> string) option \<times> wt_error option \<Rightarrow> git_event list \<Rightarrow> bool" where
  "addition dir wt branch base r ops \<longleftrightarrow>
     (\<exists>ok. ops = [Ran dir [''worktree'', ''add'', wt, ''-b'', branch, base] False, RemovedAll wt ok] \<and>
        fst r = None \<and> snd r \<noteq> None) \<or>
     (\<exists>cfg. ops = Ran dir [''worktree'', ''add'', wt, ''-b'', branch, base] True # cfg \<and>
        list_all (configures wt) cfg \<and> fst r = Some (wt, branch))"

lemma traces_addWorktree: "traces (addWorktree h dir wt branch base) (addition dir wt branch base)"
  unfolding addWorktree_def
proof (rule traces_bind [OF traces_runGit])
  let ?add = "[''worktree'', ''add'', wt, ''-b'', branch, base]"
  fix x :: "git_fail + string" and ops
  assume u: "ops = [Ran dir ?add (isOk x)] \<and> (\<exists>n. ho_git h n dir ?add = x)"
  show "traces (case x of Inl f \<Rightarrow> do { _ \<leftarrow> removeAll' h wt; State_Monad.return (None, Some (WtAdd f)) }
      | Inr _ \<Rightarrow> do { e \<leftarrow> applyLocalConfig h wt; State_Monad.return (Some (wt, branch), e) })
     (\<lambda>r ops'. addition dir wt branch base r (ops @ ops'))"
  proof (cases x)
    case (Inl f)
    show ?thesis unfolding Inl sum.case
      by (rule traces_bind [OF traces_removeAll], rule traces_return) (use u Inl in \<open>auto simp: addition_def\<close>)
  next
    case (Inr out)
    show ?thesis unfolding Inr sum.case
      by (rule traces_bind [OF traces_applyLocalConfig], rule traces_return) (use u Inr in \<open>auto simp: addition_def\<close>)
  qed
qed

lemma traces_locked:
  assumes "traces m T"
  shows "traces (locked h dir m) (\<lambda>r ops. \<exists>cmds. ops = [Locked (ho_lower h dir)] @ cmds @ [Unlocked (ho_lower h dir)] \<and> T r cmds)"
  using logged_lock [OF assms, of h dir] unfolding logTrace_def by (metis prod.collapse)

lemma traces_stat: "traces (stat' h p) (\<lambda>r ops. ops = [] \<and> (\<exists>n. ho_stat h n p = r))"
  by (auto simp: logTrace_def stat'_def)

definition onlyMade :: "git_event list \<Rightarrow> bool" where
  "onlyMade ops \<longleftrightarrow> (\<forall>e\<in>set ops. \<exists>p ok. e = MadeDir p ok)"

definition creation :: "host \<Rightarrow> create_wt_input \<Rightarrow> (string \<times> string) option \<times> wt_error option \<Rightarrow> git_event list \<Rightarrow> bool" where
  "creation h inp r ops \<longleftrightarrow>
     (onlyMade ops \<and> fst r = None \<and> snd r \<noteq> None) \<or>
     (\<exists>dir root made cmds.
        ho_abs h (cwRepoPath inp) = Inr dir \<and> root \<in> roots h dir \<and>
        (\<exists>n. ho_stat h n (joinPath root (cwTaskID inp)) \<noteq> StatOk) \<and> onlyMade made \<and>
        ops = made @ [Locked (ho_lower h dir)] @ cmds @ [Unlocked (ho_lower h dir)] \<and>
        addition dir (joinPath root (cwTaskID inp)) (branchNamespace @ cwTaskID inp) (cwBaseBranch inp) r cmds)"

lemma traces_createAt:
  assumes "ho_abs h (cwRepoPath inp) = Inr dir" "root \<in> roots h dir" "onlyMade made"
  shows "traces (do {
      st \<leftarrow> stat' h (joinPath root (cwTaskID inp));
      if st = StatOk then State_Monad.return (None, Some (WtExists (joinPath root (cwTaskID inp))))
      else locked h dir (addWorktree h dir (joinPath root (cwTaskID inp)) (branchNamespace @ cwTaskID inp) (cwBaseBranch inp)) })
     (\<lambda>r ops. creation h inp r (made @ ops))"
proof (rule traces_bind [OF traces_stat])
  let ?wt = "joinPath root (cwTaskID inp)"
  fix st and ops :: "git_event list"
  assume u: "ops = [] \<and> (\<exists>n. ho_stat h n ?wt = st)"
  show "traces (if st = StatOk then State_Monad.return (None, Some (WtExists ?wt))
      else locked h dir (addWorktree h dir ?wt (branchNamespace @ cwTaskID inp) (cwBaseBranch inp)))
     (\<lambda>r ops'. creation h inp r (made @ ops @ ops'))"
  proof (cases "st = StatOk")
    case False
    show ?thesis
      by (simp only: False if_False, rule traces_mono [OF traces_locked [OF traces_addWorktree]])
        (use u False assms in \<open>auto simp: creation_def\<close>)
  qed (use u assms in \<open>auto intro!: traces_return simp: creation_def\<close>)
qed

lemma traces_createWorktree: "traces (createWorktree h inp) (creation h inp)"
proof (cases "cwRepoPath inp = [] \<or> cwTaskID inp = [] \<or> cwBaseBranch inp = []")
  case True
  then show ?thesis by (simp add: createWorktree_def traces_return creation_def onlyMade_def)
next
  case False
  show ?thesis
  proof (cases "ho_abs h (cwRepoPath inp)")
    case (Inl e)
    with False show ?thesis by (auto intro!: traces_return simp: createWorktree_def creation_def onlyMade_def)
  next
    case (Inr dir)
    have "traces (case rr of Inl e \<Rightarrow> State_Monad.return (None, Some (WtRoot e))
        | Inr root \<Rightarrow> do {
            st \<leftarrow> stat' h (joinPath root (cwTaskID inp));
            if st = StatOk then State_Monad.return (None, Some (WtExists (joinPath root (cwTaskID inp))))
            else locked h dir (addWorktree h dir (joinPath root (cwTaskID inp)) (branchNamespace @ cwTaskID inp) (cwBaseBranch inp)) })
       (\<lambda>r ops'. creation h inp r (ops @ ops'))"
      if "(\<forall>root. rr = Inr root \<longrightarrow> root \<in> roots h dir) \<and> (\<forall>e\<in>set ops. \<exists>p ok. e = MadeDir p ok)"
      for rr :: "string + string" and ops
    proof (cases rr)
      case (Inr root)
      show ?thesis unfolding Inr sum.case
        by (rule traces_createAt) (use that Inr \<open>ho_abs h (cwRepoPath inp) = Inr dir\<close> in \<open>simp_all add: onlyMade_def\<close>)
    qed (use that in \<open>auto intro!: traces_return simp: creation_def onlyMade_def\<close>)
    from traces_bind [OF traces_rootFor this] False Inr show ?thesis
      by (simp add: createWorktree_def Let_def)
  qed
qed

text \<open>A creation is confined. Create makes the directory for worktrees beside the repository or in the
  manager's own directory, and adds the task's worktree below it only after stat did not find it there. The
  only git commands are the \<open>worktree add\<close> with the task's branch, under the lock, and then settings of the new
  worktree; the worktree is reported exactly when it was added, also when a setting failed. Only
  after a failed \<open>add\<close> is anything removed, and then only that worktree's path.\<close>

theorem creation_is_confined:
  assumes "run_state (createWorktree h inp) w = (r, w')"
  shows "\<exists>ops. gw_log w' = gw_log w @ ops \<and> creation h inp r ops"
  using traces_createWorktree [of h inp] assms unfolding logTrace_def by (metis fst_conv snd_conv)

definition emptySpot :: host where
  "emptySpot = oneRepo\<lparr>ho_stat := \<lambda>_ _. StatMissing, ho_git := \<lambda>n dir args.
     if hd args = ''config'' then Inl \<lparr>gf_exit = Some 255, gf_err = [], gf_stdout = [], gf_stderr = ''locked''\<rparr>
     else Inr []\<rparr>"

definition makeT1 :: create_wt_input where
  "makeT1 = \<lparr>cwRepoPath = ''r'', cwTaskID = ''t1'', cwBaseBranch = ''main''\<rparr>"

lemma emptySpot_creates:
  "fst (fst (run_state (createWorktree emptySpot makeT1) freshGit)) =
     Some (joinPath (joinPath ''r'' siblingDirName) ''t1'', ''fleetkanban/t1'')"
  "snd (fst (run_state (createWorktree emptySpot makeT1) freshGit)) \<noteq> None"
  by (simp_all add: createWorktree_def rootFor_def mkdirAll_def stat'_def addWorktree_def applyLocalConfig_def
    localSettings_def runGit_def locked_def logEvent_def record'_def emptySpot_def makeT1_def oneRepo_def freshGit_def
    branchNamespace_def Let_def)

theorem creation_is_confined_witness:
  "creation emptySpot makeT1 (fst (run_state (createWorktree emptySpot makeT1) freshGit))
      (gw_log (snd (run_state (createWorktree emptySpot makeT1) freshGit))) \<and>
   fst (fst (run_state (createWorktree emptySpot makeT1) freshGit)) =
     Some (joinPath (joinPath ''r'' siblingDirName) ''t1'', ''fleetkanban/t1'') \<and>
   snd (fst (run_state (createWorktree emptySpot makeT1) freshGit)) \<noteq> None"
  using creation_is_confined [OF surjective_pairing, of emptySpot makeT1 freshGit] emptySpot_creates
  by (simp add: freshGit_def)

section \<open>Git's worktree listing\<close>

text \<open>The listing as git prints it: a path, then \<open>bare\<close>, or a commit and a branch or \<open>detached\<close>.\<close>

definition printedInfo :: "wt_info \<Rightarrow> string list" where
  "printedInfo i =
     [''worktree '' @ wiPath i] @
     (if wiHEAD i = [] then [''bare'']
      else [''HEAD '' @ wiHEAD i, if wiBranch i = [] then ''detached'' else ''branch '' @ wiBranch i]) @ [[]]"

definition printedList :: "wt_info list \<Rightarrow> string" where
  "printedList infos = concat (map (\<lambda>l. l @ [CHR 0x0A]) (concat (map printedInfo infos)))"

definition printable :: "wt_info \<Rightarrow> bool" where
  "printable i \<longleftrightarrow> (wiHEAD i = [] \<longrightarrow> wiBranch i = []) \<and>
     (\<forall>l\<in>set (printedInfo i). CHR 0x0A \<notin> set l \<and> (l \<noteq> [] \<longrightarrow> last l \<noteq> CHR 0x0D) \<and> length l < 65536)"

lemma splitOn_lines: "\<forall>l\<in>set ls. c \<notin> set l \<Longrightarrow> splitOn c (concat (map (\<lambda>l. l @ [c]) ls)) = ls @ [[]]"
  by (induction ls) (auto simp: splitOn_append)

lemma scan_printed:
  assumes "\<forall>l\<in>set ls. CHR 0x0A \<notin> set l \<and> (l \<noteq> [] \<longrightarrow> last l \<noteq> CHR 0x0D) \<and> length l < 65536"
  shows "scanLines (64 * 1024) (concat (map (\<lambda>l. l @ [CHR 0x0A]) ls)) = (ls, False)"
proof -
  have "map dropCR ls = ls" by (rule map_idI) (use assms in \<open>auto simp: dropCR_def\<close>)
  then show ?thesis using assms splitOn_lines [of ls "CHR 0x0A"]
    by (simp add: scanLines_def Let_def takeWhile_eq_all_conv [THEN iffD2])
qed

lemma readInfo_fields:
  "readInfo (''worktree '' @ v) i = i\<lparr>wiPath := v\<rparr>" "readInfo (''HEAD '' @ v) i = i\<lparr>wiHEAD := v\<rparr>"
  "readInfo (''branch '' @ v) i = i\<lparr>wiBranch := v\<rparr>" "readInfo ''bare'' i = i" "readInfo ''detached'' i = i"
  by (simp_all add: readInfo_def splitOnce_def hasPrefix_def)

lemma parse_printed:
  "(wiHEAD i = [] \<longrightarrow> wiBranch i = []) \<Longrightarrow> parseInfos out None (printedInfo i @ ls) = parseInfos (out @ [i]) None ls"
  by (cases i) (auto simp: printedInfo_def readInfo_fields [simplified] noInfo_def)

text \<open>C36 (the listing is read back). What git prints for any worktrees, bare and detached ones included, is
  read back as exactly these worktrees, as long as no path contains a line feed or ends with a carriage
  return and no line has 65536 bytes or more.\<close>

theorem listing_read_back:
  assumes "\<forall>i\<in>set infos. printable i"
  shows "parseWorktreeList (printedList infos) = Inr infos"
proof -
  have "parseInfos out None (concat (map printedInfo infos)) = out @ infos" for out
    using assms by (induction infos arbitrary: out) (auto simp: parse_printed printable_def)
  moreover have "scanLines (64 * 1024) (printedList infos) = (concat (map printedInfo infos), False)"
    unfolding printedList_def by (rule scan_printed) (use assms in \<open>auto simp: printable_def\<close>)
  ultimately show ?thesis by (simp add: parseWorktreeList_def)
qed

theorem listing_read_back_witness:
  "parseWorktreeList (printedList
     [\<lparr>wiPath = ''C:/my repo'', wiHEAD = ''3f2a'', wiBranch = ''refs/heads/main''\<rparr>,
      \<lparr>wiPath = ''C:/wt/t1'', wiHEAD = ''91bc'', wiBranch = []\<rparr>, \<lparr>wiPath = ''C:/bare'', wiHEAD = [], wiBranch = []\<rparr>]) =
   Inr [\<lparr>wiPath = ''C:/my repo'', wiHEAD = ''3f2a'', wiBranch = ''refs/heads/main''\<rparr>,
      \<lparr>wiPath = ''C:/wt/t1'', wiHEAD = ''91bc'', wiBranch = []\<rparr>, \<lparr>wiPath = ''C:/bare'', wiHEAD = [], wiBranch = []\<rparr>]"
  by (rule listing_read_back) (simp add: printable_def printedInfo_def)

end
