(* ===== verification/Reaper.thy ===== *)
theory Reaper
  imports Task_Triples Git_Manager
begin

text \<open>
  \<open>internal/reaper/service.go\<close>: housekeeping. \<open>reapOnce\<close> removes worktrees whose task is gone,
  \<open>updateBranchExistence\<close> brings the \<open>branch_exists\<close> flags up to date, \<open>sweepMergedBranches\<close> deletes old
  branches that were merged, \<open>archiveOldEvents\<close> moves the events of old tasks into files. The answers of
  the worktree manager and of the file system are parameters that depend on the step; every call
  to them is recorded with its success. The bytes of an archive, compressed lines of JSON, are the list of
  events encoded into it.
\<close>

section \<open>The reaper's surroundings\<close>

datatype file_call =
    FsMkdir string
  | FsCreate string
  | FsEncode string agent_event
  | FsGzipClose string
  | FsClose string
  | FsRename string string
  | FsRemove string

datatype reap_call =
    AskMerged string string string
  | DeleteMerged string string
  | AskExists string string
  | RemoveOrphan string string string

datatype reap_op = ReapGit reap_call "string + bool" | ReapFile file_call bool

record reaper =
  rx_list :: "nat \<Rightarrow> string \<Rightarrow> string + wt_info list"
  rx_git :: "nat \<Rightarrow> reap_call \<Rightarrow> string + bool"
  rx_fs :: "nat \<Rightarrow> file_call \<Rightarrow> string option"
  rx_vacuum :: "nat \<Rightarrow> string option"
  rx_events :: bool
  rx_archiveDir :: string
  rx_publish :: bool
  rx_stamp :: "time \<Rightarrow> string"
  rx_duration :: "int \<Rightarrow> string"

record reap_world = world +
  w_reaped :: "reap_op list"
  w_broadcast :: "agent_event list"

type_synonym 'a reap = "(reap_world, 'a) state"

datatype reap_error =
    ReapRepos store_error
  | ReapListing string string
  | ReapStore store_error
  | ReapGitFailed string
  | ReapNoEvents
  | ReapNoDir
  | ReapNoAge
  | ReapFs string
  | ReapVacuum string

definition callGitR :: "reaper \<Rightarrow> reap_call \<Rightarrow> (string + bool) reap" where
  "callGitR x op = State (\<lambda>w. let r = rx_git x (w_step w) op in
     (r, (stepped w)\<lparr>w_reaped := w_reaped w @ [ReapGit op r]\<rparr>))"

definition callFs :: "reaper \<Rightarrow> file_call \<Rightarrow> string option reap" where
  "callFs x op = State (\<lambda>w. let r = rx_fs x (w_step w) op in
     (r, (stepped w)\<lparr>w_reaped := w_reaped w @ [ReapFile op (r = None)]\<rparr>))"

definition listWorktreesR :: "reaper \<Rightarrow> string \<Rightarrow> (string + wt_info list) reap" where
  "listWorktreesR x repo = State (\<lambda>w. (rx_list x (w_step w) repo, stepped w))"

definition vacuum :: "reaper \<Rightarrow> string option reap" where
  "vacuum x = State (\<lambda>w. (rx_vacuum x (w_step w), stepped w))"

definition broadcast :: "reaper \<Rightarrow> agent_event \<Rightarrow> unit reap" where
  "broadcast x e = State (\<lambda>w. ((), if rx_publish x then w\<lparr>w_broadcast := w_broadcast w @ [e]\<rparr> else w))"

text \<open>The first error of a pass is the one it reports.\<close>

definition firstOf :: "'e option \<Rightarrow> 'e \<Rightarrow> 'e option" where
  "firstOf e e' = (case e of None \<Rightarrow> Some e' | Some x \<Rightarrow> Some x)"

section \<open>Orphaned worktrees\<close>

record reap_stats =
  rsRepositories :: int
  rsWorktreesRemoved :: int
  rsBranchesMarkedMissing :: int

fun reapInfos ::
  "reaper \<Rightarrow> string \<Rightarrow> wt_info list \<Rightarrow> reap_stats \<times> reap_error option \<Rightarrow> (reap_stats \<times> reap_error option) reap" where
  "reapInfos x repo [] (st, firstErr) = State_Monad.return (st, firstErr)"
| "reapInfos x repo (i # is) (st, firstErr) =
     (if \<not> isTaskBranch i then reapInfos x repo is (st, firstErr)
      else do {
        rt \<leftarrow> mTaskGet CallCtx (infoTaskID i);
        case rt of Inr _ \<Rightarrow> reapInfos x repo is (st, firstErr)
        | Inl e \<Rightarrow>
            if e \<noteq> ENotFound then reapInfos x repo is (st, firstOf firstErr (ReapStore e))
            else do {
              rm \<leftarrow> callGitR x (RemoveOrphan repo (wiPath i) (infoTaskID i));
              case rm of Inl m \<Rightarrow> reapInfos x repo is (st, firstOf firstErr (ReapGitFailed m))
              | Inr _ \<Rightarrow> reapInfos x repo is (st\<lparr>rsWorktreesRemoved := rsWorktreesRemoved st + 1\<rparr>, firstErr)
            }
      })"

definition reapRepo :: "reaper \<Rightarrow> string \<Rightarrow> reap_stats \<Rightarrow> (reap_stats \<times> reap_error option) reap" where
  "reapRepo x repo st = do {
     rl \<leftarrow> listWorktreesR x repo;
     case rl of Inl m \<Rightarrow> State_Monad.return (st, Some (ReapListing repo m))
     | Inr infos \<Rightarrow> reapInfos x repo infos (st, None)
   }"

fun reapRepos ::
  "reaper \<Rightarrow> repository list \<Rightarrow> reap_stats \<times> reap_error option \<Rightarrow> (reap_stats \<times> reap_error option) reap" where
  "reapRepos x [] (st, firstErr) = State_Monad.return (st, firstErr)"
| "reapRepos x (r # rs) (st, firstErr) = do {
     (st', err) \<leftarrow> reapRepo x (rPath r) (st\<lparr>rsRepositories := rsRepositories st + 1\<rparr>);
     reapRepos x rs (st', case err of None \<Rightarrow> firstErr | Some e \<Rightarrow> firstOf firstErr e)
   }"

definition noReaps :: reap_stats where
  "noReaps = \<lparr>rsRepositories = 0, rsWorktreesRemoved = 0, rsBranchesMarkedMissing = 0\<rparr>"

definition reapOnce :: "reaper \<Rightarrow> (reap_stats \<times> reap_error option) reap" where
  "reapOnce x = do {
     rr \<leftarrow> mRepoList CallCtx;
     case rr of Inl e \<Rightarrow> State_Monad.return (noReaps, Some (ReapRepos e))
     | Inr repos \<Rightarrow> reapRepos x repos (noReaps, None)
   }"

section \<open>Events of the reaper\<close>

definition emitBranchGC :: "reaper \<Rightarrow> string \<Rightarrow> payload \<Rightarrow> store_error option reap" where
  "emitBranchGC x i body =
     (if \<not> rx_events x then State_Monad.return None
      else do {
        rs \<leftarrow> mNextSeq CallCtx i;
        case rs of Inl e \<Rightarrow> State_Monad.return (Some e)
        | Inr seq \<Rightarrow> do {
            u \<leftarrow> newULID;
            now \<leftarrow> readClock;
            let ev = (blankEvent EventHousekeepingBranchGC body)\<lparr>eID := u, eTaskID := i, eSeq := seq, eOccurredAt := now\<rparr>;
            ra \<leftarrow> mEventAppend CallCtx ev;
            case ra of Inl e \<Rightarrow> State_Monad.return (Some e)
            | Inr _ \<Rightarrow> do { broadcast x ev; State_Monad.return None }
          }
      })"

definition appendSweepEvent :: "reaper \<Rightarrow> task \<Rightarrow> int \<Rightarrow> store_error option reap" where
  "appendSweepEvent x t olderThan =
     emitBranchGC x (tID t) (PBranchSweep (tBranch t) (tBaseBranch t) ''merged-sweep'' (rx_duration x olderThan))"

definition appendBranchExistsChangeEvent :: "reaper \<Rightarrow> task \<Rightarrow> bool \<Rightarrow> store_error option reap" where
  "appendBranchExistsChangeEvent x t nowExists =
     emitBranchGC x (tID t) (PBranchFlag (tBranch t) (tBaseBranch t)
       (if nowExists then ''restored'' else ''missing'') nowExists)"

section \<open>Branch flags\<close>

text \<open>The path of a repository, looked up once per pass.\<close>

type_synonym repo_cache = "(string \<times> string) list"

definition cachedPath :: "repo_cache \<Rightarrow> string \<Rightarrow> (store_error + string \<times> repo_cache) reap" where
  "cachedPath cache rid =
     (case map_of cache rid of Some p \<Rightarrow> State_Monad.return (Inr (p, cache))
      | None \<Rightarrow> do {
          rr \<leftarrow> mRepoGet CallCtx rid;
          State_Monad.return (map_sum id (\<lambda>r. (rPath r, (rid, rPath r) # cache)) rr)
        })"

definition flagBranch :: "reaper \<Rightarrow> task \<Rightarrow> bool \<Rightarrow> reap_error option \<Rightarrow> reap_error option reap" where
  "flagBranch x t exists firstErr =
     (if exists = tBranchExists t then State_Monad.return firstErr
      else do {
        rs \<leftarrow> mSetBranchExists CallCtx (tID t) exists;
        case rs of Inl e \<Rightarrow> State_Monad.return (firstOf firstErr (ReapStore e))
        | Inr _ \<Rightarrow> do {
            _ \<leftarrow> appendBranchExistsChangeEvent x t exists;
            State_Monad.return firstErr
          }
      })"

fun flagBranches :: "reaper \<Rightarrow> repo_cache \<Rightarrow> task list \<Rightarrow> reap_error option \<Rightarrow> reap_error option reap" where
  "flagBranches x cache [] firstErr = State_Monad.return firstErr"
| "flagBranches x cache (t # ts) firstErr =
     (if tBranch t = [] then flagBranches x cache ts firstErr
      else do {
        rp \<leftarrow> cachedPath cache (tRepoID t);
        case rp of Inl e \<Rightarrow> flagBranches x cache ts (firstOf firstErr (ReapStore e))
        | Inr (repo, cache') \<Rightarrow> do {
            re \<leftarrow> callGitR x (AskExists repo (tBranch t));
            case re of Inl m \<Rightarrow> flagBranches x cache' ts (firstOf firstErr (ReapGitFailed m))
            | Inr exists \<Rightarrow> do {
                err \<leftarrow> flagBranch x t exists firstErr;
                flagBranches x cache' ts err
              }
          }
      })"

definition updateBranchExistence :: "reaper \<Rightarrow> reap_error option reap" where
  "updateBranchExistence x = do {
     rl \<leftarrow> mTaskList CallCtx \<lparr>fRepoID = [], fStatuses = [], fLimit = 0, fAscending = False\<rparr>;
     case rl of Inl e \<Rightarrow> State_Monad.return (Some (ReapStore e))
     | Inr ts \<Rightarrow> flagBranches x [] ts None
   }"

section \<open>Merged branches\<close>

record sweep_stats =
  ssConsidered :: int
  ssBranchesDeleted :: int
  ssBranchesSkipped :: int

text \<open>Finished, and not after the cutoff.\<close>

definition oldEnough :: "int \<Rightarrow> task \<Rightarrow> bool" where
  "oldEnough cutoff t = (case tFinishedAt t of None \<Rightarrow> False | Some f \<Rightarrow> int f \<le> cutoff)"

definition sweepable :: "int \<Rightarrow> task \<Rightarrow> bool" where
  "sweepable cutoff t \<longleftrightarrow> tBranch t \<noteq> [] \<and> tBranchExists t \<and> tBaseBranch t \<noteq> [] \<and> oldEnough cutoff t"

definition noteSweep :: "reaper \<Rightarrow> task \<Rightarrow> int \<Rightarrow> reap_error option \<Rightarrow> reap_error option reap" where
  "noteSweep x t olderThan firstErr = do {
     rs \<leftarrow> mSetBranchExists CallCtx (tID t) False;
     let firstErr = (case rs of Inl e \<Rightarrow> firstOf firstErr (ReapStore e) | Inr _ \<Rightarrow> firstErr);
     if rx_events x then do {
       ra \<leftarrow> appendSweepEvent x t olderThan;
       State_Monad.return (case ra of Some e \<Rightarrow> firstOf firstErr (ReapStore e) | None \<Rightarrow> firstErr)
     }
     else State_Monad.return firstErr
   }"

definition sweepBranch ::
  "reaper \<Rightarrow> int \<Rightarrow> task \<Rightarrow> string \<Rightarrow> sweep_stats \<times> reap_error option \<Rightarrow> (sweep_stats \<times> reap_error option) reap" where
  "sweepBranch x olderThan t repo = (\<lambda>(st, firstErr). do {
     let st = st\<lparr>ssConsidered := ssConsidered st + 1\<rparr>;
     let skipped = st\<lparr>ssBranchesSkipped := ssBranchesSkipped st + 1\<rparr>;
     rm \<leftarrow> callGitR x (AskMerged repo (tBranch t) (tBaseBranch t));
     case rm of Inl m \<Rightarrow> State_Monad.return (st, firstOf firstErr (ReapGitFailed m))
     | Inr merged \<Rightarrow>
         if \<not> merged then State_Monad.return (skipped, firstErr)
         else do {
           rd \<leftarrow> callGitR x (DeleteMerged repo (tBranch t));
           case rd of Inl m \<Rightarrow> State_Monad.return (st, firstOf firstErr (ReapGitFailed m))
           | Inr deleted \<Rightarrow>
               if \<not> deleted then State_Monad.return (skipped, firstErr)
               else do {
                 err \<leftarrow> noteSweep x t olderThan firstErr;
                 State_Monad.return (st\<lparr>ssBranchesDeleted := ssBranchesDeleted st + 1\<rparr>, err)
               }
         }
   })"

fun sweepTasks ::
  "reaper \<Rightarrow> int \<Rightarrow> int \<Rightarrow> repo_cache \<Rightarrow> task list \<Rightarrow> sweep_stats \<times> reap_error option \<Rightarrow>
     (sweep_stats \<times> reap_error option) reap" where
  "sweepTasks x olderThan cutoff cache [] acc = State_Monad.return acc"
| "sweepTasks x olderThan cutoff cache (t # ts) acc =
     (if \<not> sweepable cutoff t then sweepTasks x olderThan cutoff cache ts acc
      else do {
        rp \<leftarrow> cachedPath cache (tRepoID t);
        case rp of Inl e \<Rightarrow> sweepTasks x olderThan cutoff cache ts (fst acc, firstOf (snd acc) (ReapStore e))
        | Inr (repo, cache') \<Rightarrow> do {
            acc' \<leftarrow> sweepBranch x olderThan t repo acc;
            sweepTasks x olderThan cutoff cache' ts acc'
          }
      })"

definition noSweeps :: sweep_stats where
  "noSweeps = \<lparr>ssConsidered = 0, ssBranchesDeleted = 0, ssBranchesSkipped = 0\<rparr>"

definition sweepMergedBranches :: "reaper \<Rightarrow> int \<Rightarrow> (sweep_stats \<times> reap_error option) reap" where
  "sweepMergedBranches x olderThan =
     (if olderThan \<le> 0 then State_Monad.return (noSweeps, Some ReapNoAge)
      else do {
        rl \<leftarrow> mTaskList CallCtx \<lparr>fRepoID = [], fStatuses = [StatusDone, StatusAborted], fLimit = 0, fAscending = False\<rparr>;
        case rl of Inl e \<Rightarrow> State_Monad.return (noSweeps, Some (ReapStore e))
        | Inr ts \<Rightarrow> do {
            now \<leftarrow> readClock;
            sweepTasks x olderThan (int now - olderThan) [] ts (noSweeps, None)
          }
      })"

section \<open>Archiving\<close>

record archive_stats =
  asTasksArchived :: int
  asEventsPurged :: int

fun encodeAll :: "reaper \<Rightarrow> string \<Rightarrow> agent_event list \<Rightarrow> string option reap" where
  "encodeAll x p [] = State_Monad.return None"
| "encodeAll x p (e # es) = do {
     r \<leftarrow> callFs x (FsEncode p e);
     case r of Some m \<Rightarrow> State_Monad.return (Some m) | None \<Rightarrow> encodeAll x p es
   }"

text \<open>Whether the events are in the archive, under its final name.\<close>

definition writeArchive :: "reaper \<Rightarrow> string \<Rightarrow> agent_event list \<Rightarrow> string option reap" where
  "writeArchive x path es = do {
     let tmp = path @ ''.tmp'';
     rc \<leftarrow> callFs x (FsCreate tmp);
     case rc of Some m \<Rightarrow> State_Monad.return (Some m)
     | None \<Rightarrow> do {
     re \<leftarrow> encodeAll x tmp es;
     case re of Some m \<Rightarrow> do {
         _ \<leftarrow> callFs x (FsGzipClose tmp); _ \<leftarrow> callFs x (FsClose tmp); _ \<leftarrow> callFs x (FsRemove tmp);
         State_Monad.return (Some m)
       }
     | None \<Rightarrow> do {
     rg \<leftarrow> callFs x (FsGzipClose tmp);
     case rg of Some m \<Rightarrow> do {
         _ \<leftarrow> callFs x (FsClose tmp); _ \<leftarrow> callFs x (FsRemove tmp);
         State_Monad.return (Some m)
       }
     | None \<Rightarrow> do {
     rf \<leftarrow> callFs x (FsClose tmp);
     case rf of Some m \<Rightarrow> do { _ \<leftarrow> callFs x (FsRemove tmp); State_Monad.return (Some m) }
     | None \<Rightarrow> do {
     rn \<leftarrow> callFs x (FsRename tmp path);
     case rn of Some m \<Rightarrow> do { _ \<leftarrow> callFs x (FsRemove tmp); State_Monad.return (Some m) }
     | None \<Rightarrow> State_Monad.return None
     }}}}}"

definition archiveOneTask :: "reaper \<Rightarrow> string \<Rightarrow> (reap_error + int) reap" where
  "archiveOneTask x i = do {
     rl \<leftarrow> mEventList CallCtx i 0 0;
     case rl of Inl e \<Rightarrow> State_Monad.return (Inl (ReapStore e))
     | Inr es \<Rightarrow>
         if es = [] then State_Monad.return (Inr 0)
         else do {
           now \<leftarrow> readClock;
           let path = joinPath (rx_archiveDir x) (''events_'' @ i @ ''_'' @ rx_stamp x now @ ''.jsonl.gz'');
           rw \<leftarrow> writeArchive x path es;
           case rw of Some m \<Rightarrow> State_Monad.return (Inl (ReapFs m))
           | None \<Rightarrow> do {
               rd \<leftarrow> mEventDeleteByTask CallCtx i;
               State_Monad.return (case rd of Inl e \<Rightarrow> Inl (ReapStore e) | Inr n \<Rightarrow> Inr n)
             }
         }
   }"

fun archiveTasks ::
  "reaper \<Rightarrow> int \<Rightarrow> task list \<Rightarrow> archive_stats \<times> reap_error option \<Rightarrow> (archive_stats \<times> reap_error option) reap" where
  "archiveTasks x cutoff [] acc = State_Monad.return acc"
| "archiveTasks x cutoff (t # ts) (st, firstErr) =
     (if \<not> oldEnough cutoff t then archiveTasks x cutoff ts (st, firstErr)
      else do {
        r \<leftarrow> archiveOneTask x (tID t);
        case r of Inl e \<Rightarrow> archiveTasks x cutoff ts (st, firstOf firstErr e)
        | Inr n \<Rightarrow> archiveTasks x cutoff ts
            (st\<lparr>asTasksArchived := asTasksArchived st + 1, asEventsPurged := asEventsPurged st + n\<rparr>, firstErr)
      })"

definition ArchiveDefaultAge :: int where
  "ArchiveDefaultAge = 30 * 24 * 3600 * 1000000000"

definition nothingArchived :: archive_stats where
  "nothingArchived = \<lparr>asTasksArchived = 0, asEventsPurged = 0\<rparr>"

definition afterArchive :: "reaper \<Rightarrow> archive_stats \<times> reap_error option \<Rightarrow> (archive_stats \<times> reap_error option) reap" where
  "afterArchive x = (\<lambda>(st, firstErr).
     if asEventsPurged st > 0 then do {
       rv \<leftarrow> vacuum x;
       State_Monad.return (st, case rv of Some m \<Rightarrow> firstOf firstErr (ReapVacuum m) | None \<Rightarrow> firstErr)
     }
     else State_Monad.return (st, firstErr))"

definition archiveOldEvents :: "reaper \<Rightarrow> int \<Rightarrow> (archive_stats \<times> reap_error option) reap" where
  "archiveOldEvents x olderThan =
     (if \<not> rx_events x then State_Monad.return (nothingArchived, Some ReapNoEvents)
      else if rx_archiveDir x = [] then State_Monad.return (nothingArchived, Some ReapNoDir)
      else do {
        mk \<leftarrow> callFs x (FsMkdir (rx_archiveDir x));
        case mk of Some m \<Rightarrow> State_Monad.return (nothingArchived, Some (ReapFs m))
        | None \<Rightarrow> do {
            rl \<leftarrow> mTaskList CallCtx \<lparr>fRepoID = [],
              fStatuses = [StatusDone, StatusCancelled, StatusFailed, StatusAborted], fLimit = 0, fAscending = False\<rparr>;
            case rl of Inl e \<Rightarrow> State_Monad.return (nothingArchived, Some (ReapStore e))
            | Inr ts \<Rightarrow> do {
                now \<leftarrow> readClock;
                acc \<leftarrow> archiveTasks x (int now - (if olderThan \<le> 0 then ArchiveDefaultAge else olderThan)) ts
                  (nothingArchived, None);
                afterArchive x acc
              }
          }
      })"

end
