(* ===== verification/Reaper_Theorems.thy ===== *)
theory Reaper_Theorems
  imports Reaper Log_Traces
begin

text \<open>
  What housekeeping may destroy: only worktrees whose task is gone, only branches git said are merged, only
  events that are in an archive.
\<close>

section \<open>Calls\<close>

abbreviation reaps :: "'a reap \<Rightarrow> ('a \<Rightarrow> reap_op list \<Rightarrow> bool) \<Rightarrow> bool" where
  "reaps \<equiv> logTrace w_reaped"

lemma reaped_stepped [simp]: "w_reaped (stepped w) = w_reaped w"
  by (simp add: stepped_def)

lemma reaped_silent [simp]:
  "w_reaped (snd (run_state (storeWrite c f) w)) = w_reaped w"
  "w_reaped (snd (run_state (storeRead c q) w)) = w_reaped w"
  "w_reaped (snd (run_state newULID w)) = w_reaped w"
  "w_reaped (snd (run_state readClock w)) = w_reaped w"
  "w_reaped (snd (run_state (listWorktreesR x repo) w)) = w_reaped w"
  "w_reaped (snd (run_state (vacuum x) w)) = w_reaped w"
  "w_reaped (snd (run_state (broadcast x e) w)) = w_reaped w"
  by (simp_all add: storeWrite_def storeRead_def newULID_def readClock_def listWorktreesR_def vacuum_def
      broadcast_def split: sum.splits)

lemma reaped_silent_calls [simp]:
  fixes w :: reap_world
  shows "w_reaped (snd (run_state (mSetBranchExists c i b) w)) = w_reaped w"
    "w_reaped (snd (run_state (mTaskGet c i) w)) = w_reaped w" "w_reaped (snd (run_state (mRepoGet c i) w)) = w_reaped w"
    "w_reaped (snd (run_state (mNextSeq c i) w)) = w_reaped w" "w_reaped (snd (run_state (mEventAppend c e) w)) = w_reaped w"
    "w_reaped (snd (run_state (mTaskList c f) w)) = w_reaped w" "w_reaped (snd (run_state (mEventList c i s l) w)) = w_reaped w"
    "w_reaped (snd (run_state (mEventDeleteByTask c i) w)) = w_reaped w"
  unfolding mSetBranchExists_def mTaskGet_def mRepoGet_def mNextSeq_def mEventAppend_def mTaskList_def
    mEventList_def mEventDeleteByTask_def by simp_all

lemmas reaps_silent = logTrace_silent [where lg = w_reaped]

lemma reaps_git: "reaps (callGitR x op) (\<lambda>r ops. ops = [ReapGit op r])"
  by (simp add: logTrace_def callGitR_def Let_def)

lemma reaps_emit: "reaps (emitBranchGC x i body) (\<lambda>_ ops. ops = [])"
  unfolding emitBranchGC_def Let_def
  by (intro logTrace_if logTrace_return logTrace_case_sum logTrace_silent_bind reaps_silent) simp_all

lemma reaps_cachedPath: "reaps (cachedPath cache rid) (\<lambda>_ ops. ops = [])"
  unfolding cachedPath_def
  by (intro logTrace_case_option logTrace_return logTrace_silent_bind reaps_silent) simp_all

section \<open>Merged branches\<close>

text \<open>Every question about a branch is about one that may be swept, and a branch is deleted only right after
  git said that it is merged into the task's base branch.\<close>

inductive sweepLog :: "(string \<Rightarrow> string \<Rightarrow> bool) \<Rightarrow> reap_op list \<Rightarrow> bool" for may where
  nothing: "sweepLog may []"
| spared: "may b base \<Longrightarrow> r \<noteq> Inr True \<Longrightarrow> sweepLog may ops \<Longrightarrow> sweepLog may (ReapGit (AskMerged repo b base) r # ops)"
| swept: "may b base \<Longrightarrow> sweepLog may ops \<Longrightarrow>
    sweepLog may (ReapGit (AskMerged repo b base) (Inr True) # ReapGit (DeleteMerged repo b) r # ops)"

lemma sweepLog_append: "sweepLog may as \<Longrightarrow> sweepLog may bs \<Longrightarrow> sweepLog may (as @ bs)"
  by (induction rule: sweepLog.induct) (auto intro: sweepLog.intros)

fun asks :: "reap_op \<Rightarrow> bool" where
  "asks (ReapGit (AskMerged repo b base) r) = True"
| "asks _ = False"

fun deletes :: "reap_op \<Rightarrow> bool" where
  "deletes (ReapGit (DeleteMerged repo b) (Inr True)) = True"
| "deletes _ = False"

definition counted :: "sweep_stats \<Rightarrow> sweep_stats \<Rightarrow> reap_op list \<Rightarrow> bool" where
  "counted st st' ops \<longleftrightarrow>
     ssConsidered st' = ssConsidered st + int (length (filter asks ops)) \<and>
     ssBranchesDeleted st' = ssBranchesDeleted st + int (length (filter deletes ops))"

lemma reaps_noteSweep: "reaps (noteSweep x t age e) (\<lambda>_ ops. ops = [])"
  unfolding noteSweep_def Let_def appendSweepEvent_def
  by (intro logTrace_if logTrace_return logTrace_silent_bind reaps_silent reaps_emit) simp_all

lemma reaps_deleteMerged:
  "reaps (do {
      rd \<leftarrow> callGitR x (DeleteMerged repo (tBranch t));
      case rd of Inl m \<Rightarrow> State_Monad.return (st, firstOf e (ReapGitFailed m))
      | Inr deleted \<Rightarrow>
          if \<not> deleted then State_Monad.return (st\<lparr>ssBranchesSkipped := ssBranchesSkipped st + 1\<rparr>, e)
          else do {
            err \<leftarrow> noteSweep x t age e;
            State_Monad.return (st\<lparr>ssBranchesDeleted := ssBranchesDeleted st + 1\<rparr>, err)
          } })
    (\<lambda>r ops. \<exists>d. ops = [ReapGit (DeleteMerged repo (tBranch t)) d] \<and> ssConsidered (fst r) = ssConsidered st \<and>
       ssBranchesDeleted (fst r) = ssBranchesDeleted st + int (length (filter deletes ops)))"
proof (rule logTrace_bind [OF reaps_git])
  let ?Q = "\<lambda>rd r ops. ops = [] \<and> ssConsidered (fst r) = ssConsidered st \<and>
      ssBranchesDeleted (fst r) = ssBranchesDeleted st + (if rd = Inr True then 1 else 0)"
  fix rd :: "string + bool" and ops
  assume "ops = [ReapGit (DeleteMerged repo (tBranch t)) rd]"
  moreover have "reaps (case rd of Inl m \<Rightarrow> State_Monad.return (st, firstOf e (ReapGitFailed m))
      | Inr deleted \<Rightarrow>
          if \<not> deleted then State_Monad.return (st\<lparr>ssBranchesSkipped := ssBranchesSkipped st + 1\<rparr>, e)
          else do {
            err \<leftarrow> noteSweep x t age e;
            State_Monad.return (st\<lparr>ssBranchesDeleted := ssBranchesDeleted st + 1\<rparr>, err)
          }) (?Q rd)"
    by (intro logTrace_case_sum logTrace_if logTrace_return logTrace_silent_bind reaps_noteSweep) auto
  ultimately show "reaps (case rd of Inl m \<Rightarrow> State_Monad.return (st, firstOf e (ReapGitFailed m))
      | Inr deleted \<Rightarrow>
          if \<not> deleted then State_Monad.return (st\<lparr>ssBranchesSkipped := ssBranchesSkipped st + 1\<rparr>, e)
          else do {
            err \<leftarrow> noteSweep x t age e;
            State_Monad.return (st\<lparr>ssBranchesDeleted := ssBranchesDeleted st + 1\<rparr>, err)
          }) (\<lambda>r ops'. \<exists>d. ops @ ops' = [ReapGit (DeleteMerged repo (tBranch t)) d] \<and> ssConsidered (fst r) = ssConsidered st \<and>
       ssBranchesDeleted (fst r) = ssBranchesDeleted st + int (length (filter deletes (ops @ ops'))))"
    by (elim logTrace_mono) (cases rd, auto)
qed

lemma reaps_sweepBranch:
  assumes "may (tBranch t) (tBaseBranch t)"
  shows "reaps (sweepBranch x age t repo (st, e)) (\<lambda>r ops. sweepLog may ops \<and> counted st (fst r) ops)"
  unfolding sweepBranch_def prod.case Let_def
proof (rule logTrace_bind [OF reaps_git])
  let ?ask = "AskMerged repo (tBranch t) (tBaseBranch t)"
  let ?st = "st\<lparr>ssConsidered := ssConsidered st + 1\<rparr>"
  fix rm :: "string + bool" and ops
  assume ops: "ops = [ReapGit ?ask rm]"
  show "reaps (case rm of Inl m \<Rightarrow> State_Monad.return (?st, firstOf e (ReapGitFailed m))
     | Inr merged \<Rightarrow>
         if \<not> merged then State_Monad.return (?st\<lparr>ssBranchesSkipped := ssBranchesSkipped ?st + 1\<rparr>, e)
         else do {
           rd \<leftarrow> callGitR x (DeleteMerged repo (tBranch t));
           case rd of Inl m \<Rightarrow> State_Monad.return (?st, firstOf e (ReapGitFailed m))
           | Inr deleted \<Rightarrow>
               if \<not> deleted then State_Monad.return (?st\<lparr>ssBranchesSkipped := ssBranchesSkipped ?st + 1\<rparr>, e)
               else do {
                 err \<leftarrow> noteSweep x t age e;
                 State_Monad.return (?st\<lparr>ssBranchesDeleted := ssBranchesDeleted ?st + 1\<rparr>, err)
               }
         }) (\<lambda>r ops'. sweepLog may (ops @ ops') \<and> counted st (fst r) (ops @ ops'))"
  proof (cases "rm = Inr True")
    case True
    show ?thesis unfolding True sum.case not_True_eq_False if_False
      by (rule logTrace_mono [OF reaps_deleteMerged])
        (use ops True in \<open>auto simp: counted_def intro!: sweepLog.intros assms\<close>)
  next
    case False
    then show ?thesis
      by (cases rm) (auto intro!: logTrace_return sweepLog.intros assms simp: ops counted_def)
  qed
qed

lemma counted_trans: "counted st st1 as \<Longrightarrow> counted st1 st2 bs \<Longrightarrow> counted st st2 (as @ bs)"
  by (simp add: counted_def)

lemma reaps_sweepTasks:
  assumes "\<forall>t\<in>set ts. sweepable cutoff t \<longrightarrow> may (tBranch t) (tBaseBranch t)"
  shows "reaps (sweepTasks x age cutoff cache ts acc) (\<lambda>r ops. sweepLog may ops \<and> counted (fst acc) (fst r) ops)"
  using assms
proof (induction ts arbitrary: cache acc)
  case Nil
  then show ?case by (auto intro!: logTrace_return sweepLog.intros simp: counted_def)
next
  case (Cons t ts)
  then have IH: "reaps (sweepTasks x age cutoff c ts a) (\<lambda>r ops. sweepLog may ops \<and> counted (fst a) (fst r) ops)" for c a
    by simp
  show ?case
  proof (cases "sweepable cutoff t")
    case True
    with Cons.prems have m: "may (tBranch t) (tBaseBranch t)" by simp
    have go: "reaps (sweepBranch x age t repo acc \<bind> sweepTasks x age cutoff c ts)
        (\<lambda>r ops. sweepLog may ops \<and> counted (fst acc) (fst r) ops)" for repo c
    proof (cases acc)
      case (Pair st e)
      show ?thesis unfolding Pair fst_conv
        by (rule logTrace_bind [OF reaps_sweepBranch [where may = may and t = t, OF m]], rule logTrace_mono [OF IH])
          (auto intro: sweepLog_append counted_trans)
    qed
    have "reaps (case rp of Inl err \<Rightarrow> sweepTasks x age cutoff cache ts (fst acc, firstOf (snd acc) (ReapStore err))
        | Inr (repo, cache') \<Rightarrow> do { acc' \<leftarrow> sweepBranch x age t repo acc; sweepTasks x age cutoff cache' ts acc' })
        (\<lambda>r ops. sweepLog may ops \<and> counted (fst acc) (fst r) ops)" for rp :: "store_error + string \<times> repo_cache"
      using IH [of cache "(fst acc, firstOf (snd acc) (ReapStore (projl rp)))"] go by (cases rp) auto
    with True show ?thesis by (simp add: logTrace_silent_bind [OF reaps_cachedPath])
  qed (simp add: IH)
qed

text \<open>C38 (only merged branches are swept). Whatever git answers and whatever other goroutines do meanwhile,
  a sweep deletes a branch only right after git answered that it is merged into the base branch its task
  names, and only if the task was listed as done or aborted, with a branch still there, and finished
  at least the given age ago; an age that is not positive sweeps nothing. The statistics count the
  questions asked and the branches deleted.\<close>

theorem sweep_deletes_only_merged:
  assumes "run_state (sweepMergedBranches x age) w = ((st, err), w')"
  shows "\<exists>ops. w_reaped w' = w_reaped w @ ops \<and> (ops \<noteq> [] \<longrightarrow> age > 0) \<and>
    sweepLog (\<lambda>b base. \<exists>r\<in>set (tasks (w_db (stepped w))). r_status r \<in> {StatusDone, StatusAborted} \<and>
       r_branch r = Some b \<and> b \<noteq> [] \<and> r_base_branch r = base \<and> r_branch_exists r \<noteq> 0 \<and>
       (\<exists>f. r_finished_at r = Some f \<and> int f \<le> int (e_clock (w_env w) (Suc (w_step w))) - age)) ops \<and>
    ssConsidered st = int (length (filter asks ops)) \<and>
    ssBranchesDeleted st = int (length (filter deletes ops))"
proof -
  let ?f = "\<lparr>fRepoID = [], fStatuses = [StatusDone, StatusAborted], fLimit = 0, fAscending = False\<rparr>"
  let ?list = "taskList (e_ctx (w_env w) CallCtx (w_step w)) ?f (w_db (stepped w))"
  let ?now = "e_clock (w_env w) (Suc (w_step w))"
  let ?may = "\<lambda>b base. \<exists>r\<in>set (tasks (w_db (stepped w))). r_status r \<in> {StatusDone, StatusAborted} \<and>
       r_branch r = Some b \<and> b \<noteq> [] \<and> r_base_branch r = base \<and> r_branch_exists r \<noteq> 0 \<and>
       (\<exists>f. r_finished_at r = Some f \<and> int f \<le> int ?now - age)"
  consider "age \<le> 0" | e where "age > 0" "?list = Inl e" | ts where "age > 0" "?list = Inr ts"
    by (cases ?list) fastforce+
  then show ?thesis
  proof cases
    case 1
    with assms show ?thesis by (auto simp: sweepMergedBranches_def noSweeps_def intro: sweepLog.intros)
  next
    case 2
    with assms show ?thesis
      by (auto simp: sweepMergedBranches_def mTaskList_def storeRead_def noSweeps_def intro: sweepLog.intros)
  next
    case 3
    have "\<forall>t\<in>set ts. sweepable (int ?now - age) t \<longrightarrow> ?may (tBranch t) (tBaseBranch t)"
    proof (intro ballI impI)
      fix t
      assume "t \<in> set ts" and s: "sweepable (int ?now - age) t"
      then obtain r where r: "r \<in> set (tasks (w_db (stepped w)))" "taskMatches ?f r" "t = scanTask r"
        using 3(2) by (auto simp: taskList_def split: option.splits)
      moreover have "r_branch r = Some (tBranch t)" using s r(3) by (cases "r_branch r") (auto simp: sweepable_def)
      ultimately show "?may (tBranch t) (tBaseBranch t)" using s
        by (intro bexI [of _ r])
          (auto simp: taskMatches_def sweepable_def oldEnough_def scanNullableTime_def split: option.splits if_splits)
    qed
    from reaps_sweepTasks [OF this, of x age "[]" "(noSweeps, None)"]
    have tr: "reaps (sweepTasks x age (int ?now - age) [] ts (noSweeps, None))
        (\<lambda>r ops. sweepLog ?may ops \<and> counted noSweeps (fst r) ops)" by simp
    have "run_state (sweepTasks x age (int ?now - age) [] ts (noSweeps, None)) (stepped (stepped w)) = ((st, err), w')"
      using assms 3 by (simp add: sweepMergedBranches_def mTaskList_def storeRead_def readClock_def) (simp add: stepped_def)
    from logTraceD [OF tr this] obtain ops where "w_reaped w' = w_reaped w @ ops" "sweepLog ?may ops"
      "counted noSweeps st ops" by auto
    with 3(1) show ?thesis by (intro exI [of _ ops]) (simp add: counted_def noSweeps_def)
  qed
qed

section \<open>Orphaned worktrees\<close>

definition reapAt :: "env \<Rightarrow> db \<Rightarrow> reap_op list \<Rightarrow> reap_world \<Rightarrow> bool" where
  "reapAt e d l w \<longleftrightarrow> quiet w \<and> w_env w = e \<and> w_db w = d \<and> w_reaped w = l"

lemma reapAt_stepped [simp]: "reapAt e d l w \<Longrightarrow> stepped w = w\<lparr>w_step := Suc (w_step w)\<rparr>"
  by (simp add: reapAt_def)

lemma reapAt_step [simp]: "reapAt e d l (w\<lparr>w_step := n\<rparr>) \<longleftrightarrow> reapAt e d l w"
  by (simp add: reapAt_def quiet_def)

text \<open>A listed worktree on a branch of a task that is not in the database, and what is asked about it.\<close>

definition orphan :: "db \<Rightarrow> wt_info \<Rightarrow> bool" where
  "orphan d i \<longleftrightarrow> isTaskBranch i \<and> infoTaskID i \<notin> r_id ` set (tasks d)"

definition removalOf :: "string \<Rightarrow> wt_info \<Rightarrow> reap_call" where
  "removalOf repo i = RemoveOrphan repo (wiPath i) (infoTaskID i)"

fun callOf :: "reap_op \<Rightarrow> reap_call option" where
  "callOf (ReapGit c r) = Some c"
| "callOf (ReapFile f ok) = None"

fun succeeded :: "reap_op \<Rightarrow> bool" where
  "succeeded (ReapGit c r) = isOk r"
| "succeeded (ReapFile f ok) = ok"

definition reapedFor :: "env \<Rightarrow> db \<Rightarrow> (string \<times> wt_info) list \<Rightarrow> reap_stats \<Rightarrow> reap_stats \<Rightarrow> reap_op list \<Rightarrow> bool" where
  "reapedFor e d is st st' ops \<longleftrightarrow>
     callOf ` set ops \<subseteq> (\<lambda>(repo, i). Some (removalOf repo i)) ` {x \<in> set is. orphan d (snd x)} \<and>
     ((\<forall>n. e_ctx e CallCtx n = Live) \<longrightarrow>
       (\<lambda>(repo, i). Some (removalOf repo i)) ` {x \<in> set is. orphan d (snd x)} \<subseteq> callOf ` set ops) \<and>
     rsWorktreesRemoved st' = rsWorktreesRemoved st + int (length (filter succeeded ops))"

lemma reapedFor_append:
  "reapedFor e d is st st1 as \<Longrightarrow> reapedFor e d js st1 st2 bs \<Longrightarrow> reapedFor e d (is @ js) st st2 (as @ bs)"
  by (auto simp: reapedFor_def image_Un split: prod.splits) blast+

lemma reapedFor_none: "rsWorktreesRemoved st' = rsWorktreesRemoved st \<Longrightarrow> reapedFor e d [] st st' []"
  by (simp add: reapedFor_def)

lemma reapedFor_kept: "\<not> orphan d i \<Longrightarrow> reapedFor e d [(repo, i)] st st []"
  by (simp add: reapedFor_def)

lemma reaped_infos:
  "triple (reapAt e d l) (reapInfos x repo is (st, err))
    (\<lambda>r w. \<exists>ops. reapAt e d (l @ ops) w \<and> reapedFor e d (map (Pair repo) is) st (fst r) ops \<and>
       rsRepositories (fst r) = rsRepositories st)"
proof (induction "is" arbitrary: l st err)
  case Nil
  show ?case by (auto intro!: triple_return reapedFor_none exI [of _ "[]"])
next
  case (Cons i "is")
  let ?Q = "\<lambda>l st is r w. \<exists>ops. reapAt e d (l @ ops) w \<and> reapedFor e d (map (Pair repo) is) st (fst r) ops \<and>
       rsRepositories (fst r) = rsRepositories st"
  have skip: "triple (reapAt e d l) (reapInfos x repo is (st, er)) (?Q l st (i # is))"
    if "reapedFor e d [(repo, i)] st st []" for er
    by (rule triple_conseq [OF Cons.IH]) (use reapedFor_append [OF that] in fastforce)+
  show ?case
  proof (cases "isTaskBranch i")
    case False
    then show ?thesis using skip [OF reapedFor_kept] by (simp add: orphan_def)
  next
    case True
    show ?thesis
    proof (rule tripleI)
      fix w r w'
      assume at: "reapAt e d l w" and run: "run_state (reapInfos x repo (i # is) (st, err)) w = (r, w')"
      let ?u = "w\<lparr>w_step := Suc (w_step w)\<rparr>"
      let ?rt = "taskGet (e_ctx e CallCtx (w_step w)) (infoTaskID i) d"
      have u: "reapAt e d l ?u" using at by simp
      have get: "run_state (mTaskGet CallCtx (infoTaskID i)) w = (?rt, ?u)"
        using at by (simp add: mTaskGet_def storeRead_def reapAt_stepped [OF at]) (simp add: reapAt_def)
      consider (kept) t where "?rt = Inr t" | (gone) "?rt = Inl ENotFound" | (other) er where "?rt = Inl er" "er \<noteq> ENotFound"
        by (cases ?rt) blast+
      then show "?Q l st (i # is) r w'"
      proof cases
        case kept
        then have "\<not> orphan d i" by (auto simp: taskGet_def orphan_def split: option.splits dest!: lookupBy_SomeD intro: rev_image_eqI)
        with kept run True get show ?thesis
          using tripleD [OF skip [OF reapedFor_kept] u] by simp
      next
        case gone
        then have o: "orphan d i" using True by (auto simp: taskGet_def orphan_def lookupBy_None split: option.splits)
        let ?r = "rx_git x (w_step ?u) (removalOf repo i)"
        let ?op = "ReapGit (removalOf repo i) ?r"
        let ?v = "(stepped ?u)\<lparr>w_reaped := l @ [?op]\<rparr>"
        have call: "run_state (callGitR x (RemoveOrphan repo (wiPath i) (infoTaskID i))) ?u = (?r, ?v)"
          using u by (simp add: callGitR_def removalOf_def Let_def reapAt_def)
        have v: "reapAt e d (l @ [?op]) ?v" unfolding reapAt_stepped [OF u] using u by (auto simp: reapAt_def quiet_def)
        have step: "?Q l st (i # is) r w'"
          if st': "reapedFor e d [(repo, i)] st st' [?op]" "rsRepositories st' = rsRepositories st"
            and go: "run_state (reapInfos x repo is (st', er)) ?v = (r, w')" for st' er
        proof -
          from tripleD [OF Cons.IH v go] obtain ops where "reapAt e d ((l @ [?op]) @ ops) w'"
            "reapedFor e d (map (Pair repo) is) st' (fst r) ops" "rsRepositories (fst r) = rsRepositories st'" by blast
          with reapedFor_append [OF st'(1)] st'(2) show ?thesis by (intro exI [of _ "?op # ops"]) fastforce
        qed
        have rest: "(case ?r of Inl m \<Rightarrow> run_state (reapInfos x repo is (st, firstOf err (ReapGitFailed m))) ?v
            | Inr _ \<Rightarrow> run_state (reapInfos x repo is (st\<lparr>rsWorktreesRemoved := rsWorktreesRemoved st + 1\<rparr>, err)) ?v) = (r, w')"
          using run True gone get call by (simp split: sum.splits)
        show ?thesis
        proof (cases ?r)
          case (Inl m)
          with o rest show ?thesis by (intro step [of st]) (auto simp: reapedFor_def)
        next
          case (Inr b)
          with o rest show ?thesis
            by (intro step [of "st\<lparr>rsWorktreesRemoved := rsWorktreesRemoved st + 1\<rparr>"]) (auto simp: reapedFor_def)
        qed
      next
        case other
        then have "e_ctx e CallCtx (w_step w) \<noteq> Live" by (auto simp: taskGet_def split: option.splits)
        then have "reapedFor e d [(repo, i)] st st []" by (auto simp: reapedFor_def)
        from tripleD [OF skip [OF this] u] other run True get show ?thesis by simp
      qed
    qed
  qed
qed

lemma rPath_scan [simp]: "rPath (scanRepository r) = rp_path r"
  by (simp add: scanRepository_def)

text \<open>What git listed for the repositories of a pass.\<close>

definition covered :: "reaper \<Rightarrow> (string \<times> wt_info) list \<Rightarrow> string \<Rightarrow> bool" where
  "covered x is repo \<longleftrightarrow> (\<exists>n. case rx_list x n repo of Inl _ \<Rightarrow> True | Inr infos \<Rightarrow> Pair repo ` set infos \<subseteq> set is)"

definition listedFor :: "reaper \<Rightarrow> string list \<Rightarrow> (string \<times> wt_info) list \<Rightarrow> bool" where
  "listedFor x repos is \<longleftrightarrow>
     (\<forall>(repo, i)\<in>set is. repo \<in> set repos \<and> (\<exists>n infos. rx_list x n repo = Inr infos \<and> i \<in> set infos)) \<and>
     (\<forall>repo\<in>set repos. covered x is repo)"

lemma covered_mono:
  assumes "covered x is repo" "set is \<subseteq> set js"
  shows "covered x js repo"
proof -
  from assms(1) obtain n where "case rx_list x n repo of Inl _ \<Rightarrow> True | Inr infos \<Rightarrow> Pair repo ` set infos \<subseteq> set is"
    by (auto simp: covered_def)
  with assms(2) show ?thesis unfolding covered_def by (intro exI [of _ n]) (cases "rx_list x n repo"; auto)
qed

lemma listedFor_append:
  assumes "listedFor x as is" "listedFor x bs js"
  shows "listedFor x (as @ bs) (is @ js)"
proof -
  have "covered x (is @ js) repo" if "repo \<in> set (as @ bs)" for repo
    using that assms covered_mono [of x _ repo "is @ js"] by (auto simp: listedFor_def)
  with assms show ?thesis by (auto simp: listedFor_def)
qed

lemma reaped_repo:
  "triple (reapAt e d l) (reapRepo x repo st)
    (\<lambda>r w. \<exists>ops is. reapAt e d (l @ ops) w \<and> listedFor x [repo] is \<and> reapedFor e d is st (fst r) ops \<and>
       rsRepositories (fst r) = rsRepositories st)"
proof (rule tripleI)
  fix w r w'
  assume at: "reapAt e d l w" and run: "run_state (reapRepo x repo st) w = (r, w')"
  let ?u = "w\<lparr>w_step := Suc (w_step w)\<rparr>"
  have u: "reapAt e d l ?u" using at by simp
  show "\<exists>ops is. reapAt e d (l @ ops) w' \<and> listedFor x [repo] is \<and> reapedFor e d is st (fst r) ops \<and>
       rsRepositories (fst r) = rsRepositories st"
  proof (cases "rx_list x (w_step w) repo")
    case (Inl m)
    with run reapAt_stepped [OF at] have "r = (st, Some (ReapListing repo m))" "w' = ?u"
      by (simp_all add: reapRepo_def listWorktreesR_def)
    with u Inl show ?thesis
      by (intro exI [of _ "[]"] exI [of _ "[]"]) (auto simp: listedFor_def covered_def intro!: reapedFor_none exI [of _ "w_step w"])
  next
    case (Inr infos)
    with run reapAt_stepped [OF at] have "run_state (reapInfos x repo infos (st, None)) ?u = (r, w')"
      by (simp add: reapRepo_def listWorktreesR_def)
    from tripleD [OF reaped_infos u this] Inr show ?thesis
      by (fastforce simp: listedFor_def covered_def intro!: exI [of _ "map (Pair repo) infos"] exI [of _ "w_step w"])
  qed
qed

lemma reaped_repos:
  "triple (reapAt e d l) (reapRepos x rs (st, err))
    (\<lambda>r w. \<exists>ops is. reapAt e d (l @ ops) w \<and> listedFor x (map rPath rs) is \<and> reapedFor e d is st (fst r) ops \<and>
       rsRepositories (fst r) = rsRepositories st + int (length rs))"
proof (induction rs arbitrary: l st err)
  case Nil
  show ?case
    by (auto intro!: triple_return exI [of _ "[]"] reapedFor_none simp: listedFor_def)
next
  case (Cons rp rs)
  let ?st = "st\<lparr>rsRepositories := rsRepositories st + 1\<rparr>"
  have "triple (\<lambda>w. \<exists>ops is. reapAt e d (l @ ops) w \<and> listedFor x [rPath rp] is \<and> reapedFor e d is ?st (fst r) ops \<and>
        rsRepositories (fst r) = rsRepositories ?st)
      (case r of (st', er) \<Rightarrow> reapRepos x rs (st', case er of None \<Rightarrow> err | Some e \<Rightarrow> firstOf err e))
      (\<lambda>r w. \<exists>ops is. reapAt e d (l @ ops) w \<and> listedFor x (map rPath (rp # rs)) is \<and> reapedFor e d is st (fst r) ops \<and>
        rsRepositories (fst r) = rsRepositories st + int (length (rp # rs)))" for r
  proof (intro triple_ex_pre, rule tripleI, elim conjE)
    fix ops "is" w r' w'
    assume at: "reapAt e d (l @ ops) w" and li: "listedFor x [rPath rp] is" and fo: "reapedFor e d is ?st (fst r) ops"
      and n: "rsRepositories (fst r) = rsRepositories ?st"
      and run: "run_state (case r of (st', er) \<Rightarrow> reapRepos x rs (st', case er of None \<Rightarrow> err | Some e \<Rightarrow> firstOf err e)) w = (r', w')"
    obtain st' er where r: "r = (st', er)" by fastforce
    have fo': "reapedFor e d is st (fst r) ops" using fo by (simp add: reapedFor_def)
    from run r have "run_state (reapRepos x rs (st', case er of None \<Rightarrow> err | Some e \<Rightarrow> firstOf err e)) w = (r', w')" by simp
    from tripleD [OF Cons.IH at this] obtain ops' js where "reapAt e d ((l @ ops) @ ops') w'"
      "listedFor x (map rPath rs) js" "reapedFor e d js st' (fst r') ops'"
      "rsRepositories (fst r') = rsRepositories st' + int (length rs)" by blast
    with listedFor_append [OF li] reapedFor_append [OF fo'] r n
    show "\<exists>ops is. reapAt e d (l @ ops) w' \<and> listedFor x (map rPath (rp # rs)) is \<and> reapedFor e d is st (fst r') ops \<and>
        rsRepositories (fst r') = rsRepositories st + int (length (rp # rs))"
      by (intro exI [of _ "ops @ ops'"] exI [of _ "is @ js"]) fastforce
  qed
  then show ?case by (simp only: reapRepos.simps) (rule triple_bind [OF reaped_repo])
qed

text \<open>C40 (only orphans are reaped). With the database to itself, a pass of the reaper leaves the database as
  it is and asks for the removal only of worktrees that git listed, for a registered repository, on the
  branch of a task that does not exist, each under its own path and task id; when the context stays
  live it asks for all of them. The count of removed worktrees is the number of removals that
  succeeded.\<close>

theorem reaps_only_orphans:
  assumes "quiet w" "run_state (reapOnce x) w = ((st, err), w')"
  shows "w_db w' = w_db w \<and> (\<exists>ops is. w_reaped w' = w_reaped w @ ops \<and>
    callOf ` set ops \<subseteq> (\<lambda>(repo, i). Some (removalOf repo i)) ` {y \<in> set is. orphan (w_db w) (snd y)} \<and>
    (\<forall>(repo, i)\<in>set is. repo \<in> rp_path ` set (repositories (w_db w)) \<and> (\<exists>n infos. rx_list x n repo = Inr infos \<and> i \<in> set infos)) \<and>
    ((\<forall>n. e_ctx (w_env w) CallCtx n = Live) \<longrightarrow>
       (\<lambda>(repo, i). Some (removalOf repo i)) ` {y \<in> set is. orphan (w_db w) (snd y)} \<subseteq> callOf ` set ops \<and>
       (\<forall>repo\<in>rp_path ` set (repositories (w_db w)). covered x is repo)) \<and>
    rsWorktreesRemoved st = int (length (filter succeeded ops)))"
proof -
  have at: "reapAt (w_env w) (w_db w) (w_reaped w) w" using assms(1) by (simp add: reapAt_def)
  let ?u = "w\<lparr>w_step := Suc (w_step w)\<rparr>"
  have u: "reapAt (w_env w) (w_db w) (w_reaped w) ?u" using at by simp
  have get: "run_state (mRepoList CallCtx) w = (repoList (e_ctx (w_env w) CallCtx (w_step w)) (w_db w), ?u)"
    using assms(1) by (simp add: mRepoList_def storeRead_def)
  show ?thesis
  proof (cases "e_ctx (w_env w) CallCtx (w_step w) = Live")
    case True
    let ?rs = "map scanRepository (sort_key (\<lambda>r. nocase (rp_display_name r)) (repositories (w_db w)))"
    have "run_state (reapRepos x ?rs (noReaps, None)) ?u = ((st, err), w')"
      using assms(2) get True by (simp add: reapOnce_def repoList_def)
    from tripleD [OF reaped_repos u this] obtain ops "is" where
      "reapAt (w_env w) (w_db w) (w_reaped w @ ops) w'" "listedFor x (map rPath ?rs) is"
      "reapedFor (w_env w) (w_db w) is noReaps st ops" by auto
    moreover have "set (map rPath ?rs) = rp_path ` set (repositories (w_db w))" by auto
    ultimately show ?thesis unfolding listedFor_def reapedFor_def noReaps_def
      by (intro conjI exI [of _ ops] exI [of _ "is"]) (auto simp: reapAt_def)
  next
    case False
    then obtain er where "repoList (e_ctx (w_env w) CallCtx (w_step w)) (w_db w) = Inl er"
      by (cases "e_ctx (w_env w) CallCtx (w_step w)") (auto simp: repoList_def)
    with assms(2) get have "st = noReaps" "w' = ?u" by (simp_all add: reapOnce_def)
    with False show ?thesis by (intro conjI exI [of _ "[]"]) (auto simp: noReaps_def)
  qed
qed

section \<open>Archives\<close>

text \<open>The calls that write a complete archive, under its final name only at the end.\<close>

definition completeArchive :: "string \<Rightarrow> agent_event list \<Rightarrow> reap_op list" where
  "completeArchive path es =
     [ReapFile (FsCreate (path @ ''.tmp'')) True] @ map (\<lambda>e. ReapFile (FsEncode (path @ ''.tmp'') e) True) es @
     [ReapFile (FsGzipClose (path @ ''.tmp'')) True, ReapFile (FsClose (path @ ''.tmp'')) True,
      ReapFile (FsRename (path @ ''.tmp'') path) True]"

lemma reaps_fs: "reaps (callFs x op) (\<lambda>r ops. ops = [ReapFile op (r = None)])"
  by (simp add: logTrace_def callFs_def Let_def)

text \<open>A step of the archive either fails, and then the whole archive does, or the rest goes on.\<close>

lemma reaps_fs_then:
  assumes "\<And>m. reaps (bad m) (\<lambda>r _. r \<noteq> None)"
    "reaps good (\<lambda>r ops. r = None \<longrightarrow> ops = rest)"
  shows "reaps (do { a \<leftarrow> callFs x op; case a of Some m \<Rightarrow> bad m | None \<Rightarrow> good })
    (\<lambda>r ops. r = None \<longrightarrow> ops = ReapFile op True # rest)"
proof (rule logTrace_bind [OF reaps_fs])
  fix a :: "string option" and ops
  assume ops: "ops = [ReapFile op (a = None)]"
  show "reaps (case a of None \<Rightarrow> good | Some m \<Rightarrow> bad m) (\<lambda>r ops'. r = None \<longrightarrow> ops @ ops' = ReapFile op True # rest)"
  proof (cases a)
    case None
    with ops show ?thesis by simp (rule logTrace_mono [OF assms(2)], simp)
  next
    case (Some m)
    show ?thesis unfolding Some option.case by (rule logTrace_mono [OF assms(1)]) auto
  qed
qed

lemma reaps_encodeAll:
  "reaps (encodeAll x p es) (\<lambda>r ops. r = None \<longrightarrow> ops = map (\<lambda>e. ReapFile (FsEncode p e) True) es)"
proof (induction es)
  case (Cons e es)
  show ?case unfolding encodeAll.simps list.map
    by (rule reaps_fs_then [OF _ Cons.IH]) (simp add: logTrace_return)
qed (simp add: logTrace_return)

lemma reaps_gives_up: "reaps (State_Monad.return (Some m)) (\<lambda>r _. r \<noteq> None)"
  by (simp add: logTrace_return)

lemma reaps_ignored: "reaps m (\<lambda>r _. r \<noteq> None) \<Longrightarrow> reaps (State_Monad.bind (callFs x op) (\<lambda>_. m)) (\<lambda>r _. r \<noteq> None)"
  by (rule logTrace_bind [OF reaps_fs])

lemma reaps_writeArchive:
  "reaps (writeArchive x path es) (\<lambda>r ops. r = None \<longrightarrow> ops = completeArchive path es)"
proof -
  let ?tmp = "path @ ''.tmp''"
  let ?finish = "do {
     rg \<leftarrow> callFs x (FsGzipClose ?tmp);
     case rg of Some m \<Rightarrow> do { _ \<leftarrow> callFs x (FsClose ?tmp); _ \<leftarrow> callFs x (FsRemove ?tmp); State_Monad.return (Some m) }
     | None \<Rightarrow> do {
     rf \<leftarrow> callFs x (FsClose ?tmp);
     case rf of Some m \<Rightarrow> do { _ \<leftarrow> callFs x (FsRemove ?tmp); State_Monad.return (Some m) }
     | None \<Rightarrow> do {
     rn \<leftarrow> callFs x (FsRename ?tmp path);
     case rn of Some m \<Rightarrow> do { _ \<leftarrow> callFs x (FsRemove ?tmp); State_Monad.return (Some m) }
     | None \<Rightarrow> State_Monad.return None }}}"
  have last: "reaps ?finish (\<lambda>r ops. r = None \<longrightarrow> ops =
      [ReapFile (FsGzipClose ?tmp) True, ReapFile (FsClose ?tmp) True, ReapFile (FsRename ?tmp path) True])"
    by (intro reaps_fs_then reaps_ignored reaps_gives_up) (simp add: logTrace_return)
  have "reaps (do {
      re \<leftarrow> encodeAll x ?tmp es;
      case re of Some m \<Rightarrow> do {
          _ \<leftarrow> callFs x (FsGzipClose ?tmp); _ \<leftarrow> callFs x (FsClose ?tmp); _ \<leftarrow> callFs x (FsRemove ?tmp);
          State_Monad.return (Some m) }
      | None \<Rightarrow> ?finish })
    (\<lambda>r ops. r = None \<longrightarrow> ops = map (\<lambda>e. ReapFile (FsEncode ?tmp e) True) es @
      [ReapFile (FsGzipClose ?tmp) True, ReapFile (FsClose ?tmp) True, ReapFile (FsRename ?tmp path) True])"
  proof (rule logTrace_bind [OF reaps_encodeAll])
    fix re :: "string option" and ops
    assume ops: "re = None \<longrightarrow> ops = map (\<lambda>e. ReapFile (FsEncode ?tmp e) True) es"
    have bad: "reaps (do { _ \<leftarrow> callFs x (FsGzipClose ?tmp); _ \<leftarrow> callFs x (FsClose ?tmp); _ \<leftarrow> callFs x (FsRemove ?tmp);
        State_Monad.return (Some m) }) (\<lambda>r _. r \<noteq> None)" for m
      by (intro reaps_ignored reaps_gives_up)
    show "reaps (case re of Some m \<Rightarrow> do {
          _ \<leftarrow> callFs x (FsGzipClose ?tmp); _ \<leftarrow> callFs x (FsClose ?tmp); _ \<leftarrow> callFs x (FsRemove ?tmp);
          State_Monad.return (Some m) }
      | None \<Rightarrow> ?finish) (\<lambda>r ops'. r = None \<longrightarrow> ops @ ops' = map (\<lambda>e. ReapFile (FsEncode ?tmp e) True) es @
        [ReapFile (FsGzipClose ?tmp) True, ReapFile (FsClose ?tmp) True, ReapFile (FsRename ?tmp path) True])"
    proof (cases re)
      case None
      show ?thesis unfolding None option.case by (rule logTrace_mono [OF last]) (use ops None in simp)
    next
      case (Some m)
      show ?thesis unfolding Some option.case by (rule logTrace_mono [OF bad]) auto
    qed
  qed
  then show ?thesis unfolding writeArchive_def Let_def completeArchive_def append_Cons append_Nil
    by (rule reaps_fs_then [OF reaps_gives_up])
qed

text \<open>Files do not touch the database.\<close>

definition still :: "env \<Rightarrow> db \<Rightarrow> reap_world \<Rightarrow> bool" where
  "still e d w \<longleftrightarrow> quiet w \<and> w_env w = e \<and> w_db w = d"

lemma still_fs: "triple (still e d) (callFs x op) (\<lambda>_. still e d)"
  by (rule tripleI) (auto simp: callFs_def Let_def still_def quiet_def)

lemma still_encodeAll: "triple (still e d) (encodeAll x p es) (\<lambda>_. still e d)"
proof (induction es)
  case (Cons e es)
  then show ?case unfolding encodeAll.simps
    by (intro triple_bind [OF still_fs]) (auto intro!: triple_return split: option.splits)
qed (simp add: triple_return)

lemma still_ignored: "triple (still e d) m Q \<Longrightarrow> triple (still e d) (State_Monad.bind (callFs x op) (\<lambda>_. m)) Q"
  by (rule triple_bind [OF still_fs])

lemma triple_case_option:
  "(x = None \<Longrightarrow> triple P m Q) \<Longrightarrow> (\<And>y. x = Some y \<Longrightarrow> triple P (f y) Q) \<Longrightarrow>
   triple P (case x of None \<Rightarrow> m | Some y \<Rightarrow> f y) Q"
  by (cases x) simp_all

lemma still_writeArchive: "triple (still e d) (writeArchive x path es) (\<lambda>_. still e d)"
  unfolding writeArchive_def Let_def
  by (intro triple_bind [OF still_fs] triple_bind [OF still_encodeAll] triple_case_option still_ignored triple_return)

definition purged :: "string set \<Rightarrow> db \<Rightarrow> db" where
  "purged S d = d\<lparr>events := filter (\<lambda>e. eTaskID e \<notin> S) (events d)\<rparr>"

definition eventsOf :: "string set \<Rightarrow> db \<Rightarrow> agent_event list" where
  "eventsOf S d = filter (\<lambda>e. eTaskID e \<in> S) (events d)"

lemma purged_empty [simp]: "purged {} d = d"
  by (simp add: purged_def)

lemma eventsOf_empty [simp]: "eventsOf {} d = []"
  by (simp add: eventsOf_def)

lemma purged_purged: "purged S (purged T d) = purged (S \<union> T) d"
  by (simp add: purged_def conj_commute)

definition numberedFrom1 :: "db \<Rightarrow> bool" where
  "numberedFrom1 d \<longleftrightarrow> (\<forall>e\<in>set (events d). 0 < eSeq e)"

lemma archived_one:
  assumes "run_state (archiveOneTask x i) w = (r, w')" "quiet w" "numberedFrom1 (w_db w)"
  shows "\<exists>ops. w_reaped w' = w_reaped w @ ops \<and> quiet w' \<and> w_env w' = w_env w \<and>
    (case r of Inl e \<Rightarrow> w_db w' = w_db w
     | Inr n \<Rightarrow> w_db w' = purged {i} (w_db w) \<and> n = int (length (eventsOf {i} (w_db w))) \<and>
         (eventsOf {i} (w_db w) \<noteq> [] \<longrightarrow> (\<exists>path es. ops = completeArchive path es \<and> mset es = mset (eventsOf {i} (w_db w)))))"
proof -
  let ?d = "w_db w" and ?e = "w_env w"
  let ?u = "w\<lparr>w_step := Suc (w_step w)\<rparr>"
  let ?es = "sort_key eSeq (filter (\<lambda>e. eTaskID e = i \<and> eSeq e > 0) (events ?d))"
  have q: "quiet ?u" using assms(2) by (simp add: quiet_def)
  show ?thesis
  proof (cases "e_ctx ?e CallCtx (w_step w) = Live")
    case False
    then obtain er where "run_state (mEventList CallCtx i 0 0) w = (Inl er, ?u)"
      using assms(2) by (cases "e_ctx ?e CallCtx (w_step w)") (auto simp: mEventList_def storeRead_def eventListByTask_def)
    with assms(1) q show ?thesis by (intro exI [of _ "[]"]) (auto simp: archiveOneTask_def)
  next
    case True
    have list: "run_state (mEventList CallCtx i 0 0) w = (Inr ?es, ?u)"
      using True assms(2) by (simp add: mEventList_def storeRead_def eventListByTask_def)
    have es: "?es = sort_key eSeq (eventsOf {i} ?d)"
      using assms(3) by (auto simp: eventsOf_def numberedFrom1_def intro!: arg_cong [of _ _ "sort_key eSeq"] filter_cong)
    show ?thesis
    proof (cases "eventsOf {i} ?d = []")
      case True
      then have "purged {i} ?d = ?d" by (simp add: purged_def eventsOf_def filter_empty_conv)
      moreover have "r = Inr 0" "w' = ?u" using assms(1) list True unfolding es by (simp_all add: archiveOneTask_def)
      ultimately show ?thesis using True q by (intro exI [of _ "[]"]) simp
    next
      case False
      then have ne: "?es \<noteq> []" unfolding es by (metis mset_sort mset_zero_iff)
      let ?now = "e_clock ?e (Suc (w_step w))"
      let ?path = "joinPath (rx_archiveDir x) (''events_'' @ i @ ''_'' @ rx_stamp x ?now @ ''.jsonl.gz'')"
      let ?v = "?u\<lparr>w_step := Suc (Suc (w_step w))\<rparr>"
      have now: "run_state readClock ?u = (?now, ?v)" using q by (simp add: readClock_def)
      obtain rw w2 where rw: "run_state (writeArchive x ?path ?es) ?v = (rw, w2)" by fastforce
      have "still ?e ?d ?v" using assms(2) by (simp add: still_def quiet_def)
      then have st: "still ?e ?d w2" using tripleD [OF still_writeArchive _ rw] by blast
      obtain ops where ops: "w_reaped w2 = w_reaped ?v @ ops" "rw = None \<longrightarrow> ops = completeArchive ?path ?es"
        by (rule logTraceD [OF reaps_writeArchive rw])
      have run: "run_state (case rw of Some m \<Rightarrow> State_Monad.return (Inl (ReapFs m))
          | None \<Rightarrow> do {
              rd \<leftarrow> mEventDeleteByTask CallCtx i;
              State_Monad.return (case rd of Inl e \<Rightarrow> Inl (ReapStore e) | Inr n \<Rightarrow> Inr n) }) w2 = (r, w')"
        using assms(1) list ne now rw by (simp add: archiveOneTask_def Let_def)
      show ?thesis
      proof (cases rw)
        case (Some m)
        with run have "r = Inl (ReapFs m)" "w' = w2" by simp_all
        with st ops show ?thesis by (intro exI [of _ ops]) (simp add: still_def)
      next
        case None
        let ?c = "e_ctx ?e CallCtx (w_step w2)"
        have q2: "quiet w2" "w_db w2 = ?d" "w_env w2 = ?e" using st by (simp_all add: still_def)
        then have q3: "quiet (w2\<lparr>w_step := n, w_db := y\<rparr>)" for n y by (simp add: quiet_def)
        have r: "run_state (mEventDeleteByTask CallCtx i) w2 = (case eventDeleteByTask ?c i ?d of
            Inl er \<Rightarrow> (Inl er, w2\<lparr>w_step := Suc (w_step w2)\<rparr>)
          | Inr (d', n) \<Rightarrow> (Inr n, w2\<lparr>w_step := Suc (w_step w2), w_db := d'\<rparr>))"
          using q2 by (auto simp: mEventDeleteByTask_def storeWrite_def split: sum.splits)
        show ?thesis
        proof (cases "?c = Live")
          case True
          then have "eventDeleteByTask ?c i ?d = Inr (purged {i} ?d, int (length (eventsOf {i} ?d)))"
            by (simp add: eventDeleteByTask_def deleteWhere_def countWhere_def purged_def eventsOf_def)
          with run r None have "r = Inr (int (length (eventsOf {i} ?d)))"
            "w' = w2\<lparr>w_step := Suc (w_step w2), w_db := purged {i} ?d\<rparr>" by simp_all
          moreover have "\<exists>path es. ops = completeArchive path es \<and> mset es = mset (eventsOf {i} ?d)"
            using ops(2) None es by (intro exI [of _ ?path] exI [of _ ?es]) simp
          ultimately show ?thesis using q2 q3 ops(1) by (intro exI [of _ ops]) simp
        next
          case False
          then obtain er where "eventDeleteByTask ?c i ?d = Inl (EExec er)" by (cases ?c) (auto simp: eventDeleteByTask_def)
          with run r None have "r = Inl (ReapStore (EExec er))" "w' = w2\<lparr>w_step := Suc (w_step w2)\<rparr>" by simp_all
          with q2 ops show ?thesis by (intro exI [of _ ops]) (simp add: quiet_def)
        qed
      qed
    qed
  qed
qed

lemma eventsOf_split: "length (eventsOf (insert i S) d) = length (eventsOf {i} d) + length (eventsOf S (purged {i} d))"
proof -
  have "length (filter (\<lambda>e. eTaskID e = i \<or> eTaskID e \<in> S) es) =
      length (filter (\<lambda>e. eTaskID e = i) es) + length (filter (\<lambda>e. eTaskID e \<noteq> i \<and> eTaskID e \<in> S) es)" for es :: "agent_event list"
    by (induction es) auto
  then show ?thesis by (simp add: eventsOf_def purged_def conj_commute)
qed

lemma eventsOf_purged: "j \<noteq> i \<Longrightarrow> eventsOf {j} (purged {i} d) = eventsOf {j} d"
  by (auto simp: eventsOf_def purged_def intro: filter_cong)

text \<open>Every purged event of a task is in a complete archive.\<close>

definition keptInFile :: "db \<Rightarrow> reap_op list \<Rightarrow> string \<Rightarrow> bool" where
  "keptInFile d ops i \<longleftrightarrow> eventsOf {i} d \<noteq> [] \<longrightarrow>
     (\<exists>before path es after. ops = before @ completeArchive path es @ after \<and> mset es = mset (eventsOf {i} d))"

lemma keptInFileI:
  assumes "eventsOf {i} d \<noteq> [] \<longrightarrow> (\<exists>path es. ops = completeArchive path es \<and> mset es = mset (eventsOf {i} d))"
  shows "keptInFile d ops i"
  unfolding keptInFile_def
proof
  assume "eventsOf {i} d \<noteq> []"
  with assms obtain path es where "ops = [] @ completeArchive path es @ []" "mset es = mset (eventsOf {i} d)" by auto
  then show "\<exists>before path es after. ops = before @ completeArchive path es @ after \<and> mset es = mset (eventsOf {i} d)"
    by blast
qed

lemma keptInFile_append:
  assumes "keptInFile d ops i"
  shows "keptInFile d (as @ ops @ bs) i"
proof (cases "eventsOf {i} d = []")
  case False
  with assms obtain before path es after where "ops = before @ completeArchive path es @ after"
    "mset es = mset (eventsOf {i} d)" by (auto simp: keptInFile_def)
  then show ?thesis unfolding keptInFile_def
    by (intro impI exI [of _ "as @ before"] exI [of _ path] exI [of _ es] exI [of _ "after @ bs"]) simp
qed (simp add: keptInFile_def)

lemma keptInFile_purged: "i \<noteq> j \<Longrightarrow> keptInFile (purged {j} d) ops i = keptInFile d ops i"
  using eventsOf_purged [of i j d] by (simp add: keptInFile_def)

lemma archived_tasks:
  assumes "run_state (archiveTasks x cutoff ts (st, err)) w = ((st', err'), w')" "quiet w" "numberedFrom1 (w_db w)"
  shows "\<exists>S ops. S \<subseteq> tID ` set (filter (oldEnough cutoff) ts) \<and> w_reaped w' = w_reaped w @ ops \<and>
    w_db w' = purged S (w_db w) \<and> (\<forall>i\<in>S. keptInFile (w_db w) ops i) \<and>
    asEventsPurged st' = asEventsPurged st + int (length (eventsOf S (w_db w))) \<and> quiet w'"
  using assms
proof (induction ts arbitrary: st err w)
  case Nil
  then show ?case by (intro exI [of _ "{}"] exI [of _ "[]"]) simp
next
  case (Cons t ts)
  let ?d = "w_db w"
  show ?case
  proof (cases "oldEnough cutoff t")
    case False
    with Cons.prems(1) have "run_state (archiveTasks x cutoff ts (st, err)) w = ((st', err'), w')" by simp
    from Cons.IH [OF this Cons.prems(2,3)] show ?thesis by fastforce
  next
    case True
    obtain r w1 where r: "run_state (archiveOneTask x (tID t)) w = (r, w1)" by fastforce
    from archived_one [OF r Cons.prems(2,3)] obtain ops1 where one: "w_reaped w1 = w_reaped w @ ops1" "quiet w1"
      "case r of Inl e \<Rightarrow> w_db w1 = ?d
       | Inr n \<Rightarrow> w_db w1 = purged {tID t} ?d \<and> n = int (length (eventsOf {tID t} ?d)) \<and>
           (eventsOf {tID t} ?d \<noteq> [] \<longrightarrow> (\<exists>path es. ops1 = completeArchive path es \<and> mset es = mset (eventsOf {tID t} ?d)))"
      by blast
    have num: "numberedFrom1 (w_db w1)" using one(3) Cons.prems(3)
      by (auto simp: numberedFrom1_def purged_def split: sum.splits)
    show ?thesis
    proof (cases r)
      case (Inl e)
      with Cons.prems(1) True r have "run_state (archiveTasks x cutoff ts (st, firstOf err e)) w1 = ((st', err'), w')" by simp
      from Cons.IH [OF this one(2) num] obtain S ops where "S \<subseteq> tID ` set (filter (oldEnough cutoff) ts)"
        "w_reaped w' = w_reaped w1 @ ops" "w_db w' = purged S ?d" "\<forall>i\<in>S. keptInFile ?d ops i"
        "asEventsPurged st' = asEventsPurged st + int (length (eventsOf S ?d))" "quiet w'" using one(3) Inl by auto
      with one(1) keptInFile_append [of ?d ops _ ops1 "[]"] show ?thesis
        by (intro exI [of _ S] exI [of _ "ops1 @ ops"]) auto
    next
      case (Inr n)
      let ?st = "st\<lparr>asTasksArchived := asTasksArchived st + 1, asEventsPurged := asEventsPurged st + n\<rparr>"
      from Cons.prems(1) True r Inr have "run_state (archiveTasks x cutoff ts (?st, err)) w1 = ((st', err'), w')" by simp
      from Cons.IH [OF this one(2) num] obtain S ops where S: "S \<subseteq> tID ` set (filter (oldEnough cutoff) ts)"
        "w_reaped w' = w_reaped w1 @ ops" "w_db w' = purged S (purged {tID t} ?d)"
        "\<forall>i\<in>S. keptInFile (purged {tID t} ?d) ops i"
        "asEventsPurged st' = asEventsPurged ?st + int (length (eventsOf S (purged {tID t} ?d)))" "quiet w'" using one(3) Inr by auto
      have "keptInFile ?d ops1 (tID t)" by (rule keptInFileI) (use one(3) Inr in simp)
      from keptInFile_append [OF this, of "[]" ops] have self: "keptInFile ?d (ops1 @ ops) (tID t)" by simp
      have "keptInFile ?d (ops1 @ ops) i" if "i \<in> S" for i
      proof (cases "i = tID t")
        case False
        have "keptInFile ?d ops i" using S(4) that keptInFile_purged [OF False] by blast
        from keptInFile_append [OF this, of ops1 "[]"] show ?thesis by simp
      qed (simp add: self)
      with self have "\<forall>i\<in>insert (tID t) S. keptInFile ?d (ops1 @ ops) i" by blast
      moreover have "insert (tID t) S \<subseteq> tID ` set (filter (oldEnough cutoff) (t # ts))" using S(1) True by auto
      moreover have "w_db w' = purged (insert (tID t) S) ?d" by (simp add: S(3) purged_purged)
      moreover have "asEventsPurged st' = asEventsPurged st + int (length (eventsOf (insert (tID t) S) ?d))"
        using S(5) one(3) Inr by (simp add: eventsOf_split [of "tID t" S ?d])
      moreover have "w_reaped w' = w_reaped w @ ops1 @ ops" using S(2) one(1) by simp
      ultimately show ?thesis using S(6)
        by - (rule exI [of _ "insert (tID t) S"], rule exI [of _ "ops1 @ ops"], intro conjI)
    qed
  qed
qed

text \<open>C39 (nothing is archived away). With the database to itself and every event numbered from 1, a pass of
  the archiver, whatever fails on the way, purges events of nothing but done, cancelled, failed or
  aborted tasks that finished at least the given age ago (30 days if none is given), and all events of
  such a task at once; and it purges them only after all of them were encoded into an archive that
  was closed and renamed to its final name. Nothing else in the database changes, and the pass
  reports how many events it purged.\<close>

theorem archive_loses_nothing:
  assumes "run_state (archiveOldEvents x age) w = ((st, err), w')" "quiet w" "numberedFrom1 (w_db w)"
  shows "\<exists>S ops now. w_reaped w' = w_reaped w @ ops \<and> w_db w' = purged S (w_db w) \<and>
    (\<forall>i\<in>S. keptInFile (w_db w) ops i \<and> (\<exists>r\<in>set (tasks (w_db w)). r_id r = i \<and>
       r_status r \<in> {StatusDone, StatusCancelled, StatusFailed, StatusAborted} \<and>
       (\<exists>f. r_finished_at r = Some f \<and> int f \<le> int now - (if age \<le> 0 then ArchiveDefaultAge else age)))) \<and>
    asEventsPurged st = int (length (eventsOf S (w_db w)))"
proof -
  let ?d = "w_db w" and ?e = "w_env w"
  let ?f = "\<lparr>fRepoID = [], fStatuses = [StatusDone, StatusCancelled, StatusFailed, StatusAborted], fLimit = 0, fAscending = False\<rparr>"
  have nothing: ?thesis if "w_db w' = ?d" "w_reaped w' = w_reaped w @ ops" "st = nothingArchived" for ops
    using that by (intro exI [of _ "{}"] exI [of _ ops]) (simp add: nothingArchived_def)
  consider "\<not> rx_events x \<or> rx_archiveDir x = []" | "rx_events x" "rx_archiveDir x \<noteq> []" by blast
  then show ?thesis
  proof cases
    case 1
    show ?thesis by (rule nothing [of "[]"]) (use assms(1) 1 in \<open>auto simp: archiveOldEvents_def nothingArchived_def split: if_splits\<close>)
  next
    case 2
    obtain mk w1 where mk: "run_state (callFs x (FsMkdir (rx_archiveDir x))) w = (mk, w1)" by fastforce
    obtain ops0 where o: "w_reaped w1 = w_reaped w @ ops0" by (rule logTraceD [OF reaps_fs mk])
    have s1: "quiet w1" "w_env w1 = ?e" "w_db w1 = ?d"
      using tripleD [OF still_fs _ mk, of ?e ?d] assms(2) by (simp_all add: still_def)
    let ?w2 = "w1\<lparr>w_step := Suc (w_step w1)\<rparr>"
    have list: "run_state (mTaskList CallCtx ?f) w1 = (taskList (e_ctx ?e CallCtx (w_step w1)) ?f ?d, ?w2)"
      using s1 by (simp add: mTaskList_def storeRead_def)
    show ?thesis
    proof (cases "mk \<noteq> None \<or> (\<exists>er. taskList (e_ctx ?e CallCtx (w_step w1)) ?f ?d = Inl er)")
      case True
      show ?thesis
        by (rule nothing [of ops0]) (use True assms(1) 2 mk list s1 o in \<open>auto simp: archiveOldEvents_def nothingArchived_def split: option.splits\<close>)
    next
      case False
      then obtain ts where ts: "taskList (e_ctx ?e CallCtx (w_step w1)) ?f ?d = Inr ts" and none: "mk = None"
        by (cases "taskList (e_ctx ?e CallCtx (w_step w1)) ?f ?d") auto
      let ?now = "e_clock ?e (Suc (w_step w1))"
      let ?cut = "int ?now - (if age \<le> 0 then ArchiveDefaultAge else age)"
      let ?w3 = "?w2\<lparr>w_step := Suc (Suc (w_step w1))\<rparr>"
      have q2: "quiet ?w2" using s1(1) by (simp add: quiet_def)
      have now: "run_state readClock ?w2 = (?now, ?w3)" using q2 s1(2) by (simp add: readClock_def)
      obtain st1 e1 w4 where ar: "run_state (archiveTasks x ?cut ts (nothingArchived, None)) ?w3 = ((st1, e1), w4)"
        by (cases "run_state (archiveTasks x ?cut ts (nothingArchived, None)) ?w3") (auto simp del: archiveTasks.simps)
      have "quiet ?w3" "numberedFrom1 (w_db ?w3)" using s1 assms(3) by (simp_all add: quiet_def)
      from archived_tasks [OF ar this] s1(3) have "\<exists>S ops. S \<subseteq> tID ` set (filter (oldEnough ?cut) ts) \<and>
          w_reaped w4 = w_reaped w1 @ ops \<and> w_db w4 = purged S ?d \<and> (\<forall>i\<in>S. keptInFile ?d ops i) \<and>
          asEventsPurged st1 = int (length (eventsOf S ?d)) \<and> quiet w4" by (simp add: nothingArchived_def)
      then obtain S ops where S: "S \<subseteq> tID ` set (filter (oldEnough ?cut) ts)"
        "w_reaped w4 = w_reaped w1 @ ops" "w_db w4 = purged S ?d" "\<forall>i\<in>S. keptInFile ?d ops i"
        "asEventsPurged st1 = int (length (eventsOf S ?d))" "quiet w4" by blast
      have fin: "run_state (afterArchive x (st1, e1)) w4 = ((st, err), w')"
        using assms(1) 2 mk none list ts now ar by (simp add: archiveOldEvents_def Let_def split: if_splits)
      have "st = st1 \<and> w_reaped w' = w_reaped w4 \<and> w_db w' = w_db w4"
      proof -
        have "\<not> asEventsPurged st1 > 0 \<Longrightarrow> st = st1 \<and> w' = w4" using fin by (simp add: afterArchive_def)
        moreover have "asEventsPurged st1 > 0 \<Longrightarrow> st = st1 \<and> w' = stepped w4" using fin by (auto simp: afterArchive_def vacuum_def)
        ultimately show ?thesis using S(6) by fastforce
      qed
      moreover have "\<exists>r\<in>set (tasks ?d). r_id r = i \<and>
         r_status r \<in> {StatusDone, StatusCancelled, StatusFailed, StatusAborted} \<and>
         (\<exists>f. r_finished_at r = Some f \<and> int f \<le> ?cut)" if "i \<in> S" for i
      proof -
        from that S(1) obtain t where t: "t \<in> set ts" "oldEnough ?cut t" "tID t = i" by auto
        with ts obtain r where "r \<in> set (tasks ?d)" "taskMatches ?f r" "t = scanTask r"
          by (auto simp: taskList_def split: option.splits)
        with t show ?thesis
          by (intro bexI [of _ r]) (auto simp: taskMatches_def oldEnough_def scanNullableTime_def split: option.splits if_splits)
      qed
      ultimately show ?thesis using S o keptInFile_append [of ?d ops _ ops0 "[]"]
        by (intro exI [of _ S] exI [of _ "ops0 @ ops"] exI [of _ ?now]) auto
    qed
  qed
qed

section \<open>A world for the witnesses\<close>

text \<open>Task \<open>t1\<close> runs, \<open>t2\<close> was done at time 5; git has a worktree for each and one for a task
  \<open>t9\<close> that is gone; git and the file system do everything they are asked.\<close>

definition reapDB :: db where
  "reapDB = sampleDB\<lparr>
     tasks := [taskRowOf 1 (sampleTask ''t1'' StatusInProgress),
       (taskRowOf 2 ((sampleTask ''t2'' StatusDone)\<lparr>tFinalization := FinalizationKeep\<rparr>))\<lparr>r_finished_at := Some 5\<rparr>],
     events := [(sampleEvent ''e1'')\<lparr>eTaskID := ''t2'', eSeq := 1\<rparr>, (sampleEvent ''e2'')\<lparr>eSeq := 1\<rparr>]\<rparr>"

definition sampleReaper :: reaper where
  "sampleReaper = \<lparr>
     rx_list = (\<lambda>_ _. Inr (map (\<lambda>i. \<lparr>wiPath = ''/wt/'' @ i, wiHEAD = ''91bc'', wiBranch = ''refs/heads/fleetkanban/'' @ i\<rparr>)
        [''t1'', ''t2'', ''t9''])),
     rx_git = (\<lambda>_ c. case c of AskExists _ _ \<Rightarrow> Inr False | _ \<Rightarrow> Inr True), rx_fs = (\<lambda>_ _. None), rx_vacuum = (\<lambda>_. None),
     rx_events = True, rx_archiveDir = ''/archive'', rx_publish = True, rx_stamp = (\<lambda>_. ''now''), rx_duration = (\<lambda>_. ''90ns'')\<rparr>"

definition sampleReap :: reap_world where
  "sampleReap = world.extend (sampleWorld (quietEnv (\<lambda>_ _. Live)) reapDB) \<lparr>w_reaped = [], w_broadcast = []\<rparr>"

lemma sampleReap_simps [simp]:
  "w_env sampleReap = quietEnv (\<lambda>_ _. Live)" "w_step sampleReap = 0" "w_db sampleReap = reapDB" "w_reaped sampleReap = []"
  by (simp_all add: sampleReap_def sampleWorld_def world.extend_def)

lemma wfDB_reap: "wfDB reapDB"
  by (simp add: reapDB_def sample_defs wfDB_def keysOk_def refsOk_def rowsOk_def taskRowOk_iff
      subtaskRowOk_iff eventRowOk_def eventValidate_None taskRowOf_def subtaskRowOf_def)

lemma liveEnv_reap: "liveEnv (w_env sampleReap)" "quiet sampleReap"
  by (simp_all add: liveEnv_def quietEnv_def quiet_def)

lemmas reap_samples = reapDB_def sample_defs taskRowOf_def

lemma sampleReap_live: "w_env w = quietEnv cs \<Longrightarrow> quiet w" "e_ctx (quietEnv cs) = cs" "e_clock (quietEnv cs) = (\<lambda>n. n + 100)"
  by (simp_all add: quiet_def quietEnv_def)

lemma sampleReaper_simps:
  "rx_fs sampleReaper = (\<lambda>_ _. None)" "rx_vacuum sampleReaper = (\<lambda>_. None)" "rx_events sampleReaper"
  "rx_archiveDir sampleReaper = ''/archive''" "rx_stamp sampleReaper = (\<lambda>_. ''now'')"
  by (simp_all add: sampleReaper_def)

lemma sampleReap_written:
  assumes "w_env w = quietEnv (\<lambda>_ _. Live)"
  shows "run_state (writeArchive sampleReaper p [e]) w =
     (None, w\<lparr>w_step := w_step w + 5, w_reaped := w_reaped w @ completeArchive p [e]\<rparr>)"
  by (simp add: assms writeArchive_def callFs_def Let_def sampleReaper_simps sampleReap_live completeArchive_def numeral_eq_Suc)

lemma sampleReap_archived:
  assumes "w_env w = quietEnv (\<lambda>_ _. Live)" "w_db w = reapDB"
  shows "map_prod id (\<lambda>w. (w_env w, map eID (events (w_db w)))) (run_state (archiveOneTask sampleReaper ''t2'') w) =
     (Inr 1, quietEnv (\<lambda>_ _. Live), [''e2''])"
  by (simp add: assms archiveOneTask_def mEventList_def storeRead_def eventListByTask_def readClock_def Let_def sampleReap_live
      sampleReaper_simps sampleReap_written mEventDeleteByTask_def storeWrite_def eventDeleteByTask_def
      deleteWhere_def countWhere_def reap_samples)

lemma sampleReap_tasks:
  assumes "w_env w = quietEnv (\<lambda>_ _. Live)" "w_db w = reapDB"
  obtains t where "run_state (mTaskList CallCtx \<lparr>fRepoID = [],
      fStatuses = [StatusDone, StatusCancelled, StatusFailed, StatusAborted], fLimit = 0, fAscending = False\<rparr>) w =
    (Inr [t], w\<lparr>w_step := Suc (w_step w)\<rparr>)" "tID t = ''t2''" "oldEnough 12 t"
  by (rule that [of "scanTask (tasks reapDB ! 1)"])
    (simp_all add: assms mTaskList_def storeRead_def taskList_def sampleReap_live reap_samples taskMatches_def
      scanTask_def oldEnough_def scanNullableTime_def)

lemma sampleReap_pass:
  "map eID (events (w_db (snd (run_state (archiveOldEvents sampleReaper 90) sampleReap)))) = [''e2'']"
proof -
  let ?l = "[ReapFile (FsMkdir ''/archive'') True]"
  obtain t where t: "run_state (mTaskList CallCtx \<lparr>fRepoID = [],
      fStatuses = [StatusDone, StatusCancelled, StatusFailed, StatusAborted], fLimit = 0, fAscending = False\<rparr>)
      (sampleReap\<lparr>w_step := 1, w_reaped := ?l\<rparr>) = (Inr [t], sampleReap\<lparr>w_reaped := ?l, w_step := 2\<rparr>)"
    "tID t = ''t2''" "oldEnough 12 t"
    by (rule sampleReap_tasks [of "sampleReap\<lparr>w_step := 1, w_reaped := ?l\<rparr>"]) (simp_all add: numeral_eq_Suc)
  let ?w = "sampleReap\<lparr>w_reaped := [ReapFile (FsMkdir ''/archive'') True], w_step := 3\<rparr>"
  obtain r w where "run_state (archiveOneTask sampleReaper ''t2'') ?w = (r, w)" by fastforce
  with sampleReap_archived [of ?w] show ?thesis
    by (simp add: archiveOldEvents_def callFs_def Let_def t [simplified] sampleReap_live sampleReaper_simps readClock_def
        numeral_eq_Suc afterArchive_def vacuum_def nothingArchived_def)
qed

theorem sweep_deletes_only_merged_witness:
  "ssBranchesDeleted (fst (fst (run_state (sweepMergedBranches sampleReaper 90) sampleReap))) = 1"
proof -
  obtain st err w' where run: "run_state (sweepMergedBranches sampleReaper 90) sampleReap = ((st, err), w')"
    by (cases "run_state (sweepMergedBranches sampleReaper 90) sampleReap") auto
  have "w_reaped (snd (run_state (sweepMergedBranches sampleReaper 90) sampleReap)) =
      [ReapGit (AskMerged ''/p'' ''fleetkanban/t2'' ''main'') (Inr True), ReapGit (DeleteMerged ''/p'' ''fleetkanban/t2'') (Inr True)]"
    by code_simp
  with sweep_deletes_only_merged [OF run] run show ?thesis by auto
qed

theorem reaps_only_orphans_witness:
  "ReapGit (RemoveOrphan ''/p'' ''/wt/t9'' ''t9'') (Inr True) \<in> set (w_reaped (snd (run_state (reapOnce sampleReaper) sampleReap))) \<and>
   w_db (snd (run_state (reapOnce sampleReaper) sampleReap)) = reapDB"
proof -
  obtain st err w' where run: "run_state (reapOnce sampleReaper) sampleReap = ((st, err), w')"
    by (cases "run_state (reapOnce sampleReaper) sampleReap") auto
  have "w_reaped (snd (run_state (reapOnce sampleReaper) sampleReap)) = [ReapGit (RemoveOrphan ''/p'' ''/wt/t9'' ''t9'') (Inr True)]"
    by code_simp
  with reaps_only_orphans [OF liveEnv_reap(2) run] run show ?thesis by simp
qed

theorem archive_loses_nothing_witness:
  "\<exists>S. w_db (snd (run_state (archiveOldEvents sampleReaper 90) sampleReap)) = purged S reapDB \<and>
     eventsOf S reapDB = [(sampleEvent ''e1'')\<lparr>eTaskID := ''t2'', eSeq := 1\<rparr>] \<and>
     (\<forall>i\<in>S. keptInFile reapDB (w_reaped (snd (run_state (archiveOldEvents sampleReaper 90) sampleReap))) i)"
proof -
  obtain st err w' where run: "run_state (archiveOldEvents sampleReaper 90) sampleReap = ((st, err), w')"
    by (cases "run_state (archiveOldEvents sampleReaper 90) sampleReap") auto
  have left: "map eID (events (w_db w')) = [''e2'']" using sampleReap_pass run by simp
  have "numberedFrom1 (w_db sampleReap)" by (simp add: numberedFrom1_def reapDB_def sample_defs)
  from archive_loses_nothing [OF run liveEnv_reap(2) this] obtain S where S: "w_db w' = purged S reapDB"
    "\<forall>i\<in>S. keptInFile reapDB (w_reaped w') i" by auto
  from left have "''t2'' \<in> S" "''t1'' \<notin> S" unfolding S(1) by (auto simp: purged_def reap_samples split: if_splits)
  then show ?thesis using S run by (intro exI [of _ S]) (simp add: eventsOf_def reap_samples)
qed

end
