(* ===== verification/Reaper_Flags.thy ===== *)
theory Reaper_Flags
  imports Reaper_Theorems
begin

text \<open>
  The reaper's pass over the branch flags: with the database to itself and git answering, every
  task with a branch ends with the flag that git gives, and no other column of any task changes.
\<close>

section \<open>Branch flags\<close>

text \<open>One task's row, while the repositories stay as they are.\<close>

definition kept :: "string \<Rightarrow> task_row \<Rightarrow> repo_row list \<Rightarrow> reap_world \<Rightarrow> bool" where
  "kept i r R w \<longleftrightarrow> holds i r w \<and> repositories (w_db w) = R"

lemma effects_mEventAppend [effects_intros]:
  assumes "\<And>cx. Q (OpEventAppend cx e)"
  shows "effects Q (mEventAppend c e)"
  unfolding mEventAppend_def
  by (rule effects_storeWrite, drule wrote_InrD)
    (metis assms dbStep.simps(13) dbStep_committed(1))

lemma kept_git: "triple (kept i r R) (callGitR x op) (\<lambda>a w. (\<exists>n. a = rx_git x n op) \<and> kept i r R w)"
  by (rule tripleI) (auto simp: callGitR_def Let_def kept_def holds_def liveEnv_def stepped_def)

lemma kept_cached:
  assumes "\<forall>(k, p)\<in>set cache. \<exists>q. lookupBy rp_id k R = Some q \<and> rp_path q = p" "lookupBy rp_id rid R = Some q"
  shows "triple (kept i r R) (cachedPath cache rid)
    (\<lambda>a w. \<exists>cache'. a = Inr (rp_path q, cache') \<and> (\<forall>(k, p)\<in>set cache'. \<exists>q. lookupBy rp_id k R = Some q \<and> rp_path q = p) \<and> kept i r R w)"
proof (cases "map_of cache rid")
  case (Some p)
  with assms have "p = rp_path q" by (auto dest!: map_of_SomeD)
  with Some assms(1) show ?thesis by (simp add: cachedPath_def triple_return)
next
  case None
  show ?thesis
  proof (rule tripleI)
    fix w a w'
    assume k: "kept i r R w" and run: "run_state (cachedPath cache rid) w = (a, w')"
    then have l: "liveEnv (w_env w)" by (simp add: kept_def holds_def)
    then have "a = Inr (rp_path q, (rid, rp_path q) # cache)" "w' = w\<lparr>w_step := Suc (w_step w)\<rparr>"
      using run None assms(2) live_quiet [OF l] k
      by (auto simp: cachedPath_def mRepoGet_def storeRead_def repoGet_def liveEnv_def kept_def scanRepository_def)
    with assms k show "\<exists>cache'. a = Inr (rp_path q, cache') \<and>
        (\<forall>(k, p)\<in>set cache'. \<exists>q. lookupBy rp_id k R = Some q \<and> rp_path q = p) \<and> kept i r R w'"
      by (auto simp: kept_def holds_def)
  qed
qed

lemma db_stepped_broadcast [simp]:
  "w_db (snd (run_state (broadcast x e) w)) = w_db w" "w_env (snd (run_state (broadcast x e) w)) = w_env w"
  by (simp_all add: broadcast_def)

lemma effects_emitBranchGC: "effects (\<lambda>a. \<exists>cx e. a = OpEventAppend cx e) (emitBranchGC x i body)"
  unfolding emitBranchGC_def Let_def mNextSeq_def
  by (intro effects_intros effects_pure) auto

lemma kept_emit: "triple (kept i r R) (emitBranchGC x j body) (\<lambda>_. kept i r R)"
proof (rule tripleI)
  fix w a w'
  assume k: "kept i r R w" and run: "run_state (emitBranchGC x j body) w = (a, w')"
  then have q: "quiet w" "wfDB (w_db w)" using live_quiet by (auto simp: kept_def holds_def)
  let ?P = "\<lambda>d. tasks d = tasks (w_db w) \<and> repositories d = R"
  have "?P (w_db (snd (run_state (emitBranchGC x j body) w)))"
    by (rule effects_quiet_keep [OF effects_emitBranchGC q(1) _ q(2)])
      (use k in \<open>auto simp: committed_def eventAppend_def insertEvent_def kept_def split: option.splits\<close>)
  moreover have "wfDB (w_db w')" "w_env w' = w_env w"
    using effects_wf [OF effects_emitBranchGC q(2), of x j body] effects_emitBranchGC [of x j body] run
    by (simp_all add: effects_def) (metis snd_conv)
  ultimately show "kept i r R w'" using k run by (simp add: kept_def holds_def)
qed

text \<open>A flag that was brought up to date.\<close>

definition flagged :: "bool \<Rightarrow> task_row \<Rightarrow> task_row \<Rightarrow> bool" where
  "flagged ok r r' \<longleftrightarrow> (r_branch_exists r' \<noteq> 0 \<longleftrightarrow> ok) \<and>
     (\<exists>b now. r' = r\<lparr>r_branch_exists := b, r_updated_at := now\<rparr>)"

lemma kept_setBranchExists:
  "triple (kept i r R) (mSetBranchExists CallCtx j ok)
    (\<lambda>a w. a = Inr () \<and> (\<exists>r'. kept i r' R w \<and> (if j = i then flagged ok r r' else r' = r)))"
proof (rule tripleI)
  fix w a w'
  assume k: "kept i r R w" and run: "run_state (mSetBranchExists CallCtx j ok) w = (a, w')"
  have l: "liveEnv (w_env w)" and row: "lookupBy r_id i (tasks (w_db w)) = Some r" and wf: "wfDB (w_db w)"
    using k by (simp_all add: kept_def holds_def)
  let ?now = "e_clock (w_env w) (w_step w)"
  let ?g = "\<lambda>r. r\<lparr>r_branch_exists := (if ok then 1 else 0), r_updated_at := ?now\<rparr>"
  let ?d = "(w_db w)\<lparr>tasks := updateWhere (\<lambda>r. r_id r = j) ?g (tasks (w_db w))\<rparr>"
  have s: "setBranchExists ?now Live j ok (w_db w) = Inr ?d" by (simp add: setBranchExists_def)
  have w': "a = Inr ()" "w' = w\<lparr>w_step := Suc (w_step w), w_db := ?d\<rparr>"
    using run live_quiet [OF l] l s by (simp_all add: mSetBranchExists_def storeWrite_def liveEnv_def)
  have "lookupBy r_id i (tasks ?d) = Some (if j = i then ?g r else r)"
    using row lookupBy_SomeD [OF row] by (auto simp: lookupBy_updateWhere)
  moreover have "flagged ok r (?g r)" unfolding flagged_def by (intro conjI exI) simp_all
  ultimately show "a = Inr () \<and> (\<exists>r'. kept i r' R w' \<and> (if j = i then flagged ok r r' else r' = r))"
    using k w' l setBranchExists_wf [OF wf s]
    by (intro conjI exI [of _ "if j = i then ?g r else r"]) (auto simp: kept_def holds_def)
qed

lemma kept_flagBranch:
  "triple (kept i r R) (flagBranch x t ok err)
    (\<lambda>a w. a = err \<and> (\<exists>r'. kept i r' R w \<and>
       (if tID t = i then (if ok = tBranchExists t then r' = r else flagged ok r r') else r' = r)))"
proof (cases "ok = tBranchExists t")
  case True
  then show ?thesis by (simp add: flagBranch_def) (rule triple_return, simp)
next
  case False
  have go: "triple (\<lambda>w. a = Inr () \<and> (\<exists>r'. kept i r' R w \<and> (if tID t = i then flagged ok r r' else r' = r)))
      (case a of Inl e \<Rightarrow> State_Monad.return (firstOf err (ReapStore e))
       | Inr _ \<Rightarrow> do { _ \<leftarrow> appendBranchExistsChangeEvent x t ok; State_Monad.return err })
      (\<lambda>a w. a = err \<and> (\<exists>r'. kept i r' R w \<and> (if tID t = i then flagged ok r r' else r' = r)))"
    for a :: "store_error + unit"
  proof (rule triple_when, simp only: sum.case, rule triple_ex_pre)
    fix r'
    have emit: "triple (\<lambda>w. kept i r' R w \<and> b) (appendBranchExistsChangeEvent x t ok) (\<lambda>_ w. kept i r' R w \<and> b)" for b
      using kept_emit unfolding appendBranchExistsChangeEvent_def triple_def by blast
    show "triple (\<lambda>w. kept i r' R w \<and> (if tID t = i then flagged ok r r' else r' = r))
        (appendBranchExistsChangeEvent x t ok \<bind> (\<lambda>_. State_Monad.return err))
        (\<lambda>a w. a = err \<and> (\<exists>r'. kept i r' R w \<and> (if tID t = i then flagged ok r r' else r' = r)))"
      by (rule triple_bind [OF emit], rule triple_return) blast
  qed
  from False show ?thesis unfolding flagBranch_def if_not_P [OF False]
    by (simp only: False if_False) (rule triple_bind [OF kept_setBranchExists go])
qed

text \<open>Where one task's row stands after its turn.\<close>

definition brought :: "(string \<Rightarrow> string \<Rightarrow> bool) \<Rightarrow> repo_row list \<Rightarrow> task \<Rightarrow> task_row \<Rightarrow> task_row \<Rightarrow> bool" where
  "brought f R t r r' \<longleftrightarrow>
     (if tBranch t = [] then r' = r
      else \<exists>q. lookupBy rp_id (tRepoID t) R = Some q \<and>
        (let ok = f (rp_path q) (tBranch t) in if ok = tBranchExists t then r' = r else flagged ok r r'))"

definition cached :: "repo_row list \<Rightarrow> repo_cache \<Rightarrow> bool" where
  "cached R cache \<longleftrightarrow> (\<forall>(k, p)\<in>set cache. \<exists>q. lookupBy rp_id k R = Some q \<and> rp_path q = p)"

lemma kept_flagBranches:
  assumes "\<And>n repo b. rx_git x n (AskExists repo b) = Inr (f repo b)"
    "\<forall>t\<in>set ts. \<exists>q. lookupBy rp_id (tRepoID t) R = Some q" "distinct (map tID ts)" "cached R cache"
  shows "triple (kept i r R) (flagBranches x cache ts err)
    (\<lambda>a w. a = err \<and> (\<exists>r'. kept i r' R w \<and> (\<forall>t\<in>set ts. tID t = i \<longrightarrow> brought f R t r r') \<and>
       (i \<notin> tID ` set ts \<longrightarrow> r' = r)))"
  using assms(2-)
proof (induction ts arbitrary: cache r err)
  case Nil
  show ?case by (simp add: triple_return)
next
  case (Cons t ts)
  let ?Q = "\<lambda>a w. a = err \<and> (\<exists>r'. kept i r' R w \<and> (\<forall>u\<in>set (t # ts). tID u = i \<longrightarrow> brought f R u r r') \<and>
       (i \<notin> tID ` set (t # ts) \<longrightarrow> r' = r))"
  have rest: "triple (kept i r' R) (flagBranches x cache' ts err) ?Q"
    if "cached R cache'" "if tID t = i then brought f R t r r' else r' = r" for cache' r'
  proof (rule triple_conseq [OF Cons.IH [of cache' r' err]])
    have other: "tID t \<notin> tID ` set ts" using Cons.prems(2) by simp
    fix a w
    assume "a = err \<and> (\<exists>r''. kept i r'' R w \<and> (\<forall>u\<in>set ts. tID u = i \<longrightarrow> brought f R u r' r'') \<and>
      (i \<notin> tID ` set ts \<longrightarrow> r'' = r'))"
    then obtain r'' where r: "a = err" "kept i r'' R w" "\<forall>u\<in>set ts. tID u = i \<longrightarrow> brought f R u r' r''"
      "i \<notin> tID ` set ts \<longrightarrow> r'' = r'" by blast
    show "?Q a w"
    proof (cases "tID t = i")
      case True
      then have "r'' = r'" "\<forall>u\<in>set ts. tID u \<noteq> i" using r(4) other by (auto simp: image_iff)
      with r that(2) True show ?thesis by (intro conjI exI [of _ r']) auto
    next
      case False
      with r that(2) show ?thesis by (intro conjI exI [of _ r'']) auto
    qed
  qed (use Cons.prems that in auto)
  show ?case
  proof (cases "tBranch t = []")
    case True
    with rest [OF Cons.prems(3), of r] show ?thesis by (simp add: brought_def)
  next
    case False
    obtain q where q: "lookupBy rp_id (tRepoID t) R = Some q" using Cons.prems(1) by auto
    let ?ok = "f (rp_path q) (tBranch t)"
    have step: "triple (kept i r R)
        (callGitR x (AskExists (rp_path q) (tBranch t)) \<bind> case_sum
          (\<lambda>m. flagBranches x cache' ts (firstOf err (ReapGitFailed m)))
          (\<lambda>ok. flagBranch x t ok err \<bind> flagBranches x cache' ts)) ?Q" if c: "cached R cache'" for cache'
    proof (rule triple_bind [OF kept_git])
      fix a
      show "triple (\<lambda>w. (\<exists>n. a = rx_git x n (AskExists (rp_path q) (tBranch t))) \<and> kept i r R w)
          (case a of Inl m \<Rightarrow> flagBranches x cache' ts (firstOf err (ReapGitFailed m))
           | Inr ok \<Rightarrow> flagBranch x t ok err \<bind> flagBranches x cache' ts) ?Q"
      proof (rule triple_when)
        assume "\<exists>n. a = rx_git x n (AskExists (rp_path q) (tBranch t))"
        then have a: "a = Inr ?ok" by (simp add: assms(1))
        show "triple (kept i r R) (case a of Inl m \<Rightarrow> flagBranches x cache' ts (firstOf err (ReapGitFailed m))
           | Inr ok \<Rightarrow> flagBranch x t ok err \<bind> flagBranches x cache' ts) ?Q"
          unfolding a sum.case
        proof (rule triple_bind [OF kept_flagBranch], rule triple_when, simp only:, rule triple_ex_pre)
          fix r'
          show "triple (\<lambda>w. kept i r' R w \<and>
              (if tID t = i then (if ?ok = tBranchExists t then r' = r else flagged ?ok r r') else r' = r))
              (flagBranches x cache' ts err) ?Q"
            unfolding conj_commute [of "kept i r' R _"]
            by (rule triple_when, rule rest [OF c]) (use False q in \<open>simp add: brought_def Let_def split: if_splits\<close>)
        qed
      qed
    qed
    show ?thesis unfolding flagBranches.simps if_not_P [OF False]
    proof (rule triple_bind [OF kept_cached [OF Cons.prems(3) [unfolded cached_def] q]])
      fix a
      show "triple (\<lambda>w. \<exists>cache'. a = Inr (rp_path q, cache') \<and>
          (\<forall>(k, p)\<in>set cache'. \<exists>q. lookupBy rp_id k R = Some q \<and> rp_path q = p) \<and> kept i r R w)
          (case a of Inl e \<Rightarrow> flagBranches x cache ts (firstOf err (ReapStore e))
           | Inr (repo, cache') \<Rightarrow> callGitR x (AskExists repo (tBranch t)) \<bind> case_sum
               (\<lambda>m. flagBranches x cache' ts (firstOf err (ReapGitFailed m)))
               (\<lambda>ok. flagBranch x t ok err \<bind> flagBranches x cache' ts)) ?Q"
        unfolding cached_def [symmetric]
        by (rule triple_ex_pre, rule triple_when, rule triple_when) (use step in simp)
    qed
  qed
qed

text \<open>Branch flags follow git. With the database to itself, live contexts and git answering the same
  for the same branch throughout, a pass over the branch flags reports no error. A task without a branch
  keeps its row; the row of any other task ends with the flag that git gives for its branch in
  its repository, and nothing but the flag and the update time can have changed, neither there nor in
  the table of repositories.\<close>

theorem flags_follow_git:
  assumes "liveEnv (w_env w)" "wfDB (w_db w)" "lookupBy r_id i (tasks (w_db w)) = Some r"
    "\<And>n repo b. rx_git x n (AskExists repo b) = Inr (f repo b)"
    "run_state (updateBranchExistence x) w = (err, w')"
  shows "err = None \<and> repositories (w_db w') = repositories (w_db w) \<and>
    (\<exists>r' q. lookupBy r_id i (tasks (w_db w')) = Some r' \<and>
       lookupBy rp_id (r_repository_id r) (repositories (w_db w)) = Some q \<and>
       (if tBranch (scanTask r) = [] then r' = r
        else (r_branch_exists r' \<noteq> 0) = f (rp_path q) (tBranch (scanTask r)) \<and>
          (\<exists>b now. r' = r\<lparr>r_branch_exists := b, r_updated_at := now\<rparr>)))"
proof -
  let ?R = "repositories (w_db w)" and ?w1 = "w\<lparr>w_step := Suc (w_step w)\<rparr>"
  let ?f = "\<lparr>fRepoID = [], fStatuses = [], fLimit = 0, fAscending = False\<rparr>"
  let ?ts = "map scanTask (sort_key (\<lambda>r. - int (r_updated_at r)) (tasks (w_db w)))"
  have "filter (taskMatches ?f) (tasks (w_db w)) = tasks (w_db w)" by (simp add: taskMatches_def)
  then have list: "run_state (mTaskList CallCtx ?f) w = (Inr ?ts, ?w1)"
    using live_quiet [OF assms(1)] assms(1)
    by (simp add: mTaskList_def storeRead_def taskList_def liveEnv_def)
  have loop: "run_state (flagBranches x [] ?ts None) ?w1 = (err, w')"
    using assms(5) list by (simp add: updateBranchExistence_def)
  have refs: "\<exists>q. lookupBy rp_id (r_repository_id s) ?R = Some q" if "s \<in> set (tasks (w_db w))" for s
  proof -
    have "r_repository_id s \<in> rp_id ` set ?R" using assms(2) that by (auto simp: wfDB_def refsOk_def)
    with lookupBy_None [of rp_id "r_repository_id s" ?R] show ?thesis by blast
  qed
  have keys: "distinct (map tID ?ts)"
    using wfDB_task_keys [OF assms(2)] by (simp add: distinct_map comp_def)
  have row: "r \<in> set (tasks (w_db w))" "r_id r = i" using lookupBy_SomeD [OF assms(3)] by auto
  have "kept i r ?R ?w1" using assms(1-3) by (simp add: kept_def holds_def)
  moreover have "\<forall>t\<in>set ?ts. \<exists>q. lookupBy rp_id (tRepoID t) ?R = Some q" using refs by simp
  moreover have "cached ?R []" by (simp add: cached_def)
  ultimately obtain r' where r': "err = None" "kept i r' ?R w'" "\<forall>t\<in>set ?ts. tID t = i \<longrightarrow> brought f ?R t r r'"
    using tripleD [OF kept_flagBranches [OF assms(4) _ keys, of ?R "[]"] _ loop] by blast
  then have b: "brought f ?R (scanTask r) r r'" using row by auto
  obtain q where q: "lookupBy rp_id (r_repository_id r) ?R = Some q" using refs row by blast
  have same: "\<exists>b now. r = r\<lparr>r_branch_exists := b, r_updated_at := now\<rparr>"
    by (intro exI [of _ "r_branch_exists r"] exI [of _ "r_updated_at r"]) simp
  have "if tBranch (scanTask r) = [] then r' = r
        else (r_branch_exists r' \<noteq> 0) = f (rp_path q) (tBranch (scanTask r)) \<and>
          (\<exists>b now. r' = r\<lparr>r_branch_exists := b, r_updated_at := now\<rparr>)"
  proof (cases "tBranch (scanTask r) = []")
    case False
    let ?ok = "f (rp_path q) (tBranch (scanTask r))"
    from b False q have b: "if ?ok = tBranchExists (scanTask r) then r' = r else flagged ?ok r r'"
      by (auto simp: brought_def Let_def)
    show ?thesis
    proof (cases "?ok = tBranchExists (scanTask r)")
      case True
      with b same False show ?thesis by simp
    next
      case other: False
      from b have "flagged ?ok r r'" unfolding if_not_P [OF other] .
      then show ?thesis unfolding flagged_def if_not_P [OF False] .
    qed
  qed (use b in \<open>simp add: brought_def\<close>)
  with r' q show ?thesis
    by (intro conjI exI [of _ r'] exI [of _ q]) (simp_all add: kept_def holds_def)
qed

theorem flags_follow_git_witness:
  "\<exists>r'. lookupBy r_id ''t2'' (tasks (w_db (snd (run_state (updateBranchExistence sampleReaper) sampleReap)))) = Some r' \<and>
     r_branch_exists r' = 0"
proof -
  obtain err w' where run: "run_state (updateBranchExistence sampleReaper) sampleReap = (err, w')" by fastforce
  let ?r = "(taskRowOf 2 ((sampleTask ''t2'' StatusDone)\<lparr>tFinalization := FinalizationKeep\<rparr>))\<lparr>r_finished_at := Some 5\<rparr>"
  have "lookupBy r_id ''t2'' (tasks (w_db sampleReap)) = Some ?r" by (simp add: reap_samples)
  from flags_follow_git [OF liveEnv_reap(1) _ this _ run, of "\<lambda>_ _. False"] run wfDB_reap show ?thesis
    by (auto simp: sampleReaper_def taskRowOf_def sampleTask_def scanTask_def)
qed

end
