(* ===== verification/Win_Path.thy ===== *)
theory Win_Path
  imports FK_Prelude
begin

text \<open>
  Go's package \<open>path/filepath\<close> on Windows, as far as the sources use it: volume names, Clean, Dir, Base
  and Join, on paths with either separator. The lemmas are about paths in normal form: a volume, a
  backslash, and plain components.
\<close>

section \<open>Volume names\<close>

abbreviation bs :: char where
  "bs \<equiv> CHR 0x5C"

definition isSep :: "char \<Rightarrow> bool" where
  "isSep c \<longleftrightarrow> c = bs \<or> c = CHR ''/''"

definition upperASCII :: "char \<Rightarrow> char" where
  "upperASCII c = (let n = of_char c :: nat in if 97 \<le> n \<and> n \<le> 122 then char_of (n - 32) else c)"

definition sameFold :: "char \<Rightarrow> char \<Rightarrow> bool" where
  "sameFold p c \<longleftrightarrow> (if isSep p then isSep c else upperASCII p = upperASCII c)"

definition prefixFold :: "string \<Rightarrow> string \<Rightarrow> bool" where
  "prefixFold s p \<longleftrightarrow> length p \<le> length s \<and> list_all2 sameFold p (take (length p) s) \<and>
     (length p < length s \<longrightarrow> isSep (s ! length p))"

text \<open>The characters before the second separator.\<close>

fun uncFrom :: "nat \<Rightarrow> string \<Rightarrow> nat" where
  "uncFrom k [] = 0"
| "uncFrom k (c # cs) = (if isSep c then (if k \<le> 1 then 0 else Suc (uncFrom (k - 1) cs)) else Suc (uncFrom k cs))"

definition uncLen :: "string \<Rightarrow> nat \<Rightarrow> nat" where
  "uncLen p n = (if length p < n then length p else n + uncFrom 2 (drop n p))"

definition volumeLen :: "string \<Rightarrow> nat" where
  "volumeLen p =
     (if length p \<ge> 2 \<and> p ! 1 = CHR '':'' then 2
      else if p = [] \<or> \<not> isSep (hd p) then 0
      else if prefixFold p [bs, bs, CHR ''.'', bs, CHR ''U'', CHR ''N'', CHR ''C''] then uncLen p 8
      else if prefixFold p [bs, bs, CHR ''.''] \<or> prefixFold p [bs, bs, CHR ''?''] \<or> prefixFold p [bs, CHR ''?'', CHR ''?'']
        then (if length p = 3 then 3 else 4 + length (takeWhile (\<lambda>c. \<not> isSep c) (drop 4 p)))
      else if length p \<ge> 2 \<and> isSep (p ! 1) then uncLen p 2
      else 0)"

section \<open>Clean\<close>

definition fromSlash :: "string \<Rightarrow> string" where
  "fromSlash = map (\<lambda>c. if c = CHR ''/'' then bs else c)"

definition sepParts :: "string \<Rightarrow> string list" where
  "sepParts s = splitOn bs (fromSlash s)"

definition rendered :: "bool \<Rightarrow> string list \<Rightarrow> string" where
  "rendered rooted acc = (if rooted then [bs] else []) @ joinWith [bs] (rev acc)"

text \<open>The components kept so far, last first, and whether the output has parted from the input.\<close>

fun cleanParts :: "string \<Rightarrow> bool \<Rightarrow> string list \<Rightarrow> string list \<Rightarrow> bool \<Rightarrow> string list \<times> bool" where
  "cleanParts p rooted [] acc changed = (acc, changed)"
| "cleanParts p rooted (c # cs) acc changed =
     (if c = [] \<or> c = ''.'' then cleanParts p rooted cs acc changed
      else if c = ''..'' \<and> acc \<noteq> [] \<and> hd acc \<noteq> ''..'' then cleanParts p rooted cs (tl acc) changed
      else if c = ''..'' \<and> rooted then cleanParts p rooted cs acc changed
      else cleanParts p rooted cs (c # acc) (changed \<or> \<not> hasPrefix p (rendered rooted (c # acc))))"

text \<open>Cleaning may not make a path absolute.\<close>

definition postClean :: "bool \<Rightarrow> string \<Rightarrow> string" where
  "postClean changed s =
     (if \<not> changed then s
      else if CHR '':'' \<in> set (takeWhile (\<lambda>c. \<not> isSep c) s) then CHR ''.'' # bs # s
      else if length s \<ge> 3 \<and> isSep (s ! 0) \<and> s ! 1 = CHR ''?'' \<and> s ! 2 = CHR ''?'' then bs # CHR ''.'' # s
      else s)"

definition clean :: "string \<Rightarrow> string" where
  "clean p =
     (let n = volumeLen p; vol = take n p; rest = drop n p; rooted = rest \<noteq> [] \<and> isSep (hd rest)
      in if rest = [] then (if n > 1 \<and> isSep (p ! 0) \<and> isSep (p ! 1) then fromSlash p else p @ ''.'')
         else let (acc, changed) = cleanParts rest rooted (sepParts rest) [] (rooted \<and> hd rest \<noteq> bs);
                  out = rendered rooted acc;
                  out = (if out = [] then ''.'' else out)
              in fromSlash vol @ (if n = 0 then postClean changed out else out))"

section \<open>Dir, Base and Join\<close>

definition lastPart :: "string \<Rightarrow> string" where
  "lastPart s = rev (takeWhile (\<lambda>c. \<not> isSep c) (rev s))"

definition uptoLastSep :: "string \<Rightarrow> string" where
  "uptoLastSep s = rev (dropWhile (\<lambda>c. \<not> isSep c) (rev s))"

definition dirOf :: "string \<Rightarrow> string" where
  "dirOf p =
     (let n = volumeLen p; d = clean (uptoLastSep (drop n p))
      in if d = ''.'' \<and> n > 2 then take n p else take n p @ d)"

definition baseOf :: "string \<Rightarrow> string" where
  "baseOf p =
     (if p = [] then ''.''
      else let s = rev (dropWhile isSep (rev p)); l = lastPart (drop (volumeLen s) s)
           in if l = [] then [bs] else l)"

fun joinElems :: "string \<Rightarrow> string list \<Rightarrow> string" where
  "joinElems out [] = out"
| "joinElems out (e # es) =
     (if out = [] then joinElems e es
      else if isSep (last out) then
        let e = dropWhile isSep e;
            dot = (if length out = 1 \<and> hasPrefix e ''??'' \<and> (length e = 2 \<or> isSep (e ! 2)) then [CHR ''.'', bs] else [])
        in joinElems (out @ dot @ e) es
      else if last out = CHR '':'' then joinElems (out @ e) es
      else joinElems (out @ [bs] @ e) es)"

definition joinPaths :: "string list \<Rightarrow> string" where
  "joinPaths es = (let s = joinElems [] es in if s = [] then [] else clean s)"

section \<open>Paths in normal form\<close>

definition plain :: "string \<Rightarrow> bool" where
  "plain c \<longleftrightarrow> c \<noteq> [] \<and> c \<noteq> ''.'' \<and> c \<noteq> ''..'' \<and> c \<noteq> ''??'' \<and> (\<forall>x\<in>set c. \<not> isSep x \<and> x \<noteq> CHR '':'')"

definition rooted :: "string \<Rightarrow> string list \<Rightarrow> string" where
  "rooted vol cs = vol @ bs # joinWith [bs] cs"

definition isVolume :: "string \<Rightarrow> bool" where
  "isVolume vol \<longleftrightarrow> vol \<noteq> [] \<and> CHR ''/'' \<notin> set vol \<and> last vol \<noteq> bs \<and> (\<forall>rest. volumeLen (vol @ bs # rest) = length vol)"

lemma isVolume_drive: "c \<noteq> CHR ''/'' \<Longrightarrow> isVolume [c, CHR '':'']"
  by (auto simp: isVolume_def volumeLen_def)

lemma isVolume_verbatim: "isVolume [bs, bs, CHR ''?'', bs, c, CHR '':'']" if "\<not> isSep c" for c
  using that by (auto simp: isVolume_def volumeLen_def prefixFold_def sameFold_def isSep_def upperASCII_def numeral_eq_Suc)

lemma plain_noSep: "plain c \<Longrightarrow> bs \<notin> set c \<and> CHR ''/'' \<notin> set c"
  by (auto simp: plain_def isSep_def)

lemma fromSlash_id: "CHR ''/'' \<notin> set s \<Longrightarrow> fromSlash s = s"
  unfolding fromSlash_def by (rule map_idI) auto

lemma set_joinWith: "set (joinWith sep cs) \<subseteq> (\<Union>c\<in>set cs. set c) \<union> set sep"
  by (induction sep cs rule: joinWith.induct) auto

lemma plain_last: "\<forall>c\<in>set cs. plain c \<Longrightarrow> cs \<noteq> [] \<Longrightarrow> plain (last cs)"
  by simp

lemma noSlash_joined: "\<forall>c\<in>set cs. plain c \<Longrightarrow> CHR ''/'' \<notin> set (joinWith [bs] cs)"
  using set_joinWith [of "[bs]" cs] plain_noSep by fastforce

lemma sepParts_rooted: "\<forall>c\<in>set cs. plain c \<Longrightarrow> cs \<noteq> [] \<Longrightarrow> sepParts (bs # joinWith [bs] cs) = [] # cs"
  using noSlash_joined [of cs] plain_noSep by (auto simp: sepParts_def fromSlash_id split_join)

lemma joinWith_append: "as \<noteq> [] \<Longrightarrow> cs \<noteq> [] \<Longrightarrow> joinWith sep (as @ cs) = joinWith sep as @ sep @ joinWith sep cs"
  by (induction as rule: induct_list012) (auto simp: joinWith_Cons)

lemma hasPrefix_trans: "hasPrefix s p \<Longrightarrow> hasPrefix p q \<Longrightarrow> hasPrefix s q"
  unfolding hasPrefix_iff by (metis append.assoc)

lemma cleanParts_plain:
  assumes "\<forall>c\<in>set cs. plain c" "\<forall>e\<in>set es. e = []" "hasPrefix p (bs # joinWith [bs] (rev acc @ cs))"
  shows "cleanParts p True (cs @ es) acc False = (rev cs @ acc, False)"
  using assms
proof (induction cs arbitrary: acc)
  case Nil
  then show ?case by (induction es) simp_all
next
  case (Cons c cs)
  have "hasPrefix (bs # joinWith [bs] ((rev acc @ [c]) @ cs)) (rendered True (c # acc))"
  proof (cases "cs = []")
    case False
    have "joinWith [bs] ((rev acc @ [c]) @ cs) = joinWith [bs] (rev acc @ [c]) @ [bs] @ joinWith [bs] cs"
      by (rule joinWith_append) (use False in auto)
    then show ?thesis by (auto simp: rendered_def hasPrefix_iff)
  qed (simp add: rendered_def)
  with Cons.prems(3) have "hasPrefix p (rendered True (c # acc))" by (auto intro: hasPrefix_trans)
  moreover have "cleanParts p True (cs @ es) (c # acc) False = (rev cs @ c # acc, False)"
    by (rule Cons.IH) (use Cons.prems in simp_all)
  ultimately show ?case using Cons.prems(1) by (simp add: plain_def)
qed

text \<open>Paths in normal form stay as they are, lose their last component, and give it.\<close>

lemma clean_body:
  assumes "\<forall>c\<in>set cs. plain c"
  shows "cleanParts (bs # joinWith [bs] cs) True (sepParts (bs # joinWith [bs] cs)) [] False = (rev cs, False)"
proof (cases "cs = []")
  case False
  with cleanParts_plain [OF assms, of "[]" "bs # joinWith [bs] cs" "[]"] assms show ?thesis
    by (simp add: sepParts_rooted)
qed (simp add: sepParts_def fromSlash_def)

lemma clean_rooted:
  assumes "isVolume vol" "\<forall>c\<in>set cs. plain c"
  shows "clean (rooted vol cs) = rooted vol cs"
  using assms clean_body [OF assms(2)]
  by (simp add: clean_def rooted_def isVolume_def Let_def isSep_def rendered_def fromSlash_id)

lemma sameFold_qm: "sameFold (CHR ''?'') a \<longleftrightarrow> a = CHR ''?''"
proof -
  have "of_char (upperASCII a) \<noteq> (63 :: nat)" if "of_char a \<noteq> (63 :: nat)"
    using that by (auto simp: upperASCII_def Let_def)
  then show ?thesis
    by (auto simp: sameFold_def isSep_def upperASCII_def Let_def of_char_eq_iff [symmetric, where ?'a = nat])
qed

lemma volumeLen_plain:
  assumes "x = [] \<or> (\<exists>c r. plain c \<and> x = c @ r \<and> (r = [] \<or> hd r = bs))"
  shows "volumeLen (bs # x) = 0"
  using assms
proof
  assume "\<exists>c r. plain c \<and> x = c @ r \<and> (r = [] \<or> hd r = bs)"
  then obtain c r where c: "plain c" "x = c @ r" "r = [] \<or> hd r = bs" by blast
  then obtain d ds where d: "c = d # ds" "d \<noteq> CHR '':''" "\<not> isSep d" by (cases c) (auto simp: plain_def)
  have first: "takeWhile (\<lambda>c. \<not> isSep c) x = c"
    using c by (cases r) (auto simp: plain_def isSep_def takeWhile_append)
  have "\<not> prefixFold (bs # x) [bs, CHR ''?'', CHR ''?'']"
  proof
    assume p: "prefixFold (bs # x) [bs, CHR ''?'', CHR ''?'']"
    then obtain a b y where x: "x = a # b # y" by (cases x; cases "tl x") (auto simp: prefixFold_def)
    from p have "a = CHR ''?''" "b = CHR ''?''" "y = [] \<or> isSep (hd y)"
      by (cases y; simp add: prefixFold_def x sameFold_qm)+
    then have "takeWhile (\<lambda>c. \<not> isSep c) x = ''??''" by (cases y) (auto simp: x isSep_def)
    with first c(1) show False by (simp add: plain_def)
  qed
  with c(2) d show ?thesis by (auto simp: volumeLen_def prefixFold_def sameFold_def)
qed (simp add: volumeLen_def prefixFold_def)

lemma volumeLen_joined: "\<forall>c\<in>set cs. plain c \<Longrightarrow> volumeLen (bs # joinWith [bs] cs @ t) = 0"
  if "t = [] \<or> t = [bs] \<and> cs \<noteq> []" for t
proof -
  assume p: "\<forall>c\<in>set cs. plain c"
  show ?thesis
  proof (cases cs)
    case Nil
    with that show ?thesis by (simp add: volumeLen_plain)
  next
    case (Cons c ds)
    with p that show ?thesis
      by (intro volumeLen_plain disjI2 exI [of _ c] exI [of _ "(if ds = [] then [] else bs # joinWith [bs] ds) @ t"])
        (auto simp: joinWith_Cons)
  qed
qed

lemma clean_noVolume:
  assumes "\<forall>c\<in>set cs. plain c" "t = [] \<or> t = [bs] \<and> cs \<noteq> []"
  shows "clean (bs # joinWith [bs] cs @ t) = bs # joinWith [bs] cs"
proof -
  let ?p = "bs # joinWith [bs] cs @ t"
  have "sepParts ?p = sepParts (bs # joinWith [bs] cs) @ (if t = [] then [] else [[]])"
  proof (cases "t = []")
    case False
    with assms have "?p = bs # joinWith [bs] (cs @ [[]])" "cs \<noteq> []" by (simp_all add: joinWith_append)
    moreover have "fromSlash (bs # joinWith [bs] (cs @ [[]])) = bs # joinWith [bs] (cs @ [[]])"
      using noSlash_joined [OF assms(1)] assms(2) False by (intro fromSlash_id) (auto simp: joinWith_append)
    moreover have "splitOn bs (joinWith [bs] (cs @ [[]])) = cs @ [[]]"
      using assms(1) plain_noSep by (intro split_join) auto
    ultimately show ?thesis using assms False by (simp add: sepParts_rooted) (simp add: sepParts_def)
  qed simp
  moreover have "cleanParts ?p True (sepParts (bs # joinWith [bs] cs) @ (if t = [] then [] else [[]])) [] False = (rev cs, False)"
  proof (cases "cs = []")
    case True
    with assms(2) show ?thesis by (simp add: sepParts_def fromSlash_def)
  next
    case False
    have "cleanParts ?p True (cs @ (if t = [] then [] else [[]])) [] False = (rev cs @ [], False)"
      by (rule cleanParts_plain [OF assms(1)]) (auto simp: hasPrefix_iff)
    then show ?thesis by (simp add: sepParts_rooted [OF assms(1) False])
  qed
  ultimately show ?thesis using volumeLen_joined [OF assms(2, 1)]
    by (simp add: clean_def Let_def isSep_def rendered_def fromSlash_id postClean_def)
qed

lemma last_element:
  assumes "\<forall>x\<in>set l. \<not> isSep x" "p \<noteq> []" "isSep (last p)"
  shows "uptoLastSep (p @ l) = p" "lastPart (p @ l) = l"
proof -
  obtain q c where p: "p = q @ [c]" "isSep c" using assms(2,3) by (cases p rule: rev_cases) auto
  have "dropWhile (\<lambda>c. \<not> isSep c) (rev l @ c # rev q) = c # rev q" "takeWhile (\<lambda>c. \<not> isSep c) (rev l @ c # rev q) = rev l"
    using assms(1) p(2) by (simp_all add: dropWhile_append takeWhile_append)
  then show "uptoLastSep (p @ l) = p" "lastPart (p @ l) = l"
    by (simp_all add: uptoLastSep_def lastPart_def p(1))
qed

lemma joined_last:
  assumes "\<forall>c\<in>set cs. plain c"
  obtains p where "bs # joinWith [bs] cs = p @ (if cs = [] then [] else last cs)" "p \<noteq> []" "isSep (last p)"
    "p = bs # joinWith [bs] (butlast cs) @ (if length cs > 1 then [bs] else [])"
proof (cases cs rule: rev_cases)
  case Nil
  then show ?thesis by (intro that [of "[bs]"]) (simp_all add: isSep_def)
next
  case (snoc ds c)
  then show ?thesis
    by (intro that [of "bs # joinWith [bs] ds @ (if ds = [] then [] else [bs])"])
      (auto simp: isSep_def joinWith_append split: if_splits)
qed

lemma uptoLastSep_rooted:
  assumes "\<forall>c\<in>set cs. plain c"
  shows "uptoLastSep (bs # joinWith [bs] cs) = bs # joinWith [bs] (butlast cs) @ (if length cs > 1 then [bs] else [])"
proof -
  obtain p where p: "bs # joinWith [bs] cs = p @ (if cs = [] then [] else last cs)" "p \<noteq> []" "isSep (last p)"
    "p = bs # joinWith [bs] (butlast cs) @ (if length cs > 1 then [bs] else [])" using joined_last [OF assms] .
  have "\<forall>x\<in>set (if cs = [] then [] else last cs). \<not> isSep x" using plain_last [OF assms] by (simp add: plain_def)
  from last_element(1) [OF this p(2,3)] p(1,4) show ?thesis by simp
qed

lemma dirOf_rooted:
  assumes "isVolume vol" "\<forall>c\<in>set cs. plain c"
  shows "dirOf (rooted vol cs) = rooted vol (butlast cs)"
proof -
  have b: "\<forall>c\<in>set (butlast cs). plain c" using assms(2) by (meson in_set_butlastD)
  have "clean (uptoLastSep (bs # joinWith [bs] cs)) = bs # joinWith [bs] (butlast cs)"
    unfolding uptoLastSep_rooted [OF assms(2)]
    by (rule clean_noVolume [OF b]) (cases cs, auto)
  with assms(1) show ?thesis by (simp add: dirOf_def rooted_def isVolume_def Let_def)
qed

lemma baseOf_rooted:
  assumes "isVolume vol" "\<forall>c\<in>set cs. plain c" "cs \<noteq> []"
  shows "baseOf (rooted vol cs) = last cs"
proof -
  obtain p where p: "bs # joinWith [bs] cs = p @ last cs" "p \<noteq> []" "isSep (last p)"
    using joined_last [OF assms(2)] assms(3) by metis
  have l: "last cs \<noteq> []" "\<forall>x\<in>set (last cs). \<not> isSep x" using plain_last [OF assms(2,3)] by (simp_all add: plain_def)
  have r: "rooted vol cs = (vol @ p) @ last cs" using p(1) by (simp add: rooted_def)
  have "dropWhile isSep (rev (rooted vol cs)) = rev (rooted vol cs)"
    unfolding r using l by (cases "rev (last cs)") (auto simp: dropWhile_append)
  moreover have "drop (volumeLen (rooted vol cs)) (rooted vol cs) = p @ last cs"
    using assms(1) unfolding p(1) [symmetric] by (simp add: rooted_def isVolume_def)
  ultimately show ?thesis using l(1) last_element(2) [OF l(2) p(2,3)]
    by (simp add: baseOf_def Let_def) (simp add: rooted_def)
qed

lemma last_rooted:
  assumes "\<forall>c\<in>set cs. plain c"
  shows "last (rooted vol cs) = (if cs = [] then bs else last (last cs))"
proof (cases "cs = []")
  case False
  obtain p where "bs # joinWith [bs] cs = p @ last cs" using joined_last [OF assms] False by metis
  moreover have "last cs \<noteq> []" using plain_last [OF assms False] by (simp add: plain_def)
  ultimately show ?thesis using False by (simp add: rooted_def)
qed (simp add: rooted_def)

lemma joinElems_rooted:
  assumes "\<forall>c\<in>set cs. plain c" "\<forall>d\<in>set ds. plain d" "vol \<noteq> []"
  shows "joinElems (rooted vol cs) ds = rooted vol (cs @ ds)"
  using assms(1,2)
proof (induction ds arbitrary: cs)
  case (Cons d ds)
  have d: "d \<noteq> []" "\<forall>x\<in>set d. \<not> isSep x" using Cons.prems(2) by (simp_all add: plain_def)
  have ih: "joinElems (rooted vol (cs @ [d])) ds = rooted vol (cs @ d # ds)"
    using Cons.IH [of "cs @ [d]"] Cons.prems by simp
  have strip: "dropWhile isSep d = d" using d by (cases d) auto
  have n: "rooted vol cs \<noteq> []" "length (rooted vol cs) \<noteq> 1" using assms(3) by (auto simp: rooted_def)
  show ?case
  proof (cases "cs = []")
    case True
    then have "rooted vol cs @ d = rooted vol (cs @ [d])" by (simp add: rooted_def)
    with True n strip ih show ?thesis by (simp add: last_rooted Let_def isSep_def)
  next
    case False
    have e: "rooted vol cs @ [bs] @ d = rooted vol (cs @ [d])" using False by (simp add: rooted_def joinWith_append)
    have "last cs \<noteq> []" "\<forall>x\<in>set (last cs). \<not> isSep x \<and> x \<noteq> CHR '':''"
      using plain_last [OF Cons.prems(1) False] by (simp_all add: plain_def)
    then have "\<not> isSep (last (rooted vol cs))" "last (rooted vol cs) \<noteq> CHR '':''"
      using False by (simp_all add: last_rooted [OF Cons.prems(1)])
    then show ?thesis using n ih unfolding e [symmetric] by simp
  qed
qed simp

lemma joinPaths_rooted:
  assumes "isVolume vol" "\<forall>c\<in>set cs. plain c" "\<forall>d\<in>set ds. plain d"
  shows "joinPaths (rooted vol cs # ds) = rooted vol (cs @ ds)"
proof -
  have "joinElems (rooted vol cs) ds = rooted vol (cs @ ds)"
    by (rule joinElems_rooted) (use assms in \<open>simp_all add: isVolume_def\<close>)
  moreover have "rooted vol (cs @ ds) \<noteq> []" by (simp add: rooted_def)
  moreover have "clean (rooted vol (cs @ ds)) = rooted vol (cs @ ds)"
    by (rule clean_rooted) (use assms in auto)
  ultimately show ?thesis by (simp add: joinPaths_def)
qed

text \<open>A path is below another as its components tell, and only then does its text start with the other's.\<close>

lemma rooted_inj:
  assumes "isVolume vol" "isVolume vol'" "\<forall>c\<in>set cs. plain c" "\<forall>d\<in>set ds. plain d" "rooted vol cs = rooted vol' ds"
  shows "vol = vol' \<and> cs = ds"
proof -
  have "length vol = length vol'" using assms(1,2,5) unfolding isVolume_def rooted_def by metis
  with assms(5) have v: "vol = vol'" "joinWith [bs] cs = joinWith [bs] ds" by (simp_all add: rooted_def)
  moreover have "cs = ds"
  proof (cases "cs = [] \<or> ds = []")
    case True
    have "joinWith [bs] es = [] \<Longrightarrow> es = []" if "\<forall>e\<in>set es. plain e" for es :: "string list"
      using that by (cases "([bs], es)" rule: joinWith.cases) (simp_all add: plain_def)
    with True v(2) assms(3,4) show ?thesis by (metis joinWith.simps(1))
  next
    case False
    with v(2) assms(3,4) plain_noSep show ?thesis by (metis split_join)
  qed
  ultimately show ?thesis by simp
qed

end
