(* ===== verification/Guard.thy ===== *)
theory Guard
  imports Win_Path "HOL-Library.Sublist"
begin

text \<open>
  \<open>internal/copilot/permission.go\<close>: the guard that keeps an agent's writes inside its worktree. The file system is
  the record \<open>winfs\<close> at the time of a request: the absolute form of a path, whether a path exists, the
  final path of an existing one with all links resolved, and lower case.
\<close>

section \<open>Resolving a path\<close>

record winfs =
  wf_abs :: "string \<Rightarrow> string + string"
  wf_exists :: "string \<Rightarrow> bool"
  wf_final :: "string \<Rightarrow> string + string"
  wf_lower :: "string \<Rightarrow> string"

datatype path_error = PathAbs string | PathAncestor string string

definition normalizeWin32 :: "string \<Rightarrow> string" where
  "normalizeWin32 p =
     (if hasPrefix p [bs, bs, CHR ''?'', bs, CHR ''U'', CHR ''N'', CHR ''C'', bs] then [bs, bs] @ drop 8 p
      else if hasPrefix p [bs, bs, CHR ''?'', bs] then drop 4 p
      else if hasPrefix p [bs, bs, CHR ''.'', bs] then drop 4 p
      else p)"

text \<open>Components are peeled off until the rest exists; \<open>Some None\<close> when not even the root does.\<close>

partial_function (option) peel :: "winfs \<Rightarrow> string \<Rightarrow> string list \<Rightarrow> (string \<times> string list) option option" where
  "peel fs cur tail =
     (if wf_exists fs cur then Some (Some (cur, tail))
      else if dirOf cur = cur then Some None
      else peel fs (dirOf cur) (baseOf cur # tail))"

definition resolvePath :: "winfs \<Rightarrow> string \<Rightarrow> (path_error + string) option" where
  "resolvePath fs p =
     (case wf_abs fs p of Inl e \<Rightarrow> Some (Inl (PathAbs e))
      | Inr full \<Rightarrow>
          (case peel fs full [] of None \<Rightarrow> None
           | Some None \<Rightarrow> Some (Inr (normalizeWin32 (clean full)))
           | Some (Some (cur, tail)) \<Rightarrow>
               (case wf_final fs cur of Inl e \<Rightarrow> Some (Inl (PathAncestor cur e))
                | Inr resolved \<Rightarrow>
                    let resolved = (if tail \<noteq> [] then joinPaths (resolved # tail) else resolved)
                    in Some (Inr (normalizeWin32 (clean resolved))))))"

section \<open>The guard\<close>

definition isDriveLetter :: "char \<Rightarrow> bool" where
  "isDriveLetter c \<longleftrightarrow> (let n = of_char c :: nat in 65 \<le> n \<and> n \<le> 90 \<or> 97 \<le> n \<and> n \<le> 122)"

definition hasADS :: "string \<Rightarrow> bool" where
  "hasADS p =
     (if length p \<ge> 2 \<and> p ! 1 = CHR '':'' \<and> isDriveLetter (p ! 0) then CHR '':'' \<in> set (drop 2 p)
      else CHR '':'' \<in> set p)"

record path_guard =
  gd_realRoot :: string
  gd_rawRoot :: string

definition newGuard :: "winfs \<Rightarrow> string \<Rightarrow> (path_error + path_guard) option" where
  "newGuard fs root =
     map_option (map_sum id (\<lambda>r. \<lparr>gd_realRoot = wf_lower fs (clean r), gd_rawRoot = root\<rparr>)) (resolvePath fs root)"

definition allow :: "winfs \<Rightarrow> path_guard \<Rightarrow> string \<Rightarrow> (path_error + string \<times> bool) option" where
  "allow fs g p =
     (if hasADS p then Some (Inr (p, False))
      else map_option (map_sum id (\<lambda>resolved.
        let low = wf_lower fs (clean resolved); root = gd_realRoot g
        in (resolved, low = root \<or> hasPrefix low (root @ [bs])))) (resolvePath fs p))"

section \<open>Permission requests\<close>

datatype permission_kind = PermissionWrite | PermissionOther string

record permission_request =
  pmKind :: permission_kind
  pmFileName :: "string option"

datatype permission_result = PermissionApproved | PermissionDeniedByRules

definition permissionHandler :: "winfs \<Rightarrow> path_guard \<Rightarrow> permission_request \<Rightarrow> permission_result option" where
  "permissionHandler fs g r =
     (case (pmKind r, pmFileName r) of (PermissionWrite, Some p) \<Rightarrow>
        map_option (\<lambda>a. case a of Inl _ \<Rightarrow> PermissionDeniedByRules
          | Inr (_, ok) \<Rightarrow> if ok then PermissionApproved else PermissionDeniedByRules) (allow fs g p)
      | _ \<Rightarrow> Some PermissionApproved)"

text \<open>The planner's and the reviewer's sessions write nothing.\<close>

definition denyWrites :: "winfs \<Rightarrow> path_guard \<Rightarrow> permission_request \<Rightarrow> permission_result option" where
  "denyWrites fs g r = (if pmKind r = PermissionWrite then Some PermissionDeniedByRules else permissionHandler fs g r)"

section \<open>Where a path leads\<close>

text \<open>The first \<open>k\<close> components are the deepest part of the path that exists.\<close>

definition nearest :: "winfs \<Rightarrow> string \<Rightarrow> string list \<Rightarrow> nat \<Rightarrow> bool" where
  "nearest fs vol cs k \<longleftrightarrow> k \<le> length cs \<and> wf_exists fs (rooted vol (take k cs)) \<and>
     (\<forall>j. k < j \<longrightarrow> j \<le> length cs \<longrightarrow> \<not> wf_exists fs (rooted vol (take j cs)))"

lemma peel_rooted:
  assumes "isVolume vol" "\<forall>c\<in>set cs. plain c"
  shows "(\<exists>k. nearest fs vol cs k \<and> peel fs (rooted vol cs) tail = Some (Some (rooted vol (take k cs), drop k cs @ tail))) \<or>
    (\<forall>k\<le>length cs. \<not> wf_exists fs (rooted vol (take k cs))) \<and> peel fs (rooted vol cs) tail = Some None"
  using assms(2)
proof (induction cs arbitrary: tail rule: rev_induct)
  case Nil
  have "dirOf (rooted vol []) = rooted vol []" using dirOf_rooted [OF assms(1), of "[]"] by simp
  then show ?case by (auto simp: nearest_def peel.simps [of fs "rooted vol []"])
next
  case (snoc c cs)
  show ?case
  proof (cases "wf_exists fs (rooted vol (cs @ [c]))")
    case True
    then show ?thesis
      by (intro disjI1 exI [of _ "length (cs @ [c])"]) (simp add: nearest_def peel.simps [of fs "rooted vol (cs @ [c])"])
  next
    case False
    have d: "dirOf (rooted vol (cs @ [c])) = rooted vol cs" "baseOf (rooted vol (cs @ [c])) = c"
      using dirOf_rooted [OF assms(1) snoc.prems] baseOf_rooted [OF assms(1) snoc.prems] by simp_all
    have "rooted vol cs \<noteq> rooted vol (cs @ [c])" using rooted_inj [OF assms(1,1), of cs "cs @ [c]"] snoc.prems by auto
    then have p: "peel fs (rooted vol (cs @ [c])) tail = peel fs (rooted vol cs) (c # tail)"
      using False by (simp add: peel.simps [of fs "rooted vol (cs @ [c])"] d)
    have far: "\<not> wf_exists fs (rooted vol (take j (cs @ [c])))" if "length cs < j" for j
      using that False by simp
    have "\<forall>a\<in>set cs. plain a" using snoc.prems by simp
    from snoc.IH [OF this, of "c # tail"] show ?thesis
    proof
      assume "\<exists>k. nearest fs vol cs k \<and> peel fs (rooted vol cs) (c # tail) = Some (Some (rooted vol (take k cs), drop k cs @ c # tail))"
      then obtain k where k: "nearest fs vol cs k" "peel fs (rooted vol cs) (c # tail) = Some (Some (rooted vol (take k cs), drop k cs @ c # tail))"
        by blast
      have "nearest fs vol (cs @ [c]) k" using k(1) far unfolding nearest_def by (fastforce simp: not_less)
      then show ?thesis using k p by (intro disjI1 exI [of _ k]) (simp add: nearest_def)
    next
      assume n: "(\<forall>k\<le>length cs. \<not> wf_exists fs (rooted vol (take k cs))) \<and> peel fs (rooted vol cs) (c # tail) = Some None"
      then have "\<not> wf_exists fs (rooted vol (take k (cs @ [c])))" for k
        by (cases "k \<le> length cs") (use far in auto)
      then show ?thesis using n p by simp
    qed
  qed
qed

definition drive :: "char \<Rightarrow> string" where
  "drive d = [d, CHR '':'']"

definition verbatim :: "char \<Rightarrow> string" where
  "verbatim d = [bs, bs, CHR ''?'', bs, d, CHR '':'']"

text \<open>On drives, the final path of what exists is a drive path behind \<open>\\?\\<close>.\<close>

definition dosPaths :: "winfs \<Rightarrow> bool" where
  "dosPaths fs \<longleftrightarrow> (\<forall>p q. wf_final fs p = Inr q \<longrightarrow>
     (\<exists>d cs. \<not> isSep d \<and> (\<forall>c\<in>set cs. plain c) \<and> q = rooted (verbatim d) cs))"

text \<open>The place a path leads to: what exists of it, with its links resolved, and the rest as it is spelled.\<close>

definition leadsTo :: "winfs \<Rightarrow> char \<Rightarrow> string list \<Rightarrow> char \<Rightarrow> string list \<Rightarrow> bool" where
  "leadsTo fs d cs d' ts \<longleftrightarrow>
     (\<exists>k rs. nearest fs (drive d) cs k \<and> wf_final fs (rooted (drive d) (take k cs)) = Inr (rooted (verbatim d') rs) \<and>
        \<not> isSep d' \<and> (\<forall>r\<in>set rs. plain r) \<and> ts = rs @ drop k cs) \<or>
     (\<forall>k\<le>length cs. \<not> wf_exists fs (rooted (drive d) (take k cs))) \<and> d' = d \<and> ts = cs"

lemma leadsToI:
  "nearest fs (drive d) cs k \<Longrightarrow> wf_final fs (rooted (drive d) (take k cs)) = Inr (rooted (verbatim d') rs) \<Longrightarrow>
   \<not> isSep d' \<Longrightarrow> \<forall>r\<in>set rs. plain r \<Longrightarrow> leadsTo fs d cs d' (rs @ drop k cs)"
  unfolding leadsTo_def by blast

lemma volumes: "\<not> isSep d \<Longrightarrow> isVolume (drive d)" "\<not> isSep d \<Longrightarrow> isVolume (verbatim d)"
  using isVolume_drive isVolume_verbatim by (auto simp: drive_def verbatim_def isSep_def)

lemma normalize_paths:
  "normalizeWin32 (rooted (verbatim d) cs) = rooted (drive d) cs"
  "\<not> isSep d \<Longrightarrow> normalizeWin32 (rooted (drive d) cs) = rooted (drive d) cs"
  by (auto simp: normalizeWin32_def rooted_def verbatim_def drive_def hasPrefix_def isSep_def)

lemma leadsTo_plain:
  "leadsTo fs d cs d' ts \<Longrightarrow> \<not> isSep d \<Longrightarrow> \<forall>c\<in>set cs. plain c \<Longrightarrow> \<not> isSep d' \<and> (\<forall>t\<in>set ts. plain t)"
  unfolding leadsTo_def by (metis Un_iff in_set_dropD set_append)

lemma resolve_leads:
  assumes "wf_abs fs p = Inr (rooted (drive d) cs)" "\<not> isSep d" "\<forall>c\<in>set cs. plain c" "dosPaths fs"
  shows "(\<exists>e. resolvePath fs p = Some (Inl e)) \<and> (\<forall>d' ts. \<not> leadsTo fs d cs d' ts) \<or>
    (\<exists>d' ts. leadsTo fs d cs d' ts \<and> resolvePath fs p = Some (Inr (rooted (drive d') ts)))"
  using peel_rooted [OF volumes(1) [OF assms(2)] assms(3), of fs "[]"]
proof
  assume "\<exists>k. nearest fs (drive d) cs k \<and> peel fs (rooted (drive d) cs) [] = Some (Some (rooted (drive d) (take k cs), drop k cs @ []))"
  then obtain k where k: "nearest fs (drive d) cs k"
    "peel fs (rooted (drive d) cs) [] = Some (Some (rooted (drive d) (take k cs), drop k cs))" by auto
  have uniq: "j = k" if "nearest fs (drive d) cs j" for j
    using that k(1) unfolding nearest_def by (meson linorder_neqE_nat)
  have some: "\<exists>k\<le>length cs. wf_exists fs (rooted (drive d) (take k cs))" using k(1) unfolding nearest_def by blast
  show ?thesis
  proof (cases "wf_final fs (rooted (drive d) (take k cs))")
    case (Inl e)
    then have "\<not> leadsTo fs d cs d' ts" for d' ts using uniq some by (auto simp: leadsTo_def)
    with Inl assms(1) k show ?thesis by (simp add: resolvePath_def)
  next
    case (Inr q)
    then obtain d' rs where q: "q = rooted (verbatim d') rs" "\<not> isSep d'" "\<forall>r\<in>set rs. plain r"
      using assms(4) unfolding dosPaths_def by blast
    have t: "\<forall>t\<in>set (drop k cs). plain t" using assms(3) by (meson in_set_dropD)
    let ?res = "if drop k cs \<noteq> [] then joinPaths (q # drop k cs) else q"
    have "?res = rooted (verbatim d') (rs @ drop k cs)"
      using joinPaths_rooted [OF volumes(2) [OF q(2)] q(3) t] q(1) by auto
    moreover have "clean (rooted (verbatim d') (rs @ drop k cs)) = rooted (verbatim d') (rs @ drop k cs)"
      by (rule clean_rooted [OF volumes(2) [OF q(2)]]) (use q(3) t in auto)
    ultimately have "resolvePath fs p = Some (Inr (rooted (drive d') (rs @ drop k cs)))"
      using assms(1) k(2) Inr by (auto simp: resolvePath_def Let_def normalize_paths)
    moreover have "leadsTo fs d cs d' (rs @ drop k cs)"
      using k(1) Inr q unfolding leadsTo_def by blast
    ultimately show ?thesis by blast
  qed
next
  assume "(\<forall>k\<le>length cs. \<not> wf_exists fs (rooted (drive d) (take k cs))) \<and> peel fs (rooted (drive d) cs) [] = Some None"
  then show ?thesis using assms clean_rooted [OF volumes(1) [OF assms(2)] assms(3)]
    by (intro disjI2 exI [of _ d] exI [of _ cs]) (simp add: resolvePath_def leadsTo_def normalize_paths)
qed

lemma leadsTo_unique:
  assumes "leadsTo fs d cs d1 t1" "leadsTo fs d cs d2 t2"
  shows "d1 = d2 \<and> t1 = t2"
proof -
  have uniq: "j = k" if "nearest fs (drive d) cs j" "nearest fs (drive d) cs k" for j k
    using that unfolding nearest_def by (meson linorder_neqE_nat)
  have none: "\<not> nearest fs (drive d) cs k" if "\<forall>k\<le>length cs. \<not> wf_exists fs (rooted (drive d) (take k cs))" for k
    using that unfolding nearest_def by blast
  have inj: "a = b \<and> as = bs'" if "rooted (verbatim a) as = rooted (verbatim b) bs'" "\<not> isSep a" "\<not> isSep b"
    "\<forall>x\<in>set as. plain x" "\<forall>x\<in>set bs'. plain x" for a b as bs'
    using rooted_inj [OF volumes(2) volumes(2), of a b as bs'] that by (auto simp: verbatim_def)
  from assms none show ?thesis unfolding leadsTo_def
  proof (elim disjE exE conjE)
    fix k rs j qs
    assume 1: "nearest fs (drive d) cs k" "wf_final fs (rooted (drive d) (take k cs)) = Inr (rooted (verbatim d1) rs)"
      "\<not> isSep d1" "\<forall>r\<in>set rs. plain r" "t1 = rs @ drop k cs"
    assume 2: "nearest fs (drive d) cs j" "wf_final fs (rooted (drive d) (take j cs)) = Inr (rooted (verbatim d2) qs)"
      "\<not> isSep d2" "\<forall>r\<in>set qs. plain r" "t2 = qs @ drop j cs"
    have "j = k" by (rule uniq [OF 2(1) 1(1)])
    with 1 2 inj [of d1 rs d2 qs] show ?thesis by simp
  qed auto
qed

section \<open>Confinement\<close>

text \<open>Lower case treats the two sides of a backslash apart, and makes none.\<close>

definition lowerLaw :: "(string \<Rightarrow> string) \<Rightarrow> bool" where
  "lowerLaw f \<longleftrightarrow> (\<forall>a b. f (a @ bs # b) = f a @ bs # f b) \<and> (\<forall>a. bs \<notin> set a \<longrightarrow> bs \<notin> set (f a)) \<and>
     (\<forall>a. f a = [] \<longleftrightarrow> a = [])"

definition below :: "(string \<Rightarrow> string) \<Rightarrow> char \<Rightarrow> string list \<Rightarrow> char \<Rightarrow> string list \<Rightarrow> bool" where
  "below f d rs d' ts \<longleftrightarrow> f (drive d') = f (drive d) \<and> prefix (map f rs) (map f ts)"

lemma lower_step: "f (a @ bs # b) = f a @ bs # f b" "f [] = []" if "lowerLaw f"
  using that by (simp_all add: lowerLaw_def)

lemma lower_join:
  assumes "lowerLaw f" "cs \<noteq> []"
  shows "f (joinWith [bs] cs) = joinWith [bs] (map f cs)"
  using assms(2)
proof (induction cs rule: induct_list012)
  case (3 x y zs)
  then show ?case using assms(1) by (simp add: lowerLaw_def)
qed simp_all

lemma below_text:
  assumes "lowerLaw f" "\<not> isSep d" "\<not> isSep d'" "\<forall>r\<in>set rs. plain r" "\<forall>t\<in>set ts. plain t" "rs \<noteq> []"
  shows "(f (rooted (drive d') ts) = f (rooted (drive d) rs) \<or>
      hasPrefix (f (rooted (drive d') ts)) (f (rooted (drive d) rs) @ [bs])) \<longleftrightarrow> below f d rs d' ts"
proof -
  have no: "bs \<notin> set (f (drive e))" if "\<not> isSep e" for e
    using assms(1) that by (auto simp: lowerLaw_def drive_def isSep_def)
  have nos: "\<forall>l\<in>set (map f cs). bs \<notin> set l" if "\<forall>c\<in>set cs. plain c" for cs
    using assms(1) that plain_noSep by (auto simp: lowerLaw_def)
  have parts: "splitOn bs (f (rooted (drive e) cs)) = f (drive e) # map f cs"
    if "\<not> isSep e" "\<forall>c\<in>set cs. plain c" "cs \<noteq> []" for e cs
    using assms(1) that no [OF that(1)] split_join [OF _ nos [OF that(2)]]
    by (simp add: rooted_def lowerLaw_def splitOn_append lower_join [OF assms(1) that(3)])
  have root: "splitOn bs (f (rooted (drive d') [])) = [f (drive d'), []]"
    using no [OF assms(3)] by (simp add: rooted_def lower_step [OF assms(1)] splitOn_append)
  have full: "\<forall>l\<in>set (map f rs). l \<noteq> []" using assms(1,4) by (auto simp: lowerLaw_def plain_def)
  note R = parts [OF assms(2,4,6)]
  show ?thesis
  proof
    assume "f (rooted (drive d') ts) = f (rooted (drive d) rs) \<or> hasPrefix (f (rooted (drive d') ts)) (f (rooted (drive d) rs) @ [bs])"
    then obtain zs where z: "splitOn bs (f (rooted (drive d') ts)) = f (drive d) # map f rs @ zs"
    proof
      assume "f (rooted (drive d') ts) = f (rooted (drive d) rs)"
      with R show thesis by (intro that [of "[]"]) simp
    next
      assume "hasPrefix (f (rooted (drive d') ts)) (f (rooted (drive d) rs) @ [bs])"
      then obtain r where "f (rooted (drive d') ts) = f (rooted (drive d) rs) @ bs # r" by (auto simp: hasPrefix_iff)
      with R show thesis by (intro that [of "splitOn bs r"]) (simp add: splitOn_append_sep)
    qed
    show "below f d rs d' ts"
    proof (cases "ts = []")
      case True
      with z root obtain l where "map f rs = [l]" "l = []" using assms(6) by (cases rs) auto
      with full show ?thesis by simp
    next
      case False
      with z parts [OF assms(3,5)] show ?thesis by (simp add: below_def)
    qed
  next
    assume b: "below f d rs d' ts"
    then obtain zs where z: "map f ts = map f rs @ zs" by (auto simp: below_def prefix_def)
    with assms(6) have t: "ts \<noteq> []" by auto
    have "f (rooted (drive e) cs) = f (drive e) @ bs # joinWith [bs] (map f cs)" if "cs \<noteq> []" for e cs
      using assms(1) lower_join [OF assms(1) that] by (simp add: rooted_def lowerLaw_def)
    with t assms(6) have e: "f (rooted (drive d') ts) = f (drive d) @ bs # joinWith [bs] (map f rs @ zs)"
      "f (rooted (drive d) rs) = f (drive d) @ bs # joinWith [bs] (map f rs)"
      using b z by (simp_all add: below_def)
    show "f (rooted (drive d') ts) = f (rooted (drive d) rs) \<or>
        hasPrefix (f (rooted (drive d') ts)) (f (rooted (drive d) rs) @ [bs])"
      using assms(6) unfolding e by (cases "zs = []") (auto simp: joinWith_append hasPrefix_iff)
  qed
qed

lemma guard_decides:
  assumes "newGuard fs0 root = Some (Inr g)" "wf_abs fs0 root = Inr (rooted (drive d0) cs0)" "\<not> isSep d0"
    "\<forall>c\<in>set cs0. plain c" "leadsTo fs0 d0 cs0 dr rs" "rs \<noteq> []"
    "wf_abs fs p = Inr (rooted (drive d) cs)" "\<not> isSep d" "\<forall>c\<in>set cs. plain c"
    "dosPaths fs0" "dosPaths fs" "wf_lower fs = wf_lower fs0" "lowerLaw (wf_lower fs)"
  shows "permissionHandler fs g \<lparr>pmKind = PermissionWrite, pmFileName = Some p\<rparr> =
    Some (if \<not> hasADS p \<and> (\<exists>d' ts. leadsTo fs d cs d' ts \<and> below (wf_lower fs) dr rs d' ts)
      then PermissionApproved else PermissionDeniedByRules)"
proof -
  have "resolvePath fs0 root = Some (Inr (rooted (drive dr) rs))"
    using resolve_leads [OF assms(2,3,4,10)] leadsTo_unique assms(5) by blast
  moreover have r: "\<not> isSep dr" "\<forall>r\<in>set rs. plain r" using leadsTo_plain [OF assms(5,3,4)] by auto
  ultimately have g: "gd_realRoot g = wf_lower fs (rooted (drive dr) rs)"
    using assms(1,12) clean_rooted [OF volumes(1) [OF r(1)] r(2)] by (auto simp: newGuard_def)
  from resolve_leads [OF assms(7,8,9,11)] show ?thesis
  proof
    assume "(\<exists>e. resolvePath fs p = Some (Inl e)) \<and> (\<forall>d' ts. \<not> leadsTo fs d cs d' ts)"
    then show ?thesis by (auto simp: permissionHandler_def allow_def)
  next
    assume "\<exists>d' ts. leadsTo fs d cs d' ts \<and> resolvePath fs p = Some (Inr (rooted (drive d') ts))"
    then obtain d' ts where t: "leadsTo fs d cs d' ts" "resolvePath fs p = Some (Inr (rooted (drive d') ts))" by blast
    have pl: "\<not> isSep d'" "\<forall>t\<in>set ts. plain t" using leadsTo_plain [OF t(1) assms(8,9)] by auto
    have "(\<exists>d' ts. leadsTo fs d cs d' ts \<and> below (wf_lower fs) dr rs d' ts) \<longleftrightarrow> below (wf_lower fs) dr rs d' ts"
      using leadsTo_unique [OF _ t(1)] t(1) by blast
    with t(2) below_text [OF assms(13) r(1) pl(1) r(2) pl(2) assms(6)] clean_rooted [OF volumes(1) [OF pl(1)] pl(2)]
    show ?thesis by (auto simp: permissionHandler_def allow_def Let_def g)
  qed
qed


text \<open>A request to write that names no file is approved, and a worktree that does not exist is accepted.\<close>

lemma unnamed_write_is_approved:
  "permissionHandler fs g \<lparr>pmKind = PermissionWrite, pmFileName = None\<rparr> = Some PermissionApproved"
  by (simp add: permissionHandler_def)

lemma missing_root_is_accepted:
  assumes "wf_abs fs root = Inr (rooted (drive d) cs)" "\<not> isSep d" "\<forall>c\<in>set cs. plain c" "dosPaths fs"
    "\<forall>k\<le>length cs. \<not> wf_exists fs (rooted (drive d) (take k cs))"
  shows "\<exists>g. newGuard fs root = Some (Inr g)"
proof -
  have "leadsTo fs d cs d cs" using assms(5) by (simp add: leadsTo_def)
  with resolve_leads [OF assms(1-4)] show ?thesis by (auto simp: newGuard_def)
qed

text \<open>Below the root of a drive nothing can be written: the text of the root already ends in a separator.\<close>

lemma drive_root_allows_nothing:
  assumes "lowerLaw f" "\<not> isSep d" "\<not> isSep d'" "\<forall>t\<in>set ts. plain t"
  shows "\<not> hasPrefix (f (rooted (drive d') ts)) (f (rooted (drive d) []) @ [bs])"
proof
  assume "hasPrefix (f (rooted (drive d') ts)) (f (rooted (drive d) []) @ [bs])"
  then obtain r where r: "f (rooted (drive d') ts) = f (rooted (drive d) []) @ bs # r" by (auto simp: hasPrefix_iff)
  have e: "f [] = []" using assms(1) by (simp add: lowerLaw_def)
  have no: "bs \<notin> set (f (drive e))" if "\<not> isSep e" for e
    using assms(1) that by (auto simp: lowerLaw_def drive_def isSep_def)
  have root: "f (rooted (drive d) []) = f (drive d) @ [bs]" using assms(1) e by (simp add: rooted_def lowerLaw_def)
  have "splitOn bs (f (rooted (drive d') ts)) = f (drive d) # [] # splitOn bs r"
    using no [OF assms(2)] by (simp add: r root splitOn_append)
  moreover have "splitOn bs (f (rooted (drive d') ts)) = f (drive d') # (if ts = [] then [[]] else map f ts)"
  proof (cases "ts = []")
    case True
    with no [OF assms(3)] show ?thesis by (simp add: rooted_def lower_step [OF assms(1)] splitOn_append)
  next
    case False
    have "\<forall>l\<in>set (map f ts). bs \<notin> set l" using assms(1,4) plain_noSep by (auto simp: lowerLaw_def)
    with False assms(1) no [OF assms(3)] split_join [of "map f ts" bs] show ?thesis
      by (simp add: rooted_def lowerLaw_def splitOn_append lower_join [OF assms(1)])
  qed
  moreover have "\<forall>l\<in>set (map f ts). l \<noteq> []" using assms(1,4) by (auto simp: lowerLaw_def plain_def)
  ultimately show False by (cases ts) (auto split: if_splits)
qed

section \<open>A file system for the witness\<close>

text \<open>The worktree \<open>C:\wt\t1\<close> with a link in it that leads out.\<close>

definition lowerASCII :: "string \<Rightarrow> string" where
  "lowerASCII = map (\<lambda>c. let n = of_char c :: nat in if 65 \<le> n \<and> n \<le> 90 then char_of (n + 32) else c)"

definition sampleFS :: winfs where
  "sampleFS = \<lparr>wf_abs = Inr, wf_exists = (\<lambda>p. p \<in> {rooted (drive (CHR ''C'')) [''wt'', ''t1''], rooted (drive (CHR ''C'')) [''wt'', ''t1'', ''link'']}),
     wf_final = (\<lambda>p. if p = rooted (drive (CHR ''C'')) [''wt'', ''t1''] then Inr (rooted (verbatim (CHR ''C'')) [''wt'', ''t1''])
       else if p = rooted (drive (CHR ''C'')) [''wt'', ''t1'', ''link''] then Inr (rooted (verbatim (CHR ''C'')) [''secret''])
       else Inl ''not found''),
     wf_lower = lowerASCII\<rparr>"

lemma lowerLaw_ASCII: "lowerLaw lowerASCII"
proof -
  have "char_of (of_char c + 32 :: nat) \<noteq> bs" if "65 \<le> (of_char c :: nat)" "(of_char c :: nat) \<le> 90" for c :: char
  proof
    assume "char_of (of_char c + 32 :: nat) = bs"
    then have "of_char (char_of (of_char c + 32 :: nat) :: char) = (92 :: nat)" by simp
    with that show False by simp
  qed
  then show ?thesis unfolding lowerLaw_def lowerASCII_def by (force simp: Let_def)
qed

lemma plain_samples: "plain ''wt''" "plain ''t1''" "plain ''link''" "plain ''secret''" "plain ''A.go''" "\<not> isSep (CHR ''C'')"
  by (simp_all add: plain_def isSep_def)

lemma dosPaths_sample: "dosPaths sampleFS"
proof -
  have "\<exists>d cs. \<not> isSep d \<and> (\<forall>c\<in>set cs. plain c) \<and> rooted (verbatim (CHR ''C'')) es = rooted (verbatim d) cs"
    if "\<forall>e\<in>set es. plain e" for es
    using that plain_samples(6) by blast
  from this [of "[''wt'', ''t1'']"] this [of "[''secret'']"] plain_samples show ?thesis
    unfolding dosPaths_def sampleFS_def by (auto split: if_splits)
qed

lemma sample_leads:
  "leadsTo sampleFS (CHR ''C'') [''wt'', ''t1''] (CHR ''C'') [''wt'', ''t1'']"
  "leadsTo sampleFS (CHR ''C'') [''wt'', ''t1'', ''A.go''] (CHR ''C'') [''wt'', ''t1'', ''A.go'']"
  "leadsTo sampleFS (CHR ''C'') [''wt'', ''t1'', ''link'', ''A.go''] (CHR ''C'') [''secret'', ''A.go'']"
proof -
  let ?c = "CHR ''C''" and ?r = "[''wt'', ''t1'']"
  have near: "nearest sampleFS (drive ?c) ?r 2" "nearest sampleFS (drive ?c) (?r @ [''A.go'']) 2"
    "nearest sampleFS (drive ?c) (?r @ [''link'', ''A.go'']) 3"
    by (auto simp: nearest_def sampleFS_def rooted_def drive_def less_Suc_eq numeral_eq_Suc le_Suc_eq)
  show "leadsTo sampleFS ?c ?r ?c ?r" "leadsTo sampleFS ?c [''wt'', ''t1'', ''A.go''] ?c [''wt'', ''t1'', ''A.go'']"
    "leadsTo sampleFS ?c [''wt'', ''t1'', ''link'', ''A.go''] ?c [''secret'', ''A.go'']"
    using leadsToI [OF near(1), of ?c ?r] leadsToI [OF near(2), of ?c ?r] leadsToI [OF near(3), of ?c "[''secret'']"] plain_samples
    by (simp_all add: sampleFS_def rooted_def drive_def numeral_eq_Suc)
qed

lemma sample_simps: "wf_abs sampleFS p = Inr p" "wf_lower sampleFS = lowerASCII"
  "\<not> hasADS (rooted (drive (CHR ''C'')) [''wt'', ''t1'', ''A.go''])"
  "below lowerASCII (CHR ''C'') [''wt'', ''t1''] (CHR ''C'') [''wt'', ''t1'', ''A.go'']"
  "\<not> below lowerASCII (CHR ''C'') [''wt'', ''t1''] (CHR ''C'') [''secret'', ''A.go'']"
  by (simp_all add: sampleFS_def below_def lowerASCII_def hasADS_def rooted_def drive_def isDriveLetter_def)

lemma sample_guard: "\<exists>g. newGuard sampleFS (rooted (drive (CHR ''C'')) [''wt'', ''t1'']) = Some (Inr g)"
  using resolve_leads [OF sample_simps(1) _ _ dosPaths_sample, of "CHR ''C''" "[''wt'', ''t1'']"] sample_leads(1) plain_samples
  by (auto simp: newGuard_def)

lemma sample_targets:
  "\<exists>d' ts. leadsTo sampleFS (CHR ''C'') [''wt'', ''t1'', ''A.go''] d' ts \<and> below lowerASCII (CHR ''C'') [''wt'', ''t1''] d' ts"
  "\<not> (\<exists>d' ts. leadsTo sampleFS (CHR ''C'') [''wt'', ''t1'', ''link'', ''A.go''] d' ts \<and> below lowerASCII (CHR ''C'') [''wt'', ''t1''] d' ts)"
proof -
  show "\<exists>d' ts. leadsTo sampleFS (CHR ''C'') [''wt'', ''t1'', ''A.go''] d' ts \<and> below lowerASCII (CHR ''C'') [''wt'', ''t1''] d' ts"
    by (intro exI conjI, rule sample_leads(2), rule sample_simps(4))
  show "\<not> (\<exists>d' ts. leadsTo sampleFS (CHR ''C'') [''wt'', ''t1'', ''link'', ''A.go''] d' ts \<and> below lowerASCII (CHR ''C'') [''wt'', ''t1''] d' ts)"
  proof (intro notI, elim exE conjE)
    fix d' ts
    assume "leadsTo sampleFS (CHR ''C'') [''wt'', ''t1'', ''link'', ''A.go''] d' ts"
    note u = leadsTo_unique [OF this sample_leads(3)]
    assume "below lowerASCII (CHR ''C'') [''wt'', ''t1''] d' ts"
    then show False unfolding conjunct1 [OF u] conjunct2 [OF u] by (rule notE [OF sample_simps(5)])
  qed
qed

lemma sample_plain: "\<forall>c\<in>set [''wt'', ''t1'']. plain c" "\<forall>c\<in>set [''wt'', ''t1'', ''A.go'']. plain c"
  "\<forall>c\<in>set [''wt'', ''t1'', ''link'', ''A.go'']. plain c" "[''wt'', ''t1''] \<noteq> []" "lowerLaw (wf_lower sampleFS)"
  using plain_samples lowerLaw_ASCII by (simp_all add: sample_simps(2))

lemma approval:
  "x = Some (if \<not> a \<and> b then PermissionApproved else PermissionDeniedByRules) \<Longrightarrow> \<not> a \<Longrightarrow> b \<Longrightarrow> x = Some PermissionApproved"
  "x = Some (if \<not> a \<and> b then PermissionApproved else PermissionDeniedByRules) \<Longrightarrow> \<not> b \<Longrightarrow> x = Some PermissionDeniedByRules"
  by simp_all


lemma sample_requests:
  assumes "newGuard sampleFS (rooted (drive (CHR ''C'')) [''wt'', ''t1'']) = Some (Inr g)"
  shows "permissionHandler sampleFS g \<lparr>pmKind = PermissionWrite,
       pmFileName = Some (rooted (drive (CHR ''C'')) [''wt'', ''t1'', ''A.go''])\<rparr> = Some PermissionApproved"
    "permissionHandler sampleFS g \<lparr>pmKind = PermissionWrite,
       pmFileName = Some (rooted (drive (CHR ''C'')) [''wt'', ''t1'', ''link'', ''A.go''])\<rparr> = Some PermissionDeniedByRules"
  by (rule approval(1) [OF guard_decides [OF assms sample_simps(1) plain_samples(6) sample_plain(1) sample_leads(1) sample_plain(4)
      sample_simps(1) plain_samples(6) sample_plain(2) dosPaths_sample dosPaths_sample refl sample_plain(5), unfolded sample_simps(2)]
      sample_simps(3) sample_targets(1)],
    rule approval(2) [OF guard_decides [OF assms sample_simps(1) plain_samples(6) sample_plain(1) sample_leads(1) sample_plain(4)
      sample_simps(1) plain_samples(6) sample_plain(3) dosPaths_sample dosPaths_sample refl sample_plain(5), unfolded sample_simps(2)]
      sample_targets(2)])

end
