(* ===== verification/Session.thy ===== *)
theory Session
  imports Guard Go_Text Event_Emission "HOL-Library.AList"
begin

text \<open>
  A coding session of \<open>internal/copilot\<close>: \<open>events.go\<close> turns the events of the Copilot SDK into agent events and
  buffers streamed text into lines, \<open>usage.go\<close> adds up what the calls cost, and \<open>driveSession\<close> of
  \<open>runner.go\<close> drives the session and watches its permission requests. The SDK is the script of the
  session: its events and requests in order, each with the state of the world it meets, and how it ends.
\<close>

section \<open>Events of the SDK\<close>

text \<open>The JSON text of a value, or the error of encoding it.\<close>

type_synonym json_text = "string + string"

record usage_data =
  udModel :: string
  udCost :: "rat option"
  udInput :: "int option"
  udOutput :: "int option"
  udCacheRead :: "int option"
  udDuration :: "int option"

datatype sdk_event =
    SdkMessageDelta string string
  | SdkReasoningDelta string string
  | SdkToolStart string string "json_text option"
  | SdkToolEnd string bool "json_text option" "json_text option" "json_text option"
  | SdkMessage string string
  | SdkIdle
  | SdkError string json_text
  | SdkUsage usage_data
  | SdkOther

definition ellipsis :: string where
  "ellipsis = [CHR 0xE2, CHR 0x80, CHR 0xA6]"

definition clip :: "string \<Rightarrow> nat \<Rightarrow> string" where
  "clip s n = (if length s \<le> n then s else take n s @ ellipsis)"

definition compactArgsMaxLen :: nat where
  "compactArgsMaxLen = 400"

definition compactArgs :: "json_text option \<Rightarrow> string" where
  "compactArgs a =
     (case a of None \<Rightarrow> [] | Some (Inl e) \<Rightarrow> ''<encode error: '' @ e @ ''>'' | Some (Inr b) \<Rightarrow> clip b compactArgsMaxLen)"

definition clipped :: "json_text option \<Rightarrow> nat \<Rightarrow> string" where
  "clipped a n = (case a of Some (Inr b) \<Rightarrow> clip b n | _ \<Rightarrow> [])"

definition toolEndSummary ::
  "json_text option \<Rightarrow> json_text option \<Rightarrow> json_text option \<Rightarrow> nat \<Rightarrow> string \<times> string \<times> string" where
  "toolEndSummary err res tel n = (clipped err n, clipped res n, clipped tel n)"

definition sessionErrMsg :: "string \<Rightarrow> json_text \<Rightarrow> string" where
  "sessionErrMsg m d = (if m \<noteq> [] then m else case d of Inr b \<Rightarrow> b | Inl _ \<Rightarrow> [])"

fun mapSessionEvent :: "sdk_event \<Rightarrow> agent_event option" where
  "mapSessionEvent (SdkMessageDelta i c) = Some (blankEvent EventAssistantDelta (PText c))"
| "mapSessionEvent (SdkReasoningDelta i c) = Some (blankEvent EventAssistantReasoningDelta (PText c))"
| "mapSessionEvent (SdkToolStart n i a) = Some (blankEvent EventToolStart (PToolStart n i (compactArgs a)))"
| "mapSessionEvent (SdkToolEnd i ok err res tel) =
     (let (e, r, _) = toolEndSummary err res tel 200 in Some (blankEvent EventToolEnd (PToolEnd i i ok e r)))"
| "mapSessionEvent (SdkMessage i c) = (if c = [] then None else Some (blankEvent EventAssistantDelta (PText c)))"
| "mapSessionEvent SdkIdle = None"
| "mapSessionEvent (SdkError m d) = Some (blankEvent EventError (PText (''session error: '' @ sessionErrMsg m d)))"
| "mapSessionEvent (SdkUsage u) = None"
| "mapSessionEvent SdkOther = None"

section \<open>Line buffers\<close>

text \<open>The buffers of the messages and of the reasoning that have been started, by id. Go visits a map in any
  order: \<open>order\<close> is the one it takes.\<close>

type_synonym line_bufs = "(string \<times> string) list"

record session_mapper =
  mpMsgs :: line_bufs
  mpReasoning :: line_bufs

definition newSessionMapper :: session_mapper where
  "newSessionMapper = \<lparr>mpMsgs = [], mpReasoning = []\<rparr>"

definition newline :: char where
  "newline = CHR 0x0A"

definition trimCR :: "string \<Rightarrow> string" where
  "trimCR s = trimRightByte (CHR 0x0D) s"

definition bufOf :: "line_bufs \<Rightarrow> string \<Rightarrow> string" where
  "bufOf bufs i = (case map_of bufs i of Some b \<Rightarrow> b | None \<Rightarrow> [])"

text \<open>What precedes and what follows the last newline.\<close>

definition cutLastLine :: "string \<Rightarrow> (string \<times> string) option" where
  "cutLastLine s =
     (if newline \<notin> set s then None
      else Some (rev (tl (dropWhile (\<lambda>c. c \<noteq> newline) (rev s))), rev (takeWhile (\<lambda>c. c \<noteq> newline) (rev s))))"

definition pumpLines :: "line_bufs \<Rightarrow> string \<Rightarrow> string \<Rightarrow> event_kind \<Rightarrow> agent_event list \<times> line_bufs" where
  "pumpLines bufs i content k =
     (if content = [] then ([], bufs)
      else let s = bufOf bufs i @ content
           in case cutLastLine s of None \<Rightarrow> ([], AList.update i s bufs)
              | Some (whole, rest) \<Rightarrow>
                  (map (\<lambda>line. blankEvent k (PText (trimCR line))) (splitOn newline whole), AList.update i rest bufs))"

definition drainBufs :: "(line_bufs \<Rightarrow> line_bufs) \<Rightarrow> line_bufs \<Rightarrow> event_kind \<Rightarrow> agent_event list" where
  "drainBufs order bufs k =
     map (\<lambda>(i, b). blankEvent k (PText (trimCR b))) (filter (\<lambda>(i, b). b \<noteq> []) (order bufs))"

definition flushMapper :: "(line_bufs \<Rightarrow> line_bufs) \<Rightarrow> session_mapper \<Rightarrow> agent_event list" where
  "flushMapper order m =
     drainBufs order (mpMsgs m) EventAssistantDelta @ drainBufs order (mpReasoning m) EventAssistantReasoningDelta"

definition mapped :: "sdk_event \<Rightarrow> agent_event list" where
  "mapped e = (case mapSessionEvent e of Some ae \<Rightarrow> [ae] | None \<Rightarrow> [])"

fun mapEvent :: "(line_bufs \<Rightarrow> line_bufs) \<Rightarrow> session_mapper \<Rightarrow> sdk_event \<Rightarrow> agent_event list \<times> session_mapper" where
  "mapEvent order m (SdkMessageDelta i c) =
     (let (es, bufs) = pumpLines (mpMsgs m) i c EventAssistantDelta in (es, m\<lparr>mpMsgs := bufs\<rparr>))"
| "mapEvent order m (SdkReasoningDelta i c) =
     (let (es, bufs) = pumpLines (mpReasoning m) i c EventAssistantReasoningDelta in (es, m\<lparr>mpReasoning := bufs\<rparr>))"
| "mapEvent order m (SdkMessage i c) = (mapped (SdkMessage i c), m\<lparr>mpMsgs := AList.delete i (mpMsgs m)\<rparr>)"
| "mapEvent order m (SdkError t d) = (flushMapper order m @ mapped (SdkError t d), newSessionMapper)"
| "mapEvent order m e = (mapped e, m)"

section \<open>Usage\<close>

definition plusOpt :: "'a::plus \<Rightarrow> 'a option \<Rightarrow> 'a" where
  "plusOpt a b = (case b of None \<Rightarrow> a | Some x \<Rightarrow> a + x)"

definition zeroUsage :: session_usage where
  "zeroUsage = \<lparr>uModel = [], uPremiumRequests = 0, uInputTokens = 0, uOutputTokens = 0, uCacheReadTokens = 0,
     uDurationMs = 0, uCalls = 0\<rparr>"

definition usageAdd :: "session_usage \<Rightarrow> usage_data \<Rightarrow> session_usage" where
  "usageAdd u d = \<lparr>
     uModel = (if udModel d \<noteq> [] then udModel d else uModel u),
     uPremiumRequests = plusOpt (uPremiumRequests u) (udCost d),
     uInputTokens = plusOpt (uInputTokens u) (udInput d),
     uOutputTokens = plusOpt (uOutputTokens u) (udOutput d),
     uCacheReadTokens = plusOpt (uCacheReadTokens u) (udCacheRead d),
     uDurationMs = plusOpt (uDurationMs u) (udDuration d),
     uCalls = uCalls u + 1\<rparr>"

section \<open>Driving a session\<close>

text \<open>An event of the SDK and how many of its agent events are sent before the context ends, or a permission
  request and the file system it meets.\<close>

datatype session_step =
    StepEvent sdk_event "nat option"
  | StepRequest winfs permission_request

datatype session_end = EndSendFailed string | EndIdle | EndContext string "nat \<Rightarrow> bool"

record session_script =
  sn_fs :: winfs
  sn_create :: "string option"
  sn_steps :: "session_step list"
  sn_end :: session_end
  sn_order :: "line_bufs \<Rightarrow> line_bufs"

datatype drive_error =
    DriveNoWorktree
  | DriveGuard path_error
  | DriveCreate string
  | DrivePathEscape string
  | DriveSend string
  | DriveContext string

record drive_state =
  dsMapper :: session_mapper
  dsUsage :: session_usage
  dsEscaped :: string
  dsOut :: "agent_event list"

definition sentOf :: "nat option \<Rightarrow> 'a list \<Rightarrow> 'a list" where
  "sentOf k es = (case k of None \<Rightarrow> es | Some n \<Rightarrow> take n es)"

text \<open>The callback of the session; \<open>trackingHandler\<close> for its requests.\<close>

definition onEvent :: "(line_bufs \<Rightarrow> line_bufs) \<Rightarrow> sdk_event \<Rightarrow> nat option \<Rightarrow> drive_state \<Rightarrow> drive_state" where
  "onEvent order e k st =
     (case e of SdkUsage d \<Rightarrow> st\<lparr>dsUsage := usageAdd (dsUsage st) d\<rparr>
      | SdkIdle \<Rightarrow> st\<lparr>dsOut := dsOut st @ sentOf k (flushMapper order (dsMapper st)), dsMapper := newSessionMapper\<rparr>
      | _ \<Rightarrow> let (es, m) = mapEvent order (dsMapper st) e in st\<lparr>dsOut := dsOut st @ sentOf k es, dsMapper := m\<rparr>)"

definition trackingHandler ::
  "winfs \<Rightarrow> path_guard \<Rightarrow> string \<Rightarrow> permission_request \<Rightarrow> drive_state \<Rightarrow> (permission_result \<times> drive_state) option" where
  "trackingHandler fs g worktree r st =
     map_option (\<lambda>a.
       (a, case pmFileName r of
           Some p \<Rightarrow> if a = PermissionDeniedByRules \<and> pmKind r = PermissionWrite \<and> dsEscaped st = []
             then st\<lparr>dsEscaped := p,
               dsOut := dsOut st @ [blankEvent EventSecurityPathEscape (PPathEscape p worktree)]\<rparr>
             else st
         | None \<Rightarrow> st)) (permissionHandler fs g r)"

fun runScript ::
  "(line_bufs \<Rightarrow> line_bufs) \<Rightarrow> path_guard \<Rightarrow> string \<Rightarrow> session_step list \<Rightarrow> drive_state \<Rightarrow> drive_state option" where
  "runScript order g wt [] st = Some st"
| "runScript order g wt (StepEvent e k # ss) st = runScript order g wt ss (onEvent order e k st)"
| "runScript order g wt (StepRequest fs r # ss) st =
     (case trackingHandler fs g wt r st of None \<Rightarrow> None | Some (_, st') \<Rightarrow> runScript order g wt ss st')"

text \<open>Of the events a cancelled session flushes, those the channel has room for.\<close>

definition roomFor :: "(nat \<Rightarrow> bool) \<Rightarrow> 'a list \<Rightarrow> 'a list" where
  "roomFor p es = map snd (filter (\<lambda>(n, _). p n) (enumerate 0 es))"

definition endSession ::
  "(line_bufs \<Rightarrow> line_bufs) \<Rightarrow> session_end \<Rightarrow> drive_state \<Rightarrow> drive_error option \<times> agent_event list" where
  "endSession order e st =
     (case e of
        EndSendFailed m \<Rightarrow>
          (Some (if dsEscaped st \<noteq> [] then DrivePathEscape (dsEscaped st) else DriveSend m), dsOut st)
      | EndContext m room \<Rightarrow>
          (Some (if dsEscaped st \<noteq> [] then DrivePathEscape (dsEscaped st) else DriveContext m),
           dsOut st @ roomFor room (flushMapper order (dsMapper st)))
      | EndIdle \<Rightarrow>
          (if dsEscaped st \<noteq> [] then (Some (DrivePathEscape (dsEscaped st)), dsOut st)
           else (None, dsOut st @ [blankEvent EventSessionIdle (PText [])])))"

definition freshDrive :: drive_state where
  "freshDrive = \<lparr>dsMapper = newSessionMapper, dsUsage = zeroUsage, dsEscaped = [],
     dsOut = [blankEvent EventSessionStart (PText [])]\<rparr>"

definition driveSession ::
  "session_script \<Rightarrow> string \<Rightarrow> task \<Rightarrow> (string \<times> session_usage \<times> drive_error option \<times> agent_event list) option" where
  "driveSession sn defaultModel t =
     (if tWorktreePath t = [] then Some ([], zeroUsage, Some DriveNoWorktree, [])
      else
        let model = (if tModel t \<noteq> [] then tModel t else defaultModel)
        in case newGuard (sn_fs sn) (tWorktreePath t) of None \<Rightarrow> None
           | Some (Inl e) \<Rightarrow> Some ([], zeroUsage, Some (DriveGuard e), [])
           | Some (Inr g) \<Rightarrow>
               (case sn_create sn of Some m \<Rightarrow> Some ([], zeroUsage, Some (DriveCreate m), [])
                | None \<Rightarrow>
                    (case runScript (sn_order sn) g (tWorktreePath t) (sn_steps sn) freshDrive of None \<Rightarrow> None
                     | Some st \<Rightarrow>
                         let (err, out) = endSession (sn_order sn) (sn_end sn) st
                         in Some (model, dsUsage st, err, out))))"

end
