(* ===== verification/Session_Theorems.thy ===== *)
theory Session_Theorems
  imports Session "HOL-Library.Multiset"
begin

text \<open>
  What a coding session hands on: streamed text as whole lines, however the SDK cuts it up, and the first
  write outside the worktree as the session's error and as one security event.
\<close>

section \<open>Lines\<close>

lemma splitOn_last:
  "splitOn c s = (if c \<notin> set s then [s]
     else splitOn c (rev (tl (dropWhile (\<lambda>x. x \<noteq> c) (rev s)))) @ [rev (takeWhile (\<lambda>x. x \<noteq> c) (rev s))])"
proof (cases "c \<in> set s")
  case True
  then obtain a b where s: "s = a @ c # b" "c \<notin> set b" by (metis split_list_last)
  have "takeWhile (\<lambda>x. x \<noteq> c) (rev b @ c # rev a) = rev b" "dropWhile (\<lambda>x. x \<noteq> c) (rev b @ c # rev a) = c # rev a"
    using s(2) by (auto simp: takeWhile_append dropWhile_append dest: set_takeWhileD)
  with s show ?thesis by (simp add: splitOn_append_sep splitOn_no)
qed (simp add: splitOn_no)

text \<open>The lines that are complete, and what follows them.\<close>

definition wholeLines :: "string \<Rightarrow> string list" where
  "wholeLines s = butlast (splitOn newline s)"

definition openLine :: "string \<Rightarrow> string" where
  "openLine s = last (splitOn newline s)"

lemma cutLastLine_lines:
  "cutLastLine s = None \<Longrightarrow> wholeLines s = [] \<and> openLine s = s"
  "cutLastLine s = Some (whole, rest) \<Longrightarrow> wholeLines s = splitOn newline whole \<and> openLine s = rest"
  using splitOn_last [of newline s]
  by (auto simp: cutLastLine_def wholeLines_def openLine_def split: if_splits)

lemma lines_append:
  "wholeLines (p @ c) = wholeLines p @ wholeLines (openLine p @ c)" "openLine (p @ c) = openLine (openLine p @ c)"
proof -
  have "splitOn newline (p @ c) = butlast (splitOn newline p) @ splitOn newline (last (splitOn newline p) @ c)"
  proof (cases "newline \<in> set p")
    case True
    then obtain a b where p: "p = a @ newline # b" "newline \<notin> set b" by (metis split_list_last)
    then have "splitOn newline p = splitOn newline a @ [b]" by (simp add: splitOn_append_sep splitOn_no)
    then show ?thesis by (simp add: p(1) splitOn_append_sep)
  qed (simp add: splitOn_no)
  then show "wholeLines (p @ c) = wholeLines p @ wholeLines (openLine p @ c)" "openLine (p @ c) = openLine (openLine p @ c)"
    by (simp_all add: wholeLines_def openLine_def butlast_append)
qed

lemma openLine_Nil [simp]: "openLine [] = []"
  by (simp add: openLine_def)

lemma pumpLines_spec:
  assumes "bufOf bufs i = openLine p"
  shows "fst (pumpLines bufs i c k) =
      map (\<lambda>l. blankEvent k (PText (trimCR l))) (drop (length (wholeLines p)) (wholeLines (p @ c)))"
    "bufOf (snd (pumpLines bufs i c k)) j = (if j = i then openLine (p @ c) else bufOf bufs j)"
proof -
  have o: "openLine (openLine p) = openLine p" "wholeLines (openLine p) = []"
  proof -
    have "newline \<notin> set (last (splitOn newline p))" by (rule splitOn_no_sep [of _ newline p]) simp
    then show "openLine (openLine p) = openLine p" "wholeLines (openLine p) = []"
      by (simp_all add: openLine_def wholeLines_def splitOn_no)
  qed
  show "fst (pumpLines bufs i c k) =
      map (\<lambda>l. blankEvent k (PText (trimCR l))) (drop (length (wholeLines p)) (wholeLines (p @ c)))"
    using assms o cutLastLine_lines [of "openLine p @ c"]
    unfolding lines_append(1) [of p c]
    by (auto simp: pumpLines_def Let_def split: option.splits)
  show "bufOf (snd (pumpLines bufs i c k)) j = (if j = i then openLine (p @ c) else bufOf bufs j)"
    using assms o cutLastLine_lines [of "openLine p @ c"]
    unfolding lines_append(2) [of p c]
    by (auto simp: pumpLines_def Let_def bufOf_def update_conv' split: option.splits)
qed

text \<open>What was streamed for a message since its snapshot or the last error, and the same of reasoning.\<close>

definition textStep :: "string \<Rightarrow> string \<Rightarrow> sdk_event \<Rightarrow> string" where
  "textStep i t e = (case e of SdkMessageDelta j c \<Rightarrow> if j = i then t @ c else t
     | SdkMessage j c \<Rightarrow> if j = i then [] else t | SdkError m d \<Rightarrow> [] | _ \<Rightarrow> t)"

definition textOf :: "string \<Rightarrow> sdk_event list \<Rightarrow> string" where
  "textOf i es = foldl (textStep i) [] es"

definition reasonStep :: "string \<Rightarrow> string \<Rightarrow> sdk_event \<Rightarrow> string" where
  "reasonStep i t e = (case e of SdkReasoningDelta j c \<Rightarrow> if j = i then t @ c else t | SdkError m d \<Rightarrow> [] | _ \<Rightarrow> t)"

definition reasonOf :: "string \<Rightarrow> sdk_event list \<Rightarrow> string" where
  "reasonOf i es = foldl (reasonStep i) [] es"

definition mapperAfter :: "(line_bufs \<Rightarrow> line_bufs) \<Rightarrow> sdk_event list \<Rightarrow> session_mapper" where
  "mapperAfter order es = foldl (\<lambda>m e. snd (mapEvent order m e)) newSessionMapper es"

definition buffered :: "sdk_event list \<Rightarrow> session_mapper \<Rightarrow> bool" where
  "buffered es m \<longleftrightarrow> distinct (map fst (mpMsgs m)) \<and> distinct (map fst (mpReasoning m)) \<and>
     (\<forall>i. bufOf (mpMsgs m) i = openLine (textOf i es)) \<and> (\<forall>i. bufOf (mpReasoning m) i = openLine (reasonOf i es))"

lemma pump_distinct: "distinct (map fst bufs) \<Longrightarrow> distinct (map fst (snd (pumpLines bufs i c k)))"
  by (auto simp: pumpLines_def Let_def distinct_update split: option.splits)

lemma bufOf_Nil [simp]: "bufOf [] i = []"
  by (simp add: bufOf_def)

lemma bufOf_delete: "bufOf (AList.delete i bufs) j = (if j = i then [] else bufOf bufs j)"
  by (simp add: bufOf_def delete_conv')

lemma buffered_step: "buffered es m \<Longrightarrow> buffered (es @ [e]) (snd (mapEvent order m e))"
proof (cases e)
  case (SdkMessageDelta i c)
  assume b: "buffered es m"
  then have "bufOf (snd (pumpLines (mpMsgs m) i c EventAssistantDelta)) j = (if j = i then openLine (textOf i es @ c) else bufOf (mpMsgs m) j)" for j
    by (intro pumpLines_spec) (simp add: buffered_def)
  moreover have "distinct (map fst (snd (pumpLines (mpMsgs m) i c EventAssistantDelta)))"
    by (rule pump_distinct) (use b in \<open>simp add: buffered_def\<close>)
  ultimately show ?thesis using b SdkMessageDelta
    by (simp add: buffered_def textOf_def reasonOf_def textStep_def reasonStep_def case_prod_beta Let_def)
next
  case (SdkReasoningDelta i c)
  assume b: "buffered es m"
  then have "bufOf (snd (pumpLines (mpReasoning m) i c EventAssistantReasoningDelta)) j =
      (if j = i then openLine (reasonOf i es @ c) else bufOf (mpReasoning m) j)" for j
    by (intro pumpLines_spec) (simp add: buffered_def)
  moreover have "distinct (map fst (snd (pumpLines (mpReasoning m) i c EventAssistantReasoningDelta)))"
    by (rule pump_distinct) (use b in \<open>simp add: buffered_def\<close>)
  ultimately show ?thesis using b SdkReasoningDelta
    by (simp add: buffered_def textOf_def reasonOf_def textStep_def reasonStep_def case_prod_beta Let_def)
qed (auto simp: buffered_def textOf_def reasonOf_def textStep_def reasonStep_def bufOf_delete distinct_delete
    newSessionMapper_def)

lemma buffered_after: "buffered es (mapperAfter order es)"
proof (induction es rule: rev_induct)
  case Nil
  show ?case by (simp add: buffered_def mapperAfter_def newSessionMapper_def bufOf_def textOf_def reasonOf_def)
next
  case (snoc e es)
  from buffered_step [OF this, of e order] show ?case by (simp add: mapperAfter_def)
qed

lemma drained:
  assumes "\<And>bufs. mset (order bufs) = mset bufs" "distinct (map fst bufs)"
  obtains ks where "distinct ks" "set ks = {i. bufOf bufs i \<noteq> []}"
    "drainBufs order bufs k = map (\<lambda>i. blankEvent k (PText (trimCR (bufOf bufs i)))) ks"
proof
  let ?es = "filter (\<lambda>(i, b). b \<noteq> []) (order bufs)"
  have s: "set (order bufs) = set bufs" by (metis assms(1) set_mset_mset)
  have "distinct (map fst (order bufs))" by (metis assms mset_map mset_eq_imp_distinct_iff)
  then show "distinct (map fst ?es)" by (simp add: distinct_map_filter)
  have of: "bufOf bufs i = b" if "(i, b) \<in> set bufs" for i b
    using that assms(2) by (simp add: bufOf_def)
  show "set (map fst ?es) = {i. bufOf bufs i \<noteq> []}"
    using s of by (force simp: bufOf_def split: option.splits dest: map_of_SomeD)
  show "drainBufs order bufs k = map (\<lambda>i. blankEvent k (PText (trimCR (bufOf bufs i)))) (map fst ?es)"
    using s of by (auto simp: drainBufs_def)
qed

text \<open>C9 (streamed text is cut into lines). Whatever events came before, a piece of a message adds exactly the
  lines of the message's text that it completes, in order and without their carriage returns; so how
  the SDK cuts a message into pieces and which messages alternate does not matter. The same
  holds of reasoning. A flush hands on the unfinished last line of every message that has one, once,
  in the order in which Go visits the buffers.\<close>

theorem stream_is_cut_into_lines:
  assumes "\<And>bufs. mset (order bufs) = mset bufs"
  shows "fst (mapEvent order (mapperAfter order es) (SdkMessageDelta i c)) =
      map (\<lambda>l. blankEvent EventAssistantDelta (PText (trimCR l)))
        (drop (length (wholeLines (textOf i es))) (wholeLines (textOf i es @ c))) \<and>
    fst (mapEvent order (mapperAfter order es) (SdkReasoningDelta i c)) =
      map (\<lambda>l. blankEvent EventAssistantReasoningDelta (PText (trimCR l)))
        (drop (length (wholeLines (reasonOf i es))) (wholeLines (reasonOf i es @ c))) \<and>
    (\<exists>ms rs. distinct ms \<and> set ms = {i. openLine (textOf i es) \<noteq> []} \<and>
       distinct rs \<and> set rs = {i. openLine (reasonOf i es) \<noteq> []} \<and>
       flushMapper order (mapperAfter order es) =
         map (\<lambda>i. blankEvent EventAssistantDelta (PText (trimCR (openLine (textOf i es))))) ms @
         map (\<lambda>i. blankEvent EventAssistantReasoningDelta (PText (trimCR (openLine (reasonOf i es))))) rs)"
proof -
  let ?m = "mapperAfter order es"
  have b: "distinct (map fst (mpMsgs ?m))" "distinct (map fst (mpReasoning ?m))"
    "bufOf (mpMsgs ?m) i = openLine (textOf i es)" "bufOf (mpReasoning ?m) i = openLine (reasonOf i es)" for i
    using buffered_after [of es order] by (simp_all add: buffered_def)
  obtain ms where ms: "distinct ms" "set ms = {i. bufOf (mpMsgs ?m) i \<noteq> []}"
    "drainBufs order (mpMsgs ?m) EventAssistantDelta = map (\<lambda>i. blankEvent EventAssistantDelta (PText (trimCR (bufOf (mpMsgs ?m) i)))) ms"
    using drained [of order, OF assms b(1)] .
  obtain rs where rs: "distinct rs" "set rs = {i. bufOf (mpReasoning ?m) i \<noteq> []}"
    "drainBufs order (mpReasoning ?m) EventAssistantReasoningDelta =
       map (\<lambda>i. blankEvent EventAssistantReasoningDelta (PText (trimCR (bufOf (mpReasoning ?m) i)))) rs"
    using drained [of order, OF assms b(2)] .
  show ?thesis
    using pumpLines_spec(1) [of "mpMsgs ?m" i "textOf i es" c] pumpLines_spec(1) [of "mpReasoning ?m" i "reasonOf i es" c] b(3,4) ms rs
    by (intro conjI exI [of _ ms] exI [of _ rs]) (simp_all add: flushMapper_def case_prod_beta Let_def)
qed

theorem stream_is_cut_into_lines_witness:
  "fst (mapEvent (\<lambda>b. b) (mapperAfter (\<lambda>b. b) [SdkMessageDelta ''m'' ''one''])
     (SdkMessageDelta ''m'' ([CHR 0x0D, newline] @ ''tw''))) = [blankEvent EventAssistantDelta (PText ''one'')]"
  using stream_is_cut_into_lines [of "\<lambda>b. b" "[SdkMessageDelta ''m'' ''one'']" "''m''" "[CHR 0x0D, newline] @ ''tw''"]
  by (simp add: textOf_def textStep_def wholeLines_def newline_def trimCR_def trimRightByte_def)

text \<open>A message that was streamed is handed on once more, whole, when its snapshot arrives.\<close>

lemma streamed_message_is_repeated:
  "c \<noteq> [] \<Longrightarrow> fst (mapEvent order (mapperAfter order (es @ [SdkMessageDelta i c])) (SdkMessage i c)) =
     [blankEvent EventAssistantDelta (PText c)]"
  by (simp add: mapped_def)

section \<open>Writes outside the worktree\<close>

text \<open>The named writes that were denied.\<close>

fun deniedWrites :: "path_guard \<Rightarrow> session_step list \<Rightarrow> string list" where
  "deniedWrites g [] = []"
| "deniedWrites g (StepEvent e k # ss) = deniedWrites g ss"
| "deniedWrites g (StepRequest fs r # ss) =
     (case pmFileName r of
        Some p \<Rightarrow> if pmKind r = PermissionWrite \<and> permissionHandler fs g r = Some PermissionDeniedByRules
          then p # deniedWrites g ss else deniedWrites g ss
      | None \<Rightarrow> deniedWrites g ss)"

definition alarms :: "agent_event list \<Rightarrow> agent_event list" where
  "alarms es = filter (\<lambda>e. eKind e = EventSecurityPathEscape) es"

definition alarm :: "string \<Rightarrow> string \<Rightarrow> agent_event" where
  "alarm wt p = blankEvent EventSecurityPathEscape (PPathEscape p wt)"

definition quietEvents :: "agent_event list \<Rightarrow> bool" where
  "quietEvents es \<longleftrightarrow> (\<forall>e\<in>set es. eKind e \<noteq> EventSecurityPathEscape)"

lemma quietEvents_alarms: "quietEvents es \<Longrightarrow> alarms es = []"
  by (simp add: quietEvents_def alarms_def filter_empty_conv)

lemma quiet_pump: "k \<noteq> EventSecurityPathEscape \<Longrightarrow> quietEvents (fst (pumpLines bufs i c k))"
  by (auto simp: quietEvents_def pumpLines_def Let_def blankEvent_def split: option.splits)

lemma quiet_flush: "quietEvents (flushMapper order m)"
  by (auto simp: quietEvents_def flushMapper_def drainBufs_def blankEvent_def)

lemma quiet_mapped: "quietEvents (mapped e)"
  by (cases e) (auto simp: mapped_def quietEvents_def blankEvent_def toolEndSummary_def)

lemma quiet_mapEvent: "quietEvents (fst (mapEvent order m e))"
proof -
  have "quietEvents (flushMapper order m @ mapped e)" using quiet_flush [of order m] quiet_mapped [of e] by (auto simp: quietEvents_def)
  then show ?thesis using quiet_mapped [of e] by (cases e) (simp_all add: case_prod_beta Let_def quiet_pump)
qed

lemma quiet_sent: "quietEvents es \<Longrightarrow> quietEvents (sentOf k es)"
  by (auto simp: quietEvents_def sentOf_def split: option.splits dest: in_set_takeD)

lemma onEvent_quiet:
  "alarms (dsOut (onEvent order e k st)) = alarms (dsOut st)" "dsEscaped (onEvent order e k st) = dsEscaped st"
proof -
  have "quietEvents (sentOf k (fst (mapEvent order (dsMapper st) e)))" "quietEvents (sentOf k (flushMapper order (dsMapper st)))"
    by (rule quiet_sent, rule quiet_mapEvent, rule quiet_sent, rule quiet_flush)
  then show "alarms (dsOut (onEvent order e k st)) = alarms (dsOut st)" "dsEscaped (onEvent order e k st) = dsEscaped st"
    by (cases e; auto simp: onEvent_def case_prod_beta Let_def alarms_def quietEvents_def filter_empty_conv)+
qed

text \<open>The denied writes a session reports: up to the first whose name is not empty.\<close>

definition reported :: "string list \<Rightarrow> string list" where
  "reported ps = takeWhile (\<lambda>p. p = []) ps @ take 1 (dropWhile (\<lambda>p. p = []) ps)"

definition escaped :: "string list \<Rightarrow> string" where
  "escaped ps = (case dropWhile (\<lambda>p. p = []) ps of [] \<Rightarrow> [] | p # _ \<Rightarrow> p)"

lemma reported_simps [simp]:
  "reported [] = []" "reported (p # ps) = p # (if p = [] then reported ps else [])"
  "escaped [] = []" "escaped (p # ps) = (if p = [] then escaped ps else p)"
  by (simp_all add: reported_def escaped_def)

lemma runScript_escape:
  assumes "runScript order g wt ss st = Some st'"
  shows "if dsEscaped st \<noteq> [] then dsEscaped st' = dsEscaped st \<and> alarms (dsOut st') = alarms (dsOut st)
    else dsEscaped st' = escaped (deniedWrites g ss) \<and>
      alarms (dsOut st') = alarms (dsOut st) @ map (alarm wt) (reported (deniedWrites g ss))"
  using assms
proof (induction order g wt ss st rule: runScript.induct)
  case (1 order g wt st)
  then show ?case by simp
next
  case (2 order g wt e k ss st)
  then show ?case by (simp add: onEvent_quiet)
next
  case (3 order g wt fs r ss st)
  then obtain a where a: "permissionHandler fs g r = Some a" by (auto simp: trackingHandler_def split: option.splits)
  show ?case
  proof (cases "pmFileName r")
    case None
    with 3 a show ?thesis by (simp add: trackingHandler_def)
  next
    case (Some p)
    show ?thesis
    proof (cases "a = PermissionDeniedByRules \<and> pmKind r = PermissionWrite \<and> dsEscaped st = []")
      case True
      let ?y = "st\<lparr>dsEscaped := p, dsOut := dsOut st @ [alarm wt p]\<rparr>"
      have t: "trackingHandler fs g wt r st = Some (a, ?y)" using a Some True by (simp add: trackingHandler_def alarm_def)
      have run: "runScript order g wt ss ?y = Some st'" using 3(2) t by simp
      have "alarms (dsOut st @ [alarm wt p]) = alarms (dsOut st) @ [alarm wt p]" by (simp add: alarms_def alarm_def blankEvent_def)
      with 3(1) [OF t refl run] a Some True show ?thesis by (simp split: if_splits)
    next
      case False
      with 3 a Some show ?thesis by (auto simp: trackingHandler_def split: if_splits)
    qed
  qed
qed

lemma escape_outcome:
  assumes "driveSession sn model t = Some (model', u, err, out)"
    "tWorktreePath t \<noteq> []" "newGuard (sn_fs sn) (tWorktreePath t) = Some (Inr g)" "sn_create sn = None"
  shows "alarms out = map (alarm (tWorktreePath t)) (reported (deniedWrites g (sn_steps sn))) \<and>
    (if escaped (deniedWrites g (sn_steps sn)) = [] then err = None \<longleftrightarrow> sn_end sn = EndIdle
     else err = Some (DrivePathEscape (escaped (deniedWrites g (sn_steps sn)))))"
proof -
  let ?wt = "tWorktreePath t"
  obtain st where st: "runScript (sn_order sn) g ?wt (sn_steps sn) freshDrive = Some st"
    "endSession (sn_order sn) (sn_end sn) st = (err, out)"
    using assms by (auto simp: driveSession_def Let_def split: option.splits prod.splits)
  have start: "dsEscaped freshDrive = []" "alarms (dsOut freshDrive) = []"
    by (simp_all add: freshDrive_def alarms_def blankEvent_def)
  have room: "quietEvents (roomFor r (flushMapper (sn_order sn) (dsMapper st)))" for r
  proof -
    have "set (roomFor r es) \<subseteq> set es" for es :: "agent_event list"
      by (auto simp: roomFor_def dest: set_zip_rightD simp: enumerate_eq_zip)
    then show ?thesis using quiet_flush unfolding quietEvents_def by blast
  qed
  have alarms: "alarms (a @ b) = alarms a @ alarms b" for a b by (simp add: alarms_def)
  have idle: "alarms [blankEvent EventSessionIdle (PText [])] = []" by (simp add: alarms_def blankEvent_def)
  from runScript_escape [OF st(1)] start
  have "dsEscaped st = escaped (deniedWrites g (sn_steps sn))" "alarms (dsOut st) = map (alarm ?wt) (reported (deniedWrites g (sn_steps sn)))"
    by simp_all
  then show ?thesis
    using st(2) quietEvents_alarms [OF room] by (cases "sn_end sn") (auto simp: endSession_def alarms idle split: if_splits)
qed


text \<open>With the guard's guarantee: a session that reports no error asked for no write to a named file outside its worktree.\<close>

lemma session_without_error_stays_inside:
  assumes "driveSession sn model t = Some (model', u, None, out)"
    "tWorktreePath t \<noteq> []" "newGuard (sn_fs sn) (tWorktreePath t) = Some (Inr g)" "sn_create sn = None"
    "wf_abs (sn_fs sn) (tWorktreePath t) = Inr (rooted (drive d0) cs0)" "\<not> isSep d0" "\<forall>c\<in>set cs0. plain c"
    "leadsTo (sn_fs sn) d0 cs0 dr rs" "rs \<noteq> []" "dosPaths (sn_fs sn)"
    "StepRequest fs \<lparr>pmKind = PermissionWrite, pmFileName = Some p\<rparr> \<in> set (sn_steps sn)" "p \<noteq> []"
    "wf_abs fs p = Inr (rooted (drive d) cs)" "\<not> isSep d" "\<forall>c\<in>set cs. plain c" "dosPaths fs"
    "wf_lower fs = wf_lower (sn_fs sn)" "lowerLaw (wf_lower fs)"
  shows "\<exists>d' ts. leadsTo fs d cs d' ts \<and> below (wf_lower fs) dr rs d' ts"
proof -
  have none: "escaped (deniedWrites g (sn_steps sn)) = []"
    using escape_outcome [OF assms(1-4)] by (auto split: if_splits)
  have "StepRequest fs r \<in> set ss \<Longrightarrow> escaped (deniedWrites g ss) = [] \<Longrightarrow> pmKind r = PermissionWrite \<Longrightarrow> pmFileName r = Some p \<Longrightarrow>
      permissionHandler fs g r \<noteq> Some PermissionDeniedByRules" for ss r
    using assms(12) by (induction ss rule: deniedWrites.induct) (auto split: option.splits if_splits)
  from this [OF assms(11) none] have "permissionHandler fs g \<lparr>pmKind = PermissionWrite, pmFileName = Some p\<rparr> \<noteq> Some PermissionDeniedByRules"
    by simp
  with guard_decides [OF assms(3,5,6,7,8,9,13,14,15,10,16,17,18)] show ?thesis by (auto split: if_splits)
qed

text \<open>A session in the worktree of \<open>sampleFS\<close> that writes a file and then one behind the link.\<close>

definition sampleScript :: session_script where
  "sampleScript = \<lparr>sn_fs = sampleFS, sn_create = None,
     sn_steps = [StepEvent (SdkMessageDelta ''m'' ''hi'') None,
       StepRequest sampleFS \<lparr>pmKind = PermissionWrite, pmFileName = Some (rooted (drive (CHR ''C'')) [''wt'', ''t1'', ''A.go''])\<rparr>,
       StepRequest sampleFS \<lparr>pmKind = PermissionWrite, pmFileName = Some (rooted (drive (CHR ''C'')) [''wt'', ''t1'', ''link'', ''A.go''])\<rparr>,
       StepEvent SdkIdle None],
     sn_end = EndIdle, sn_order = (\<lambda>b. b)\<rparr>"

definition inWorktree :: task where
  "inWorktree = (sampleTask ''t1'' StatusInProgress)\<lparr>tWorktreePath := rooted (drive (CHR ''C'')) [''wt'', ''t1'']\<rparr>"


end
