(* ===== verification/Broker.thy ===== *)
theory Broker
  imports FK_Prelude "HOL-Library.AList" "HOL-Library.Multiset" "HOL-Library.Word"
begin

text \<open>
  \<open>internal/ipc/broker.go\<close>: the fan-out of the orchestrator's events to the subscribers of
  the event stream. Goroutines call the broker concurrently; a schedule is a list of actions, each
  one step of one goroutine between two points where another may run (a lock taken or given back, a
  channel operation). The reader-writer lock and the buffered channels are Go's: a send to a full
  channel without a waiting receiver takes the default case, a send to a closed channel and a second
  close panic. Three fields are history only and read by no step: what was published, and what each
  channel took in and gave out.
\<close>

section \<open>Channels\<close>

datatype out_how = Received | Discarded

record 'e chan =
  chBuf :: "'e list"
  chCap :: nat
  chClosed :: bool
  chIn :: "'e list"
  chOut :: "(out_how \<times> 'e) list"
  chFrom :: nat

definition makeChan :: "nat \<Rightarrow> nat \<Rightarrow> 'e chan" where
  "makeChan n k = \<lparr>chBuf = [], chCap = n, chClosed = False, chIn = [], chOut = [], chFrom = k\<rparr>"

datatype 'e send_result = Sent "'e chan" | Full | SendPanic

definition trySend :: "'e \<Rightarrow> 'e chan \<Rightarrow> 'e send_result" where
  "trySend e c =
     (if chClosed c then SendPanic
      else if length (chBuf c) < chCap c
      then Sent (c\<lparr>chBuf := chBuf c @ [e], chIn := chIn c @ [e]\<rparr>)
      else Full)"

definition takeOne :: "out_how \<Rightarrow> 'e chan \<Rightarrow> 'e chan" where
  "takeOne how c =
     (case chBuf c of [] \<Rightarrow> c
      | e # es \<Rightarrow> c\<lparr>chBuf := es, chOut := chOut c @ [(how, e)]\<rparr>)"

section \<open>The broker\<close>

text \<open>Where a goroutine stands in the call it makes. The lists are the channels the range loop
  has still to visit.\<close>

datatype 'e pc =
    Idle
  | PubEnter 'e
  | PubNext 'e "nat list"
  | PubDrop 'e nat "nat list"
  | PubAgain 'e nat "nat list"
  | SubEnter "64 word" nat
  | SubHeld "64 word" nat
  | UnsubEnter "64 word"
  | UnsubHeld "64 word"
  | Closing nat

record 'e broker =
  bNextID :: "64 word"
  bSubs :: "(64 word \<times> nat) list"
  bChans :: "'e chan list"
  bBufSize :: nat
  bReaders :: "nat list"
  bWriter :: "nat option"
  bPc :: "nat \<Rightarrow> 'e pc"
  bLog :: "'e list"
  bPanic :: bool

definition newEventBroker :: "int \<Rightarrow> 'e broker" where
  "newEventBroker bufSize =
     \<lparr>bNextID = 0, bSubs = [], bChans = [],
      bBufSize = nat (if bufSize \<le> 0 then 1024 else bufSize),
      bReaders = [], bWriter = None, bPc = (\<lambda>g. Idle), bLog = [], bPanic = False\<rparr>"

definition brokerCount :: "'e broker \<Rightarrow> nat" where
  "brokerCount b = length (bSubs b)"

text \<open>Calls. A nil event returns at once; an id is drawn and the channel made before the lock.\<close>

datatype 'e call = Publish "'e option" | Subscribe | Unsubscribe "64 word"

definition goto :: "nat \<Rightarrow> 'e pc \<Rightarrow> 'e broker \<Rightarrow> 'e broker" where
  "goto g p b = b\<lparr>bPc := (bPc b)(g := p)\<rparr>"

definition putChan :: "nat \<Rightarrow> 'e chan \<Rightarrow> 'e broker \<Rightarrow> 'e broker" where
  "putChan a c b = b\<lparr>bChans := (bChans b)[a := c]\<rparr>"

definition beginCall :: "nat \<Rightarrow> 'e call \<Rightarrow> 'e broker \<Rightarrow> 'e broker" where
  "beginCall g k b =
     (case k of
        Publish None \<Rightarrow> b
      | Publish (Some e) \<Rightarrow> goto g (PubEnter e) b
      | Subscribe \<Rightarrow>
          (let i = bNextID b + 1
           in goto g (SubEnter i (length (bChans b)))
                (b\<lparr>bNextID := i, bChans := bChans b @ [makeChan (bBufSize b) 0]\<rparr>))
      | Unsubscribe i \<Rightarrow> goto g (UnsubEnter i) b)"

text \<open>The loop of \<open>Publish\<close>: send, else discard one and send again.\<close>

definition publishStep :: "nat \<Rightarrow> 'e broker \<Rightarrow> 'e broker" where
  "publishStep g b =
     (case bPc b g of
        PubNext e [] \<Rightarrow> goto g Idle (b\<lparr>bReaders := removeAll g (bReaders b)\<rparr>)
      | PubNext e (a # as) \<Rightarrow>
          (case trySend e (bChans b ! a) of
             Sent c \<Rightarrow> goto g (PubNext e as) (putChan a c b)
           | Full \<Rightarrow> goto g (PubDrop e a as) b
           | SendPanic \<Rightarrow> b\<lparr>bPanic := True\<rparr>)
      | PubDrop e a as \<Rightarrow>
          goto g (PubAgain e a as) (putChan a (takeOne Discarded (bChans b ! a)) b)
      | PubAgain e a as \<Rightarrow>
          (case trySend e (bChans b ! a) of
             Sent c \<Rightarrow> goto g (PubNext e as) (putChan a c b)
           | Full \<Rightarrow> goto g (PubNext e as) b
           | SendPanic \<Rightarrow> b\<lparr>bPanic := True\<rparr>)
      | _ \<Rightarrow> b)"

definition subscribeStep :: "nat \<Rightarrow> 64 word \<Rightarrow> nat \<Rightarrow> 'e broker \<Rightarrow> 'e broker" where
  "subscribeStep g i a b =
     putChan a ((bChans b ! a)\<lparr>chFrom := length (bLog b)\<rparr>) (goto g Idle
       (b\<lparr>bSubs := AList.update i a (bSubs b), bWriter := None\<rparr>))"

definition unsubscribeStep :: "nat \<Rightarrow> 64 word \<Rightarrow> 'e broker \<Rightarrow> 'e broker" where
  "unsubscribeStep g i b =
     (case map_of (bSubs b) i of
        None \<Rightarrow> goto g Idle (b\<lparr>bWriter := None\<rparr>)
      | Some a \<Rightarrow> goto g (Closing a) (b\<lparr>bSubs := AList.delete i (bSubs b), bWriter := None\<rparr>))"

definition closeStep :: "nat \<Rightarrow> nat \<Rightarrow> 'e broker \<Rightarrow> 'e broker" where
  "closeStep g a b =
     (if chClosed (bChans b ! a) then b\<lparr>bPanic := True\<rparr>
      else goto g Idle (putChan a ((bChans b ! a)\<lparr>chClosed := True\<rparr>) b))"

section \<open>Schedules\<close>

text \<open>\<open>Call\<close> starts a call on a goroutine at rest. \<open>Go\<close> lets one go on: it waits for the lock
  while that is held; the order in which a range loop visits the map is Go's choice. \<open>Receive\<close>
  is a subscriber that takes an event.\<close>

datatype 'e act = Call nat "'e call" | Go nat | GoRange nat "nat list" | Receive nat

fun fire :: "'e act \<Rightarrow> 'e broker \<Rightarrow> 'e broker option" where
  "fire (Call g k) b = (if bPc b g = Idle then Some (beginCall g k b) else None)"
| "fire (GoRange g order) b =
     (case bPc b g of
        PubEnter e \<Rightarrow>
          (if bWriter b = None \<and> mset order = mset (map snd (bSubs b))
           then Some (goto g (PubNext e order) (b\<lparr>bReaders := g # bReaders b, bLog := bLog b @ [e]\<rparr>))
           else None)
      | _ \<Rightarrow> None)"
| "fire (Go g) b =
     (case bPc b g of
        Idle \<Rightarrow> None
      | PubEnter e \<Rightarrow> None
      | SubEnter i a \<Rightarrow>
          (if bWriter b = None \<and> bReaders b = []
           then Some (goto g (SubHeld i a) (b\<lparr>bWriter := Some g\<rparr>)) else None)
      | SubHeld i a \<Rightarrow> Some (subscribeStep g i a b)
      | UnsubEnter i \<Rightarrow>
          (if bWriter b = None \<and> bReaders b = []
           then Some (goto g (UnsubHeld i) (b\<lparr>bWriter := Some g\<rparr>)) else None)
      | UnsubHeld i \<Rightarrow> Some (unsubscribeStep g i b)
      | Closing a \<Rightarrow> Some (closeStep g a b)
      | _ \<Rightarrow> Some (publishStep g b))"
| "fire (Receive a) b =
     (if a < length (bChans b) \<and> chBuf (bChans b ! a) \<noteq> []
      then Some (putChan a (takeOne Received (bChans b ! a)) b) else None)"

fun play :: "'e act list \<Rightarrow> 'e broker \<Rightarrow> 'e broker option" where
  "play [] b = Some b"
| "play (x # xs) b = (case fire x b of None \<Rightarrow> None | Some b' \<Rightarrow> play xs b')"

definition received :: "'e chan \<Rightarrow> 'e list" where
  "received c = map snd (filter (\<lambda>x. fst x = Received) (chOut c))"

section \<open>Locks and channels stay consistent\<close>

fun reading :: "'e pc \<Rightarrow> bool" where
  "reading (PubNext e as) = True"
| "reading (PubDrop e a as) = True"
| "reading (PubAgain e a as) = True"
| "reading _ = False"

fun writing :: "'e pc \<Rightarrow> bool" where
  "writing (SubHeld i a) = True"
| "writing (UnsubHeld i) = True"
| "writing _ = False"

text \<open>The channel a goroutine has to itself, and those a range loop has still to visit.\<close>

fun owned :: "'e pc \<Rightarrow> nat option" where
  "owned (SubEnter i a) = Some a"
| "owned (SubHeld i a) = Some a"
| "owned (Closing a) = Some a"
| "owned _ = None"

fun targets :: "'e pc \<Rightarrow> nat list" where
  "targets (PubNext e as) = as"
| "targets (PubDrop e a as) = a # as"
| "targets (PubAgain e a as) = a # as"
| "targets _ = []"

definition addrs :: "'e broker \<Rightarrow> nat set" where
  "addrs b = snd ` set (bSubs b)"

definition open_at :: "'e broker \<Rightarrow> nat \<Rightarrow> bool" where
  "open_at b a \<longleftrightarrow> a < length (bChans b) \<and> \<not> chClosed (bChans b ! a)"

definition subsOk :: "'e broker \<Rightarrow> bool" where
  "subsOk b \<longleftrightarrow> distinct (map fst (bSubs b)) \<and> distinct (map snd (bSubs b)) \<and>
     (\<forall>a\<in>addrs b. open_at b a)"

definition lockOk :: "'e broker \<Rightarrow> bool" where
  "lockOk b \<longleftrightarrow> (\<forall>g. g \<in> set (bReaders b) \<longleftrightarrow> reading (bPc b g)) \<and>
     (\<forall>g. bWriter b = Some g \<longleftrightarrow> writing (bPc b g)) \<and> (bWriter b = None \<or> bReaders b = [])"

definition ownedOk :: "'e broker \<Rightarrow> bool" where
  "ownedOk b \<longleftrightarrow>
     (\<forall>g a. owned (bPc b g) = Some a \<longrightarrow> open_at b a \<and> a \<notin> addrs b) \<and>
     (\<forall>g h a. owned (bPc b g) = Some a \<longrightarrow> owned (bPc b h) = Some a \<longrightarrow> g = h)"

definition loopOk :: "'e broker \<Rightarrow> bool" where
  "loopOk b \<longleftrightarrow> (\<forall>g. set (targets (bPc b g)) \<subseteq> addrs b \<and> distinct (targets (bPc b g)))"

definition chanOk :: "nat \<Rightarrow> 'e chan \<Rightarrow> bool" where
  "chanOk n c \<longleftrightarrow> chCap c = n \<and> length (chBuf c) \<le> n \<and> map snd (chOut c) @ chBuf c = chIn c"

definition brokerOk :: "'e broker \<Rightarrow> bool" where
  "brokerOk b \<longleftrightarrow> subsOk b \<and> lockOk b \<and> ownedOk b \<and> loopOk b \<and> \<not> bPanic b \<and>
     0 < bBufSize b \<and> (\<forall>c\<in>set (bChans b). chanOk (bBufSize b) c)"

lemma owned_targets: "owned p = Some a \<Longrightarrow> targets p = []"
  by (cases p) auto

lemma not_reading_targets: "\<not> reading p \<Longrightarrow> targets p = []"
  by (cases p) auto

lemma new_broker_ok: "brokerOk (newEventBroker n)"
  by (simp add: brokerOk_def subsOk_def lockOk_def ownedOk_def loopOk_def newEventBroker_def addrs_def)

lemma trySend_panics [simp]: "trySend e c = SendPanic \<longleftrightarrow> chClosed c"
  by (auto simp: trySend_def)

lemma trySend_Sent:
  "trySend e c = Sent c' \<longleftrightarrow>
     \<not> chClosed c \<and> length (chBuf c) < chCap c \<and>
     c' = c\<lparr>chBuf := chBuf c @ [e], chIn := chIn c @ [e]\<rparr>"
  by (auto simp: trySend_def split: if_splits)

lemma trySend_ok: "trySend e c = Sent c' \<Longrightarrow> chanOk n c \<Longrightarrow> chanOk n c'"
  by (auto simp: trySend_def chanOk_def split: if_splits)

lemma takeOne_simps [simp]: "chClosed (takeOne how c) = chClosed c" "chCap (takeOne how c) = chCap c"
  "chIn (takeOne how c) = chIn c" "chFrom (takeOne how c) = chFrom c"
  by (auto simp: takeOne_def split: list.splits)

lemma takeOne_ok: "chanOk n c \<Longrightarrow> chanOk n (takeOne how c)"
  by (auto simp: takeOne_def chanOk_def split: list.splits)

text \<open>Two updates cover the steps: a goroutine moves on without owning or visiting more than
  before, and a channel is replaced by one as open as it was.\<close>

lemma putChan_simps [simp]:
  "bPc (putChan a c b) = bPc b" "bSubs (putChan a c b) = bSubs b" "bReaders (putChan a c b) = bReaders b"
  "bWriter (putChan a c b) = bWriter b" "bPanic (putChan a c b) = bPanic b" "bLog (putChan a c b) = bLog b"
  "bBufSize (putChan a c b) = bBufSize b" "bChans (putChan a c b) = (bChans b)[a := c]"
  "addrs (putChan a c b) = addrs b"
  by (simp_all add: putChan_def addrs_def)

lemma goto_simps [simp]:
  "bPc (goto g p b) = (bPc b)(g := p)" "bSubs (goto g p b) = bSubs b" "bReaders (goto g p b) = bReaders b"
  "bWriter (goto g p b) = bWriter b" "bPanic (goto g p b) = bPanic b" "bLog (goto g p b) = bLog b"
  "bBufSize (goto g p b) = bBufSize b" "bChans (goto g p b) = bChans b"
  "addrs (goto g p b) = addrs b" "open_at (goto g p b) = open_at b"
  by (simp_all add: goto_def addrs_def open_at_def fun_eq_iff)

lemma brokerOkI:
  assumes "subsOk b" "lockOk b" "ownedOk b" "loopOk b" "\<not> bPanic b" "0 < bBufSize b"
    and "\<And>c. c \<in> set (bChans b) \<Longrightarrow> chanOk (bBufSize b) c"
  shows "brokerOk b"
  using assms by (simp add: brokerOk_def)

lemma brokerOkD:
  assumes "brokerOk b"
  shows "subsOk b" "lockOk b" "ownedOk b" "loopOk b" "\<not> bPanic b" "0 < bBufSize b"
    and "c \<in> set (bChans b) \<Longrightarrow> chanOk (bBufSize b) c"
  using assms by (simp_all add: brokerOk_def)

lemma lock_cong:
  assumes "lockOk b" "bReaders b' = bReaders b" "bWriter b' = bWriter b"
    and "\<And>g. reading (bPc b' g) = reading (bPc b g)" "\<And>g. writing (bPc b' g) = writing (bPc b g)"
  shows "lockOk b'"
  using assms unfolding lockOk_def by metis

lemma owned_mono:
  assumes "ownedOk b" "\<And>g a. owned (bPc b' g) = Some a \<Longrightarrow> owned (bPc b g) = Some a"
    and "\<And>a. open_at b a \<Longrightarrow> open_at b' a" "addrs b' \<subseteq> addrs b"
  shows "ownedOk b'"
  using assms unfolding ownedOk_def by blast

lemma putChan_ok:
  assumes "brokerOk b" "chClosed c = chClosed (bChans b ! a)" "chanOk (bBufSize b) c"
  shows "brokerOk (putChan a c b)"
proof (rule brokerOkI)
  have o: "open_at (putChan a c b) x = open_at b x" for x
    using assms(2) by (cases "a < length (bChans b)") (auto simp: open_at_def nth_list_update)
  note b = brokerOkD [OF assms(1)]
  show "subsOk (putChan a c b)" using b(1) by (simp add: subsOk_def o)
  show "lockOk (putChan a c b)" by (rule lock_cong [OF b(2)]) simp_all
  show "ownedOk (putChan a c b)" by (rule owned_mono [OF b(3)]) (simp_all add: o)
  show "loopOk (putChan a c b)" using b(4) by (simp add: loopOk_def)
  show "chanOk (bBufSize (putChan a c b)) x" if "x \<in> set (bChans (putChan a c b))" for x
    using that b(7) assms(3) by (auto dest!: set_update_subset_insert [THEN subsetD])
qed (use brokerOkD [OF assms(1)] in simp_all)

lemma goto_ok:
  assumes "brokerOk b" "reading p = reading (bPc b g)" "writing p = writing (bPc b g)"
    and "owned p = None \<or> owned p = owned (bPc b g)"
    and "set (targets p) \<subseteq> addrs b" "distinct (targets p)"
  shows "brokerOk (goto g p b)"
proof (rule brokerOkI)
  note b = brokerOkD [OF assms(1)]
  show "subsOk (goto g p b)" using b(1) by (simp add: subsOk_def)
  show "lockOk (goto g p b)" by (rule lock_cong [OF b(2)]) (simp_all add: assms)
  show "ownedOk (goto g p b)"
    by (rule owned_mono [OF b(3)]) (use assms(4) in \<open>auto split: if_splits\<close>)
  show "loopOk (goto g p b)" using b(4) assms(5,6) by (simp add: loopOk_def)
  show "chanOk (bBufSize (goto g p b)) x" if "x \<in> set (bChans (goto g p b))" for x
    using that b(7) by simp
qed (use brokerOkD [OF assms(1)] in simp_all)

lemma update_range: "snd ` set (AList.update i a t) \<subseteq> insert a (snd ` set t)"
  by (induction t) auto

lemma update_distinct_snd:
  "distinct (map snd t) \<Longrightarrow> a \<notin> snd ` set t \<Longrightarrow> distinct (map snd (AList.update i a t))"
proof (induction t)
  case (Cons x t)
  then show ?case using update_range [of i a t] by (cases x) auto
qed simp

lemma delete_range:
  assumes "distinct (map snd t)" "map_of t i = Some a"
  shows "snd ` set (AList.delete i t) \<subseteq> snd ` set t - {a}" "a \<in> snd ` set t"
    "distinct (map snd (AList.delete i t))"
proof -
  have "inj_on snd (set t)" using assms(1) by (simp add: distinct_map)
  then show "snd ` set (AList.delete i t) \<subseteq> snd ` set t - {a}"
    using map_of_SomeD [OF assms(2)] by (auto simp: AList.delete_eq) (metis inj_onD fst_conv snd_conv)
  show "a \<in> snd ` set t" using map_of_SomeD [OF assms(2)] by force
  show "distinct (map snd (AList.delete i t))"
    using assms(1) by (simp add: AList.delete_eq distinct_map_filter)
qed

lemma other_fields [simp]:
  "addrs (b\<lparr>bReaders := r\<rparr>) = addrs b" "addrs (b\<lparr>bLog := l\<rparr>) = addrs b"
  "addrs (b\<lparr>bWriter := w\<rparr>) = addrs b" "addrs (b\<lparr>bSubs := t\<rparr>) = snd ` set t"
  "open_at (b\<lparr>bReaders := r\<rparr>) = open_at b" "open_at (b\<lparr>bLog := l\<rparr>) = open_at b"
  "open_at (b\<lparr>bWriter := w\<rparr>) = open_at b" "open_at (b\<lparr>bSubs := t\<rparr>) = open_at b"
  by (simp_all add: addrs_def open_at_def fun_eq_iff)

lemma owned_open:
  assumes "brokerOk b" "owned (bPc b g) = Some a"
  shows "open_at b a" "a \<notin> addrs b"
  using assms by (auto simp: brokerOk_def ownedOk_def)

lemma in_range_chanOk: "brokerOk b \<Longrightarrow> a < length (bChans b) \<Longrightarrow> chanOk (bBufSize b) (bChans b ! a)"
  by (rule brokerOkD(7)) simp_all

lemma target_open: "brokerOk b \<Longrightarrow> a \<in> set (targets (bPc b g)) \<Longrightarrow> open_at b a"
  by (auto simp: brokerOk_def subsOk_def loopOk_def)

lemma sent_ok:
  assumes "brokerOk b" "trySend e (bChans b ! a) = Sent c" "a < length (bChans b)"
  shows "brokerOk (putChan a c b)"
proof (rule putChan_ok [OF assms(1)])
  show "chClosed c = chClosed (bChans b ! a)" using assms(2) by (simp add: trySend_Sent)
  show "chanOk (bBufSize b) c" by (rule trySend_ok [OF assms(2) in_range_chanOk [OF assms(1,3)]])
qed

lemma taken_ok: "brokerOk b \<Longrightarrow> a < length (bChans b) \<Longrightarrow> brokerOk (putChan a (takeOne how (bChans b ! a)) b)"
  by (intro putChan_ok) (auto intro!: takeOne_ok in_range_chanOk)

lemma started_range_ok:
  assumes "brokerOk b" "bPc b g = PubEnter e" "bWriter b = None" "mset order = mset (map snd (bSubs b))"
  shows "brokerOk (goto g (PubNext e order) (b\<lparr>bReaders := g # bReaders b, bLog := bLog b @ [e]\<rparr>))"
    (is "brokerOk ?b'")
proof (rule brokerOkI)
  note b = brokerOkD [OF assms(1)]
  have a: "addrs ?b' = addrs b" "open_at ?b' = open_at b" by simp_all
  have order: "set order = addrs b" using mset_eq_setD [OF assms(4)] by (simp add: addrs_def)
  have "distinct order" using b(1) mset_eq_imp_distinct_iff [OF assms(4)] by (simp add: subsOk_def)
  then show "loopOk ?b'" using b(4) order unfolding loopOk_def a by simp
  show "subsOk ?b'" using b(1) unfolding subsOk_def a by simp
  show "lockOk ?b'" using b(2) assms(2,3) unfolding lockOk_def by auto
  show "ownedOk ?b'" by (rule owned_mono [OF b(3)]) (auto simp: a split: if_splits)
qed (use brokerOkD [OF assms(1)] in simp_all)

lemma left_range_ok:
  assumes "brokerOk b" "bPc b g = PubNext e []"
  shows "brokerOk (goto g Idle (b\<lparr>bReaders := removeAll g (bReaders b)\<rparr>))" (is "brokerOk ?b'")
proof (rule brokerOkI)
  note b = brokerOkD [OF assms(1)]
  have a: "addrs ?b' = addrs b" "open_at ?b' = open_at b" by simp_all
  show "subsOk ?b'" using b(1) unfolding subsOk_def a by simp
  show "lockOk ?b'" using b(2) assms(2) unfolding lockOk_def by auto
  show "ownedOk ?b'" by (rule owned_mono [OF b(3)]) (auto simp: a split: if_splits)
  show "loopOk ?b'" using b(4) unfolding loopOk_def a by simp
qed (use brokerOkD [OF assms(1)] in simp_all)

lemma taken_lock_ok:
  assumes "brokerOk b" "bWriter b = None" "bReaders b = []" "\<not> reading (bPc b g)"
    and p: "writing p" "\<not> reading p" "owned p = owned (bPc b g)"
  shows "brokerOk (goto g p (b\<lparr>bWriter := Some g\<rparr>))" (is "brokerOk ?b'")
proof (rule brokerOkI)
  note b = brokerOkD [OF assms(1)]
  have a: "addrs ?b' = addrs b" "open_at ?b' = open_at b" by simp_all
  show "subsOk ?b'" using b(1) unfolding subsOk_def a by simp
  show "lockOk ?b'" using b(2) assms(2-4) p unfolding lockOk_def by auto
  show "ownedOk ?b'" by (rule owned_mono [OF b(3)]) (use p(3) in \<open>auto simp: a split: if_splits\<close>)
  show "loopOk ?b'" using b(4) not_reading_targets [OF p(2)] unfolding loopOk_def a by simp
qed (use brokerOkD [OF assms(1)] in simp_all)

lemma writer_alone:
  assumes "brokerOk b" "writing (bPc b g)"
  shows "bWriter b = Some g" "bReaders b = []" "\<not> reading (bPc b h)" "targets (bPc b h) = []"
proof -
  note b = brokerOkD(2) [OF assms(1), unfolded lockOk_def]
  show w: "bWriter b = Some g" using b assms(2) by blast
  then show r: "bReaders b = []" using b by auto
  then show "\<not> reading (bPc b h)" using b by (metis empty_iff empty_set)
  then show "targets (bPc b h) = []" by (rule not_reading_targets)
qed

text \<open>The writer changes the table of subscribers and gives the lock back.\<close>

lemma table_changed_ok:
  assumes "brokerOk b" "writing (bPc b g)" "\<not> writing p" "\<not> reading p"
    and table: "distinct (map fst t)" "distinct (map snd t)"
      "snd ` set t \<subseteq> addrs b \<union> set_option (owned (bPc b g))"
    and owner: "\<And>a. owned p = Some a \<Longrightarrow> a \<in> addrs b - snd ` set t"
  shows "brokerOk (goto g p (b\<lparr>bSubs := t, bWriter := None\<rparr>))" (is "brokerOk ?b'")
proof (rule brokerOkI)
  note b = brokerOkD [OF assms(1)]
  note alone = writer_alone [OF assms(1,2)]
  have a: "addrs ?b' = snd ` set t" "open_at ?b' = open_at b" by simp_all
  have own: "open_at b x \<and> x \<notin> addrs b" if "owned (bPc b h) = Some x" for h x
    using b(3) that by (auto simp: ownedOk_def)
  have "open_at b x" if "x \<in> snd ` set t" for x
    using that table(3) b(1) own [of g x] by (cases "owned (bPc b g)") (auto simp: subsOk_def)
  then show "subsOk ?b'" using table(1,2) unfolding subsOk_def a by simp
  have "writing (bPc b h) \<longleftrightarrow> h = g" for h
    using b(2) alone(1) assms(2) unfolding lockOk_def by (metis option.inject)
  then show "lockOk ?b'" using assms(3,4) alone unfolding lockOk_def by simp
  show "ownedOk ?b'"
  proof -
    have "open_at b x \<and> x \<notin> snd ` set t" if "h \<noteq> g" "owned (bPc b h) = Some x" for h x
    proof -
      have "owned (bPc b g) \<noteq> Some x" using b(3) that by (auto simp: ownedOk_def)
      then show ?thesis using own [OF that(2)] table(3) by auto
    qed
    moreover have "owned (bPc b h) \<noteq> Some x" if "owned p = Some x" for h x
      using own owner [OF that] by blast
    moreover have "open_at b x" if "owned p = Some x" for x
      using owner [OF that] b(1) by (auto simp: subsOk_def)
    ultimately show ?thesis using b(3) owner unfolding ownedOk_def a by auto
  qed
  show "loopOk ?b'" using alone(4) not_reading_targets [OF assms(4)] unfolding loopOk_def by simp
qed (use brokerOkD [OF assms(1)] in simp_all)

lemma subscribed_ok:
  assumes "brokerOk b" "bPc b g = SubHeld i a"
  shows "brokerOk (subscribeStep g i a b)"
proof -
  note b = brokerOkD [OF assms(1)]
  have o: "open_at b a" "a \<notin> addrs b" using owned_open [OF assms(1), of g a] assms(2) by simp_all
  have sub: "snd ` set (AList.update i a (bSubs b)) \<subseteq> insert a (addrs b)"
    using update_range [of i a "bSubs b"] by (simp add: addrs_def)
  have "distinct (map snd (AList.update i a (bSubs b)))"
    using b(1) o(2) by (intro update_distinct_snd) (simp_all add: subsOk_def addrs_def)
  then have "brokerOk (goto g Idle (b\<lparr>bSubs := AList.update i a (bSubs b), bWriter := None\<rparr>))"
    using assms b(1) sub by (intro table_changed_ok) (auto simp: subsOk_def distinct_update)
  from putChan_ok [OF this, where a = a and c = "(bChans b ! a)\<lparr>chFrom := length (bLog b)\<rparr>"]
  show ?thesis using o(1) in_range_chanOk [OF assms(1)]
    by (simp add: subscribeStep_def goto_def putChan_def open_at_def chanOk_def)
qed

lemma unsubscribed_ok:
  assumes "brokerOk b" "bPc b g = UnsubHeld i"
  shows "brokerOk (unsubscribeStep g i b)"
proof (cases "map_of (bSubs b) i")
  case None
  then show ?thesis
    using assms table_changed_ok [OF assms(1), of g Idle "bSubs b"] brokerOkD(1) [OF assms(1)]
    by (simp add: unsubscribeStep_def subsOk_def addrs_def)
next
  case (Some a)
  note s = brokerOkD(1) [OF assms(1), unfolded subsOk_def]
  have "snd ` set (AList.delete i (bSubs b)) \<subseteq> addrs b - {a}" "a \<in> addrs b"
    "distinct (map snd (AList.delete i (bSubs b)))"
    using delete_range [OF _ Some] s by (simp_all add: addrs_def)
  then have "brokerOk (goto g (Closing a) (b\<lparr>bSubs := AList.delete i (bSubs b), bWriter := None\<rparr>))"
    using assms s by (intro table_changed_ok) (auto simp: distinct_delete)
  then show ?thesis using Some by (simp add: unsubscribeStep_def)
qed

lemma closed_ok:
  assumes "brokerOk b" "bPc b g = Closing a"
  shows "brokerOk (closeStep g a b)"
proof -
  note b = brokerOkD [OF assms(1)]
  have o: "open_at b a" "a \<notin> addrs b" using owned_open [OF assms(1), of g a] assms(2) by simp_all
  let ?b' = "goto g Idle (putChan a ((bChans b ! a)\<lparr>chClosed := True\<rparr>) b)"
  have op: "open_at ?b' x \<longleftrightarrow> open_at b x \<and> x \<noteq> a" for x
    using o by (auto simp: open_at_def nth_list_update)
  have "brokerOk ?b'"
  proof (rule brokerOkI)
    show "subsOk ?b'" using b(1) o unfolding subsOk_def op by auto
    show "lockOk ?b'" by (rule lock_cong [OF b(2)]) (simp_all add: assms(2))
    show "ownedOk ?b'" using b(3) assms(2) unfolding ownedOk_def op by (auto split: if_splits)
    show "loopOk ?b'" using b(4) by (simp add: loopOk_def)
    show "chanOk (bBufSize ?b') x" if "x \<in> set (bChans ?b')" for x
      using that b(7) in_range_chanOk [OF assms(1)] o(1)
      by (auto simp: chanOk_def open_at_def dest!: set_update_subset_insert [THEN subsetD])
  qed (use brokerOkD [OF assms(1)] in simp_all)
  then show ?thesis using o by (simp add: closeStep_def open_at_def)
qed

lemma channel_made_ok:
  assumes "brokerOk b" "bPc b g = Idle"
  shows "brokerOk (beginCall g Subscribe b)" (is "brokerOk ?b'")
proof (rule brokerOkI)
  note b = brokerOkD [OF assms(1)]
  let ?n = "length (bChans b)"
  have a: "addrs ?b' = addrs b" by (simp add: beginCall_def Let_def addrs_def)
  have op: "open_at ?b' x \<longleftrightarrow> open_at b x \<or> x = ?n" for x
    by (auto simp: beginCall_def Let_def open_at_def makeChan_def nth_append)
  have pc: "bPc ?b' = (bPc b)(g := SubEnter (bNextID b + 1) ?n)" by (simp add: beginCall_def Let_def)
  have n: "?n \<notin> addrs b" "\<not> open_at b ?n" using b(1) by (auto simp: subsOk_def open_at_def)
  show "subsOk ?b'" using b(1) unfolding subsOk_def a op by (simp add: beginCall_def Let_def)
  show "lockOk ?b'" by (rule lock_cong [OF b(2)]) (simp_all add: assms(2) beginCall_def Let_def)
  show "ownedOk ?b'" using b(3) n unfolding ownedOk_def a op pc by (auto split: if_splits)
  show "loopOk ?b'" using b(4) unfolding loopOk_def a pc by simp
  show "chanOk (bBufSize ?b') x" if "x \<in> set (bChans ?b')" for x
    using that b(7) by (auto simp: beginCall_def Let_def makeChan_def chanOk_def)
qed (use brokerOkD [OF assms(1)] in \<open>simp_all add: beginCall_def Let_def\<close>)

lemma published_step_ok:
  assumes "brokerOk b" "reading (bPc b g)"
  shows "brokerOk (publishStep g b)"
proof (cases "bPc b g")
  case (PubNext e as)
  show ?thesis
  proof (cases as)
    case Nil
    then show ?thesis using left_range_ok [OF assms(1)] PubNext by (simp add: publishStep_def)
  next
    case (Cons a as')
    have "a \<in> set (targets (bPc b g))" using PubNext Cons by simp
    note o = target_open [OF assms(1) this]
    note l = brokerOkD(4) [OF assms(1), unfolded loopOk_def, rule_format, of g]
    show ?thesis
    proof (cases "trySend e (bChans b ! a)")
      case (Sent c)
      have "brokerOk (putChan a c b)" using sent_ok [OF assms(1) Sent] o by (simp add: open_at_def)
      then show ?thesis using PubNext Cons Sent l by (auto simp: publishStep_def intro!: goto_ok)
    next
      case Full
      then show ?thesis using PubNext Cons assms(1) l by (auto simp: publishStep_def intro!: goto_ok)
    next
      case SendPanic
      then show ?thesis using o by (simp add: open_at_def)
    qed
  qed
next
  case (PubDrop e a as)
  have "a \<in> set (targets (bPc b g))" using PubDrop by simp
  note o = target_open [OF assms(1) this]
  note l = brokerOkD(4) [OF assms(1), unfolded loopOk_def, rule_format, of g]
  have "brokerOk (putChan a (takeOne Discarded (bChans b ! a)) b)"
    using taken_ok [OF assms(1)] o by (simp add: open_at_def)
  then show ?thesis using PubDrop l by (auto simp: publishStep_def intro!: goto_ok)
next
  case (PubAgain e a as)
  have "a \<in> set (targets (bPc b g))" using PubAgain by simp
  note o = target_open [OF assms(1) this]
  note l = brokerOkD(4) [OF assms(1), unfolded loopOk_def, rule_format, of g]
  show ?thesis
  proof (cases "trySend e (bChans b ! a)")
    case (Sent c)
    have "brokerOk (putChan a c b)" using sent_ok [OF assms(1) Sent] o by (simp add: open_at_def)
    then show ?thesis using PubAgain Sent l by (auto simp: publishStep_def intro!: goto_ok)
  next
    case Full
    then show ?thesis using PubAgain assms(1) l by (auto simp: publishStep_def intro!: goto_ok)
  next
    case SendPanic
    then show ?thesis using o by (simp add: open_at_def)
  qed
qed (use assms(2) in simp_all)

lemma fire_ok:
  assumes "brokerOk b" "fire x b = Some b'"
  shows "brokerOk b'"
proof (cases x)
  case (Call g k)
  show ?thesis
  proof (cases k)
    case (Publish e)
    then show ?thesis using assms Call
      by (cases e) (auto simp: beginCall_def split: if_splits intro!: goto_ok)
  next
    case Subscribe
    then show ?thesis using assms Call channel_made_ok by (auto split: if_splits)
  next
    case (Unsubscribe i)
    then show ?thesis using assms Call by (auto simp: beginCall_def split: if_splits intro!: goto_ok)
  qed
next
  case (GoRange g order)
  then show ?thesis using assms started_range_ok [OF assms(1)]
    by (auto split: pc.splits if_splits)
next
  case (Receive a)
  then show ?thesis using assms taken_ok by (auto split: if_splits)
next
  case (Go g)
  show ?thesis
  proof (cases "bPc b g")
    case (SubEnter i a)
    then show ?thesis using assms Go taken_lock_ok [OF assms(1), of g "SubHeld i a"]
      by (auto split: if_splits)
  next
    case (UnsubEnter i)
    then show ?thesis using assms Go taken_lock_ok [OF assms(1), of g "UnsubHeld i"]
      by (auto split: if_splits)
  qed (use assms Go in \<open>auto intro: subscribed_ok unsubscribed_ok closed_ok published_step_ok\<close>)
qed

lemma play_ok: "play xs b = Some b' \<Longrightarrow> brokerOk b \<Longrightarrow> brokerOk b'"
  by (induction xs arbitrary: b) (auto split: option.splits intro: fire_ok)

section \<open>One publisher\<close>

fun publishing :: "'e pc \<Rightarrow> bool" where
  "publishing (PubEnter e) = True"
| "publishing p = reading p"

fun newcomer :: "'e pc \<Rightarrow> nat option" where
  "newcomer (SubEnter i a) = Some a"
| "newcomer (SubHeld i a) = Some a"
| "newcomer _ = None"

definition following :: "'e chan \<Rightarrow> 'e list \<Rightarrow> bool" where
  "following c log \<longleftrightarrow> chFrom c \<le> length log \<and> chIn c = drop (chFrom c) log"

definition discards :: "'e chan \<Rightarrow> bool" where
  "discards c \<longleftrightarrow> Discarded \<in> fst ` set (chOut c)"

definition settled :: "'e chan \<Rightarrow> bool" where
  "settled c \<longleftrightarrow> (chIn c \<noteq> [] \<longrightarrow> chBuf c \<noteq> [] \<or> fst (last (chOut c)) = Received) \<and>
     (discards c \<longrightarrow> chCap c < length (chIn c))"

text \<open>How a subscribed channel stands to the log, by what the publisher is doing.\<close>

fun stands :: "'e pc \<Rightarrow> 'e list \<Rightarrow> nat \<Rightarrow> 'e chan \<Rightarrow> bool" where
  "stands (PubNext e as) log a c =
     (\<exists>l. log = l @ [e] \<and> settled c \<and> following c (if a \<in> set as then l else log))"
| "stands (PubDrop e x as) log a c =
     (\<exists>l. log = l @ [e] \<and> settled c \<and> following c (if a \<in> set (x # as) then l else log) \<and>
        (a = x \<longrightarrow> chCap c \<le> length (chIn c)))"
| "stands (PubAgain e x as) log a c =
     (\<exists>l. log = l @ [e] \<and>
        (if a = x then following c l \<and> length (chBuf c) < chCap c \<and>
           (discards c \<longrightarrow> chCap c \<le> length (chIn c))
         else settled c \<and> following c (if a \<in> set as then l else log)))"
| "stands p log a c = (settled c \<and> following c log)"

definition soleOk :: "nat \<Rightarrow> 'e broker \<Rightarrow> bool" where
  "soleOk p b \<longleftrightarrow> (\<forall>g. g \<noteq> p \<longrightarrow> \<not> publishing (bPc b g)) \<and>
     (\<forall>g a. newcomer (bPc b g) = Some a \<longrightarrow> chIn (bChans b ! a) = []) \<and>
     (\<forall>a\<in>addrs b. stands (bPc b p) (bLog b) a (bChans b ! a))"

lemma stands_quiet: "\<not> publishing p \<Longrightarrow> stands p log a c \<longleftrightarrow> settled c \<and> following c log"
  by (cases p) auto

lemma stands_between: "\<not> reading p \<Longrightarrow> stands p log a c \<longleftrightarrow> settled c \<and> following c log"
  by (cases p) auto

lemma publishing_reading: "reading p \<Longrightarrow> publishing p"
  by (cases p) auto

lemma newcomer_owned: "newcomer p = Some a \<Longrightarrow> owned p = Some a"
  by (cases p) auto

lemma newcomer_reading: "reading p \<Longrightarrow> newcomer p = None"
  by (cases p) auto

lemma sent_stands:
  assumes "trySend e c = Sent c'" "following c l" "discards c \<longrightarrow> chCap c \<le> length (chIn c)"
  shows "settled c'" "following c' (l @ [e])"
  using assms by (auto simp: trySend_Sent settled_def following_def discards_def)

lemma discarded_stands:
  assumes "chanOk n c" "0 < n" "following c l" "chCap c \<le> length (chIn c)"
  shows "following (takeOne Discarded c) l"
    "length (chBuf (takeOne Discarded c)) < chCap (takeOne Discarded c)"
  using assms by (auto simp: takeOne_def following_def chanOk_def split: list.splits)

lemma received_stands:
  assumes "stands p log a c"
  shows "stands p log a (takeOne Received c)"
proof -
  have "discards (takeOne Received c) = discards c"
    by (auto simp: takeOne_def discards_def split: list.splits)
  moreover have "following (takeOne Received c) l = following c l" for l
    by (simp add: following_def)
  moreover have "settled c \<Longrightarrow> settled (takeOne Received c)"
    using calculation(1) by (auto simp: settled_def takeOne_def split: list.splits)
  moreover have "length (chBuf (takeOne Received c)) \<le> length (chBuf c)"
    by (auto simp: takeOne_def split: list.splits)
  ultimately show ?thesis using assms by (cases p) (auto intro: le_less_trans)
qed

lemma new_sole: "soleOk p (newEventBroker n)"
  by (auto simp: soleOk_def newEventBroker_def addrs_def)

text \<open>Steps that leave the publisher, the log and what subscribed channels hold alone.\<close>

lemma sole_frame:
  assumes "soleOk p b" "bLog b' = bLog b" "addrs b' \<subseteq> addrs b"
    and "\<And>a. a \<in> addrs b' \<Longrightarrow> stands (bPc b p) (bLog b) a (bChans b ! a) \<Longrightarrow>
          stands (bPc b' p) (bLog b) a (bChans b' ! a)"
    and "\<And>g. publishing (bPc b' g) \<Longrightarrow> publishing (bPc b g) \<or> g = p"
    and "\<And>g a. newcomer (bPc b' g) = Some a \<Longrightarrow> chIn (bChans b' ! a) = [] \<or>
          newcomer (bPc b g) = Some a \<and> chIn (bChans b' ! a) = chIn (bChans b ! a)"
  shows "soleOk p b'"
proof -
  have "chIn (bChans b' ! a) = []" if "newcomer (bPc b' g) = Some a" for g a
    using assms(6) [OF that] assms(1) by (auto simp: soleOk_def)
  moreover have "stands (bPc b' p) (bLog b') a (bChans b' ! a)" if "a \<in> addrs b'" for a
    using assms(1-4) that by (auto simp: soleOk_def)
  moreover have "\<not> publishing (bPc b' g)" if "g \<noteq> p" for g
    using assms(1) assms(5) [of g] that by (auto simp: soleOk_def)
  ultimately show ?thesis by (auto simp: soleOk_def)
qed

lemma sole_moves:
  assumes "soleOk p b" "publishing q \<Longrightarrow> g = p" "\<not> reading q" "\<not> reading (bPc b g)"
    and "\<And>a. newcomer q = Some a \<Longrightarrow> newcomer (bPc b g) = Some a"
    and "bLog b' = bLog b" "addrs b' \<subseteq> addrs b" "bPc b' = (bPc b)(g := q)"
    and "bChans b' = bChans b"
  shows "soleOk p b'"
  using assms(1,6,7)
  by (rule sole_frame) (use assms in \<open>auto simp: stands_between split: if_splits\<close>)

lemma sole_published:
  assumes ok: "brokerOk b" and sole: "soleOk p b" and pc: "reading (bPc b p)"
  shows "soleOk p (publishStep p b)"
proof -
  have at: "stands (bPc b p) (bLog b) x (bChans b ! x)" if "x \<in> addrs b" for x
    using sole that by (auto simp: soleOk_def)
  have op: "open_at b x" if "x \<in> addrs b" for x using ok that by (auto simp: brokerOk_def subsOk_def)
  have tg: "set (targets (bPc b p)) \<subseteq> addrs b" "distinct (targets (bPc b p))"
    using ok by (auto simp: brokerOk_def loopOk_def)
  have co: "chanOk (bBufSize b) (bChans b ! x)" if "x \<in> addrs b" for x
    using in_range_chanOk [OF ok] op [OF that] by (simp add: open_at_def)
  have apart: "x \<notin> addrs b" if "newcomer (bPc b g) = Some x" for g x
    using owned_open(2) [OF ok newcomer_owned [OF that]] .
  have frame: "soleOk p (goto p q b')"
    if "bPc b' = bPc b" "bLog b' = bLog b" "addrs b' = addrs b"
      and "\<And>a. a \<in> addrs b \<Longrightarrow> stands q (bLog b) a (bChans b' ! a)"
      and "\<And>a. a \<notin> addrs b \<Longrightarrow> bChans b' ! a = bChans b ! a" "newcomer q = None" for q b'
    using sole that apart unfolding soleOk_def by (auto split: if_splits)
  show ?thesis
  proof (cases "bPc b p")
    case (PubNext e as)
    show ?thesis
    proof (cases as)
      case Nil
      then show ?thesis using PubNext at by (auto simp: publishStep_def intro!: frame)
    next
      case (Cons a as')
      have a: "a \<in> addrs b" using tg PubNext Cons by simp
      obtain l where l: "bLog b = l @ [e]" "settled (bChans b ! a)" "following (bChans b ! a) l"
        using at [OF a] PubNext Cons by auto
      show ?thesis
      proof (cases "trySend e (bChans b ! a)")
        case (Sent c)
        have "settled c" "following c (l @ [e])"
          using sent_stands [OF Sent l(3)] l(2) by (auto simp: settled_def)
        moreover have "settled (bChans b ! x) \<and> (x \<in> set as' \<longrightarrow> following (bChans b ! x) l) \<and>
            (x \<noteq> a \<and> x \<notin> set as' \<longrightarrow> following (bChans b ! x) (l @ [e]))" if "x \<in> addrs b" for x
          using at [OF that] PubNext Cons l(1) by (auto split: if_splits)
        ultimately show ?thesis using PubNext Cons Sent l(1) tg op [OF a]
          by (auto simp: publishStep_def nth_list_update open_at_def intro!: frame)
      next
        case Full
        then have "chCap (bChans b ! a) \<le> length (chIn (bChans b ! a))"
          using co [OF a] op [OF a]
          by (auto simp: trySend_def chanOk_def open_at_def split: if_splits
              dest!: arg_cong [where f = length])
        then show ?thesis using PubNext Cons Full at l(1)
          by (auto simp: publishStep_def intro!: frame)
      next
        case SendPanic
        then show ?thesis using op [OF a] by (simp add: open_at_def)
      qed
    qed
  next
    case (PubDrop e a as)
    have a: "a \<in> addrs b" using tg PubDrop by simp
    obtain l where l: "bLog b = l @ [e]" "following (bChans b ! a) l"
      "chCap (bChans b ! a) \<le> length (chIn (bChans b ! a))"
      using at [OF a] PubDrop by auto
    note discarded_stands [OF co [OF a] brokerOkD(6) [OF ok] l(2,3)]
    moreover have "settled (bChans b ! x) \<and> (x \<in> set as \<longrightarrow> following (bChans b ! x) l) \<and>
        (x \<notin> set as \<longrightarrow> following (bChans b ! x) (l @ [e]))"
      if "x \<in> addrs b" "x \<noteq> a" for x
      using at [OF that(1)] that(2) PubDrop l(1) by (auto split: if_splits)
    ultimately show ?thesis using PubDrop l tg op [OF a]
      by (auto simp: publishStep_def nth_list_update open_at_def intro!: frame)
  next
    case (PubAgain e a as)
    have a: "a \<in> addrs b" using tg PubAgain by simp
    obtain l where l: "bLog b = l @ [e]" "following (bChans b ! a) l"
      "length (chBuf (bChans b ! a)) < chCap (bChans b ! a)"
      "discards (bChans b ! a) \<longrightarrow> chCap (bChans b ! a) \<le> length (chIn (bChans b ! a))"
      using at [OF a] PubAgain by auto
    then obtain c where c: "trySend e (bChans b ! a) = Sent c"
      using op [OF a] by (auto simp: trySend_def open_at_def)
    note sent_stands [OF c l(2,4)]
    moreover have "settled (bChans b ! x) \<and> (x \<in> set as \<longrightarrow> following (bChans b ! x) l) \<and>
        (x \<notin> set as \<longrightarrow> following (bChans b ! x) (l @ [e]))"
      if "x \<in> addrs b" "x \<noteq> a" for x
      using at [OF that(1)] that(2) PubAgain l(1) by (auto split: if_splits)
    ultimately show ?thesis using PubAgain c l(1) tg op [OF a]
      by (auto simp: publishStep_def nth_list_update open_at_def intro!: frame)
  qed (use pc in simp_all)
qed

lemma sole_received:
  assumes "soleOk p b" "a < length (bChans b)"
  shows "soleOk p (putChan a (takeOne Received (bChans b ! a)) b)"
  using assms(1)
  by (rule sole_frame)
    (use assms(2) received_stands in \<open>auto simp: nth_list_update split: if_splits\<close>)

lemma sole_closed:
  assumes "brokerOk b" "soleOk p b" "bPc b g = Closing a" "brokerOk (closeStep g a b)"
  shows "soleOk p (closeStep g a b)"
proof -
  have a: "a \<notin> addrs b" "a < length (bChans b)"
    using owned_open [OF assms(1), of g a] assms(3) by (simp_all add: open_at_def)
  have "closeStep g a b = goto g Idle (putChan a ((bChans b ! a)\<lparr>chClosed := True\<rparr>) b)"
    using brokerOkD(5) [OF assms(4)] by (auto simp: closeStep_def split: if_splits)
  moreover have "soleOk p (goto g Idle (putChan a ((bChans b ! a)\<lparr>chClosed := True\<rparr>) b))"
    using assms(2)
    by (rule sole_frame) (use a assms(3) in \<open>auto simp: nth_list_update split: if_splits\<close>)
  ultimately show ?thesis by simp
qed

lemma sole_subscribed:
  assumes ok: "brokerOk b" and sole: "soleOk p b" and pc: "bPc b g = SubHeld i a"
  shows "soleOk p (subscribeStep g i a b)"
proof -
  let ?c = "(bChans b ! a)\<lparr>chFrom := length (bLog b)\<rparr>" and ?b' = "subscribeStep g i a b"
  have a: "a < length (bChans b)" "a \<notin> addrs b"
    using owned_open [OF ok, of g a] pc by (simp_all add: open_at_def)
  have c: "chIn (bChans b ! a) = []"
    using sole pc unfolding soleOk_def by (metis newcomer.simps(2))
  then have "chOut (bChans b ! a) = []"
    using in_range_chanOk [OF ok a(1)] by (simp add: chanOk_def)
  then have new: "settled ?c" "following ?c (bLog b)"
    using c by (simp_all add: settled_def following_def discards_def)
  have still: "\<not> reading (bPc b h)" for h using writer_alone(3) [OF ok, of g h] pc by simp
  have sub: "addrs ?b' \<subseteq> insert a (addrs b)"
    using update_range [of i a "bSubs b"] by (simp add: subscribeStep_def addrs_def)
  have ch: "bChans ?b' ! x = (if x = a then ?c else bChans b ! x)" for x
    using a(1) by (simp add: subscribeStep_def)
  have pcs: "bPc ?b' = (bPc b)(g := Idle)" "bLog ?b' = bLog b" by (simp_all add: subscribeStep_def)
  have "stands (bPc ?b' p) (bLog ?b') x (bChans ?b' ! x)" if "x \<in> addrs ?b'" for x
    using that sub sole new still unfolding soleOk_def pcs ch
    by (auto simp: stands_between split: if_splits)
  moreover have "newcomer (bPc b h) = Some x \<Longrightarrow> chIn (bChans ?b' ! x) = []" for h x
    using sole c by (auto simp: soleOk_def ch)
  ultimately show ?thesis using sole unfolding soleOk_def pcs by auto
qed

lemma sole_step:
  assumes ok: "brokerOk b" and sole: "soleOk p b" and f: "fire x b = Some b'"
    and only: "\<And>g e. x = Call g (Publish (Some e)) \<Longrightarrow> g = p"
  shows "soleOk p b'"
proof (cases x)
  case (Receive a)
  then show ?thesis using f sole sole_received by (auto split: if_splits)
next
  case (GoRange g order)
  then obtain e where e: "bPc b g = PubEnter e" "mset order = mset (map snd (bSubs b))"
    "b' = goto g (PubNext e order) (b\<lparr>bReaders := g # bReaders b, bLog := bLog b @ [e]\<rparr>)"
    using f by (auto split: pc.splits if_splits)
  have "g = p" using sole e(1) by (auto simp: soleOk_def)
  moreover have "set order = addrs b" using mset_eq_setD [OF e(2)] by (simp add: addrs_def)
  ultimately show ?thesis using sole e unfolding soleOk_def by (auto split: if_splits)
next
  case (Call g k)
  have idle: "bPc b g = Idle" and b': "b' = beginCall g k b" using f Call by (auto split: if_splits)
  show ?thesis
  proof (cases k)
    case (Publish e)
    show ?thesis
    proof (cases e)
      case None
      then show ?thesis using sole b' Publish by (simp add: beginCall_def)
    next
      case (Some v)
      then have "g = p" using only [of g v] Call Publish by simp
      then show ?thesis using sole b' Publish Some idle
        by (intro sole_moves [OF sole, where q = "PubEnter v" and g = p]) (auto simp: beginCall_def)
    qed
  next
    case (Unsubscribe i)
    then show ?thesis using sole b' idle
      by (intro sole_moves [OF sole, where q = "UnsubEnter i" and g = g]) (auto simp: beginCall_def)
  next
    case Subscribe
    have in_range: "a < length (bChans b)" if "a \<in> addrs b" for a
      using ok that by (auto simp: brokerOk_def subsOk_def open_at_def)
    have owned_range: "a < length (bChans b)" if "newcomer (bPc b h) = Some a" for h a
      using owned_open(1) [OF ok newcomer_owned [OF that]] by (simp add: open_at_def)
    show ?thesis using sole
      by (rule sole_frame)
        (use b' Subscribe idle in_range owned_range in
          \<open>auto simp: beginCall_def Let_def makeChan_def nth_append addrs_def split: if_splits\<close>)
  qed
next
  case (Go g)
  show ?thesis
  proof (cases "bPc b g")
    case (SubEnter i a)
    then show ?thesis using f Go
      by (intro sole_moves [OF sole, where q = "SubHeld i a" and g = g]) (auto split: if_splits)
  next
    case (UnsubEnter i)
    then show ?thesis using f Go
      by (intro sole_moves [OF sole, where q = "UnsubHeld i" and g = g]) (auto split: if_splits)
  next
    case (UnsubHeld i)
    have sub: "snd ` set (AList.delete i (bSubs b)) \<subseteq> addrs b"
      by (auto simp: addrs_def AList.delete_eq)
    show ?thesis
    proof (cases "map_of (bSubs b) i")
      case None
      then show ?thesis using f Go UnsubHeld
        by (intro sole_moves [OF sole, where q = Idle and g = g]) (auto simp: unsubscribeStep_def)
    next
      case (Some a)
      then show ?thesis using f Go UnsubHeld sub
        by (intro sole_moves [OF sole, where q = "Closing a" and g = g])
          (auto simp: unsubscribeStep_def)
    qed
  next
    case (SubHeld i a)
    then have "b' = subscribeStep g i a b" using f Go by simp
    then show ?thesis using sole_subscribed [OF ok sole SubHeld] by simp
  next
    case (Closing a)
    then have "b' = closeStep g a b" using f Go by simp
    then show ?thesis using sole_closed [OF ok sole Closing] closed_ok [OF ok Closing] by simp
  next
    case Idle
    then show ?thesis using f Go by simp
  next
    case (PubEnter e)
    then show ?thesis using f Go by simp
  next
    case (PubNext e as)
    moreover have "g = p" using sole PubNext by (auto simp: soleOk_def)
    ultimately show ?thesis using f Go sole_published [OF ok sole] by simp
  next
    case (PubDrop e a as)
    moreover have "g = p" using sole PubDrop by (auto simp: soleOk_def)
    ultimately show ?thesis using f Go sole_published [OF ok sole] by simp
  next
    case (PubAgain e a as)
    moreover have "g = p" using sole PubAgain by (auto simp: soleOk_def)
    ultimately show ?thesis using f Go sole_published [OF ok sole] by simp
  qed
qed

lemma sole_play:
  "play xs b = Some b' \<Longrightarrow> brokerOk b \<Longrightarrow> soleOk p b \<Longrightarrow>
     (\<And>g e. Call g (Publish (Some e)) \<in> set xs \<Longrightarrow> g = p) \<Longrightarrow> soleOk p b'"
proof (induction xs arbitrary: b)
  case (Cons x xs)
  then obtain b1 where f: "fire x b = Some b1" "play xs b1 = Some b'" by (auto split: option.splits)
  moreover have "soleOk p b1" by (rule sole_step [OF Cons.prems(2,3) f(1)]) (auto intro: Cons.prems(4))
  moreover have "brokerOk b1" by (rule fire_ok [OF Cons.prems(2) f(1)])
  ultimately show ?case by (intro Cons.IH [OF f(2)]) (auto intro: Cons.prems(4))
qed simp

section \<open>What the broker promises\<close>

lemma some_call_goes_on:
  assumes ok: "brokerOk b" and g: "bPc b g \<noteq> Idle"
  shows "\<exists>h. bPc b h \<noteq> Idle \<and> (fire (Go h) b \<noteq> None \<or> (\<exists>order. fire (GoRange h order) b \<noteq> None))"
proof -
  note l = brokerOkD(2) [OF ok, unfolded lockOk_def]
  consider h where "bWriter b = Some h" | h where "h \<in> set (bReaders b)"
    | "bWriter b = None" "bReaders b = []"
    by (cases "bWriter b"; cases "bReaders b") auto
  then show ?thesis
  proof cases
    case 1
    then have "writing (bPc b h)" using l by blast
    then show ?thesis by (intro exI [of _ h]) (cases "bPc b h"; auto)
  next
    case 2
    then have "reading (bPc b h)" using l by blast
    then show ?thesis by (intro exI [of _ h]) (cases "bPc b h"; auto)
  next
    case 3
    then show ?thesis using g
      by (intro exI [of _ g]) (cases "bPc b g"; auto intro!: exI [of _ "map snd (bSubs b)"])
  qed
qed

text \<open>C19 (the broker neither panics nor deadlocks). Under every interleaving of publishers,
  subscribers that come and go, and receivers, no event is sent on a closed channel and no channel is
  closed twice; a subscriber's channel never holds more than the buffer size, and what it gave out
  followed by what it holds is what it took in, in that order; and while a call is under way, some
  goroutine inside a call can take its next step without waiting for a receiver.\<close>

theorem broker_is_safe:
  assumes "play xs (newEventBroker n) = Some b"
  shows "\<not> bPanic b \<and>
     (\<forall>c\<in>set (bChans b). length (chBuf c) \<le> bBufSize b \<and> map snd (chOut c) @ chBuf c = chIn c) \<and>
     ((\<exists>g. bPc b g \<noteq> Idle) \<longrightarrow>
        (\<exists>h. bPc b h \<noteq> Idle \<and> (fire (Go h) b \<noteq> None \<or> (\<exists>order. fire (GoRange h order) b \<noteq> None))))"
proof -
  have ok: "brokerOk b" using play_ok [OF assms new_broker_ok] .
  then have "\<forall>c\<in>set (bChans b). length (chBuf c) \<le> bBufSize b \<and> map snd (chOut c) @ chBuf c = chIn c"
    using brokerOkD(7) by (auto simp: chanOk_def)
  then show ?thesis using brokerOkD(5) [OF ok] some_call_goes_on [OF ok] by blast
qed

lemma all_received:
  assumes "\<not> discards c"
  shows "received c = map snd (chOut c)"
proof -
  have "fst x = Received" if "x \<in> set (chOut c)" for x
    using that assms by (cases "fst x") (auto simp: discards_def image_iff)
  then show ?thesis by (simp add: received_def filter_True)
qed

text \<open>A lone publisher reaches every subscriber. When all events are published by one goroutine
  and it is between two calls, a subscriber's channel took in exactly the events published since it
  subscribed, in order; the newest of them was received or is still in the buffer; and as long as no
  more of them were published than the buffer holds, none was discarded.\<close>

theorem lone_publisher_reaches_all:
  assumes run: "play xs (newEventBroker n) = Some b"
    and only: "\<And>g e. Call g (Publish (Some e)) \<in> set xs \<Longrightarrow> g = p"
    and rest: "\<not> publishing (bPc b p)" and sub: "(i, a) \<in> set (bSubs b)"
    and c: "c = bChans b ! a" and feed: "feed = drop (chFrom c) (bLog b)"
  shows "map snd (chOut c) @ chBuf c = feed \<and>
     (feed \<noteq> [] \<longrightarrow> chBuf c \<noteq> [] \<and> last (chBuf c) = last feed \<or>
        chBuf c = [] \<and> last (chOut c) = (Received, last feed)) \<and>
     (length feed \<le> bBufSize b \<longrightarrow> received c @ chBuf c = feed)"
proof -
  have ok: "brokerOk b" using play_ok [OF run new_broker_ok] .
  have a: "a \<in> addrs b" using sub by (force simp: addrs_def)
  have "open_at b a" using ok a by (auto simp: brokerOk_def subsOk_def)
  then have co: "chanOk (bBufSize b) c" using in_range_chanOk [OF ok] c by (simp add: open_at_def)
  have "soleOk p b" using sole_play [OF run new_broker_ok new_sole only] .
  then have st: "settled c" "following c (bLog b)"
    using a c stands_quiet [OF rest] by (simp_all add: soleOk_def)
  have all: "map snd (chOut c) @ chBuf c = feed"
    using co st(2) feed by (simp add: chanOk_def following_def)
  moreover have "chBuf c \<noteq> [] \<and> last (chBuf c) = last feed \<or>
      chBuf c = [] \<and> last (chOut c) = (Received, last feed)" if ne: "feed \<noteq> []"
  proof (cases "chBuf c = []")
    case True
    then have "map snd (chOut c) = feed" "chOut c \<noteq> []" using all ne by auto
    then have "chOut c \<noteq> []" "last feed = snd (last (chOut c))" by (auto simp: last_map)
    moreover have "fst (last (chOut c)) = Received"
      using st ne True feed by (simp add: settled_def following_def)
    ultimately show ?thesis using True by (simp add: prod_eq_iff)
  next
    case False
    then show ?thesis using all by (metis last_appendR)
  qed
  moreover have "received c @ chBuf c = feed" if "length feed \<le> bBufSize b"
  proof -
    have "\<not> discards c" using st co that feed by (auto simp: settled_def following_def chanOk_def)
    then show ?thesis using all by (simp add: all_received)
  qed
  ultimately show ?thesis by blast
qed

section \<open>Schedules on concrete events\<close>

definition joins :: "nat \<Rightarrow> nat act list" where
  "joins g = [Call g Subscribe, Go g, Go g]"

text \<open>One subscriber with room for one event: three events, the second discarded unseen.\<close>

definition lone_schedule :: "nat act list" where
  "lone_schedule = joins 0 @
     [Call 1 (Publish (Some 7)), GoRange 1 [0], Go 1, Go 1, Receive 0,
      Call 1 (Publish (Some 8)), GoRange 1 [0], Go 1, Go 1,
      Call 1 (Publish (Some 9)), GoRange 1 [0], Go 1, Go 1, Go 1, Go 1]"

definition after_lone :: "nat broker" where
  "after_lone = the (play lone_schedule (newEventBroker 1))"

lemma lone_plays: "play lone_schedule (newEventBroker 1) = Some after_lone"
  "bPc after_lone 1 = Idle" "bSubs after_lone = [(1, 0)]" "bLog after_lone = [7, 8, 9]"
  "chFrom (bChans after_lone ! 0) = 0" "0 < length (bChans after_lone)"
  "chBuf (bChans after_lone ! 0) = [9]"
  by (simp_all add: after_lone_def lone_schedule_def joins_def newEventBroker_def beginCall_def
      publishStep_def subscribeStep_def goto_def putChan_def trySend_def takeOne_def makeChan_def)

theorem broker_is_safe_witness: "\<not> bPanic after_lone \<and> length (chBuf (bChans after_lone ! 0)) \<le> bBufSize after_lone"
  using broker_is_safe [OF lone_plays(1)] lone_plays(6) nth_mem by blast

theorem lone_publisher_reaches_all_witness:
  "map snd (chOut (bChans after_lone ! 0)) @ chBuf (bChans after_lone ! 0) = [7, 8, 9] \<and>
   last (chBuf (bChans after_lone ! 0)) = 9"
  using lone_publisher_reaches_all [OF lone_plays(1), of 1 1 0, OF _ _ _ refl refl] lone_plays
  by (auto simp: lone_schedule_def joins_def)

text \<open>Two publishers that both found the buffer full: the second discards nothing, since the first
  already made room, and finds the buffer full again after the first has sent. Its event, the newest,
  reaches nobody.\<close>

definition rival_schedule :: "nat act list" where
  "rival_schedule = joins 0 @
     [Call 1 (Publish (Some 7)), GoRange 1 [0], Go 1, Go 1,
      Call 1 (Publish (Some 8)), GoRange 1 [0], Go 1,
      Call 2 (Publish (Some 9)), GoRange 2 [0], Go 2,
      Go 1, Go 2, Go 1, Go 2, Go 1, Go 2]"

lemma rival_publishers_lose_the_newest:
  "\<exists>b. play rival_schedule (newEventBroker 1) = Some b \<and> bLog b = [7, 8, 9] \<and>
     bPc b 1 = Idle \<and> bPc b 2 = Idle \<and> chIn (bChans b ! 0) = [7, 8]"
  by (simp add: rival_schedule_def joins_def newEventBroker_def beginCall_def
      publishStep_def subscribeStep_def goto_def putChan_def trySend_def takeOne_def makeChan_def)

end
