(* ===== verification/Gateway.thy ===== *)
theory Gateway
  imports Broker Plan_Event_Theorems "HOL-Library.State_Monad" "HOL-Library.Sublist"
begin

text \<open>
  The front of \<open>internal/ipc\<close>: the interceptors every call passes (\<open>auth.go\<close>,
  \<open>authgate.go\<close>) and the event stream (\<open>events.go\<close>). A handler is a state function
  over the world it acts on; gRPC's status is the pair of a code and a text. The check of the Copilot
  login is a parameter.
\<close>

section \<open>Interceptors\<close>

datatype grpc_code = Unauthenticated | PermissionDenied | FailedPrecondition | OtherCode nat

type_synonym ('w, 'q, 'r) handler = "'q \<Rightarrow> ('w, (grpc_code \<times> string) + 'r) state"

record call_info =
  ciMetadata :: "(string \<times> string list) list option"
  ciMethod :: string

type_synonym ('w, 'q, 'r) interceptor =
  "call_info \<Rightarrow> 'q \<Rightarrow> ('w, 'q, 'r) handler \<Rightarrow> ('w, (grpc_code \<times> string) + 'r) state"

definition authMetadataKey :: string where
  "authMetadataKey = ''x-auth-token''"

definition checkToken :: "string \<Rightarrow> call_info \<Rightarrow> (grpc_code \<times> string) option" where
  "checkToken expected ci =
     (case ciMetadata ci of
        None \<Rightarrow> Some (Unauthenticated, ''missing metadata'')
      | Some md \<Rightarrow>
          (case (case map_of md authMetadataKey of None \<Rightarrow> [] | Some vs \<Rightarrow> vs) of
             [] \<Rightarrow> Some (Unauthenticated, ''missing auth token'')
           | v # vs \<Rightarrow> if v \<noteq> expected then Some (PermissionDenied, ''invalid auth token'') else None))"

definition tokenInterceptor :: "string \<Rightarrow> ('w, 'q, 'r) interceptor" where
  "tokenInterceptor expected ci req h =
     (if expected = [] then h req
      else case checkToken expected ci of Some e \<Rightarrow> State_Monad.return (Inl e) | None \<Rightarrow> h req)"

definition copilotGuardedMethods :: "string list" where
  "copilotGuardedMethods =
     [''/fleetkanban.v1.TaskService/CreateTask'', ''/fleetkanban.v1.SubtaskService/SubmitReview'']"

definition copilotAuthGateUnary ::
  "('w, string + bool) state \<Rightarrow> ('w, 'q, 'r) interceptor" where
  "copilotAuthGateUnary checkAuth ci req h =
     (if ciMethod ci \<notin> set copilotGuardedMethods then h req
      else do {
        a \<leftarrow> checkAuth;
        case a of
          Inl e \<Rightarrow> State_Monad.return (Inl (FailedPrecondition, ''copilot auth check failed: '' @ e))
        | Inr ok \<Rightarrow> if \<not> ok
            then State_Monad.return (Inl (FailedPrecondition, ''copilot_not_authenticated''))
            else h req
      })"

text \<open>The loop wraps the handler from the last interceptor to the first.\<close>

definition chainUnary :: "('w, 'q, 'r) interceptor list \<Rightarrow> ('w, 'q, 'r) interceptor" where
  "chainUnary ics ci req h =
     (case ics of
        [] \<Rightarrow> h req
      | [ic] \<Rightarrow> ic ci req h
      | _ \<Rightarrow> fold (\<lambda>ic next. \<lambda>q. ic ci q next) (rev ics) h req)"

text \<open>The chain the sidecar's server is started with.\<close>

definition serverChain ::
  "string \<Rightarrow> ('w, string + bool) state \<Rightarrow> ('w, 'q, 'r) interceptor" where
  "serverChain token checkAuth = chainUnary [tokenInterceptor token, copilotAuthGateUnary checkAuth]"

section \<open>The event stream\<close>

fun sendAll ::
  "(nat \<Rightarrow> bool) \<Rightarrow> agent_event list \<Rightarrow> agent_event list \<Rightarrow> bool \<times> agent_event list" where
  "sendAll sendOk [] sent = (True, sent)"
| "sendAll sendOk (e # es) sent =
     (if sendOk (length sent) then sendAll sendOk es (sent @ [e]) else (False, sent))"

text \<open>The replay, task by task. Each query sees the database at its own time and may fail.\<close>

fun replay ::
  "(nat \<Rightarrow> bool) \<Rightarrow> ((string \<times> int) \<times> ctx \<times> db) list \<Rightarrow> (string \<rightharpoonup> int) \<Rightarrow>
     agent_event list \<Rightarrow> (string \<rightharpoonup> int) option \<times> agent_event list" where
  "replay sendOk [] since sent = (Some since, sent)"
| "replay sendOk (((t, cutoff), c, d) # rest) since sent =
     (case eventListByTask c t cutoff 0 d of
        Inl _ \<Rightarrow> replay sendOk rest since sent
      | Inr es \<Rightarrow>
          (case sendAll sendOk es sent of
             (False, sent') \<Rightarrow> (None, sent')
           | (True, sent') \<Rightarrow>
               replay sendOk rest
                 (since(t \<mapsto> fold (\<lambda>e h. if eSeq e > h then eSeq e else h) es cutoff)) sent'))"

datatype watch_case = WEvent agent_event | WDone | WClosed
datatype watch_end = SendFailed | ContextEnded | StreamClosed | StillWatching

fun watchLive ::
  "(nat \<Rightarrow> bool) \<Rightarrow> (string \<rightharpoonup> int) \<Rightarrow> watch_case list \<Rightarrow> agent_event list \<Rightarrow>
     watch_end \<times> agent_event list" where
  "watchLive sendOk since [] sent = (StillWatching, sent)"
| "watchLive sendOk since (WDone # ws) sent = (ContextEnded, sent)"
| "watchLive sendOk since (WClosed # ws) sent = (StreamClosed, sent)"
| "watchLive sendOk since (WEvent e # ws) sent =
     (if (case since (eTaskID e) of None \<Rightarrow> False | Some cutoff \<Rightarrow> eSeq e \<le> cutoff)
      then watchLive sendOk since ws sent
      else if sendOk (length sent) then watchLive sendOk since ws (sent @ [e])
      else (SendFailed, sent))"

definition watchEvents ::
  "(nat \<Rightarrow> bool) \<Rightarrow> ((string \<times> int) \<times> ctx \<times> db) list \<Rightarrow> watch_case list \<Rightarrow>
     watch_end \<times> agent_event list" where
  "watchEvents sendOk queries ws =
     (case replay sendOk queries (map_of (map fst queries)) [] of
        (None, sent) \<Rightarrow> (SendFailed, sent)
      | (Some since, sent) \<Rightarrow> watchLive sendOk since ws sent)"

section \<open>The gates\<close>

text \<open>C20 (calls pass the gates in order). A call is refused for its token before the login is looked
  at and before the handler runs, with the world unchanged; a guarded method then reaches its handler
  only when the login check succeeds, in the world that check leaves. The guarded names contain no
  method that submits a review: the listed name belongs to another service, so the call that submits
  one, like the one that runs a task, reaches its handler whatever the login is.\<close>

theorem gates_in_order:
  "run_state (serverChain token checkAuth ci req h) w =
     (case (if token = [] then None else checkToken token ci) of
        Some e \<Rightarrow> (Inl e, w)
      | None \<Rightarrow>
          (if ciMethod ci \<in> set copilotGuardedMethods
           then (case run_state checkAuth w of
                   (Inl e, w') \<Rightarrow> (Inl (FailedPrecondition, ''copilot auth check failed: '' @ e), w')
                 | (Inr False, w') \<Rightarrow> (Inl (FailedPrecondition, ''copilot_not_authenticated''), w')
                 | (Inr True, w') \<Rightarrow> run_state (h req) w')
           else run_state (h req) w)) \<and>
   ''/fleetkanban.v1.TaskService/SubmitReview'' \<notin> set copilotGuardedMethods \<and>
   ''/fleetkanban.v1.TaskService/RunTask'' \<notin> set copilotGuardedMethods"
  by (auto simp: serverChain_def chainUnary_def tokenInterceptor_def copilotAuthGateUnary_def
      copilotGuardedMethods_def split: option.splits prod.splits sum.splits bool.splits)

section \<open>The stream misses nothing and repeats nothing\<close>

lemma sendAll_sent:
  assumes "sendAll sendOk es sent = (r, sent')"
  shows "prefix sent' (sent @ es) \<and> (r \<longrightarrow> sent' = sent @ es) \<and> ((\<forall>k. sendOk k) \<longrightarrow> r)"
  using assms
proof (induction es arbitrary: sent)
  case (Cons e es)
  then show ?case by (cases "sendOk (length sent)") (fastforce+)
qed auto

definition rowsAfter :: "string \<Rightarrow> int \<Rightarrow> db \<Rightarrow> agent_event list" where
  "rowsAfter t cutoff d = filter (\<lambda>e. eSeq e > cutoff) (taskLog t d)"

definition highest :: "agent_event list \<Rightarrow> int \<Rightarrow> int" where
  "highest es cutoff = fold (\<lambda>e h. if eSeq e > h then eSeq e else h) es cutoff"

lemma highest_max: "highest es cutoff = fold max (map eSeq es) cutoff"
  unfolding highest_def by (induction es arbitrary: cutoff) (simp_all add: max_def not_less)

lemma highest_le: "cutoff \<le> highest es cutoff" "e \<in> set es \<Longrightarrow> eSeq e \<le> highest es cutoff"
  by (simp_all add: highest_max fold_max_ge)

lemma highest_in: "highest es cutoff = cutoff \<or> highest es cutoff \<in> eSeq ` set es"
  using fold_max_in [of "map eSeq es" cutoff] by (auto simp: highest_max)

text \<open>After the replay the watermark of each task whose query succeeded is its newest row.\<close>

fun marks :: "((string \<times> int) \<times> ctx \<times> db) list \<Rightarrow> (string \<rightharpoonup> int) \<Rightarrow> string \<rightharpoonup> int" where
  "marks [] since = since"
| "marks (((t, cutoff), c, d) # rest) since =
     marks rest (if c = Live then since(t \<mapsto> highest (rowsAfter t cutoff d) cutoff) else since)"

fun replayed :: "((string \<times> int) \<times> ctx \<times> db) list \<Rightarrow> agent_event list" where
  "replayed [] = []"
| "replayed (((t, cutoff), c, d) # rest) =
     (if c = Live then rowsAfter t cutoff d else []) @ replayed rest"

text \<open>A replay sends what the queries found, or stops within it at a failed send.\<close>

lemma replay_sent:
  assumes "replay sendOk qs since sent = (r, sent')"
  shows "(r = Some (marks qs since) \<and> sent' = sent @ replayed qs) \<or>
    (r = None \<and> prefix sent' (sent @ replayed qs) \<and> \<not> (\<forall>k. sendOk k))"
  using assms
proof (induction qs arbitrary: since sent rule: replayed.induct)
  case (2 t cutoff c d rest)
  show ?case
  proof (cases "c = Live")
    case False
    then obtain x where "eventListByTask c t cutoff 0 d = Inl x" by (cases c) (simp_all add: eventListByTask_def)
    with 2(2) have "replay sendOk rest since sent = (r, sent')" by simp
    from 2(1) [OF this] False show ?thesis by simp
  next
    case True
    obtain ok sent1 where s: "sendAll sendOk (rowsAfter t cutoff d) sent = (ok, sent1)" by fastforce
    note sent = sendAll_sent [OF s]
    have q: "eventListByTask c t cutoff 0 d = Inr (rowsAfter t cutoff d)"
      using True by (simp add: listByTask_log rowsAfter_def)
    show ?thesis
    proof (cases ok)
      case False
      then have "r = None" "sent' = sent1" using 2(2) s q by auto
      moreover have "prefix sent1 (sent @ rowsAfter t cutoff d @ replayed rest)"
        using sent by (metis append_assoc prefix_order.trans prefixI)
      ultimately show ?thesis using sent False True by auto
    next
      case ok: True
      then have "sent1 = sent @ rowsAfter t cutoff d" using sent by simp
      moreover have "replay sendOk rest (since(t \<mapsto> highest (rowsAfter t cutoff d) cutoff)) sent1 = (r, sent')"
        using 2(2) s q ok by (simp add: highest_def)
      ultimately show ?thesis using 2(1) True by fastforce
    qed
  qed
qed simp

lemma marks_other: "t \<notin> (fst \<circ> fst) ` set qs \<Longrightarrow> marks qs since t = since t"
  by (induction qs since rule: marks.induct) auto

lemma marks_at:
  "distinct (map (fst \<circ> fst) qs) \<Longrightarrow> ((t, cutoff), c, d) \<in> set qs \<Longrightarrow>
     marks qs since t = (if c = Live then Some (highest (rowsAfter t cutoff d) cutoff) else since t)"
  by (induction qs since rule: marks.induct) (auto simp: marks_other image_iff)

lemma rowsAfter_task: "e \<in> set (rowsAfter t cutoff d) \<longleftrightarrow>
    e \<in> set (events d) \<and> eTaskID e = t \<and> cutoff < eSeq e"
  by (auto simp: rowsAfter_def set_taskLog)

lemma rowsAfter_strict: "wfDB d \<Longrightarrow> sorted_wrt (\<lambda>e f. eSeq e < eSeq f) (rowsAfter t cutoff d)"
  using taskLog_strict [of d t] by (simp add: rowsAfter_def sorted_wrt_map sorted_wrt_filter)

lemma strict_unique:
  fixes f :: "'a \<Rightarrow> 'b::linorder"
  assumes "sorted_wrt (\<lambda>x y. f x < f y) xs" "sorted_wrt (\<lambda>x y. f x < f y) ys" "set xs = set ys"
  shows "xs = ys"
proof -
  have "sorted_wrt (<) (map f xs)" "sorted_wrt (<) (map f ys)" using assms by (simp_all add: sorted_wrt_map)
  then have "sorted (map f xs)" "distinct (map f xs)" "sorted (map f ys)" "distinct (map f ys)"
    by (simp_all add: strict_sorted_iff)
  moreover have "inj_on f (set xs \<union> set ys)"
    using assms(3) \<open>distinct (map f xs)\<close> by (simp add: distinct_map)
  ultimately show ?thesis using assms(3) by (intro map_sorted_distinct_set_unique)
qed

lemma rowsAfter_other: "t' \<noteq> t \<Longrightarrow> filter (\<lambda>e. eTaskID e = t') (rowsAfter t cutoff d) = []"
  by (auto simp: filter_empty_conv rowsAfter_task)

lemma replayed_other:
  "t \<notin> (fst \<circ> fst) ` set qs \<Longrightarrow> filter (\<lambda>e. eTaskID e = t) (replayed qs) = []"
  by (induction qs rule: replayed.induct) (auto simp: rowsAfter_other)

lemma replayed_at:
  "distinct (map (fst \<circ> fst) qs) \<Longrightarrow> ((t, cutoff), c, d) \<in> set qs \<Longrightarrow>
     filter (\<lambda>e. eTaskID e = t) (replayed qs) = (if c = Live then rowsAfter t cutoff d else [])"
proof (induction qs rule: replayed.induct)
  case (2 t' cutoff' c' d' rest)
  show ?case
  proof (cases "t' = t")
    case True
    then have "t \<notin> (fst \<circ> fst) ` set rest" using 2(2) by auto
    then have "((t', cutoff'), c', d') = ((t, cutoff), c, d)" using 2(3) by force
    then show ?thesis
      using replayed_other [OF \<open>t \<notin> (fst \<circ> fst) ` set rest\<close>]
      by (simp add: filter_id_conv rowsAfter_task)
  next
    case False
    then show ?thesis using 2 by (auto simp: rowsAfter_other)
  qed
qed simp

definition passes :: "(string \<rightharpoonup> int) \<Rightarrow> agent_event \<Rightarrow> bool" where
  "passes since e = (case since (eTaskID e) of None \<Rightarrow> True | Some cutoff \<Rightarrow> cutoff < eSeq e)"

lemma watchLive_ends: "(\<And>e. WEvent e \<notin> set ends) \<Longrightarrow> snd (watchLive sendOk since ends sent) = sent"
  by (induction sendOk since ends sent rule: watchLive.induct) auto

lemma watchLive_sent:
  assumes "\<And>e. WEvent e \<notin> set ends"
  shows "prefix (snd (watchLive sendOk since (map WEvent es @ ends) sent)) (sent @ filter (passes since) es) \<and>
    ((\<forall>k. sendOk k) \<longrightarrow> snd (watchLive sendOk since (map WEvent es @ ends) sent) = sent @ filter (passes since) es)"
proof (induction es arbitrary: sent)
  case Nil
  then show ?case by (simp add: watchLive_ends [OF assms])
next
  case (Cons e es)
  have skip: "(case since (eTaskID e) of None \<Rightarrow> False | Some cutoff \<Rightarrow> eSeq e \<le> cutoff) \<longleftrightarrow> \<not> passes since e"
    by (simp add: passes_def not_less split: option.splits)
  show ?case
    using Cons.IH [of sent] Cons.IH [of "sent @ [e]"] by (cases "passes since e") (auto simp: skip)
qed

definition dueAll :: "((string \<times> int) \<times> ctx \<times> db) list \<Rightarrow> agent_event list \<Rightarrow> agent_event list" where
  "dueAll qs es = replayed qs @ filter (passes (marks qs (map_of (map fst qs)))) es"

lemma watchEvents_sent:
  assumes "\<And>e. WEvent e \<notin> set ends"
  shows "prefix (snd (watchEvents sendOk qs (map WEvent es @ ends))) (dueAll qs es) \<and>
    ((\<forall>k. sendOk k) \<longrightarrow> snd (watchEvents sendOk qs (map WEvent es @ ends)) = dueAll qs es)"
proof -
  obtain r sent where r: "replay sendOk qs (map_of (map fst qs)) [] = (r, sent)" by fastforce
  from replay_sent [OF r] show ?thesis
  proof (elim disjE conjE)
    assume "r = Some (marks qs (map_of (map fst qs)))" "sent = [] @ replayed qs"
    then show ?thesis
      using r watchLive_sent [OF assms(1), of sendOk "marks qs (map_of (map fst qs))" es sent]
      by (simp add: watchEvents_def dueAll_def)
  next
    assume "r = None" "prefix sent ([] @ replayed qs)" "\<not> (\<forall>k. sendOk k)"
    then show ?thesis using r by (auto simp: watchEvents_def dueAll_def)
  qed
qed

lemma strict_subseq:
  fixes f :: "'a \<Rightarrow> 'b::linorder"
  assumes "sorted_wrt (\<lambda>x y. f x < f y) xs" "sorted_wrt (\<lambda>x y. f x < f y) ys" "set xs \<subseteq> set ys"
  shows "subseq xs ys"
proof -
  have "xs = filter (\<lambda>x. x \<in> set xs) ys"
    by (rule strict_unique [OF assms(1) sorted_wrt_filter [OF assms(2)]]) (use assms(3) in auto)
  then show ?thesis by (metis subseq_filter_left)
qed

lemma set_sub: "subseq xs ys \<Longrightarrow> x \<in> set xs \<Longrightarrow> x \<in> set ys"
  by (induction rule: list_emb.induct) auto

lemma sorted_wrt_sub: "subseq xs ys \<Longrightarrow> sorted_wrt P ys \<Longrightarrow> sorted_wrt P xs"
  by (induction rule: list_emb.induct) (auto dest: list_emb_set)

text \<open>What a lone publisher's subscriber takes from its channel: some of what was published, in order.\<close>

lemma received_subseq: "map snd (chOut c) @ chBuf c = feed \<Longrightarrow> subseq (received c) feed"
  using subseq_map [OF subseq_filter_left, of snd "\<lambda>x. fst x = Received" "chOut c"] list_emb_append2
  unfolding received_def by (auto intro: subseq_order.trans list_emb_prefix)

text \<open>What a watcher is to be sent after the replay, given what it takes from its channel.\<close>

lemma sent_rows:
  assumes rows: "wfDB d0" "wfDB d1" "set (rowsAfter t cutoff d0) \<subseteq> set (events d1)"
    and live: "\<And>e. e \<in> set live \<Longrightarrow> eTaskID e = t \<Longrightarrow> e \<in> set (events d1)"
      "sorted_wrt (\<lambda>e f. eSeq e < eSeq f) (filter (\<lambda>e. eTaskID e = t) live)"
  defines "L m \<equiv> filter (\<lambda>e. m < eSeq e) (filter (\<lambda>e. eTaskID e = t) live)"
  shows "sorted_wrt (\<lambda>e f. eSeq e < eSeq f) (rowsAfter t cutoff d0 @ L (highest (rowsAfter t cutoff d0) cutoff))"
    and "set (rowsAfter t cutoff d0 @ L (highest (rowsAfter t cutoff d0) cutoff)) \<subseteq> set (rowsAfter t cutoff d1)"
    and "subseq (L cutoff) (rowsAfter t cutoff d1)"
proof -
  let ?R = "rowsAfter t cutoff d0"
  have s: "sorted_wrt (\<lambda>e f. eSeq e < eSeq f) (L m)" for m unfolding L_def using live(2) by (rule sorted_wrt_filter)
  have "eSeq e < eSeq f" if "e \<in> set ?R" "f \<in> set (L (highest ?R cutoff))" for e f
    using that highest_le(2) [of e ?R cutoff] by (auto simp: L_def)
  with s rowsAfter_strict [OF rows(1)]
  show "sorted_wrt (\<lambda>e f. eSeq e < eSeq f) (?R @ L (highest ?R cutoff))" unfolding sorted_wrt_append by blast
  have sub: "set (L m) \<subseteq> set (rowsAfter t cutoff d1)" if "cutoff \<le> m" for m
    using that live(1) by (auto simp: L_def rowsAfter_task)
  from sub [OF highest_le(1)] rows(3) show "set (?R @ L (highest ?R cutoff)) \<subseteq> set (rowsAfter t cutoff d1)"
    by (auto simp: rowsAfter_task)
  show "subseq (L cutoff) (rowsAfter t cutoff d1)"
    by (rule strict_subseq [OF s rowsAfter_strict [OF rows(2)] sub]) simp
qed

text \<open>C18 (a reconnecting watcher sees each event once, in order). A client names a task and the last event it has
  of it; it subscribes to the broker, then the task's later rows are queried and sent, then what it takes from its channel.
  Suppose one goroutine publishes and is between two calls; what it published since the subscription are,
  for this task, stored rows in the order of their numbers, among them all that were stored after the
  query; and later rows carry larger numbers. Then what the client is sent of the task is always part of the rows
  after its last one, each at most once and in order, whatever the broker discarded, whether the query or a
  send failed, and however the stream ended. And it is all of them, each exactly once, when the query and every
  send succeed, the client has emptied its channel, and since its subscription no more events were published (of
  any task) than its buffer holds: those stored before the query come from the replay, those stored later from
  the channel, and what is in both is sent once.\<close>

theorem watcher_sees_each_event_once:
  assumes broker: "play xs (newEventBroker n) = Some b" "\<And>g e. Call g (Publish (Some e)) \<in> set xs \<Longrightarrow> g = p"
      "\<not> publishing (bPc b p)" "(i, a) \<in> set (bSubs b)" "c = bChans b ! a" "feed = drop (chFrom c) (bLog b)"
    and queries: "distinct (map (fst \<circ> fst) qs)" "((t, cutoff), cx, d0) \<in> set qs"
    and later: "filter (\<lambda>e. eTaskID e = t) (events d1) = filter (\<lambda>e. eTaskID e = t) (events d0) @ new"
      "\<And>e f. e \<in> set (events d0) \<Longrightarrow> eTaskID e = t \<Longrightarrow> f \<in> set new \<Longrightarrow> eSeq e < eSeq f"
    and rows: "wfDB d0" "wfDB d1"
    and published: "set new \<subseteq> set feed" "\<And>e. e \<in> set feed \<Longrightarrow> eTaskID e = t \<Longrightarrow> e \<in> set (events d1)"
      "sorted_wrt (\<lambda>e f. eSeq e < eSeq f) (filter (\<lambda>e. eTaskID e = t) feed)"
    and ends: "\<And>e. WEvent e \<notin> set ends"
  shows "let sent = filter (\<lambda>e. eTaskID e = t) (snd (watchEvents sendOk qs (map WEvent (received c) @ ends)))
    in subseq sent (rowsAfter t cutoff d1) \<and>
       ((\<forall>k. sendOk k) \<and> cx = Live \<and> chBuf c = [] \<and> length feed \<le> bBufSize b \<longrightarrow> sent = rowsAfter t cutoff d1)"
proof -
  let ?T = "\<lambda>e. eTaskID e = t" and ?live = "received c" and ?since = "marks qs (map_of (map fst qs))"
  let ?R = "rowsAfter t cutoff d0" and ?m = "highest (rowsAfter t cutoff d0) cutoff"
  let ?L = "\<lambda>m. filter (\<lambda>e. m < eSeq e) (filter ?T ?live)"
  let ?all = "dueAll qs ?live"
  note lone = lone_publisher_reaches_all [OF broker]
  have part: "subseq ?live feed" by (rule received_subseq) (rule conjunct1 [OF lone])
  have live: "e \<in> set ?live \<Longrightarrow> ?T e \<Longrightarrow> e \<in> set (events d1)" for e
    by (rule published(2) [OF set_sub [OF part]])
  have inorder: "sorted_wrt (\<lambda>e f. eSeq e < eSeq f) (filter ?T ?live)"
    by (rule sorted_wrt_sub [OF subseq_filter [OF part] published(3)])
  have in1: "e \<in> set (events d1) \<and> ?T e \<longleftrightarrow> e \<in> set (events d0) \<and> ?T e \<or> e \<in> set new" for e
    using arg_cong [OF later(1), of set] by auto
  have R1: "set ?R \<subseteq> set (events d1)"
  proof
    fix e
    assume "e \<in> set ?R"
    with in1 [of e] show "e \<in> set (events d1)" by (simp add: rowsAfter_task)
  qed
  note good = sent_rows [OF rows R1 live inorder]
  have since: "map_of (map fst qs) t = Some cutoff"
    using queries by (force intro: map_of_is_SomeI simp: distinct_map comp_def)
  have all: "filter ?T ?all = (if cx = Live then ?R @ ?L ?m else ?L cutoff)"
    using replayed_at [OF queries] marks_at [OF queries, of "map_of (map fst qs)"] since
    by (auto simp: dueAll_def passes_def intro!: filter_cong)
  have sub: "subseq (filter ?T ?all) (rowsAfter t cutoff d1)"
  proof (cases "cx = Live")
    case True
    show ?thesis unfolding all if_P [OF True] by (rule strict_subseq [OF good(1) rowsAfter_strict [OF rows(2)] good(2)])
  next
    case False
    show ?thesis unfolding all if_not_P [OF False] by (rule good(3))
  qed
  have full: "filter ?T ?all = rowsAfter t cutoff d1" if "cx = Live" "chBuf c = []" "length feed \<le> bBufSize b"
  proof -
    have f: "?live = feed" using lone that by simp
    have "?m < eSeq f" if "f \<in> set new" "cutoff < eSeq f" for f
      using highest_in [of ?R cutoff] later(2) that by (auto simp: rowsAfter_task)
    then have new: "e \<in> set (?L ?m)" if "e \<in> set new" "cutoff < eSeq e" for e
      using that published(1) in1 [of e] unfolding f by auto
    have "set (rowsAfter t cutoff d1) \<subseteq> set (?R @ ?L ?m)"
    proof
      fix e
      assume "e \<in> set (rowsAfter t cutoff d1)"
      then have "?T e" "cutoff < eSeq e" "e \<in> set (events d0) \<and> ?T e \<or> e \<in> set new"
        using in1 [of e] by (simp_all add: rowsAfter_task)
      then show "e \<in> set (?R @ ?L ?m)" using new [of e] by (auto simp: rowsAfter_task)
    qed
    with good(2) have same: "set (?R @ ?L ?m) = set (rowsAfter t cutoff d1)" by (rule subset_antisym)
    show ?thesis
      unfolding all if_P [OF that(1)] by (rule strict_unique [OF good(1) rowsAfter_strict [OF rows(2)] same])
  qed
  note sent = watchEvents_sent [OF ends, where es = "?live" and qs = qs and sendOk = sendOk]
  then have "subseq (filter ?T (snd (watchEvents sendOk qs (map WEvent ?live @ ends)))) (rowsAfter t cutoff d1)"
    using sub subseq_order.trans [OF prefix_imp_subseq [OF filter_mono_prefix]] by blast
  then show ?thesis using sent full by (simp add: Let_def)
qed

text \<open>A client with the first of two events; the third is stored after the query, and the second
  is still in the channel.\<close>

definition logged :: "string \<Rightarrow> int \<Rightarrow> agent_event" where
  "logged i k = (sampleEvent i)\<lparr>eSeq := k\<rparr>"

definition longerDB :: db where
  "longerDB = logDB\<lparr>events := events logDB @ [logged ''e3'' 3]\<rparr>"

lemma wfDB_longer: "wfDB longerDB"
  by (simp add: longerDB_def logged_def logDB_def sample_defs wfDB_def keysOk_def refsOk_def
      rowsOk_def taskRowOk_iff subtaskRowOk_iff eventRowOk_def eventValidate_None taskRowOf_def
      subtaskRowOf_def)

text \<open>The broker the client subscribed to, which then published the second and the third event.\<close>

definition watched_schedule :: "agent_event act list" where
  "watched_schedule = [Call 0 Subscribe, Go 0, Go 0,
     Call 1 (Publish (Some (logged ''e2'' 2))), GoRange 1 [0], Go 1, Go 1, Receive 0,
     Call 1 (Publish (Some (logged ''e3'' 3))), GoRange 1 [0], Go 1, Go 1, Receive 0]"

definition watched :: "agent_event broker" where
  "watched = the (play watched_schedule (newEventBroker 8))"

lemma watched_plays: "play watched_schedule (newEventBroker 8) = Some watched"
  "bPc watched (Suc 0) = Idle" "bSubs watched = [(1, 0)]" "bLog watched = [logged ''e2'' 2, logged ''e3'' 3]"
  "chFrom (bChans watched ! 0) = 0" "chBuf (bChans watched ! 0) = []" "bBufSize watched = 8"
  "received (bChans watched ! 0) = [logged ''e2'' 2, logged ''e3'' 3]"
  by (simp_all add: watched_def watched_schedule_def newEventBroker_def beginCall_def received_def
      publishStep_def subscribeStep_def goto_def putChan_def trySend_def takeOne_def makeChan_def)

theorem watcher_sees_each_event_once_witness:
  "filter (\<lambda>e. eTaskID e = ''t1'') (snd (watchEvents (\<lambda>k. True) [((''t1'', 1), Live, logDB)]
     (map WEvent (received (bChans watched ! 0)) @ [WDone]))) = [logged ''e2'' 2, logged ''e3'' 3]"
proof -
  let ?sent = "filter (\<lambda>e. eTaskID e = ''t1'') (snd (watchEvents (\<lambda>k. True) [((''t1'', 1), Live, logDB)]
     (map WEvent (received (bChans watched ! 0)) @ [WDone])))"
  have "let sent = ?sent in subseq sent (rowsAfter ''t1'' 1 longerDB) \<and>
      ((\<forall>k::nat. True) \<and> Live = Live \<and> chBuf (bChans watched ! 0) = [] \<and>
        length (drop (chFrom (bChans watched ! 0)) (bLog watched)) \<le> bBufSize watched \<longrightarrow> sent = rowsAfter ''t1'' 1 longerDB)"
    by (rule watcher_sees_each_event_once [where ?d1.0 = longerDB and ?d0.0 = logDB and p = 1 and i = 1 and a = 0
            and new = "[logged ''e3'' 3]", OF watched_plays(1) _ _ _ refl refl _ _ _ _ wfDB_log wfDB_longer])
      (auto simp: watched_plays watched_schedule_def longerDB_def logDB_def logged_def sampleEvent_def)
  moreover have "rowsAfter ''t1'' 1 longerDB = [logged ''e2'' 2, logged ''e3'' 3]"
    by (simp add: rowsAfter_def taskLog_def longerDB_def logDB_def logged_def sampleEvent_def)
  ultimately show ?thesis by (simp add: watched_plays Let_def)
qed

end
