(* ===== verification/Memory_Store.thy ===== *)
theory Memory_Store
  imports FK_Prelude Complex_Main
begin

text \<open>
  The tables of the context memory (\<open>internal/ctxmem/store\<close>, schema of migration 13): the
  property graph of nodes and directed edges, the closure table derived from it, the scratchpad of
  proposed nodes and the settings per repository. Timestamps are the texts the columns hold, written
  and compared as text; JSON columns are the list they encode; confidences are rationals. A statement
  on a done context has no effect.
\<close>

section \<open>Rows\<close>

record mem_node =
  nID :: string
  nRepoID :: string
  nKind :: string
  nLabel :: string
  nContentMD :: string
  nAttrs :: "(string \<times> string) list"
  nSourceKind :: string
  nSourceTaskID :: string
  nSourceSessionID :: string
  nConfidence :: rat
  nEnabled :: bool
  nPinned :: bool
  nCreatedAt :: string
  nUpdatedAt :: string

record mem_edge =
  gID :: string
  gRepoID :: string
  gSrc :: string
  gDst :: string
  gRel :: string
  gAttrs :: "(string \<times> string) list"
  gCreatedAt :: string

record closure_row =
  clRepoID :: string
  clSrc :: string
  clDst :: string
  clDepth :: nat
  clViaRel :: string

datatype pad_status = ScratchpadPending | ScratchpadPromoted | ScratchpadRejected | ScratchpadSnoozed

record pad_entry =
  pID :: string
  pRepoID :: string
  pKind :: string
  pLabel :: string
  pContentMD :: string
  pAttrs :: "(string \<times> string) list"
  pSourceKind :: string
  pSourceRef :: string
  pSignals :: "string list"
  pConfidence :: rat
  pStatus :: "pad_status option"
  pRejectReason :: string
  pSnoozedUntil :: string
  pPromotedNodeID :: string
  pCreatedAt :: string
  pUpdatedAt :: string

record mem_settings =
  mRepoID :: string
  mEnabled :: bool
  mEmbeddingProvider :: string
  mEmbeddingModel :: string
  mEmbeddingDim :: int
  mLLMProvider :: string
  mLLMModel :: string
  mPassiveTokenBudget :: int
  mTopKNeighbors :: int
  mAutoPromote :: bool
  mAutoPromoteThreshold :: rat
  mUpdatedAt :: string

text \<open>\<open>mRepos\<close> is the key column of the repositories table, which the foreign keys refer to.\<close>

record memdb =
  mRepos :: "string list"
  mNodes :: "mem_node list"
  mEdges :: "mem_edge list"
  mClosure :: "closure_row list"
  mPad :: "pad_entry list"
  mSettings :: "mem_settings list"

datatype mem_error = MemInvalidArg | MemNotFound | MemExec string | MemConstraint string | MemNoNode string

definition whenLive :: "ctx \<Rightarrow> (mem_error + 'a) \<Rightarrow> mem_error + 'a" where
  "whenLive c r = (case ctxErr c of Some e \<Rightarrow> Inl (MemExec e) | None \<Rightarrow> r)"

lemma whenLive_simps [simp]:
  "whenLive Live r = r" "whenLive (Done e) r = Inl (MemExec e)"
  "whenLive c r = Inr x \<longleftrightarrow> c = Live \<and> r = Inr x"
  by (cases c; simp add: whenLive_def)+

section \<open>Nodes\<close>

definition nodeInsert :: "mem_node \<Rightarrow> memdb \<Rightarrow> mem_error + memdb" where
  "nodeInsert n d =
     (if hasKey nID (nID n) (mNodes d) then Inl (MemConstraint ''UNIQUE'')
      else if nRepoID n \<notin> set (mRepos d) then Inl (MemConstraint ''FOREIGN KEY'')
      else Inr (d\<lparr>mNodes := mNodes d @ [n]\<rparr>))"

text \<open>The row as \<open>Create\<close> writes it: a missing confidence becomes one, and an unpinned node without
  confidence counts as enabled.\<close>

definition nodeRow :: "string \<Rightarrow> mem_node \<Rightarrow> mem_node" where
  "nodeRow now n =
     n\<lparr>nConfidence := (if nConfidence n \<le> 0 then 1 else nConfidence n),
       nEnabled := (nEnabled n \<or> \<not> nPinned n \<and> nConfidence n = 0),
       nCreatedAt := (if nCreatedAt n = [] then now else nCreatedAt n),
       nUpdatedAt := now\<rparr>"

definition nodeCreate :: "string \<Rightarrow> ctx \<Rightarrow> mem_node \<Rightarrow> memdb \<Rightarrow> mem_error + memdb" where
  "nodeCreate now c n d =
     (if nID n = [] \<or> nRepoID n = [] \<or> nKind n = [] \<or> nLabel n = [] \<or> nSourceKind n = []
      then Inl MemInvalidArg
      else whenLive c (nodeInsert (nodeRow now n) d))"

definition nodeGet :: "ctx \<Rightarrow> string \<Rightarrow> memdb \<Rightarrow> mem_error + mem_node" where
  "nodeGet c i d =
     whenLive c (case lookupBy nID i (mNodes d) of None \<Rightarrow> Inl MemNotFound | Some n \<Rightarrow> Inr n)"

definition nodeGetMany :: "ctx \<Rightarrow> string list \<Rightarrow> memdb \<Rightarrow> mem_error + mem_node list" where
  "nodeGetMany c ids d =
     (if ids = [] then Inr []
      else whenLive c (Inr (filter (\<lambda>n. nID n \<in> set ids) (mNodes d))))"

definition nodeUpdate :: "string \<Rightarrow> ctx \<Rightarrow> mem_node \<Rightarrow> memdb \<Rightarrow> mem_error + memdb" where
  "nodeUpdate now c n d =
     whenLive c
       (let wh = (\<lambda>r. nID r = nID n)
        in if countWhere wh (mNodes d) = 0 then Inl MemNotFound
           else Inr (d\<lparr>mNodes := updateWhere wh
             (\<lambda>r. r\<lparr>nLabel := nLabel n, nContentMD := nContentMD n, nAttrs := nAttrs n,
                nConfidence := nConfidence n, nEnabled := nEnabled n, nPinned := nPinned n,
                nUpdatedAt := now\<rparr>) (mNodes d)\<rparr>))"

definition nodeUpsert :: "string \<Rightarrow> ctx \<Rightarrow> mem_node \<Rightarrow> memdb \<Rightarrow> mem_error + memdb" where
  "nodeUpsert now c n d =
     (case nodeGet c (nID n) d of
        Inr r \<Rightarrow> nodeUpdate now c (n\<lparr>nCreatedAt := nCreatedAt r\<rparr>) d
      | Inl MemNotFound \<Rightarrow> nodeCreate now c n d
      | Inl e \<Rightarrow> Inl e)"

definition nodeSetEnabled :: "string \<Rightarrow> ctx \<Rightarrow> string \<Rightarrow> bool \<Rightarrow> memdb \<Rightarrow> mem_error + memdb" where
  "nodeSetEnabled now c i b d =
     whenLive c (Inr (d\<lparr>mNodes := updateWhere (\<lambda>r. nID r = i)
       (\<lambda>r. r\<lparr>nEnabled := b, nUpdatedAt := now\<rparr>) (mNodes d)\<rparr>))"

definition nodeSetPinned :: "string \<Rightarrow> ctx \<Rightarrow> string \<Rightarrow> bool \<Rightarrow> memdb \<Rightarrow> mem_error + memdb" where
  "nodeSetPinned now c i b d =
     whenLive c (Inr (d\<lparr>mNodes := updateWhere (\<lambda>r. nID r = i)
       (\<lambda>r. r\<lparr>nPinned := b, nUpdatedAt := now\<rparr>) (mNodes d)\<rparr>))"

text \<open>Edges refer to their nodes and go with them; the closure has no foreign key and stays.\<close>

definition nodeDelete :: "ctx \<Rightarrow> string \<Rightarrow> memdb \<Rightarrow> mem_error + memdb" where
  "nodeDelete c i d =
     whenLive c (Inr (d\<lparr>mNodes := deleteWhere (\<lambda>n. nID n = i) (mNodes d),
       mEdges := deleteWhere (\<lambda>e. gSrc e = i \<or> gDst e = i) (mEdges d)\<rparr>))"

text \<open>\<open>ORDER BY .. DESC\<close>, rows of equal key in table order.\<close>

definition descBy :: "('r \<Rightarrow> 'k::linorder) \<Rightarrow> 'r list \<Rightarrow> 'r list" where
  "descBy key rs = rev (sort_key key (rev rs))"

definition nodeFindByLabel ::
  "ctx \<Rightarrow> string \<Rightarrow> string \<Rightarrow> string \<Rightarrow> memdb \<Rightarrow> mem_error + mem_node" where
  "nodeFindByLabel c repo kind label d =
     (if repo = [] \<or> kind = [] \<or> label = [] then Inl MemInvalidArg
      else whenLive c
        (case descBy nUpdatedAt (filter (\<lambda>n. nRepoID n = repo \<and> nKind n = kind \<and> nLabel n = label \<and>
            nEnabled n) (mNodes d)) of
           [] \<Rightarrow> Inl MemNotFound | n # ns \<Rightarrow> Inr n))"

definition countsOf :: "('r \<Rightarrow> 'k) \<Rightarrow> 'r list \<Rightarrow> ('k \<times> nat) list" where
  "countsOf key rs = map (\<lambda>k. (k, countWhere (\<lambda>r. key r = k) rs)) (remdups (map key rs))"

definition nodeCountByKind :: "ctx \<Rightarrow> string \<Rightarrow> memdb \<Rightarrow> mem_error + (string \<times> nat) list" where
  "nodeCountByKind c repo d =
     whenLive c (Inr (countsOf nKind (filter (\<lambda>n. nRepoID n = repo \<and> nEnabled n) (mNodes d))))"

record node_filter =
  nfRepoID :: string
  nfKinds :: "string list"
  nfSourceKinds :: "string list"
  nfLabelContains :: string
  nfPinnedOnly :: bool
  nfEnabledOnly :: bool
  nfLimit :: int
  nfOffset :: int
  nfSortBy :: string

text \<open>\<open>like text pattern\<close> is SQLite's LIKE. A negative offset counts as none.\<close>

definition pageOf :: "int \<Rightarrow> int \<Rightarrow> 'r list \<Rightarrow> 'r list" where
  "pageOf limit off rs = take (nat limit) (drop (nat off) rs)"

definition nodeMatches :: "(string \<Rightarrow> string \<Rightarrow> bool) \<Rightarrow> node_filter \<Rightarrow> mem_node \<Rightarrow> bool" where
  "nodeMatches like f n \<longleftrightarrow>
     nRepoID n = nfRepoID f \<and>
     (nfKinds f = [] \<or> nKind n \<in> set (nfKinds f)) \<and>
     (nfSourceKinds f = [] \<or> nSourceKind n \<in> set (nfSourceKinds f)) \<and>
     (nfLabelContains f = [] \<or>
        (let p = ''%'' @ nfLabelContains f @ ''%'' in like (nLabel n) p \<or> like (nContentMD n) p)) \<and>
     (nfPinnedOnly f \<longrightarrow> nPinned n) \<and> (nfEnabledOnly f \<longrightarrow> nEnabled n)"

definition nodeList ::
  "(string \<Rightarrow> string \<Rightarrow> bool) \<Rightarrow> ctx \<Rightarrow> node_filter \<Rightarrow> memdb \<Rightarrow> mem_error + mem_node list \<times> nat" where
  "nodeList like c f d =
     whenLive c
       (let rows = filter (nodeMatches like f) (mNodes d);
            sorted =
              (if nfSortBy f = ''label'' then sort_key nLabel rows
               else if nfSortBy f = ''confidence'' then descBy nConfidence (descBy nUpdatedAt rows)
               else descBy nUpdatedAt rows);
            limit = (if nfLimit f \<le> 0 then 200 else nfLimit f)
        in Inr (pageOf limit (nfOffset f) sorted, length rows))"

section \<open>Edges\<close>

definition edgeTuple :: "mem_edge \<Rightarrow> string \<times> string \<times> string \<times> string" where
  "edgeTuple e = (gRepoID e, gSrc e, gDst e, gRel e)"

definition edgeInsert :: "mem_edge \<Rightarrow> memdb \<Rightarrow> mem_error + memdb" where
  "edgeInsert e d =
     (if hasKey gID (gID e) (mEdges d) \<or> hasKey edgeTuple (edgeTuple e) (mEdges d)
      then Inl (MemConstraint ''UNIQUE'')
      else if gRepoID e \<notin> set (mRepos d) \<or> \<not> hasKey nID (gSrc e) (mNodes d) \<or>
              \<not> hasKey nID (gDst e) (mNodes d)
      then Inl (MemConstraint ''FOREIGN KEY'')
      else Inr (d\<lparr>mEdges := mEdges d @ [e]\<rparr>))"

definition edgeRow :: "string \<Rightarrow> mem_edge \<Rightarrow> mem_edge" where
  "edgeRow now e = e\<lparr>gCreatedAt := (if gCreatedAt e = [] then now else gCreatedAt e)\<rparr>"

definition edgeCreate :: "string \<Rightarrow> ctx \<Rightarrow> mem_edge \<Rightarrow> memdb \<Rightarrow> mem_error + memdb" where
  "edgeCreate now c e d =
     (if gID e = [] \<or> gRepoID e = [] \<or> gSrc e = [] \<or> gDst e = [] \<or> gRel e = []
      then Inl MemInvalidArg else whenLive c (edgeInsert (edgeRow now e) d))"

text \<open>The upsert resolves a conflict of the tuple; one of the id alone is an error.\<close>

definition edgeUpsertByTuple :: "string \<Rightarrow> ctx \<Rightarrow> mem_edge \<Rightarrow> memdb \<Rightarrow> mem_error + memdb" where
  "edgeUpsertByTuple now c e d =
     whenLive c
       (let r = edgeRow now e
        in if hasKey edgeTuple (edgeTuple r) (mEdges d)
           then Inr (d\<lparr>mEdges := updateWhere (\<lambda>x. edgeTuple x = edgeTuple r)
             (\<lambda>x. x\<lparr>gAttrs := gAttrs r, gCreatedAt := gCreatedAt r\<rparr>) (mEdges d)\<rparr>)
           else edgeInsert r d)"

definition edgeDelete :: "ctx \<Rightarrow> string \<Rightarrow> memdb \<Rightarrow> mem_error + memdb" where
  "edgeDelete c i d = whenLive c (Inr (d\<lparr>mEdges := deleteWhere (\<lambda>e. gID e = i) (mEdges d)\<rparr>))"

definition edgeGetByID :: "ctx \<Rightarrow> string \<Rightarrow> memdb \<Rightarrow> mem_error + mem_edge" where
  "edgeGetByID c i d =
     whenLive c (case lookupBy gID i (mEdges d) of None \<Rightarrow> Inl MemNotFound | Some e \<Rightarrow> Inr e)"

definition edgeOutEdges :: "ctx \<Rightarrow> string \<Rightarrow> memdb \<Rightarrow> mem_error + mem_edge list" where
  "edgeOutEdges c i d = whenLive c (Inr (sort_key gCreatedAt (filter (\<lambda>e. gSrc e = i) (mEdges d))))"

definition edgeInEdges :: "ctx \<Rightarrow> string \<Rightarrow> memdb \<Rightarrow> mem_error + mem_edge list" where
  "edgeInEdges c i d = whenLive c (Inr (sort_key gCreatedAt (filter (\<lambda>e. gDst e = i) (mEdges d))))"

definition edgeCountByRel :: "ctx \<Rightarrow> string \<Rightarrow> memdb \<Rightarrow> mem_error + (string \<times> nat) list" where
  "edgeCountByRel c repo d =
     whenLive c (Inr (countsOf gRel (filter (\<lambda>e. gRepoID e = repo) (mEdges d))))"

definition edgeAllForRepo :: "ctx \<Rightarrow> string \<Rightarrow> memdb \<Rightarrow> mem_error + mem_edge list" where
  "edgeAllForRepo c repo d = whenLive c (Inr (filter (\<lambda>e. gRepoID e = repo) (mEdges d)))"

definition edgeList ::
  "ctx \<Rightarrow> string \<Rightarrow> string \<Rightarrow> string list \<Rightarrow> int \<Rightarrow> int \<Rightarrow> memdb \<Rightarrow> mem_error + mem_edge list \<times> nat" where
  "edgeList c repo node rels limit off d =
     whenLive c
       (let rows = filter (\<lambda>e. gRepoID e = repo \<and> (node = [] \<or> gSrc e = node \<or> gDst e = node) \<and>
              (rels = [] \<or> gRel e \<in> set rels)) (mEdges d)
        in Inr (pageOf (if limit \<le> 0 then 500 else limit) off (sort_key gCreatedAt rows), length rows))"

section \<open>The closure table\<close>

definition closureKey :: "closure_row \<Rightarrow> string \<times> string \<times> string \<times> string" where
  "closureKey r = (clRepoID r, clSrc r, clDst r, clViaRel r)"

definition closureDeleteForRepo :: "string \<Rightarrow> memdb \<Rightarrow> memdb" where
  "closureDeleteForRepo repo d = d\<lparr>mClosure := deleteWhere (\<lambda>r. clRepoID r = repo) (mClosure d)\<rparr>"

text \<open>\<open>INSERT OR IGNORE\<close>, row by row.\<close>

fun insertIgnore :: "closure_row list \<Rightarrow> closure_row list \<Rightarrow> closure_row list" where
  "insertIgnore [] t = t"
| "insertIgnore (r # rs) t =
     insertIgnore rs (if hasKey closureKey (closureKey r) t then t else t @ [r])"

definition closureBulkInsert :: "closure_row list \<Rightarrow> memdb \<Rightarrow> memdb" where
  "closureBulkInsert rows d = d\<lparr>mClosure := insertIgnore rows (mClosure d)\<rparr>"

definition closureDescendants :: "ctx \<Rightarrow> string \<Rightarrow> int \<Rightarrow> memdb \<Rightarrow> mem_error + closure_row list" where
  "closureDescendants c src maxDepth d =
     whenLive c
       (let m = (if maxDepth \<le> 0 then 3 else maxDepth)
        in Inr (sort_key clDepth (filter (\<lambda>r. clSrc r = src \<and> int (clDepth r) \<le> m) (mClosure d))))"

definition closureAncestors :: "ctx \<Rightarrow> string \<Rightarrow> int \<Rightarrow> memdb \<Rightarrow> mem_error + closure_row list" where
  "closureAncestors c dst maxDepth d =
     whenLive c
       (let m = (if maxDepth \<le> 0 then 3 else maxDepth)
        in Inr (sort_key clDepth (filter (\<lambda>r. clDst r = dst \<and> int (clDepth r) \<le> m) (mClosure d))))"

section \<open>The scratchpad\<close>

definition padCreate :: "string \<Rightarrow> ctx \<Rightarrow> pad_entry \<Rightarrow> memdb \<Rightarrow> mem_error + memdb" where
  "padCreate now c e d =
     (if pID e = [] \<or> pRepoID e = [] \<or> pKind e = [] \<or> pLabel e = [] \<or> pSourceKind e = []
      then Inl MemInvalidArg
      else whenLive c
        (if hasKey pID (pID e) (mPad d) then Inl (MemConstraint ''UNIQUE'')
         else if pRepoID e \<notin> set (mRepos d) then Inl (MemConstraint ''FOREIGN KEY'')
         else Inr (d\<lparr>mPad := mPad d @
           [e\<lparr>pStatus := (case pStatus e of None \<Rightarrow> Some ScratchpadPending | s \<Rightarrow> s),
              pConfidence := (if pConfidence e \<le> 0 then 1 / 2 else pConfidence e),
              pCreatedAt := now, pUpdatedAt := now\<rparr>]\<rparr>)))"

definition padGet :: "ctx \<Rightarrow> string \<Rightarrow> memdb \<Rightarrow> mem_error + pad_entry" where
  "padGet c i d =
     whenLive c (case lookupBy pID i (mPad d) of None \<Rightarrow> Inl MemNotFound | Some e \<Rightarrow> Inr e)"

text \<open>An UPDATE that reports a count of zero as not found.\<close>

definition padUpdate ::
  "ctx \<Rightarrow> (pad_entry \<Rightarrow> bool) \<Rightarrow> (pad_entry \<Rightarrow> pad_entry) \<Rightarrow> memdb \<Rightarrow> mem_error + memdb" where
  "padUpdate c wh f d =
     whenLive c (if countWhere wh (mPad d) = 0 then Inl MemNotFound
       else Inr (d\<lparr>mPad := updateWhere wh f (mPad d)\<rparr>))"

definition padMarkPromoted :: "string \<Rightarrow> ctx \<Rightarrow> string \<Rightarrow> string \<Rightarrow> memdb \<Rightarrow> mem_error + memdb" where
  "padMarkPromoted now c i node d =
     padUpdate c (\<lambda>e. pID e = i \<and> pStatus e \<in> {Some ScratchpadPending, Some ScratchpadSnoozed})
       (\<lambda>e. e\<lparr>pStatus := Some ScratchpadPromoted, pPromotedNodeID := node, pUpdatedAt := now\<rparr>) d"

definition padMarkRejected :: "string \<Rightarrow> ctx \<Rightarrow> string \<Rightarrow> string \<Rightarrow> memdb \<Rightarrow> mem_error + memdb" where
  "padMarkRejected now c i reason d =
     padUpdate c (\<lambda>e. pID e = i)
       (\<lambda>e. e\<lparr>pStatus := Some ScratchpadRejected, pRejectReason := reason, pUpdatedAt := now\<rparr>) d"

definition padSnooze :: "string \<Rightarrow> ctx \<Rightarrow> string \<Rightarrow> string \<Rightarrow> memdb \<Rightarrow> mem_error + memdb" where
  "padSnooze now c i until d =
     padUpdate c (\<lambda>e. pID e = i)
       (\<lambda>e. e\<lparr>pStatus := Some ScratchpadSnoozed, pSnoozedUntil := until, pUpdatedAt := now\<rparr>) d"

definition padApplyEdits ::
  "string \<Rightarrow> ctx \<Rightarrow> string \<Rightarrow> string \<Rightarrow> string \<Rightarrow> string \<Rightarrow> (string \<times> string) list \<Rightarrow> memdb \<Rightarrow>
     mem_error + memdb" where
  "padApplyEdits now c i kind label content attrs d =
     whenLive c (Inr (d\<lparr>mPad := updateWhere (\<lambda>e. pID e = i)
       (\<lambda>e. e\<lparr>pKind := (if kind = [] then pKind e else kind),
          pLabel := (if label = [] then pLabel e else label),
          pContentMD := (if content = [] then pContentMD e else content),
          pAttrs := attrs, pUpdatedAt := now\<rparr>) (mPad d)\<rparr>))"

definition padList ::
  "ctx \<Rightarrow> string \<Rightarrow> pad_status list \<Rightarrow> int \<Rightarrow> int \<Rightarrow> memdb \<Rightarrow> mem_error + pad_entry list \<times> nat" where
  "padList c repo statuses limit off d =
     whenLive c
       (let sts = (if statuses = [] then [ScratchpadPending] else statuses);
            rows = filter (\<lambda>e. pRepoID e = repo \<and> pStatus e \<in> Some ` set sts) (mPad d)
        in Inr (pageOf (if limit \<le> 0 then 200 else limit) off
                  (descBy pConfidence (descBy pUpdatedAt rows)), length rows))"

text \<open>\<open>cutoff\<close> is the text of the instant \<open>window\<close> ago.\<close>

definition padRecentlyRejected :: "ctx \<Rightarrow> string \<Rightarrow> string \<Rightarrow> memdb \<Rightarrow> mem_error + string list" where
  "padRecentlyRejected c repo cutoff d =
     (if repo = [] then Inl MemInvalidArg
      else whenLive c (Inr (remdups (map pLabel (filter (\<lambda>e. pRepoID e = repo \<and>
        pStatus e = Some ScratchpadRejected \<and> cutoff \<le> pUpdatedAt e) (mPad d))))))"

definition padCountByStatus :: "ctx \<Rightarrow> string \<Rightarrow> memdb \<Rightarrow> mem_error + (pad_status option \<times> nat) list" where
  "padCountByStatus c repo d =
     whenLive c (Inr (countsOf pStatus (filter (\<lambda>e. pRepoID e = repo) (mPad d))))"

section \<open>Settings\<close>

definition defaultSettings :: "string \<Rightarrow> mem_settings" where
  "defaultSettings repo =
     \<lparr>mRepoID = repo, mEnabled = False, mEmbeddingProvider = ''ollama'',
      mEmbeddingModel = ''nomic-embed-text'', mEmbeddingDim = 768, mLLMProvider = ''copilot'',
      mLLMModel = '''', mPassiveTokenBudget = 3000, mTopKNeighbors = 8, mAutoPromote = False,
      mAutoPromoteThreshold = 9 / 10, mUpdatedAt = ''''\<rparr>"

definition filledSettings :: "mem_settings \<Rightarrow> mem_settings" where
  "filledSettings s =
     s\<lparr>mEmbeddingProvider := (if mEmbeddingProvider s = [] then ''ollama'' else mEmbeddingProvider s),
       mEmbeddingModel := (if mEmbeddingModel s = [] then ''nomic-embed-text'' else mEmbeddingModel s),
       mEmbeddingDim := (if mEmbeddingDim s \<le> 0 then 768 else mEmbeddingDim s),
       mLLMProvider := (if mLLMProvider s = [] then ''openai'' else mLLMProvider s),
       mLLMModel := (if mLLMModel s = [] then ''gpt-4o-mini'' else mLLMModel s),
       mPassiveTokenBudget := (if mPassiveTokenBudget s \<le> 0 then 3000 else mPassiveTokenBudget s),
       mTopKNeighbors := (if mTopKNeighbors s \<le> 0 then 8 else mTopKNeighbors s),
       mAutoPromoteThreshold :=
         (if mAutoPromoteThreshold s \<le> 0 then 9 / 10 else mAutoPromoteThreshold s)\<rparr>"

definition settingsSave :: "string \<Rightarrow> ctx \<Rightarrow> mem_settings \<Rightarrow> memdb \<Rightarrow> mem_error + memdb" where
  "settingsSave now c s d =
     (if mRepoID s = [] then Inl MemInvalidArg
      else whenLive c
        (let r = (filledSettings s)\<lparr>mUpdatedAt := now\<rparr>
         in if hasKey mRepoID (mRepoID r) (mSettings d)
            then Inr (d\<lparr>mSettings := updateWhere (\<lambda>x. mRepoID x = mRepoID r) (\<lambda>x. r) (mSettings d)\<rparr>)
            else if mRepoID r \<notin> set (mRepos d) then Inl (MemConstraint ''FOREIGN KEY'')
            else Inr (d\<lparr>mSettings := mSettings d @ [r]\<rparr>)))"

definition settingsFetch :: "ctx \<Rightarrow> string \<Rightarrow> memdb \<Rightarrow> mem_error + mem_settings" where
  "settingsFetch c repo d =
     whenLive c (case lookupBy mRepoID repo (mSettings d) of None \<Rightarrow> Inl MemNotFound | Some s \<Rightarrow> Inr s)"

text \<open>Reading creates a missing row from the defaults.\<close>

definition settingsGet :: "string \<Rightarrow> ctx \<Rightarrow> string \<Rightarrow> memdb \<Rightarrow> (mem_error + mem_settings) \<times> memdb" where
  "settingsGet now c repo d =
     (case settingsFetch c repo d of
        Inr s \<Rightarrow> (Inr s, d)
      | Inl MemNotFound \<Rightarrow>
          (case settingsSave now c (defaultSettings repo) d of
             Inl e \<Rightarrow> (Inl e, d) | Inr d' \<Rightarrow> (settingsFetch c repo d', d'))
      | Inl e \<Rightarrow> (Inl e, d))"

text \<open>The defaults leave the model open so that the provider's first model is taken; saving them
  fills the gap with a model of another provider.\<close>

lemma default_model_is_overwritten:
  "repo \<in> set (mRepos d) \<Longrightarrow> repo \<noteq> [] \<Longrightarrow> repo \<notin> mRepoID ` set (mSettings d) \<Longrightarrow>
   \<exists>s. fst (settingsGet now Live repo d) = Inr s \<and> mLLMModel s = ''gpt-4o-mini'' \<and>
     mLLMProvider s = ''copilot'' \<and> mLLMModel (defaultSettings repo) = []"
  by (auto simp: settingsGet_def settingsFetch_def settingsSave_def defaultSettings_def
      filledSettings_def hasKey_iff lookupBy_None [THEN iffD2] Let_def)

section \<open>Timestamps as text\<close>

text \<open>The end of a text in \<open>RFC3339Nano\<close>, from the nine digits of the nanoseconds: the zeros
  at their end are dropped, with the point when nothing is left, and the zone of UTC follows.\<close>

definition nanoSuffix :: "string \<Rightarrow> string" where
  "nanoSuffix digits =
     (let ds = rev (dropWhile (\<lambda>x. x = CHR ''0'') (rev digits))
      in (if ds = [] then [] else CHR ''.'' # ds) @ ''Z'')"

text \<open>Within a second the texts are not ordered like the instants: a whole second sorts after all of
  its fractions.\<close>

lemma nano_text_is_out_of_order:
  "''000000000'' < ''500000000'' \<and> nanoSuffix ''500000000'' < nanoSuffix ''000000000''"
  by (simp add: nanoSuffix_def less_char_def)

end
