(* ===== verification/Memory_Graph.thy ===== *)
theory Memory_Graph
  imports Memory_Store
begin

text \<open>
  \<open>internal/ctxmem/graph/graph.go\<close>: the closure table of the property graph is rebuilt by a
  breadth-first search from every node with an outgoing edge, and read back for neighbours and
  impact. The order in which the sources are visited is the iteration order of a Go map, an argument
  here.
\<close>

section \<open>The search\<close>

definition defaultMaxDepth :: nat where
  "defaultMaxDepth = 5"

text \<open>A discovered node: where, how deep, and the relation of the first edge on the way.\<close>

type_synonym found = "string \<times> nat \<times> string"

definition hopsFrom :: "mem_edge list \<Rightarrow> string \<Rightarrow> (string \<times> string) list" where
  "hopsFrom es v = map (\<lambda>e. (gDst e, gRel e)) (filter (\<lambda>e. gSrc e = v) es)"

text \<open>The inner loop: the hops of a node that were not seen before, in order.\<close>

fun newHops :: "nat \<Rightarrow> string \<Rightarrow> (string \<times> string) list \<Rightarrow> string set \<Rightarrow> found list" where
  "newHops depth via [] visited = []"
| "newHops depth via ((dst, rel) # hs) visited =
     (if dst \<in> visited then newHops depth via hs visited
      else (dst, Suc depth, if via = [] then rel else via) #
             newHops depth via hs (insert dst visited))"

lemma newHops_dsts: "set (map fst (newHops depth via hs visited)) = set (map fst hs) - visited"
proof (induction hs arbitrary: visited)
  case (Cons h hs)
  obtain dst rel where h: "h = (dst, rel)" by fastforce
  show ?case using Cons [of visited] Cons [of "insert dst visited"]
    unfolding h by (simp del: set_map) blast
qed simp

lemma newHops_distinct: "distinct (map fst (newHops depth via hs visited))"
proof (induction hs arbitrary: visited)
  case (Cons h hs)
  obtain dst rel where h: "h = (dst, rel)" by fastforce
  show ?case
    using Cons [of visited] Cons [of "insert dst visited"]
      newHops_dsts [of depth via hs "insert dst visited"]
    unfolding h by (simp del: set_map)
qed simp

lemma newHops_depth: "x \<in> set (newHops depth via hs visited) \<Longrightarrow> fst (snd x) = Suc depth"
  by (induction hs arbitrary: visited) (auto split: if_splits)

lemma newHops_via:
  "set (newHops depth via hs visited) \<subseteq>
     (\<lambda>(dst, rel). (dst, Suc depth, if via = [] then rel else via)) ` set hs"
proof (induction hs arbitrary: visited)
  case (Cons h hs)
  obtain dst rel where h: "h = (dst, rel)" by fastforce
  show ?case using Cons [of visited] Cons [of "insert dst visited"] by (auto simp: h)
qed simp

definition unseen :: "mem_edge list \<Rightarrow> string set \<Rightarrow> string set" where
  "unseen es visited = gDst ` set es - visited"

lemma newHops_unseen:
  assumes "new = newHops k via (hopsFrom es v) visited"
  shows "card (unseen es (visited \<union> fst ` set new)) + length new = card (unseen es visited)"
proof -
  have sub: "fst ` set new \<subseteq> unseen es visited"
    using newHops_dsts [of k via "hopsFrom es v" visited] assms
    by (auto simp: unseen_def hopsFrom_def)
  have eq: "unseen es (visited \<union> fst ` set new) = unseen es visited - fst ` set new"
    by (auto simp: unseen_def)
  have len: "card (fst ` set new) = length new"
    using newHops_distinct distinct_card [of "map fst new"] assms by simp
  have "card (unseen es visited - fst ` set new) = card (unseen es visited) - length new"
    using card_Diff_subset [OF _ sub] len by simp
  moreover have "length new \<le> card (unseen es visited)"
    using card_mono [OF _ sub] len by (simp add: unseen_def)
  ultimately show ?thesis using eq by simp
qed

text \<open>The queue loop. It ends because every node enters the queue once.\<close>

function bfs ::
  "mem_edge list \<Rightarrow> nat \<Rightarrow> found list \<Rightarrow> string set \<Rightarrow> found list \<Rightarrow> found list" where
  "bfs es maxDepth [] visited rows = rows"
| "bfs es maxDepth ((v, k, via) # queue) visited rows =
     (if k \<ge> maxDepth then bfs es maxDepth queue visited rows
      else (let new = newHops k via (hopsFrom es v) visited
            in bfs es maxDepth (queue @ new) (visited \<union> fst ` set new) (rows @ new)))"
  by pat_completeness auto
termination
proof (relation "measure (\<lambda>(es, m, queue, visited, rows). 2 * card (unseen es visited) + length queue)",
    goal_cases)
  case (3 es m v k via queue visited rows new)
  then show ?case using newHops_unseen [OF 3(2)] by simp
qed auto

definition searchFrom :: "mem_edge list \<Rightarrow> nat \<Rightarrow> string \<Rightarrow> found list" where
  "searchFrom es maxDepth src = bfs es maxDepth [(src, 0, [])] {src} []"

section \<open>The rebuild\<close>

text \<open>\<open>sources\<close> is the order in which the range loop visits the set of sources.\<close>

definition isSourceOrder :: "mem_edge list \<Rightarrow> string list \<Rightarrow> bool" where
  "isSourceOrder es sources \<longleftrightarrow> distinct sources \<and> set sources = gSrc ` set es"

definition closureRows :: "string \<Rightarrow> mem_edge list \<Rightarrow> nat \<Rightarrow> string list \<Rightarrow> closure_row list" where
  "closureRows repo es maxDepth sources =
     concat (map (\<lambda>src. map (\<lambda>(dst, k, via).
       \<lparr>clRepoID = repo, clSrc = src, clDst = dst, clDepth = k, clViaRel = via\<rparr>)
       (searchFrom es maxDepth src)) sources)"

definition closureChunk :: nat where
  "closureChunk = 500"

function flushClosure :: "nat \<Rightarrow> closure_row list \<Rightarrow> memdb \<Rightarrow> memdb" where
  "flushClosure n rows d =
     (if rows = [] then d
      else flushClosure n (drop (Suc n) rows) (closureBulkInsert (take (Suc n) rows) d))"
  by pat_completeness auto
termination
  by (relation "measure (\<lambda>(n, rows, d). length rows)") auto

declare flushClosure.simps [simp del]

text \<open>The edges are read before the transaction begins; a transaction that fails leaves the table as
  it was.\<close>

definition rebuild ::
  "(mem_edge list \<Rightarrow> string list) \<Rightarrow> ctx \<Rightarrow> ctx \<Rightarrow> string \<Rightarrow> int \<Rightarrow> memdb \<Rightarrow> mem_error + memdb" where
  "rebuild rangeOrder readCtx writeCtx repo maxDepth d =
     (let m = (if maxDepth \<le> 0 then defaultMaxDepth else nat maxDepth)
      in case edgeAllForRepo readCtx repo d of Inl e \<Rightarrow> Inl e
         | Inr es \<Rightarrow>
             whenLive writeCtx (Inr (flushClosure (closureChunk - 1)
               (closureRows repo es m (rangeOrder es)) (closureDeleteForRepo repo d))))"

section \<open>Reading\<close>

definition resolveRows ::
  "ctx \<Rightarrow> closure_row list \<Rightarrow> string list \<Rightarrow> bool \<Rightarrow> memdb \<Rightarrow> mem_error + mem_node list" where
  "resolveRows c rows rels rev_dir d =
     (let kept = filter (\<lambda>r. rels = [] \<or> clViaRel r \<in> set rels) rows;
          ids = remdups (map (if rev_dir then clSrc else clDst) kept)
      in if ids = [] then Inr [] else nodeGetMany c ids d)"

definition neighbors ::
  "ctx \<Rightarrow> string \<Rightarrow> int \<Rightarrow> string list \<Rightarrow> memdb \<Rightarrow> mem_error + mem_node list" where
  "neighbors c start maxHops rels d =
     (case closureDescendants c start maxHops d of Inl e \<Rightarrow> Inl e
      | Inr rows \<Rightarrow> resolveRows c rows rels False d)"

definition impactedBy ::
  "ctx \<Rightarrow> string \<Rightarrow> int \<Rightarrow> string list \<Rightarrow> memdb \<Rightarrow> mem_error + mem_node list" where
  "impactedBy c start maxHops rels d =
     (case closureAncestors c start maxHops d of Inl e \<Rightarrow> Inl e
      | Inr rows \<Rightarrow> resolveRows c rows rels True d)"

section \<open>Walks\<close>

text \<open>\<open>walk es n a b\<close>: there is a way of n edges from a to b.\<close>

fun walk :: "mem_edge list \<Rightarrow> nat \<Rightarrow> string \<Rightarrow> string \<Rightarrow> bool" where
  "walk es 0 a b = (a = b)"
| "walk es (Suc n) a b = (\<exists>e\<in>set es. gSrc e = a \<and> walk es n (gDst e) b)"

fun walkVia :: "mem_edge list \<Rightarrow> string \<Rightarrow> nat \<Rightarrow> string \<Rightarrow> string \<Rightarrow> bool" where
  "walkVia es r 0 a b = False"
| "walkVia es r (Suc n) a b = (\<exists>e\<in>set es. gSrc e = a \<and> gRel e = r \<and> walk es n (gDst e) b)"

definition shortest :: "mem_edge list \<Rightarrow> nat \<Rightarrow> string \<Rightarrow> string \<Rightarrow> bool" where
  "shortest es n a b \<longleftrightarrow> walk es n a b \<and> (\<forall>m<n. \<not> walk es m a b)"

lemma walk_snoc: "walk es (Suc n) a b \<longleftrightarrow> (\<exists>e\<in>set es. gDst e = b \<and> walk es n a (gSrc e))"
  by (induction n arbitrary: a) (simp_all, blast+)

lemma walkVia_walk: "walkVia es r n a b \<Longrightarrow> walk es n a b"
  by (cases n) auto

lemma walkVia_snoc:
  "walkVia es r n a (gSrc e) \<Longrightarrow> e \<in> set es \<Longrightarrow> walkVia es r (Suc n) a (gDst e)"
proof (cases n)
  case (Suc m)
  assume "walkVia es r n a (gSrc e)" "e \<in> set es"
  then obtain f where "f \<in> set es" "gSrc f = a" "gRel f = r" "walk es m (gDst f) (gSrc e)"
    using Suc by auto
  moreover have "walk es (Suc m) (gDst f) (gDst e)"
    using calculation(4) \<open>e \<in> set es\<close> walk_snoc by blast
  ultimately show ?thesis using Suc by (auto simp del: walk.simps)
qed simp

section \<open>The search finds the shortest ways\<close>

text \<open>The nodes discovered so far are \<open>P @ Q\<close>: those taken from the queue and the queue.\<close>

definition searchOk ::
  "mem_edge list \<Rightarrow> nat \<Rightarrow> string \<Rightarrow> found list \<Rightarrow> found list \<Rightarrow> bool" where
  "searchOk es m s P Q \<longleftrightarrow>
     distinct (map fst (P @ Q)) \<and> sorted (map (fst \<circ> snd) (P @ Q)) \<and>
     (s, 0, []) \<in> set (P @ Q) \<and>
     (\<forall>(v, k, r)\<in>set (P @ Q). k \<le> m \<and> shortest es k s v \<and>
        (k = 0 \<and> r = [] \<or> r \<noteq> [] \<and> walkVia es r k s v)) \<and>
     (\<forall>(v, k, r)\<in>set P. k < m \<longrightarrow>
        (\<forall>e\<in>set es. gSrc e = v \<longrightarrow> (\<exists>j r'. j \<le> Suc k \<and> (gDst e, j, r') \<in> set (P @ Q)))) \<and>
     (\<forall>x\<in>set (P @ Q). \<forall>y\<in>set Q. fst (snd x) \<le> Suc (fst (snd y)))"

text \<open>What lies no farther than the head of the queue is discovered.\<close>

lemma near_is_found:
  assumes "searchOk es m s P Q" "walk es n s v" "n \<le> m" "\<forall>x\<in>set Q. n \<le> fst (snd x)"
  shows "\<exists>j r. j \<le> n \<and> (v, j, r) \<in> set (P @ Q)"
  using assms(2-4)
proof (induction n arbitrary: v)
  case 0
  then show ?case using assms(1) by (auto simp: searchOk_def)
next
  case (Suc n)
  then obtain e where e: "e \<in> set es" "gDst e = v" "walk es n s (gSrc e)"
    using walk_snoc by blast
  moreover have "n \<le> m" "\<forall>x\<in>set Q. n \<le> fst (snd x)" using Suc.prems by auto
  ultimately obtain j r where j: "j \<le> n" "(gSrc e, j, r) \<in> set (P @ Q)" using Suc.IH by blast
  have "(gSrc e, j, r) \<notin> set Q" using j(1) Suc.prems(3) by force
  then have "(gSrc e, j, r) \<in> set P" "j < m" using j Suc.prems(2) by auto
  then obtain i r' where "i \<le> Suc j" "(gDst e, i, r') \<in> set (P @ Q)"
    using assms(1) e(1) unfolding searchOk_def by (force simp del: set_append)
  then show ?case using e(2) j(1) by (meson Suc_le_mono le_trans)
qed

lemma sorted_const: "\<forall>x\<in>set xs. f x = (c::nat) \<Longrightarrow> sorted (map f xs)"
  by (induction xs) auto

lemma search_start: "searchOk es m s [] [(s, 0, [])]"
  by (auto simp: searchOk_def shortest_def)

lemma search_drop:
  assumes "searchOk es m s P ((v, k, via) # Q)" "k \<ge> m"
  shows "searchOk es m s (P @ [(v, k, via)]) Q"
  using assms by (auto simp: searchOk_def)

lemma search_grow:
  assumes ok: "searchOk es m s P ((v, k, via) # Q)" and k: "k < m" and rels: "\<forall>e\<in>set es. gRel e \<noteq> []"
    and new: "new = newHops k via (hopsFrom es v) (fst ` set (P @ (v, k, via) # Q))"
  shows "searchOk es m s (P @ [(v, k, via)]) (Q @ new)"
proof -
  let ?D = "P @ (v, k, via) # Q"
  have cur: "shortest es k s v" "k = 0 \<and> via = [] \<or> via \<noteq> [] \<and> walkVia es via k s v"
    and srt: "sorted (map (fst \<circ> snd) ?D)" and dis: "distinct (map fst ?D)"
    and span: "\<forall>x\<in>set ?D. fst (snd x) \<le> Suc k"
    using ok by (auto simp: searchOk_def)
  have head: "\<forall>x\<in>set ((v, k, via) # Q). k \<le> fst (snd x)"
    using srt by (auto simp: sorted_append)
  have dsts: "fst ` set new = gDst ` {e \<in> set es. gSrc e = v} - fst ` set ?D"
    using newHops_dsts [of k via "hopsFrom es v" "fst ` set ?D"]
    unfolding new set_map by (auto simp: hopsFrom_def image_iff)
  have depth: "fst (snd x) = Suc k" if "x \<in> set new" for x
    using that newHops_depth unfolding new by blast
  have dist: "distinct (map fst new)" unfolding new by (rule newHops_distinct)
  have fresh: "shortest es j s w \<and> r \<noteq> [] \<and> walkVia es r j s w" if "(w, j, r) \<in> set new" for w j r
  proof -
    have j: "j = Suc k" using depth [OF that] by simp
    have "(w, j, r) \<in> (\<lambda>(dst, rel). (dst, Suc k, if via = [] then rel else via)) ` set (hopsFrom es v)"
      using that newHops_via unfolding new by blast
    then obtain h where "h \<in> set (hopsFrom es v)" "w = fst h" "r = (if via = [] then snd h else via)"
      by (auto simp: split_beta)
    then obtain e where e: "e \<in> set es" "gSrc e = v" "gDst e = w"
      "r = (if via = [] then gRel e else via)"
      by (auto simp: hopsFrom_def)
    have "walkVia es r j s w"
    proof (cases "via = []")
      case True
      then have "k = 0" "v = s" using cur by (auto simp: shortest_def)
      then show ?thesis using e j True by auto
    next
      case False
      then show ?thesis using cur(2) e j walkVia_snoc [of es via k s e] by simp
    qed
    have "w \<in> fst ` set new" using that by force
    then have "w \<notin> fst ` set ?D" using dsts by blast
    have "\<not> walk es i s w" if i: "i \<le> k" for i
    proof
      assume "walk es i s w"
      moreover have "i \<le> m" "\<forall>x\<in>set ((v, k, via) # Q). i \<le> fst (snd x)" using i k head by fastforce+
      ultimately obtain j' r' where "(w, j', r') \<in> set ?D" using near_is_found [OF ok] by blast
      then show False using \<open>w \<notin> fst ` set ?D\<close> by (metis fst_conv imageI)
    qed
    moreover have "r \<noteq> []" using e rels by auto
    ultimately show ?thesis
      using \<open>walkVia es r j s w\<close> walkVia_walk [of es r j s w] j by (simp add: shortest_def less_Suc_eq_le)
  qed
  have "distinct (map fst (P @ [(v, k, via)] @ Q @ new))"
    using dis dist dsts by auto
  moreover have "sorted (map (fst \<circ> snd) (?D @ new))"
    unfolding map_append [of _ ?D] sorted_append
    using srt span depth sorted_const [of new "fst \<circ> snd" "Suc k"] by auto
  then have "sorted (map (fst \<circ> snd) (P @ [(v, k, via)] @ Q @ new))" by simp
  moreover have "\<exists>j r'. j \<le> Suc k' \<and> (gDst e, j, r') \<in> set (P @ [(v, k, via)] @ Q @ new)"
    if "(u, k', r) \<in> set (P @ [(v, k, via)])" "k' < m" "e \<in> set es" "gSrc e = u" for u k' r e
  proof (cases "(u, k', r) \<in> set P")
    case True
    then show ?thesis using ok that unfolding searchOk_def by fastforce
  next
    case False
    then have u: "u = v" "k' = k" using that by auto
    show ?thesis
    proof (cases "gDst e \<in> fst ` set ?D")
      case True
      then obtain x where "gDst e = fst x" "x \<in> set ?D" by (rule imageE)
      then show ?thesis using span u by (intro exI [of _ "fst (snd x)"] exI [of _ "snd (snd x)"]) auto
    next
      case False
      then have "gDst e \<in> fst ` set new" using dsts that u by auto
      then obtain j r' where x: "(gDst e, j, r') \<in> set new" by auto
      then show ?thesis using depth [OF x] u by auto
    qed
  qed
  moreover have "fst (snd x) \<le> Suc (fst (snd y))"
    if "x \<in> set (P @ [(v, k, via)] @ Q @ new)" "y \<in> set (Q @ new)" for x y
  proof -
    have "x \<in> set ?D \<or> x \<in> set new" using that(1) by auto
    then have "fst (snd x) \<le> Suc k" using span depth [of x] by (metis order_refl)
    moreover have "y \<in> set ((v, k, via) # Q) \<or> y \<in> set new" using that(2) by auto
    then have "k \<le> fst (snd y)" using head depth [of y] by (metis le_SucI order_refl)
    ultimately show ?thesis by simp
  qed
  moreover have "j \<le> m \<and> shortest es j s w \<and> (j = 0 \<and> r = [] \<or> r \<noteq> [] \<and> walkVia es r j s w)"
    if "(w, j, r) \<in> set (P @ [(v, k, via)] @ Q @ new)" for w j r
  proof (cases "(w, j, r) \<in> set new")
    case True
    then show ?thesis using fresh [OF True] depth [OF True] k by (simp del: walkVia.simps)
  next
    case False
    then have "(w, j, r) \<in> set ?D" using that by auto
    then show ?thesis using ok unfolding searchOk_def by blast
  qed
  moreover have "(s, 0, []) \<in> set (P @ [(v, k, via)] @ Q @ new)" using ok by (auto simp: searchOk_def)
  ultimately show ?thesis unfolding searchOk_def append_assoc by blast
qed

lemma bfs_ok:
  assumes "searchOk es m s P Q" "\<forall>e\<in>set es. gRel e \<noteq> []"
    and "visited = fst ` set (P @ Q)" "(s, 0, []) # rows = P @ Q"
  shows "searchOk es m s ((s, 0, []) # bfs es m Q visited rows) []"
  using assms
proof (induction es m Q visited rows arbitrary: P rule: bfs.induct)
  case (1 es m visited rows)
  then show ?case by simp
next
  case (2 es m v k via Q visited rows)
  show ?case
  proof (cases "k \<ge> m")
    case True
    then show ?thesis using 2(1) [OF True search_drop [OF 2(3) True]] 2(4-6) by simp
  next
    case False
    let ?new = "newHops k via (hopsFrom es v) visited"
    have "searchOk es m s (P @ [(v, k, via)]) (Q @ ?new)"
      using search_grow [OF 2(3) _ 2(4), of ?new] False 2(5) by simp
    then show ?thesis using 2(2) [OF False refl, of "P @ [(v, k, via)]"] False 2(4-6)
      by (simp add: Let_def image_Un Un_assoc)
  qed
qed

text \<open>What the search from one source finds.\<close>

lemma search_finds:
  assumes "\<forall>e\<in>set es. gRel e \<noteq> []"
  shows "distinct (map fst (searchFrom es m s))"
    and "(v, k, r) \<in> set (searchFrom es m s) \<Longrightarrow> v \<noteq> s \<and> k \<le> m \<and> shortest es k s v \<and> walkVia es r k s v"
    and "walk es n s v \<Longrightarrow> n \<le> m \<Longrightarrow> v \<noteq> s \<Longrightarrow> \<exists>k r. (v, k, r) \<in> set (searchFrom es m s)"
proof -
  have ok: "searchOk es m s ((s, 0, []) # searchFrom es m s) []"
    unfolding searchFrom_def by (rule bfs_ok [OF search_start assms]) simp_all
  show "distinct (map fst (searchFrom es m s))" using ok by (simp add: searchOk_def)
  show "v \<noteq> s \<and> k \<le> m \<and> shortest es k s v \<and> walkVia es r k s v"
    if v: "(v, k, r) \<in> set (searchFrom es m s)"
  proof -
    have "s \<notin> fst ` set (searchFrom es m s)" using ok by (simp add: searchOk_def)
    then have "v \<noteq> s" using v by (metis fst_conv imageI)
    moreover have "k \<le> m \<and> shortest es k s v \<and> (k = 0 \<and> r = [] \<or> r \<noteq> [] \<and> walkVia es r k s v)"
    proof -
      have "(v, k, r) \<in> set (((s, 0, []) # searchFrom es m s) @ [])" using v by simp
      then show ?thesis using ok unfolding searchOk_def by blast
    qed
    ultimately show ?thesis by (auto simp: shortest_def)
  qed
  show "\<exists>k r. (v, k, r) \<in> set (searchFrom es m s)" if "walk es n s v" "n \<le> m" "v \<noteq> s"
    using near_is_found [OF ok that(1,2)] that(3) by auto
qed

section \<open>The table after a rebuild\<close>

lemma insertIgnore_append: "insertIgnore (xs @ ys) t = insertIgnore ys (insertIgnore xs t)"
  by (induction xs arbitrary: t) auto

lemma insertIgnore_new:
  "distinct (map closureKey (t @ rows)) \<Longrightarrow> insertIgnore rows t = t @ rows"
  by (induction rows arbitrary: t) (auto simp: hasKey_iff)

lemma flushClosure_all: "flushClosure n rows d = closureBulkInsert rows d"
proof (induction n rows d rule: flushClosure.induct)
  case (1 n rows d)
  show ?case
  proof (cases "rows = []")
    case False
    have "closureBulkInsert (drop (Suc n) rows) (closureBulkInsert (take (Suc n) rows) d) =
        closureBulkInsert rows d"
      by (simp add: closureBulkInsert_def flip: insertIgnore_append)
    then show ?thesis using 1 False by (subst flushClosure.simps) simp
  qed (simp add: flushClosure.simps closureBulkInsert_def)
qed

lemma set_closureRows:
  "set (closureRows repo es m srcs) =
     {\<lparr>clRepoID = repo, clSrc = a, clDst = b, clDepth = k, clViaRel = r\<rparr> |a b k r.
        a \<in> set srcs \<and> (b, k, r) \<in> set (searchFrom es m a)}"
  by (force simp: closureRows_def)

lemma closureRows_pairs:
  assumes "\<forall>e\<in>set es. gRel e \<noteq> []" "distinct srcs"
  shows "distinct (map (\<lambda>r. (clSrc r, clDst r)) (closureRows repo es m srcs))"
  using assms(2)
proof (induction srcs)
  case (Cons a srcs)
  have "map (\<lambda>r. (clSrc r, clDst r)) (closureRows repo es m (a # srcs)) =
      map (\<lambda>b. (a, b)) (map fst (searchFrom es m a)) @
      map (\<lambda>r. (clSrc r, clDst r)) (closureRows repo es m srcs)"
    by (simp add: closureRows_def comp_def split_beta)
  moreover have "distinct (map (\<lambda>b. (a, b)) (map fst (searchFrom es m a)))"
    using search_finds(1) [OF assms(1)] by (subst distinct_map) (simp add: inj_on_def)
  ultimately show ?case using Cons by (auto simp: set_closureRows)
qed (simp add: closureRows_def)

definition edgesOf :: "string \<Rightarrow> memdb \<Rightarrow> mem_edge list" where
  "edgesOf repo d = filter (\<lambda>e. gRepoID e = repo) (mEdges d)"

definition depthOf :: "int \<Rightarrow> nat" where
  "depthOf maxDepth = (if maxDepth \<le> 0 then defaultMaxDepth else nat maxDepth)"

lemma rebuild_rows:
  assumes run: "rebuild rangeOrder c1 c2 repo maxDepth d = Inr d'"
    and order: "isSourceOrder (edgesOf repo d) (rangeOrder (edgesOf repo d))"
    and rels: "\<forall>e\<in>set (mEdges d). gRel e \<noteq> []" and keys: "distinct (map closureKey (mClosure d))"
  shows "d' = d\<lparr>mClosure := filter (\<lambda>r. clRepoID r \<noteq> repo) (mClosure d) @
     closureRows repo (edgesOf repo d) (depthOf maxDepth) (rangeOrder (edgesOf repo d))\<rparr>"
proof -
  let ?es = "edgesOf repo d" and ?m = "depthOf maxDepth"
  let ?rows = "closureRows repo ?es ?m (rangeOrder ?es)"
  let ?old = "deleteWhere (\<lambda>r. clRepoID r = repo) (mClosure d)"
  have "distinct (map (\<lambda>r. (clSrc r, clDst r)) ?rows)"
    using rels order by (intro closureRows_pairs) (auto simp: edgesOf_def isSourceOrder_def)
  then have "distinct (map closureKey ?rows)"
    by (auto simp: distinct_map inj_on_def closureKey_def)
  moreover have "distinct (map closureKey ?old)"
    unfolding deleteWhere_def using keys by (rule distinct_map_filter)
  moreover have "closureKey ` set ?old \<inter> closureKey ` set ?rows = {}"
    by (auto simp: closureKey_def set_closureRows)
  ultimately have "insertIgnore ?rows ?old = ?old @ ?rows" by (intro insertIgnore_new) simp
  then show ?thesis
    using run by (auto simp: rebuild_def edgeAllForRepo_def Let_def flushClosure_all
        closureBulkInsert_def closureDeleteForRepo_def edgesOf_def depthOf_def deleteWhere_def
        split: sum.splits)
qed

lemma closure_after_rebuild:
  assumes run: "rebuild rangeOrder c1 c2 repo maxDepth d = Inr d'"
    and order: "isSourceOrder (edgesOf repo d) (rangeOrder (edgesOf repo d))"
    and rels: "\<forall>e\<in>set (mEdges d). gRel e \<noteq> []" and keys: "distinct (map closureKey (mClosure d))"
  shows "d' = d\<lparr>mClosure := mClosure d'\<rparr> \<and>
     filter (\<lambda>r. clRepoID r \<noteq> repo) (mClosure d') = filter (\<lambda>r. clRepoID r \<noteq> repo) (mClosure d) \<and>
     distinct (map (\<lambda>r. (clSrc r, clDst r)) (filter (\<lambda>r. clRepoID r = repo) (mClosure d'))) \<and>
     (\<forall>a b k. (\<exists>r\<in>set (mClosure d'). clRepoID r = repo \<and> clSrc r = a \<and> clDst r = b \<and> clDepth r = k) =
        (a \<noteq> b \<and> k \<le> depthOf maxDepth \<and> shortest (edgesOf repo d) k a b)) \<and>
     (\<forall>r\<in>set (mClosure d'). clRepoID r = repo \<longrightarrow>
        walkVia (edgesOf repo d) (clViaRel r) (clDepth r) (clSrc r) (clDst r))"
proof -
  let ?es = "edgesOf repo d" and ?m = "depthOf maxDepth"
  let ?rows = "closureRows repo ?es ?m (rangeOrder ?es)"
  have d': "d' = d\<lparr>mClosure := filter (\<lambda>r. clRepoID r \<noteq> repo) (mClosure d) @ ?rows\<rparr>"
    using rebuild_rows [OF assms] .
  have r: "\<forall>e\<in>set ?es. gRel e \<noteq> []" using rels by (auto simp: edgesOf_def)
  note finds = search_finds [OF r]
  have srcs: "set (rangeOrder ?es) = gSrc ` set ?es" "distinct (rangeOrder ?es)"
    using order by (simp_all add: isSourceOrder_def)
  have all: "\<forall>x\<in>set ?rows. clRepoID x = repo" by (auto simp: set_closureRows)
  then have split: "filter (\<lambda>x. clRepoID x = repo) (mClosure d') = ?rows"
    "filter (\<lambda>x. clRepoID x \<noteq> repo) (mClosure d') = filter (\<lambda>x. clRepoID x \<noteq> repo) (mClosure d)"
    by (simp_all add: d' filter_empty_conv filter_id_conv)
  have row: "x \<in> set ?rows \<longleftrightarrow> x \<in> set (mClosure d') \<and> clRepoID x = repo" for x
    using split(1) by (metis (mono_tags) mem_Collect_eq set_filter)
  have one: "\<exists>x\<in>set ?rows. clSrc x = a \<and> clDst x = b \<and> clDepth x = k"
    if ab: "a \<noteq> b" "k \<le> ?m" "shortest ?es k a b" for a b k
  proof -
    have w: "walk ?es k a b" using ab(3) by (simp add: shortest_def)
    obtain j v where f: "(b, j, v) \<in> set (searchFrom ?es ?m a)" using finds(3) [OF w ab(2)] ab(1) by auto
    then have "shortest ?es j a b" using finds(2) by blast
    then have "j = k" using ab(3) unfolding shortest_def by (metis linorder_neqE_nat)
    moreover have "a \<in> gSrc ` set ?es" using w ab(1) by (cases k) auto
    ultimately show ?thesis using f srcs(1)
      by (intro bexI [of _ "\<lparr>clRepoID = repo, clSrc = a, clDst = b, clDepth = k, clViaRel = v\<rparr>"])
        (auto simp: set_closureRows)
  qed
  have pairs: "(\<exists>x\<in>set (mClosure d'). clRepoID x = repo \<and> clSrc x = a \<and> clDst x = b \<and> clDepth x = k) =
      (a \<noteq> b \<and> k \<le> ?m \<and> shortest ?es k a b)" for a b k
  proof
    assume "\<exists>x\<in>set (mClosure d'). clRepoID x = repo \<and> clSrc x = a \<and> clDst x = b \<and> clDepth x = k"
    then obtain x where "x \<in> set ?rows" "clSrc x = a" "clDst x = b" "clDepth x = k" using row by blast
    then obtain v where "(b, k, v) \<in> set (searchFrom ?es ?m a)" by (auto simp: set_closureRows)
    then show "a \<noteq> b \<and> k \<le> ?m \<and> shortest ?es k a b" using finds(2) by blast
  next
    assume "a \<noteq> b \<and> k \<le> ?m \<and> shortest ?es k a b"
    then show "\<exists>x\<in>set (mClosure d'). clRepoID x = repo \<and> clSrc x = a \<and> clDst x = b \<and> clDepth x = k"
      using one row by blast
  qed
  have vias: "walkVia ?es (clViaRel x) (clDepth x) (clSrc x) (clDst x)"
    if "x \<in> set (mClosure d')" "clRepoID x = repo" for x
  proof -
    have "x \<in> set ?rows" using that row by blast
    then obtain a b k v where "x = \<lparr>clRepoID = repo, clSrc = a, clDst = b, clDepth = k, clViaRel = v\<rparr>"
      "(b, k, v) \<in> set (searchFrom ?es ?m a)" by (auto simp: set_closureRows)
    then show ?thesis using finds(2) by simp
  qed
  have "d' = d\<lparr>mClosure := mClosure d'\<rparr>" by (simp add: d')
  moreover have "distinct (map (\<lambda>r. (clSrc r, clDst r)) (filter (\<lambda>r. clRepoID r = repo) (mClosure d')))"
    unfolding split(1) by (rule closureRows_pairs [OF r srcs(2)])
  ultimately show ?thesis using split(2) pairs vias by blast
qed

lemma closure_lookup:
  assumes "rebuild rangeOrder c1 c2 repo maxDepth d = Inr d'"
    and "isSourceOrder (edgesOf repo d) (rangeOrder (edgesOf repo d))"
    and "\<forall>e\<in>set (mEdges d). gRel e \<noteq> []" and "distinct (map closureKey (mClosure d))"
  shows "(\<exists>r\<in>set (mClosure d'). clRepoID r = repo \<and> clSrc r = a \<and> clDst r = b \<and> clDepth r = k) =
     (a \<noteq> b \<and> k \<le> depthOf maxDepth \<and> shortest (edgesOf repo d) k a b)"
  using closure_after_rebuild [OF assms] by blast

text \<open>C15 (the closure holds the shortest ways). A rebuild replaces the closure rows of one repository
  and touches nothing else. Two different nodes have a row exactly when a way of at most the maximal
  number of edges leads from the one to the other; there is one row for them, its depth is the length
  of a shortest way, and its relation is that of the first edge of such a way. Cycles and the order in
  which the sources are visited do not matter.\<close>

theorem closure_holds_shortest_ways:
  assumes run: "rebuild rangeOrder c1 c2 repo maxDepth d = Inr d'"
    and order: "isSourceOrder (edgesOf repo d) (rangeOrder (edgesOf repo d))"
    and rels: "\<forall>e\<in>set (mEdges d). gRel e \<noteq> []" and keys: "distinct (map closureKey (mClosure d))"
  shows "d' = d\<lparr>mClosure := mClosure d'\<rparr> \<and>
     filter (\<lambda>r. clRepoID r \<noteq> repo) (mClosure d') = filter (\<lambda>r. clRepoID r \<noteq> repo) (mClosure d) \<and>
     distinct (map (\<lambda>r. (clSrc r, clDst r)) (filter (\<lambda>r. clRepoID r = repo) (mClosure d'))) \<and>
     (\<forall>a b k. (\<exists>r\<in>set (mClosure d'). clRepoID r = repo \<and> clSrc r = a \<and> clDst r = b \<and> clDepth r = k) =
        (a \<noteq> b \<and> k \<le> depthOf maxDepth \<and> shortest (edgesOf repo d) k a b)) \<and>
     (\<forall>r\<in>set (mClosure d'). clRepoID r = repo \<longrightarrow>
        walkVia (edgesOf repo d) (clViaRel r) (clDepth r) (clSrc r) (clDst r))"
  by (rule closure_after_rebuild [OF assms])

section \<open>Neighbours\<close>

definition hopsOf :: "int \<Rightarrow> nat" where
  "hopsOf maxHops = nat (if maxHops \<le> 0 then 3 else maxHops)"

lemma shortest_exists:
  assumes "walk es n a b"
  shows "\<exists>k\<le>n. shortest es k a b"
proof -
  let ?k = "LEAST k. walk es k a b"
  have "walk es ?k a b" "?k \<le> n" using assms by (auto intro: LeastI Least_le)
  moreover have "\<not> walk es j a b" if "j < ?k" for j using that by (rule not_less_Least)
  ultimately show ?thesis unfolding shortest_def by blast
qed

lemma sort_empty: "sort_key f xs = [] \<longleftrightarrow> xs = []"
  by (metis length_0_conv length_sort)

text \<open>Neighbours are what can be reached. After a rebuild the neighbours of a node are exactly the
  existing other nodes that a way of at most the asked number of edges leads to, as long as that
  number does not exceed the depth of the rebuild.\<close>

theorem neighbors_are_reachable:
  assumes run: "rebuild rangeOrder c1 c2 repo maxDepth d = Inr d'"
    and order: "isSourceOrder (edgesOf repo d) (rangeOrder (edgesOf repo d))"
    and rels: "\<forall>e\<in>set (mEdges d). gRel e \<noteq> []" and keys: "distinct (map closureKey (mClosure d))"
    and own: "\<forall>r\<in>set (mClosure d). clSrc r = start \<longrightarrow> clRepoID r = repo"
    and hops: "hopsOf maxHops \<le> depthOf maxDepth"
  shows "\<exists>ns. neighbors Live start maxHops [] d' = Inr ns \<and>
     set ns = {n \<in> set (mNodes d). nID n \<noteq> start \<and>
       (\<exists>k\<le>hopsOf maxHops. walk (edgesOf repo d) k start (nID n))}"
proof -
  let ?es = "edgesOf repo d"
  have d': "d' = d\<lparr>mClosure := filter (\<lambda>r. clRepoID r \<noteq> repo) (mClosure d) @
      closureRows repo ?es (depthOf maxDepth) (rangeOrder ?es)\<rparr>"
    using rebuild_rows [OF run order rels keys] .
  have pairs: "(\<exists>r\<in>set (mClosure d'). clRepoID r = repo \<and> clSrc r = a \<and> clDst r = b \<and> clDepth r = k) =
      (a \<noteq> b \<and> k \<le> depthOf maxDepth \<and> shortest ?es k a b)" for a b k
    using closure_lookup [OF run order rels keys] .
  have mine: "clRepoID r = repo" if "r \<in> set (mClosure d')" "clSrc r = start" for r
    using that own by (auto simp: d' set_closureRows)
  let ?rows = "filter (\<lambda>r. clSrc r = start \<and> int (clDepth r) \<le> int (hopsOf maxHops)) (mClosure d')"
  have reached: "b \<in> clDst ` set ?rows \<longleftrightarrow> b \<noteq> start \<and> (\<exists>k\<le>hopsOf maxHops. walk ?es k start b)" for b
  proof
    assume "b \<in> clDst ` set ?rows"
    then obtain r where r: "r \<in> set (mClosure d')" "clSrc r = start" "clDepth r \<le> hopsOf maxHops" "clDst r = b"
      by auto
    then have "start \<noteq> b \<and> clDepth r \<le> depthOf maxDepth \<and> shortest ?es (clDepth r) start b"
      using pairs [of start b "clDepth r", THEN iffD1] mine by blast
    then show "b \<noteq> start \<and> (\<exists>k\<le>hopsOf maxHops. walk ?es k start b)"
      using r(3) unfolding shortest_def by blast
  next
    assume b: "b \<noteq> start \<and> (\<exists>k\<le>hopsOf maxHops. walk ?es k start b)"
    then obtain k where k: "k \<le> hopsOf maxHops" "shortest ?es k start b"
      using shortest_exists le_trans by blast
    then obtain r where "r \<in> set (mClosure d')" "clSrc r = start" "clDst r = b" "clDepth r = k"
      using pairs [of start b k] b hops by auto
    then show "b \<in> clDst ` set ?rows" using k(1) by force
  qed
  have "mNodes d' = mNodes d" by (simp add: d')
  moreover have "closureDescendants Live start maxHops d' = Inr (sort_key clDepth ?rows)"
    by (auto simp: closureDescendants_def hopsOf_def Let_def)
  ultimately have "neighbors Live start maxHops [] d' = Inr (filter (\<lambda>n. nID n \<in> clDst ` set ?rows) (mNodes d))"
    using sort_empty [of clDepth ?rows]
    by (cases "?rows = []") (simp_all add: neighbors_def resolveRows_def nodeGetMany_def Let_def)
  then show ?thesis using reached by auto
qed

section \<open>A small graph\<close>

definition sampleNode :: "string \<Rightarrow> mem_node" where
  "sampleNode i = \<lparr>nID = i, nRepoID = ''r1'', nKind = ''Concept'', nLabel = i, nContentMD = '''',
     nAttrs = [], nSourceKind = ''manual'', nSourceTaskID = '''', nSourceSessionID = '''',
     nConfidence = 1, nEnabled = True, nPinned = False, nCreatedAt = ''t0'', nUpdatedAt = ''t0''\<rparr>"

definition sampleEdge :: "string \<Rightarrow> string \<Rightarrow> string \<Rightarrow> string \<Rightarrow> mem_edge" where
  "sampleEdge i a b r = \<lparr>gID = i, gRepoID = ''r1'', gSrc = a, gDst = b, gRel = r, gAttrs = [],
     gCreatedAt = ''t0''\<rparr>"

text \<open>A cycle of three nodes with two relations between the first two.\<close>

definition graphDB :: memdb where
  "graphDB = \<lparr>mRepos = [''r1''], mNodes = map sampleNode [''a'', ''b'', ''c''],
     mEdges = [sampleEdge ''e1'' ''a'' ''b'' ''calls'', sampleEdge ''e2'' ''a'' ''b'' ''imports'',
       sampleEdge ''e3'' ''b'' ''c'' ''calls'', sampleEdge ''e4'' ''c'' ''a'' ''calls''],
     mClosure = [], mPad = [], mSettings = []\<rparr>"

definition sampleSources :: "mem_edge list \<Rightarrow> string list" where
  "sampleSources es = remdups (map gSrc es)"

lemma sampleSources_order: "isSourceOrder es (sampleSources es)"
  by (simp add: isSourceOrder_def sampleSources_def)

definition rebuiltDB :: memdb where
  "rebuiltDB = (case rebuild sampleSources Live Live ''r1'' 0 graphDB of Inr d \<Rightarrow> d)"

lemma rebuilt: "rebuild sampleSources Live Live ''r1'' 0 graphDB = Inr rebuiltDB"
  by (simp add: rebuiltDB_def rebuild_def edgeAllForRepo_def Let_def)

lemma graphDB_rels: "\<forall>e\<in>set (mEdges graphDB). gRel e \<noteq> []" "distinct (map closureKey (mClosure graphDB))"
  by (simp_all add: graphDB_def sampleEdge_def)

theorem closure_holds_shortest_ways_witness:
  "\<exists>r\<in>set (mClosure rebuiltDB). clRepoID r = ''r1'' \<and> clSrc r = ''a'' \<and> clDst r = ''c'' \<and> clDepth r = 2"
proof -
  have "shortest (edgesOf ''r1'' graphDB) 2 ''a'' ''c''"
    by (auto simp: shortest_def edgesOf_def graphDB_def sampleEdge_def numeral_2_eq_2 less_Suc_eq)
  then show ?thesis
    using closure_holds_shortest_ways [OF rebuilt sampleSources_order graphDB_rels]
    by (simp add: depthOf_def defaultMaxDepth_def)
qed

theorem neighbors_are_reachable_witness:
  "\<exists>ns. neighbors Live ''a'' 1 [] rebuiltDB = Inr ns \<and> sampleNode ''b'' \<in> set ns \<and> sampleNode ''c'' \<notin> set ns"
proof -
  have "\<forall>r\<in>set (mClosure graphDB). clSrc r = ''a'' \<longrightarrow> clRepoID r = ''r1''" by (simp add: graphDB_def)
  moreover have "hopsOf 1 \<le> depthOf 0" by (simp add: hopsOf_def depthOf_def defaultMaxDepth_def)
  ultimately obtain ns where "neighbors Live ''a'' 1 [] rebuiltDB = Inr ns"
    "set ns = {n \<in> set (mNodes graphDB). nID n \<noteq> ''a'' \<and>
       (\<exists>k\<le>hopsOf 1. walk (edgesOf ''r1'' graphDB) k ''a'' (nID n))}"
    using neighbors_are_reachable [OF rebuilt sampleSources_order graphDB_rels] by blast
  moreover have "walk (edgesOf ''r1'' graphDB) 1 ''a'' ''b''" "\<not> walk (edgesOf ''r1'' graphDB) 1 ''a'' ''c''"
    "\<not> walk (edgesOf ''r1'' graphDB) 0 ''a'' ''c''"
    by (simp_all add: edgesOf_def graphDB_def sampleEdge_def One_nat_def)
  moreover have "sampleNode ''b'' \<in> set (mNodes graphDB)" "hopsOf 1 = 1"
    "nID (sampleNode i) = i" for i
    by (simp_all add: graphDB_def hopsOf_def sampleNode_def)
  ultimately show ?thesis by (auto simp: le_Suc_eq simp del: walk.simps) (metis neq0_conv)
qed

text \<open>Of two edges between the same nodes only the first leaves a trace, so the neighbours by the
  relation of the second are not found, although an edge leads to them.\<close>

lemma second_relation_is_lost:
  "neighbors Live ''a'' 1 [''imports''] rebuiltDB = Inr [] \<and>
   (\<exists>e\<in>set (mEdges graphDB). gSrc e = ''a'' \<and> gDst e = ''b'' \<and> gRel e = ''imports'')"
  by (simp add: rebuiltDB_def rebuild_def edgeAllForRepo_def Let_def flushClosure_all graphDB_def
      sampleSources_def sampleEdge_def closureRows_def searchFrom_def hopsFrom_def closureBulkInsert_def
      closureDeleteForRepo_def deleteWhere_def hasKey_def closureKey_def defaultMaxDepth_def
      neighbors_def closureDescendants_def resolveRows_def)

end
