(* ===== verification/Trust_Gate.thy ===== *)
theory Trust_Gate
  imports Memory_Graph "HOL-Library.AList"
begin

text \<open>
  \<open>internal/ctxmem/promotion\<close> and the operations of \<open>internal/ctxmem/svc\<close> that write:
  proposals wait in the scratchpad until the user (or, when the repository opted in, their
  confidence) promotes them to nodes. The statements of one operation are numbered: \<open>cs k\<close> is the
  context as the k-th of them sees it. Identifiers and the clock are arguments; \<open>change\<close> is an event
  for the subscribers of the context view.
\<close>

section \<open>The gate\<close>

definition promotedNode :: "string \<Rightarrow> pad_entry \<Rightarrow> mem_node" where
  "promotedNode newID e =
     \<lparr>nID = newID, nRepoID = pRepoID e, nKind = pKind e, nLabel = pLabel e,
      nContentMD = pContentMD e, nAttrs = AList.update ''scratchpad_id'' (pID e) (pAttrs e),
      nSourceKind = pSourceKind e, nSourceTaskID = '''', nSourceSessionID = '''',
      nConfidence = pConfidence e, nEnabled = True, nPinned = False, nCreatedAt = '''',
      nUpdatedAt = ''''\<rparr>"

definition promote ::
  "string \<Rightarrow> string \<Rightarrow> (nat \<Rightarrow> ctx) \<Rightarrow> string \<Rightarrow> memdb \<Rightarrow> (mem_error + mem_node) \<times> memdb" where
  "promote now newID cs i d =
     (case padGet (cs 0) i d of
        Inl x \<Rightarrow> (Inl x, d)
      | Inr e \<Rightarrow>
          if pStatus e = Some ScratchpadPromoted then
            (if pPromotedNodeID e = [] then (Inl (MemNoNode i), d)
             else (nodeGet (cs 1) (pPromotedNodeID e) d, d))
          else
            (case nodeFindByLabel (cs 1) (pRepoID e) (pKind e) (pLabel e) d of
               Inr n \<Rightarrow>
                 (case padMarkPromoted now (cs 2) i (nID n) d of
                    Inl x \<Rightarrow> (Inl x, d) | Inr d' \<Rightarrow> (Inr n, d'))
             | Inl MemNotFound \<Rightarrow>
                 (case nodeCreate now (cs 2) (promotedNode newID e) d of
                    Inl x \<Rightarrow> (Inl x, d)
                  | Inr d1 \<Rightarrow>
                      (case padMarkPromoted now (cs 3) i newID d1 of
                         Inl x \<Rightarrow> (Inl x, d1) | Inr d2 \<Rightarrow> (Inr (promotedNode newID e), d2)))
             | Inl x \<Rightarrow> (Inl x, d)))"

definition rejectEntry :: "string \<Rightarrow> ctx \<Rightarrow> string \<Rightarrow> string \<Rightarrow> memdb \<Rightarrow> mem_error + memdb" where
  "rejectEntry now c i reason d = padMarkRejected now c i reason d"

definition editAndPromote ::
  "string \<Rightarrow> string \<Rightarrow> (nat \<Rightarrow> ctx) \<Rightarrow> string \<Rightarrow> string \<Rightarrow> string \<Rightarrow> string \<Rightarrow>
     (string \<times> string) list \<Rightarrow> memdb \<Rightarrow> (mem_error + mem_node) \<times> memdb" where
  "editAndPromote now newID cs i kind label content attrs d =
     (case padApplyEdits now (cs 0) i kind label content attrs d of
        Inl x \<Rightarrow> (Inl x, d)
      | Inr d' \<Rightarrow> promote now newID (\<lambda>k. cs (Suc k)) i d')"

definition autoPromoteIfEligible ::
  "string \<Rightarrow> string \<Rightarrow> (nat \<Rightarrow> ctx) \<Rightarrow> string \<Rightarrow> memdb \<Rightarrow>
     (mem_error + mem_node option) \<times> memdb" where
  "autoPromoteIfEligible now newID cs i d =
     (case padGet (cs 0) i d of
        Inl x \<Rightarrow> (Inl x, d)
      | Inr e \<Rightarrow>
          (case settingsGet now (cs 1) (pRepoID e) d of
             (Inl x, d1) \<Rightarrow> (Inl x, d1)
           | (Inr s, d1) \<Rightarrow>
               if \<not> mAutoPromote s \<or> pConfidence e < mAutoPromoteThreshold s then (Inr None, d1)
               else (case promote now newID (\<lambda>k. cs (k + 2)) i d1 of
                       (Inl x, d2) \<Rightarrow> (Inl x, d2) | (Inr n, d2) \<Rightarrow> (Inr (Some n), d2))))"

section \<open>The service\<close>

datatype change = Change string string string string

definition svcPromoteEntry ::
  "string \<Rightarrow> string \<Rightarrow> (nat \<Rightarrow> ctx) \<Rightarrow> string \<Rightarrow> memdb \<Rightarrow>
     (mem_error + mem_node) \<times> memdb \<times> change list" where
  "svcPromoteEntry now newID cs i d =
     (case promote now newID cs i d of
        (Inl x, d') \<Rightarrow> (Inl x, d', [])
      | (Inr n, d') \<Rightarrow> (Inr n, d',
          [Change ''scratchpad'' ''promote'' i (nRepoID n), Change ''node'' ''create'' (nID n) (nRepoID n)]))"

definition svcRejectEntry ::
  "string \<Rightarrow> (nat \<Rightarrow> ctx) \<Rightarrow> string \<Rightarrow> string \<Rightarrow> memdb \<Rightarrow> (mem_error + unit) \<times> memdb \<times> change list" where
  "svcRejectEntry now cs i reason d =
     (case padGet (cs 0) i d of
        Inl x \<Rightarrow> (Inl x, d, [])
      | Inr e \<Rightarrow>
          (case rejectEntry now (cs 1) i reason d of
             Inl x \<Rightarrow> (Inl x, d, [])
           | Inr d' \<Rightarrow> (Inr (), d', [Change ''scratchpad'' ''reject'' i (pRepoID e)])))"

definition svcEditAndPromote ::
  "string \<Rightarrow> string \<Rightarrow> (nat \<Rightarrow> ctx) \<Rightarrow> string \<Rightarrow> string \<Rightarrow> string \<Rightarrow> string \<Rightarrow>
     (string \<times> string) list \<Rightarrow> memdb \<Rightarrow> (mem_error + mem_node) \<times> memdb \<times> change list" where
  "svcEditAndPromote now newID cs i kind label content attrs d =
     (case editAndPromote now newID cs i kind label content attrs d of
        (Inl x, d') \<Rightarrow> (Inl x, d', [])
      | (Inr n, d') \<Rightarrow> (Inr n, d',
          [Change ''scratchpad'' ''promote'' i (nRepoID n), Change ''node'' ''create'' (nID n) (nRepoID n)]))"

definition svcRebuildClosureNow ::
  "(mem_edge list \<Rightarrow> string list) \<Rightarrow> (nat \<Rightarrow> ctx) \<Rightarrow> string \<Rightarrow> memdb \<Rightarrow> mem_error + memdb" where
  "svcRebuildClosureNow rangeOrder cs repo d =
     (if repo = [] then Inl MemInvalidArg else rebuild rangeOrder (cs 0) (cs 1) repo 0 d)"

definition clampDays :: "int \<Rightarrow> int" where
  "clampDays days = (let n = (if days \<le> 0 then 7 else days) in if n > 30 then 30 else n)"

text \<open>\<open>after n\<close> is the text of the instant n days from now.\<close>

definition svcSnooze ::
  "(int \<Rightarrow> string) \<Rightarrow> string \<Rightarrow> (nat \<Rightarrow> ctx) \<Rightarrow> string \<Rightarrow> int \<Rightarrow> memdb \<Rightarrow>
     (mem_error + unit) \<times> memdb \<times> change list" where
  "svcSnooze after now cs i days d =
     (let until = after (clampDays days)
      in case padGet (cs 0) i d of
           Inl x \<Rightarrow> (Inl x, d, [])
         | Inr e \<Rightarrow>
             (case padSnooze now (cs 1) i until d of
                Inl x \<Rightarrow> (Inl x, d, [])
              | Inr d' \<Rightarrow> (Inr (), d', [Change ''scratchpad'' ''snooze'' i (pRepoID e)])))"

definition svcCreateScratchpadEntry ::
  "string \<Rightarrow> string \<Rightarrow> string \<Rightarrow> (nat \<Rightarrow> ctx) \<Rightarrow> pad_entry \<Rightarrow> memdb \<Rightarrow>
     (mem_error + pad_entry) \<times> memdb \<times> change list" where
  "svcCreateScratchpadEntry now entryID newID cs e0 d =
     (let e = (if pID e0 = [] then e0\<lparr>pID := entryID\<rparr> else e0)
      in case padCreate now (cs 0) e d of
           Inl x \<Rightarrow> (Inl x, d, [])
         | Inr d1 \<Rightarrow>
             (case autoPromoteIfEligible now newID (\<lambda>k. cs (k + 1)) (pID e) d1 of
                (r, d2) \<Rightarrow>
                  (padGet (cs 7) (pID e) d2, d2,
                   Change ''scratchpad'' ''create'' (pID e) (pRepoID e) #
                   (case r of Inr (Some n) \<Rightarrow> [Change ''scratchpad'' ''promote'' (pID e) (pRepoID e)]
                    | _ \<Rightarrow> []))))"

definition svcCreateNode ::
  "string \<Rightarrow> string \<Rightarrow> ctx \<Rightarrow> mem_node \<Rightarrow> memdb \<Rightarrow> (mem_error + mem_node) \<times> memdb \<times> change list" where
  "svcCreateNode now newID c n0 d =
     (let n = n0\<lparr>nID := (if nID n0 = [] then newID else nID n0),
                nSourceKind := (if nSourceKind n0 = [] then ''manual'' else nSourceKind n0),
                nConfidence := (if nConfidence n0 = 0 then 1 else nConfidence n0), nEnabled := True\<rparr>
      in case nodeCreate now c n d of
           Inl x \<Rightarrow> (Inl x, d, [])
         | Inr d' \<Rightarrow> (Inr n, d', [Change ''node'' ''create'' (nID n) (nRepoID n)]))"

text \<open>A nil map of attributes leaves them; the two flags are tri-state.\<close>

definition svcUpdateNode ::
  "string \<Rightarrow> (nat \<Rightarrow> ctx) \<Rightarrow> mem_node \<Rightarrow> (string \<times> string) list option \<Rightarrow> int \<Rightarrow> int \<Rightarrow> memdb \<Rightarrow>
     (mem_error + mem_node) \<times> memdb \<times> change list" where
  "svcUpdateNode now cs p attrs enabledOp pinnedOp d =
     (case nodeGet (cs 0) (nID p) d of
        Inl x \<Rightarrow> (Inl x, d, [])
      | Inr r \<Rightarrow>
          (let n = r\<lparr>nLabel := (if nLabel p = [] then nLabel r else nLabel p),
                     nContentMD := (if nContentMD p = [] then nContentMD r else nContentMD p),
                     nAttrs := (case attrs of None \<Rightarrow> nAttrs r | Some a \<Rightarrow> a),
                     nConfidence := (if nConfidence p > 0 then nConfidence p else nConfidence r),
                     nEnabled := (if enabledOp = 1 then True else if enabledOp = 2 then False else nEnabled r),
                     nPinned := (if pinnedOp = 1 then True else if pinnedOp = 2 then False else nPinned r)\<rparr>
           in case nodeUpdate now (cs 1) n d of
                Inl x \<Rightarrow> (Inl x, d, [])
              | Inr d' \<Rightarrow> (Inr n, d', [Change ''node'' ''update'' (nID n) (nRepoID n)])))"

definition svcDeleteNode ::
  "(nat \<Rightarrow> ctx) \<Rightarrow> string \<Rightarrow> memdb \<Rightarrow> (mem_error + unit) \<times> memdb \<times> change list" where
  "svcDeleteNode cs i d =
     (case nodeGet (cs 0) i d of
        Inl x \<Rightarrow> (Inl x, d, [])
      | Inr n \<Rightarrow>
          (case nodeDelete (cs 1) i d of
             Inl x \<Rightarrow> (Inl x, d, [])
           | Inr d' \<Rightarrow> (Inr (), d', [Change ''node'' ''delete'' i (nRepoID n)])))"

definition svcPinNode ::
  "string \<Rightarrow> (nat \<Rightarrow> ctx) \<Rightarrow> string \<Rightarrow> bool \<Rightarrow> memdb \<Rightarrow> (mem_error + unit) \<times> memdb \<times> change list" where
  "svcPinNode now cs i b d =
     (case nodeSetPinned now (cs 0) i b d of
        Inl x \<Rightarrow> (Inl x, d, [])
      | Inr d' \<Rightarrow>
          (Inr (), d', (case nodeGet (cs 1) i d' of
             Inl x \<Rightarrow> [] | Inr n \<Rightarrow> [Change ''node'' ''update'' i (nRepoID n)])))"

text \<open>A rebuild that fails is only logged.\<close>

definition svcCreateEdge ::
  "(mem_edge list \<Rightarrow> string list) \<Rightarrow> string \<Rightarrow> string \<Rightarrow> (nat \<Rightarrow> ctx) \<Rightarrow> mem_edge \<Rightarrow> memdb \<Rightarrow>
     (mem_error + mem_edge) \<times> memdb \<times> change list" where
  "svcCreateEdge rangeOrder now newID cs e0 d =
     (let e = (if gID e0 = [] then e0\<lparr>gID := newID\<rparr> else e0)
      in case edgeCreate now (cs 0) e d of
           Inl x \<Rightarrow> (Inl x, d, [])
         | Inr d1 \<Rightarrow>
             (Inr e,
              (case rebuild rangeOrder (cs 1) (cs 2) (gRepoID e) (int defaultMaxDepth) d1 of
                 Inl x \<Rightarrow> d1 | Inr d2 \<Rightarrow> d2),
              [Change ''edge'' ''create'' (gID e) (gRepoID e)]))"

definition svcDeleteEdge ::
  "(mem_edge list \<Rightarrow> string list) \<Rightarrow> (nat \<Rightarrow> ctx) \<Rightarrow> string \<Rightarrow> memdb \<Rightarrow>
     (mem_error + unit) \<times> memdb \<times> change list" where
  "svcDeleteEdge rangeOrder cs i d =
     (case edgeGetByID (cs 0) i d of
        Inl x \<Rightarrow> (Inl x, d, [])
      | Inr e \<Rightarrow>
          (case edgeDelete (cs 1) i d of
             Inl x \<Rightarrow> (Inl x, d, [])
           | Inr d1 \<Rightarrow>
               (Inr (),
                (case rebuild rangeOrder (cs 2) (cs 3) (gRepoID e) (int defaultMaxDepth) d1 of
                   Inl x \<Rightarrow> d1 | Inr d2 \<Rightarrow> d2),
                [Change ''edge'' ''delete'' i (gRepoID e)])))"

section \<open>What a promotion leaves behind\<close>

text \<open>The enabled nodes a proposal is a duplicate of.\<close>

definition twins :: "pad_entry \<Rightarrow> memdb \<Rightarrow> mem_node list" where
  "twins e d = filter (\<lambda>n. nRepoID n = pRepoID e \<and> nKind n = pKind e \<and> nLabel n = pLabel e \<and>
     nEnabled n) (mNodes d)"

definition padOk :: "pad_entry \<Rightarrow> memdb \<Rightarrow> bool" where
  "padOk e d \<longleftrightarrow> pID e \<noteq> [] \<and> pRepoID e \<noteq> [] \<and> pKind e \<noteq> [] \<and> pLabel e \<noteq> [] \<and> pSourceKind e \<noteq> [] \<and>
     pRepoID e \<in> set (mRepos d)"

lemma descBy_set [simp]: "set (descBy key rs) = set rs"
  by (simp add: descBy_def)

lemma descBy_empty [simp]: "descBy key rs = [] \<longleftrightarrow> rs = []"
  using sort_empty [of key "rev rs"] by (simp add: descBy_def)

lemma descBy_Nil [simp]: "descBy key [] = []"
  by (simp add: descBy_def)

lemma find_twin:
  assumes "padOk e d"
  shows "nodeFindByLabel Live (pRepoID e) (pKind e) (pLabel e) d =
     (case descBy nUpdatedAt (twins e d) of [] \<Rightarrow> Inl MemNotFound | n # ns \<Rightarrow> Inr n)"
  using assms by (auto simp: nodeFindByLabel_def padOk_def twins_def)

lemma create_promoted:
  assumes "padOk e d" "newID \<noteq> []" "newID \<notin> nID ` set (mNodes d)"
  shows "nodeCreate now Live (promotedNode newID e) d =
     Inr (d\<lparr>mNodes := mNodes d @ [nodeRow now (promotedNode newID e)]\<rparr>)"
  using assms by (auto simp: nodeCreate_def promotedNode_def padOk_def nodeInsert_def nodeRow_def hasKey_iff)

lemma mark_promoted:
  assumes "distinct (map pID (mPad d))" "lookupBy pID i (mPad d) = Some e"
  shows "padMarkPromoted now Live i node d =
     (if pStatus e \<in> {Some ScratchpadPending, Some ScratchpadSnoozed}
      then Inr (d\<lparr>mPad := updateWhere (\<lambda>x. pID x = i)
        (\<lambda>x. x\<lparr>pStatus := Some ScratchpadPromoted, pPromotedNodeID := node, pUpdatedAt := now\<rparr>) (mPad d)\<rparr>)
      else Inl MemNotFound)"
proof -
  have "countWhere (\<lambda>x. pID x = i \<and> pStatus x \<in> {Some ScratchpadPending, Some ScratchpadSnoozed}) (mPad d) =
      (if pStatus e \<in> {Some ScratchpadPending, Some ScratchpadSnoozed} then 1 else 0)"
    using countWhere_key [OF assms(1)] assms(2) by simp
  moreover have "(pID x = i \<and> pStatus x \<in> {Some ScratchpadPending, Some ScratchpadSnoozed}) = (pID x = i)"
    if "x \<in> set (mPad d)" "pStatus e \<in> {Some ScratchpadPending, Some ScratchpadSnoozed}" for x
    using lookupBy_unique [OF assms(1) that(1)] assms(2) that(2) by auto
  ultimately show ?thesis by (auto simp: padMarkPromoted_def padUpdate_def updateWhere_def)
qed

text \<open>C16 (what a promotion leaves behind). Promoting a waiting proposal marks it as promoted and leaves
  one enabled node for it: the newest equal node of the repository if there is one, else a new node
  with the proposal's content that refers back to it. Nothing else changes, and promoting it again
  returns that node and changes nothing. Promoting a rejected proposal reports that it was not found,
  but unless an equal node exists the rejected content is in the memory as an enabled node all the
  same.\<close>

theorem promotion_outcome:
  assumes live: "\<And>k. cs k = Live" and keys: "distinct (map pID (mPad d))" "[] \<notin> nID ` set (mNodes d)"
    and e: "lookupBy pID i (mPad d) = Some e" "padOk e d"
    and fresh: "newID \<noteq> []" "newID \<notin> nID ` set (mNodes d)"
    and run: "promote now newID cs i d = (r, d')" and st: "pStatus e \<noteq> Some ScratchpadPromoted"
  shows "(if twins e d = [] then mNodes d' = mNodes d @ [nodeRow now (promotedNode newID e)]
          else mNodes d' = mNodes d) \<and>
     (if pStatus e \<in> {Some ScratchpadPending, Some ScratchpadSnoozed} then
        (\<exists>n. r = Inr n \<and> (if twins e d = [] then n = promotedNode newID e else n \<in> set (twins e d)) \<and>
           d' = d\<lparr>mNodes := mNodes d', mPad := updateWhere (\<lambda>x. pID x = i) (\<lambda>x. x\<lparr>pStatus := Some ScratchpadPromoted,
                  pPromotedNodeID := nID n, pUpdatedAt := now\<rparr>) (mPad d)\<rparr> \<and>
           (\<forall>now' newID'. \<exists>n'. promote now' newID' cs i d' = (Inr n', d') \<and> nID n' = nID n))
      else r = Inl MemNotFound \<and> d' = d\<lparr>mNodes := mNodes d'\<rparr>)"
proof -
  note cs = live
  have get: "padGet Live i d = Inr e" using e(1) by (simp add: padGet_def)
  let ?w = "pStatus e \<in> {Some ScratchpadPending, Some ScratchpadSnoozed}"
  let ?up = "\<lambda>node. updateWhere (\<lambda>x. pID x = i)
    (\<lambda>x. x\<lparr>pStatus := Some ScratchpadPromoted, pPromotedNodeID := node, pUpdatedAt := now\<rparr>) (mPad d)"
  have again: "\<exists>n'. promote now' newID' cs i (d\<lparr>mNodes := ns, mPad := ?up node\<rparr>) =
      (Inr n', d\<lparr>mNodes := ns, mPad := ?up node\<rparr>) \<and> nID n' = node"
    if node: "node \<noteq> []" "node \<in> nID ` set ns" for now' newID' node ns
  proof -
    have "lookupBy pID i (?up node) = map_option (\<lambda>x. if pID x = i
        then x\<lparr>pStatus := Some ScratchpadPromoted, pPromotedNodeID := node, pUpdatedAt := now\<rparr> else x)
        (lookupBy pID i (mPad d))"
      by (rule lookupBy_updateWhere) simp
    moreover have "pID e = i" using lookupBy_SomeD [OF e(1)] by simp
    moreover obtain n' where "lookupBy nID node ns = Some n'"
      using node(2) lookupBy_None [of nID node ns] by (cases "lookupBy nID node ns") auto
    moreover have "nID n' = node" using lookupBy_SomeD [OF calculation(3)] by simp
    ultimately show ?thesis using e(1) node(1)
      by (simp add: promote_def padGet_def nodeGet_def cs)
  qed
  show ?thesis
  proof (cases "twins e d = []")
    case True
    let ?n = "promotedNode newID e"
    let ?d1 = "d\<lparr>mNodes := mNodes d @ [nodeRow now ?n]\<rparr>"
    have m: "padMarkPromoted now Live i newID ?d1 =
        (if ?w then Inr (?d1\<lparr>mPad := ?up newID\<rparr>) else Inl MemNotFound)"
      using mark_promoted [of ?d1 i e now newID] keys(1) e(1) by simp
    have p: "promote now newID cs i d =
        (if ?w then (Inr ?n, ?d1\<lparr>mPad := ?up newID\<rparr>) else (Inl MemNotFound, ?d1))"
      using get st True find_twin [OF e(2)] create_promoted [OF e(2) fresh] m
      by (simp add: promote_def cs)
    have "nID (nodeRow now ?n) = newID" "nID ?n = newID" by (simp_all add: nodeRow_def promotedNode_def)
    then show ?thesis using p run True again [OF fresh(1), of "mNodes d @ [nodeRow now ?n]"]
      by (auto split: if_splits)
  next
    case False
    then obtain n ns where n: "descBy nUpdatedAt (twins e d) = n # ns"
      by (metis descBy_empty neq_Nil_conv)
    have tw: "n \<in> set (twins e d)" using n descBy_set [of nUpdatedAt "twins e d"] by auto
    then have n_in: "nID n \<in> nID ` set (mNodes d)" by (auto simp: twins_def)
    then have "nID n \<noteq> []" using keys(2) by auto
    have m: "padMarkPromoted now Live i (nID n) d =
        (if ?w then Inr (d\<lparr>mPad := ?up (nID n)\<rparr>) else Inl MemNotFound)"
      using mark_promoted [OF keys(1) e(1)] .
    have p: "promote now newID cs i d = (if ?w then (Inr n, d\<lparr>mPad := ?up (nID n)\<rparr>) else (Inl MemNotFound, d))"
      using get st n find_twin [OF e(2)] m by (simp add: promote_def cs)
    then show ?thesis using run False tw again [OF \<open>nID n \<noteq> []\<close> n_in] by (auto split: if_splits)
  qed
qed

lemma promote_settings: "mSettings (snd (promote now newID cs i d)) = mSettings d"
  by (auto simp: promote_def nodeCreate_def nodeInsert_def padMarkPromoted_def padUpdate_def
      split: sum.splits mem_error.splits)

lemma settings_default:
  assumes "settingsGet now c repo d = (Inr s, d1)" "mAutoPromote s"
  shows "lookupBy mRepoID repo (mSettings d) = Some s" "d1 = d"
proof -
  have live: "c = Live" and "lookupBy mRepoID repo (mSettings d) \<noteq> None"
  proof -
    show "c = Live" using assms(1)
      by (cases c) (auto simp: settingsGet_def settingsFetch_def)
    show "lookupBy mRepoID repo (mSettings d) \<noteq> None"
    proof
      assume none: "lookupBy mRepoID repo (mSettings d) = None"
      then have "repo \<notin> mRepoID ` set (mSettings d)" by (simp add: lookupBy_None)
      then have "\<not> mAutoPromote s" using assms(1) none \<open>c = Live\<close>
        by (auto simp: settingsGet_def settingsFetch_def settingsSave_def hasKey_iff Let_def
            defaultSettings_def filledSettings_def split: if_splits)
      then show False using assms(2) by simp
    qed
  qed
  then show "lookupBy mRepoID repo (mSettings d) = Some s" "d1 = d"
    using assms(1) by (auto simp: settingsGet_def settingsFetch_def)
qed

lemma settingsGet_nodes: "mNodes (snd (settingsGet now c repo d)) = mNodes d"
  by (auto simp: settingsGet_def settingsSave_def whenLive_def Let_def
      split: sum.splits mem_error.splits option.splits if_splits)

text \<open>C17 (nothing is promoted unasked). A new proposal reaches the nodes without the user only if the
  repository's stored settings allow automatic promotion and its confidence, one half when none is
  given, is at least their threshold. A repository without settings is given the defaults, which do
  not allow it.\<close>

theorem automatic_promotion_is_opt_in:
  assumes run: "svcCreateScratchpadEntry now entryID newID cs e d = (r, d', ch)"
    and changed: "mNodes d' \<noteq> mNodes d"
  shows "\<exists>s. lookupBy mRepoID (pRepoID e) (mSettings d) = Some s \<and> mAutoPromote s \<and>
     mAutoPromoteThreshold s \<le> (if pConfidence e \<le> 0 then 1 / 2 else pConfidence e)"
proof -
  let ?e = "if pID e = [] then e\<lparr>pID := entryID\<rparr> else e"
  obtain d1 where d1: "padCreate now (cs 0) ?e d = Inr d1"
    using run changed by (cases "padCreate now (cs 0) ?e d") (auto simp: svcCreateScratchpadEntry_def Let_def)
  then obtain row where row: "d1 = d\<lparr>mPad := mPad d @ [row]\<rparr>" "pID row = pID ?e" "pRepoID row = pRepoID e"
    "pConfidence row = (if pConfidence e \<le> 0 then 1 / 2 else pConfidence e)"
    and new: "pID ?e \<notin> pID ` set (mPad d)"
    by (auto simp: padCreate_def hasKey_iff split: if_splits)
  have look: "lookupBy pID (pID ?e) (mPad d1) = Some row"
    using new row(1,2) lookupBy_None [of pID "pID ?e" "mPad d"] by simp
  let ?cs = "\<lambda>k. cs (k + 1)"
  have d': "d' = snd (autoPromoteIfEligible now newID ?cs (pID ?e) d1)"
    using run d1 by (auto simp: svcCreateScratchpadEntry_def Let_def split: prod.splits)
  have get: "padGet (?cs 0) (pID ?e) d1 = Inr row"
  proof (cases "?cs 0")
    case Live
    then show ?thesis using look by (simp add: padGet_def)
  next
    case (Done x)
    then have "d' = d1" using d' by (simp add: autoPromoteIfEligible_def padGet_def)
    then show ?thesis using changed row(1) by simp
  qed
  obtain q d2 where s: "settingsGet now (?cs 1) (pRepoID e) d1 = (q, d2)" by fastforce
  have nodes: "mNodes d2 = mNodes d"
    using settingsGet_nodes [of now "?cs 1" "pRepoID e" d1] s row(1) by simp
  obtain s' where q: "q = Inr s'" "mAutoPromote s'" "\<not> pConfidence row < mAutoPromoteThreshold s'"
  proof (cases q)
    case (Inl x)
    then show ?thesis using changed d' get s nodes row(3) by (simp add: autoPromoteIfEligible_def)
  next
    case (Inr s')
    then show ?thesis using that changed d' get s nodes row(3)
      by (cases "mAutoPromote s' \<and> \<not> pConfidence row < mAutoPromoteThreshold s'")
        (auto simp: autoPromoteIfEligible_def)
  qed
  then have "lookupBy mRepoID (pRepoID e) (mSettings d1) = Some s'"
    using settings_default(1) s by blast
  then show ?thesis using q row(1,4) by (intro exI [of _ s']) auto
qed

section \<open>Deleted nodes and snoozed entries\<close>

text \<open>Deleting a node takes its edges along but leaves the closure rows that lead through it.\<close>

lemma deleted_node_leaves_closure:
  "fst (svcDeleteNode (\<lambda>k. Live) i d) = Inr () \<Longrightarrow>
   mClosure (fst (snd (svcDeleteNode (\<lambda>k. Live) i d))) = mClosure d"
  by (auto simp: svcDeleteNode_def nodeDelete_def split: sum.splits)

lemma pageOf_subset: "set (pageOf limit off rs) \<subseteq> set rs"
  unfolding pageOf_def by (rule subset_trans [OF set_take_subset set_drop_subset])

text \<open>A snoozed entry stays away from the list of pending ones, whatever time passes: no operation
  compares \<open>pSnoozedUntil\<close> with the clock.\<close>

lemma snoozed_entry_stays_away:
  assumes "padSnooze now Live i until d = Inr d'" "padList Live repo [] limit off d' = Inr (es, n)"
  shows "i \<notin> pID ` set es"
proof -
  let ?rows = "filter (\<lambda>e. pRepoID e = repo \<and> pStatus e = Some ScratchpadPending) (mPad d')"
  have "es = pageOf (if limit \<le> 0 then 200 else limit) off (descBy pConfidence (descBy pUpdatedAt ?rows))"
    using assms(2) by (simp add: padList_def Let_def)
  then have "set es \<subseteq> set ?rows"
    using pageOf_subset [of _ off "descBy pConfidence (descBy pUpdatedAt ?rows)"] by simp
  have up: "mPad d' = updateWhere (\<lambda>e. pID e = i)
      (\<lambda>e. e\<lparr>pStatus := Some ScratchpadSnoozed, pSnoozedUntil := until, pUpdatedAt := now\<rparr>) (mPad d)"
  proof -
    have "d' = d\<lparr>mPad := updateWhere (\<lambda>e. pID e = i) (\<lambda>e. e\<lparr>pStatus := Some ScratchpadSnoozed,
        pSnoozedUntil := until, pUpdatedAt := now\<rparr>) (mPad d)\<rparr>"
      using assms(1) unfolding padSnooze_def padUpdate_def whenLive_simps(1)
      by (metis Inl_Inr_False Inr_inject)
    then show ?thesis by simp
  qed
  have "pStatus e = Some ScratchpadSnoozed" if e: "e \<in> set (mPad d')" "pID e = i" for e
  proof -
    obtain x where "e = (if pID x = i then x\<lparr>pStatus := Some ScratchpadSnoozed, pSnoozedUntil := until,
        pUpdatedAt := now\<rparr> else x)"
      using e(1) unfolding up set_updateWhere by blast
    then show ?thesis using e(2) by (cases "pID x = i") simp_all
  qed
  then show ?thesis using \<open>set es \<subseteq> set ?rows\<close> by fastforce
qed

section \<open>A small scratchpad\<close>

definition sampleProposal :: "string \<Rightarrow> rat \<Rightarrow> pad_entry" where
  "sampleProposal i c = \<lparr>pID = i, pRepoID = ''r1'', pKind = ''Decision'', pLabel = ''use sqlite'',
     pContentMD = '''', pAttrs = [], pSourceKind = ''observer'', pSourceRef = '''', pSignals = [],
     pConfidence = c, pStatus = Some ScratchpadPending, pRejectReason = '''', pSnoozedUntil = '''',
     pPromotedNodeID = '''', pCreatedAt = ''t0'', pUpdatedAt = ''t0''\<rparr>"

definition padDB :: memdb where
  "padDB = \<lparr>mRepos = [''r1''], mNodes = [], mEdges = [], mClosure = [],
     mPad = [sampleProposal ''p1'' (1 / 2)],
     mSettings = [(defaultSettings ''r1'')\<lparr>mAutoPromote := True\<rparr>]\<rparr>"

theorem promotion_outcome_witness:
  "\<exists>d'. promote ''t1'' ''n1'' (\<lambda>k. Live) ''p1'' padDB = (Inr (promotedNode ''n1'' (sampleProposal ''p1'' (1 / 2))), d') \<and>
     mNodes d' = [nodeRow ''t1'' (promotedNode ''n1'' (sampleProposal ''p1'' (1 / 2)))]"
proof -
  let ?e = "sampleProposal ''p1'' (1 / 2)"
  have "distinct (map pID (mPad padDB))" "[] \<notin> nID ` set (mNodes padDB)"
    "lookupBy pID ''p1'' (mPad padDB) = Some ?e" "padOk ?e padDB" "twins ?e padDB = []"
    "''n1'' \<noteq> []" "''n1'' \<notin> nID ` set (mNodes padDB)" "pStatus ?e = Some ScratchpadPending"
    by (simp_all add: padDB_def sampleProposal_def padOk_def twins_def)
  note s = this
  obtain r d' where run: "promote ''t1'' ''n1'' (\<lambda>k. Live) ''p1'' padDB = (r, d')" by fastforce
  have "pStatus ?e \<noteq> Some ScratchpadPromoted" using s(8) by simp
  from promotion_outcome [OF refl s(1-4,6,7) run this] show ?thesis
    using s(5,8) run by (simp add: padDB_def)
qed

theorem automatic_promotion_is_opt_in_witness:
  "\<exists>s. lookupBy mRepoID ''r1'' (mSettings padDB) = Some s \<and> mAutoPromote s \<and> mAutoPromoteThreshold s \<le> 1"
proof -
  let ?d = "padDB\<lparr>mPad := []\<rparr>" and ?e = "sampleProposal ''p2'' 1"
  obtain r d' ch where run: "svcCreateScratchpadEntry ''t1'' [] ''n1'' (\<lambda>k. Live) ?e ?d = (r, d', ch)"
    by (metis prod_cases3)
  have "mNodes d' \<noteq> mNodes ?d"
    using run by (auto simp: svcCreateScratchpadEntry_def padCreate_def hasKey_def sampleProposal_def
        padDB_def autoPromoteIfEligible_def padGet_def settingsGet_def settingsFetch_def
        defaultSettings_def promote_def nodeFindByLabel_def nodeCreate_def promotedNode_def
        nodeInsert_def nodeRow_def padMarkPromoted_def padUpdate_def countWhere_def)
  from automatic_promotion_is_opt_in [OF run this] show ?thesis
    by (auto simp: padDB_def sampleProposal_def defaultSettings_def)
qed

end
