(* ===== verification/Go_Trim.thy ===== *)
theory Go_Trim
  imports Go_Text
begin

text \<open>
  What \<open>strings.TrimSpace\<close> does to texts that begin and end with a visible ASCII character, and to texts cut at
  a newline; shared by the parsers of conditions and of review verdicts.
\<close>

abbreviation NL :: char where "NL \<equiv> CHR 0x0A"
abbreviation CR :: char where "CR \<equiv> CHR 0x0D"

definition visible :: "char \<Rightarrow> bool" where
  "visible c \<longleftrightarrow> 32 < (of_char c :: nat) \<and> (of_char c :: nat) < 127"

definition solid :: "string \<Rightarrow> bool" where
  "solid s \<longleftrightarrow> s \<noteq> [] \<and> visible (hd s) \<and> visible (last s)"

lemma headLen_other: "\<forall>p\<in>set ps. p \<noteq> [] \<and> hd p \<noteq> c \<Longrightarrow> headLen ps (c # s) = 0"
  by (induction ps) (auto simp: headLen_def hasPrefix_def neq_Nil_conv)

lemma spaces_invisible:
  "\<forall>p\<in>set goSpaces. p \<noteq> [] \<and> \<not> visible (hd p)"
  "\<forall>p\<in>set (map rev goSpaces). p \<noteq> [] \<and> \<not> visible (hd p)"
  by code_simp+

lemma headLen_visible:
  assumes "visible c"
  shows "headLen goSpaces (c # s) = 0" "headLen (map rev goSpaces) (c # s) = 0"
  using spaces_invisible assms by (intro headLen_other; blast)+

lemma headLen_space:
  "headLen goSpaces (CHR '' '' # s) = 1"
  "headLen (map rev goSpaces) (CHR '' '' # s) = 1"
  by (simp_all add: headLen_def goSpaces_def hasPrefix_def)

lemma headLen_newline:
  "headLen goSpaces (NL # s) = 1"
  "headLen (map rev goSpaces) (NL # s) = 1"
  by (simp_all add: headLen_def goSpaces_def hasPrefix_def)

lemma strip_space:
  "stripHead goSpaces (CHR '' '' # s) = stripHead goSpaces s"
  "stripHead (map rev goSpaces) (CHR '' '' # s) = stripHead (map rev goSpaces) s"
  by (subst stripHead.simps; simp only: headLen_space; simp)+

lemma strip_newline:
  "stripHead goSpaces (NL # s) = stripHead goSpaces s"
  "stripHead (map rev goSpaces) (NL # s) = stripHead (map rev goSpaces) s"
  by (subst stripHead.simps; simp only: headLen_newline; simp)+

lemma strip_solid:
  "solid s \<Longrightarrow> stripHead goSpaces (s @ r) = s @ r"
  "solid s \<Longrightarrow> stripHead (map rev goSpaces) (rev s @ r) = rev s @ r"
proof -
  assume "solid s"
  then obtain c t where "s = c # t" "visible c" unfolding solid_def by (metis list.exhaust_sel)
  then show "stripHead goSpaces (s @ r) = s @ r"
    by (simp add: stripHead.simps [of goSpaces] headLen_visible)
next
  assume "solid s"
  then obtain c t where "s = t @ [c]" "visible c"
    unfolding solid_def by (metis append_butlast_last_id)
  then show "stripHead (map rev goSpaces) (rev s @ r) = rev s @ r"
    by (simp add: stripHead.simps [of "map rev goSpaces"] headLen_visible)
qed

lemma trim_solid:
  assumes "solid s"
  shows "trimSpace s = s" "trimSpace (CHR '' '' # s) = s"
    "trimSpace (s @ '' '') = s" "trimSpace (CHR '' '' # s @ '' '') = s"
  using strip_solid(1) [OF assms, of "[]"] strip_solid(1) [OF assms, of "'' ''"] strip_solid(2) [OF assms, of "[]"]
  by (simp_all add: trimSpace_def strip_space)

section \<open>Cutting at a newline\<close>

text \<open>No space but the newline itself holds a newline, so none crosses one.\<close>

lemma spaces_hold_no_newline: "\<forall>p\<in>set goSpaces. p = [NL] \<or> NL \<notin> set p"
  by code_simp

lemma prefix_before_newline: "NL \<notin> set p \<Longrightarrow> hasPrefix (s @ NL # t) p \<longleftrightarrow> hasPrefix s p"
proof
  assume "NL \<notin> set p" "hasPrefix (s @ NL # t) p"
  then show "hasPrefix s p"
    by (auto simp: hasPrefix_iff append_eq_append_conv2 append_eq_Cons_conv Cons_eq_append_conv)
qed (auto simp: hasPrefix_iff)

lemma headLen_before_newline:
  assumes "s \<noteq> []"
  shows "headLen goSpaces (s @ NL # t) = headLen goSpaces s"
proof -
  have "hasPrefix (s @ NL # t) p = hasPrefix s p" if "p \<in> set goSpaces" for p
  proof (cases "p = [NL]")
    case True
    with assms show ?thesis by (auto simp: hasPrefix_def neq_Nil_conv)
  next
    case False
    with that spaces_hold_no_newline show ?thesis by (intro prefix_before_newline) blast
  qed
  then have "find (hasPrefix (s @ NL # t)) goSpaces = find (hasPrefix s) goSpaces"
    by (intro find_cong) auto
  then show ?thesis by (simp add: headLen_def)
qed

lemma headLen_bound: "headLen ps s \<le> length s"
  by (auto simp: headLen_def find_Some_iff hasPrefix_def split: option.splits) (metis length_take min.cobounded1)

lemma strip_before_newline:
  "stripHead goSpaces (s @ NL # t) =
     (if stripHead goSpaces s = [] then stripHead goSpaces t else stripHead goSpaces s @ NL # t)"
proof (induction "goSpaces" s rule: stripHead.induct)
  case (1 s)
  show ?case
  proof (cases "s = []")
    case True
    then show ?thesis by (simp add: strip_newline)
  next
    case False
    note head = headLen_before_newline [OF False, of t]
    show ?thesis
    proof (cases "0 < headLen goSpaces s")
      case True
      have "stripHead goSpaces (s @ NL # t) = stripHead goSpaces (drop (headLen goSpaces s) s @ NL # t)"
        using True False headLen_bound [of goSpaces s] by (subst stripHead.simps) (simp add: head)
      moreover have "stripHead goSpaces s = stripHead goSpaces (drop (headLen goSpaces s) s)"
        using True False by (subst stripHead.simps) simp
      ultimately show ?thesis using 1 True False by simp
    next
      case none: False
      then have "stripHead goSpaces (s @ NL # t) = s @ NL # t" "stripHead goSpaces s = s"
        using False head by (simp_all add: stripHead.simps [of goSpaces])
      with False show ?thesis by simp
    qed
  qed
qed

lemma strip_idem [simp]: "stripHead ps (stripHead ps s) = stripHead ps s"
  using stripHead_fixed [of ps s] by (subst stripHead.simps) auto

lemma trim_strip [simp]: "trimSpace (stripHead goSpaces s) = trimSpace s"
  by (simp add: trimSpace_def)

text \<open>A text whose last line is solid.\<close>

lemma trim_last_line:
  assumes "solid l"
  shows "trimSpace (s @ NL # l @ [NL]) = (if stripHead goSpaces s = [] then l else stripHead goSpaces s @ NL # l)"
    "trimSpace (l @ [NL]) = l"
proof -
  have forward: "stripHead goSpaces l = l" "l \<noteq> []"
    using strip_solid(1) [OF assms, of "[]"] assms by (simp_all add: solid_def)
  have backward: "stripHead (map rev goSpaces) (rev l @ r) = rev l @ r" for r
    by (rule strip_solid(2) [OF assms])
  note backward [of "[]", simplified]
  with forward backward show "trimSpace (s @ NL # l @ [NL]) =
      (if stripHead goSpaces s = [] then l else stripHead goSpaces s @ NL # l)" "trimSpace (l @ [NL]) = l"
    by (simp_all add: trimSpace_def strip_before_newline strip_newline)
qed

end
