(* ===== verification/Charter.thy ===== *)
theory Charter
  imports Go_Trim
begin

text \<open>
  \<open>internal/ihr/charter.go\<close>, \<open>interpreter.go\<close> and \<open>runtime.go\<close>: the charter of the harness, a Markdown file
  whose front matter declares stages, transitions and failure policies; its validation, and the
  choice of the next stage. The YAML library is the parameter \<open>unmarshal\<close>. Go's maps are lists of
  pairs in the order a loop happens to range over them.
\<close>

section \<open>The charter\<close>

record stageContract =
  scIn :: "string list"
  scOut :: "string list"

record charterTransition =
  trFrom :: string
  trTo :: string
  trWhen :: string

record failurePolicy =
  fpRetry :: int
  fpFallback :: string

record rawCharter =
  rHarnessVersion :: int
  rStages :: "string list"
  rMaxReworkCount :: int
  rContract :: "(string \<times> stageContract) list"
  rTransitions :: "charterTransition list"
  rFailureTaxonomy :: "(string \<times> failurePolicy) list"
  rPrompts :: "(string \<times> string) list"

record charter =
  cHarnessVersion :: int
  cStages :: "string list"
  cMaxReworkCount :: int
  cContracts :: "(string \<times> stageContract) list"
  cTransitions :: "charterTransition list"
  cFailureTaxonomy :: "(string \<times> failurePolicy) list"
  cPrompts :: "(string \<times> string) list"
  cBody :: string
  cRawContent :: string

text \<open>Reading a key a Go map does not hold gives the empty text.\<close>

definition promptOf :: "(string \<times> string) list \<Rightarrow> string \<Rightarrow> string" where
  "promptOf ps stage = (case map_of ps stage of None \<Rightarrow> [] | Some p \<Rightarrow> p)"

definition promptFor :: "charter option \<Rightarrow> string \<Rightarrow> string" where
  "promptFor c stage = (case c of None \<Rightarrow> [] | Some ch \<Rightarrow> promptOf (cPrompts ch) stage)"

definition requiredStages :: "string list" where
  "requiredStages = [''plan'', ''code'', ''review'']"

definition orchestratorFailureClasses :: "string list" where
  "orchestratorFailureClasses = [''review_rework'', ''rework_cap_reached'']"

definition validTerminals :: "string list" where
  "validTerminals = [''human_review'', ''failed'']"

section \<open>Front matter\<close>

datatype front_error = NoOpeningFence | NoNewline | NoClosingFence

definition bom :: string where
  "bom = [CHR 0xEF, CHR 0xBB, CHR 0xBF]"

definition fenceLine :: string where
  "fenceLine = [NL] @ ''---'' @ [NL]"

definition splitFrontmatter :: "string \<Rightarrow> front_error + string \<times> string" where
  "splitFrontmatter raw =
     (let content = unixLines (trimPrefix raw bom)
      in if \<not> hasPrefix content (''---'' @ [NL]) \<and> \<not> hasPrefix content ''---'' then Inl NoOpeningFence
         else case indexOf content [NL] of
           None \<Rightarrow> Inl NoNewline
         | Some i \<Rightarrow>
             let rest = drop (i + 1) content
             in case indexOf rest fenceLine of
                  Some k \<Rightarrow> Inr (take k rest, drop (k + length fenceLine) rest)
                | None \<Rightarrow>
                    (case lastIndexOf rest ([NL] @ ''---'') of
                       None \<Rightarrow> Inl NoClosingFence
                     | Some k \<Rightarrow> Inr (take k rest, [])))"

section \<open>Validation\<close>

text \<open>A breadth-first search. A round either visits a node whose transitions were not looked at
  before or takes an element off the queue.\<close>

function reachFrom :: "charterTransition list \<Rightarrow> string list \<Rightarrow> string list \<Rightarrow> string list \<Rightarrow> bool" where
  "reachFrom trs terminals visited [] = False"
| "reachFrom trs terminals visited (cur # queue) =
     (if cur \<in> set visited then reachFrom trs terminals visited queue
      else if cur \<in> set terminals then True
      else reachFrom trs terminals (cur # visited)
             (queue @ map trTo (filter (\<lambda>tr. trFrom tr = cur \<and> trTo tr \<notin> set (cur # visited)) trs)))"
  by pat_completeness auto
termination
proof (relation "measures [\<lambda>(trs, ts, vs, q). length (filter (\<lambda>tr. trFrom tr \<notin> set vs) trs),
    \<lambda>(trs, ts, vs, q). length q]", goal_cases)
  case (3 trs terminals visited cur queue)
  let ?new = "filter (\<lambda>tr. trFrom tr = cur \<and> trTo tr \<notin> set (cur # visited)) trs"
  let ?open = "\<lambda>vs. filter (\<lambda>tr. trFrom tr \<notin> set vs) trs"
  have opens: "?open (cur # visited) = filter (\<lambda>tr. trFrom tr \<noteq> cur) (?open visited)"
    by (simp add: conj_commute)
  show ?case
  proof (cases "?new = []")
    case True
    have "length (?open (cur # visited)) \<le> length (?open visited)"
      unfolding opens by (rule length_filter_le)
    with True show ?thesis by auto
  next
    case False
    then obtain tr where "tr \<in> set trs" "trFrom tr = cur" by (auto simp: filter_empty_conv)
    with 3 have "tr \<in> set (?open visited)" "\<not> trFrom tr \<noteq> cur" by auto
    then have "length (filter (\<lambda>tr. trFrom tr \<noteq> cur) (?open visited)) < length (?open visited)"
      by (rule length_filter_less)
    then show ?thesis unfolding opens [symmetric] by simp
  qed
qed auto

definition reachable :: "charterTransition list \<Rightarrow> string \<Rightarrow> string list \<Rightarrow> bool" where
  "reachable trs start terminals = reachFrom trs terminals [] [start]"

datatype charter_problem =
    StageMissing string
  | UnknownFrom nat string
  | UnknownTo nat string
  | NoPathToTerminal
  | ReworkNotPositive int
  | BadFallback string string

datatype charter_warning =
    EmptyWhen nat string string
  | EmptyPrompt string
  | ClassWithoutPolicy string
  | NoTransitionsDefined

definition validNodes :: "charter \<Rightarrow> string list" where
  "validNodes c = cStages c @ validTerminals"

definition stageProblems :: "charter \<Rightarrow> charter_problem list" where
  "stageProblems c = map StageMissing (filter (\<lambda>s. s \<notin> set (cStages c)) requiredStages)"

definition transitionProblems :: "charter \<Rightarrow> nat \<times> charterTransition \<Rightarrow> charter_problem list" where
  "transitionProblems c itr = (case itr of (i, tr) \<Rightarrow>
     (if trFrom tr \<notin> set (validNodes c) then [UnknownFrom i (trFrom tr)] else []) @
     (if trTo tr \<notin> set (validNodes c) then [UnknownTo i (trTo tr)] else []))"

definition fallbackProblems :: "charter \<Rightarrow> string \<times> failurePolicy \<Rightarrow> charter_problem list" where
  "fallbackProblems c cp = (case cp of (cls, fp) \<Rightarrow>
     (if fpFallback fp \<noteq> [] \<and> fpFallback fp \<notin> set validTerminals \<and> fpFallback fp \<notin> set (cStages c)
      then [BadFallback cls (fpFallback fp)] else []))"

definition charterErrors :: "charter \<Rightarrow> charter_problem list" where
  "charterErrors c =
     (let shape = stageProblems c @ concat (map (transitionProblems c) (enumerate 0 (cTransitions c)))
      in shape
         @ (if shape = [] \<and> \<not> reachable (cTransitions c) ''plan'' validTerminals
            then [NoPathToTerminal] else [])
         @ (if cMaxReworkCount c \<le> 0 then [ReworkNotPositive (cMaxReworkCount c)] else [])
         @ concat (map (fallbackProblems c) (cFailureTaxonomy c)))"

definition charterWarnings :: "charter \<Rightarrow> charter_warning list" where
  "charterWarnings c =
     concat (map (\<lambda>(i, tr). if trWhen tr = [] then [EmptyWhen i (trFrom tr) (trTo tr)] else [])
       (enumerate 0 (cTransitions c)))
     @ map EmptyPrompt (filter (\<lambda>s. trimSpace (promptOf (cPrompts c) s) = []) requiredStages)
     @ map ClassWithoutPolicy
         (filter (\<lambda>cls. map_of (cFailureTaxonomy c) cls = None) orchestratorFailureClasses)"

definition validate ::
  "charter \<Rightarrow> (charter_problem list \<times> charter_warning list) option" where
  "validate c =
     (if charterErrors c = [] \<and> charterWarnings c = [] then None
      else Some (charterErrors c, charterWarnings c))"

datatype charter_error =
    BadFrontMatter front_error
  | BadYAML string
  | InvalidCharter "charter_problem list" "charter_warning list"

definition charterOf :: "rawCharter \<Rightarrow> string \<Rightarrow> string \<Rightarrow> charter" where
  "charterOf raw body content =
     \<lparr>cHarnessVersion = rHarnessVersion raw, cStages = rStages raw, cMaxReworkCount = rMaxReworkCount raw,
      cContracts = rContract raw, cTransitions = rTransitions raw,
      cFailureTaxonomy = rFailureTaxonomy raw, cPrompts = rPrompts raw, cBody = body, cRawContent = content\<rparr>"

definition parseCharter ::
  "(string \<Rightarrow> string + rawCharter) \<Rightarrow> string \<Rightarrow> charter_error + charter" where
  "parseCharter unmarshal content =
     (case splitFrontmatter content of Inl e \<Rightarrow> Inl (BadFrontMatter e)
      | Inr (fm, body) \<Rightarrow>
        (case unmarshal fm of Inl e \<Rightarrow> Inl (BadYAML e)
         | Inr raw \<Rightarrow>
             let c = charterOf raw body content
             in case validate c of
                  Some (errs, warns) \<Rightarrow> if errs \<noteq> [] then Inl (InvalidCharter errs warns) else Inr c
                | None \<Rightarrow> Inr c))"

section \<open>The next stage\<close>

record stageState =
  ssCurrentStage :: string
  ssPlanSubtaskCount :: int
  ssAllSubtasksTerminal :: bool
  ssDecision :: string
  ssReworkCount :: int

datatype stage_error =
    UnknownAtom string
  | EvalFailed string string string
  | NoTransition string

text \<open>The code's operators are not empty; an empty one would never be used up.\<close>

function splitOp :: "string \<Rightarrow> string \<Rightarrow> string list" where
  "splitOp expr op =
     (if op = [] then [expr]
      else case indexOf expr op of
        None \<Rightarrow> [expr]
      | Some i \<Rightarrow> take i expr # splitOp (drop (i + length op) expr) op)"
  by pat_completeness auto

lemma indexOf_bound: "indexOf s p = Some i \<Longrightarrow> i + length p \<le> length s"
  by (induction s p arbitrary: i rule: indexOf.induct)
    (auto simp: hasPrefix_def split: if_splits dest: arg_cong [where f = length])

termination splitOp
  by (relation "measure (\<lambda>(expr, op). length expr)") (auto simp: neq_Nil_conv dest!: indexOf_bound)

declare splitOp.simps [simp del]

definition evalAtom :: "string \<Rightarrow> stageState \<Rightarrow> int \<Rightarrow> stage_error + bool" where
  "evalAtom text s maxRework =
     (let atom = trimSpace text
      in if atom = ''plan_json.subtasks.length > 0'' then Inr (ssPlanSubtaskCount s > 0)
         else if atom = ''all_subtasks_terminal'' then Inr (ssAllSubtasksTerminal s)
         else if atom = ''decision == \"APPROVE\"'' then Inr (ssDecision s = ''APPROVE'')
         else if atom = ''decision == \"REWORK\"'' then Inr (ssDecision s = ''REWORK'')
         else if atom = ''rework_count < max_rework_count'' then Inr (ssReworkCount s < maxRework)
         else if atom = ''rework_count >= max_rework_count'' then Inr (ssReworkCount s \<ge> maxRework)
         else Inl (UnknownAtom atom))"

fun evalAll :: "string list \<Rightarrow> stageState \<Rightarrow> int \<Rightarrow> stage_error + bool" where
  "evalAll [] s m = Inr True"
| "evalAll (p # ps) s m =
     (case evalAtom (trimSpace p) s m of
        Inl e \<Rightarrow> Inl e
      | Inr v \<Rightarrow> if v then evalAll ps s m else Inr False)"

definition evalAnd :: "string \<Rightarrow> stageState \<Rightarrow> int \<Rightarrow> stage_error + bool" where
  "evalAnd expr s m = evalAll (splitOp expr ''&&'') s m"

fun evalAny :: "string list \<Rightarrow> stageState \<Rightarrow> int \<Rightarrow> stage_error + bool" where
  "evalAny [] s m = Inr False"
| "evalAny (p # ps) s m =
     (case evalAnd (trimSpace p) s m of
        Inl e \<Rightarrow> Inl e
      | Inr v \<Rightarrow> if v then Inr True else evalAny ps s m)"

definition evalWhen :: "string \<Rightarrow> stageState \<Rightarrow> int \<Rightarrow> stage_error + bool" where
  "evalWhen text s m =
     (let expr = trimSpace text
      in if expr = [] then Inr False
         else let parts = splitOp expr ''||''
              in if length parts > 1 then evalAny parts s m else evalAnd expr s m)"

fun firstMatch :: "charterTransition list \<Rightarrow> stageState \<Rightarrow> int \<Rightarrow> stage_error + string \<times> bool" where
  "firstMatch [] s m = Inl (NoTransition (ssCurrentStage s))"
| "firstMatch (tr # trs) s m =
     (if trFrom tr \<noteq> ssCurrentStage s then firstMatch trs s m
      else case evalWhen (trWhen tr) s m of
        Inl (UnknownAtom a) \<Rightarrow> Inl (EvalFailed (trFrom tr) (trTo tr) a)
      | Inl e \<Rightarrow> Inl e
      | Inr v \<Rightarrow> if v then Inr (trTo tr, trTo tr \<in> set validTerminals) else firstMatch trs s m)"

definition nextStage :: "charter \<Rightarrow> stageState \<Rightarrow> stage_error + string \<times> bool" where
  "nextStage c s = firstMatch (cTransitions c) s (cMaxReworkCount c)"

section \<open>A charter is accepted when its graph leads somewhere\<close>

definition graph :: "charterTransition list \<Rightarrow> (string \<times> string) set" where
  "graph trs = (\<lambda>tr. (trFrom tr, trTo tr)) ` set trs"

lemma closed_leads_out:
  assumes "(v, t) \<in> (graph trs)\<^sup>*" and "v \<in> V" and "t \<notin> V"
    and closed: "\<And>x y. x \<in> V \<Longrightarrow> (x, y) \<in> graph trs \<Longrightarrow> y \<in> V \<union> Q"
  shows "\<exists>q\<in>Q. (q, t) \<in> (graph trs)\<^sup>*"
  using assms(1,2)
proof (induction rule: converse_rtrancl_induct)
  case base
  with assms(3) show ?case by blast
next
  case (step x y)
  then show ?case using closed [of x y] by blast
qed

lemma reachFrom_spec:
  assumes "\<And>x y. x \<in> set visited \<Longrightarrow> (x, y) \<in> graph trs \<Longrightarrow> y \<in> set visited \<union> set queue"
    and "set visited \<inter> set terminals = {}"
  shows "reachFrom trs terminals visited queue \<longleftrightarrow>
    (\<exists>q\<in>set queue. \<exists>t\<in>set terminals. (q, t) \<in> (graph trs)\<^sup>*)"
  using assms
proof (induction trs terminals visited queue rule: reachFrom.induct)
  case (1 trs terminals visited)
  then show ?case by simp
next
  case (2 trs terminals visited cur queue)
  consider (seen) "cur \<in> set visited" | (found) "cur \<notin> set visited" "cur \<in> set terminals"
    | (fresh) "cur \<notin> set visited" "cur \<notin> set terminals" by blast
  then show ?case
  proof cases
    case seen
    have closed: "y \<in> set visited \<union> set queue" if "x \<in> set visited" "(x, y) \<in> graph trs" for x y
      using "2.prems"(1) [OF that] seen by auto
    have "\<exists>q\<in>set queue. (q, t) \<in> (graph trs)\<^sup>*" if "t \<in> set terminals" "(cur, t) \<in> (graph trs)\<^sup>*" for t
    proof (rule closed_leads_out [OF that(2) seen])
      show "t \<notin> set visited" using that(1) "2.prems"(2) by auto
    qed (rule closed)
    then have "(\<exists>q\<in>set (cur # queue). \<exists>t\<in>set terminals. (q, t) \<in> (graph trs)\<^sup>*) \<longleftrightarrow>
      (\<exists>q\<in>set queue. \<exists>t\<in>set terminals. (q, t) \<in> (graph trs)\<^sup>*)"
      unfolding list.set(2) by blast
    with seen "2.IH"(1) [OF seen closed "2.prems"(2)] show ?thesis by simp
  next
    case found
    then show ?thesis by auto
  next
    case fresh
    let ?V = "cur # visited"
    let ?Q = "queue @ map trTo (filter (\<lambda>tr. trFrom tr = cur \<and> trTo tr \<notin> set ?V) trs)"
    have closed: "y \<in> set ?V \<union> set ?Q" if "x \<in> set ?V" "(x, y) \<in> graph trs" for x y
      using "2.prems"(1) [of x y] that by (auto simp: graph_def)
    have disj: "set ?V \<inter> set terminals = {}" using fresh "2.prems"(2) by auto
    define leads where "leads q \<longleftrightarrow> (\<exists>t\<in>set terminals. (q, t) \<in> (graph trs)\<^sup>*)" for q
    have onward: "\<exists>q\<in>set ?Q. leads q" if "leads cur"
    proof -
      from that obtain t where t: "t \<in> set terminals" "(cur, t) \<in> (graph trs)\<^sup>*"
        by (auto simp: leads_def)
      have "\<exists>q\<in>set ?Q. (q, t) \<in> (graph trs)\<^sup>*"
      proof (rule closed_leads_out [OF t(2)])
        show "cur \<in> set ?V" "t \<notin> set ?V" using t(1) disj by auto
      qed (rule closed)
      with t(1) show ?thesis by (auto simp: leads_def)
    qed
    have backward: "leads cur" if q: "q \<in> set ?Q" "q \<notin> set queue" "leads q" for q
    proof -
      have "(cur, q) \<in> graph trs" using q(1,2) by (auto simp: graph_def)
      with q(3) show ?thesis unfolding leads_def by (meson converse_rtrancl_into_rtrancl)
    qed
    have "set queue \<subseteq> set ?Q" by simp
    with onward backward have "(\<exists>q\<in>set ?Q. leads q) \<longleftrightarrow> (\<exists>q\<in>set (cur # queue). leads q)"
      unfolding list.set(2) by blast
    with "2.IH"(2) [OF fresh closed disj] fresh show ?thesis unfolding leads_def by simp
  qed
qed

lemma reachable_iff:
  "reachable trs start terminals \<longleftrightarrow> (\<exists>t\<in>set terminals. (start, t) \<in> (graph trs)\<^sup>*)"
  unfolding reachable_def by (subst reachFrom_spec) auto

lemma no_transition_problems:
  "concat (map (transitionProblems c) (enumerate n trs)) = [] \<longleftrightarrow>
    (\<forall>tr\<in>set trs. trFrom tr \<in> set (validNodes c) \<and> trTo tr \<in> set (validNodes c))"
  by (induction trs arbitrary: n) (auto simp: transitionProblems_def)

lemma no_fallback_problems:
  "concat (map (fallbackProblems c) cps) = [] \<longleftrightarrow>
    (\<forall>(cls, fp)\<in>set cps. fpFallback fp = [] \<or> fpFallback fp \<in> set (validNodes c))"
  by (induction cps) (auto simp: fallbackProblems_def validNodes_def split: if_splits)

lemma no_stage_problems: "stageProblems c = [] \<longleftrightarrow> set requiredStages \<subseteq> set (cStages c)"
  by (auto simp: stageProblems_def filter_empty_conv)

text \<open>What a charter has to declare.\<close>

definition soundCharter :: "charter \<Rightarrow> bool" where
  "soundCharter c \<longleftrightarrow>
     set requiredStages \<subseteq> set (cStages c)
     \<and> (\<forall>tr\<in>set (cTransitions c). trFrom tr \<in> set (validNodes c) \<and> trTo tr \<in> set (validNodes c))
     \<and> (\<exists>t\<in>set validTerminals. (''plan'', t) \<in> (graph (cTransitions c))\<^sup>*)
     \<and> 0 < cMaxReworkCount c
     \<and> (\<forall>(cls, fp)\<in>set (cFailureTaxonomy c). fpFallback fp = [] \<or> fpFallback fp \<in> set (validNodes c))"

lemma charterErrors_iff: "charterErrors c = [] \<longleftrightarrow> soundCharter c"
  unfolding charterErrors_def soundCharter_def Let_def append_is_Nil_conv no_transition_problems
    no_stage_problems no_fallback_problems reachable_iff
  by (auto split: if_splits)

lemma validate_errors:
  "(case validate c of Some (errs, warns) \<Rightarrow> errs \<noteq> [] | None \<Rightarrow> False) \<longleftrightarrow> \<not> soundCharter c"
  by (auto simp: validate_def charterErrors_iff [symmetric])

text \<open>C13 (an accepted charter leads somewhere). The parser accepts exactly the texts whose front matter the YAML library reads as
  a sound charter: the three stages are declared, every transition joins declared stages or
  terminals, some way leads from planning to a terminal (the search finds it whatever cycles the
  graph has), the rework limit is positive and each fallback exists.\<close>

theorem charter_accepted_iff:
  "isOk (parseCharter unmarshal content) \<longleftrightarrow>
     (\<exists>fm body raw. splitFrontmatter content = Inr (fm, body) \<and> unmarshal fm = Inr raw
        \<and> soundCharter (charterOf raw body content))"
proof -
  have "isOk (parseCharter unmarshal content) \<longleftrightarrow> soundCharter (charterOf raw body content)"
    if "splitFrontmatter content = Inr (fm, body)" "unmarshal fm = Inr raw" for fm body raw
    using that validate_errors [of "charterOf raw body content"]
    by (cases "validate (charterOf raw body content)")
      (auto simp: parseCharter_def Let_def split: prod.splits)
  then show ?thesis
    by (cases "splitFrontmatter content"; cases "unmarshal (fst (projr (splitFrontmatter content)))")
      (auto simp: parseCharter_def)
qed

lemma parsed_sound: "parseCharter unmarshal content = Inr c \<Longrightarrow> soundCharter c \<and> cRawContent c = content"
  using validate_errors [of c]
  by (auto simp: parseCharter_def Let_def charterOf_def split: sum.splits option.splits if_splits prod.splits)

section \<open>The front matter is read back\<close>

lemma unixLines_NL [simp]: "unixLines (NL # s) = NL # unixLines s"
  by (cases s) simp_all

lemma unixLines_plain: "CR \<notin> set l \<Longrightarrow> unixLines (l @ NL # s) = l @ NL # unixLines s"
  by (induction l rule: unixLines.induct) (auto split: list.split)

lemma unixLines_crlf: "CR \<notin> set l \<Longrightarrow> unixLines (l @ CR # NL # s) = l @ NL # unixLines s"
  by (induction l rule: unixLines.induct) (auto split: list.split)

definition lineEnds :: "string list" where
  "lineEnds = [[NL], [CR, NL]]"

lemma unixLines_line:
  "CR \<notin> set l \<Longrightarrow> eol \<in> set lineEnds \<Longrightarrow> unixLines (l @ eol @ s) = l @ NL # unixLines s"
  by (auto simp: lineEnds_def unixLines_plain unixLines_crlf)

lemma unixLines_lines:
  "\<forall>l\<in>set ls. CR \<notin> set l \<Longrightarrow> eol \<in> set lineEnds \<Longrightarrow> ls \<noteq> [] \<Longrightarrow>
    unixLines (joinWith eol ls @ eol @ s) = joinWith [NL] ls @ NL # unixLines s"
  by (induction eol ls rule: joinWith.induct) (simp_all add: unixLines_line)

lemma indexOf_skip: "c \<notin> set l \<Longrightarrow>
    indexOf (l @ s) (c # q) = map_option (\<lambda>k. length l + k) (indexOf s (c # q))"
proof (induction l)
  case Nil
  then show ?case by (simp add: option.map_ident)
next
  case (Cons x l)
  then show ?case by (cases "indexOf s (c # q)") (auto simp: hasPrefix_def)
qed

lemma not_a_fence: "l \<noteq> ''---'' \<Longrightarrow> NL \<notin> set l \<Longrightarrow> \<not> hasPrefix (NL # l @ NL # s) fenceLine"
  by (auto simp: hasPrefix_iff fenceLine_def append_eq_Cons_conv Cons_eq_append_conv)

lemma fence_found:
  "\<forall>l\<in>set ls. NL \<notin> set l \<Longrightarrow> ''---'' \<notin> set (tl ls) \<Longrightarrow> ls \<noteq> [] \<Longrightarrow>
    indexOf (joinWith [NL] ls @ fenceLine @ body) fenceLine = Some (length (joinWith [NL] ls))"
proof (induction "[NL]" ls rule: joinWith.induct)
  case (2 l)
  then show ?case by (simp add: fenceLine_def indexOf_skip hasPrefix_def)
next
  case (3 l m ls)
  let ?rest = "joinWith [NL] (m # ls) @ fenceLine @ body"
  have rest: "indexOf ?rest fenceLine = Some (length (joinWith [NL] (m # ls)))"
    using 3 by (cases ls) auto
  obtain r where "?rest = m @ NL # r" by (cases ls) (auto simp: fenceLine_def)
  then have "\<not> hasPrefix (NL # ?rest) fenceLine"
    using not_a_fence [of m r] "3.prems"(1,2) by auto
  then have "indexOf (NL # ?rest) fenceLine = Some (Suc (length (joinWith [NL] (m # ls))))"
    using rest by simp
  moreover have "indexOf (l @ NL # ?rest) fenceLine =
      map_option (\<lambda>k. length l + k) (indexOf (NL # ?rest) fenceLine)"
    using indexOf_skip [of NL l] "3.prems"(1) by (simp add: fenceLine_def)
  ultimately show ?case by simp
qed simp

text \<open>C14 (the front matter is read back). A front matter written between fence lines is read back unchanged, and the
  body after it, whether the file has Unix or Windows line ends and with or without the byte order mark
  of Windows editors, as long as no line of the front matter but the first is a fence.\<close>

theorem frontmatter_read_back:
  assumes "ls \<noteq> []" and "\<forall>l\<in>set ls. NL \<notin> set l \<and> CR \<notin> set l" and "''---'' \<notin> set (tl ls)"
    and "eol \<in> set lineEnds" and "mark \<in> {[], bom}"
  shows "splitFrontmatter (mark @ ''---'' @ eol @ joinWith eol ls @ eol @ ''---'' @ eol @ body) =
    Inr (joinWith [NL] ls, unixLines body)"
proof -
  let ?text = "''---'' @ eol @ joinWith eol ls @ eol @ ''---'' @ eol @ body"
  have "trimPrefix (mark @ ?text) bom = ?text"
    using assms(5) by (auto simp: trimPrefix_def bom_def hasPrefix_def)
  moreover have "unixLines ?text = ''---'' @ NL # joinWith [NL] ls @ fenceLine @ unixLines body"
    using assms unixLines_line [of "''---''" eol] unixLines_lines [of ls eol]
    by (simp add: fenceLine_def del: append_Cons)
  moreover have "indexOf (''---'' @ NL # s) [NL] = Some 3" for s
    by (simp add: hasPrefix_def)
  ultimately show ?thesis
    using fence_found [of ls "unixLines body"] assms(1-3) by (simp add: splitFrontmatter_def Let_def hasPrefix_def)
qed

theorem frontmatter_read_back_witness:
  "splitFrontmatter (bom @ ''---'' @ [CR, NL] @ ''stages: [plan]'' @ [CR, NL] @ ''---'' @ [CR, NL] @ ''text'') =
     Inr (''stages: [plan]'', ''text'')"
  using frontmatter_read_back [of "[''stages: [plan]'']" "[CR, NL]" bom "''text''"]
  by (simp add: lineEnds_def)

section \<open>Conditions mean what they say\<close>

datatype cond = HasSubtasks | SubtasksDone | Approved | ReworkAsked | BelowCap | AtCap

fun condText :: "cond \<Rightarrow> string" where
  "condText HasSubtasks = ''plan_json.subtasks.length > 0''"
| "condText SubtasksDone = ''all_subtasks_terminal''"
| "condText Approved = ''decision == \"APPROVE\"''"
| "condText ReworkAsked = ''decision == \"REWORK\"''"
| "condText BelowCap = ''rework_count < max_rework_count''"
| "condText AtCap = ''rework_count >= max_rework_count''"

fun condHolds :: "stageState \<Rightarrow> int \<Rightarrow> cond \<Rightarrow> bool" where
  "condHolds s m HasSubtasks = (0 < ssPlanSubtaskCount s)"
| "condHolds s m SubtasksDone = ssAllSubtasksTerminal s"
| "condHolds s m Approved = (ssDecision s = ''APPROVE'')"
| "condHolds s m ReworkAsked = (ssDecision s = ''REWORK'')"
| "condHolds s m BelowCap = (ssReworkCount s < m)"
| "condHolds s m AtCap = (m \<le> ssReworkCount s)"

definition allText :: "cond list \<Rightarrow> string" where
  "allText cs = joinWith '' && '' (map condText cs)"

definition anyText :: "cond list list \<Rightarrow> string" where
  "anyText css = joinWith '' || '' (map allText css)"

lemma solid_append: "solid a \<Longrightarrow> solid b \<Longrightarrow> solid (a @ m @ b)"
  by (simp add: solid_def)

lemma solid_join: "\<forall>l\<in>set ls. solid l \<Longrightarrow> ls \<noteq> [] \<Longrightarrow> solid (joinWith sep ls)"
  by (induction sep ls rule: joinWith.induct) (auto intro: solid_append)

lemma solid_cond: "solid (condText c)"
  by (cases c) (simp_all add: solid_def visible_def)

lemma solid_all: "cs \<noteq> [] \<Longrightarrow> solid (allText cs)"
  unfolding allText_def by (rule solid_join) (auto simp: solid_cond)

lemma indexOf_none: "c \<notin> set s \<Longrightarrow> indexOf s (c # q) = None"
  using indexOf_skip [of c s "[]" q] by simp

lemma splitOp_pieces:
  assumes "ls \<noteq> []" and "\<forall>l\<in>set ls. solid l \<and> c \<notin> set l" and "c \<noteq> CHR '' ''" and "pre \<in> {[], '' ''}"
  shows "map trimSpace (splitOp (pre @ joinWith ('' '' @ [c, c] @ '' '') ls) [c, c]) = ls"
  using assms
proof (induction "'' '' @ [c, c] @ '' ''" ls arbitrary: pre rule: joinWith.induct)
  case (2 l)
  then have "c \<notin> set (pre @ l)" by auto
  then show ?case using 2 by (auto simp: splitOp.simps indexOf_none trim_solid)
next
  case (3 l m ls)
  let ?rest = "joinWith ('' '' @ [c, c] @ '' '') (m # ls)"
  let ?head = "pre @ l @ '' ''"
  have "c \<notin> set ?head" using 3 by auto
  then have "indexOf (?head @ [c, c] @ '' '' @ ?rest) [c, c] = Some (length ?head)"
    by (subst indexOf_skip) (simp_all add: hasPrefix_def)
  then have "splitOp (?head @ [c, c] @ '' '' @ ?rest) [c, c] = ?head # splitOp ('' '' @ ?rest) [c, c]"
    by (simp add: splitOp.simps [of "pre @ l @ CHR '' '' # c # c # CHR '' '' # r" for r])
  moreover have "map trimSpace (splitOp ('' '' @ ?rest) [c, c]) = m # ls"
    using "3.hyps" [of "'' ''"] "3.prems" by simp
  moreover have "trimSpace ?head = l" using 3 by (auto simp: trim_solid)
  ultimately show ?case by simp
qed simp

lemma evalAtom_cond: "evalAtom (condText a) s m = Inr (condHolds s m a)"
  unfolding evalAtom_def trim_solid(1) [OF solid_cond] by (cases a) simp_all

lemma evalAll_conds: "map trimSpace ps = map condText cs \<Longrightarrow> evalAll ps s m = Inr (\<forall>a\<in>set cs. condHolds s m a)"
  by (induction ps arbitrary: cs) (auto simp: Cons_eq_map_conv evalAtom_cond)

lemma condText_chars: "CHR ''&'' \<notin> set (condText c)" "CHR ''|'' \<notin> set (condText c)"
  by (cases c; simp)+

lemma evalAnd_conds: "cs \<noteq> [] \<Longrightarrow> evalAnd (allText cs) s m = Inr (\<forall>a\<in>set cs. condHolds s m a)"
  unfolding evalAnd_def allText_def
  using splitOp_pieces [of "map condText cs" "CHR ''&''" "[]"]
  by (intro evalAll_conds) (simp add: solid_cond condText_chars)

lemma evalAny_conds:
  "map trimSpace ps = map allText css \<Longrightarrow> \<forall>cs\<in>set css. cs \<noteq> [] \<Longrightarrow>
    evalAny ps s m = Inr (\<exists>cs\<in>set css. \<forall>a\<in>set cs. condHolds s m a)"
proof (induction ps arbitrary: css)
  case (Cons p ps)
  then obtain cs css' where css: "css = cs # css'" "trimSpace p = allText cs" "map trimSpace ps = map allText css'"
    by (auto simp: Cons_eq_map_conv)
  with Cons.IH [OF css(3)] Cons.prems(2) show ?case
    by (auto simp: evalAnd_conds)
qed simp

lemma joinWith_chars: "set (joinWith sep ls) \<subseteq> set sep \<union> \<Union> (set ` set ls)"
  by (induction sep ls rule: joinWith.induct) auto

lemma allText_chars: "CHR ''|'' \<notin> set (allText cs)"
  using joinWith_chars [of "'' && ''" "map condText cs"] condText_chars(2) unfolding allText_def by auto

text \<open>A condition written as alternatives of conjunctions is evaluated, by the
  splitting of texts and whatever the order of its parts, to its truth value; it never fails.\<close>

lemma condition_value:
  assumes "css \<noteq> []" and "\<forall>cs\<in>set css. cs \<noteq> []"
  shows "evalWhen (anyText css) s m = Inr (\<exists>cs\<in>set css. \<forall>a\<in>set cs. condHolds s m a)"
proof -
  have solid: "solid (anyText css)"
    unfolding anyText_def using assms by (intro solid_join) (auto simp: solid_all)
  let ?parts = "splitOp (anyText css) ''||''"
  have parts: "map trimSpace ?parts = map allText css"
    using splitOp_pieces [of "map allText css" "CHR ''|''" "[]"] assms
    by (simp add: anyText_def solid_all allText_chars)
  then have len: "length ?parts = length css" by (metis length_map)
  have trimmed: "trimSpace (anyText css) = anyText css" "anyText css \<noteq> []"
    using solid by (auto simp: trim_solid solid_def)
  show ?thesis
  proof (cases "length css > 1")
    case True
    with len trimmed evalAny_conds [OF parts assms(2)] show ?thesis by (simp add: evalWhen_def Let_def)
  next
    case False
    with assms(1) obtain cs where "css = [cs]" by (cases css; cases "tl css") auto
    with len trimmed assms(2) show ?thesis
      by (simp add: evalWhen_def Let_def evalAnd_conds anyText_def)
  qed
qed

lemma condition_sample:
  "evalWhen ''decision == \"APPROVE\" || rework_count >= max_rework_count''
     \<lparr>ssCurrentStage = ''review'', ssPlanSubtaskCount = 1, ssAllSubtasksTerminal = True,
      ssDecision = ''REWORK'', ssReworkCount = 2\<rparr> 2 = Inr True"
  using condition_value [of "[[Approved], [AtCap]]"
    "\<lparr>ssCurrentStage = ''review'', ssPlanSubtaskCount = 1, ssAllSubtasksTerminal = True,
      ssDecision = ''REWORK'', ssReworkCount = 2\<rparr>" 2]
  by (simp add: anyText_def allText_def)

section \<open>The next stage\<close>

definition passesOver :: "stageState \<Rightarrow> int \<Rightarrow> charterTransition \<Rightarrow> bool" where
  "passesOver s m tr \<longleftrightarrow> trFrom tr \<noteq> ssCurrentStage s \<or> evalWhen (trWhen tr) s m = Inr False"

lemma firstMatch_iff:
  "firstMatch trs s m = Inr (to, fin) \<longleftrightarrow>
     (\<exists>tr rest. dropWhile (passesOver s m) trs = tr # rest
        \<and> trFrom tr = ssCurrentStage s \<and> evalWhen (trWhen tr) s m = Inr True
        \<and> to = trTo tr \<and> fin = (to \<in> set validTerminals))"
proof (induction trs)
  case (Cons tr trs)
  consider (passed) "passesOver s m tr"
    | (failed) e where "trFrom tr = ssCurrentStage s" "evalWhen (trWhen tr) s m = Inl e" "\<not> passesOver s m tr"
    | (taken) "trFrom tr = ssCurrentStage s" "evalWhen (trWhen tr) s m = Inr True" "\<not> passesOver s m tr"
    by (cases "evalWhen (trWhen tr) s m") (auto simp: passesOver_def)
  then show ?case
  proof cases
    case passed
    then have "firstMatch (tr # trs) s m = firstMatch trs s m" by (auto simp: passesOver_def)
    with passed Cons.IH show ?thesis by simp
  next
    case (failed e)
    then show ?thesis by (cases e) auto
  next
    case taken
    then show ?thesis by auto
  qed
qed simp

text \<open>Along the transitions of an accepted charter a stage is followed by a declared one.\<close>

lemma accepted_charter_stays_inside:
  assumes "parseCharter unmarshal content = Inr c" and "nextStage c s = Inr (to, fin)"
  shows "to \<in> set (cStages c) \<or> to \<in> set validTerminals" and "fin \<longleftrightarrow> to \<in> set validTerminals"
proof -
  obtain tr rest where trs: "dropWhile (passesOver s (cMaxReworkCount c)) (cTransitions c) = tr # rest"
    and ends: "to = trTo tr" "fin \<longleftrightarrow> to \<in> set validTerminals"
    using assms(2) unfolding nextStage_def firstMatch_iff by blast
  from trs have "tr \<in> set (cTransitions c)" by (metis list.set_intros(1) set_dropWhileD)
  with ends
  show "to \<in> set (cStages c) \<or> to \<in> set validTerminals" "fin \<longleftrightarrow> to \<in> set validTerminals"
    using parsed_sound [OF assms(1)] by (auto simp: soundCharter_def validNodes_def)
qed

text \<open>The charter that ships with the program.\<close>

definition shippedTransitions :: "charterTransition list" where
  "shippedTransitions =
     [\<lparr>trFrom = ''plan'', trTo = ''code'', trWhen = anyText [[HasSubtasks]]\<rparr>,
      \<lparr>trFrom = ''code'', trTo = ''review'', trWhen = anyText [[SubtasksDone]]\<rparr>,
      \<lparr>trFrom = ''review'', trTo = ''code'', trWhen = anyText [[ReworkAsked, BelowCap]]\<rparr>,
      \<lparr>trFrom = ''review'', trTo = ''human_review'', trWhen = anyText [[Approved], [AtCap]]\<rparr>]"

lemma shipped_conditions [simp]:
  "evalWhen (anyText [[HasSubtasks]]) s m = Inr (0 < ssPlanSubtaskCount s)"
  "evalWhen (anyText [[SubtasksDone]]) s m = Inr (ssAllSubtasksTerminal s)"
  "evalWhen (anyText [[ReworkAsked, BelowCap]]) s m = Inr (ssDecision s = ''REWORK'' \<and> ssReworkCount s < m)"
  "evalWhen (anyText [[Approved], [AtCap]]) s m = Inr (ssDecision s = ''APPROVE'' \<or> m \<le> ssReworkCount s)"
proof -
  note meaning = condition_value [of "[[HasSubtasks]]"] condition_value [of "[[SubtasksDone]]"]
    condition_value [of "[[ReworkAsked, BelowCap]]"] condition_value [of "[[Approved], [AtCap]]"]
  show
    "evalWhen (anyText [[HasSubtasks]]) s m = Inr (0 < ssPlanSubtaskCount s)"
    "evalWhen (anyText [[SubtasksDone]]) s m = Inr (ssAllSubtasksTerminal s)"
    "evalWhen (anyText [[ReworkAsked, BelowCap]]) s m = Inr (ssDecision s = ''REWORK'' \<and> ssReworkCount s < m)"
    "evalWhen (anyText [[Approved], [AtCap]]) s m = Inr (ssDecision s = ''APPROVE'' \<or> m \<le> ssReworkCount s)"
    by (simp_all add: meaning)
qed

text \<open>With the transitions of the shipped charter a stage has a successor exactly when the
  plan has subtasks, the subtasks are all at rest, or the review approves, asks for
  rework, or came to the cap: work goes to planning, coding and review, back to coding while rework
  is allowed, and out to the user at the cap. An empty plan and a review without a verdict below the
  cap are errors.\<close>

theorem shipped_charter_outcome:
  "firstMatch shippedTransitions s m =
     (if ssCurrentStage s = ''plan'' \<and> 0 < ssPlanSubtaskCount s then Inr (''code'', False)
      else if ssCurrentStage s = ''code'' \<and> ssAllSubtasksTerminal s then Inr (''review'', False)
      else if ssCurrentStage s = ''review'' \<and> ssDecision s = ''REWORK'' \<and> ssReworkCount s < m
      then Inr (''code'', False)
      else if ssCurrentStage s = ''review'' \<and> (ssDecision s = ''APPROVE'' \<or> m \<le> ssReworkCount s)
      then Inr (''human_review'', True)
      else Inl (NoTransition (ssCurrentStage s)))"
  by (simp add: shippedTransitions_def validTerminals_def)

text \<open>Alternatives bind weaker than conjunctions, where the comment promises equal precedence from left
  to right, under which this condition is false.\<close>

lemma alternatives_bind_weaker:
  "evalWhen (anyText [[SubtasksDone], [Approved, HasSubtasks]])
     \<lparr>ssCurrentStage = ''code'', ssPlanSubtaskCount = 0, ssAllSubtasksTerminal = True,
      ssDecision = [], ssReworkCount = 0\<rparr> 2 = Inr True"
  using condition_value [of "[[SubtasksDone], [Approved, HasSubtasks]]"] by simp

text \<open>Conditions are not looked at when a charter is accepted: one with a misspelt condition is sound,
  and fails when the stage is left.\<close>

lemma misspelt_condition_fails_late:
  "evalWhen ''all_subtask_terminal'' s m = Inl (UnknownAtom ''all_subtask_terminal'')"
  by code_simp

end
