(* ===== verification/Skill_Server.thy ===== *)
theory Skill_Server
  imports Charter Patch Harness_Store "HOL-Library.Sublist"
begin

text \<open>
  The versions of the charter: \<open>internal/store/harness_skill_store.go\<close>, the service that edits them
  (\<open>internal/ipc/harness_server.go\<close>) and the one that decides on proposed patches
  (\<open>internal/ipc/harness_attempt_server.go\<close>). The state is the table, the file \<open>SKILL.md\<close>, the
  charter the orchestrator runs on, and the attempts. The service holds its lock through a whole editing
  call, so such a call is one function; the decision on an attempt runs outside of that lock, and
  what others do to the attempts before it is an argument. The YAML library and the hash are
  parameters \<open>u\<close> and \<open>h\<close>.
\<close>

section \<open>The store\<close>

record skill_version =
  svID :: string
  svContent :: string
  svHash :: string
  svCreatedAt :: time
  svCreatedBy :: string
  svParent :: string

definition filled :: "time \<Rightarrow> string \<Rightarrow> skill_version \<Rightarrow> skill_version" where
  "filled now newID v = v\<lparr>svID := (if svID v = [] then newID else svID v),
     svCreatedAt := (if svCreatedAt v = 0 then now else svCreatedAt v),
     svCreatedBy := (if svCreatedBy v = [] then ''user'' else svCreatedBy v)\<rparr>"

definition skillExec ::
  "ctx \<Rightarrow> skill_version \<Rightarrow> skill_version list \<Rightarrow> store_error + string \<times> bool \<times> skill_version list" where
  "skillExec c v rows =
     (case ctxErr c of Some e \<Rightarrow> Inl (EExec e)
      | None \<Rightarrow>
        if hasKey svID (svID v) rows then Inl (EConstraint ''UNIQUE'')
        else if svParent v \<noteq> [] \<and> \<not> hasKey svID (svParent v) rows then Inl (EConstraint ''FOREIGN KEY'')
        else Inr (svID v, True, rows @ [v]))"

definition skillInsert ::
  "time \<Rightarrow> string \<Rightarrow> ctx \<Rightarrow> ctx \<Rightarrow> skill_version \<Rightarrow> skill_version list \<Rightarrow>
     store_error + string \<times> bool \<times> skill_version list" where
  "skillInsert now newID c1 c2 v0 rows =
     (if svHash v0 = [] then Inl (EMissingField ''content_hash'')
      else let v = filled now newID v0
           in if svCreatedBy v = ''user'' \<or> svCreatedBy v = ''migrated''
              then (case ctxErr c1 of Some e \<Rightarrow> Inl (EExec e)
                    | None \<Rightarrow> (case lookupBy svHash (svHash v) rows of
                         Some old \<Rightarrow> Inr (svID old, False, rows)
                       | None \<Rightarrow> skillExec c2 v rows))
              else skillExec c2 v rows)"

text \<open>\<open>ORDER BY created_at DESC, id DESC\<close>.\<close>

definition newestSkills :: "skill_version list \<Rightarrow> skill_version list" where
  "newestSkills rows = rev (sort_key svCreatedAt
     (sort_key (\<lambda>v. map (of_char :: char \<Rightarrow> nat) (svID v)) rows))"

definition skillList :: "ctx \<Rightarrow> int \<Rightarrow> skill_version list \<Rightarrow> store_error + skill_version list" where
  "skillList c n rows =
     (let limit = (if n \<le> 0 then 100 else n)
      in case ctxErr c of Some e \<Rightarrow> Inl (EExec e)
         | None \<Rightarrow> Inr (take (nat limit) (newestSkills rows)))"

definition skillLatest :: "ctx \<Rightarrow> skill_version list \<Rightarrow> store_error + skill_version" where
  "skillLatest c rows =
     (case ctxErr c of Some e \<Rightarrow> Inl (EExec e)
      | None \<Rightarrow> (case newestSkills rows of [] \<Rightarrow> Inl ENotFound | v # _ \<Rightarrow> Inr v))"

definition skillGet :: "ctx \<Rightarrow> string \<Rightarrow> skill_version list \<Rightarrow> store_error + skill_version" where
  "skillGet c i rows =
     (case ctxErr c of Some e \<Rightarrow> Inl (EExec e)
      | None \<Rightarrow> (case lookupBy svID i rows of None \<Rightarrow> Inl ENotFound | Some v \<Rightarrow> Inr v))"

section \<open>The editing service\<close>

record skill_world =
  skVersions :: "skill_version list"
  skFile :: "string option"
  skLive :: "charter option"
  skAttempts :: "attempt list"

text \<open>What a call meets: the clock, a fresh id, the context at each access to the database, whether a
  subscriber is set, and whether reading and writing the file works.\<close>

record skill_env =
  seNow :: time
  seNewID :: string
  seCtx :: "nat \<Rightarrow> ctx"
  seSubscribed :: bool
  seReadErr :: "string option"
  seWriteOk :: bool

datatype skill_error =
    InvalidArgument string
  | SkillInvalid "charter_problem list"
  | SkillParse charter_error
  | SkillStore store_error
  | SkillNotFound string
  | SkillFile string
  | SkillPatch patch_error
  | AttemptNotFound string
  | AttemptDecided string
  | AttemptFailed store_error

record harness_skill =
  hsArtifactID :: string
  hsVersion :: int
  hsContent :: string
  hsHash :: string
  hsCreatedAt :: time

definition skillVersionToProto :: "skill_version \<Rightarrow> int \<Rightarrow> harness_skill" where
  "skillVersionToProto v n = \<lparr>hsArtifactID = svID v, hsVersion = n, hsContent = svContent v,
     hsHash = svHash v, hsCreatedAt = svCreatedAt v\<rparr>"

definition countVersions :: "ctx \<Rightarrow> skill_version list \<Rightarrow> store_error + int" where
  "countVersions c rows = map_sum id (\<lambda>vs. int (length vs)) (skillList c 0 rows)"

definition versionNumber :: "ctx \<Rightarrow> skill_version list \<Rightarrow> int" where
  "versionNumber c rows = (case countVersions c rows of Inl _ \<Rightarrow> 1 | Inr n \<Rightarrow> n)"

definition readSkillFile ::
  "(string \<Rightarrow> string) \<Rightarrow> skill_env \<Rightarrow> skill_world \<Rightarrow> skill_error + string \<times> string" where
  "readSkillFile h e w =
     (case seReadErr e of Some err \<Rightarrow> Inl (SkillFile err)
      | None \<Rightarrow> (case skFile w of
           None \<Rightarrow> Inl (SkillFile ''not found'')
         | Some content \<Rightarrow> Inr (content, h content)))"

text \<open>A temporary file is written and renamed: the file holds the old or the new content.\<close>

definition atomicWrite :: "skill_env \<Rightarrow> string \<Rightarrow> skill_world \<Rightarrow> skill_world" where
  "atomicWrite e content w = (if seWriteOk e then w\<lparr>skFile := Some content\<rparr> else w)"

definition getActiveSkill ::
  "(string \<Rightarrow> string) \<Rightarrow> skill_env \<Rightarrow> skill_world \<Rightarrow> skill_error + harness_skill" where
  "getActiveSkill h e w =
     (case skillLatest (seCtx e 0) (skVersions w) of
        Inl ENotFound \<Rightarrow>
          map_sum id (\<lambda>(content, hash). \<lparr>hsArtifactID = [], hsVersion = 0, hsContent = content,
            hsHash = hash, hsCreatedAt = seNow e\<rparr>) (readSkillFile h e w)
      | Inl err \<Rightarrow> Inl (SkillStore err)
      | Inr v \<Rightarrow> Inr (skillVersionToProto v (versionNumber (seCtx e 1) (skVersions w))))"

definition listSkillVersions :: "skill_env \<Rightarrow> skill_world \<Rightarrow> skill_error + harness_skill list" where
  "listSkillVersions e w =
     (case skillList (seCtx e 0) 100 (skVersions w) of
        Inl err \<Rightarrow> Inl (SkillStore err)
      | Inr rows \<Rightarrow> Inr (map (\<lambda>(i, v). skillVersionToProto (v\<lparr>svContent := []\<rparr>) (int (length rows) - int i))
          (enumerate 0 rows)))"

definition validateCharter ::
  "(string \<Rightarrow> string + rawCharter) \<Rightarrow> string \<Rightarrow> (charter_problem list + charter_error) \<times> charter_warning list" where
  "validateCharter u content =
     (case parseCharter u content of
        Inl (InvalidCharter errs warns) \<Rightarrow> (Inl errs, warns)
      | Inl err \<Rightarrow> (Inr err, [])
      | Inr c \<Rightarrow> (Inl [],
          (case validate c of None \<Rightarrow> [] | Some (_, warns) \<Rightarrow> warns)
          @ (if cTransitions c = [] then [NoTransitionsDefined] else [])))"

definition validateSkill :: "(string \<Rightarrow> string + rawCharter) \<Rightarrow> string \<Rightarrow> bool" where
  "validateSkill u content = (fst (validateCharter u content) = Inl [])"

definition updateSkill ::
  "(string \<Rightarrow> string + rawCharter) \<Rightarrow> (string \<Rightarrow> string) \<Rightarrow> skill_env \<Rightarrow> string \<Rightarrow> string \<Rightarrow> string \<Rightarrow>
     skill_world \<Rightarrow> (skill_error + harness_skill) \<times> skill_world" where
  "updateSkill u h e content by_whom parent w =
     (if content = [] then (Inl (InvalidArgument ''content_md''), w)
      else case parseCharter u content of
        Inl (InvalidCharter errs _) \<Rightarrow> (Inl (SkillInvalid errs), w)
      | Inl err \<Rightarrow> (Inl (SkillParse err), w)
      | Inr c \<Rightarrow>
          (case skillInsert (seNow e) (seNewID e) (seCtx e 1) (seCtx e 2)
              \<lparr>svID = seNewID e, svContent = content, svHash = h content, svCreatedAt = 0,
               svCreatedBy = by_whom, svParent = parent\<rparr> (skVersions w) of
             Inl err \<Rightarrow> (Inl (SkillStore err), w)
           | Inr (i, inserted, rows) \<Rightarrow>
               let w1 = atomicWrite e content (w\<lparr>skVersions := rows\<rparr>);
                   w2 = (if seSubscribed e then w1\<lparr>skLive := Some c\<rparr> else w1);
                   n = versionNumber (seCtx e 3) rows
               in (case skillGet (seCtx e 4) i rows of
                     Inl _ \<Rightarrow> (Inr \<lparr>hsArtifactID = i, hsVersion = n, hsContent = content,
                                  hsHash = h content, hsCreatedAt = seNow e\<rparr>, w2)
                   | Inr v \<Rightarrow> (Inr (skillVersionToProto v n), w2))))"

definition applyEvolverPatch ::
  "(string \<Rightarrow> string + rawCharter) \<Rightarrow> (string \<Rightarrow> string) \<Rightarrow> skill_env \<Rightarrow> string \<Rightarrow> string \<Rightarrow>
     skill_world \<Rightarrow> (skill_error + harness_skill) \<times> skill_world" where
  "applyEvolverPatch u h e attemptID patch w =
     (if attemptID = [] \<or> patch = [] then (Inl (InvalidArgument ''attemptID, patch''), w)
      else case readSkillFile h e w of
        Inl err \<Rightarrow> (Inl err, w)
      | Inr (current, _) \<Rightarrow>
          (case applyPatch current patch of
             Inl err \<Rightarrow> (Inl (SkillPatch err), w)
           | Inr next_text \<Rightarrow> updateSkill u h e next_text (''evolver:'' @ attemptID) [] w))"

definition rollbackSkill ::
  "(string \<Rightarrow> string + rawCharter) \<Rightarrow> (string \<Rightarrow> string) \<Rightarrow> skill_env \<Rightarrow> string \<Rightarrow>
     skill_world \<Rightarrow> (skill_error + harness_skill) \<times> skill_world" where
  "rollbackSkill u h e i w =
     (if i = [] then (Inl (InvalidArgument ''artifact_id''), w)
      else case skillGet (seCtx e 0) i (skVersions w) of
        Inl ENotFound \<Rightarrow> (Inl (SkillNotFound i), w)
      | Inl err \<Rightarrow> (Inl (SkillStore err), w)
      | Inr target \<Rightarrow>
          (if svContent target = []
           then (case readSkillFile h e w of
                   Inl err \<Rightarrow> (Inl err, w)
                 | Inr (content, _) \<Rightarrow> updateSkill u h e content (''rollback:'' @ i) i w)
           else updateSkill u h e (svContent target) (''rollback:'' @ i) i w))"

section \<open>Decisions on attempts\<close>

definition mapAttemptError :: "store_error \<Rightarrow> string \<Rightarrow> skill_error" where
  "mapAttemptError err i =
     (if err = ENotFound then AttemptNotFound i
      else if err = EStaleUpdate then AttemptDecided i
      else AttemptFailed err)"

definition serverListPending :: "ctx \<Rightarrow> skill_world \<Rightarrow> skill_error + attempt list" where
  "serverListPending c w = map_sum SkillStore id (listPending c 100 (skAttempts w))"

definition serverListForTask :: "ctx \<Rightarrow> string \<Rightarrow> skill_world \<Rightarrow> skill_error + attempt list" where
  "serverListForTask c t w =
     (if t = [] then Inl (InvalidArgument ''task_id'')
      else map_sum SkillStore id (listForTask c t 100 (skAttempts w)))"

text \<open>\<open>applies\<close> tells whether the server has an applier; \<open>rivals\<close> is what others do to the attempts after
  the patch and before the decision is written.\<close>

definition promotePatch ::
  "(string \<Rightarrow> string + rawCharter) \<Rightarrow> (string \<Rightarrow> string) \<Rightarrow> bool \<Rightarrow> skill_env \<Rightarrow> attempt \<Rightarrow>
     skill_world \<Rightarrow> skill_error option \<times> skill_world" where
  "promotePatch u h applies e a w =
     (if applies \<and> hProposedPatch a \<noteq> []
      then (case applyEvolverPatch u h e (hID a) (hProposedPatch a) w of
              (Inl err, w') \<Rightarrow> (Some err, w') | (Inr _, w') \<Rightarrow> (None, w'))
      else (None, w))"

definition approveAttempt ::
  "(string \<Rightarrow> string + rawCharter) \<Rightarrow> (string \<Rightarrow> string) \<Rightarrow> bool \<Rightarrow> skill_env \<Rightarrow> attempt_op list \<Rightarrow>
     string \<Rightarrow> string \<Rightarrow> skill_world \<Rightarrow> (skill_error + attempt) \<times> skill_world" where
  "approveAttempt u h applies e rivals i who w =
     (if i = [] then (Inl (InvalidArgument ''id''), w)
      else case attemptGet (seCtx e 0) i (skAttempts w) of
        Inl err \<Rightarrow> (Inl (mapAttemptError err i), w)
      | Inr a \<Rightarrow>
          (if hDecision a \<noteq> ''pending'' then (Inl (AttemptDecided i), w)
           else let (r, w1) = promotePatch u h applies e a w
                in (case r of Some err \<Rightarrow> (Inl err, w1)
                    | None \<Rightarrow>
                        let w2 = w1\<lparr>skAttempts := fold attemptStep rivals (skAttempts w1)\<rparr>
                        in (case updateDecision (seNow e) (seCtx e 5) (seCtx e 6) i ''approved'' who (skAttempts w2) of
                              (Inl err, as) \<Rightarrow> (Inl (mapAttemptError err i), w2\<lparr>skAttempts := as\<rparr>)
                            | (Inr a', as) \<Rightarrow> (Inr a', w2\<lparr>skAttempts := as\<rparr>)))))"

definition rejectAttempt ::
  "skill_env \<Rightarrow> string \<Rightarrow> string \<Rightarrow> skill_world \<Rightarrow> (skill_error + attempt) \<times> skill_world" where
  "rejectAttempt e i who w =
     (if i = [] then (Inl (InvalidArgument ''id''), w)
      else case updateDecision (seNow e) (seCtx e 0) (seCtx e 1) i ''rejected'' who (skAttempts w) of
        (Inl err, as) \<Rightarrow> (Inl (mapAttemptError err i), w\<lparr>skAttempts := as\<rparr>)
      | (Inr a', as) \<Rightarrow> (Inr a', w\<lparr>skAttempts := as\<rparr>))"

end
