(* ===== verification/Skill_Theorems.thy ===== *)
theory Skill_Theorems
  imports Skill_Server
begin

text \<open>
  What the charter service keeps: an append-only history of accepted charters, the running charter
  among them, and a decision that is taken after the patch has been applied.
\<close>

section \<open>One editing call\<close>

lemma skillExec_cases:
  "skillExec c v rows = Inr (i, ins, rows') \<Longrightarrow>
     ins \<and> rows' = rows @ [v] \<and> i = svID v \<and> i \<notin> svID ` set rows
     \<and> (svParent v = [] \<or> svParent v \<in> svID ` set rows)"
  by (auto simp: skillExec_def hasKey_iff split: option.splits if_splits)

lemma filled_simps [simp]:
  "svContent (filled now newID v) = svContent v" "svHash (filled now newID v) = svHash v"
  "svParent (filled now newID v) = svParent v"
  by (simp_all add: filled_def)

lemma skillInsert_cases:
  assumes "skillInsert now newID c1 c2 v rows = Inr (i, ins, rows')"
  shows "svHash v \<noteq> [] \<and>
    ((ins \<and> rows' = rows @ [filled now newID v] \<and> i = svID (filled now newID v)
        \<and> i \<notin> svID ` set rows \<and> (svParent v = [] \<or> svParent v \<in> svID ` set rows))
     \<or> (\<not> ins \<and> rows' = rows \<and> (\<exists>old\<in>set rows. svID old = i \<and> svHash old = svHash v)
        \<and> svCreatedBy (filled now newID v) \<in> {''user'', ''migrated''}))"
  using assms
  by (auto simp: skillInsert_def Let_def dest!: skillExec_cases lookupBy_SomeD
      split: option.splits if_splits)

lemma updateSkill_cases:
  assumes "updateSkill u h e content who parent w = (r, w')"
  obtains (refused) err where "r = Inl err" "w' = w"
  | (accepted) s c i ins rows where "r = Inr s" "content \<noteq> []" "parseCharter u content = Inr c"
      "skillInsert (seNow e) (seNewID e) (seCtx e 1) (seCtx e 2)
         \<lparr>svID = seNewID e, svContent = content, svHash = h content, svCreatedAt = 0,
          svCreatedBy = who, svParent = parent\<rparr> (skVersions w) = Inr (i, ins, rows)"
      "w' = w\<lparr>skVersions := rows, skFile := (if seWriteOk e then Some content else skFile w),
              skLive := (if seSubscribed e then Some c else skLive w)\<rparr>"
      "hsArtifactID s = i"
proof (cases "content = [] \<or> (\<exists>err. r = Inl err)")
  case True
  with assms have "\<exists>err. r = Inl err" "w' = w"
    by (auto simp: updateSkill_def Let_def split: sum.splits charter_error.splits if_splits)
  then show thesis using refused by blast
next
  case False
  with assms obtain c where c: "parseCharter u content = Inr c" "content \<noteq> []"
    by (auto simp: updateSkill_def split: sum.splits charter_error.splits)
  with assms False obtain i ins rows where ins: "skillInsert (seNow e) (seNewID e) (seCtx e 1) (seCtx e 2)
         \<lparr>svID = seNewID e, svContent = content, svHash = h content, svCreatedAt = 0,
          svCreatedBy = who, svParent = parent\<rparr> (skVersions w) = Inr (i, ins, rows)"
    by (auto simp: updateSkill_def split: sum.splits)
  have "\<exists>s. r = Inr s \<and> hsArtifactID s = i"
    using assms c ins
    by (auto simp: updateSkill_def Let_def skillGet_def skillVersionToProto_def
        split: sum.splits option.splits dest: lookupBy_SomeD)
  moreover have "w' = w\<lparr>skVersions := rows, skFile := (if seWriteOk e then Some content else skFile w),
      skLive := (if seSubscribed e then Some c else skLive w)\<rparr>"
    using assms c ins
    by (auto simp: updateSkill_def Let_def atomicWrite_def split: sum.splits)
  ultimately show thesis using accepted c ins by blast
qed

section \<open>The history\<close>

definition soundVersion :: "(string \<Rightarrow> string + rawCharter) \<Rightarrow> (string \<Rightarrow> string) \<Rightarrow> skill_version \<Rightarrow> bool" where
  "soundVersion u h v \<longleftrightarrow> isOk (parseCharter u (svContent v)) \<and> svHash v = h (svContent v)"

definition soundHistory ::
  "(string \<Rightarrow> string + rawCharter) \<Rightarrow> (string \<Rightarrow> string) \<Rightarrow> skill_version list \<Rightarrow> bool" where
  "soundHistory u h rows \<longleftrightarrow> distinct (map svID rows) \<and> (\<forall>v\<in>set rows. soundVersion u h v)
     \<and> (\<forall>k<length rows. svParent (rows ! k) = [] \<or> svParent (rows ! k) \<in> svID ` set (take k rows))"

text \<open>The charter that runs is the one the service started on, if any, or has been accepted and stored since.\<close>

definition runsStored ::
  "(string \<Rightarrow> string + rawCharter) \<Rightarrow> (string \<Rightarrow> string) \<Rightarrow> charter option \<Rightarrow> skill_world \<Rightarrow> bool" where
  "runsStored u h start w \<longleftrightarrow> skLive w = start \<or>
     (\<exists>c. skLive w = Some c \<and> parseCharter u (cRawContent c) = Inr c \<and>
       h (cRawContent c) \<in> svHash ` set (skVersions w))"

definition grownFrom ::
  "(string \<Rightarrow> string + rawCharter) \<Rightarrow> (string \<Rightarrow> string) \<Rightarrow> skill_world \<Rightarrow> skill_world \<Rightarrow> bool" where
  "grownFrom u h w0 w \<longleftrightarrow> soundHistory u h (skVersions w) \<and> runsStored u h (skLive w0) w \<and>
     prefix (skVersions w0) (skVersions w)"

datatype skill_op =
    EditSkill skill_env string
  | RollbackTo skill_env string
  | ApproveAttempt bool skill_env "attempt_op list" string string
  | RejectAttempt skill_env string string

fun skillStep ::
  "(string \<Rightarrow> string + rawCharter) \<Rightarrow> (string \<Rightarrow> string) \<Rightarrow> skill_op \<Rightarrow> skill_world \<Rightarrow> skill_world" where
  "skillStep u h (EditSkill e content) w = snd (updateSkill u h e content ''user'' [] w)"
| "skillStep u h (RollbackTo e i) w = snd (rollbackSkill u h e i w)"
| "skillStep u h (ApproveAttempt ap e rivals i who) w = snd (approveAttempt u h ap e rivals i who w)"
| "skillStep u h (RejectAttempt e i who) w = snd (rejectAttempt e i who w)"

lemma soundHistory_append:
  assumes "soundHistory u h rows" "soundVersion u h v" "svID v \<notin> svID ` set rows"
    "svParent v = [] \<or> svParent v \<in> svID ` set rows"
  shows "soundHistory u h (rows @ [v])"
  using assms by (auto simp: soundHistory_def nth_append less_Suc_eq)

lemma updateSkill_grows:
  assumes "grownFrom u h w0 w"
  shows "grownFrom u h w0 (snd (updateSkill u h e content who parent w))"
proof (cases "updateSkill u h e content who parent w" rule: prod.exhaust)
  case (Pair r w')
  then show ?thesis
  proof (cases rule: updateSkill_cases)
    case refused
    with Pair assms show ?thesis by simp
  next
    case (accepted s c i ins rows)
    let ?v = "\<lparr>svID = seNewID e, svContent = content, svHash = h content, svCreatedAt = 0,
          svCreatedBy = who, svParent = parent\<rparr>"
    note inserted = skillInsert_cases [OF accepted(4)]
    have "soundVersion u h (filled (seNow e) (seNewID e) ?v)"
      using accepted(3) by (simp add: soundVersion_def isOk_iff)
    then have hist: "soundHistory u h rows" and pre: "prefix (skVersions w) rows"
      using inserted assms by (auto simp: grownFrom_def intro: soundHistory_append)
    have "\<exists>v\<in>set rows. svHash v = h content" using inserted by auto
    then have "h content \<in> svHash ` set rows" by (metis image_eqI)
    moreover have "cRawContent c = content" using parsed_sound [OF accepted(3)] by simp
    moreover have "svHash ` set (skVersions w) \<subseteq> svHash ` set rows"
      using pre by (intro image_mono set_mono_prefix)
    ultimately have "runsStored u h (skLive w0) w'"
      using assms accepted(3) unfolding accepted(5) grownFrom_def runsStored_def by auto
    with hist pre assms Pair accepted(5) show ?thesis
      by (auto simp: grownFrom_def intro: prefix_order.trans)
  qed
qed

lemma grownFrom_attempts [simp]: "grownFrom u h w0 (w\<lparr>skAttempts := as\<rparr>) = grownFrom u h w0 w"
  by (simp add: grownFrom_def runsStored_def)

lemma applyEvolverPatch_grows:
  "grownFrom u h w0 w \<Longrightarrow> grownFrom u h w0 (snd (applyEvolverPatch u h e i patch w))"
  by (auto simp: applyEvolverPatch_def updateSkill_grows split: sum.splits)

lemma rollbackSkill_grows:
  "grownFrom u h w0 w \<Longrightarrow> grownFrom u h w0 (snd (rollbackSkill u h e i w))"
  by (auto simp: rollbackSkill_def updateSkill_grows split: sum.splits store_error.splits)

lemma promotePatch_grows:
  "grownFrom u h w0 w \<Longrightarrow> promotePatch u h ap e a w = (r, w') \<Longrightarrow> grownFrom u h w0 w'"
  using applyEvolverPatch_grows [of u h w0 w e "hID a" "hProposedPatch a"]
  by (auto simp: promotePatch_def split: if_splits prod.splits sum.splits)

lemma approveAttempt_grows:
  "grownFrom u h w0 w \<Longrightarrow> grownFrom u h w0 (snd (approveAttempt u h ap e rivals i who w))"
  by (auto simp: approveAttempt_def Let_def dest: promotePatch_grows
      split: sum.splits option.splits prod.splits)

lemma skillStep_grows: "grownFrom u h w0 w \<Longrightarrow> grownFrom u h w0 (skillStep u h a w)"
  by (cases a)
    (auto simp: updateSkill_grows rollbackSkill_grows approveAttempt_grows rejectAttempt_def split: prod.splits sum.splits)

interpretation skill_history: invariant_steps "skillStep u h" "grownFrom u h w0" for u h w0
  by unfold_locales (rule skillStep_grows)

text \<open>C11 (the history of charters is sound). Edits, rollbacks and approved patches in any order, with any
  failure of the database or the file system, keep a sound history of charters: versions are only added, each has an
  id of its own, is hashed as stored, parses, and names no parent or an earlier version. The charter the
  orchestrator runs on is the one it ran on at the start (the sidecar starts on the charter parsed from
  \<open>SKILL.md\<close>, or on none, and with an empty table), or it has been accepted since: it is what its text
  parses to, and the hash of its text is that of a stored version.\<close>

theorem skill_history_is_sound:
  assumes "soundHistory u h (skVersions w)"
  shows "soundHistory u h (skVersions (fold (skillStep u h) ops w))
    \<and> runsStored u h (skLive w) (fold (skillStep u h) ops w)
    \<and> prefix (skVersions w) (skVersions (fold (skillStep u h) ops w))"
proof -
  have "grownFrom u h w w" using assms by (simp add: grownFrom_def runsStored_def)
  then have "grownFrom u h w (fold (skillStep u h) ops w)" by (rule skill_history.run_inv)
  then show ?thesis by (simp add: grownFrom_def)
qed

section \<open>Approving a patch\<close>

lemma applyEvolverPatch_cases:
  assumes "applyEvolverPatch u h e i patch w = (r, w')"
  obtains (refused) err where "r = Inl err" "w' = w"
  | (applied) s base out c row where "r = Inr s" "skFile w = Some base"
      "applyPatch base patch = Inr out" "parseCharter u out = Inr c"
      "svContent row = out" "svHash row = h out" "svCreatedBy row = ''evolver:'' @ i" "svParent row = []"
      "w' = w\<lparr>skVersions := skVersions w @ [row], skFile := (if seWriteOk e then Some out else skFile w),
              skLive := (if seSubscribed e then Some c else skLive w)\<rparr>"
proof (cases "w' = w \<and> (\<exists>err. r = Inl err)")
  case True
  then show thesis using refused by blast
next
  case False
  with assms obtain base out where base: "skFile w = Some base" "applyPatch base patch = Inr out"
    and call: "updateSkill u h e out (''evolver:'' @ i) [] w = (r, w')"
    by (auto simp: applyEvolverPatch_def readSkillFile_def split: sum.splits option.splits if_splits)
  from call show thesis
  proof (cases rule: updateSkill_cases)
    case refused
    with False show thesis by simp
  next
    case (accepted s c k ins rows)
    then show thesis
      using base skillInsert_cases [OF accepted(4)]
      by (intro applied [of s base out c "filled (seNow e) (seNewID e) \<lparr>svID = seNewID e, svContent = out,
            svHash = h out, svCreatedAt = 0, svCreatedBy = ''evolver:'' @ i, svParent = []\<rparr>"])
        (auto simp: filled_def)
  qed
qed

text \<open>Writing a decision: not at all, or on a row that was still pending; then it stands, even when reading it back fails.\<close>

lemma updateDecision_cases:
  assumes "attemptsOk as" "updateDecision now c c2 i ''approved'' who as = (r, as')"
  obtains (refused) err where "r = Inl err" "as' = as" "ctxErr c \<noteq> None \<or> \<not> (\<exists>a\<in>set as. pendingRow i a)"
  | (unread) err where "r = Inl err" "as' = decidedRows now i ''approved'' who as" "\<exists>a\<in>set as. pendingRow i a"
      "ctxErr c2 \<noteq> None"
  | (written) a' where "r = Inr a'" "as' = decidedRows now i ''approved'' who as" "\<exists>a\<in>set as. pendingRow i a"
      "hID a' = i" "hDecision a' = ''approved''" "hDecidedBy a' = who"
proof (cases "ctxErr c = None \<and> (\<exists>a\<in>set as. pendingRow i a)")
  case False
  with assms(2) have "\<exists>err. r = Inl err \<and> as' = as"
    by (auto simp: updateDecision_def countWhere_0 split: option.splits)
  with False show thesis using refused by blast
next
  case True
  then obtain b where b: "b \<in> set as" "hID b = i" "hDecision b = ''pending''" by (auto simp: pendingRow_def)
  let ?f = "\<lambda>a. a\<lparr>hDecision := ''approved'', hDecidedBy := who, hDecidedAt := Some now\<rparr>"
  have "lookupBy hID i as = Some b" using assms(1) b lookupBy_unique [of hID as b] by (simp add: attemptsOk_def)
  then have row: "lookupBy hID i (decidedRows now i ''approved'' who as) = Some (?f b)"
    using b by (simp add: decidedRows_def lookup_pendingUpdate pendingRow_def)
  have run: "(r, as') = (attemptGet c2 i (decidedRows now i ''approved'' who as), decidedRows now i ''approved'' who as)"
    using True assms(2) by (auto simp: updateDecision_def Let_def countWhere_0 decisions_def split: if_splits)
  show thesis
  proof (cases "ctxErr c2")
    case None
    with row run b have "r = Inr (scanAttempt (?f b))" by (simp add: attemptGet_def)
    with run True b show thesis by (intro written [of "scanAttempt (?f b)"]) (simp_all add: scanAttempt_def)
  next
    case (Some e)
    with run True show thesis by (intro unread [of "EExec e"]) (simp_all add: attemptGet_def)
  qed
qed

text \<open>The charters a promoted attempt leaves: those before when there is nothing to apply, else the patched text
  of the file as a new version in the evolver's name.\<close>

definition promoted ::
  "(string \<Rightarrow> string + rawCharter) \<Rightarrow> (string \<Rightarrow> string) \<Rightarrow> bool \<Rightarrow> skill_env \<Rightarrow> attempt \<Rightarrow> skill_world \<Rightarrow> skill_world \<Rightarrow> bool" where
  "promoted u h applies e a w w' \<longleftrightarrow>
     (if applies \<and> hProposedPatch a \<noteq> []
      then \<exists>base out c row. skFile w = Some base \<and> applyPatch base (hProposedPatch a) = Inr out
        \<and> parseCharter u out = Inr c \<and> skVersions w' = skVersions w @ [row]
        \<and> svContent row = out \<and> svHash row = h out \<and> svCreatedBy row = ''evolver:'' @ hID a
        \<and> skFile w' = (if seWriteOk e then Some out else Some base)
        \<and> skLive w' = (if seSubscribed e then Some c else skLive w)
      else skVersions w' = skVersions w \<and> skFile w' = skFile w \<and> skLive w' = skLive w)"

lemma promoted_attempts [simp]: "promoted u h ap e a w (w'\<lparr>skAttempts := as\<rparr>) = promoted u h ap e a w w'"
  by (simp add: promoted_def)

lemma promotePatch_cases:
  assumes "promotePatch u h applies e a w = (p, w')"
  obtains (refused) err where "p = Some err" "w' = w"
  | (carried) "p = None" "promoted u h applies e a w w'" "skAttempts w' = skAttempts w"
proof (cases "applies \<and> hProposedPatch a \<noteq> []")
  case False
  with assms show thesis by (intro carried) (auto simp: promotePatch_def promoted_def)
next
  case True
  obtain r w1 where run: "applyEvolverPatch u h e (hID a) (hProposedPatch a) w = (r, w1)" by fastforce
  from run show thesis
  proof (cases rule: applyEvolverPatch_cases)
    case (refused err)
    with assms True run show thesis by (intro that(1)) (auto simp: promotePatch_def)
  next
    case (applied s base out c row)
    with True have "promoted u h applies e a w w1" unfolding promoted_def by auto
    with applied assms True run show thesis by (intro carried) (auto simp: promotePatch_def)
  qed
qed

text \<open>C12 (approving a patch). Whatever others do to the attempts meanwhile (\<open>rivals\<close>), and whether or not the
  server has an applier: approving an attempt either is refused before anything changed; or the attempt
  was pending when it was read, and what it proposes has been carried out: nothing when it carries no
  patch or there is no applier, else the text of the file with the patch applied parses and is stored as a new version
  in the evolver's name, written to the file unless the write fails (which is not reported), and run on when the
  orchestrator is subscribed. Only then is the decision written. It is written if the attempt is still pending, and a
  success says that it was; it is not if somebody decided or removed the attempt meanwhile or the context
  ended, and the call fails although the patch has been carried out; and it can have been written although the call fails,
  when the context ends before the row is read back.\<close>

theorem approval_outcome:
  assumes "attemptsOk (skAttempts w)" and "approveAttempt u h applies e rivals i who w = (r, w')"
  shows "(\<exists>err. r = Inl err \<and> w' = w) \<or>
    (\<exists>a. attemptGet (seCtx e 0) i (skAttempts w) = Inr a \<and> hDecision a = ''pending'' \<and> promoted u h applies e a w w' \<and>
       (let as = fold attemptStep rivals (skAttempts w) in
         (\<exists>err. r = Inl err \<and> skAttempts w' = as \<and> (ctxErr (seCtx e 5) \<noteq> None \<or> \<not> (\<exists>b\<in>set as. pendingRow i b))) \<or>
         (\<exists>err. r = Inl err \<and> skAttempts w' = decidedRows (seNow e) i ''approved'' who as \<and>
            (\<exists>b\<in>set as. pendingRow i b) \<and> ctxErr (seCtx e 6) \<noteq> None) \<or>
         (\<exists>a'. r = Inr a' \<and> skAttempts w' = decidedRows (seNow e) i ''approved'' who as \<and>
            (\<exists>b\<in>set as. pendingRow i b) \<and> hID a' = i \<and> hDecision a' = ''approved'' \<and> hDecidedBy a' = who)))"
proof (cases "\<exists>a. i \<noteq> [] \<and> attemptGet (seCtx e 0) i (skAttempts w) = Inr a \<and> hDecision a = ''pending''")
  case False
  with assms(2) show ?thesis by (auto simp: approveAttempt_def split: sum.splits if_splits)
next
  case True
  then obtain a where a: "i \<noteq> []" "attemptGet (seCtx e 0) i (skAttempts w) = Inr a" "hDecision a = ''pending''"
    by blast
  obtain p w1 where p: "promotePatch u h applies e a w = (p, w1)" by fastforce
  then show ?thesis
  proof (cases rule: promotePatch_cases)
    case (refused err)
    with assms(2) a p show ?thesis by (auto simp: approveAttempt_def)
  next
    case carried
    let ?as = "fold attemptStep rivals (skAttempts w)"
    have ok: "attemptsOk ?as" using assms(1) by (rule attempt_status.run_inv)
    obtain d as' where d: "updateDecision (seNow e) (seCtx e 5) (seCtx e 6) i ''approved'' who ?as = (d, as')" by fastforce
    have run: "r = (case d of Inl err \<Rightarrow> Inl (mapAttemptError err i) | Inr a' \<Rightarrow> Inr a')" "w' = w1\<lparr>skAttempts := as'\<rparr>"
      using assms(2) a p carried d by (auto simp: approveAttempt_def Let_def split: sum.splits)
    from ok d show ?thesis
      by (cases rule: updateDecision_cases; use run carried a in \<open>simp add: Let_def\<close>)
  qed
qed

section \<open>Runs\<close>

definition sampleHarness :: rawCharter where
  "sampleHarness = \<lparr>rHarnessVersion = 1, rStages = [''plan'', ''code'', ''review''], rMaxReworkCount = 2,
     rContract = [], rTransitions = shippedTransitions, rFailureTaxonomy = [], rPrompts = []\<rparr>"

definition sampleYAML :: "string \<Rightarrow> string + rawCharter" where
  "sampleYAML fm = (if fm = ''bad'' then Inl ''yaml'' else Inr sampleHarness)"

definition charterText :: "string \<Rightarrow> string" where
  "charterText fm = ''---'' @ [NL] @ fm @ fenceLine"

definition skillEnv :: "nat \<Rightarrow> string \<Rightarrow> skill_env" where
  "skillEnv now i = \<lparr>seNow = now, seNewID = i, seCtx = (\<lambda>_. Live), seSubscribed = True,
     seReadErr = None, seWriteOk = True\<rparr>"

definition emptySkills :: skill_world where
  "emptySkills = \<lparr>skVersions = [], skFile = None, skLive = None, skAttempts = []\<rparr>"

definition sampleCharter :: "string \<Rightarrow> charter" where
  "sampleCharter fm = charterOf sampleHarness [] (charterText fm)"

definition sampleVersion :: "string \<Rightarrow> nat \<Rightarrow> string \<Rightarrow> string \<Rightarrow> skill_version" where
  "sampleVersion i now fm who = \<lparr>svID = i, svContent = charterText fm, svHash = charterText fm,
     svCreatedAt = now, svCreatedBy = who, svParent = []\<rparr>"

lemma sample_parses:
  "parseCharter sampleYAML (charterText ''a'') = Inr (sampleCharter ''a'')"
  "parseCharter sampleYAML (charterText ''b'') = Inr (sampleCharter ''b'')"
  by code_simp+

definition pendingAttempt :: attempt where
  "pendingAttempt = sampleAttempt\<lparr>hDecision := ''pending'', hDecidedBy := [], hDecidedAt := None,
     hProposedPatch := joinWith [NL] [''@@ -2 +2 @@'', ''-a'', ''+b'']\<rparr>"

lemma sample_patch: "applyPatch (charterText ''a'') (hProposedPatch pendingAttempt) = Inr (charterText ''b'')"
  by code_simp

text \<open>A user who saves an earlier text again makes no version: the file and the running charter are the
  earlier one, and the service still shows the later one as active.\<close>

lemma resaved_charter_is_not_active:
  "let w = fold (skillStep sampleYAML id)
        [EditSkill (skillEnv 1 ''1'') (charterText ''a''), EditSkill (skillEnv 2 ''2'') (charterText ''b''),
         EditSkill (skillEnv 3 ''3'') (charterText ''a'')] emptySkills
   in skFile w = Some (charterText ''a'') \<and> map_option cRawContent (skLive w) = Some (charterText ''a'')
      \<and> map_sum id hsContent (getActiveSkill id (skillEnv 4 ''4'') w) = Inr (charterText ''b'')"
  by code_simp

text \<open>When an attempt is rejected between the patch and the decision, the approval fails as already
  decided, and the rejected patch runs.\<close>

definition pendingWorld :: skill_world where
  "pendingWorld = \<lparr>skVersions = [sampleVersion ''1'' 1 ''a'' ''user''], skFile = Some (charterText ''a''),
     skLive = Some (sampleCharter ''a''), skAttempts = [pendingAttempt]\<rparr>"

lemma rejected_patch_runs:
  "let (r, w) = approveAttempt sampleYAML id True (skillEnv 2 ''2'') [OpDecide 2 Live Live ''a1'' ''rejected'' ''bob'']
        ''a1'' ''ann'' pendingWorld
   in r = Inl (AttemptDecided ''a1'') \<and> map hDecision (skAttempts w) = [''rejected'']
      \<and> skFile w = Some (charterText ''b'') \<and> map_option cRawContent (skLive w) = Some (charterText ''b'')"
  by code_simp

text \<open>Versions are counted on a list that ends at a hundred entries, so their number stops there.\<close>

lemma version_number_stops:
  assumes "100 \<le> length rows"
  shows "versionNumber Live rows = 100"
  using assms by (simp add: versionNumber_def countVersions_def skillList_def newestSkills_def)

text \<open>An approval whose context ends once the decision is committed fails, and the decision stands.\<close>

lemma unread_approval_stands:
  "let e = (skillEnv 2 ''2'')\<lparr>seCtx := (\<lambda>n. if n = 6 then Done ''canceled'' else Live)\<rparr>;
       (r, w) = approveAttempt sampleYAML id True e [] ''a1'' ''ann'' pendingWorld
   in \<not> isOk r \<and> map hDecision (skAttempts w) = [''approved'']"
  by code_simp

lemma empty_is_sound: "soundHistory u h (skVersions emptySkills)"
  by (simp add: emptySkills_def soundHistory_def)

theorem skill_history_is_sound_witness:
  "soundHistory sampleYAML id [sampleVersion ''1'' 1 ''a'' ''user'', sampleVersion ''2'' 2 ''b'' ''user'']"
proof -
  let ?ops = "[EditSkill (skillEnv 1 ''1'') (charterText ''a''), EditSkill (skillEnv 2 ''2'') (charterText ''b''),
     EditSkill (skillEnv 3 ''3'') (charterText ''bad'')]"
  have "skVersions (fold (skillStep sampleYAML id) ?ops emptySkills) =
      [sampleVersion ''1'' 1 ''a'' ''user'', sampleVersion ''2'' 2 ''b'' ''user'']" by code_simp
  with skill_history_is_sound [OF empty_is_sound, of sampleYAML id ?ops] show ?thesis by simp
qed

lemma pending_read: "attemptGet Live ''a1'' [pendingAttempt] = Inr pendingAttempt"
  by code_simp

lemma pendingAttempt_simps [simp]:
  "hProposedPatch pendingAttempt \<noteq> []" "hID pendingAttempt = ''a1''" "hDecision pendingAttempt = ''pending''"
  by (simp_all add: pendingAttempt_def sampleAttempt_def)

lemma sample_approval: "isOk (fst (approveAttempt sampleYAML id True (skillEnv 2 ''2'') [] ''a1'' ''ann'' pendingWorld))"
  by code_simp

theorem approval_outcome_witness:
  "skFile (snd (approveAttempt sampleYAML id True (skillEnv 2 ''2'') [] ''a1'' ''ann'' pendingWorld)) = Some (charterText ''b'')"
proof -
  let ?run = "approveAttempt sampleYAML id True (skillEnv 2 ''2'') [] ''a1'' ''ann'' pendingWorld"
  have ok: "attemptsOk (skAttempts pendingWorld)"
    by (simp add: attemptsOk_def pendingWorld_def decisions_def)
  obtain a' where "fst ?run = Inr a'" using sample_approval by (auto simp: isOk_iff)
  with approval_outcome [OF ok, of sampleYAML id True "skillEnv 2 ''2''" "[]" "''a1''" "''ann''" "fst ?run" "snd ?run"]
  have "promoted sampleYAML id True (skillEnv 2 ''2'') pendingAttempt pendingWorld (snd ?run)"
    by (auto simp: pendingWorld_def skillEnv_def pending_read)
  then show ?thesis
    by (auto simp: promoted_def pendingWorld_def skillEnv_def sample_patch)
qed

end
