(* ===== verification/App_Subtasks.thy ===== *)
theory App_Subtasks
  imports App_Theorems Skill_Theorems
begin

text \<open>
  The UI's operations on subtasks in \<open>internal/app/service.go\<close>, and the record of what a session was told:
  \<open>internal/store/subtask_context_store.go\<close>, \<open>GetSubtaskContext\<close> and \<open>ReadActiveSkillMD\<close>
  (\<open>internal/copilot/bootstrap.go\<close>).
\<close>

section \<open>Operations on subtasks\<close>

definition mSubtaskGet :: "ctx_name \<Rightarrow> string \<Rightarrow> ('z world_scheme, store_error + subtask) state" where
  "mSubtaskGet c i = storeRead c (\<lambda>cx d. subtaskGet cx i d)"

definition mSubtaskMaxOrderIdx :: "ctx_name \<Rightarrow> string \<Rightarrow> ('z world_scheme, store_error + int) state" where
  "mSubtaskMaxOrderIdx c p = storeRead c (\<lambda>cx d. subtaskMaxOrderIdx cx p d)"

definition listSubtasks :: "string \<Rightarrow> (app_error + subtask list) app" where
  "listSubtasks p =
     (if p = [] then State_Monad.return (Inl AppRequired)
      else do {
        r \<leftarrow> storeRead CallCtx (\<lambda>cx d. subtaskListByTask cx p d);
        State_Monad.return (map_sum AppStore id r)
      })"

record create_subtask_input =
  csTaskID :: string
  csTitle :: string
  csAgentRole :: string
  csDependsOn :: "string list"
  csWritePaths :: "string list"
  csStatus :: "subtask_status option"
  csOrderIdx :: int

definition newSubtask :: "create_subtask_input \<Rightarrow> string \<Rightarrow> int \<Rightarrow> time \<Rightarrow> subtask" where
  "newSubtask inp i idx now =
     \<lparr>sID = i, sTaskID = csTaskID inp, sTitle = trimSpace (csTitle inp),
      sAgentRole = trimSpace (csAgentRole inp), sDependsOn = csDependsOn inp, sWritePaths = csWritePaths inp,
      sStatus = (case csStatus inp of None \<Rightarrow> SubtaskPending | Some s \<Rightarrow> s), sOrderIdx = idx,
      sCodeModel = [], sRound = 0, sPrompt = [], sCreatedAt = now, sUpdatedAt = 0\<rparr>"

definition nextOrderIdx :: "create_subtask_input \<Rightarrow> (app_error + int) app" where
  "nextOrderIdx inp =
     (if csOrderIdx inp \<le> 0
      then do {
        r \<leftarrow> mSubtaskMaxOrderIdx CallCtx (csTaskID inp);
        State_Monad.return (map_sum AppStore (\<lambda>m. m + 1) r)
      }
      else State_Monad.return (Inr (csOrderIdx inp)))"

definition createSubtask :: "create_subtask_input \<Rightarrow> (app_error + subtask) app" where
  "createSubtask inp =
     (if csTaskID inp = [] \<or> trimSpace (csTitle inp) = [] then State_Monad.return (Inl AppRequired)
      else do {
        r \<leftarrow> mTaskGet CallCtx (csTaskID inp);
        case r of Inl e \<Rightarrow> State_Monad.return (Inl (AppStore e))
        | Inr _ \<Rightarrow> do {
            k \<leftarrow> nextOrderIdx inp;
            case k of Inl e \<Rightarrow> State_Monad.return (Inl e)
            | Inr idx \<Rightarrow> do {
                i \<leftarrow> newULID;
                now \<leftarrow> readClock;
                x \<leftarrow> mSubtaskCreate CallCtx (newSubtask inp i idx now);
                State_Monad.return (map_sum AppStore (\<lambda>_. newSubtask inp i idx now) x)
              }
          }
      })"

text \<open>The edit the UI asks for: a title that is not blank, a status that is given.\<close>

definition editedSubtask :: "string \<Rightarrow> subtask_status option \<Rightarrow> subtask \<Rightarrow> subtask" where
  "editedSubtask title st s =
     (let s1 = (if trimSpace title \<noteq> [] then s\<lparr>sTitle := trimSpace title\<rparr> else s)
      in case st of None \<Rightarrow> s1 | Some x \<Rightarrow> s1\<lparr>sStatus := x\<rparr>)"

datatype subtask_edit_error = EditRequired | EditStatus subtask_status | EditStore store_error

definition updateSubtask ::
  "string \<Rightarrow> string \<Rightarrow> subtask_status option \<Rightarrow> (subtask_edit_error + subtask) app" where
  "updateSubtask i title st =
     (if i = [] then State_Monad.return (Inl EditRequired)
      else do {
        r \<leftarrow> mSubtaskGet CallCtx i;
        case r of Inl e \<Rightarrow> State_Monad.return (Inl (EditStore e))
        | Inr s \<Rightarrow>
            (case (case st of None \<Rightarrow> None | Some x \<Rightarrow> if subtaskStatusValid x then None else Some x) of
               Some x \<Rightarrow> State_Monad.return (Inl (EditStatus x))
             | None \<Rightarrow> do {
                 u \<leftarrow> mSubtaskUpdate CallCtx (editedSubtask title st s);
                 State_Monad.return (map_sum EditStore (\<lambda>_. editedSubtask title st s) u)
               })
      })"

definition deleteSubtask :: "string \<Rightarrow> (app_error + unit) app" where
  "deleteSubtask i =
     (if i = [] then State_Monad.return (Inl AppRequired)
      else do {
        r \<leftarrow> mSubtaskDelete CallCtx i;
        State_Monad.return (map_sum AppStore id r)
      })"

definition reorderSubtasks :: "string \<Rightarrow> string list \<Rightarrow> (app_error + unit) app" where
  "reorderSubtasks p is =
     (if p = [] \<or> is = [] then State_Monad.return (Inl AppRequired)
      else do {
        r \<leftarrow> mSubtaskReorder CallCtx p is;
        State_Monad.return (map_sum AppStore id r)
      })"

section \<open>What a session was told\<close>

record subtask_ctx =
  scSubtaskID :: string
  scRound :: int
  scHarnessVersionID :: string
  scSystemPrompt :: string
  scUserPrompt :: string
  scStagePromptTemplate :: string
  scPlanSummary :: string
  scPriorSummaries :: "string list"
  scMemoryBlock :: string
  scOutputLanguage :: string
  scCreatedAt :: time

definition ctxKey :: "subtask_ctx \<Rightarrow> string \<times> int" where
  "ctxKey x = (scSubtaskID x, scRound x)"

definition ctxFilled :: "time \<Rightarrow> subtask_ctx \<Rightarrow> subtask_ctx" where
  "ctxFilled now x = x\<lparr>scRound := (if scRound x \<le> 0 then 1 else scRound x),
     scCreatedAt := (if scCreatedAt x = 0 then now else scCreatedAt x)\<rparr>"

definition ctxUpsert ::
  "time \<Rightarrow> ctx \<Rightarrow> subtask_ctx \<Rightarrow> db \<Rightarrow> skill_version list \<Rightarrow> subtask_ctx list \<Rightarrow>
     store_error + subtask_ctx list" where
  "ctxUpsert now c x0 d versions rows =
     (if scSubtaskID x0 = [] then Inl (EMissingField ''subtask_id'')
      else let x = ctxFilled now x0
           in case ctxErr c of Some e \<Rightarrow> Inl (EExec e)
              | None \<Rightarrow>
                if \<not> hasKey q_id (scSubtaskID x) (subtasks d)
                   \<or> scHarnessVersionID x \<noteq> [] \<and> \<not> hasKey svID (scHarnessVersionID x) versions
                then Inl (EConstraint ''FOREIGN KEY'')
                else if hasKey ctxKey (ctxKey x) rows
                then Inr (updateWhere (\<lambda>r. ctxKey r = ctxKey x) (\<lambda>_. x) rows)
                else Inr (rows @ [x]))"

definition ctxGet :: "ctx \<Rightarrow> string \<Rightarrow> int \<Rightarrow> subtask_ctx list \<Rightarrow> store_error + subtask_ctx" where
  "ctxGet c i rnd rows =
     (case ctxErr c of Some e \<Rightarrow> Inl (EExec e)
      | None \<Rightarrow> (case lookupBy ctxKey (i, rnd) rows of None \<Rightarrow> Inl ENotFound | Some x \<Rightarrow> Inr x))"

definition ctxGetLatest :: "ctx \<Rightarrow> string \<Rightarrow> subtask_ctx list \<Rightarrow> store_error + subtask_ctx" where
  "ctxGetLatest c i rows =
     (case ctxErr c of Some e \<Rightarrow> Inl (EExec e)
      | None \<Rightarrow> (case rev (sort_key scRound (filter (\<lambda>x. scSubtaskID x = i) rows)) of
           [] \<Rightarrow> Inl ENotFound | x # _ \<Rightarrow> Inr x))"

datatype file_read = FileText string | FileMissing | FileError string

definition readActiveSkillMD :: "string \<Rightarrow> file_read \<Rightarrow> file_read \<Rightarrow> string + string" where
  "readActiveSkillMD skillRoot disk embedded =
     (let seed = (case embedded of FileText t \<Rightarrow> Inr t | FileMissing \<Rightarrow> Inr [] | FileError e \<Rightarrow> Inl e)
      in if skillRoot \<noteq> []
         then (case disk of FileText t \<Rightarrow> Inr t | FileError e \<Rightarrow> Inl e | FileMissing \<Rightarrow> seed)
         else seed)"

record subtask_ctx_info =
  siRow :: "subtask_ctx option"
  siSubtaskID :: string
  siRound :: int
  siHarnessMD :: string
  siNotRecorded :: bool

text \<open>\<open>versions\<close> is None when the service has no store of charters; \<open>active\<close> is the answer of
  \<open>readActiveSkillMD\<close>.\<close>

definition getSubtaskContext ::
  "(nat \<Rightarrow> ctx) \<Rightarrow> skill_version list option \<Rightarrow> string + string \<Rightarrow> string \<Rightarrow> int \<Rightarrow>
     subtask_ctx list \<Rightarrow> app_error + subtask_ctx_info" where
  "getSubtaskContext cs versions active i rnd rows =
     (if trimSpace i = [] then Inl AppRequired
      else case (if rnd \<le> 0 then ctxGetLatest (cs 0) i rows else ctxGet (cs 0) i rnd rows) of
        Inl ENotFound \<Rightarrow> Inr \<lparr>siRow = None, siSubtaskID = i, siRound = rnd, siHarnessMD = [], siNotRecorded = True\<rparr>
      | Inl e \<Rightarrow> Inl (AppStore e)
      | Inr x \<Rightarrow>
          (case (if scHarnessVersionID x = [] then Inr []
                 else case versions of None \<Rightarrow> Inr []
                 | Some vs \<Rightarrow> (case skillGet (cs 1) (scHarnessVersionID x) vs of
                      Inr v \<Rightarrow> Inr (svContent v) | Inl ENotFound \<Rightarrow> Inr [] | Inl e \<Rightarrow> Inl e)) of
             Inl e \<Rightarrow> Inl (AppStore e)
           | Inr md \<Rightarrow> Inr \<lparr>siRow = Some x, siSubtaskID = scSubtaskID x, siRound = scRound x,
               siHarnessMD = (if md = [] then (case active of Inl _ \<Rightarrow> [] | Inr t \<Rightarrow> t) else md),
               siNotRecorded = False\<rparr>))"

section \<open>Edits with the database to itself\<close>

lemma live_simps:
  assumes "liveEnv (w_env w)"
  shows "w_db (stepped w) = w_db w" "e_ctx (w_env w) c n = Live"
  using assms by (simp_all add: liveEnv_def stepped_def)

lemma run_read:
  assumes "liveEnv (w_env w)"
  shows "run_state (storeRead c f) w = (f Live (w_db w), stepped w)"
  using live_simps [OF assms] by (simp add: storeRead_def)

lemma run_write:
  assumes "liveEnv (w_env w)"
  shows "run_state (storeWrite c f) w =
    (case f (e_clock (w_env w) (w_step w)) Live (w_db w) of
       Inl e \<Rightarrow> (Inl e, stepped w) | Inr (d, a) \<Rightarrow> (Inr a, (stepped w)\<lparr>w_db := d\<rparr>))"
  using live_simps [OF assms] by (simp add: storeWrite_def)

definition editedRow :: "string \<Rightarrow> subtask_status option \<Rightarrow> time \<Rightarrow> subtask_row \<Rightarrow> subtask_row" where
  "editedRow title st now q = q\<lparr>
     q_title := (if trimSpace title = [] then q_title q else trimSpace title),
     q_status := (case st of None \<Rightarrow> q_status q | Some x \<Rightarrow> x), q_updated_at := now\<rparr>"

lemma edit_row: "updateSubtaskRow now (editedSubtask title st (scanSubtask q)) q = editedRow title st now q"
  by (cases q) (simp add: updateSubtaskRow_def editedSubtask_def scanSubtask_def editedRow_def Let_def split: option.splits)

lemma updateWhere_key:
  assumes "distinct (map key rs)" "lookupBy key k rs = Some r" "f r = g r"
  shows "updateWhere (\<lambda>x. key x = k) f rs = updateWhere (\<lambda>x. key x = k) g rs"
proof -
  have "f x = g x" if "x \<in> set rs" "key x = k" for x
    using that assms(1,3) lookupBy_SomeD [OF assms(2)] by (metis distinct_map inj_onD)
  then show ?thesis by (simp add: updateWhere_def)
qed

lemma updateSubtask_missing:
  assumes "liveEnv (w_env w)" "lookupBy q_id i (subtasks (w_db w)) = None" "i \<noteq> []"
    "run_state (updateSubtask i title st) w = (res, w')"
  shows "res = Inl (EditStore ENotFound)" "w_db w' = w_db w"
  using assms(2-4) live_simps [OF assms(1)]
  by (simp_all add: updateSubtask_def mSubtaskGet_def run_read [OF assms(1)] subtaskGet_def)

text \<open>Editing a subtask. With the database to itself, an edit of a subtask that exists is refused for a
  status that is none, and nothing changes; otherwise the title (when the given one is not
  blank), the status (when one is given) and the update time of its row change, and no other
  column, row or table.\<close>

theorem subtask_edit_outcome:
  assumes live: "liveEnv (w_env w)" and ok: "wfDB (w_db w)"
    and row: "lookupBy q_id i (subtasks (w_db w)) = Some q"
    and run: "run_state (updateSubtask i title st) w = (res, w')"
  shows "if \<exists>x. st = Some (SubtaskOther x)
    then (\<exists>x. res = Inl (EditStatus x)) \<and> w_db w' = w_db w
    else (\<exists>now. w_db w' = (w_db w)\<lparr>subtasks := updateWhere (\<lambda>x. q_id x = i) (editedRow title st now) (subtasks (w_db w))\<rparr>)
      \<and> res = Inr (editedSubtask title st (scanSubtask q))"
proof -
  note key = lookupBy_SomeD [OF row]
  have q: "subtaskRowOk q" "distinct (map q_id (subtasks (w_db w)))"
    using ok key by (auto simp: wfDB_def rowsOk_def keysOk_def)
  have i: "i \<noteq> []" using q(1) key by (auto simp: subtaskRowOk_iff)
  have live1: "liveEnv (w_env (stepped w))" using live by simp
  have read: "run_state (mSubtaskGet CallCtx i) w = (Inr (scanSubtask q), stepped w)"
    using row by (simp add: mSubtaskGet_def run_read [OF live] subtaskGet_def)
  show ?thesis
  proof (cases "\<exists>x. st = Some (SubtaskOther x)")
    case True
    then show ?thesis
      using run i read live_simps [OF live] by (auto simp: updateSubtask_def)
  next
    case False
    then have st: "(case st of None \<Rightarrow> None | Some x \<Rightarrow> if subtaskStatusValid x then None else Some x) = None"
      by (auto split: option.splits elim: subtaskStatusValid.elims)
    let ?s = "editedSubtask title st (scanSubtask q)" and ?now = "e_clock (w_env w) (Suc (w_step w))"
    have "subtaskValidate ?s = None"
      using q(1) st by (auto simp: subtaskValidate_None subtaskRowOk_iff editedSubtask_def scanSubtask_def Let_def
          split: option.splits if_splits)
    moreover have "sID ?s = i"
      using key by (auto simp: editedSubtask_def scanSubtask_def Let_def split: option.splits)
    moreover have "countWhere (\<lambda>x. q_id x = i) (subtasks (w_db w)) \<noteq> 0"
      using key by (auto simp: countWhere_0)
    moreover have "updateWhere (\<lambda>x. q_id x = i) (updateSubtaskRow ?now ?s) (subtasks (w_db w)) =
        updateWhere (\<lambda>x. q_id x = i) (editedRow title st ?now) (subtasks (w_db w))"
      by (rule updateWhere_key [OF q(2) row]) (rule edit_row)
    ultimately have "run_state (mSubtaskUpdate CallCtx ?s) (stepped w) =
      (Inr (), (stepped (stepped w))\<lparr>w_db := (w_db w)\<lparr>subtasks :=
         updateWhere (\<lambda>x. q_id x = i) (editedRow title st ?now) (subtasks (w_db w))\<rparr>\<rparr>)"
      using live_simps [OF live]
      by (simp add: mSubtaskUpdate_def run_write [OF live1] subtaskUpdate_def Let_def) (simp add: stepped_def)
    with run i read st False show ?thesis by (auto simp: updateSubtask_def)
  qed
qed

theorem subtask_edit_outcome_witness:
  "map q_status (subtasks (w_db (snd (run_state (updateSubtask ''s1'' '' '' (Some SubtaskDone)) (sampleApp sampleDB))))) =
     [SubtaskDone]"
proof -
  obtain res w' where run: "run_state (updateSubtask ''s1'' '' '' (Some SubtaskDone)) (sampleApp sampleDB) = (res, w')"
    by fastforce
  have row: "lookupBy q_id ''s1'' (subtasks (w_db (sampleApp sampleDB))) =
      Some (subtaskRowOf 1 1 (sampleSubtask ''s1'' [] 0))"
    by (simp add: sampleDB_def subtaskRowOf_def sampleSubtask_def)
  from subtask_edit_outcome [OF _ _ row run] liveEnv_sample wfDB_sample run show ?thesis
    by (auto simp: sampleDB_def updateWhere_def editedRow_def subtaskRowOf_def sampleSubtask_def)
qed

text \<open>The edit writes back every column it read. When the scheduler finishes the subtask between the two, a
  new title undoes the finish.\<close>

definition finishedMeanwhile :: env where
  "finishedMeanwhile = (quietEnv (\<lambda>_ _. Live))\<lparr>e_others := \<lambda>n. if n = 1
     then [OpSubtaskUpdate 50 Live ((sampleSubtask ''s1'' [] 0)\<lparr>sStatus := SubtaskDone\<rparr>)] else []\<rparr>"

lemma rename_undoes_finish:
  "map (\<lambda>q. (q_title q, q_status q)) (subtasks (w_db (snd (run_state (updateSubtask ''s1'' ''new'' None)
     ((sampleApp sampleDB)\<lparr>w_env := finishedMeanwhile\<rparr>))))) = [(''new'', SubtaskPending)]"
  by code_simp

text \<open>A subtask the user adds belongs to the first round, so after a replanning it is not among those the
  scheduler loads.\<close>

lemma maxRoundOf_add:
  assumes "q_task_id q = t" "q_round q \<le> maxRoundOf t d" "1 \<le> maxRoundOf t d"
  shows "maxRoundOf t (d\<lparr>subtasks := subtasks d @ [q]\<rparr>) = maxRoundOf t d"
proof (cases "map q_round (filter (\<lambda>q. q_task_id q = t) (subtasks d))")
  case Nil
  then show ?thesis using assms by (simp add: maxRoundOf_def)
next
  case (Cons x xs)
  then show ?thesis using assms by (simp add: maxRoundOf_def)
qed

lemma added_subtask_never_runs:
  assumes live: "liveEnv (w_env w)" and rounds: "2 \<le> maxRoundOf (csTaskID inp) (w_db w)"
    and run: "run_state (createSubtask inp) w = (Inr s, w')"
    and next_round: "subtaskListLatestRound Live (csTaskID inp) (w_db w') = Inr ss"
  shows "sID s \<notin> sID ` set ss"
proof -
  obtain q now i idx where s: "s = newSubtask inp i idx now"
    and db: "w_db w' = (w_db w)\<lparr>subtasks := subtasks (w_db w) @ [q]\<rparr>"
    and q: "q_task_id q = csTaskID inp" "q_round q = 1" "q_id q = i" "i \<notin> q_id ` set (subtasks (w_db w))"
    using run
    by (auto simp: createSubtask_def mTaskGet_def nextOrderIdx_def mSubtaskMaxOrderIdx_def mSubtaskCreate_def
        newULID_def readClock_def run_read run_write live live_simps subtaskCreate_def insertSubtask_def
        newSubtask_def Let_def hasKey_iff split: sum.splits if_splits option.splits)
  have top: "maxRoundOf (csTaskID inp) (w_db w') = maxRoundOf (csTaskID inp) (w_db w)"
    unfolding db using q rounds by (intro maxRoundOf_add) auto
  have "\<forall>z\<in>set (subtasks (w_db w)). q_id z \<noteq> i" using q(4) by (metis image_eqI)
  then have "sID x \<noteq> i" if "x \<in> set ss" for x
    using that next_round top rounds q(1-3) unfolding subtaskListLatestRound_def
    by (auto simp: db scanSubtask_def)
  then show ?thesis by (auto simp: s newSubtask_def)
qed

section \<open>The record of a session\<close>

lemma replace_keys: "map key (updateWhere (\<lambda>r. key r = key x) (\<lambda>_. x) rows) = map key rows"
  by (simp add: updateWhere_def)

lemma replace_lookup:
  "lookupBy key k (updateWhere (\<lambda>r. key r = key x) (\<lambda>_. x) rows) =
     (if k = key x \<and> key x \<in> key ` set rows then Some x else lookupBy key k rows)"
  by (induction rows) (auto simp: updateWhere_def)

lemma ctxUpsert_rows:
  assumes "ctxUpsert now c x d versions rows = Inr rows'"
  shows "let y = ctxFilled now x in
    rows' = (if ctxKey y \<in> ctxKey ` set rows then updateWhere (\<lambda>r. ctxKey r = ctxKey y) (\<lambda>_. y) rows else rows @ [y])"
  using assms unfolding ctxUpsert_def Let_def hasKey_iff by (simp split: option.splits if_splits)

lemma ctxUpsert_keys:
  assumes "ctxUpsert now c x d versions rows = Inr rows'" "distinct (map ctxKey rows)"
  shows "distinct (map ctxKey rows')"
  using ctxUpsert_rows [OF assms(1)] assms(2) by (auto simp: Let_def replace_keys split: if_splits)

lemma ctx_read_back:
  assumes "ctxUpsert now c x d versions rows = Inr rows'"
  shows "ctxGet Live i r rows' =
    (if (i, r) = ctxKey (ctxFilled now x) then Inr (ctxFilled now x) else ctxGet Live i r rows)"
proof -
  let ?y = "ctxFilled now x"
  have "lookupBy ctxKey (i, r) rows' = (if (i, r) = ctxKey ?y then Some ?y else lookupBy ctxKey (i, r) rows)"
    using ctxUpsert_rows [OF assms] lookupBy_None [of ctxKey "ctxKey ?y" rows]
    by (auto simp: Let_def replace_lookup split: if_splits option.splits)
  then show ?thesis by (auto simp: ctxGet_def)
qed

text \<open>A run without a stored charter, or whose charter is gone, is shown with the charter of today.\<close>

lemma context_shows_todays_charter:
  assumes "ctxGet Live i rnd rows = Inr x" "scHarnessVersionID x = []" "trimSpace i \<noteq> []" "0 < rnd"
  shows "map_sum id siHarnessMD (getSubtaskContext (\<lambda>_. Live) versions (Inr today) i rnd rows) = Inr today"
  using assms by (simp add: getSubtaskContext_def)

end
