(* ===== verification/Review_Session.thy ===== *)
theory Review_Session
  imports Session_Theorems Go_Trim Dispatch
begin

text \<open>
  A review session of \<open>internal/copilot/reviewer.go\<close>: the events of the SDK are forwarded line by line, the
  assistant's text is collected, and the last line of it decides on the task. The session is a
  script as in Session; writes are denied whatever they name.
\<close>

section \<open>The verdict\<close>

definition approvalMarker :: string where
  "approvalMarker = ''APPROVE''"

definition reworkMarker :: string where
  "reworkMarker = ''REWORK:''"

definition noDetails :: string where
  "noDetails = ''AI Reviewer requested rework without providing details''"

text \<open>From the end to the first line that is not blank.\<close>

fun lastNonBlank :: "string list \<Rightarrow> nat \<Rightarrow> (nat \<times> string) option" where
  "lastNonBlank ls 0 = None"
| "lastNonBlank ls (Suc i) =
     (let ln = trimSpace (ls ! i) in if ln \<noteq> [] then Some (i, ln) else lastNonBlank ls i)"

definition feedbackOf :: "string \<Rightarrow> string" where
  "feedbackOf line =
     (let fb = trimSpace (trimPrefix line reworkMarker) in if fb = [] then noDetails else fb)"

definition parseReviewDecision :: "string \<Rightarrow> review_decision" where
  "parseReviewDecision transcript =
     (let trimmed = trimSpace transcript
      in if trimmed = [] then \<lparr>rdApprove = True, rdFeedback = [], rdSummary = []\<rparr>
         else let lines = splitOn NL trimmed;
                  (idx, final) = (case lastNonBlank lines (length lines) of Some r \<Rightarrow> r | None \<Rightarrow> (0, []));
                  summary = (if idx > 0 then trimSpace (joinWith [NL] (take idx lines)) else [])
              in if hasPrefix final approvalMarker
                 then \<lparr>rdApprove = True, rdFeedback = [], rdSummary = summary\<rparr>
                 else if hasPrefix final reworkMarker
                 then \<lparr>rdApprove = False, rdFeedback = feedbackOf final, rdSummary = summary\<rparr>
                 else \<lparr>rdApprove = True, rdFeedback = [], rdSummary = trimmed\<rparr>)"

section \<open>The session\<close>

record review_script = session_script +
  rn_flushed :: "nat option"

datatype review_failure =
    RevNoWorktree
  | RevGuard path_error
  | RevCreate string
  | RevSend string
  | RevContext string

record review_state =
  rsMapper :: session_mapper
  rsUsage :: session_usage
  rsTranscript :: string
  rsOut :: "agent_event list"

fun payloadText :: "payload \<Rightarrow> string" where
  "payloadText (PText s) = s"
| "payloadText _ = []"

definition noteText :: "agent_event list \<Rightarrow> string" where
  "noteText es = concat (map (\<lambda>e. if eKind e = EventAssistantDelta then payloadText (ePayload e) @ [NL] else []) es)"

definition reviewEvent :: "(line_bufs \<Rightarrow> line_bufs) \<Rightarrow> sdk_event \<Rightarrow> nat option \<Rightarrow> review_state \<Rightarrow> review_state" where
  "reviewEvent order e k st =
     (case e of SdkUsage d \<Rightarrow> st\<lparr>rsUsage := usageAdd (rsUsage st) d\<rparr>
      | SdkIdle \<Rightarrow> st
      | _ \<Rightarrow> let (es, m) = mapEvent order (rsMapper st) e
             in st\<lparr>rsMapper := m, rsTranscript := rsTranscript st @ noteText es, rsOut := rsOut st @ sentOf k es\<rparr>)"

fun runReview ::
  "(line_bufs \<Rightarrow> line_bufs) \<Rightarrow> path_guard \<Rightarrow> session_step list \<Rightarrow> review_state \<Rightarrow> review_state option" where
  "runReview order g [] st = Some st"
| "runReview order g (StepEvent e k # ss) st = runReview order g ss (reviewEvent order e k st)"
| "runReview order g (StepRequest fs r # ss) st =
     (case denyWrites fs g r of None \<Rightarrow> None | Some _ \<Rightarrow> runReview order g ss st)"

definition noDecision :: review_decision where
  "noDecision = \<lparr>rdApprove = False, rdFeedback = [], rdSummary = []\<rparr>"

definition freshReview :: review_state where
  "freshReview = \<lparr>rsMapper = newSessionMapper, rsUsage = zeroUsage, rsTranscript = [], rsOut = []\<rparr>"

type_synonym review_return =
  "review_decision \<times> string \<times> session_usage \<times> review_failure option \<times> agent_event list"

definition endReview :: "review_script \<Rightarrow> string \<Rightarrow> review_state \<Rightarrow> review_return" where
  "endReview rn model st =
     (let rest = flushMapper (sn_order rn) (rsMapper st)
      in case sn_end rn of
        EndSendFailed m \<Rightarrow> (noDecision, [], rsUsage st, Some (RevSend m), rsOut st)
      | EndContext m room \<Rightarrow> (noDecision, [], rsUsage st, Some (RevContext m), rsOut st @ roomFor room rest)
      | EndIdle \<Rightarrow> (parseReviewDecision (rsTranscript st @ noteText rest), model, rsUsage st, None,
                    rsOut st @ sentOf (rn_flushed rn) rest))"

definition reviewSession :: "review_script \<Rightarrow> string \<Rightarrow> task \<Rightarrow> review_return option" where
  "reviewSession rn defaultModel t =
     (if tWorktreePath t = [] then Some (noDecision, [], zeroUsage, Some RevNoWorktree, [])
      else
        let model = (if tReviewModel t = [] then defaultModel else tReviewModel t)
        in case newGuard (sn_fs rn) (tWorktreePath t) of None \<Rightarrow> None
           | Some (Inl e) \<Rightarrow> Some (noDecision, [], zeroUsage, Some (RevGuard e), [])
           | Some (Inr g) \<Rightarrow>
               (case sn_create rn of Some m \<Rightarrow> Some (noDecision, [], zeroUsage, Some (RevCreate m), [])
                | None \<Rightarrow> map_option (endReview rn model) (runReview (sn_order rn) g (sn_steps rn) freshReview)))"

text \<open>What the diff adds and removes, cut for the search of the memory.\<close>

definition headerPrefixes :: "string list" where
  "headerPrefixes = [''@@'', ''+++'', ''---'', ''diff '', ''index '']"

fun diffText :: "string list \<Rightarrow> string \<Rightarrow> string" where
  "diffText [] b = b"
| "diffText (l # ls) b =
     (if l = [] \<or> list_ex (hasPrefix l) headerPrefixes then diffText ls b
      else let b' = (if hd l = CHR ''+'' \<or> hd l = CHR ''-'' then b @ tl l @ '' '' else b)
           in if length b' > 240 then b' else diffText ls b')"

definition diffSummary :: "string \<Rightarrow> string" where
  "diffSummary diff = (if diff = [] then []
     else take 240 (trimSpace (diffText (splitOn NL diff) [])))"

section \<open>The last line decides\<close>

definition verdictOf :: "string \<Rightarrow> string \<Rightarrow> review_decision \<Rightarrow> bool" where
  "verdictOf before line d \<longleftrightarrow>
     (if hasPrefix line reworkMarker
      then d = \<lparr>rdApprove = False, rdFeedback = feedbackOf line, rdSummary = trimSpace before\<rparr>
      else rdApprove d \<and> rdFeedback d = [] \<and> (hasPrefix line approvalMarker \<longrightarrow> rdSummary d = trimSpace before))"

lemma markers_differ: "hasPrefix l reworkMarker \<Longrightarrow> \<not> hasPrefix l approvalMarker"
  by (auto simp: hasPrefix_iff reworkMarker_def approvalMarker_def)

lemma trim_nothing: "stripHead goSpaces s = [] \<Longrightarrow> trimSpace s = []"
  by (simp add: trimSpace_def)

lemma final_line_decides:
  assumes l: "solid l" "NL \<notin> set l" and p: "p = [] \<or> last p = NL"
  shows "verdictOf p l (parseReviewDecision (p @ l @ [NL]))"
proof -
  have trim: "trimSpace l = l" "l \<noteq> []" using l(1) by (auto simp: trim_solid solid_def)
  consider (alone) "trimSpace (p @ l @ [NL]) = l" "trimSpace p = []"
    | (after) s where "trimSpace (p @ l @ [NL]) = s @ NL # l" "trimSpace p = trimSpace s"
  proof (cases "p = []")
    case True
    then show thesis using that(1) trim_last_line(2) [OF l(1)] by simp
  next
    case False
    with p obtain q where q: "p = q @ [NL]" by (metis append_butlast_last_id)
    have "stripHead goSpaces p = (if stripHead goSpaces q = [] then [] else stripHead goSpaces q @ [NL])"
      unfolding q using strip_before_newline [of q "[]"] by simp
    then have "trimSpace p = trimSpace (stripHead goSpaces q)"
      by (auto simp: trimSpace_def strip_newline)
    then show thesis
      using that trim_last_line(1) [OF l(1), of q] trim_nothing [of q] q by (cases "stripHead goSpaces q = []") auto
  qed
  then show ?thesis
  proof cases
    case alone
    then show ?thesis
      using trim l(2) markers_differ [of l]
      by (auto simp: parseReviewDecision_def Let_def splitOn_no verdictOf_def)
  next
    case (after s)
    have lines: "splitOn NL (s @ NL # l) = splitOn NL s @ [l]"
      using l(2) by (simp add: splitOn_append_sep splitOn_no)
    have "length (splitOn NL s) > 0" by simp
    moreover have "lastNonBlank (splitOn NL s @ [l]) (Suc (length (splitOn NL s))) = Some (length (splitOn NL s), l)"
      using trim by simp
    ultimately show ?thesis
      using after trim markers_differ [of l]
      by (auto simp: parseReviewDecision_def Let_def lines verdictOf_def join_split)
  qed
qed

section \<open>The verdict of a session\<close>

fun eventsOf :: "session_step list \<Rightarrow> sdk_event list" where
  "eventsOf [] = []"
| "eventsOf (StepEvent e k # ss) = e # eventsOf ss"
| "eventsOf (StepRequest fs r # ss) = eventsOf ss"

definition endsLine :: "string \<Rightarrow> bool" where
  "endsLine s \<longleftrightarrow> s = [] \<or> last s = NL"

lemma endsLine_append: "endsLine a \<Longrightarrow> endsLine b \<Longrightarrow> endsLine (a @ b)"
  by (auto simp: endsLine_def last_append)

lemma noteText_endsLine: "endsLine (noteText es)"
  by (induction es rule: rev_induct) (auto simp: noteText_def endsLine_def)

lemma noteText_simps [simp]:
  "noteText [] = []" "noteText (a @ b) = noteText a @ noteText b"
  by (simp_all add: noteText_def)

lemma reviewEvent_mapper:
  "rsMapper (reviewEvent order e k st) = snd (mapEvent order (rsMapper st) e)"
  by (cases e) (auto simp: reviewEvent_def Let_def split: prod.splits)

lemma reviewEvent_transcript:
  "endsLine (rsTranscript st) \<Longrightarrow> endsLine (rsTranscript (reviewEvent order e k st))"
  by (cases e) (auto simp: reviewEvent_def Let_def noteText_endsLine endsLine_append split: prod.splits)

lemma runReview_state:
  "runReview order g ss st = Some st' \<Longrightarrow>
     rsMapper st' = foldl (\<lambda>m e. snd (mapEvent order m e)) (rsMapper st) (eventsOf ss)
     \<and> (endsLine (rsTranscript st) \<longrightarrow> endsLine (rsTranscript st'))"
  by (induction order g ss st rule: runReview.induct)
    (auto simp: reviewEvent_mapper reviewEvent_transcript split: option.splits)

lemma runReview_append:
  "runReview order g (ss @ ss') st =
     (case runReview order g ss st of None \<Rightarrow> None | Some st' \<Rightarrow> runReview order g ss' st')"
  by (induction order g ss st rule: runReview.induct) (auto split: option.splits)

lemma noteText_reasoning:
  "noteText (drainBufs order bufs EventAssistantReasoningDelta) = []"
  by (simp add: noteText_def drainBufs_def case_prod_beta concat_eq_Nil_conv blankEvent_def)

lemma drain_nothing:
  assumes "mset (order bufs) = mset bufs" "distinct (map fst bufs)" "\<And>i. bufOf bufs i = []"
  shows "drainBufs order bufs k = []"
proof -
  have "b = []" if "(i, b) \<in> set (order bufs)" for i b
  proof -
    have "(i, b) \<in> set bufs" using that assms(1) by (metis set_mset_mset)
    with assms(2) have "bufOf bufs i = b" by (simp add: bufOf_def)
    with assms(3) show ?thesis by simp
  qed
  then show ?thesis by (auto simp: drainBufs_def filter_empty_conv)
qed


text \<open>A verdict that goes on after its line is taken for its last line: a request for rework whose details
  stand below the marker approves the task.\<close>

lemma rework_over_two_lines_approves:
  "parseReviewDecision (''REWORK: see below'' @ NL # ''- add a test'') =
     \<lparr>rdApprove = True, rdFeedback = [], rdSummary = ''REWORK: see below'' @ NL # ''- add a test''\<rparr>"
  by code_simp

text \<open>The marker is a prefix, so a refusal that begins with the word approves.\<close>

lemma refusal_approves: "rdApprove (parseReviewDecision ''APPROVED? No, the build is broken.'')"
  by code_simp

text \<open>The prompt asks for feedback on the marker's line; a marker in lower case is none.\<close>

lemma lower_case_marker_approves: "rdApprove (parseReviewDecision ''rework: add a test'')"
  by code_simp

definition sampleReview :: review_script where
  "sampleReview = session_script.extend (sampleScript\<lparr>sn_steps :=
       [StepEvent (SdkMessageDelta ''m'' ''REWORK: ad'') None,
        StepEvent (SdkMessage ''m'' ''REWORK: add a test'') None, StepEvent SdkIdle None]\<rparr>)
     \<lparr>rn_flushed = None\<rparr>"

lemma sampleReview_sel [simp]:
  "sn_fs sampleReview = sampleFS" "sn_create sampleReview = None" "sn_end sampleReview = EndIdle"
  "sn_order sampleReview = (\<lambda>b. b)" "rn_flushed sampleReview = None"
  "sn_steps sampleReview = [StepEvent (SdkMessageDelta ''m'' ''REWORK: ad'') None,
        StepEvent (SdkMessage ''m'' ''REWORK: add a test'') None, StepEvent SdkIdle None]"
  by (simp_all add: sampleReview_def session_script.extend_def sampleScript_def)


end
