(* ===== verification/Spec2Isabelle.thy ===== *)
theory Spec2Isabelle
  imports Plan_Event_Theorems Review_Theorems Finalize Concurrency App_Theorems Patch Git_Theorems Reaper_Flags Session_Theorems Gateway Trust_Gate App_Subtasks Review_Session
begin

text \<open>
  FleetKanban runs coding agents on git worktrees. A desktop UI talks to a sidecar written in Go
  (\<open>src/sidecar\<close>): tasks are created on a board, a planner session breaks a task into subtasks,
  agent sessions carry the subtasks out in the task's worktree, a reviewer session judges the diff, the user
  decides whether the branch is merged, kept or discarded, and a housekeeping service cleans up behind
  it all. Events go to the UI through a broker and a stream; a context memory collects what sessions
  learned; a charter, edited by the user or by patches that failed reviews propose, tells the sessions how to
  work. This library models the sidecar's own logic, from the rows of its database to the calls of the UI,
  and proves what it promises. Paths below are relative to \<open>src/sidecar/internal\<close>.

  \<^bold>\<open>How the program is modelled.\<close> A store operation is a function from the time, the context of the call and the
  database to an error or the new database; the database is a record of tables in the order of their rows.
  Code that makes many calls is a program of the state monad over a \<open>world\<close> (theory World): the database, a
  step counter, and what the goroutine did so far. The world's environment \<open>env\<close> gives, for each step,
  the clock, the fresh id, the state of each context, and the operations and cancellations other goroutines
  squeeze in before the step; so a theorem without the hypothesis \<open>quiet\<close> or \<open>liveEnv\<close> holds under any
  interleaving at the granularity of the database's single connection. Handlers that need more state extend
  the record: \<open>orch_world\<close> (dispatchers, reviews and attempts), \<open>fin_world\<close> (git operations), \<open>app_world\<close>
  (spawned goroutines and cancelled sessions), \<open>reap_world\<close> (calls to git and to the file system), \<open>git_world\<close> (commands of the worktree
  manager). The broker's goroutines take atomic steps in any order; the services of the context memory and of
  the charter are functions on states of their own (\<open>memdb\<close>, \<open>skill_world\<close>). Errors are values of a sum or option type, integers of Go that can go negative are \<open>int\<close>, strings
  are lists of bytes, JSON text in a column is the value it encodes.

  \<^bold>\<open>What is a parameter.\<close> Everything outside the repository: what planner, agent, reviewer and proposer sessions of the
  Copilot SDK return (records \<open>agents\<close> and \<open>service\<close>), what git, the file system and the process runner answer
  (records \<open>manager\<close>, \<open>host\<close>, \<open>reaper\<close>), the semaphore library (\<open>admits\<close>), Unicode lower case
  (\<open>lower\<close>), hashes, the YAML library (\<open>unmarshal\<close>), the check of the Copilot login, and the matches of the planner's regular expression. Where a theorem needs documented behaviour of one of them, it is a
  hypothesis of the theorem and the witness instantiates it.

  \<^bold>\<open>Theories and sources.\<close>
    \<^item> FK_Prelude, Go_Text, Go_Trim: Go's \<open>strings\<close> and \<open>bufio\<close> functions, keyed tables (\<open>lookupBy\<close>, \<open>updateWhere\<close>), contexts.
    \<^item> Task_Model: \<open>task/\<close>, the types, the validators and the table of legal status changes.
    \<^item> Database, Task_Store, Subtask_Store, Event_Store, Repository_Store, Harness_Store: the tables of
      \<open>store/migrations.go\<close> and the stores over them, one definition per method. \<open>wfDB\<close> is the
      schema: keys, foreign keys, and the validation rules on each row. Deleting a task cascades to its subtasks and events in
      \<open>taskDelete\<close> and to its harness attempts in the handler; the other tables that reference tasks and subtasks (artifacts, run roots,
      recorded contexts) hold no rows here. A call that writes and then reads its row back (\<open>repoCreate\<close>, \<open>updateDecision\<close>) meets a
      context at each of the two, and can fail after the write is committed.
    \<^item> Store_Ops: every writing operation as one step \<open>dbStep\<close>, and locales for what clients rely on
      (\<open>invariant_steps\<close>, \<open>status_steps\<close>, \<open>cas_store\<close>), interpreted on the stores.
      Store_Theorems, Plan_Event_Theorems: their consequences for any sequence of store operations.
    \<^item> Write_Paths, Planner, World, Event_Emission, Wave_Scheduler, Dispatch, Ai_Review, Finalize,
      Concurrency: \<open>orchestrator/orchestrator.go\<close>, \<open>orchestrator/finalize.go\<close> and the plan half of \<open>copilot/planner.go\<close>, in the order a
      task meets them. Dispatch_Theorems, Task_Triples, Review_Theorems: their proofs.
    \<^item> App_Tasks, App_Theorems: the task operations of \<open>app/service.go\<close>, on top of the orchestrator.
      App_Subtasks: its operations on subtasks, \<open>store/subtask_context_store.go\<close>, and the view of what a session was told.
    \<^item> Git_Manager, Git_Theorems: \<open>worktree/\<close>, each operation as the commands it gives to git.
    \<^item> Patch: \<open>ihr/evolver.go\<close>, the parser and the application of a harness patch.
    \<^item> Reaper, Reaper_Theorems, Reaper_Flags: \<open>reaper/service.go\<close>.
    \<^item> Win_Path, Guard: \<open>copilot/permission.go\<close> on Go's Windows paths. Session, Session_Theorems: \<open>copilot/events.go\<close>,
      \<open>copilot/usage.go\<close> and the session loop of \<open>copilot/runner.go\<close>. Review_Session: \<open>copilot/reviewer.go\<close>.
    \<^item> Broker, Gateway: \<open>ipc/broker.go\<close>, and the interceptors and the event stream of \<open>ipc/auth.go\<close>, \<open>ipc/authgate.go\<close>
      and \<open>ipc/events.go\<close> on top of it and of the event store.
    \<^item> Memory_Store, Memory_Graph, Trust_Gate: the stores of \<open>ctxmem/store/\<close>, the closure of \<open>ctxmem/graph/graph.go\<close>,
      and \<open>ctxmem/promotion/promotion.go\<close> with the writing operations of \<open>ctxmem/svc/service.go\<close>.
    \<^item> Charter: \<open>ihr/charter.go\<close> and \<open>ihr/interpreter.go\<close>. Skill_Server, Skill_Theorems:
      \<open>store/harness_skill_store.go\<close>, \<open>ipc/harness_server.go\<close> and \<open>ipc/harness_attempt_server.go\<close>, which join the charter, the
      patches of Patch and the attempts of Harness_Store.
    \<^item> Log_Traces, Samples: the calculus of programs that only append to a log, and inputs for witnesses.

  \<^bold>\<open>What the groups of lemmas show.\<close>
    \<^item> Data: every interleaving of store operations keeps \<open>wfDB\<close>; a task's status takes single legal edges
      of the state machine, reaches done only after a decision, and of two writers that read the same status one wins.
      Event logs are numbered without gaps, plans are rounds, reading them back is lossless.
    \<^item> Scheduling: an accepted plan is topologically sorted; the subtask loop ends, runs each subtask once, never
      beside one whose declared paths overlap with its own, and never before its dependencies. Declared paths are compared as
      they are spelt, and globs inside a name escape the comparison.
    \<^item> A task's life: a dispatch touches its own task only, ends, and reports the outcome in the row; the review moves
      the task by the verdict and the rework cap; Finalize and the service's operations do what they
      say on every branch, errors included.
    \<^item> Git: a merge moves the base by compare and swap only, from the commit it was found at to the task's commit or a merge
      of the two, and nothing is deleted before it; removal and
      creation are confined to the task's own paths.
    \<^item> Housekeeping: only orphans, merged branches and archived events are deleted.
    \<^item> Sessions: a write that names a file is approved only at or below the worktree, links resolved; the first
      named escape is the session's error; streamed text reaches the UI line by line, nothing lost or reordered; a review is decided by the last line of its final message.
    \<^item> Events: no interleaving of publishers and subscribers sends on a closed channel, overfills one or blocks; a watcher that
      replays and then follows is never sent an event twice or out of order, and each event once while the broker, with one
      publisher, did not overflow; a call without the token or the login never reaches its
      handler.
    \<^item> Context memory: the closure holds exactly the shortest bounded ways; a proposal becomes a node by the
      user's decision, or by settings that allow it.
    \<^item> Charter: a text is accepted exactly when its graph leads from planning to a terminal; front matter is read
      back; conditions mean what they say; the history of charters only grows and holds accepted charters; an approval carries out the patch
      first and then writes the decision, if the attempt is still pending.
    \<^item> Lemmas with a concrete run (such as \<open>padded_ids_collapse\<close>, \<open>delete_races_dispatch\<close> or \<open>cancel_drops_buffered_events\<close>) show where the
      code falls short of its comments.

  \<^bold>\<open>Termination and bounds.\<close> Loops over lists are structural. Kahn's loop in \<open>topoSort\<close> has the number of
  nodes as fuel, and every round takes a node out of the queue; the wave loop has the number of subtasks as fuel,
  and every wave it does not stop at takes one away; the theorems that the loops end are about
  that fuel. The text scanners recurse on the length of their input. The searches of a graph need no fuel: a round looks
  at edges not looked at before or shortens the queue.

  \<^bold>\<open>Not modelled.\<close> Sessions of the Copilot SDK, their prompts and the login: what they decide comes from a language
  model. Retrieval, embeddings, injection and analysis of the context memory: floating-point scores over the
  answers of embedding servers. The conversion of messages of the gRPC layer over generated code, Windows integration, the entry point,
  the writer of run directories, set-up, static assets and the desktop UI: input and output. The settings, artifact and
  insights stores, and the service's operations on repositories, worktree listings, settings and tokens: plain
  reads and writes of rows. The migration runner; of the migrations the constraints of the modelled tables count.
\<close>

end
